(* ===== verification/Deck_Prelude.thy ===== *)
theory Deck_Prelude
  imports Main "HOL-Library.Code_Target_Nat"
begin

text \<open>
  What every component of the model shares: the time model, the parts of Rust's iterator
  vocabulary the sources use on lists (\<^verbatim>\<open>position\<close>, \<^verbatim>\<open>retain\<close> with a stateful closure, loops over
  a counter that runs down to zero), result values, and the collections of rewrite rules the
  component proofs draw on.

  Time. The daemon hands every operation the current \<^verbatim>\<open>Instant\<close>. An instant is the number of
  nanoseconds since some fixed origin and a \<^verbatim>\<open>Duration\<close> is a number of nanoseconds, both as \<^typ>\<open>nat\<close>.
  Rust's \<^verbatim>\<open>saturating_duration_since\<close> and \<^verbatim>\<open>duration_since\<close> answer zero for a later instant, which is
  what truncating subtraction on \<^typ>\<open>nat\<close> does.
\<close>

named_theorems inbox_simps \<open>field-wise effect of the inbox operations\<close>
named_theorems live_simps \<open>what the operations do to the live messages\<close>
named_theorems latch_simps \<open>the latch word and its phases\<close>
named_theorems txn_simps \<open>the doorbell transaction\<close>
named_theorems ledger_simps \<open>the ingress ledger\<close>

section \<open>Time\<close>

type_synonym instant = nat
type_synonym duration = nat

definition from_millis :: "nat \<Rightarrow> duration" where
  "from_millis ms = ms * 1000000"

definition from_secs :: "nat \<Rightarrow> duration" where
  "from_secs s = s * 1000000000"

definition u64_max :: nat where
  "u64_max = 18446744073709551615"

definition u32_max :: nat where
  "u32_max = 4294967295"

section \<open>Results\<close>

text \<open>\<^verbatim>\<open>Result<A, E>\<close> is \<open>'e + 'a\<close>; this is the question-mark operator.\<close>

fun and_then :: "'e + 'a \<Rightarrow> ('a \<Rightarrow> 'e + 'b) \<Rightarrow> 'e + 'b" where
  "and_then (Inl e) f = Inl e"
| "and_then (Inr x) f = f x"

lemma and_then_Inr: "and_then r f = Inr y \<longleftrightarrow> (\<exists>x. r = Inr x \<and> f x = Inr y)"
  by (cases r) auto

lemma and_then_unit: "and_then r (\<lambda>_. r') = Inr () \<longleftrightarrow> r = Inr () \<and> r' = Inr ()"
  by (cases r) auto

section \<open>Lists the way the sources walk them\<close>

fun position :: "('a \<Rightarrow> bool) \<Rightarrow> 'a list \<Rightarrow> nat option" where
  "position p [] = None"
| "position p (x # xs) = (if p x then Some 0 else map_option Suc (position p xs))"

text \<open>\<^verbatim>\<open>iter_mut().find(p)\<close>: a change of the first element that matches.\<close>

fun change_first :: "('a \<Rightarrow> bool) \<Rightarrow> ('a \<Rightarrow> 'a) \<Rightarrow> 'a list \<Rightarrow> 'a list" where
  "change_first p f [] = []"
| "change_first p f (x # xs) = (if p x then f x # xs else x # change_first p f xs)"

text \<open>A \<^verbatim>\<open>while index > 0 { index -= 1; body(index) }\<close> loop.\<close>

primrec down_from :: "(nat \<Rightarrow> 's \<Rightarrow> 's) \<Rightarrow> nat \<Rightarrow> 's \<Rightarrow> 's" where
  "down_from body 0 s = s"
| "down_from body (Suc i) s = down_from body i (body i s)"

text \<open>\<^verbatim>\<open>Vec::retain\<close> with a closure that keeps a state.\<close>

fun retain_with :: "('a \<Rightarrow> 's \<Rightarrow> bool \<times> 's) \<Rightarrow> 's \<Rightarrow> 'a list \<Rightarrow> 'a list" where
  "retain_with f s [] = []"
| "retain_with f s (x # xs) =
     (case f x s of (keep, s') \<Rightarrow>
        (if keep then x # retain_with f s' xs else retain_with f s' xs))"

lemma length_change_first [simp]: "length (change_first p f xs) = length xs"
  by (induction xs) auto

lemma map_change_first: "(\<And>x. g (f x) = g x) \<Longrightarrow> map g (change_first p f xs) = map g xs"
  by (induction xs) auto

lemma set_change_first: "y \<in> set (change_first p f xs) \<Longrightarrow> \<exists>x \<in> set xs. y = x \<or> (p x \<and> y = f x)"
  by (induction xs) (auto split: if_splits)

lemma position_None_iff: "position p xs = None \<longleftrightarrow> (\<forall>x \<in> set xs. \<not> p x)"
  by (induction xs) auto

lemma position_SomeD:
  "position p xs = Some i \<Longrightarrow> i < length xs \<and> p (xs ! i) \<and> (\<forall>j < i. \<not> p (xs ! j))"
proof (induction xs arbitrary: i)
  case Nil
  then show ?case by simp
next
  case (Cons x xs)
  show ?case
  proof (cases "p x")
    case True
    with Cons.prems show ?thesis by auto
  next
    case False
    with Cons.prems obtain k where k: "position p xs = Some k" "i = Suc k" by auto
    from Cons.IH[OF k(1)] have "k < length xs" "p (xs ! k)" "\<forall>j < k. \<not> p (xs ! j)" by auto
    with False k(2) show ?thesis by (auto simp: less_Suc_eq_0_disj nth_Cons split: nat.splits)
  qed
qed

lemma position_less: "position p xs = Some i \<Longrightarrow> i < length xs"
  by (simp add: position_SomeD)

lemma position_holds: "position p xs = Some i \<Longrightarrow> p (xs ! i)"
  by (simp add: position_SomeD)

lemma position_find: "map_option ((!) xs) (position p xs) = find p xs"
  by (induction xs) (auto simp: option.map_comp comp_def)

lemma position_SomeI:
  assumes "i < length xs" "p (xs ! i)" "\<And>j. j < i \<Longrightarrow> \<not> p (xs ! j)"
  shows "position p xs = Some i"
proof (cases "position p xs")
  case None
  with assms(1,2) show ?thesis by (auto simp: position_None_iff)
next
  case (Some k)
  note k = position_SomeD[OF Some]
  have "k = i"
  proof (rule ccontr)
    assume "k \<noteq> i"
    then consider "k < i" | "i < k" by linarith
    then show False using k assms by cases auto
  qed
  with Some show ?thesis by simp
qed

lemma position_exI: "x \<in> set xs \<Longrightarrow> p x \<Longrightarrow> \<exists>i. position p xs = Some i"
  by (cases "position p xs") (auto simp: position_None_iff)

lemma down_from_inv:
  assumes "I s" and "\<And>i s. I s \<Longrightarrow> i < n \<Longrightarrow> I (body i s)"
  shows "I (down_from body n s)"
  using assms
proof (induction n arbitrary: s)
  case 0
  then show ?case by simp
next
  case (Suc n)
  then show ?case by simp
qed

text \<open>
  The rule for the down-counting loops: \<^term>\<open>J\<close> holds for a state in which every index from
  \<^term>\<open>k\<close> on has been handled.
\<close>

lemma down_from_rule:
  assumes "J n s" and "\<And>i s. J (Suc i) s \<Longrightarrow> i < n \<Longrightarrow> J i (body i s)"
  shows "J 0 (down_from body n s)"
  using assms
proof (induction n arbitrary: s)
  case 0
  then show ?case by simp
next
  case (Suc n)
  then show ?case by simp
qed

lemma set_retain_with: "set (retain_with f s xs) \<subseteq> set xs"
proof (induction xs arbitrary: s)
  case Nil
  show ?case by simp
next
  case (Cons x xs)
  from Cons.IH show ?case by (auto split: prod.splits)
qed

lemma filter_retain_with:
  assumes "\<And>x s. x \<in> set xs \<Longrightarrow> P x \<Longrightarrow> f x s = (True, s)"
  shows "filter P (retain_with f s xs) = filter P xs"
  using assms
proof (induction xs arbitrary: s)
  case Nil
  then show ?case by simp
next
  case (Cons x xs)
  have IH: "filter P (retain_with f t xs) = filter P xs" for t
    by (rule Cons.IH) (use Cons.prems in auto)
  show ?case
  proof (cases "P x")
    case True
    with Cons.prems[of x s] IH show ?thesis by simp
  next
    case False
    with IH show ?thesis by (simp split: prod.splits)
  qed
qed

lemma distinct_retain_with: "distinct (map g xs) \<Longrightarrow> distinct (map g (retain_with f s xs))"
proof (induction xs arbitrary: s)
  case Nil
  show ?case by simp
next
  case (Cons x xs)
  obtain keep s' where fx: "f x s = (keep, s')" by (cases "f x s")
  from Cons.prems have notin: "g x \<notin> g ` set xs" and dist: "distinct (map g xs)" by simp_all
  have "g x \<notin> g ` set (retain_with f s' xs)"
    using notin image_mono[OF set_retain_with[of f s' xs], of g] by (rule contra_subsetD[rotated])
  with Cons.IH[OF dist, of s'] fx show ?case by simp
qed

lemma length_filter_list_update:
  assumes "i < length xs" "P (xs ! i) = P y"
  shows "length (filter P (xs[i := y])) = length (filter P xs)"
  using assms
proof (induction xs arbitrary: i)
  case Nil
  then show ?case by simp
next
  case (Cons x xs)
  then show ?case by (cases i) auto
qed

lemma length_filter_list_update_le:
  assumes "i < length xs" "P y \<longrightarrow> P (xs ! i)"
  shows "length (filter P (xs[i := y])) \<le> length (filter P xs)"
  using assms
proof (induction xs arbitrary: i)
  case Nil
  then show ?case by simp
next
  case (Cons x xs)
  then show ?case by (cases i) (auto simp: le_SucI)
qed

lemma length_filter_list_update_Suc:
  assumes "i < length xs" "P (xs ! i) \<or> P y"
  shows "length (filter P (xs[i := y])) \<le> Suc (length (filter P xs))"
  using assms
proof (induction xs arbitrary: i)
  case Nil
  then show ?case by simp
next
  case (Cons x xs)
  show ?case
  proof (cases i)
    case 0
    then show ?thesis by simp
  next
    case (Suc k)
    with Cons.prems Cons.IH[of k] show ?thesis by auto
  qed
qed

lemma set_list_update_nth: "i < length xs \<Longrightarrow> set (xs[i := y]) \<subseteq> insert y (set xs)"
  by (rule set_update_subset_insert)

lemma ball_list_updateI:
  "(\<And>x. x \<in> set xs \<Longrightarrow> P x) \<Longrightarrow> P y \<Longrightarrow> x \<in> set (xs[i := y]) \<Longrightarrow> P x"
  using set_update_subset_insert[of xs i y] by blast

end
