(* ===== verification/Rust_Str.thy ===== *)
theory Rust_Str
  imports Deck_Prelude
begin

text \<open>
  Rust's \<^verbatim>\<open>str\<close> as the sources use it. A string is its UTF-8 bytes, a \<^typ>\<open>string\<close> whose
  characters are bytes, so \<^const>\<open>length\<close> is \<^verbatim>\<open>str::len\<close>. The theory models the UTF-8 decoder
  behind \<^verbatim>\<open>str::chars\<close> and \<^verbatim>\<open>String::from_utf8\<close>, the encoder behind \<^verbatim>\<open>String::push\<close>, the
  character boundaries \<^verbatim>\<open>str::is_char_boundary\<close> answers, the checked slice \<^verbatim>\<open>str::get\<close>,
  and the ASCII classes on bytes. A Unicode scalar value is a \<^typ>\<open>nat\<close>.
\<close>

type_synonym scalar = nat

section \<open>Bytes\<close>

definition byte_of :: "char \<Rightarrow> nat" where
  "byte_of c = of_char c"

definition of_byte :: "nat \<Rightarrow> char" where
  "of_byte n = char_of n"

lemma byte_of_less [simp]: "byte_of c < 256"
  by (simp add: byte_of_def of_char_def)

lemma of_byte_byte_of [simp]: "of_byte (byte_of c) = c"
  by (simp add: byte_of_def of_byte_def)

lemma byte_of_of_byte [simp]: "n < 256 \<Longrightarrow> byte_of (of_byte n) = n"
  by (simp add: byte_of_def of_byte_def)

lemma byte_of_inject [simp]: "byte_of c = byte_of d \<longleftrightarrow> c = d"
  by (metis of_byte_byte_of)

definition is_ascii_lowercase :: "char \<Rightarrow> bool" where
  "is_ascii_lowercase c \<longleftrightarrow> 97 \<le> byte_of c \<and> byte_of c \<le> 122"

definition is_ascii_uppercase :: "char \<Rightarrow> bool" where
  "is_ascii_uppercase c \<longleftrightarrow> 65 \<le> byte_of c \<and> byte_of c \<le> 90"

definition is_ascii_digit :: "char \<Rightarrow> bool" where
  "is_ascii_digit c \<longleftrightarrow> 48 \<le> byte_of c \<and> byte_of c \<le> 57"

definition is_ascii_alphanumeric :: "char \<Rightarrow> bool" where
  "is_ascii_alphanumeric c \<longleftrightarrow>
     is_ascii_lowercase c \<or> is_ascii_uppercase c \<or> is_ascii_digit c"

text \<open>A lower-case hexadecimal digit, as the sources test it: \<^verbatim>\<open>is_ascii_digit\<close> or \<^verbatim>\<open>b'a'..=b'f'\<close>.\<close>

definition is_lower_hex :: "char \<Rightarrow> bool" where
  "is_lower_hex c \<longleftrightarrow> is_ascii_digit c \<or> (97 \<le> byte_of c \<and> byte_of c \<le> 102)"

lemmas ascii_defs = is_ascii_lowercase_def is_ascii_uppercase_def is_ascii_digit_def
  is_ascii_alphanumeric_def is_lower_hex_def

section \<open>Hexadecimal\<close>

text \<open>\<^verbatim>\<open>{:x}\<close> of one digit, \<^verbatim>\<open>{:02x}\<close> of one byte, and \<^verbatim>\<open>from_str_radix(_, 16)\<close> of two digits.\<close>

definition hex_digit :: "nat \<Rightarrow> char" where
  "hex_digit n = of_byte (if n < 10 then 48 + n else 87 + n)"

definition hex_byte :: "nat \<Rightarrow> string" where
  "hex_byte n = [hex_digit (n div 16), hex_digit (n mod 16)]"

definition hex_value :: "char \<Rightarrow> nat" where
  "hex_value c = (if is_ascii_digit c then byte_of c - 48 else byte_of c - 87)"

definition from_hex2 :: "char \<Rightarrow> char \<Rightarrow> nat" where
  "from_hex2 c d = 16 * hex_value c + hex_value d"

lemma hex_digit_props:
  assumes "n < 16"
  shows "is_lower_hex (hex_digit n)" "hex_value (hex_digit n) = n"
  using assms by (auto simp: hex_digit_def hex_value_def ascii_defs)

lemma from_hex2_hex_byte:
  assumes "n < 256"
  shows "from_hex2 (hex_digit (n div 16)) (hex_digit (n mod 16)) = n"
proof -
  have "n div 16 < 16" using assms by simp
  then show ?thesis by (simp add: from_hex2_def hex_digit_props)
qed

lemma from_hex2_less: "is_lower_hex c \<Longrightarrow> is_lower_hex d \<Longrightarrow> from_hex2 c d < 256"
  by (auto simp: from_hex2_def hex_value_def ascii_defs)

lemma hex_byte_less_128: "c \<in> set (hex_byte n) \<Longrightarrow> n < 256 \<Longrightarrow> byte_of c < 128"
  by (auto simp: hex_byte_def hex_digit_def)

section \<open>Decimal\<close>

text \<open>\<^verbatim>\<open>{}\<close> of an unsigned number, and the value its digits stand for.\<close>

fun nat_string :: "nat \<Rightarrow> string" where
  "nat_string n = (if n < 10 then [hex_digit n] else nat_string (n div 10) @ [hex_digit (n mod 10)])"

declare nat_string.simps [simp del]

definition digits_value :: "string \<Rightarrow> nat" where
  "digits_value ds = foldl (\<lambda>n d. 10 * n + (byte_of d - 48)) 0 ds"

lemma nat_string_value: "digits_value (nat_string n) = n"
proof (induction n rule: nat_string.induct)
  case (1 n)
  have digit: "d < 10 \<Longrightarrow> byte_of (hex_digit d) - 48 = d" for d by (simp add: hex_digit_def)
  show ?case
  proof (cases "n < 10")
    case True
    then show ?thesis by (simp add: nat_string.simps digits_value_def digit)
  next
    case False
    then have "digits_value (nat_string (n div 10)) = n div 10" using 1 by blast
    then show ?thesis using False
      by (subst nat_string.simps) (simp add: digits_value_def digit)
  qed
qed

lemma nat_string_inject [simp]: "nat_string m = nat_string n \<longleftrightarrow> m = n"
  by (metis nat_string_value)

section \<open>UTF-8\<close>

definition is_cont :: "nat \<Rightarrow> bool" where
  "is_cont b \<longleftrightarrow> 128 \<le> b \<and> b < 192"

definition is_scalar :: "nat \<Rightarrow> bool" where
  "is_scalar c \<longleftrightarrow> c < 55296 \<or> (57344 \<le> c \<and> c < 1114112)"

definition utf8_enc1 :: "scalar \<Rightarrow> nat list" where
  "utf8_enc1 c =
     (if c < 128 then [c]
      else if c < 2048 then [192 + c div 64, 128 + c mod 64]
      else if c < 65536 then [224 + c div 4096, 128 + (c div 64) mod 64, 128 + c mod 64]
      else [240 + c div 262144, 128 + (c div 4096) mod 64, 128 + (c div 64) mod 64,
            128 + c mod 64])"

definition utf8_enc :: "scalar list \<Rightarrow> nat list" where
  "utf8_enc cs = concat (map utf8_enc1 cs)"

text \<open>
  The strict decoder: a lead byte, its continuation bytes, and the value they spell in range
  for that length and no surrogate.
\<close>

fun utf8_dec1 :: "nat list \<Rightarrow> (scalar \<times> nat list) option" where
  "utf8_dec1 [] = None"
| "utf8_dec1 (a # r) =
     (if a < 128 then Some (a, r)
      else if 192 \<le> a \<and> a < 224 then
        (case r of
           b # r' \<Rightarrow>
             (let v = (a - 192) * 64 + (b - 128)
              in if is_cont b \<and> 128 \<le> v then Some (v, r') else None)
         | _ \<Rightarrow> None)
      else if 224 \<le> a \<and> a < 240 then
        (case r of
           b # c # r' \<Rightarrow>
             (let v = (a - 224) * 4096 + (b - 128) * 64 + (c - 128)
              in if is_cont b \<and> is_cont c \<and> 2048 \<le> v \<and> is_scalar v then Some (v, r') else None)
         | _ \<Rightarrow> None)
      else if 240 \<le> a \<and> a < 248 then
        (case r of
           b # c # d # r' \<Rightarrow>
             (let v = (a - 240) * 262144 + (b - 128) * 4096 + (c - 128) * 64 + (d - 128)
              in if is_cont b \<and> is_cont c \<and> is_cont d \<and> 65536 \<le> v \<and> is_scalar v
                 then Some (v, r') else None)
         | _ \<Rightarrow> None)
      else None)"

lemma utf8_dec1_shorter: "utf8_dec1 bs = Some (c, r) \<Longrightarrow> length r < length bs"
  by (cases bs) (auto simp: Let_def split: if_splits list.splits)

function utf8_dec :: "nat list \<Rightarrow> scalar list option" where
  "utf8_dec bs =
     (if bs = [] then Some []
      else case utf8_dec1 bs of
             None \<Rightarrow> None
           | Some (c, r) \<Rightarrow> map_option ((#) c) (utf8_dec r))"
  by pat_completeness auto
termination
  by (relation "measure length") (auto dest: utf8_dec1_shorter)

declare utf8_dec.simps [simp del]

lemma utf8_dec_Nil [simp]: "utf8_dec [] = Some []"
  by (simp add: utf8_dec.simps)

lemma utf8_dec_step: "utf8_dec1 bs = Some (c, r) \<Longrightarrow> utf8_dec bs = map_option ((#) c) (utf8_dec r)"
  by (cases bs) (simp_all add: utf8_dec.simps[of "_ # _"])

lemma utf8_enc_simps [simp]:
  "utf8_enc [] = []" "utf8_enc (c # cs) = utf8_enc1 c @ utf8_enc cs"
  "utf8_enc (cs @ ds) = utf8_enc cs @ utf8_enc ds"
  by (simp_all add: utf8_enc_def)

lemma utf8_enc1_not_Nil [simp]: "utf8_enc1 c \<noteq> []"
  by (simp add: utf8_enc1_def)

text \<open>Base-64 digits of a number, apart and together again.\<close>

lemma div_64_twice: "(c::nat) div 64 div 64 = c div 4096" "c div 4096 div 64 = c div 262144"
  using div_mult2_eq[of c 64 64] div_mult2_eq[of c 4096 64] by simp_all

lemma base64_apart:
  "(c::nat) div 4096 * 4096 + c div 64 mod 64 * 64 + c mod 64 = c"
  "c div 262144 * 262144 + c div 4096 mod 64 * 4096 + c div 64 mod 64 * 64 + c mod 64 = c"
  using div_mult_mod_eq[of c 64] div_mult_mod_eq[of "c div 64" 64]
    div_mult_mod_eq[of "c div 4096" 64] unfolding div_64_twice by linarith+

lemma base64_digit: "z < (64::nat) \<Longrightarrow> (y * 64 + z) div 64 = y \<and> (y * 64 + z) mod 64 = z"
  by simp

lemma utf8_dec1_enc1:
  assumes "is_scalar c"
  shows "utf8_dec1 (utf8_enc1 c @ r) = Some (c, r)"
proof -
  consider "c < 128" | "128 \<le> c" "c < 2048" | "2048 \<le> c" "c < 65536" | "65536 \<le> c" by linarith
  then show ?thesis
  proof cases
    case 1
    then show ?thesis by (simp add: utf8_enc1_def)
  next
    case 2
    then have "c div 64 < 32" by simp
    with 2 show ?thesis by (simp add: utf8_enc1_def is_cont_def Let_def)
  next
    case 3
    then have "c div 4096 < 16" by simp
    moreover note base64_apart(1)[of c]
    ultimately show ?thesis using 3 assms by (simp add: utf8_enc1_def is_cont_def Let_def)
  next
    case 4
    from 4 assms have "c < 1114112" by (auto simp: is_scalar_def)
    then have "c div 262144 < 8" by simp
    moreover note base64_apart(2)[of c]
    ultimately show ?thesis using 4 assms by (simp add: utf8_enc1_def is_cont_def Let_def)
  qed
qed

theorem utf8_dec_enc: "list_all is_scalar cs \<Longrightarrow> utf8_dec (utf8_enc cs) = Some cs"
  by (induction cs) (simp_all add: utf8_dec_step[OF utf8_dec1_enc1])

lemma utf8_dec1_SomeD:
  assumes "utf8_dec1 bs = Some (c, r)"
  shows "is_scalar c \<and> bs = utf8_enc1 c @ r"
proof -
  obtain a t where bs: "bs = a # t" using assms by (cases bs) auto
  consider "a < 128" | "192 \<le> a" "a < 224" | "224 \<le> a" "a < 240" | "240 \<le> a" "a < 248"
    using assms bs by (auto split: if_splits)
  then show ?thesis
  proof cases
    case 1
    with assms bs show ?thesis by (auto simp: is_scalar_def utf8_enc1_def)
  next
    case 2
    with assms bs obtain b where t: "t = b # r" and b: "is_cont b"
      and v: "c = (a - 192) * 64 + (b - 128)" "128 \<le> c"
      by (auto simp: Let_def split: list.splits if_splits)
    obtain x y where xy: "a = 192 + x" "b = 128 + y" "y < 64" "x < 32"
      using 2 b by (auto simp: is_cont_def le_iff_add)
    with v have "c = x * 64 + y" by simp
    with xy v(2) bs t show ?thesis by (auto simp: is_scalar_def utf8_enc1_def)
  next
    case 3
    with assms bs obtain b d where t: "t = b # d # r" and bd: "is_cont b" "is_cont d"
      and v: "c = (a - 224) * 4096 + (b - 128) * 64 + (d - 128)" "2048 \<le> c" "is_scalar c"
      by (auto simp: Let_def split: list.splits if_splits)
    obtain x y z where xyz: "a = 224 + x" "b = 128 + y" "d = 128 + z" "x < 16" "y < 64" "z < 64"
      using 3 bd by (auto simp: is_cont_def le_iff_add)
    with v have c: "c = (x * 64 + y) * 64 + z" by simp
    have "c < 65536" using c xyz by simp
    moreover have d1: "c div 64 = x * 64 + y \<and> c mod 64 = z"
      unfolding c by (rule base64_digit[OF xyz(6)])
    moreover have "c div 4096 = x \<and> c div 64 mod 64 = y"
      unfolding div_64_twice(1)[symmetric] conjunct1[OF d1] by (rule base64_digit[OF xyz(5)])
    ultimately show ?thesis using xyz v bs t by (simp add: utf8_enc1_def)
  next
    case 4
    with assms bs obtain b d e where t: "t = b # d # e # r"
      and bde: "is_cont b" "is_cont d" "is_cont e"
      and v: "c = (a - 240) * 262144 + (b - 128) * 4096 + (d - 128) * 64 + (e - 128)"
        "65536 \<le> c" "is_scalar c"
      by (auto simp: Let_def split: list.splits if_splits)
    obtain x y z w where xyzw: "a = 240 + x" "b = 128 + y" "d = 128 + z" "e = 128 + w"
      "y < 64" "z < 64" "w < 64"
      using 4 bde by (auto simp: is_cont_def le_iff_add)
    with v have c: "c = ((x * 64 + y) * 64 + z) * 64 + w" by simp
    have d1: "c div 64 = (x * 64 + y) * 64 + z \<and> c mod 64 = w"
      unfolding c by (rule base64_digit[OF xyzw(7)])
    moreover have d2: "c div 4096 = x * 64 + y \<and> c div 64 mod 64 = z"
      unfolding div_64_twice(1)[symmetric] conjunct1[OF d1] by (rule base64_digit[OF xyzw(6)])
    moreover have "c div 262144 = x \<and> c div 4096 mod 64 = y"
      unfolding div_64_twice(2)[symmetric] conjunct1[OF d2] by (rule base64_digit[OF xyzw(5)])
    ultimately show ?thesis using xyzw v bs t by (simp add: utf8_enc1_def)
  qed
qed

theorem utf8_dec_SomeD: "utf8_dec bs = Some cs \<Longrightarrow> list_all is_scalar cs \<and> bs = utf8_enc cs"
proof (induction bs arbitrary: cs rule: utf8_dec.induct)
  case (1 bs)
  show ?case
  proof (cases "bs = []")
    case True
    with "1.prems" show ?thesis by simp
  next
    case False
    with "1.prems" obtain c r where cr: "utf8_dec1 bs = Some (c, r)"
      by (auto simp: utf8_dec.simps[of bs] split: option.splits)
    with "1.prems" obtain ds where ds: "utf8_dec r = Some ds" "cs = c # ds"
      by (auto simp: utf8_dec_step)
    from "1.IH"[OF False cr refl ds(1)] utf8_dec1_SomeD[OF cr] ds(2) show ?thesis by simp
  qed
qed

section \<open>Strings\<close>

definition str_bytes :: "string \<Rightarrow> nat list" where
  "str_bytes s = map byte_of s"

definition is_utf8 :: "string \<Rightarrow> bool" where
  "is_utf8 s \<longleftrightarrow> utf8_dec (str_bytes s) \<noteq> None"

text \<open>\<^verbatim>\<open>str::chars\<close>; only ever applied to text that is UTF-8.\<close>

definition chars :: "string \<Rightarrow> scalar list" where
  "chars s = (case utf8_dec (str_bytes s) of Some cs \<Rightarrow> cs | None \<Rightarrow> [])"

text \<open>Collecting characters into a \<^verbatim>\<open>String\<close>.\<close>

definition of_chars :: "scalar list \<Rightarrow> string" where
  "of_chars cs = map of_byte (utf8_enc cs)"

lemma utf8_enc1_less: "is_scalar c \<Longrightarrow> b \<in> set (utf8_enc1 c) \<Longrightarrow> b < 256"
  by (auto simp: utf8_enc1_def is_scalar_def split: if_splits)

lemma utf8_enc_less: "list_all is_scalar cs \<Longrightarrow> b \<in> set (utf8_enc cs) \<Longrightarrow> b < 256"
  by (induction cs) (auto dest: utf8_enc1_less)

lemma str_bytes_of_chars: "list_all is_scalar cs \<Longrightarrow> str_bytes (of_chars cs) = utf8_enc cs"
  unfolding str_bytes_def of_chars_def map_map comp_def
  by (rule map_idI) (simp add: utf8_enc_less)

lemma chars_of_chars [simp]: "list_all is_scalar cs \<Longrightarrow> chars (of_chars cs) = cs"
  by (simp add: chars_def str_bytes_of_chars utf8_dec_enc)

lemma is_utf8_of_chars [simp]: "list_all is_scalar cs \<Longrightarrow> is_utf8 (of_chars cs)"
  by (simp add: is_utf8_def str_bytes_of_chars utf8_dec_enc)

lemma str_bytes_inject: "str_bytes s = str_bytes t \<longleftrightarrow> s = t"
  unfolding str_bytes_def by (rule inj_map_eq_map) (simp add: inj_on_def)

lemma is_utf8E:
  assumes "is_utf8 s"
  obtains cs where "list_all is_scalar cs" "s = of_chars cs" "chars s = cs"
proof -
  from assms obtain cs where cs: "utf8_dec (str_bytes s) = Some cs" by (auto simp: is_utf8_def)
  from utf8_dec_SomeD[OF cs] have "list_all is_scalar cs" "str_bytes s = utf8_enc cs" by auto
  then have "s = of_chars cs" using str_bytes_of_chars str_bytes_inject by metis
  with cs that \<open>list_all is_scalar cs\<close> show ?thesis by (simp add: chars_def)
qed

lemma chars_scalar: "list_all is_scalar (chars s)"
  by (auto simp: chars_def dest: utf8_dec_SomeD split: option.splits)

lemma of_chars_chars: "is_utf8 s \<Longrightarrow> of_chars (chars s) = s"
  by (elim is_utf8E) simp

lemma utf8_dec_ascii: "\<forall>b \<in> set bs. b < 128 \<Longrightarrow> utf8_dec bs = Some bs"
proof (induction bs)
  case Nil
  show ?case by simp
next
  case (Cons b bs)
  then have "utf8_dec1 (b # bs) = Some (b, bs)" by simp
  with Cons show ?case by (simp add: utf8_dec_step)
qed

lemma is_utf8_ascii: "\<forall>c \<in> set s. byte_of c < 128 \<Longrightarrow> is_utf8 s"
  by (simp add: is_utf8_def utf8_dec_ascii str_bytes_def)

lemma chars_ascii: "\<forall>c \<in> set s. byte_of c < 128 \<Longrightarrow> chars s = map byte_of s"
  by (simp add: chars_def utf8_dec_ascii str_bytes_def)

subsection \<open>Character boundaries\<close>

definition is_char_boundary :: "string \<Rightarrow> nat \<Rightarrow> bool" where
  "is_char_boundary s i \<longleftrightarrow>
     i = 0 \<or> i = length s \<or> (i < length s \<and> \<not> is_cont (byte_of (s ! i)))"

text \<open>\<^verbatim>\<open>str::get(a..b)\<close>.\<close>

definition str_get :: "string \<Rightarrow> nat \<Rightarrow> nat \<Rightarrow> string option" where
  "str_get s a b =
     (if a \<le> b \<and> b \<le> length s \<and> is_char_boundary s a \<and> is_char_boundary s b
      then Some (take (b - a) (drop a s)) else None)"

lemma is_char_boundary_0 [simp]: "is_char_boundary s 0"
  by (simp add: is_char_boundary_def)

lemma utf8_enc1_tl_conts: "list_all is_cont (tl (utf8_enc1 c))"
  by (simp add: utf8_enc1_def is_cont_def)

lemma utf8_enc1_tl_cont: "0 < i \<Longrightarrow> i < length (utf8_enc1 c) \<Longrightarrow> is_cont (utf8_enc1 c ! i)"
  using utf8_enc1_tl_conts[of c] by (cases i) (auto simp: list_all_length nth_tl)

text \<open>Cutting well-formed text at a character boundary leaves a whole number of characters.\<close>

lemma utf8_enc_boundary_prefix:
  assumes "i \<le> length (utf8_enc cs)"
    and "i = 0 \<or> i = length (utf8_enc cs) \<or> \<not> is_cont (utf8_enc cs ! i)"
  shows "\<exists>k. take i (utf8_enc cs) = utf8_enc (take k cs)"
  using assms
proof (induction cs arbitrary: i)
  case Nil
  then show ?case by simp
next
  case (Cons c cs)
  let ?n = "length (utf8_enc1 c)"
  show ?case
  proof (cases "i < ?n")
    case True
    then have "utf8_enc (c # cs) ! i = utf8_enc1 c ! i" by (simp add: nth_append)
    moreover have "i \<noteq> length (utf8_enc (c # cs))" using True by simp
    ultimately have "i = 0" using Cons.prems(2) True utf8_enc1_tl_cont by (metis neq0_conv)
    then show ?thesis by (intro exI[of _ 0]) simp
  next
    case False
    then have i: "i - ?n \<le> length (utf8_enc cs)" using Cons.prems(1) by simp
    have "i - ?n = 0 \<or> i - ?n = length (utf8_enc cs) \<or> \<not> is_cont (utf8_enc cs ! (i - ?n))"
      using Cons.prems(2) False by (auto simp: nth_append)
    from Cons.IH[OF i this] obtain k where "take (i - ?n) (utf8_enc cs) = utf8_enc (take k cs)"
      by blast
    with False show ?thesis by (intro exI[of _ "Suc k"]) simp
  qed
qed

lemma is_utf8_take_boundary:
  assumes "is_utf8 s" "is_char_boundary s i"
  shows "is_utf8 (take i s)" "\<exists>k. chars (take i s) = take k (chars s)"
proof -
  from assms(1) obtain cs where cs: "list_all is_scalar cs" "s = of_chars cs" "chars s = cs"
    by (rule is_utf8E)
  have bytes: "str_bytes s = utf8_enc cs" using cs str_bytes_of_chars by simp
  have len: "length s = length (utf8_enc cs)" using bytes by (metis length_map str_bytes_def)
  have i: "i \<le> length (utf8_enc cs)" using assms(2) len by (auto simp: is_char_boundary_def)
  have "i = 0 \<or> i = length (utf8_enc cs) \<or> \<not> is_cont (utf8_enc cs ! i)"
    using assms(2) len bytes by (auto simp: is_char_boundary_def str_bytes_def nth_map dest: sym)
  from utf8_enc_boundary_prefix[OF i this] obtain k where
    k: "take i (utf8_enc cs) = utf8_enc (take k cs)" by blast
  have sc: "list_all is_scalar (take k cs)"
    using cs(1) by (metis append_take_drop_id list_all_append)
  have "take i s = of_chars (take k cs)"
    using cs(2) k by (metis of_chars_def take_map)
  with sc cs(3) show "is_utf8 (take i s)" "\<exists>k. chars (take i s) = take k (chars s)" by auto
qed

end
