(* ===== verification/Deck_Ids.thy ===== *)
theory Deck_Ids
  imports Rust_Str
begin

text \<open>
  Deck ids, message ids and addresses: the id functions of \<^verbatim>\<open>src/src/deck_identity.rs\<close> and the
  "Ids and addresses" section of \<^verbatim>\<open>src/src/inbox.rs\<close>. Random bytes from the operating system
  (\<^verbatim>\<open>getrandom::fill\<close>) are an argument, a list of bytes.
\<close>

section \<open>String helpers of the standard library\<close>

definition strip_prefix :: "string \<Rightarrow> string \<Rightarrow> string option" where
  "strip_prefix p s = (if take (length p) s = p then Some (drop (length p) s) else None)"

definition split_once :: "char \<Rightarrow> string \<Rightarrow> (string \<times> string) option" where
  "split_once c s =
     (case dropWhile (\<lambda>d. d \<noteq> c) s of [] \<Rightarrow> None | _ # r \<Rightarrow> Some (takeWhile (\<lambda>d. d \<noteq> c) s, r))"

lemma strip_prefix_append [simp]: "strip_prefix p (p @ s) = Some s"
  by (simp add: strip_prefix_def)

lemma strip_prefix_Some: "strip_prefix p s = Some r \<longleftrightarrow> s = p @ r"
  by (auto simp: strip_prefix_def) (metis append_take_drop_id)

lemma split_once_append: "c \<notin> set a \<Longrightarrow> split_once c (a @ c # r) = Some (a, r)"
  by (simp add: split_once_def dropWhile_append takeWhile_append)

lemma split_once_SomeD: "split_once c s = Some (a, r) \<Longrightarrow> s = a @ c # r \<and> c \<notin> set a"
proof -
  assume h: "split_once c s = Some (a, r)"
  then obtain d where d: "dropWhile (\<lambda>d. d \<noteq> c) s = d # r" and a: "a = takeWhile (\<lambda>d. d \<noteq> c) s"
    by (auto simp: split_once_def split: list.splits)
  from d have "d = c" by (metis (mono_tags) hd_dropWhile list.distinct(1) list.sel(1))
  with d a have "s = a @ c # r" by (metis takeWhile_dropWhile_id)
  moreover have "c \<notin> set a" unfolding a by (auto dest: set_takeWhileD)
  ultimately show ?thesis by blast
qed

section \<open>Deck ids\<close>

type_synonym deck_id = string

definition DECK_ID_LEN :: nat where
  "DECK_ID_LEN = 8"

definition ALPHABET :: string where
  "ALPHABET = ''abcdefghijklmnopqrstuvwxyz234567''"

definition is_valid_deck_id :: "string \<Rightarrow> bool" where
  "is_valid_deck_id text \<longleftrightarrow>
     length text = DECK_ID_LEN \<and> list_all (\<lambda>b. b \<in> set ALPHABET) text"

definition deck_id_generate :: "nat list \<Rightarrow> deck_id" where
  "deck_id_generate bytes = map (\<lambda>b. ALPHABET ! (b mod 32)) bytes"

definition deck_id_parse :: "string \<Rightarrow> deck_id option" where
  "deck_id_parse text = (if is_valid_deck_id text then Some text else None)"

section \<open>Message ids\<close>

type_synonym message_id = string

definition message_id_generate :: "deck_id \<Rightarrow> nat list \<Rightarrow> message_id" where
  "message_id_generate deck bytes = ''m-'' @ deck @ ''-'' @ concat (map hex_byte bytes)"

definition is_valid_message_id :: "string \<Rightarrow> bool" where
  "is_valid_message_id text =
     (case strip_prefix ''m-'' text of
        None \<Rightarrow> False
      | Some rest \<Rightarrow>
          (case split_once (CHR ''-'') rest of
             None \<Rightarrow> False
           | Some (deck, hex) \<Rightarrow>
               is_valid_deck_id deck \<and> length hex = 16 \<and> list_all is_lower_hex hex))"

definition message_id_parse :: "string \<Rightarrow> message_id option" where
  "message_id_parse text = (if is_valid_message_id text then Some text else None)"

definition message_id_deck :: "message_id \<Rightarrow> string" where
  "message_id_deck i = take DECK_ID_LEN (drop 2 i)"

section \<open>Labels\<close>

definition MAX_LABEL_LEN :: nat where
  "MAX_LABEL_LEN = 64"

fun is_valid_label :: "string \<Rightarrow> bool" where
  "is_valid_label [] = False"
| "is_valid_label (b # bs) =
     (length (b # bs) \<le> MAX_LABEL_LEN
      \<and> (is_ascii_lowercase b \<or> is_ascii_digit b)
      \<and> list_all (\<lambda>c. is_ascii_lowercase c \<or> is_ascii_digit c \<or> c = CHR ''-'') (b # bs))"

section \<open>Address tokens\<close>

definition encode_byte :: "char \<Rightarrow> string" where
  "encode_byte b =
     (if is_ascii_alphanumeric b \<or> b = CHR ''-'' then [b] else CHR ''_'' # hex_byte (byte_of b))"

definition encode_token :: "string \<Rightarrow> string" where
  "encode_token raw = (if raw = [] then ''_'' else concat (map encode_byte raw))"

text \<open>
  The decoding loop, on what is left of the token: an escape takes \<^verbatim>\<open>token.get(i + 1..i + 3)\<close>, which
  is \<^verbatim>\<open>None\<close> past the end or off a character boundary.
\<close>

function decode_loop :: "string \<Rightarrow> string option" where
  "decode_loop [] = Some []"
| "decode_loop (b # bs) =
     (if b = CHR ''_'' then
        (case str_get (b # bs) 1 3 of
           Some [h, l] \<Rightarrow>
             (if is_lower_hex h \<and> is_lower_hex l
              then map_option ((#) (of_byte (from_hex2 h l))) (decode_loop (drop 2 bs))
              else None)
         | _ \<Rightarrow> None)
      else if is_ascii_alphanumeric b \<or> b = CHR ''-'' then map_option ((#) b) (decode_loop bs)
      else None)"
  by pat_completeness auto
termination
  by (relation "measure length") auto

definition decode_token :: "string \<Rightarrow> string option" where
  "decode_token token =
     (if token = ''_'' then Some []
      else case decode_loop token of
             None \<Rightarrow> None
           | Some out \<Rightarrow> (if is_utf8 out then Some out else None))"

section \<open>Scopes and addresses\<close>

datatype scope = Orchestration string | Dispatch string

fun scope_token :: "scope \<Rightarrow> string" where
  "scope_token (Orchestration token) = token"
| "scope_token (Dispatch root_pane) = ''d-'' @ root_pane"

datatype address =
    AddrDirect deck_id string
  | AddrTopic deck_id scope string
  | AddrOffer deck_id scope string

fun address_string :: "address \<Rightarrow> string" where
  "address_string (AddrDirect deck pane_id) = ''inbox.'' @ deck @ ''.'' @ encode_token pane_id"
| "address_string (AddrTopic deck scope topic) =
     ''topic.'' @ deck @ ''.'' @ encode_token (scope_token scope) @ ''.'' @ encode_token topic"
| "address_string (AddrOffer deck scope pool) =
     ''offer.'' @ deck @ ''.'' @ encode_token (scope_token scope) @ ''.'' @ encode_token pool"

section \<open>Facts about ids\<close>

lemma char_simps [simp]: "byte_of CHR ''_'' = 95" "byte_of CHR ''-'' = 45" "byte_of CHR ''.'' = 46"
  by (simp_all add: byte_of_def)

lemma hex_byte_length [simp]: "length (hex_byte n) = 2"
  by (simp add: hex_byte_def)

lemma hex_byte_lower_hex: "n < 256 \<Longrightarrow> list_all is_lower_hex (hex_byte n)"
  by (simp add: hex_byte_def hex_digit_props)

lemma hex_byte_inject: "m < 256 \<Longrightarrow> n < 256 \<Longrightarrow> hex_byte m = hex_byte n \<Longrightarrow> m = n"
  using from_hex2_hex_byte by (metis hex_byte_def list.inject)

lemma length_concat_hex: "length (concat (map hex_byte bs)) = 2 * length bs"
  by (induction bs) simp_all

lemma list_all_concat_hex:
  "list_all (\<lambda>n. n < 256) bs \<Longrightarrow> list_all is_lower_hex (concat (map hex_byte bs))"
  by (induction bs) (simp_all add: hex_byte_lower_hex)

lemma concat_hex_inject:
  assumes "list_all (\<lambda>n. n < 256) bs" "list_all (\<lambda>n. n < 256) cs"
    and "concat (map hex_byte bs) = concat (map hex_byte cs)"
  shows "bs = cs"
  using assms
proof (induction bs arbitrary: cs)
  case Nil
  from arg_cong[OF Nil.prems(3), of length] show ?case unfolding length_concat_hex by simp
next
  case (Cons b bs)
  from arg_cong[OF Cons.prems(3), of length] have "length (b # bs) = length cs"
    unfolding length_concat_hex by simp
  then obtain c cs' where cs: "cs = c # cs'" by (cases cs) auto
  have "hex_byte b = hex_byte c \<and> concat (map hex_byte bs) = concat (map hex_byte cs')"
    using Cons.prems(3) cs by (subst append_eq_append_conv[symmetric]) simp_all
  then have "hex_byte b = hex_byte c" and tl: "concat (map hex_byte bs) = concat (map hex_byte cs')"
    by blast+
  with Cons.prems cs have "b = c" by (auto intro: hex_byte_inject)
  with Cons.IH[OF _ _ tl] Cons.prems cs show ?case by simp
qed

lemma dash_not_in_alphabet: "CHR ''-'' \<notin> set ALPHABET"
  by (simp add: ALPHABET_def)

lemma dot_not_in_alphabet: "CHR ''.'' \<notin> set ALPHABET"
  by (simp add: ALPHABET_def)

lemma deck_id_no_dash: "is_valid_deck_id d \<Longrightarrow> CHR ''-'' \<notin> set d"
  by (auto simp: is_valid_deck_id_def list_all_iff dash_not_in_alphabet)

lemma deck_id_no_dot: "is_valid_deck_id d \<Longrightarrow> CHR ''.'' \<notin> set d"
  by (auto simp: is_valid_deck_id_def list_all_iff dot_not_in_alphabet)

text \<open>
  Every deck id the deck mints is a valid one: eight characters of the base32 alphabet, whatever
  eight random bytes the operating system gave.
\<close>

lemma deck_id_generate_valid:
  assumes "length bytes = 8"
  shows "is_valid_deck_id (deck_id_generate bytes)"
proof -
  have "length ALPHABET = 32" by (simp add: ALPHABET_def)
  then have "ALPHABET ! (b mod 32) \<in> set ALPHABET" for b by simp
  with assms show ?thesis
    by (simp add: is_valid_deck_id_def deck_id_generate_def DECK_ID_LEN_def list_all_iff)
qed

lemma message_id_generate_valid:
  assumes "is_valid_deck_id deck" "length bytes = 8" "list_all (\<lambda>n. n < 256) bytes"
  shows "is_valid_message_id (message_id_generate deck bytes)"
    and "message_id_deck (message_id_generate deck bytes) = deck"
proof -
  let ?hex = "concat (map hex_byte bytes)"
  have "split_once (CHR ''-'') (deck @ CHR ''-'' # ?hex) = Some (deck, ?hex)"
    using assms(1) by (intro split_once_append deck_id_no_dash)
  moreover have "strip_prefix ''m-'' (message_id_generate deck bytes)
      = Some (deck @ CHR ''-'' # ?hex)"
    using strip_prefix_append[of "''m-''"] by (simp add: message_id_generate_def)
  ultimately show "is_valid_message_id (message_id_generate deck bytes)"
    using assms by (simp add: is_valid_message_id_def length_concat_hex list_all_concat_hex)
  have "length deck = 8" using assms(1) by (simp add: is_valid_deck_id_def DECK_ID_LEN_def)
  then show "message_id_deck (message_id_generate deck bytes) = deck"
    by (simp add: message_id_deck_def message_id_generate_def DECK_ID_LEN_def)
qed

lemma message_id_generate_inject:
  assumes "list_all (\<lambda>n. n < 256) bs" "list_all (\<lambda>n. n < 256) cs"
    and "message_id_generate deck bs = message_id_generate deck cs"
  shows "bs = cs"
  using assms by (auto simp: message_id_generate_def intro: concat_hex_inject)

text \<open>An old \<^verbatim>\<open>d-\<dots>\<close> delivery id is not a message id; a message id names its deck.\<close>

lemma is_valid_message_id_iff:
  "is_valid_message_id t \<longleftrightarrow>
     (\<exists>deck hex. t = ''m-'' @ deck @ ''-'' @ hex \<and> is_valid_deck_id deck \<and> length hex = 16
        \<and> list_all is_lower_hex hex)"
proof
  assume "is_valid_message_id t"
  then show "\<exists>deck hex. t = ''m-'' @ deck @ ''-'' @ hex \<and> is_valid_deck_id deck \<and> length hex = 16
        \<and> list_all is_lower_hex hex"
    by (fastforce simp: is_valid_message_id_def strip_prefix_Some
        dest: split_once_SomeD split: option.splits)
next
  assume "\<exists>deck hex. t = ''m-'' @ deck @ ''-'' @ hex \<and> is_valid_deck_id deck \<and> length hex = 16
        \<and> list_all is_lower_hex hex"
  then obtain deck hex where t: "t = ''m-'' @ deck @ CHR ''-'' # hex" "is_valid_deck_id deck"
    "length hex = 16" "list_all is_lower_hex hex" by auto
  then have "split_once (CHR ''-'') (deck @ CHR ''-'' # hex) = Some (deck, hex)"
    by (intro split_once_append deck_id_no_dash)
  moreover have "strip_prefix ''m-'' t = Some (deck @ CHR ''-'' # hex)"
    unfolding t(1) by (rule strip_prefix_append)
  ultimately show "is_valid_message_id t" using t by (simp add: is_valid_message_id_def)
qed

section \<open>Facts about address tokens\<close>

lemma encode_byte_ascii: "c \<in> set (encode_byte b) \<Longrightarrow> byte_of c < 128"
  by (auto simp: encode_byte_def ascii_defs hex_byte_less_128 split: if_splits)

lemma encode_token_ascii: "c \<in> set (encode_token raw) \<Longrightarrow> byte_of c < 128"
  by (auto simp: encode_token_def encode_byte_ascii split: if_splits)

lemma encode_byte_no_dot: "CHR ''.'' \<notin> set (encode_byte b)"
proof -
  have ne: "CHR ''.'' \<noteq> hex_digit n" if "n < 16" for n
    using that by (auto simp: hex_digit_def dest: arg_cong[of _ _ byte_of])
  have "byte_of b div 16 < 16" by (simp add: less_mult_imp_div_less)
  from ne[OF this] ne[of "byte_of b mod 16"] show ?thesis
    by (auto simp: encode_byte_def hex_byte_def ascii_defs)
qed

lemma encode_token_no_dot: "CHR ''.'' \<notin> set (encode_token raw)"
  using encode_byte_no_dot by (auto simp: encode_token_def)

lemma str_get_escape:
  assumes "byte_of h < 128" "\<forall>c \<in> set r. byte_of c < 128"
  shows "str_get (e # h # l # r) 1 3 = Some [h, l]"
proof -
  have "is_char_boundary (e # h # l # r) 1"
    using assms(1) by (simp add: is_char_boundary_def is_cont_def)
  moreover have "is_char_boundary (e # h # l # r) 3"
    using assms(2) by (cases r) (auto simp: is_char_boundary_def is_cont_def)
  ultimately show ?thesis by (simp add: str_get_def)
qed

lemma decode_loop_encode_byte:
  assumes "\<forall>c \<in> set r. byte_of c < 128"
  shows "decode_loop (encode_byte b @ r) = map_option ((#) b) (decode_loop r)"
proof (cases "is_ascii_alphanumeric b \<or> b = CHR ''-''")
  case True
  then have "b \<noteq> CHR ''_''" by (auto simp: ascii_defs)
  with True show ?thesis by (simp add: encode_byte_def)
next
  case False
  let ?h = "hex_digit (byte_of b div 16)" and ?l = "hex_digit (byte_of b mod 16)"
  have lt: "byte_of b div 16 < 16" by (simp add: less_mult_imp_div_less)
  have "str_get (CHR ''_'' # ?h # ?l # r) 1 3 = Some [?h, ?l]"
    using assms by (intro str_get_escape hex_byte_less_128[of _ "byte_of b"]) (auto simp: hex_byte_def)
  with False lt show ?thesis
    by (simp add: encode_byte_def hex_byte_def hex_digit_props from_hex2_hex_byte)
qed

lemma decode_loop_encode: "decode_loop (concat (map encode_byte raw)) = Some raw"
proof (induction raw)
  case Nil
  show ?case by simp
next
  case (Cons b raw)
  have "\<forall>c \<in> set (concat (map encode_byte raw)). byte_of c < 128"
    by (auto simp: encode_byte_ascii)
  with Cons show ?case by (simp add: decode_loop_encode_byte)
qed

lemma encode_not_underscore: "raw \<noteq> [] \<Longrightarrow> concat (map encode_byte raw) \<noteq> ''_''"
  by (cases raw) (auto simp: encode_byte_def hex_byte_def ascii_defs split: if_splits)

lemma decode_token_encode_token: "is_utf8 raw \<Longrightarrow> decode_token (encode_token raw) = Some raw"
  using encode_not_underscore[of raw] decode_loop_encode[of raw]
  by (simp add: decode_token_def encode_token_def)

lemma encode_token_inject: "is_utf8 a \<Longrightarrow> is_utf8 b \<Longrightarrow> encode_token a = encode_token b \<Longrightarrow> a = b"
  by (metis decode_token_encode_token option.inject)

text \<open>
  A token decodes to the text it was encoded from, for every text (which in Rust is UTF-8), the
  empty one included. In particular two different texts never share a token.
\<close>

theorem decode_encode_token:
  assumes "is_utf8 raw"
  shows "decode_token (encode_token raw) = Some raw"
  using assms by (rule decode_token_encode_token)

text \<open>
  The decoder accepts text the encoder never produces: the escape of a letter, here
  \<^verbatim>\<open>_61\<close>, decodes to that letter, which encodes to itself. (The comment on the decoder says
  it answers nothing for text the encoder never produces.)
\<close>

theorem decode_token_not_canonical:
  "decode_token ''_61'' = Some ''a'' \<and> (\<forall>raw. is_utf8 raw \<longrightarrow> encode_token raw \<noteq> ''_61'')"
proof -
  have d: "decode_token ''_61'' = Some ''a''" by code_simp
  have "encode_token raw \<noteq> ''_61''" if u: "is_utf8 raw" for raw
  proof
    assume e: "encode_token raw = ''_61''"
    with decode_token_encode_token[OF u] d have "raw = ''a''" by simp
    with e show False by (simp add: encode_token_def encode_byte_def ascii_defs byte_of_def)
  qed
  with d show ?thesis by blast
qed

lemma split_at_dot:
  "CHR ''.'' \<notin> set a \<Longrightarrow> CHR ''.'' \<notin> set b \<Longrightarrow> a @ CHR ''.'' # x = b @ CHR ''.'' # y \<Longrightarrow> a = b \<and> x = y"
  by (metis option.inject prod.inject split_once_append)

text \<open>What an address names: its kind, deck, scope token and label.\<close>

fun address_parts :: "address \<Rightarrow> nat \<times> deck_id \<times> string \<times> string" where
  "address_parts (AddrDirect deck pane_id) = (0, deck, [], pane_id)"
| "address_parts (AddrTopic deck scope topic) = (1, deck, scope_token scope, topic)"
| "address_parts (AddrOffer deck scope pool) = (2, deck, scope_token scope, pool)"

fun address_ok :: "address \<Rightarrow> bool" where
  "address_ok (AddrDirect deck pane_id) = (is_valid_deck_id deck \<and> is_utf8 pane_id)"
| "address_ok (AddrTopic deck scope topic) =
     (is_valid_deck_id deck \<and> is_utf8 (scope_token scope) \<and> is_utf8 topic)"
| "address_ok (AddrOffer deck scope pool) =
     (is_valid_deck_id deck \<and> is_utf8 (scope_token scope) \<and> is_utf8 pool)"

lemma address_three_parts:
  assumes "CHR ''.'' \<notin> set d" "CHR ''.'' \<notin> set d'"
    and "is_utf8 s" "is_utf8 s'" "is_utf8 t" "is_utf8 t'"
    and "d @ CHR ''.'' # encode_token s @ CHR ''.'' # encode_token t =
         d' @ CHR ''.'' # encode_token s' @ CHR ''.'' # encode_token t'"
  shows "d = d' \<and> s = s' \<and> t = t'"
proof -
  from split_at_dot[OF assms(1,2,7)] have "d = d'"
    and r: "encode_token s @ CHR ''.'' # encode_token t = encode_token s' @ CHR ''.'' # encode_token t'"
    by auto
  from split_at_dot[OF encode_token_no_dot encode_token_no_dot r]
  have "encode_token s = encode_token s'" "encode_token t = encode_token t'" by auto
  with \<open>d = d'\<close> assms show ?thesis by (auto dest: encode_token_inject)
qed

text \<open>
  An address written out names one destination. Two addresses with the same text have the same
  kind, the same deck, the same scope token and the same pane, topic or pool.
\<close>

theorem address_string_inject:
  assumes "address_ok a" "address_ok b" "address_string a = address_string b"
  shows "address_parts a = address_parts b"
proof (cases a)
  case (AddrDirect d p)
  with assms obtain d' p' where b: "b = AddrDirect d' p'" by (cases b) auto
  from assms(3) AddrDirect b have "d @ CHR ''.'' # encode_token p = d' @ CHR ''.'' # encode_token p'"
    by simp
  from split_at_dot[OF _ _ this] assms AddrDirect b show ?thesis
    by (auto simp: deck_id_no_dot dest: encode_token_inject)
next
  case (AddrTopic d s t)
  with assms obtain d' s' t' where b: "b = AddrTopic d' s' t'" by (cases b) auto
  with AddrTopic assms address_three_parts[of d d' "scope_token s" "scope_token s'" t t'] show ?thesis
    by (simp add: deck_id_no_dot)
next
  case (AddrOffer d s t)
  with assms obtain d' s' t' where b: "b = AddrOffer d' s' t'" by (cases b) auto
  with AddrOffer assms address_three_parts[of d d' "scope_token s" "scope_token s'" t t'] show ?thesis
    by (simp add: deck_id_no_dot)
qed

end
