(* ===== verification/Untrusted_Text.thy ===== *)
theory Untrusted_Text
  imports Rust_Str
begin

text \<open>
  The sanitizers of \<^verbatim>\<open>src/src/untrusted_text.rs\<close> and the truncator of
  \<^verbatim>\<open>src/src/submitted_prompt.rs\<close> they build on: what is stripped or escaped from text another
  process wrote before a terminal shows it, and the byte ceilings on what is kept. The character
  classes of the standard library (\<^verbatim>\<open>char::is_control\<close>, \<^verbatim>\<open>char::is_whitespace\<close>) are written out.
\<close>

section \<open>Character classes\<close>

definition is_control :: "scalar \<Rightarrow> bool" where
  "is_control c \<longleftrightarrow> c < 32 \<or> (127 \<le> c \<and> c < 160)"

definition is_whitespace :: "scalar \<Rightarrow> bool" where
  "is_whitespace c \<longleftrightarrow>
     (9 \<le> c \<and> c \<le> 13) \<or> c = 32 \<or> c = 133 \<or> c = 160 \<or> c = 5760 \<or> (8192 \<le> c \<and> c \<le> 8202)
     \<or> c = 8232 \<or> c = 8233 \<or> c = 8239 \<or> c = 8287 \<or> c = 12288"

definition is_bidi_format_char :: "scalar \<Rightarrow> bool" where
  "is_bidi_format_char c \<longleftrightarrow>
     (8234 \<le> c \<and> c \<le> 8238) \<or> (8294 \<le> c \<and> c \<le> 8297) \<or> c = 8206 \<or> c = 8207 \<or> c = 1564"

definition is_invisible_format_char :: "scalar \<Rightarrow> bool" where
  "is_invisible_format_char c \<longleftrightarrow>
     c = 173 \<or> (8203 \<le> c \<and> c \<le> 8205) \<or> (8288 \<le> c \<and> c \<le> 8292) \<or> (8298 \<le> c \<and> c \<le> 8303)
     \<or> c = 65279"

section \<open>The sanitizers\<close>

definition trim_chars :: "scalar list \<Rightarrow> scalar list" where
  "trim_chars cs = rev (dropWhile is_whitespace (rev (dropWhile is_whitespace cs)))"

definition trim :: "string \<Rightarrow> string" where
  "trim s = of_chars (trim_chars (chars s))"

definition strip_control_and_bidi :: "string \<Rightarrow> bool \<Rightarrow> string" where
  "strip_control_and_bidi s keep_newlines =
     of_chars (filter (\<lambda>c. (keep_newlines \<and> c = 10) \<or> \<not> (is_control c \<or> is_bidi_format_char c))
                      (chars s))"

text \<open>\<^verbatim>\<open>char::escape_unicode\<close>: hexadecimal without leading zeros, in braces.\<close>

fun hex_digits :: "nat \<Rightarrow> scalar list" where
  "hex_digits n =
     (if n < 16 then [byte_of (hex_digit n)] else hex_digits (n div 16) @ [byte_of (hex_digit (n mod 16))])"

declare hex_digits.simps [simp del]

definition escape_unicode :: "scalar \<Rightarrow> scalar list" where
  "escape_unicode c = [92, 117, 123] @ hex_digits c @ [125]"

text \<open>\<^verbatim>\<open>char::escape_default\<close> of a control character: a letter for tab, newline and return.\<close>

definition escape_default_control :: "scalar \<Rightarrow> scalar list" where
  "escape_default_control c =
     (if c = 9 then [92, 116] else if c = 13 then [92, 114] else if c = 10 then [92, 110]
      else escape_unicode c)"

definition escape_char :: "scalar \<Rightarrow> scalar list" where
  "escape_char c =
     (if is_control c then escape_default_control c
      else if is_bidi_format_char c then escape_unicode c
      else [c])"

definition escape_control_and_bidi :: "string \<Rightarrow> string" where
  "escape_control_and_bidi s = of_chars (concat (map escape_char (chars s)))"

text \<open>The loop of \<^verbatim>\<open>truncate_on_char_boundary\<close>: step back until a boundary, zero at worst.\<close>

fun boundary_at_or_below :: "string \<Rightarrow> nat \<Rightarrow> nat" where
  "boundary_at_or_below s 0 = 0"
| "boundary_at_or_below s (Suc n) =
     (if is_char_boundary s (Suc n) then Suc n else boundary_at_or_below s n)"

definition ELLIPSIS :: string where
  "ELLIPSIS = of_chars [8230]"

definition ELLIPSIS_LEN :: nat where
  "ELLIPSIS_LEN = 3"

definition truncate_on_char_boundary :: "string \<Rightarrow> nat \<Rightarrow> string" where
  "truncate_on_char_boundary s mx =
     (if length s \<le> mx then s else take (boundary_at_or_below s mx) s @ ELLIPSIS)"

definition clamp_including_marker :: "string \<Rightarrow> nat \<Rightarrow> string" where
  "clamp_including_marker s mx =
     (if length s \<le> mx then s else truncate_on_char_boundary s (mx - ELLIPSIS_LEN))"

definition DISPLAY_NAME_MAX_LEN :: nat where
  "DISPLAY_NAME_MAX_LEN = 128"

definition MAX_TOOL_TEXT_BYTES :: nat where
  "MAX_TOOL_TEXT_BYTES = 65536"

definition sanitize_display_name :: "string \<Rightarrow> string option" where
  "sanitize_display_name raw =
     (let trimmed = trim (strip_control_and_bidi raw False)
      in if trimmed = [] then None else Some (clamp_including_marker trimmed DISPLAY_NAME_MAX_LEN))"

definition sanitize_tool_text :: "string \<Rightarrow> string" where
  "sanitize_tool_text raw = clamp_including_marker (strip_control_and_bidi raw False) MAX_TOOL_TEXT_BYTES"

definition display_line :: "string \<Rightarrow> nat \<Rightarrow> string" where
  "display_line raw mx = clamp_including_marker (strip_control_and_bidi raw False) mx"

definition display_message :: "string \<Rightarrow> nat \<Rightarrow> string" where
  "display_message raw mx = clamp_including_marker (strip_control_and_bidi raw True) mx"

definition label_line :: "string \<Rightarrow> nat \<Rightarrow> string" where
  "label_line raw max_chars =
     of_chars (take max_chars
       (filter (\<lambda>c. \<not> is_invisible_format_char c) (chars (strip_control_and_bidi raw False))))"

section \<open>What they guarantee\<close>

definition clean_scalar :: "scalar \<Rightarrow> bool" where
  "clean_scalar c \<longleftrightarrow> \<not> is_control c \<and> \<not> is_bidi_format_char c"

lemma list_all_filterI: "list_all P xs \<Longrightarrow> list_all P (filter Q xs)"
  by (auto simp: list_all_iff)

lemma list_all_takeI: "list_all P xs \<Longrightarrow> list_all P (take n xs)"
  by (auto simp: list_all_iff dest: in_set_takeD)

lemma trim_chars_subset: "set (trim_chars cs) \<subseteq> set cs"
  unfolding trim_chars_def by (metis set_dropWhileD set_rev subsetI)

lemma trim_chars_scalar: "list_all is_scalar cs \<Longrightarrow> list_all is_scalar (trim_chars cs)"
  using trim_chars_subset by (auto simp: list_all_iff)

lemma chars_strip:
  "chars (strip_control_and_bidi s keep) =
     filter (\<lambda>c. (keep \<and> c = 10) \<or> \<not> (is_control c \<or> is_bidi_format_char c)) (chars s)"
  by (simp add: strip_control_and_bidi_def list_all_filterI chars_scalar)

lemma chars_trim: "chars (trim s) = trim_chars (chars s)"
  by (simp add: trim_def trim_chars_scalar chars_scalar)

lemma is_utf8_strip: "is_utf8 (strip_control_and_bidi s keep)"
  by (simp add: strip_control_and_bidi_def list_all_filterI chars_scalar)

lemma is_utf8_trim: "is_utf8 (trim s)"
  by (simp add: trim_def trim_chars_scalar chars_scalar)

lemma boundary_at_or_below_le: "boundary_at_or_below s n \<le> n"
  by (induction n) auto

lemma boundary_at_or_below_boundary: "is_char_boundary s (boundary_at_or_below s n)"
  by (induction n) auto

lemma ELLIPSIS_length: "length ELLIPSIS = 3"
  by (simp add: ELLIPSIS_def of_chars_def utf8_enc1_def)

lemma of_chars_append: "of_chars (a @ b) = of_chars a @ of_chars b"
  by (simp add: of_chars_def)

lemma clamp_length: "ELLIPSIS_LEN \<le> mx \<Longrightarrow> length (clamp_including_marker s mx) \<le> mx"
  using boundary_at_or_below_le[of s "mx - ELLIPSIS_LEN"]
  by (auto simp: clamp_including_marker_def truncate_on_char_boundary_def ELLIPSIS_length ELLIPSIS_LEN_def)

lemma clamp_chars:
  assumes "is_utf8 s"
  shows "is_utf8 (clamp_including_marker s mx) \<and>
    (\<exists>k. chars (clamp_including_marker s mx) = chars s \<or>
         chars (clamp_including_marker s mx) = take k (chars s) @ [8230])"
proof (cases "length s \<le> mx")
  case True
  with assms show ?thesis by (simp add: clamp_including_marker_def)
next
  case False
  let ?i = "boundary_at_or_below s (mx - ELLIPSIS_LEN)"
  note b = is_utf8_take_boundary[OF assms boundary_at_or_below_boundary[of s "mx - ELLIPSIS_LEN"]]
  obtain k where k: "chars (take ?i s) = take k (chars s)" using b(2) by blast
  have "take ?i s = of_chars (take k (chars s))" using of_chars_chars[OF b(1)] k by simp
  moreover have "clamp_including_marker s mx = take ?i s @ ELLIPSIS"
    using False by (auto simp: clamp_including_marker_def truncate_on_char_boundary_def)
  ultimately have eq: "clamp_including_marker s mx = of_chars (take k (chars s) @ [8230])"
    by (simp add: ELLIPSIS_def of_chars_append)
  have "list_all is_scalar (take k (chars s) @ [8230])"
    by (simp add: list_all_takeI chars_scalar is_scalar_def)
  with eq show ?thesis by auto
qed

text \<open>
  A display name the deck accepts from a producer is safe to draw: it is well-formed text, at most
  128 bytes with its cut marker, not empty, and holds no control character and no bidirectional
  formatting character.
\<close>

theorem sanitize_display_name_safe:
  assumes "sanitize_display_name raw = Some name"
  shows "is_utf8 name \<and> name \<noteq> [] \<and> length name \<le> DISPLAY_NAME_MAX_LEN
    \<and> list_all clean_scalar (chars name)"
proof -
  let ?t = "trim (strip_control_and_bidi raw False)"
  from assms have ne: "?t \<noteq> []" and name: "name = clamp_including_marker ?t DISPLAY_NAME_MAX_LEN"
    by (auto simp: sanitize_display_name_def Let_def split: if_splits)
  have clean: "list_all clean_scalar (chars ?t)"
    using trim_chars_subset[of "chars (strip_control_and_bidi raw False)"]
    by (auto simp: list_all_iff chars_trim chars_strip clean_scalar_def)
  from clamp_chars[OF is_utf8_trim, of "strip_control_and_bidi raw False" DISPLAY_NAME_MAX_LEN]
  obtain k where u: "is_utf8 name"
    and k: "chars name = chars ?t \<or> chars name = take k (chars ?t) @ [8230]"
    unfolding name by blast
  from k clean have "list_all clean_scalar (chars name)"
    by (auto simp: list_all_takeI clean_scalar_def is_control_def is_bidi_format_char_def)
  moreover have "name \<noteq> []"
    using ne unfolding name clamp_including_marker_def truncate_on_char_boundary_def
    by (auto simp: ELLIPSIS_def of_chars_def utf8_enc1_def)
  moreover have "length name \<le> DISPLAY_NAME_MAX_LEN"
    unfolding name by (rule clamp_length) (simp add: ELLIPSIS_LEN_def DISPLAY_NAME_MAX_LEN_def)
  ultimately show ?thesis using u by blast
qed

lemma hex_digits_clean: "c \<in> set (hex_digits n) \<Longrightarrow> 48 \<le> c \<and> c < 127"
proof (induction n rule: hex_digits.induct)
  case (1 n)
  have d: "48 \<le> byte_of (hex_digit m) \<and> byte_of (hex_digit m) < 127" if "m < 16" for m
    using that by (auto simp: hex_digit_def)
  show ?case
  proof (cases "n < 16")
    case True
    with "1.prems" d show ?thesis by (subst (asm) hex_digits.simps) simp
  next
    case False
    with "1.prems" "1.IH" d[of "n mod 16"] show ?thesis by (subst (asm) hex_digits.simps) auto
  qed
qed

lemma escape_unicode_range: "d \<in> set (escape_unicode c) \<Longrightarrow> 32 \<le> d \<and> d < 127"
  using hex_digits_clean[of d c] by (auto simp: escape_unicode_def)

lemma escape_char_clean: "d \<in> set (escape_char c) \<Longrightarrow> clean_scalar d"
  by (auto simp: escape_char_def escape_default_control_def clean_scalar_def is_control_def
      is_bidi_format_char_def split: if_splits dest!: escape_unicode_range)

lemma escape_char_scalar: "is_scalar c \<Longrightarrow> list_all is_scalar (escape_char c)"
  by (auto simp: escape_char_def escape_default_control_def list_all_iff is_scalar_def
      split: if_splits dest!: escape_unicode_range)

lemma list_all_concat_map: "(\<And>x. x \<in> set xs \<Longrightarrow> list_all P (f x)) \<Longrightarrow> list_all P (concat (map f xs))"
  by (auto simp: list_all_iff)

lemma chars_escape: "chars (escape_control_and_bidi s) = concat (map escape_char (chars s))"
proof -
  have "list_all is_scalar (concat (map escape_char (chars s)))"
    using chars_scalar[of s] by (intro list_all_concat_map escape_char_scalar) (auto simp: list_all_iff)
  then show ?thesis by (simp add: escape_control_and_bidi_def)
qed

lemma escape_char_id: "clean_scalar c \<Longrightarrow> escape_char c = [c]"
  by (simp add: escape_char_def clean_scalar_def)

lemma concat_escape_clean: "list_all clean_scalar cs \<Longrightarrow> concat (map escape_char cs) = cs"
  by (induction cs) (simp_all add: escape_char_id)

text \<open>
  Escaping leaves no control and no bidirectional character, and escaping twice is escaping once,
  so a value may be escaped both where it enters an error and where it is rendered.
\<close>

theorem escape_control_and_bidi_idem:
  "list_all clean_scalar (chars (escape_control_and_bidi s)) \<and>
   escape_control_and_bidi (escape_control_and_bidi s) = escape_control_and_bidi s"
proof -
  have clean: "list_all clean_scalar (concat (map escape_char (chars s)))"
    by (intro list_all_concat_map) (auto simp: list_all_iff escape_char_clean)
  then have "escape_control_and_bidi (escape_control_and_bidi s) =
      of_chars (concat (map escape_char (chars s)))"
    unfolding escape_control_and_bidi_def[of "escape_control_and_bidi s"] chars_escape
    by (simp add: concat_escape_clean)
  then have "escape_control_and_bidi (escape_control_and_bidi s) = escape_control_and_bidi s"
    by (simp only: escape_control_and_bidi_def[of s])
  with clean show ?thesis by (simp only: chars_escape)
qed

lemma chars_label_line:
  "chars (label_line raw n) =
     take n (filter (\<lambda>c. \<not> is_invisible_format_char c)
       (filter (\<lambda>c. \<not> (is_control c \<or> is_bidi_format_char c)) (chars raw)))"
proof -
  let ?cs = "take n (filter (\<lambda>c. \<not> is_invisible_format_char c) (chars (strip_control_and_bidi raw False)))"
  have "list_all is_scalar ?cs" by (intro list_all_takeI list_all_filterI chars_scalar)
  then show ?thesis by (simp add: label_line_def chars_strip)
qed

lemma label_line_safe:
  "length (chars (label_line raw n)) \<le> n"
  "list_all clean_scalar (chars (label_line raw n))"
  "is_utf8 (label_line raw n)"
proof -
  show "length (chars (label_line raw n)) \<le> n" by (simp add: chars_label_line)
  show "list_all clean_scalar (chars (label_line raw n))"
    by (auto simp: chars_label_line list_all_iff clean_scalar_def dest!: in_set_takeD)
  show "is_utf8 (label_line raw n)"
    by (simp add: label_line_def list_all_takeI list_all_filterI chars_scalar)
qed

end
