(* ===== verification/Inbox_Data.thy ===== *)
theory Inbox_Data
  imports Deck_Ids Untrusted_Text
begin

text \<open>
  The data of the per-agent inbox (\<^verbatim>\<open>src/src/inbox.rs\<close>): recipients, senders, messages and their
  states, listings and events, the limits and their environment overrides, the content a producer
  supplies, and what a post, an ack or a settlement answers. Field names carry a prefix for their
  struct, since HOL record fields are global.
\<close>

section \<open>Report provenance\<close>

record producer =
  prod_pane_id :: string
  prod_agent_id :: string
  prod_role :: "string option"

datatype dispatch_phase = PhaseStarted | PhaseFailed | PhaseEnded | PhaseUnknown

datatype report_provenance =
    ProvTask string string producer
  | ProvTerminal string string producer
  | ProvUncorrelated string producer
  | ProvDispatchResult "string option" dispatch_phase "string option"
  | ProvUnknown

section \<open>Recipients and senders\<close>

record recipient =
  rcp_pane_id :: string
  rcp_agent_id :: "string option"

definition recipient_bound :: "string \<Rightarrow> string \<Rightarrow> recipient" where
  "recipient_bound pane agent = \<lparr>rcp_pane_id = pane, rcp_agent_id = Some agent\<rparr>"

definition recipient_unbound :: "string \<Rightarrow> recipient" where
  "recipient_unbound pane = \<lparr>rcp_pane_id = pane, rcp_agent_id = None\<rparr>"

definition admits :: "recipient \<Rightarrow> string \<Rightarrow> string \<Rightarrow> bool" where
  "admits r pane agent \<longleftrightarrow>
     rcp_pane_id r = pane \<and> (case rcp_agent_id r of None \<Rightarrow> True | Some a \<Rightarrow> a = agent)"

definition same_holder :: "recipient \<Rightarrow> recipient \<Rightarrow> bool" where
  "same_holder r other \<longleftrightarrow>
     rcp_pane_id r = rcp_pane_id other \<and>
     (case (rcp_agent_id r, rcp_agent_id other) of (Some a, Some b) \<Rightarrow> a = b | _ \<Rightarrow> True)"

datatype sender =
    SenderDeck string
  | SenderAgent string string "string option" "string option"

fun sender_agent_id :: "sender \<Rightarrow> string option" where
  "sender_agent_id (SenderAgent pane agent role orch) = Some agent"
| "sender_agent_id (SenderDeck reason) = None"

datatype body_trust = Trusted | Untrusted

datatype message_kind = Direct | Publish string | Offer string duration

fun kind_name :: "message_kind \<Rightarrow> string" where
  "kind_name Direct = ''direct''"
| "kind_name (Publish _) = ''publish''"
| "kind_name (Offer _ _) = ''offer''"

section \<open>The message state machine's states\<close>

datatype consumer = Waiter nat | Stream nat | TurnEndHook | DoorbellHook | FetchCli

datatype ack_how =
    PromptObserved | PluginConfirmed | ExtensionConfirmed | HookHandover | FetchedByCli | Explicit
  | OfferCompleted

datatype undeliverable_reason = AgentExited | MaxDeliver | Superseded | InboxShut | Cancelled

datatype message_state =
    Queued
  | Fetched consumer instant
  | Claimed recipient instant instant
  | Acknowledged instant ack_how
  | Undeliverable instant undeliverable_reason

datatype state_name = NQueued | NFetched | NClaimed | NAcknowledged | NUndeliverable

fun state_name_of :: "message_state \<Rightarrow> state_name" where
  "state_name_of Queued = NQueued"
| "state_name_of (Fetched _ _) = NFetched"
| "state_name_of (Claimed _ _ _) = NClaimed"
| "state_name_of (Acknowledged _ _) = NAcknowledged"
| "state_name_of (Undeliverable _ _) = NUndeliverable"

fun state_name_str :: "state_name \<Rightarrow> string" where
  "state_name_str NQueued = ''queued''"
| "state_name_str NFetched = ''fetched''"
| "state_name_str NClaimed = ''claimed''"
| "state_name_str NAcknowledged = ''acknowledged''"
| "state_name_str NUndeliverable = ''undeliverable''"

fun is_terminal :: "message_state \<Rightarrow> bool" where
  "is_terminal (Acknowledged _ _) = True"
| "is_terminal (Undeliverable _ _) = True"
| "is_terminal _ = False"

fun is_fetched :: "message_state \<Rightarrow> bool" where
  "is_fetched (Fetched _ _) = True"
| "is_fetched _ = False"

section \<open>Messages, listings and events\<close>

record message =
  m_id :: message_id
  m_kind :: message_kind
  m_to :: address
  m_recipient :: "recipient option"
  m_from :: sender
  m_subject :: string
  m_body :: string
  m_body_trust :: body_trust
  m_spill_path :: "string option"
  m_preface :: "string option"
  m_created_at :: instant
  m_state :: message_state
  m_deliveries :: nat
  m_history :: "(instant \<times> state_name) list"
  m_excluded :: "recipient list"
  m_assign_deadline :: "instant option"
  m_provenance :: "report_provenance option"

definition is_offer :: "message \<Rightarrow> bool" where
  "is_offer m = (case m_kind m of Offer _ _ \<Rightarrow> True | _ \<Rightarrow> False)"

definition message_scope :: "message \<Rightarrow> scope option" where
  "message_scope m =
     (case m_to m of AddrTopic _ s _ \<Rightarrow> Some s | AddrOffer _ s _ \<Rightarrow> Some s | AddrDirect _ _ \<Rightarrow> None)"

definition millis :: "duration \<Rightarrow> nat" where
  "millis d = min (d div 1000000) u64_max"

record message_summary =
  sum_id :: message_id
  sum_kind :: string
  sum_topic :: "string option"
  sum_pool :: "string option"
  sum_to :: string
  sum_recipient :: "recipient option"
  sum_bind_agent :: "string option"
  sum_from :: sender
  sum_subject :: string
  sum_body_trust :: body_trust
  sum_spill_path :: "string option"
  sum_state :: state_name
  sum_undeliverable_reason :: "undeliverable_reason option"
  sum_ack_how :: "ack_how option"
  sum_deliveries :: nat
  sum_age_ms :: nat
  sum_text :: "string option"
  sum_provenance :: "report_provenance option"

definition undeliverable_reason_of :: "message_state \<Rightarrow> undeliverable_reason option" where
  "undeliverable_reason_of s = (case s of Undeliverable _ r \<Rightarrow> Some r | _ \<Rightarrow> None)"

definition ack_how_of :: "message_state \<Rightarrow> ack_how option" where
  "ack_how_of s = (case s of Acknowledged _ how \<Rightarrow> Some how | _ \<Rightarrow> None)"

definition summary :: "message \<Rightarrow> instant \<Rightarrow> message_summary" where
  "summary m now =
     (let (topic, pool) =
        (case m_kind m of Direct \<Rightarrow> (None, None) | Publish t \<Rightarrow> (Some t, None) | Offer p _ \<Rightarrow> (None, Some p))
      in \<lparr>sum_id = m_id m, sum_kind = kind_name (m_kind m), sum_topic = topic, sum_pool = pool,
          sum_to = address_string (m_to m), sum_recipient = m_recipient m,
          sum_bind_agent = Option.bind (m_recipient m) rcp_agent_id,
          sum_from = m_from m, sum_subject = m_subject m, sum_body_trust = m_body_trust m,
          sum_spill_path = m_spill_path m, sum_state = state_name_of (m_state m),
          sum_undeliverable_reason = undeliverable_reason_of (m_state m),
          sum_ack_how = ack_how_of (m_state m), sum_deliveries = m_deliveries m,
          sum_age_ms = millis (now - m_created_at m), sum_text = None,
          sum_provenance = m_provenance m\<rparr>)"

record inbox_counts =
  cnt_queued :: nat
  cnt_fetched :: nat
  cnt_claimed :: nat
  cnt_undeliverable :: nat
  cnt_last_acked_at :: "instant option"

datatype return_cause = NotFetched | AckWaitExpired | ClaimExpired | Released | HolderExited

record offer_return =
  ret_previous :: recipient
  ret_cause :: return_cause

record inbox_event =
  ev_message_id :: message_id
  ev_kind :: string
  ev_recipient :: "recipient option"
  ev_from :: sender
  ev_body_trust :: body_trust
  ev_subject :: string
  ev_state :: state_name
  ev_undeliverable_reason :: "undeliverable_reason option"
  ev_returned :: "offer_return option"
  ev_requeued :: bool
  ev_provenance :: "report_provenance option"

section \<open>Limits\<close>

definition RATE_WINDOW :: duration where
  "RATE_WINDOW = from_secs 60"

definition MAX_OVERRIDE :: duration where
  "MAX_OVERRIDE = from_secs (365 * 24 * 60 * 60)"

definition override_millis :: "nat \<Rightarrow> duration" where
  "override_millis ms = min (from_millis ms) MAX_OVERRIDE"

record inbox_limits =
  ack_wait :: duration
  max_deliver :: nat
  max_per_recipient :: nat
  max_messages :: nat
  max_body_bytes :: nat
  history_per_pane :: nat
  dedup_window :: duration
  dedup_max_ids :: nat
  max_offers_per_scope :: nat
  rate_per_minute :: nat
  default_claim_ttl :: duration
  min_claim_ttl :: duration
  max_claim_ttl :: duration
  max_history_messages :: nat
  max_history_bytes :: nat
  history_body_ttl :: duration
  offer_assign_wait :: duration

definition default_limits :: inbox_limits where
  "default_limits =
     \<lparr>ack_wait = from_secs 60, max_deliver = 5, max_per_recipient = 256, max_messages = 4096,
      max_body_bytes = 1024 * 1024, history_per_pane = 64, dedup_window = from_secs (10 * 60),
      dedup_max_ids = 4096, max_offers_per_scope = 256, rate_per_minute = 60,
      default_claim_ttl = from_secs (30 * 60), min_claim_ttl = from_secs 60,
      max_claim_ttl = from_secs (24 * 60 * 60), max_history_messages = 1024,
      max_history_bytes = 16 * 1024 * 1024, history_body_ttl = from_secs (60 * 60),
      offer_assign_wait = from_secs 300\<rparr>"

text \<open>\<^verbatim>\<open>str::parse::<u64>\<close>: an optional plus sign, then digits only, at most \<^const>\<open>u64_max\<close>.\<close>

definition parse_u64 :: "string \<Rightarrow> nat option" where
  "parse_u64 s =
     (let ds = (case s of [] \<Rightarrow> [] | c # r \<Rightarrow> if c = CHR ''+'' then r else s)
      in if ds \<noteq> [] \<and> list_all is_ascii_digit ds \<and> digits_value ds \<le> u64_max
         then Some (digits_value ds) else None)"

definition positive_override :: "(string \<Rightarrow> string option) \<Rightarrow> string \<Rightarrow> nat option" where
  "positive_override lookup name =
     (case lookup name of
        None \<Rightarrow> None
      | Some raw \<Rightarrow>
          (case parse_u64 (trim raw) of
             Some n \<Rightarrow> (if n > 0 then Some n else None)
           | None \<Rightarrow> None))"

definition or_default :: "'a option \<Rightarrow> 'a \<Rightarrow> 'a" where
  "or_default x d = (case x of Some v \<Rightarrow> v | None \<Rightarrow> d)"

text \<open>\<^verbatim>\<open>usize\<close> is 64 bits wide.\<close>

definition limits_from_lookup :: "(string \<Rightarrow> string option) \<Rightarrow> inbox_limits" where
  "limits_from_lookup lookup =
     (let ms = (\<lambda>name. map_option override_millis (positive_override lookup name));
          count = (\<lambda>name. map_option (\<lambda>n. min n u64_max) (positive_override lookup name));
          small = (\<lambda>name. map_option (\<lambda>n. min n u32_max) (positive_override lookup name));
          d = default_limits;
          min_ttl = or_default (ms ''DOT_AGENT_DECK_INBOX_MIN_CLAIM_TTL_MS'') (min_claim_ttl d)
      in \<lparr>ack_wait = or_default (ms ''DOT_AGENT_DECK_INBOX_ACK_WAIT_MS'') (ack_wait d),
          max_deliver = or_default (small ''DOT_AGENT_DECK_INBOX_MAX_DELIVER'') (max_deliver d),
          max_per_recipient =
            or_default (count ''DOT_AGENT_DECK_INBOX_MAX_PER_RECIPIENT'') (max_per_recipient d),
          max_messages = or_default (count ''DOT_AGENT_DECK_INBOX_MAX_MESSAGES'') (max_messages d),
          max_body_bytes =
            or_default (count ''DOT_AGENT_DECK_INBOX_MAX_BODY_BYTES'') (max_body_bytes d),
          history_per_pane =
            or_default (count ''DOT_AGENT_DECK_INBOX_HISTORY_PER_PANE'') (history_per_pane d),
          dedup_window = or_default (ms ''DOT_AGENT_DECK_INBOX_DEDUP_WINDOW_MS'') (dedup_window d),
          dedup_max_ids = or_default (count ''DOT_AGENT_DECK_INBOX_DEDUP_MAX_IDS'') (dedup_max_ids d),
          max_offers_per_scope =
            or_default (count ''DOT_AGENT_DECK_INBOX_MAX_OFFERS_PER_SCOPE'') (max_offers_per_scope d),
          rate_per_minute = or_default (small ''DOT_AGENT_DECK_INBOX_RATE_PER_MINUTE'') (rate_per_minute d),
          default_claim_ttl = max (default_claim_ttl d) min_ttl,
          min_claim_ttl = min_ttl,
          max_claim_ttl = max (max_claim_ttl d) min_ttl,
          max_history_messages = max_history_messages d,
          max_history_bytes = max_history_bytes d,
          history_body_ttl = history_body_ttl d,
          offer_assign_wait =
            or_default (ms ''DOT_AGENT_DECK_INBOX_UNDELIVERED_NOTICE_AFTER_MS'') (offer_assign_wait d)\<rparr>)"

section \<open>Content, refusals and outcomes\<close>

record content =
  c_from :: sender
  c_subject :: string
  c_body :: string
  c_body_trust :: body_trust
  c_spill_path :: "string option"
  c_id :: "message_id option"
  c_preface :: "string option"
  c_provenance :: "report_provenance option"

definition content_from_deck :: "string \<Rightarrow> string \<Rightarrow> string \<Rightarrow> content" where
  "content_from_deck reason subject body =
     \<lparr>c_from = SenderDeck reason, c_subject = subject, c_body = body, c_body_trust = Trusted,
      c_spill_path = None, c_id = None, c_preface = None, c_provenance = None\<rparr>"

datatype post_error =
    InboxFull string nat
  | DeckFull nat
  | BodyTooLarge nat nat
  | Duplicate message_id "state_name option"
  | RateLimited nat
  | TooManyOffers nat
  | ClaimTtlOutOfRange nat nat
  | RecipientGone string

record published =
  pub_id :: message_id
  pub_delivered_to :: nat
  pub_refused_full :: "string list"

record offered =
  off_id :: message_id
  off_offered_to :: "recipient option"

datatype ack_outcome =
    AckAcknowledged
  | AckClaimed nat
  | AckAlreadyAcknowledged
  | AckWrongAgent
  | AckUndeliverable
  | AckUnknown

datatype claim_outcome = ClaimCompleted | ClaimReleased | ClaimOutExpired | NotClaimant | ClaimUnknown

section \<open>What is stored beside a body\<close>

definition MAX_STORED_SUBJECT_CHARS :: nat where "MAX_STORED_SUBJECT_CHARS = 200"
definition MAX_STORED_PREFACE_BYTES :: nat where "MAX_STORED_PREFACE_BYTES = 8 * 1024"
definition MAX_STORED_LABEL_BYTES :: nat where "MAX_STORED_LABEL_BYTES = 256"
definition MAX_STORED_PATH_BYTES :: nat where "MAX_STORED_PATH_BYTES = 4096"

definition cut_bytes :: "string \<Rightarrow> nat \<Rightarrow> string" where
  "cut_bytes str mx = take (boundary_at_or_below str (min mx (length str))) str"

definition capped_subject :: "string \<Rightarrow> string" where
  "capped_subject subject =
     (let one_line = of_chars (map (\<lambda>c. if is_control c then 32 else c) (chars subject))
      in label_line (trim one_line) MAX_STORED_SUBJECT_CHARS)"

fun capped_sender :: "sender \<Rightarrow> sender" where
  "capped_sender (SenderDeck reason) = SenderDeck (cut_bytes reason MAX_STORED_LABEL_BYTES)"
| "capped_sender (SenderAgent pane agent role orch) =
     SenderAgent pane agent (map_option (\<lambda>t. cut_bytes t MAX_STORED_LABEL_BYTES) role)
       (map_option (\<lambda>t. cut_bytes t MAX_STORED_LABEL_BYTES) orch)"

section \<open>Facts\<close>

lemma state_name_of_eq_Queued [simp]: "state_name_of s = NQueued \<longleftrightarrow> s = Queued"
  by (cases s) auto

lemma is_terminal_name: "is_terminal s \<longleftrightarrow> state_name_of s = NAcknowledged \<or> state_name_of s = NUndeliverable"
  by (cases s) auto

lemma cut_bytes_length: "length (cut_bytes str mx) \<le> mx"
  using boundary_at_or_below_le[of str "min mx (length str)"] by (simp add: cut_bytes_def)

lemma cut_bytes_utf8: "is_utf8 str \<Longrightarrow> is_utf8 (cut_bytes str mx)"
  unfolding cut_bytes_def by (rule is_utf8_take_boundary) (simp_all add: boundary_at_or_below_boundary)

lemma boundary_at_or_below_id: "is_char_boundary s n \<Longrightarrow> boundary_at_or_below s n = n"
  by (cases n) auto

lemma cut_bytes_short: "length str \<le> mx \<Longrightarrow> cut_bytes str mx = str"
  by (simp add: cut_bytes_def boundary_at_or_below_id is_char_boundary_def)

lemma capped_sender_agent [simp]: "sender_agent_id (capped_sender s) = sender_agent_id s"
  by (cases s) auto

lemma positive_override_pos: "positive_override lookup name = Some n \<Longrightarrow> 0 < n"
  by (auto simp: positive_override_def split: option.splits if_splits)

definition limits_ok :: "inbox_limits \<Rightarrow> bool" where
  "limits_ok l \<longleftrightarrow>
     0 < max_deliver l \<and> 0 < max_per_recipient l \<and> 0 < max_messages l \<and> 0 < dedup_max_ids l
     \<and> 0 < dedup_window l \<and> 0 < rate_per_minute l \<and> 0 < max_offers_per_scope l
     \<and> 0 < offer_assign_wait l \<and> 0 < min_claim_ttl l
     \<and> min_claim_ttl l \<le> default_claim_ttl l \<and> default_claim_ttl l \<le> max_claim_ttl l
     \<and> max_claim_ttl l \<le> MAX_OVERRIDE \<and> dedup_window l \<le> MAX_OVERRIDE
     \<and> offer_assign_wait l \<le> MAX_OVERRIDE \<and> max_deliver l \<le> u32_max \<and> rate_per_minute l \<le> u32_max"

lemma or_default_cases:
  "(\<And>v. x = Some v \<Longrightarrow> P v) \<Longrightarrow> P d \<Longrightarrow> P (or_default x d)"
  by (cases x) (simp_all add: or_default_def)

lemma override_duration:
  assumes "0 < d" "d \<le> MAX_OVERRIDE"
  shows "0 < or_default (map_option override_millis (positive_override lookup name)) d"
    "or_default (map_option override_millis (positive_override lookup name)) d \<le> MAX_OVERRIDE"
  by (rule or_default_cases; use assms in \<open>auto simp: override_millis_def from_millis_def MAX_OVERRIDE_def
      from_secs_def dest: positive_override_pos\<close>)+

lemma override_count:
  assumes "0 < d" "d \<le> hi" "0 < hi"
  shows "0 < or_default (map_option (\<lambda>n. min n hi) (positive_override lookup name)) d"
    "or_default (map_option (\<lambda>n. min n hi) (positive_override lookup name)) d \<le> hi"
  by (rule or_default_cases; use assms in \<open>auto dest: positive_override_pos\<close>)+

lemmas default_limit_values = default_limits_def from_secs_def MAX_OVERRIDE_def u32_max_def u64_max_def

text \<open>
  Whatever the environment says, the limits in force are usable: no bound is turned off, claim
  times are ordered, and every overridden duration is clamped to a year, so a deadline computed from
  one cannot overflow.
\<close>

theorem limits_from_lookup_ok: "limits_ok (limits_from_lookup lookup)"
proof -
  note dur = override_duration[of _ lookup] and cnt = override_count[of _ u64_max lookup]
    and sml = override_count[of _ u32_max lookup]
  have order: "default_claim_ttl default_limits \<le> max_claim_ttl default_limits"
    "max_claim_ttl default_limits \<le> MAX_OVERRIDE"
    by (simp_all add: default_limit_values)
  show ?thesis
    unfolding limits_ok_def limits_from_lookup_def Let_def inbox_limits.simps
    by (intro conjI max.mono max.boundedI max.cobounded2 dur cnt sml order order_refl)
       (simp_all add: default_limit_values)
qed

end
