(* ===== verification/Inbox_Ops.thy ===== *)
theory Inbox_Ops
  imports Inbox_Data
begin

text \<open>
  The inbox and its operations, from the "inbox" section of \<^verbatim>\<open>src/src/inbox.rs\<close>. Every method that
  takes \<^verbatim>\<open>&mut self\<close> takes the inbox last and returns it first. A method that mints an id takes the
  operating system's random bytes as \<^term>\<open>draws\<close>, the successive eight-byte values the minting loop
  would read; it answers \<^const>\<open>None\<close> when none of them gives a fresh id, which is where the loop would
  read on. The theory \<open>Inbox_Dedup\<close> shows how many draws are enough.
\<close>

record inbox =
  ib_deck :: deck_id
  ib_limits :: inbox_limits
  ib_messages :: "message list"
  ib_dedup :: "(instant \<times> message_id) list"
  ib_dedup_state :: "message_id \<rightharpoonup> state_name"
  ib_rate :: "string \<rightharpoonup> instant list"
  ib_events :: "inbox_event list"
  ib_reserved_replies :: nat

type_synonym refusal = "post_error + unit"
type_synonym random_draws = "nat list list"

definition inbox_new :: "deck_id \<Rightarrow> inbox_limits \<Rightarrow> inbox" where
  "inbox_new deck limits =
     \<lparr>ib_deck = deck, ib_limits = limits, ib_messages = [], ib_dedup = [],
      ib_dedup_state = Map.empty, ib_rate = Map.empty, ib_events = [], ib_reserved_replies = 0\<rparr>"

section \<open>Counting\<close>

definition is_live :: "message \<Rightarrow> bool" where
  "is_live m \<longleftrightarrow> \<not> is_terminal (m_state m)"

definition live_count :: "inbox \<Rightarrow> nat" where
  "live_count ib = length (filter is_live (ib_messages ib))"

definition held_for_pane :: "string \<Rightarrow> message \<Rightarrow> bool" where
  "held_for_pane pane m \<longleftrightarrow> (case m_recipient m of None \<Rightarrow> False | Some r \<Rightarrow> rcp_pane_id r = pane)"

definition waits_for_pane :: "string \<Rightarrow> message \<Rightarrow> bool" where
  "waits_for_pane pane m \<longleftrightarrow> (m_state m = Queued \<or> is_fetched (m_state m)) \<and> held_for_pane pane m"

definition live_for_pane :: "string \<Rightarrow> inbox \<Rightarrow> nat" where
  "live_for_pane pane ib = length (filter (waits_for_pane pane) (ib_messages ib))"

definition has_room_for :: "string \<Rightarrow> inbox \<Rightarrow> bool" where
  "has_room_for pane ib \<longleftrightarrow> live_for_pane pane ib < max_per_recipient (ib_limits ib)"

section \<open>The checks of a post\<close>

definition check_body :: "content \<Rightarrow> inbox \<Rightarrow> refusal" where
  "check_body content ib =
     (let bytes = length (c_body content)
      in if max_body_bytes (ib_limits ib) < bytes
         then Inl (BodyTooLarge bytes (max_body_bytes (ib_limits ib))) else Inr ())"

definition check_room :: "nat \<Rightarrow> inbox \<Rightarrow> refusal" where
  "check_room needed ib =
     (if max_messages (ib_limits ib) < live_count ib + ib_reserved_replies ib + needed
      then Inl (DeckFull (max_messages (ib_limits ib))) else Inr ())"

definition recent_posts :: "instant \<Rightarrow> string \<Rightarrow> inbox \<Rightarrow> nat" where
  "recent_posts now agent ib =
     (case ib_rate ib agent of
        None \<Rightarrow> 0
      | Some ts \<Rightarrow> length (filter (\<lambda>t. now - t < RATE_WINDOW) ts))"

definition check_rate :: "instant \<Rightarrow> sender \<Rightarrow> inbox \<Rightarrow> refusal" where
  "check_rate now from ib =
     (case sender_agent_id from of
        None \<Rightarrow> Inr ()
      | Some agent \<Rightarrow>
          (if rate_per_minute (ib_limits ib) \<le> recent_posts now agent ib
           then Inl (RateLimited (rate_per_minute (ib_limits ib))) else Inr ()))"

definition record_rate :: "instant \<Rightarrow> sender \<Rightarrow> inbox \<Rightarrow> inbox" where
  "record_rate now from ib =
     (case sender_agent_id from of
        None \<Rightarrow> ib
      | Some agent \<Rightarrow>
          ib\<lparr>ib_rate := (ib_rate ib)(agent \<mapsto>
               (case ib_rate ib agent of None \<Rightarrow> [] | Some ts \<Rightarrow> ts) @ [now])\<rparr>)"

definition check_id :: "message_id option \<Rightarrow> inbox \<Rightarrow> refusal" where
  "check_id wanted ib =
     (case wanted of
        None \<Rightarrow> Inr ()
      | Some i \<Rightarrow>
          (let held = find (\<lambda>m. m_id m = i) (ib_messages ib)
           in if held \<noteq> None \<or> ib_dedup_state ib i \<noteq> None
              then Inl (Duplicate i
                     (case held of Some m \<Rightarrow> Some (state_name_of (m_state m)) | None \<Rightarrow> ib_dedup_state ib i))
              else Inr ()))"

section \<open>The dedup window\<close>

fun expire_dedup_loop ::
  "instant \<Rightarrow> duration \<Rightarrow> (instant \<times> message_id) list \<Rightarrow> (message_id \<rightharpoonup> state_name)
     \<Rightarrow> (instant \<times> message_id) list \<times> (message_id \<rightharpoonup> state_name)" where
  "expire_dedup_loop now window [] known = ([], known)"
| "expire_dedup_loop now window ((at, old) # rest) known =
     (if now - at < window then ((at, old) # rest, known)
      else expire_dedup_loop now window rest (known(old := None)))"

definition expire_dedup :: "instant \<Rightarrow> inbox \<Rightarrow> inbox" where
  "expire_dedup now ib =
     (let (dedup, known) =
        expire_dedup_loop now (dedup_window (ib_limits ib)) (ib_dedup ib) (ib_dedup_state ib)
      in ib\<lparr>ib_dedup := dedup, ib_dedup_state := known\<rparr>)"

fun evict_dedup_loop ::
  "nat \<Rightarrow> (instant \<times> message_id) list \<Rightarrow> (message_id \<rightharpoonup> state_name)
     \<Rightarrow> (instant \<times> message_id) list \<times> (message_id \<rightharpoonup> state_name)" where
  "evict_dedup_loop mx [] known = ([], known)"
| "evict_dedup_loop mx ((at, old) # rest) known =
     (if mx < length ((at, old) # rest) then evict_dedup_loop mx rest (known(old := None))
      else ((at, old) # rest, known))"

definition id_is_fresh :: "inbox \<Rightarrow> message_id \<Rightarrow> bool" where
  "id_is_fresh ib i \<longleftrightarrow> ib_dedup_state ib i = None \<and> \<not> list_ex (\<lambda>m. m_id m = i) (ib_messages ib)"

definition register_id ::
  "random_draws \<Rightarrow> instant \<Rightarrow> message_id option \<Rightarrow> inbox \<Rightarrow> (inbox \<times> message_id) option" where
  "register_id draws now wanted ib =
     (case (case wanted of
              Some i \<Rightarrow> Some i
            | None \<Rightarrow> find (id_is_fresh ib) (map (message_id_generate (ib_deck ib)) draws)) of
        None \<Rightarrow> None
      | Some i \<Rightarrow>
          (let (dedup, known) =
             evict_dedup_loop (dedup_max_ids (ib_limits ib)) (ib_dedup ib @ [(now, i)])
               ((ib_dedup_state ib)(i \<mapsto> NQueued))
           in Some (ib\<lparr>ib_dedup := dedup, ib_dedup_state := known\<rparr>, i)))"

section \<open>The one place a state changes\<close>

definition message_transition :: "instant \<Rightarrow> message_state \<Rightarrow> message \<Rightarrow> message" where
  "message_transition now st m =
     m\<lparr>m_state := st,
       m_assign_deadline := (if st \<noteq> Queued then None else m_assign_deadline m),
       m_history := m_history m @ [(now, state_name_of st)]\<rparr>"

definition is_requeue :: "message_state \<Rightarrow> message_state \<Rightarrow> bool" where
  "is_requeue st old \<longleftrightarrow>
     st = Queued \<and> (case old of Fetched _ _ \<Rightarrow> True | Claimed _ _ _ \<Rightarrow> True | _ \<Rightarrow> False)"

definition transition_event :: "bool \<Rightarrow> message \<Rightarrow> inbox_event" where
  "transition_event requeued m =
     \<lparr>ev_message_id = m_id m, ev_kind = kind_name (m_kind m), ev_recipient = m_recipient m,
      ev_from = m_from m, ev_body_trust = m_body_trust m, ev_subject = m_subject m,
      ev_state = state_name_of (m_state m),
      ev_undeliverable_reason = undeliverable_reason_of (m_state m), ev_returned = None,
      ev_requeued = requeued, ev_provenance = m_provenance m\<rparr>"

definition transition :: "nat \<Rightarrow> instant \<Rightarrow> message_state \<Rightarrow> inbox \<Rightarrow> inbox" where
  "transition index now st ib =
     (let old = ib_messages ib ! index; m = message_transition now st old
      in ib\<lparr>ib_messages := (ib_messages ib)[index := m],
            ib_dedup_state :=
              (case ib_dedup_state ib (m_id m) of
                 Some _ \<Rightarrow> (ib_dedup_state ib)(m_id m \<mapsto> state_name_of st)
               | None \<Rightarrow> ib_dedup_state ib),
            ib_events := ib_events ib @ [transition_event (is_requeue st (m_state old)) m]\<rparr>)"

definition mark_returned :: "recipient option \<Rightarrow> return_cause \<Rightarrow> inbox_event list \<Rightarrow> inbox_event list" where
  "mark_returned previous cause evs =
     (case (previous, evs) of
        (Some p, _ # _) \<Rightarrow>
          butlast evs @ [(last evs)\<lparr>ev_returned := Some \<lparr>ret_previous = p, ret_cause = cause\<rparr>\<rparr>]
      | _ \<Rightarrow> evs)"

definition unassign :: "message \<Rightarrow> message" where
  "unassign m =
     m\<lparr>m_assign_deadline := None, m_recipient := None,
       m_excluded := (case m_recipient m of Some holder \<Rightarrow> m_excluded m @ [holder] | None \<Rightarrow> m_excluded m)\<rparr>"

definition return_offer :: "nat \<Rightarrow> instant \<Rightarrow> return_cause \<Rightarrow> inbox \<Rightarrow> inbox" where
  "return_offer index now cause ib =
     (let m = ib_messages ib ! index;
          ib1 = ib\<lparr>ib_messages := (ib_messages ib)[index := unassign m]\<rparr>;
          ib2 = transition index now
                  (if max_deliver (ib_limits ib) \<le> m_deliveries m then Undeliverable now MaxDeliver
                   else Queued) ib1
      in ib2\<lparr>ib_events := mark_returned (m_recipient m) cause (ib_events ib2)\<rparr>)"

section \<open>The history bound\<close>

definition ended_at :: "message \<Rightarrow> instant" where
  "ended_at m = (if m_history m = [] then m_created_at m else fst (last (m_history m)))"

definition drop_old_body :: "instant \<Rightarrow> duration \<Rightarrow> message \<Rightarrow> message" where
  "drop_old_body now ttl m =
     (if is_terminal (m_state m) \<and> m_body m \<noteq> [] \<and> ttl \<le> now - ended_at m
      then m\<lparr>m_body := []\<rparr> else m)"

definition holder_pane :: "message \<Rightarrow> string option" where
  "holder_pane m = map_option rcp_pane_id (m_recipient m)"

definition terminal_count :: "message list \<Rightarrow> string option \<Rightarrow> nat" where
  "terminal_count ms h = length (filter (\<lambda>m. is_terminal (m_state m) \<and> holder_pane m = h) ms)"

definition keep_per_pane :: "message \<Rightarrow> (string option \<Rightarrow> nat) \<Rightarrow> bool \<times> (string option \<Rightarrow> nat)" where
  "keep_per_pane m excess =
     (if \<not> is_terminal (m_state m) then (True, excess)
      else if 0 < excess (holder_pane m)
        then (False, excess(holder_pane m := excess (holder_pane m) - 1))
        else (True, excess))"

definition trim_per_pane :: "nat \<Rightarrow> message list \<Rightarrow> message list" where
  "trim_per_pane limit ms =
     (if list_ex (\<lambda>m. is_terminal (m_state m) \<and> limit < terminal_count ms (holder_pane m)) ms
      then retain_with keep_per_pane (\<lambda>h. terminal_count ms h - limit) ms
      else ms)"

definition history_size :: "message list \<Rightarrow> nat \<times> nat" where
  "history_size ms =
     foldl (\<lambda>(n, b) m. (n + 1, b + length (m_body m))) (0, 0) (filter (\<lambda>m. is_terminal (m_state m)) ms)"

definition keep_deck_wide :: "nat \<Rightarrow> nat \<Rightarrow> message \<Rightarrow> nat \<times> nat \<Rightarrow> bool \<times> (nat \<times> nat)" where
  "keep_deck_wide max_count max_bytes m acc =
     (case acc of (count, bytes) \<Rightarrow>
        (if \<not> is_terminal (m_state m) \<or> (count \<le> max_count \<and> bytes \<le> max_bytes)
         then (True, (count, bytes))
         else (False, (count - 1, bytes - length (m_body m)))))"

definition trim_deck_wide :: "nat \<Rightarrow> nat \<Rightarrow> message list \<Rightarrow> message list" where
  "trim_deck_wide max_count max_bytes ms =
     (case history_size ms of (count, bytes) \<Rightarrow>
        (if count \<le> max_count \<and> bytes \<le> max_bytes then ms
         else retain_with (keep_deck_wide max_count max_bytes) (count, bytes) ms))"

definition trim_history :: "instant \<Rightarrow> inbox \<Rightarrow> inbox" where
  "trim_history now ib =
     (let l = ib_limits ib;
          ms1 = map (drop_old_body now (history_body_ttl l)) (ib_messages ib);
          ms2 = trim_per_pane (history_per_pane l) ms1
      in ib\<lparr>ib_messages := trim_deck_wide (max_history_messages l) (max_history_bytes l) ms2\<rparr>)"

section \<open>Posting\<close>

definition new_message ::
  "instant \<Rightarrow> message_id \<Rightarrow> message_kind \<Rightarrow> address \<Rightarrow> recipient option \<Rightarrow> content \<Rightarrow> string \<Rightarrow> message" where
  "new_message now i kind addr rcp content body =
     \<lparr>m_id = i, m_kind = kind, m_to = addr, m_recipient = rcp,
      m_from = capped_sender (c_from content), m_subject = capped_subject (c_subject content),
      m_body = body, m_body_trust = c_body_trust content,
      m_spill_path =
        (case c_spill_path content of
           Some path \<Rightarrow> (if length path \<le> MAX_STORED_PATH_BYTES then Some path else None)
         | None \<Rightarrow> None),
      m_preface = map_option (\<lambda>p. cut_bytes p MAX_STORED_PREFACE_BYTES) (c_preface content),
      m_created_at = now, m_state = Queued, m_deliveries = 0, m_history = [], m_excluded = [],
      m_assign_deadline = None, m_provenance = c_provenance content\<rparr>"

definition inbox_insert ::
  "instant \<Rightarrow> message_id \<Rightarrow> message_kind \<Rightarrow> address \<Rightarrow> recipient option \<Rightarrow> content \<Rightarrow> string
     \<Rightarrow> inbox \<Rightarrow> inbox" where
  "inbox_insert now i kind addr rcp content body ib =
     (let ib1 = ib\<lparr>ib_messages := ib_messages ib @ [new_message now i kind addr rcp content body]\<rparr>
      in transition (length (ib_messages ib1) - 1) now Queued ib1)"

definition insert_direct ::
  "random_draws \<Rightarrow> instant \<Rightarrow> recipient \<Rightarrow> content \<Rightarrow> inbox \<Rightarrow> (inbox \<times> message_id) option" where
  "insert_direct draws now rcp content ib =
     (case register_id draws now (c_id content) ib of
        None \<Rightarrow> None
      | Some (ib1, i) \<Rightarrow>
          Some (trim_history now
                  (inbox_insert now i Direct (AddrDirect (ib_deck ib1) (rcp_pane_id rcp)) (Some rcp)
                     content (c_body content) ib1), i))"

definition admit_reply :: "instant \<Rightarrow> content \<Rightarrow> inbox \<Rightarrow> inbox \<times> refusal" where
  "admit_reply now content ib =
     (let ib1 = expire_dedup now ib
      in (ib1, and_then (check_body content ib1) (\<lambda>_.
               and_then (check_id (c_id content) ib1) (\<lambda>_. check_room 1 ib1))))"

definition admit_direct :: "instant \<Rightarrow> recipient \<Rightarrow> content \<Rightarrow> inbox \<Rightarrow> inbox \<times> refusal" where
  "admit_direct now rcp content ib =
     (case admit_reply now content ib of (ib1, admitted) \<Rightarrow>
        (ib1, and_then admitted (\<lambda>_.
           if \<not> has_room_for (rcp_pane_id rcp) ib1
           then Inl (InboxFull (rcp_pane_id rcp) (max_per_recipient (ib_limits ib1))) else Inr ())))"

text \<open>What every posting method does with its admission: refuse, or go on with the inserting step.\<close>

definition when_admitted ::
  "inbox \<times> (post_error + 'a) \<Rightarrow> ('a \<Rightarrow> inbox \<Rightarrow> (inbox \<times> 'b) option)
     \<Rightarrow> (inbox \<times> (post_error + 'b)) option" where
  "when_admitted adm go =
     (case adm of
        (ib, Inl e) \<Rightarrow> Some (ib, Inl e)
      | (ib, Inr a) \<Rightarrow> map_option (\<lambda>(ib', r). (ib', Inr r)) (go a ib))"

definition post_direct ::
  "random_draws \<Rightarrow> instant \<Rightarrow> recipient \<Rightarrow> content \<Rightarrow> inbox
     \<Rightarrow> (inbox \<times> (post_error + message_id)) option" where
  "post_direct draws now rcp content ib =
     when_admitted (admit_direct now rcp content ib) (\<lambda>_. insert_direct draws now rcp content)"

definition admit_agent_direct :: "instant \<Rightarrow> recipient \<Rightarrow> content \<Rightarrow> inbox \<Rightarrow> inbox \<times> refusal" where
  "admit_agent_direct now rcp content ib =
     (case check_rate now (c_from content) ib of
        Inl e \<Rightarrow> (ib, Inl e)
      | Inr _ \<Rightarrow> admit_direct now rcp content ib)"

definition post_agent_direct ::
  "random_draws \<Rightarrow> instant \<Rightarrow> recipient \<Rightarrow> content \<Rightarrow> inbox
     \<Rightarrow> (inbox \<times> (post_error + message_id)) option" where
  "post_agent_direct draws now rcp content ib =
     when_admitted (admit_agent_direct now rcp content ib)
       (\<lambda>_ ib1. insert_direct draws now rcp content (record_rate now (c_from content) ib1))"

section \<open>Reserved replies\<close>

definition reserve_reply :: "inbox \<Rightarrow> inbox \<times> refusal" where
  "reserve_reply ib =
     (case check_room 1 ib of
        Inl e \<Rightarrow> (ib, Inl e)
      | Inr _ \<Rightarrow> (ib\<lparr>ib_reserved_replies := ib_reserved_replies ib + 1\<rparr>, Inr ()))"

definition admit_reserved_reply :: "instant \<Rightarrow> content \<Rightarrow> inbox \<Rightarrow> inbox \<times> refusal" where
  "admit_reserved_reply now content ib =
     (let ib1 = expire_dedup now ib
      in (ib1, and_then (check_body content ib1) (\<lambda>_. check_id (c_id content) ib1)))"

definition reserve_delegate :: "instant \<Rightarrow> string \<Rightarrow> content \<Rightarrow> nat \<Rightarrow> inbox \<Rightarrow> inbox \<times> refusal" where
  "reserve_delegate now pane content replacing ib =
     (case admit_reserved_reply now content ib of
        (ib1, Inl e) \<Rightarrow> (ib1, Inl e)
      | (ib1, Inr _) \<Rightarrow>
          (if max_messages (ib_limits ib1) + replacing < live_count ib1 + ib_reserved_replies ib1 + 1
           then (ib1, Inl (DeckFull (max_messages (ib_limits ib1))))
           else if max_per_recipient (ib_limits ib1) + replacing \<le> live_for_pane pane ib1
           then (ib1, Inl (InboxFull pane (max_per_recipient (ib_limits ib1))))
           else (ib1\<lparr>ib_reserved_replies := ib_reserved_replies ib1 + 1\<rparr>, Inr ())))"

definition release_reply :: "inbox \<Rightarrow> inbox" where
  "release_reply ib = ib\<lparr>ib_reserved_replies := ib_reserved_replies ib - 1\<rparr>"

definition post_reserved_reply ::
  "random_draws \<Rightarrow> instant \<Rightarrow> recipient \<Rightarrow> content \<Rightarrow> inbox
     \<Rightarrow> (inbox \<times> (post_error + message_id)) option" where
  "post_reserved_reply draws now rcp content ib =
     when_admitted (admit_reserved_reply now content ib)
       (\<lambda>_ ib1. insert_direct draws now rcp content (release_reply ib1))"

section \<open>Publishing\<close>

definition admit_publish :: "instant \<Rightarrow> content \<Rightarrow> recipient list \<Rightarrow> inbox \<Rightarrow> inbox \<times> refusal" where
  "admit_publish now content recipients ib =
     (let ib1 = expire_dedup now ib;
          room = length (filter (\<lambda>r. has_room_for (rcp_pane_id r) ib1) recipients)
      in (ib1, and_then (check_body content ib1) (\<lambda>_.
               and_then (check_rate now (c_from content) ib1) (\<lambda>_.
               and_then (check_id (c_id content) ib1) (\<lambda>_. check_room room ib1)))))"

definition insert_copies ::
  "instant \<Rightarrow> message_id \<Rightarrow> address \<Rightarrow> string \<Rightarrow> content \<Rightarrow> recipient list \<Rightarrow> inbox \<Rightarrow> inbox" where
  "insert_copies now i addr topic content room ib =
     fold (\<lambda>r. inbox_insert now i (Publish topic) addr (Some r) content (c_body content)) room ib"

definition publish ::
  "random_draws \<Rightarrow> instant \<Rightarrow> scope \<Rightarrow> string \<Rightarrow> content \<Rightarrow> recipient list \<Rightarrow> inbox
     \<Rightarrow> (inbox \<times> (post_error + published)) option" where
  "publish draws now scope topic content recipients ib =
     when_admitted (admit_publish now content recipients ib) (\<lambda>_ ib1.
       (let room = filter (\<lambda>r. has_room_for (rcp_pane_id r) ib1) recipients;
            full = filter (\<lambda>r. \<not> has_room_for (rcp_pane_id r) ib1) recipients
        in case register_id draws now (c_id content) ib1 of
             None \<Rightarrow> None
           | Some (ib2, i) \<Rightarrow>
               (let ib3 = record_rate now (c_from content) ib2;
                    addr = AddrTopic (ib_deck ib3) scope topic
                in Some (trim_history now (insert_copies now i addr topic content room ib3),
                         \<lparr>pub_id = i, pub_delivered_to = length room,
                          pub_refused_full = map rcp_pane_id full\<rparr>))))"

section \<open>Offers\<close>

definition open_offer_in :: "scope \<Rightarrow> message \<Rightarrow> bool" where
  "open_offer_in scope m \<longleftrightarrow> is_offer m \<and> \<not> is_terminal (m_state m) \<and> message_scope m = Some scope"

definition admit_offer ::
  "instant \<Rightarrow> scope \<Rightarrow> duration option \<Rightarrow> content \<Rightarrow> inbox \<Rightarrow> inbox \<times> (post_error + duration)" where
  "admit_offer now scope claim_ttl content ib =
     (let ib1 = expire_dedup now ib;
          l = ib_limits ib1;
          ttl = (case claim_ttl of Some t \<Rightarrow> t | None \<Rightarrow> default_claim_ttl l);
          open_count = length (filter (open_offer_in scope) (ib_messages ib1))
      in (ib1, and_then (check_body content ib1) (\<lambda>_.
               if ttl < min_claim_ttl l \<or> max_claim_ttl l < ttl
               then Inl (ClaimTtlOutOfRange (millis (min_claim_ttl l)) (millis (max_claim_ttl l)))
               else and_then (check_rate now (c_from content) ib1) (\<lambda>_.
                    if max_offers_per_scope l \<le> open_count then Inl (TooManyOffers (max_offers_per_scope l))
                    else and_then (check_id (c_id content) ib1) (\<lambda>_.
                         and_then (check_room 1 ib1) (\<lambda>_. Inr ttl))))))"

definition unassigned_offer :: "message \<Rightarrow> bool" where
  "unassigned_offer m \<longleftrightarrow> is_offer m \<and> m_recipient m = None \<and> m_state m = Queued"

definition eligible :: "inbox \<Rightarrow> message \<Rightarrow> recipient \<Rightarrow> bool" where
  "eligible ib m c \<longleftrightarrow>
     \<not> list_ex (\<lambda>e. same_holder e c) (m_excluded m)
     \<and> live_for_pane (rcp_pane_id c) ib < max_per_recipient (ib_limits ib)"

definition assign_offer ::
  "instant \<Rightarrow> message_id \<Rightarrow> recipient list \<Rightarrow> inbox \<Rightarrow> inbox \<times> recipient option" where
  "assign_offer now i candidates ib =
     (case position (\<lambda>m. m_id m = i \<and> unassigned_offer m) (ib_messages ib) of
        None \<Rightarrow> (ib, None)
      | Some index \<Rightarrow>
          (let m = ib_messages ib ! index
           in case find (eligible ib m) candidates of
                None \<Rightarrow> (ib, None)
              | Some chosen \<Rightarrow>
                  (let m' = m\<lparr>m_recipient := Some chosen, m_deliveries := m_deliveries m + 1,
                              m_assign_deadline := Some (now + offer_assign_wait (ib_limits ib))\<rparr>
                   in (transition index now Queued
                         (ib\<lparr>ib_messages := (ib_messages ib)[index := m']\<rparr>), Some chosen))))"

definition offer ::
  "random_draws \<Rightarrow> instant \<Rightarrow> scope \<Rightarrow> string \<Rightarrow> duration option \<Rightarrow> content \<Rightarrow> recipient list \<Rightarrow> inbox
     \<Rightarrow> (inbox \<times> (post_error + offered)) option" where
  "offer draws now scope pool claim_ttl content candidates ib =
     when_admitted (admit_offer now scope claim_ttl content ib) (\<lambda>ttl ib1.
       (case register_id draws now (c_id content) ib1 of
          None \<Rightarrow> None
        | Some (ib2, i) \<Rightarrow>
            (let ib3 = record_rate now (c_from content) ib2;
                 addr = AddrOffer (ib_deck ib3) scope pool;
                 ib4 = inbox_insert now i (Offer pool ttl) addr None content (c_body content) ib3
             in (case assign_offer now i candidates ib4 of (ib5, chosen) \<Rightarrow>
                   Some (ib5, \<lparr>off_id = i, off_offered_to = chosen\<rparr>)))))"

definition unassigned_offers :: "inbox \<Rightarrow> message_id list" where
  "unassigned_offers ib = map m_id (filter unassigned_offer (ib_messages ib))"

section \<open>Taking and acknowledging\<close>

definition for_agent :: "message_id \<Rightarrow> string \<Rightarrow> string \<Rightarrow> message \<Rightarrow> bool" where
  "for_agent i pane agent m \<longleftrightarrow>
     m_id m = i \<and> (case m_recipient m of None \<Rightarrow> False | Some r \<Rightarrow> admits r pane agent)"

definition find_for :: "message_id \<Rightarrow> string \<Rightarrow> string \<Rightarrow> inbox \<Rightarrow> nat option" where
  "find_for i pane agent ib = position (for_agent i pane agent) (ib_messages ib)"

definition ack ::
  "instant \<Rightarrow> message_id \<Rightarrow> string \<Rightarrow> string \<Rightarrow> ack_how \<Rightarrow> inbox \<Rightarrow> inbox \<times> ack_outcome" where
  "ack now i pane agent how ib =
     (case find_for i pane agent ib of
        None \<Rightarrow>
          (ib, if list_ex (\<lambda>m. m_id m = i) (ib_messages ib) then AckWrongAgent else AckUnknown)
      | Some index \<Rightarrow>
          (let m = ib_messages ib ! index;
               acknowledge = trim_history now (transition index now (Acknowledged now how) ib)
           in case m_state m of
                Acknowledged _ _ \<Rightarrow> (ib, AckAlreadyAcknowledged)
              | Undeliverable _ reason \<Rightarrow>
                  (if reason = MaxDeliver \<and> \<not> is_offer m then (acknowledge, AckAcknowledged)
                   else (ib, AckUndeliverable))
              | Claimed _ _ expires \<Rightarrow> (ib, AckClaimed (millis (expires - now)))
              | _ \<Rightarrow>
                  (case m_kind m of
                     Offer _ claim_ttl \<Rightarrow>
                       (let who = (case m_recipient m of Some r \<Rightarrow> r | None \<Rightarrow> recipient_bound pane agent)
                        in (transition index now (Claimed who now (now + claim_ttl)) ib,
                            AckClaimed (millis claim_ttl)))
                   | _ \<Rightarrow> (acknowledge, AckAcknowledged))))"

definition take_receipt ::
  "instant \<Rightarrow> message_id \<Rightarrow> string \<Rightarrow> string \<Rightarrow> consumer \<Rightarrow> inbox \<Rightarrow> inbox \<times> message option" where
  "take_receipt now i pane agent consumer ib =
     (case find_for i pane agent ib of
        None \<Rightarrow> (ib, None)
      | Some index \<Rightarrow>
          (let m = ib_messages ib ! index
           in if m_state m \<noteq> Queued then (ib, None)
              else let m' = (if is_offer m then m else m\<lparr>m_deliveries := m_deliveries m + 1\<rparr>);
                       ib' = transition index now (Fetched consumer now)
                               (ib\<lparr>ib_messages := (ib_messages ib)[index := m']\<rparr>)
                   in (ib', Some (ib_messages ib' ! index))))"

definition count_receipt_repeat :: "message_id \<Rightarrow> string \<Rightarrow> string \<Rightarrow> inbox \<Rightarrow> inbox \<times> bool" where
  "count_receipt_repeat i pane agent ib =
     (case find_for i pane agent ib of
        None \<Rightarrow> (ib, False)
      | Some index \<Rightarrow>
          (let m = ib_messages ib ! index
           in if \<not> is_fetched (m_state m) \<or> is_offer m then (ib, False)
              else (ib\<lparr>ib_messages := (ib_messages ib)[index := m\<lparr>m_deliveries := m_deliveries m + 1\<rparr>]\<rparr>, True)))"

definition requeue_receipt :: "instant \<Rightarrow> message_id \<Rightarrow> string \<Rightarrow> inbox \<Rightarrow> inbox \<times> bool" where
  "requeue_receipt now i pane ib =
     (case position (\<lambda>m. m_id m = i \<and> held_for_pane pane m) (ib_messages ib) of
        None \<Rightarrow> (ib, False)
      | Some index \<Rightarrow>
          (if \<not> is_fetched (m_state (ib_messages ib ! index)) then (ib, False)
           else (trim_history now
                   (if is_offer (ib_messages ib ! index) then return_offer index now AckWaitExpired ib
                    else transition index now Queued ib), True)))"

definition state_for :: "message_id \<Rightarrow> string \<Rightarrow> string \<Rightarrow> inbox \<Rightarrow> message_state option" where
  "state_for i pane agent ib =
     map_option (\<lambda>index. m_state (ib_messages ib ! index)) (find_for i pane agent ib)"

section \<open>Settling a claim\<close>

definition claimed_by :: "message_id \<Rightarrow> string \<Rightarrow> string \<Rightarrow> inbox \<Rightarrow> claim_outcome + nat" where
  "claimed_by i pane agent ib =
     (case position (\<lambda>m. m_id m = i \<and> is_offer m \<and> \<not> is_terminal (m_state m)) (ib_messages ib) of
        None \<Rightarrow> Inl ClaimUnknown
      | Some index \<Rightarrow>
          (case m_state (ib_messages ib ! index) of
             Claimed who _ _ \<Rightarrow> (if admits who pane agent then Inr index else Inl NotClaimant)
           | _ \<Rightarrow> Inl NotClaimant))"

definition claim_due :: "instant \<Rightarrow> message \<Rightarrow> bool" where
  "claim_due now m \<longleftrightarrow> (case m_state m of Claimed _ _ expires \<Rightarrow> expires \<le> now | _ \<Rightarrow> False)"

definition expire_claim_if_due :: "nat \<Rightarrow> instant \<Rightarrow> inbox \<Rightarrow> inbox \<times> bool" where
  "expire_claim_if_due index now ib =
     (if claim_due now (ib_messages ib ! index)
      then (trim_history now (return_offer index now ClaimExpired ib), True)
      else (ib, False))"

definition complete ::
  "instant \<Rightarrow> message_id \<Rightarrow> string \<Rightarrow> string \<Rightarrow> inbox \<Rightarrow> inbox \<times> claim_outcome" where
  "complete now i pane agent ib =
     (case claimed_by i pane agent ib of
        Inl outcome \<Rightarrow> (ib, outcome)
      | Inr index \<Rightarrow>
          (case expire_claim_if_due index now ib of
             (ib1, True) \<Rightarrow> (ib1, ClaimOutExpired)
           | (ib1, False) \<Rightarrow>
               (trim_history now (transition index now (Acknowledged now OfferCompleted) ib1),
                ClaimCompleted)))"

definition release ::
  "instant \<Rightarrow> message_id \<Rightarrow> string \<Rightarrow> string \<Rightarrow> inbox \<Rightarrow> inbox \<times> claim_outcome" where
  "release now i pane agent ib =
     (case claimed_by i pane agent ib of
        Inl outcome \<Rightarrow> (ib, outcome)
      | Inr index \<Rightarrow>
          (case expire_claim_if_due index now ib of
             (ib1, True) \<Rightarrow> (ib1, ClaimOutExpired)
           | (ib1, False) \<Rightarrow> (trim_history now (return_offer index now Released ib1), ClaimReleased)))"

section \<open>Exits, retirement and time\<close>

definition bound_to :: "string \<Rightarrow> string \<Rightarrow> message \<Rightarrow> bool" where
  "bound_to pane agent m \<longleftrightarrow>
     (case m_recipient m of None \<Rightarrow> False | Some r \<Rightarrow> rcp_pane_id r = pane \<and> rcp_agent_id r = Some agent)"

definition agent_exited_body :: "instant \<Rightarrow> string \<Rightarrow> string \<Rightarrow> nat \<Rightarrow> inbox \<Rightarrow> inbox" where
  "agent_exited_body now pane agent index ib =
     (let m = ib_messages ib ! index
      in if is_terminal (m_state m) then ib
         else if \<not> bound_to pane agent m then ib
         else if is_offer m then return_offer index now HolderExited ib
         else transition index now (Undeliverable now AgentExited) ib)"

definition agent_exited :: "instant \<Rightarrow> string \<Rightarrow> string \<Rightarrow> inbox \<Rightarrow> inbox" where
  "agent_exited now pane agent ib =
     trim_history now (down_from (agent_exited_body now pane agent) (length (ib_messages ib)) ib)"

definition retire ::
  "instant \<Rightarrow> message_id \<Rightarrow> string \<Rightarrow> undeliverable_reason \<Rightarrow> inbox \<Rightarrow> inbox \<times> bool" where
  "retire now i pane reason ib =
     (case position (\<lambda>m. m_id m = i \<and> \<not> is_terminal (m_state m) \<and> held_for_pane pane m) (ib_messages ib) of
        None \<Rightarrow> (ib, False)
      | Some index \<Rightarrow> (trim_history now (transition index now (Undeliverable now reason) ib), True))"

definition assignment_due :: "instant \<Rightarrow> message \<Rightarrow> bool" where
  "assignment_due now m \<longleftrightarrow>
     m_state m = Queued \<and> (case m_assign_deadline m of Some due \<Rightarrow> due \<le> now | None \<Rightarrow> False)"

definition tick_body :: "instant \<Rightarrow> nat \<Rightarrow> inbox \<Rightarrow> inbox" where
  "tick_body now index ib =
     (let m = ib_messages ib ! index
      in if claim_due now m then return_offer index now ClaimExpired ib
         else if assignment_due now m then return_offer index now NotFetched ib
         else ib)"

definition prune_rate :: "instant \<Rightarrow> (string \<rightharpoonup> instant list) \<Rightarrow> (string \<rightharpoonup> instant list)" where
  "prune_rate now rate =
     (\<lambda>agent. case rate agent of
        None \<Rightarrow> None
      | Some ts \<Rightarrow>
          (let ts' = dropWhile (\<lambda>t. RATE_WINDOW \<le> now - t) ts
           in if ts' = [] then None else Some ts'))"

definition tick :: "instant \<Rightarrow> inbox \<Rightarrow> inbox" where
  "tick now ib =
     (let ib1 = down_from (tick_body now) (length (ib_messages ib)) ib;
          ib2 = expire_dedup now (trim_history now ib1)
      in ib2\<lparr>ib_rate := prune_rate now (ib_rate ib2)\<rparr>)"

definition message_deadline :: "message \<Rightarrow> instant option" where
  "message_deadline m =
     (case m_state m of
        Claimed _ _ expires \<Rightarrow> Some expires
      | Queued \<Rightarrow> m_assign_deadline m
      | _ \<Rightarrow> None)"

definition next_deadline :: "inbox \<Rightarrow> instant option" where
  "next_deadline ib =
     (case List.map_filter message_deadline (ib_messages ib) of
        [] \<Rightarrow> None
      | d # ds \<Rightarrow> Some (fold min ds d))"

section \<open>Reading\<close>

definition inbox_list :: "string \<Rightarrow> inbox \<Rightarrow> message list" where
  "inbox_list pane ib = filter (held_for_pane pane) (ib_messages ib)"

definition inbox_get :: "message_id \<Rightarrow> string \<Rightarrow> inbox \<Rightarrow> message option" where
  "inbox_get i pane ib =
     find (\<lambda>m. m_id m = i \<and> (held_for_pane pane m \<or> (is_offer m \<and> m_recipient m = None))) (ib_messages ib)"

definition count_message :: "message \<Rightarrow> inbox_counts \<Rightarrow> inbox_counts" where
  "count_message m c =
     (case m_state m of
        Queued \<Rightarrow> c\<lparr>cnt_queued := cnt_queued c + 1\<rparr>
      | Fetched _ _ \<Rightarrow> c\<lparr>cnt_fetched := cnt_fetched c + 1\<rparr>
      | Claimed _ _ _ \<Rightarrow> c\<lparr>cnt_claimed := cnt_claimed c + 1\<rparr>
      | Undeliverable _ _ \<Rightarrow> c\<lparr>cnt_undeliverable := cnt_undeliverable c + 1\<rparr>
      | Acknowledged at _ \<Rightarrow>
          c\<lparr>cnt_last_acked_at := Some (case cnt_last_acked_at c of None \<Rightarrow> at | Some t \<Rightarrow> max t at)\<rparr>)"

definition counts :: "string \<Rightarrow> inbox \<Rightarrow> inbox_counts" where
  "counts pane ib =
     fold count_message (inbox_list pane ib)
       \<lparr>cnt_queued = 0, cnt_fetched = 0, cnt_claimed = 0, cnt_undeliverable = 0, cnt_last_acked_at = None\<rparr>"

definition forget_pane_history :: "string \<Rightarrow> inbox \<Rightarrow> inbox" where
  "forget_pane_history pane ib =
     ib\<lparr>ib_messages := filter (\<lambda>m. \<not> is_terminal (m_state m) \<or> \<not> held_for_pane pane m) (ib_messages ib)\<rparr>"

definition drain_events :: "inbox \<Rightarrow> inbox \<times> inbox_event list" where
  "drain_events ib = (ib\<lparr>ib_events := []\<rparr>, ib_events ib)"

end
