(* ===== verification/Inbox_History.thy ===== *)
theory Inbox_History
  imports Inbox_Ops
begin

text \<open>
  The bounded history of \<^verbatim>\<open>Inbox::trim_history\<close>: what ended is kept per pane and deck-wide only up to
  the limits, the oldest goes first, old bodies are dropped, and no live message is touched. The
  locale \<open>history_trim\<close> is the contract the other operations rely on.
\<close>

section \<open>Dropping old bodies\<close>

abbreviation is_ended :: "message \<Rightarrow> bool" where
  "is_ended m \<equiv> is_terminal (m_state m)"

lemma drop_old_body_fields [simp]:
  "m_id (drop_old_body now ttl m) = m_id m"
  "m_kind (drop_old_body now ttl m) = m_kind m"
  "m_to (drop_old_body now ttl m) = m_to m"
  "m_recipient (drop_old_body now ttl m) = m_recipient m"
  "m_from (drop_old_body now ttl m) = m_from m"
  "m_subject (drop_old_body now ttl m) = m_subject m"
  "m_spill_path (drop_old_body now ttl m) = m_spill_path m"
  "m_preface (drop_old_body now ttl m) = m_preface m"
  "m_state (drop_old_body now ttl m) = m_state m"
  "m_deliveries (drop_old_body now ttl m) = m_deliveries m"
  "m_history (drop_old_body now ttl m) = m_history m"
  "m_excluded (drop_old_body now ttl m) = m_excluded m"
  "m_assign_deadline (drop_old_body now ttl m) = m_assign_deadline m"
  "m_created_at (drop_old_body now ttl m) = m_created_at m"
  by (simp_all add: drop_old_body_def)

lemma drop_old_body_live: "\<not> is_ended m \<Longrightarrow> drop_old_body now ttl m = m"
  by (simp add: drop_old_body_def)

lemma drop_old_body_length: "length (m_body (drop_old_body now ttl m)) \<le> length (m_body m)"
  by (simp add: drop_old_body_def)

lemma drop_old_body_is_offer [simp]: "is_offer (drop_old_body now ttl m) = is_offer m"
  by (simp add: is_offer_def)

lemma drop_old_body_holder [simp]: "holder_pane (drop_old_body now ttl m) = holder_pane m"
  by (simp add: holder_pane_def)

lemma drop_old_body_is_live [simp]: "is_live (drop_old_body now ttl m) = is_live m"
  by (simp add: is_live_def)

lemma filter_live_map_drop: "filter is_live (map (drop_old_body now ttl) ms) = filter is_live ms"
  by (induction ms) (auto simp: is_live_def drop_old_body_live)

section \<open>The bound per pane\<close>

lemma terminal_count_Cons:
  "terminal_count (m # ms) h = (if is_ended m \<and> holder_pane m = h then 1 else 0) + terminal_count ms h"
  by (simp add: terminal_count_def)

lemma keep_per_pane_cases:
  "\<not> is_ended m \<Longrightarrow> keep_per_pane m excess = (True, excess)"
  "is_ended m \<Longrightarrow> excess (holder_pane m) = 0 \<Longrightarrow> keep_per_pane m excess = (True, excess)"
  "is_ended m \<Longrightarrow> 0 < excess (holder_pane m)
     \<Longrightarrow> keep_per_pane m excess = (False, excess(holder_pane m := excess (holder_pane m) - 1))"
  by (simp_all add: keep_per_pane_def)

lemma terminal_count_retain_per_pane:
  "terminal_count (retain_with keep_per_pane excess ms) h = terminal_count ms h - excess h"
proof (induction ms arbitrary: excess)
  case Nil
  show ?case by (simp add: terminal_count_def)
next
  case (Cons m ms)
  consider "\<not> is_ended m" | "is_ended m" "excess (holder_pane m) = 0"
    | "is_ended m" "0 < excess (holder_pane m)" by blast
  then show ?case
    by cases (auto simp: keep_per_pane_cases terminal_count_Cons Cons.IH)
qed

lemma terminal_count_trim_per_pane: "terminal_count (trim_per_pane limit ms) h \<le> limit"
proof (cases "list_ex (\<lambda>m. is_ended m \<and> limit < terminal_count ms (holder_pane m)) ms")
  case True
  then show ?thesis by (simp add: trim_per_pane_def terminal_count_retain_per_pane)
next
  case False
  have "terminal_count ms h \<le> limit"
  proof (cases "\<exists>m \<in> set ms. is_ended m \<and> holder_pane m = h")
    case True
    with False show ?thesis by (auto simp: list_ex_iff)
  next
    case none: False
    then have "filter (\<lambda>m. is_ended m \<and> holder_pane m = h) ms = []" by (auto simp: filter_empty_conv)
    then show ?thesis by (simp add: terminal_count_def)
  qed
  with False show ?thesis by (simp add: trim_per_pane_def)
qed

lemma filter_live_trim_per_pane: "filter is_live (trim_per_pane limit ms) = filter is_live ms"
  by (auto simp: trim_per_pane_def keep_per_pane_def is_live_def intro!: filter_retain_with)

lemma set_trim_per_pane: "set (trim_per_pane limit ms) \<subseteq> set ms"
  by (simp add: trim_per_pane_def set_retain_with)

section \<open>The deck-wide bound\<close>

lemma history_size_fold:
  "foldl (\<lambda>(n, b) m. (n + 1, b + length (m_body m))) (n0, b0) xs
     = (n0 + length xs, b0 + (\<Sum>m\<leftarrow>xs. length (m_body m)))"
  by (induction xs arbitrary: n0 b0) auto

lemma history_size_eq:
  "history_size ms = (length (filter is_ended ms), \<Sum>m\<leftarrow>filter is_ended ms. length (m_body m))"
  unfolding history_size_def by (subst history_size_fold) simp

definition within :: "nat \<Rightarrow> nat \<Rightarrow> nat \<times> nat \<Rightarrow> bool" where
  "within max_count max_bytes acc \<longleftrightarrow> fst acc \<le> max_count \<and> snd acc \<le> max_bytes"

lemma retain_within:
  "within c b acc \<Longrightarrow> retain_with (keep_deck_wide c b) acc ms = ms"
  by (induction ms) (auto simp: keep_deck_wide_def within_def split: prod.splits)

lemma retain_deck_wide:
  "\<exists>k. filter is_ended (retain_with (keep_deck_wide c b) (history_size ms) ms) = drop k (filter is_ended ms)
       \<and> within c b (history_size (retain_with (keep_deck_wide c b) (history_size ms) ms))"
proof (induction ms)
  case Nil
  show ?case by (simp add: history_size_def within_def)
next
  case (Cons m ms)
  consider "\<not> is_ended m" | "is_ended m" "within c b (history_size (m # ms))"
    | "is_ended m" "\<not> within c b (history_size (m # ms))" by blast
  then show ?case
  proof cases
    case 1
    with Cons show ?thesis by (auto simp: keep_deck_wide_def history_size_eq)
  next
    case 2
    with retain_within[OF 2(2), of "m # ms"] show ?thesis by (intro exI[of _ 0]) (simp del: retain_with.simps)
  next
    case 3
    then have "retain_with (keep_deck_wide c b) (history_size (m # ms)) (m # ms)
        = retain_with (keep_deck_wide c b) (history_size ms) ms"
      by (auto simp add: keep_deck_wide_def history_size_eq within_def)
    with Cons 3 show ?thesis by (metis drop_Suc_Cons filter.simps(2))
  qed
qed

lemma trim_deck_wide_oldest:
  "\<exists>k. filter is_ended (trim_deck_wide c b ms) = drop k (filter is_ended ms)"
  using retain_deck_wide[of c b ms]
  by (auto simp: trim_deck_wide_def split: prod.splits intro: exI[of _ 0])

lemma trim_deck_wide_within: "within c b (history_size (trim_deck_wide c b ms))"
  using retain_deck_wide[of c b ms] by (auto simp: trim_deck_wide_def within_def split: prod.splits)

lemma filter_live_trim_deck_wide: "filter is_live (trim_deck_wide c b ms) = filter is_live ms"
  by (auto simp: trim_deck_wide_def keep_deck_wide_def is_live_def split: prod.splits
      intro!: filter_retain_with)

lemma set_trim_deck_wide: "set (trim_deck_wide c b ms) \<subseteq> set ms"
proof -
  obtain n k where "history_size ms = (n, k)" by (cases "history_size ms")
  then show ?thesis by (simp add: trim_deck_wide_def set_retain_with)
qed

lemma filter_drop_le: "length (filter P (drop k xs)) \<le> length (filter P xs)"
proof -
  have "length (filter P xs) = length (filter P (take k xs)) + length (filter P (drop k xs))"
    by (metis append_take_drop_id filter_append length_append)
  then show ?thesis by simp
qed

lemma terminal_count_trim_deck_wide:
  "terminal_count (trim_deck_wide c b ms) h \<le> terminal_count ms h"
proof -
  have via: "terminal_count xs h = length (filter (\<lambda>m. holder_pane m = h) (filter is_ended xs))" for xs
    by (simp add: terminal_count_def conj_commute)
  obtain k where "filter is_ended (trim_deck_wide c b ms) = drop k (filter is_ended ms)"
    using trim_deck_wide_oldest by blast
  then show ?thesis unfolding via by (simp only: filter_drop_le)
qed

section \<open>The whole trim\<close>

lemma trim_history_fields [simp]:
  "ib_deck (trim_history now ib) = ib_deck ib" "ib_limits (trim_history now ib) = ib_limits ib"
  "ib_dedup (trim_history now ib) = ib_dedup ib"
  "ib_dedup_state (trim_history now ib) = ib_dedup_state ib" "ib_rate (trim_history now ib) = ib_rate ib"
  "ib_events (trim_history now ib) = ib_events ib"
  "ib_reserved_replies (trim_history now ib) = ib_reserved_replies ib"
  by (simp_all add: trim_history_def Let_def)

lemma trim_history_live [simp]:
  "filter is_live (ib_messages (trim_history now ib)) = filter is_live (ib_messages ib)"
  by (simp add: trim_history_def Let_def filter_live_trim_deck_wide filter_live_trim_per_pane
      filter_live_map_drop)

lemma trim_history_set:
  "set (ib_messages (trim_history now ib))
     \<subseteq> drop_old_body now (history_body_ttl (ib_limits ib)) ` set (ib_messages ib)"
proof -
  let ?ms = "map (drop_old_body now (history_body_ttl (ib_limits ib))) (ib_messages ib)"
  have "set (ib_messages (trim_history now ib)) \<subseteq> set ?ms"
    unfolding trim_history_def Let_def
    using set_trim_deck_wide set_trim_per_pane by fastforce
  then show ?thesis by simp
qed

lemma trim_history_distinct:
  assumes "\<And>m. g (drop_old_body now (history_body_ttl (ib_limits ib)) m) = g m"
    and "distinct (map g (ib_messages ib))"
  shows "distinct (map g (ib_messages (trim_history now ib)))"
proof -
  have "distinct (map g (map (drop_old_body now (history_body_ttl (ib_limits ib))) (ib_messages ib)))"
    using assms by (simp add: comp_def)
  then show ?thesis
    by (simp add: trim_history_def Let_def trim_deck_wide_def trim_per_pane_def distinct_retain_with
        split: prod.splits del: map_map)
qed

lemma trim_history_per_pane:
  "terminal_count (ib_messages (trim_history now ib)) h \<le> history_per_pane (ib_limits ib)"
  by (simp add: trim_history_def Let_def order_trans[OF terminal_count_trim_deck_wide terminal_count_trim_per_pane])

lemma trim_history_within:
  "within (max_history_messages (ib_limits ib)) (max_history_bytes (ib_limits ib))
     (history_size (ib_messages (trim_history now ib)))"
  by (simp add: trim_history_def Let_def trim_deck_wide_within)

definition history_bounded :: "inbox \<Rightarrow> bool" where
  "history_bounded ib \<longleftrightarrow>
     (\<forall>m \<in> set (ib_messages ib).
        terminal_count (ib_messages ib) (holder_pane m) \<le> history_per_pane (ib_limits ib))
     \<and> within (max_history_messages (ib_limits ib)) (max_history_bytes (ib_limits ib))
         (history_size (ib_messages ib))"

lemma history_bounded_trim: "history_bounded (trim_history now ib)"
  by (simp add: history_bounded_def trim_history_per_pane trim_history_within)

section \<open>Its contract\<close>

text \<open>
  What the operations rely on when they trim: it keeps every live message, in order, invents none,
  and leaves a bounded history behind.
\<close>

locale history_trim =
  fixes trim :: "instant \<Rightarrow> inbox \<Rightarrow> inbox"
  assumes keeps_live: "filter is_live (ib_messages (trim now ib)) = filter is_live (ib_messages ib)"
    and bounded: "history_bounded (trim now ib)"
    and keeps_rest: "ib_limits (trim now ib) = ib_limits ib" "ib_reserved_replies (trim now ib) = ib_reserved_replies ib"
begin

lemma live_count_trim: "live_count (trim now ib) = live_count ib"
  by (simp add: live_count_def keeps_live)

lemma waiting_is_live: "waits_for_pane pane m \<Longrightarrow> is_live m"
  by (cases "m_state m") (auto simp: waits_for_pane_def is_live_def)

lemma live_for_pane_filter:
  "live_for_pane pane ib = length (filter (waits_for_pane pane) (filter is_live (ib_messages ib)))"
proof -
  have "filter (waits_for_pane pane) (ib_messages ib)
      = filter (waits_for_pane pane) (filter is_live (ib_messages ib))"
    using waiting_is_live by (auto intro!: filter_cong)
  then show ?thesis by (simp only: live_for_pane_def)
qed

lemma live_for_pane_trim: "live_for_pane pane (trim now ib) = live_for_pane pane ib"
  by (simp only: live_for_pane_filter keeps_live)

lemma has_room_trim: "has_room_for pane (trim now ib) = has_room_for pane ib"
  by (simp add: has_room_for_def live_for_pane_trim keeps_rest)

lemma live_member_trim: "is_live m \<Longrightarrow> m \<in> set (ib_messages (trim now ib)) \<longleftrightarrow> m \<in> set (ib_messages ib)"
  using arg_cong[OF keeps_live, of set now ib] by (auto simp: set_eq_iff)

end

interpretation trimmed: history_trim trim_history
  by unfold_locales (simp_all add: history_bounded_trim)

lemmas trim_live_simps [simp] =
  trimmed.live_count_trim trimmed.live_for_pane_trim trimmed.has_room_trim

end
