(* ===== verification/Inbox_Steps.thy ===== *)
theory Inbox_Steps
  imports Inbox_History
begin

text \<open>
  The life of a message as a step relation, and the inbox as a transition system. \<open>lifecycle\<close> lists
  every way \<^verbatim>\<open>src/src/inbox.rs\<close> lets one message move; \<open>inbox_step\<close> lists the elementary changes of
  the whole inbox; \<open>inbox_op\<close> is one call of a method that takes \<^verbatim>\<open>&mut self\<close>. The locale
  \<open>inbox_invariant\<close> is the interface the invariants are proved against.
\<close>

section \<open>The life of one message\<close>

inductive lifecycle :: "inbox_limits \<Rightarrow> instant \<Rightarrow> message \<Rightarrow> message \<Rightarrow> message_state \<Rightarrow> bool"
  for l :: inbox_limits and now :: instant where
  life_assign:
    "unassigned_offer m \<Longrightarrow> \<not> list_ex (\<lambda>e. same_holder e c) (m_excluded m)
     \<Longrightarrow> lifecycle l now m
           (m\<lparr>m_recipient := Some c, m_deliveries := m_deliveries m + 1,
              m_assign_deadline := Some (now + offer_assign_wait l)\<rparr>) Queued"
| life_take:
    "m_state m = Queued \<Longrightarrow> m_recipient m \<noteq> None
     \<Longrightarrow> lifecycle l now m (if is_offer m then m else m\<lparr>m_deliveries := m_deliveries m + 1\<rparr>)
           (Fetched who now)"
| life_requeue:
    "is_fetched (m_state m) \<Longrightarrow> \<not> is_offer m \<Longrightarrow> lifecycle l now m m Queued"
| life_return:
    "is_offer m \<Longrightarrow> is_live m \<Longrightarrow> m_recipient m \<noteq> None
     \<Longrightarrow> lifecycle l now m (unassign m)
           (if max_deliver l \<le> m_deliveries m then Undeliverable now MaxDeliver else Queued)"
| life_ack:
    "\<not> is_offer m
     \<Longrightarrow> m_state m = Queued \<or> is_fetched (m_state m) \<or> undeliverable_reason_of (m_state m) = Some MaxDeliver
     \<Longrightarrow> lifecycle l now m m (Acknowledged now how)"
| life_claim:
    "m_kind m = Offer pool ttl \<Longrightarrow> m_state m = Queued \<or> is_fetched (m_state m)
     \<Longrightarrow> m_recipient m = Some r \<Longrightarrow> lifecycle l now m m (Claimed r now (now + ttl))"
| life_complete:
    "is_offer m \<Longrightarrow> m_state m = Claimed r at expires \<Longrightarrow> now < expires
     \<Longrightarrow> lifecycle l now m m (Acknowledged now OfferCompleted)"
| life_retire:
    "is_live m \<Longrightarrow> m_recipient m \<noteq> None \<Longrightarrow> lifecycle l now m m (Undeliverable now reason)"

definition msg_key :: "message \<Rightarrow> message_id \<times> string option" where
  "msg_key m = (m_id m, if is_offer m then None else holder_pane m)"

lemma is_offer_upd [simp]:
  "is_offer (m\<lparr>m_recipient := r\<rparr>) = is_offer m" "is_offer (m\<lparr>m_deliveries := d\<rparr>) = is_offer m"
  "is_offer (m\<lparr>m_assign_deadline := t\<rparr>) = is_offer m" "is_offer (m\<lparr>m_excluded := x\<rparr>) = is_offer m"
  "is_offer (m\<lparr>m_state := s\<rparr>) = is_offer m" "is_offer (m\<lparr>m_history := h\<rparr>) = is_offer m"
  by (simp_all add: is_offer_def)

lemma message_transition_fields [simp]:
  "m_id (message_transition now st m) = m_id m" "m_kind (message_transition now st m) = m_kind m"
  "m_recipient (message_transition now st m) = m_recipient m"
  "m_body (message_transition now st m) = m_body m" "m_from (message_transition now st m) = m_from m"
  "m_subject (message_transition now st m) = m_subject m"
  "m_spill_path (message_transition now st m) = m_spill_path m"
  "m_preface (message_transition now st m) = m_preface m"
  "m_state (message_transition now st m) = st" "m_deliveries (message_transition now st m) = m_deliveries m"
  "m_excluded (message_transition now st m) = m_excluded m"
  "m_history (message_transition now st m) = m_history m @ [(now, state_name_of st)]"
  "m_assign_deadline (message_transition now st m) = (if st \<noteq> Queued then None else m_assign_deadline m)"
  by (simp_all add: message_transition_def)

lemma message_transition_is_offer [simp]: "is_offer (message_transition now st m) = is_offer m"
  by (simp add: is_offer_def)

lemma message_transition_holder [simp]: "holder_pane (message_transition now st m) = holder_pane m"
  by (simp add: holder_pane_def)

lemma msg_key_transition [simp]: "msg_key (message_transition now st m) = msg_key m"
  by (simp add: msg_key_def)

lemma unassign_fields [simp]:
  "m_id (unassign m) = m_id m" "m_kind (unassign m) = m_kind m" "m_recipient (unassign m) = None"
  "m_body (unassign m) = m_body m" "m_state (unassign m) = m_state m" "m_from (unassign m) = m_from m"
  "m_subject (unassign m) = m_subject m" "m_spill_path (unassign m) = m_spill_path m"
  "m_preface (unassign m) = m_preface m"
  "m_deliveries (unassign m) = m_deliveries m" "m_assign_deadline (unassign m) = None"
  "m_history (unassign m) = m_history m" "is_offer (unassign m) = is_offer m"
  by (simp_all add: unassign_def is_offer_def)

lemma lifecycle_key:
  "lifecycle l now m m0 st \<Longrightarrow> msg_key m0 = msg_key m \<and> is_offer m0 = is_offer m \<and> m_body m0 = m_body m"
  by (induction rule: lifecycle.induct)
     (auto simp: msg_key_def holder_pane_def unassigned_offer_def)

lemma lifecycle_id: "lifecycle l now m m0 st \<Longrightarrow> m_id m0 = m_id m"
  using lifecycle_key by (fastforce simp: msg_key_def)

text \<open>A message that ended moves only from "ran out of deliveries" to "acknowledged after all".\<close>

lemma lifecycle_from_ended:
  assumes "lifecycle l now m m0 st" and "is_ended m"
  shows "undeliverable_reason_of (m_state m) = Some MaxDeliver \<and> \<not> is_offer m \<and> m0 = m
         \<and> state_name_of st = NAcknowledged"
  using assms
  by (induction rule: lifecycle.induct)
     (auto simp: unassigned_offer_def is_live_def elim: is_fetched.elims)

section \<open>Elementary steps of the inbox\<close>

definition key_free :: "message_id \<Rightarrow> message_kind \<Rightarrow> recipient option \<Rightarrow> message list \<Rightarrow> bool" where
  "key_free i kind rcp ms \<longleftrightarrow>
     (\<forall>m \<in> set ms. m_id m = i \<longrightarrow>
        \<not> is_offer m \<and> (case kind of Offer _ _ \<Rightarrow> False | _ \<Rightarrow> True)
        \<and> holder_pane m \<noteq> map_option rcp_pane_id rcp)"

definition kind_fits :: "message_kind \<Rightarrow> recipient option \<Rightarrow> bool" where
  "kind_fits kind rcp \<longleftrightarrow> (case kind of Offer _ _ \<Rightarrow> rcp = None | _ \<Rightarrow> rcp \<noteq> None)"

text \<open>A message changes hands only into an inbox that has room for it.\<close>

definition holder_fits :: "inbox \<Rightarrow> message \<Rightarrow> message \<Rightarrow> bool" where
  "holder_fits ib m m0 \<longleftrightarrow>
     m_recipient m0 = m_recipient m
     \<or> (case m_recipient m0 of None \<Rightarrow> True | Some c \<Rightarrow> has_room_for (rcp_pane_id c) ib)"

inductive inbox_step :: "inbox \<Rightarrow> inbox \<Rightarrow> bool" where
  step_life:
    "i < length (ib_messages ib) \<Longrightarrow> lifecycle (ib_limits ib) now (ib_messages ib ! i) m0 st
     \<Longrightarrow> holder_fits ib (ib_messages ib ! i) m0
     \<Longrightarrow> inbox_step ib (transition i now st (ib\<lparr>ib_messages := (ib_messages ib)[i := m0]\<rparr>))"
| step_repeat:
    "i < length (ib_messages ib) \<Longrightarrow> is_fetched (m_state (ib_messages ib ! i))
     \<Longrightarrow> \<not> is_offer (ib_messages ib ! i)
     \<Longrightarrow> inbox_step ib (ib\<lparr>ib_messages := (ib_messages ib)
           [i := (ib_messages ib ! i)\<lparr>m_deliveries := m_deliveries (ib_messages ib ! i) + 1\<rparr>]\<rparr>)"
| step_insert:
    "kind_fits kind rcp \<Longrightarrow> length body \<le> max_body_bytes (ib_limits ib)
     \<Longrightarrow> key_free i kind rcp (ib_messages ib)
     \<Longrightarrow> inbox_step ib (inbox_insert now i kind addr rcp content body ib)"
| step_register:
    "check_id wanted ib = Inr () \<Longrightarrow> register_id draws now wanted ib = Some (ib', i) \<Longrightarrow> inbox_step ib ib'"
| step_expire: "inbox_step ib (expire_dedup now ib)"
| step_trim: "inbox_step ib (trim_history now ib)"
| step_forget: "inbox_step ib (forget_pane_history pane ib)"
| step_returned: "inbox_step ib (ib\<lparr>ib_events := mark_returned p cause (ib_events ib)\<rparr>)"
| step_rate: "inbox_step ib (ib\<lparr>ib_rate := rate\<rparr>)"
| step_reserved: "inbox_step ib (ib\<lparr>ib_reserved_replies := n\<rparr>)"

text \<open>The steps of a call that posts and reserves nothing.\<close>

inductive inbox_move :: "inbox \<Rightarrow> inbox \<Rightarrow> bool" where
  move_life:
    "i < length (ib_messages ib) \<Longrightarrow> lifecycle (ib_limits ib) now (ib_messages ib ! i) m0 st
     \<Longrightarrow> holder_fits ib (ib_messages ib ! i) m0
     \<Longrightarrow> inbox_move ib (transition i now st (ib\<lparr>ib_messages := (ib_messages ib)[i := m0]\<rparr>))"
| move_repeat:
    "i < length (ib_messages ib) \<Longrightarrow> is_fetched (m_state (ib_messages ib ! i))
     \<Longrightarrow> \<not> is_offer (ib_messages ib ! i)
     \<Longrightarrow> inbox_move ib (ib\<lparr>ib_messages := (ib_messages ib)
           [i := (ib_messages ib ! i)\<lparr>m_deliveries := m_deliveries (ib_messages ib ! i) + 1\<rparr>]\<rparr>)"
| move_expire: "inbox_move ib (expire_dedup now ib)"
| move_trim: "inbox_move ib (trim_history now ib)"
| move_forget: "inbox_move ib (forget_pane_history pane ib)"
| move_returned: "inbox_move ib (ib\<lparr>ib_events := mark_returned p cause (ib_events ib)\<rparr>)"
| move_rate: "inbox_move ib (ib\<lparr>ib_rate := rate\<rparr>)"

abbreviation inbox_moves :: "inbox \<Rightarrow> inbox \<Rightarrow> bool" where
  "inbox_moves \<equiv> inbox_move\<^sup>*\<^sup>*"

abbreviation inbox_steps :: "inbox \<Rightarrow> inbox \<Rightarrow> bool" where
  "inbox_steps \<equiv> inbox_step\<^sup>*\<^sup>*"

lemma move_step: "inbox_move ib ib' \<Longrightarrow> inbox_step ib ib'"
  by (induction rule: inbox_move.induct) (blast intro: inbox_step.intros)+

lemma moves_steps: "inbox_moves ib ib' \<Longrightarrow> inbox_steps ib ib'"
  by (rule mono_rtranclp[rule_format, OF move_step])

subsection \<open>What an elementary operation leaves alone\<close>

lemma transition_fields [simp]:
  "ib_deck (transition i now st ib) = ib_deck ib" "ib_limits (transition i now st ib) = ib_limits ib"
  "ib_dedup (transition i now st ib) = ib_dedup ib" "ib_rate (transition i now st ib) = ib_rate ib"
  "ib_reserved_replies (transition i now st ib) = ib_reserved_replies ib"
  "ib_messages (transition i now st ib)
     = (ib_messages ib)[i := message_transition now st (ib_messages ib ! i)]"
  by (simp_all add: transition_def Let_def)

lemma transition_events:
  "ib_events (transition i now st ib)
     = ib_events ib @ [transition_event (is_requeue st (m_state (ib_messages ib ! i)))
                         (message_transition now st (ib_messages ib ! i))]"
  by (simp add: transition_def Let_def)

lemma transition_dedup_dom [simp]: "dom (ib_dedup_state (transition i now st ib)) = dom (ib_dedup_state ib)"
  by (auto simp: transition_def Let_def split: option.splits)

lemma inbox_insert_fields [simp]:
  "ib_deck (inbox_insert now i kind addr rcp content body ib) = ib_deck ib"
  "ib_limits (inbox_insert now i kind addr rcp content body ib) = ib_limits ib"
  "ib_dedup (inbox_insert now i kind addr rcp content body ib) = ib_dedup ib"
  "ib_rate (inbox_insert now i kind addr rcp content body ib) = ib_rate ib"
  "ib_reserved_replies (inbox_insert now i kind addr rcp content body ib) = ib_reserved_replies ib"
  "ib_messages (inbox_insert now i kind addr rcp content body ib)
     = ib_messages ib @ [message_transition now Queued (new_message now i kind addr rcp content body)]"
  "dom (ib_dedup_state (inbox_insert now i kind addr rcp content body ib)) = dom (ib_dedup_state ib)"
  by (simp_all add: inbox_insert_def Let_def)

lemma expire_dedup_fields [simp]:
  "ib_deck (expire_dedup now ib) = ib_deck ib" "ib_limits (expire_dedup now ib) = ib_limits ib"
  "ib_messages (expire_dedup now ib) = ib_messages ib" "ib_rate (expire_dedup now ib) = ib_rate ib"
  "ib_events (expire_dedup now ib) = ib_events ib"
  "ib_reserved_replies (expire_dedup now ib) = ib_reserved_replies ib"
  by (simp_all add: expire_dedup_def Let_def split: prod.splits)

lemma register_id_fields:
  assumes "register_id draws now wanted ib = Some (ib', i)"
  shows "ib_deck ib' = ib_deck ib" "ib_limits ib' = ib_limits ib" "ib_messages ib' = ib_messages ib"
    "ib_rate ib' = ib_rate ib" "ib_events ib' = ib_events ib"
    "ib_reserved_replies ib' = ib_reserved_replies ib"
  using assms by (auto simp: register_id_def Let_def split: option.splits prod.splits)

lemma record_rate_fields [simp]:
  "ib_deck (record_rate now from ib) = ib_deck ib" "ib_limits (record_rate now from ib) = ib_limits ib"
  "ib_messages (record_rate now from ib) = ib_messages ib"
  "ib_dedup (record_rate now from ib) = ib_dedup ib"
  "ib_dedup_state (record_rate now from ib) = ib_dedup_state ib"
  "ib_events (record_rate now from ib) = ib_events ib"
  "ib_reserved_replies (record_rate now from ib) = ib_reserved_replies ib"
  by (simp_all add: record_rate_def split: option.splits)

lemma release_reply_fields [simp]:
  "ib_deck (release_reply ib) = ib_deck ib" "ib_limits (release_reply ib) = ib_limits ib"
  "ib_messages (release_reply ib) = ib_messages ib" "ib_dedup (release_reply ib) = ib_dedup ib"
  "ib_dedup_state (release_reply ib) = ib_dedup_state ib" "ib_rate (release_reply ib) = ib_rate ib"
  "ib_events (release_reply ib) = ib_events ib"
  by (simp_all add: release_reply_def)

lemma inbox_step_limits: "inbox_step ib ib' \<Longrightarrow> ib_limits ib' = ib_limits ib \<and> ib_deck ib' = ib_deck ib"
  by (induction rule: inbox_step.induct) (auto simp: register_id_fields forget_pane_history_def)

lemma inbox_steps_limits: "inbox_steps ib ib' \<Longrightarrow> ib_limits ib' = ib_limits ib \<and> ib_deck ib' = ib_deck ib"
  by (induction rule: rtranclp_induct) (auto dest: inbox_step_limits)

end
