(* ===== verification/Inbox_Inv.thy ===== *)
theory Inbox_Inv
  imports Inbox_Steps
begin

text \<open>
  What is always true of the inbox of \<^verbatim>\<open>src/src/inbox.rs\<close>: the well-formedness of every message (who
  holds it, its deadline, its deliveries and exclusions, its history, the sizes stored), the
  uniqueness of a message's key, and the agreement of the dedup window with its states. Each is
  preserved by every elementary step.
\<close>

section \<open>One message\<close>

definition holding_ok :: "message \<Rightarrow> bool" where
  "holding_ok m \<longleftrightarrow>
     (case m_state m of Claimed r _ _ \<Rightarrow> is_offer m \<and> m_recipient m = Some r | _ \<Rightarrow> True)
     \<and> (\<not> is_offer m \<longrightarrow> m_recipient m \<noteq> None)
     \<and> (m_recipient m = None \<longrightarrow> m_state m = Queued \<or> undeliverable_reason_of (m_state m) = Some MaxDeliver)"

text \<open>An offer waits with a holder exactly while it has a deadline to be fetched by; nothing else has one.\<close>

definition deadline_ok :: "message \<Rightarrow> bool" where
  "deadline_ok m \<longleftrightarrow>
     (m_assign_deadline m \<noteq> None \<longleftrightarrow> is_offer m \<and> m_state m = Queued \<and> m_recipient m \<noteq> None)"

definition holders :: "message \<Rightarrow> recipient list" where
  "holders m = m_excluded m @ (case m_recipient m of None \<Rightarrow> [] | Some r \<Rightarrow> [r])"

text \<open>
  An offer counts one delivery per holder it has had, never more than the limit, and no two of its
  holders are the same agent.
\<close>

definition offer_ok :: "inbox_limits \<Rightarrow> message \<Rightarrow> bool" where
  "offer_ok l m \<longleftrightarrow>
     (if is_offer m
      then m_deliveries m = length (holders m) \<and> m_deliveries m \<le> max_deliver l
           \<and> (unassigned_offer m \<longrightarrow> m_deliveries m < max_deliver l)
           \<and> sorted_wrt (\<lambda>e c. \<not> same_holder e c) (holders m)
      else m_excluded m = [])"

definition trail_ok :: "message \<Rightarrow> bool" where
  "trail_ok m \<longleftrightarrow> m_history m \<noteq> [] \<and> snd (last (m_history m)) = state_name_of (m_state m)"

fun sender_bounded :: "sender \<Rightarrow> bool" where
  "sender_bounded (SenderDeck reason) \<longleftrightarrow> length reason \<le> MAX_STORED_LABEL_BYTES"
| "sender_bounded (SenderAgent pane agent role orch) \<longleftrightarrow>
     list_all (\<lambda>t. length t \<le> MAX_STORED_LABEL_BYTES)
       ((case role of None \<Rightarrow> [] | Some t \<Rightarrow> [t]) @ (case orch of None \<Rightarrow> [] | Some t \<Rightarrow> [t]))"

definition stored_ok :: "inbox_limits \<Rightarrow> message \<Rightarrow> bool" where
  "stored_ok l m \<longleftrightarrow>
     length (m_body m) \<le> max_body_bytes l
     \<and> (case m_preface m of None \<Rightarrow> True | Some p \<Rightarrow> length p \<le> MAX_STORED_PREFACE_BYTES)
     \<and> (case m_spill_path m of None \<Rightarrow> True | Some p \<Rightarrow> length p \<le> MAX_STORED_PATH_BYTES)
     \<and> sender_bounded (m_from m)"

definition msg_ok :: "inbox_limits \<Rightarrow> message \<Rightarrow> bool" where
  "msg_ok l m \<longleftrightarrow> holding_ok m \<and> deadline_ok m \<and> offer_ok l m \<and> trail_ok m \<and> stored_ok l m"

lemma fetched_cases: "is_fetched s \<Longrightarrow> (\<And>c at. s = Fetched c at \<Longrightarrow> P) \<Longrightarrow> P"
  by (cases s) auto

lemma fetched_not_terminal [simp]: "is_fetched s \<Longrightarrow> \<not> is_terminal s"
  by (cases s) auto

lemma holders_transition [simp]: "holders (message_transition now st m) = holders m"
  by (simp add: holders_def)

lemma holders_unassign [simp]: "holders (unassign m) = holders m"
  by (auto simp: holders_def unassign_def split: option.splits)

lemma capped_sender_bounded: "sender_bounded (capped_sender s)"
  by (cases s) (auto simp: cut_bytes_length split: option.splits)

lemma sorted_wrt_snoc:
  "sorted_wrt R (xs @ [c]) \<longleftrightarrow> sorted_wrt R xs \<and> (\<forall>x \<in> set xs. R x c)"
  by (auto simp: sorted_wrt_append)

lemma lifecycle_holding:
  "lifecycle l now m m0 st \<Longrightarrow> holding_ok m \<Longrightarrow> holding_ok (message_transition now st m0)"
  by (induction rule: lifecycle.induct)
     (auto simp: holding_ok_def unassigned_offer_def undeliverable_reason_of_def is_live_def is_offer_def
       split: message_state.splits message_kind.splits)

lemma lifecycle_deadline:
  "lifecycle l now m m0 st \<Longrightarrow> deadline_ok m \<Longrightarrow> deadline_ok (message_transition now st m0)"
  by (induction rule: lifecycle.induct)
     (auto simp: deadline_ok_def unassigned_offer_def elim: fetched_cases)

lemma lifecycle_offer:
  assumes "lifecycle l now m m0 st" "offer_ok l m" "0 < max_deliver l"
  shows "offer_ok l (message_transition now st m0)"
  using assms
proof (induction rule: lifecycle.induct)
  case (life_assign m c)
  then have "holders m = m_excluded m" by (simp add: holders_def unassigned_offer_def)
  with life_assign show ?case
    by (auto simp: offer_ok_def unassigned_offer_def holders_def sorted_wrt_snoc list_ex_iff)
next
  case (life_take m who)
  then show ?case by (auto simp: offer_ok_def unassigned_offer_def)
next
  case (life_requeue m)
  then show ?case by (auto simp: offer_ok_def)
next
  case (life_return m)
  then show ?case by (auto simp: offer_ok_def unassigned_offer_def)
next
  case (life_ack m how)
  then show ?case by (auto simp: offer_ok_def)
next
  case (life_claim m pool ttl r)
  then show ?case by (auto simp: offer_ok_def unassigned_offer_def)
next
  case (life_complete m r at expires)
  then show ?case by (auto simp: offer_ok_def unassigned_offer_def)
next
  case (life_retire m reason)
  then show ?case by (auto simp: offer_ok_def unassigned_offer_def)
qed

lemma transition_trail: "trail_ok (message_transition now st m)"
  by (simp add: trail_ok_def)

lemma lifecycle_stored: "lifecycle l now m m0 st \<Longrightarrow> stored_ok l' m \<Longrightarrow> stored_ok l' (message_transition now st m0)"
  by (induction rule: lifecycle.induct) (auto simp: stored_ok_def)

lemma lifecycle_msg_ok:
  "lifecycle l now m m0 st \<Longrightarrow> msg_ok l m \<Longrightarrow> 0 < max_deliver l \<Longrightarrow> msg_ok l (message_transition now st m0)"
  unfolding msg_ok_def
  by (blast intro: lifecycle_holding lifecycle_deadline lifecycle_offer transition_trail lifecycle_stored)

lemma new_message_ok:
  assumes "kind_fits kind rcp" "length body \<le> max_body_bytes l" "0 < max_deliver l"
  shows "msg_ok l (message_transition now Queued (new_message now i kind addr rcp content body))"
  using assms
  by (cases kind)
     (auto simp: msg_ok_def holding_ok_def deadline_ok_def offer_ok_def trail_ok_def stored_ok_def holders_def
       new_message_def kind_fits_def is_offer_def unassigned_offer_def capped_sender_bounded cut_bytes_length
       split: option.splits)

lemma drop_old_body_ok: "msg_ok l m \<Longrightarrow> msg_ok l (drop_old_body now ttl m)"
proof -
  assume ok: "msg_ok l m"
  have same: "holders (drop_old_body now ttl m) = holders m"
    "unassigned_offer (drop_old_body now ttl m) = unassigned_offer m"
    by (simp_all add: holders_def unassigned_offer_def)
  have "holding_ok (drop_old_body now ttl m) = holding_ok m"
    "deadline_ok (drop_old_body now ttl m) = deadline_ok m"
    "offer_ok l (drop_old_body now ttl m) = offer_ok l m"
    "trail_ok (drop_old_body now ttl m) = trail_ok m"
    by (simp_all add: holding_ok_def deadline_ok_def offer_ok_def trail_ok_def same split: message_state.split)
  with ok order_trans[OF drop_old_body_length[of now ttl m]] show ?thesis
    by (simp add: msg_ok_def stored_ok_def)
qed

lemma repeat_ok:
  "is_fetched (m_state m) \<Longrightarrow> \<not> is_offer m \<Longrightarrow> msg_ok l m \<Longrightarrow> msg_ok l (m\<lparr>m_deliveries := m_deliveries m + 1\<rparr>)"
  by (auto simp: msg_ok_def holding_ok_def deadline_ok_def offer_ok_def trail_ok_def stored_ok_def
      split: message_state.splits)

section \<open>The whole inbox\<close>

definition kinds_agree :: "message list \<Rightarrow> bool" where
  "kinds_agree ms \<longleftrightarrow> (\<forall>m \<in> set ms. \<forall>m' \<in> set ms. m_id m = m_id m' \<longrightarrow> is_offer m = is_offer m')"

definition keys_ok :: "message list \<Rightarrow> bool" where
  "keys_ok ms \<longleftrightarrow> distinct (map msg_key ms) \<and> kinds_agree ms"

definition dedup_ok :: "inbox \<Rightarrow> bool" where
  "dedup_ok ib \<longleftrightarrow>
     distinct (map snd (ib_dedup ib)) \<and> dom (ib_dedup_state ib) = set (map snd (ib_dedup ib))
     \<and> length (ib_dedup ib) \<le> dedup_max_ids (ib_limits ib)"

definition messages_ok :: "inbox \<Rightarrow> bool" where
  "messages_ok ib \<longleftrightarrow> (\<forall>m \<in> set (ib_messages ib). msg_ok (ib_limits ib) m)"

definition inbox_ok :: "inbox \<Rightarrow> bool" where
  "inbox_ok ib \<longleftrightarrow> limits_ok (ib_limits ib) \<and> messages_ok ib \<and> keys_ok (ib_messages ib) \<and> dedup_ok ib"

lemma limits_ok_deliver: "limits_ok l \<Longrightarrow> 0 < max_deliver l"
  by (simp add: limits_ok_def)

lemma inbox_ok_new: "limits_ok l \<Longrightarrow> inbox_ok (inbox_new deck l)"
  by (simp add: inbox_ok_def inbox_new_def messages_ok_def keys_ok_def kinds_agree_def dedup_ok_def)

subsection \<open>Messages\<close>

lemma step_messages_ok:
  assumes "inbox_step ib ib'" "limits_ok (ib_limits ib)" "messages_ok ib"
  shows "messages_ok ib'"
  using assms
proof (induction rule: inbox_step.induct)
  case (step_life i ib now m0 st)
  let ?l = "ib_limits ib"
  have "msg_ok ?l (message_transition now st m0)"
    using step_life by (auto simp: messages_ok_def intro!: lifecycle_msg_ok limits_ok_deliver)
  with step_life show ?case
    by (auto simp: messages_ok_def elim!: ball_list_updateI[where P = "msg_ok ?l", rotated 2])
next
  case (step_repeat i ib)
  then have "msg_ok (ib_limits ib) ((ib_messages ib ! i)\<lparr>m_deliveries := m_deliveries (ib_messages ib ! i) + 1\<rparr>)"
    by (intro repeat_ok) (simp_all add: messages_ok_def)
  with step_repeat show ?case
    by (auto simp: messages_ok_def elim!: ball_list_updateI[where P = "msg_ok (ib_limits ib)", rotated 2])
next
  case (step_insert kind rcp body ib i now addr content)
  then show ?case by (auto simp: messages_ok_def intro!: new_message_ok limits_ok_deliver)
next
  case (step_register wanted ib draws now ib' i)
  then show ?case by (simp add: messages_ok_def register_id_fields)
next
  case (step_trim ib now)
  then show ?case using trim_history_set[of now ib] by (auto simp: messages_ok_def dest!: drop_old_body_ok)
next
  case (step_forget ib pane)
  then show ?case by (simp add: messages_ok_def forget_pane_history_def)
qed (simp_all add: messages_ok_def)

subsection \<open>Keys\<close>

lemma kinds_agreeD: "kinds_agree ms \<Longrightarrow> m \<in> set ms \<Longrightarrow> m' \<in> set ms \<Longrightarrow> m_id m = m_id m' \<Longrightarrow> is_offer m = is_offer m'"
  unfolding kinds_agree_def by blast

lemma kinds_agree_from:
  assumes "\<And>x. x \<in> set xs \<Longrightarrow> \<exists>y \<in> set ys. m_id y = m_id x \<and> is_offer y = is_offer x" "kinds_agree ys"
  shows "kinds_agree xs"
  unfolding kinds_agree_def
proof (intro ballI impI)
  fix x x' assume x: "x \<in> set xs" "x' \<in> set xs" and eq: "m_id x = m_id x'"
  obtain y where y: "y \<in> set ys" "m_id y = m_id x" "is_offer y = is_offer x" using assms(1)[OF x(1)] by blast
  obtain y' where y': "y' \<in> set ys" "m_id y' = m_id x'" "is_offer y' = is_offer x'"
    using assms(1)[OF x(2)] by blast
  have "m_id y = m_id y'" using y(2) y'(2) eq by metis
  from kinds_agreeD[OF assms(2) y(1) y'(1) this] show "is_offer x = is_offer x'"
    using y(3) y'(3) by metis
qed

lemma keys_ok_update:
  assumes "i < length ms" "msg_key m = msg_key (ms ! i)" "is_offer m = is_offer (ms ! i)" "keys_ok ms"
  shows "keys_ok (ms[i := m])"
proof -
  have same: "map msg_key (ms[i := m]) = map msg_key ms"
    using assms by (metis list_update_id map_update)
  have ids: "m_id (ms ! i) = m_id m" using assms(2) by (simp add: msg_key_def)
  have "\<exists>y \<in> set ms. m_id y = m_id x \<and> is_offer y = is_offer x" if "x \<in> set (ms[i := m])" for x
    using that set_update_subset_insert[of ms i m] ids assms(1,3) nth_mem by blast
  from kinds_agree_from[OF this] assms(4) have "kinds_agree (ms[i := m])" unfolding keys_ok_def by blast
  with same assms(4) show ?thesis unfolding keys_ok_def by simp
qed

lemma keys_ok_append:
  assumes "keys_ok ms" "key_free i kind rcp ms"
    and m: "m_id m = i" "m_kind m = kind" "m_recipient m = rcp"
  shows "keys_ok (ms @ [m])"
proof -
  have free: "\<not> is_offer x" "\<not> is_offer m" "holder_pane x \<noteq> holder_pane m" if "x \<in> set ms" "m_id x = m_id m" for x
    using bspec[OF assms(2)[unfolded key_free_def] that(1)] that(2) m
    by (simp_all add: is_offer_def holder_pane_def split: message_kind.splits)
  have "msg_key x \<noteq> msg_key m" if "x \<in> set ms" for x
    using free[OF that] by (auto simp: msg_key_def)
  then have "msg_key m \<notin> msg_key ` set ms" by force
  moreover have "kinds_agree (ms @ [m])"
    unfolding kinds_agree_def
  proof (intro ballI impI)
    fix x x' assume x: "x \<in> set (ms @ [m])" "x' \<in> set (ms @ [m])" and eq: "m_id x = m_id x'"
    consider "x \<in> set ms" "x' \<in> set ms" | "x' = m" "x \<in> set ms" | "x = m" "x' \<in> set ms" | "x = m" "x' = m"
      using x by auto
    then show "is_offer x = is_offer x'"
    proof cases
      case 1
      then show ?thesis using assms(1) eq kinds_agreeD unfolding keys_ok_def by blast
    next
      case 2
      then show ?thesis using free[of x] eq by metis
    next
      case 3
      then show ?thesis using free[of x'] eq by metis
    qed simp
  qed
  ultimately show ?thesis using assms(1) unfolding keys_ok_def by simp
qed

lemma keys_ok_trim: "keys_ok (ib_messages ib) \<Longrightarrow> keys_ok (ib_messages (trim_history now ib))"
proof -
  assume ok: "keys_ok (ib_messages ib)"
  have "distinct (map msg_key (ib_messages (trim_history now ib)))"
    by (rule trim_history_distinct) (use ok in \<open>auto simp: msg_key_def keys_ok_def\<close>)
  moreover have "\<exists>y \<in> set (ib_messages ib). m_id y = m_id x \<and> is_offer y = is_offer x"
    if "x \<in> set (ib_messages (trim_history now ib))" for x
    using subsetD[OF trim_history_set that] by auto
  then have "kinds_agree (ib_messages (trim_history now ib))"
    by (rule kinds_agree_from) (use ok in \<open>simp_all add: keys_ok_def\<close>)
  ultimately show ?thesis unfolding keys_ok_def by simp
qed

lemma step_keys_ok:
  assumes "inbox_step ib ib'" "keys_ok (ib_messages ib)"
  shows "keys_ok (ib_messages ib')"
  using assms
proof (induction rule: inbox_step.induct)
  case (step_life i ib now m0 st)
  then show ?case using lifecycle_key[OF step_life(2)] by (auto intro!: keys_ok_update)
next
  case (step_repeat i ib)
  then show ?case by (auto intro!: keys_ok_update simp: msg_key_def holder_pane_def)
next
  case (step_insert kind rcp body ib i now addr content)
  then show ?case by (auto intro!: keys_ok_append simp: new_message_def)
next
  case (step_register wanted ib draws now ib' i)
  then show ?case by (simp add: register_id_fields)
next
  case (step_trim ib now)
  then show ?case by (simp add: keys_ok_trim)
next
  case (step_forget ib pane)
  then show ?case by (auto simp: keys_ok_def kinds_agree_def forget_pane_history_def distinct_map_filter)
qed simp_all

end
