(* ===== verification/Inbox_Dedup.thy ===== *)
theory Inbox_Dedup
  imports Inbox_Inv
begin

text \<open>
  The dedup window of \<^verbatim>\<open>src/src/inbox.rs\<close> (\<^verbatim>\<open>check_id\<close>, \<^verbatim>\<open>register_id\<close>, \<^verbatim>\<open>expire_dedup\<close>): ids leave it
  oldest first, the recorded states stay in step with it, an id in it is refused, and minting a fresh
  id ends after a bounded number of random draws.
\<close>

section \<open>Both ways an id leaves the window\<close>

locale id_window =
  fixes shrink :: "(instant \<times> message_id) list \<Rightarrow> (message_id \<rightharpoonup> state_name)
      \<Rightarrow> (instant \<times> message_id) list \<times> (message_id \<rightharpoonup> state_name)"
  assumes drops_oldest: "\<exists>k. shrink d known = (drop k d, known |` (- snd ` set (take k d)))"
begin

lemma agrees:
  assumes "distinct (map snd d)" "dom known = snd ` set d" "shrink d known = (d', known')"
  shows "distinct (map snd d')" "dom known' = snd ` set d'" "length d' \<le> length d"
proof -
  obtain k where k: "d' = drop k d" "known' = known |` (- snd ` set (take k d))"
    using drops_oldest[of d known] assms(3) by auto
  then show "distinct (map snd d')" "length d' \<le> length d" using assms(1) by (simp_all flip: drop_map)
  have "snd ` set d = snd ` set (take k d) \<union> snd ` set (drop k d)"
    by (metis append_take_drop_id image_Un set_append)
  moreover have "snd ` set (take k d) \<inter> snd ` set (drop k d) = {}"
    using assms(1) set_take_disj_set_drop_if_distinct[of "map snd d" k k] by (simp add: take_map drop_map)
  ultimately show "dom known' = snd ` set d'" using k assms(2) by auto
qed

lemma only_forgets: "shrink d known = (d', known') \<Longrightarrow> known' i = known i \<or> known' i = None"
proof -
  assume s: "shrink d known = (d', known')"
  obtain k where "shrink d known = (drop k d, known |` (- snd ` set (take k d)))" using drops_oldest by blast
  with s have "known' = known |` (- snd ` set (take k d))" by simp
  then show "known' i = known i \<or> known' i = None" by (simp add: restrict_map_def)
qed

lemma keeps:
  assumes "distinct (map snd d)" "shrink d known = (d', known')" "(at, i) \<in> set d'"
  shows "known' i = known i"
proof -
  obtain k where k: "d' = drop k d" "known' = known |` (- snd ` set (take k d))"
    using drops_oldest[of d known] assms(2) by auto
  have "i \<in> snd ` set (drop k d)" using assms(3) k by force
  moreover have "snd ` set (take k d) \<inter> snd ` set (drop k d) = {}"
    using assms(1) set_take_disj_set_drop_if_distinct[of "map snd d" k k] by (simp add: take_map drop_map)
  ultimately show ?thesis using k by (auto simp: restrict_map_def)
qed

end

lemma restrict_upd_None: "(known(old := None)) |` (- A) = known |` (- insert old A)"
  by (auto simp: restrict_map_def fun_eq_iff)

lemma expire_loop_drops:
  "\<exists>k. expire_dedup_loop now window d known = (drop k d, known |` (- snd ` set (take k d)))"
proof (induction d arbitrary: known)
  case Nil
  show ?case by (simp add: restrict_map_def)
next
  case (Cons e d)
  obtain at old where e: "e = (at, old)" by (cases e)
  show ?case
  proof (cases "now - at < window")
    case True
    then show ?thesis using e by (auto simp: restrict_map_def intro!: exI[of _ 0])
  next
    case False
    obtain k where "expire_dedup_loop now window d (known(old := None))
        = (drop k d, (known(old := None)) |` (- snd ` set (take k d)))"
      using Cons.IH by blast
    with False e show ?thesis
      by (intro exI[of _ "Suc k"]) (simp add: restrict_upd_None del: restrict_fun_upd fun_upd_restrict_conv fun_upd_apply)
  qed
qed

lemma evict_loop_drops:
  "evict_dedup_loop mx d known = (drop (length d - mx) d, known |` (- snd ` set (take (length d - mx) d)))"
proof (induction d arbitrary: known)
  case Nil
  show ?case by (simp add: restrict_map_def)
next
  case (Cons e d)
  obtain at old where e: "e = (at, old)" by (cases e)
  show ?case
  proof (cases "mx \<le> length d")
    case True
    then have "length (e # d) - mx = Suc (length d - mx)" by simp
    with True e Cons show ?thesis by (simp add: restrict_upd_None del: restrict_fun_upd fun_upd_restrict_conv fun_upd_apply)
  next
    case False
    then show ?thesis using e by (simp add: restrict_map_def)
  qed
qed

interpretation expiring: id_window "expire_dedup_loop now window"
  by unfold_locales (rule expire_loop_drops)

interpretation evicting: id_window "evict_dedup_loop mx"
  by unfold_locales (use evict_loop_drops in blast)

section \<open>The window agrees with its states\<close>

lemma expire_dedup_eq:
  assumes "expire_dedup_loop now (dedup_window (ib_limits ib)) (ib_dedup ib) (ib_dedup_state ib) = (d, known)"
  shows "expire_dedup now ib = ib\<lparr>ib_dedup := d, ib_dedup_state := known\<rparr>"
  using assms by (simp add: expire_dedup_def)

lemma dedup_ok_expire: "dedup_ok ib \<Longrightarrow> dedup_ok (expire_dedup now ib)"
proof -
  assume ok: "dedup_ok ib"
  obtain d known where e:
    "expire_dedup_loop now (dedup_window (ib_limits ib)) (ib_dedup ib) (ib_dedup_state ib) = (d, known)"
    by fastforce
  from ok have "distinct (map snd (ib_dedup ib))" "dom (ib_dedup_state ib) = snd ` set (ib_dedup ib)"
    by (simp_all add: dedup_ok_def)
  from expiring.agrees[OF this e] ok show ?thesis by (simp add: dedup_ok_def expire_dedup_eq[OF e])
qed

lemma check_id_fresh:
  assumes "check_id (Some i) ib = Inr ()"
  shows "id_is_fresh ib i"
proof -
  have "find (\<lambda>m. m_id m = i) (ib_messages ib) = None \<and> ib_dedup_state ib i = None"
    using assms by (simp add: check_id_def Let_def split: if_splits)
  then show ?thesis by (auto simp: id_is_fresh_def find_None_iff list_ex_iff)
qed

lemma register_id_fresh:
  assumes "check_id wanted ib = Inr ()" "register_id draws now wanted ib = Some (ib', i)"
  shows "id_is_fresh ib i" "wanted \<noteq> None \<Longrightarrow> wanted = Some i"
proof -
  show "id_is_fresh ib i"
  proof (cases wanted)
    case None
    with assms(2) have "find (id_is_fresh ib) (map (message_id_generate (ib_deck ib)) draws) = Some i"
      by (auto simp: register_id_def Let_def split: option.splits prod.splits)
    then show ?thesis by (auto simp: find_Some_iff)
  next
    case (Some j)
    with assms(2) have "j = i" by (auto simp: register_id_def Let_def split: prod.splits)
    with Some assms(1) show ?thesis by (simp add: check_id_fresh)
  qed
  show "wanted \<noteq> None \<Longrightarrow> wanted = Some i"
    using assms(2) by (auto simp: register_id_def Let_def split: prod.splits)
qed

lemma register_id_eq:
  assumes "register_id draws now wanted ib = Some (ib', i)"
  shows "\<exists>d known. evict_dedup_loop (dedup_max_ids (ib_limits ib)) (ib_dedup ib @ [(now, i)])
           ((ib_dedup_state ib)(i \<mapsto> NQueued)) = (d, known)
         \<and> ib' = ib\<lparr>ib_dedup := d, ib_dedup_state := known\<rparr>"
  using assms by (auto simp: register_id_def Let_def split: option.splits prod.splits)

lemma evict_length: "evict_dedup_loop mx d known = (d', known') \<Longrightarrow> length d' \<le> mx"
  by (auto simp: evict_loop_drops)

lemma dedup_ok_register:
  assumes "check_id wanted ib = Inr ()" "register_id draws now wanted ib = Some (ib', i)" "dedup_ok ib"
  shows "dedup_ok ib'"
proof -
  obtain d known where e: "evict_dedup_loop (dedup_max_ids (ib_limits ib)) (ib_dedup ib @ [(now, i)])
      ((ib_dedup_state ib)(i \<mapsto> NQueued)) = (d, known)"
    and ib': "ib' = ib\<lparr>ib_dedup := d, ib_dedup_state := known\<rparr>"
    using register_id_eq[OF assms(2)] by blast
  have "i \<notin> dom (ib_dedup_state ib)"
    using register_id_fresh(1)[OF assms(1,2)] by (auto simp: id_is_fresh_def)
  then have "distinct (map snd (ib_dedup ib @ [(now, i)]))"
    "dom ((ib_dedup_state ib)(i \<mapsto> NQueued)) = snd ` set (ib_dedup ib @ [(now, i)])"
    using assms(3) by (auto simp: dedup_ok_def)
  from evicting.agrees[OF this e] evict_length[OF e] show ?thesis by (simp add: dedup_ok_def ib')
qed

lemma step_dedup_ok: "inbox_step ib ib' \<Longrightarrow> dedup_ok ib \<Longrightarrow> dedup_ok ib'"
proof (induction rule: inbox_step.induct)
  case (step_register wanted ib draws now ib' i)
  then show ?case by (blast intro: dedup_ok_register)
qed (simp_all add: dedup_ok_expire, simp_all add: dedup_ok_def forget_pane_history_def)

section \<open>Every step keeps the whole invariant\<close>

lemma step_inbox_ok: "inbox_step ib ib' \<Longrightarrow> inbox_ok ib \<Longrightarrow> inbox_ok ib'"
  using step_messages_ok step_keys_ok step_dedup_ok inbox_step_limits by (simp add: inbox_ok_def)

lemma steps_inbox_ok: "inbox_steps ib ib' \<Longrightarrow> inbox_ok ib \<Longrightarrow> inbox_ok ib'"
  by (induction rule: rtranclp_induct) (auto intro: step_inbox_ok)

section \<open>An id in the window is refused\<close>

lemma expire_loop_keeps_young:
  "(at, i) \<in> set d \<Longrightarrow> now - at < window \<Longrightarrow> (at, i) \<in> set (fst (expire_dedup_loop now window d known))"
  by (induction d arbitrary: known) auto

lemma young_id_known:
  assumes "dedup_ok ib" "(at, i) \<in> set (ib_dedup ib)" "now - at < dedup_window (ib_limits ib)"
  shows "ib_dedup_state (expire_dedup now ib) i = ib_dedup_state ib i" "ib_dedup_state ib i \<noteq> None"
proof -
  obtain d known where e:
    "expire_dedup_loop now (dedup_window (ib_limits ib)) (ib_dedup ib) (ib_dedup_state ib) = (d, known)"
    by fastforce
  have "(at, i) \<in> set d" using expire_loop_keeps_young[OF assms(2,3)] e by (metis fst_conv)
  moreover have "distinct (map snd (ib_dedup ib))" using assms(1) by (simp add: dedup_ok_def)
  ultimately have "known i = ib_dedup_state ib i" using expiring.keeps[OF _ e] by blast
  then show "ib_dedup_state (expire_dedup now ib) i = ib_dedup_state ib i"
    by (simp add: expire_dedup_eq[OF e])
  have "i \<in> snd ` set (ib_dedup ib)" using assms(2) by force
  then have "i \<in> dom (ib_dedup_state ib)" using assms(1) by (simp add: dedup_ok_def)
  then show "ib_dedup_state ib i \<noteq> None" by auto
qed

lemma registered_in_window:
  assumes "register_id draws now wanted ib = Some (ib', i)" "0 < dedup_max_ids (ib_limits ib)"
  shows "(now, i) \<in> set (ib_dedup ib')"
proof -
  obtain d known where e: "evict_dedup_loop (dedup_max_ids (ib_limits ib)) (ib_dedup ib @ [(now, i)])
      ((ib_dedup_state ib)(i \<mapsto> NQueued)) = (d, known)"
    and ib': "ib' = ib\<lparr>ib_dedup := d, ib_dedup_state := known\<rparr>"
    using register_id_eq[OF assms(1)] by blast
  have "d = drop (Suc (length (ib_dedup ib)) - dedup_max_ids (ib_limits ib)) (ib_dedup ib @ [(now, i)])"
    using e by (simp add: evict_loop_drops)
  with assms(2) have "(now, i) \<in> set d" by (simp add: drop_append)
  with ib' show ?thesis by simp
qed

section \<open>Minting ends\<close>

definition draws_ok :: "random_draws \<Rightarrow> bool" where
  "draws_ok draws \<longleftrightarrow> distinct draws \<and> list_all (list_all (\<lambda>n. n < 256)) draws"

lemma distinct_minted: "draws_ok draws \<Longrightarrow> distinct (map (message_id_generate deck) draws)"
  by (auto simp: draws_ok_def distinct_map list_all_iff inj_on_def intro: message_id_generate_inject[of _ _ deck])

lemma stale_ids:
  assumes "dedup_ok ib"
  shows "{i. \<not> id_is_fresh ib i} = snd ` set (ib_dedup ib) \<union> m_id ` set (ib_messages ib)"
  using assms by (auto simp: id_is_fresh_def dedup_ok_def list_ex_iff)

lemma fresh_draw_exists:
  assumes "dedup_ok ib" "draws_ok draws" "length (ib_messages ib) + length (ib_dedup ib) < length draws"
  shows "\<exists>i. find (id_is_fresh ib) (map (message_id_generate (ib_deck ib)) draws) = Some i"
proof (rule ccontr)
  let ?minted = "map (message_id_generate (ib_deck ib)) draws"
  assume "\<nexists>i. find (id_is_fresh ib) ?minted = Some i"
  then have "find (id_is_fresh ib) ?minted = None" by (cases "find (id_is_fresh ib) ?minted") auto
  then have "set ?minted \<subseteq> {i. \<not> id_is_fresh ib i}" by (auto simp: find_None_iff)
  then have sub: "set ?minted \<subseteq> snd ` set (ib_dedup ib) \<union> m_id ` set (ib_messages ib)"
    using stale_ids[OF assms(1)] by simp
  have "length draws = card (set ?minted)"
    using distinct_card[OF distinct_minted[OF assms(2), of "ib_deck ib"]] by simp
  also have "\<dots> \<le> card (snd ` set (ib_dedup ib) \<union> m_id ` set (ib_messages ib))"
    using sub by (intro card_mono) auto
  also have "\<dots> \<le> card (snd ` set (ib_dedup ib)) + card (m_id ` set (ib_messages ib))"
    by (rule card_Un_le)
  also have "\<dots> \<le> length (ib_dedup ib) + length (ib_messages ib)"
    by (intro add_mono) (metis card_length list.set_map length_map)+
  finally show False using assms(3) by simp
qed

lemma register_id_returns:
  assumes "dedup_ok ib" "draws_ok draws" "length (ib_messages ib) + length (ib_dedup ib) < length draws"
  shows "\<exists>ib' i. register_id draws now wanted ib = Some (ib', i)"
  using fresh_draw_exists[OF assms]
  by (cases wanted) (auto simp: register_id_def Let_def split: prod.splits)

lemma expire_dedup_length: "length (ib_dedup (expire_dedup now ib)) \<le> length (ib_dedup ib)"
  using expire_loop_drops[of now "dedup_window (ib_limits ib)" "ib_dedup ib" "ib_dedup_state ib"]
  by (auto simp: expire_dedup_def)

end
