(* ===== verification/Inbox_Calls.thy ===== *)
theory Inbox_Calls
  imports Inbox_Dedup
begin

text \<open>
  One call of the inbox's interface, and what a sequence of calls can lead to. \<open>run_op\<close> dispatches to
  the operations of \<open>Inbox_Ops\<close>; each is shown to be a sequence of the elementary steps of
  \<open>Inbox_Steps\<close>, so what every step preserves holds of every inbox a daemon can have.
\<close>

datatype inbox_op =
    OpPostDirect random_draws instant recipient content
  | OpPostAgentDirect random_draws instant recipient content
  | OpReserveReply
  | OpReserveDelegate instant string content nat
  | OpReleaseReply
  | OpPostReserved random_draws instant recipient content
  | OpPublish random_draws instant scope string content "recipient list"
  | OpOffer random_draws instant scope string "duration option" content "recipient list"
  | OpAssign instant message_id "recipient list"
  | OpAck instant message_id string string ack_how
  | OpTake instant message_id string string consumer
  | OpRepeat message_id string string
  | OpRequeue instant message_id string
  | OpComplete instant message_id string string
  | OpRelease instant message_id string string
  | OpExited instant string string
  | OpRetire instant message_id string undeliverable_reason
  | OpTick instant
  | OpForget string
  | OpAdmitReply instant content
  | OpAdmitDirect instant recipient content
  | OpAdmitAgentDirect instant recipient content
  | OpAdmitReserved instant content
  | OpAdmitPublish instant content "recipient list"
  | OpAdmitOffer instant scope "duration option" content

fun run_op :: "inbox_op \<Rightarrow> inbox \<Rightarrow> inbox option" where
  "run_op (OpPostDirect draws now r c) ib = map_option fst (post_direct draws now r c ib)"
| "run_op (OpPostAgentDirect draws now r c) ib = map_option fst (post_agent_direct draws now r c ib)"
| "run_op OpReserveReply ib = Some (fst (reserve_reply ib))"
| "run_op (OpReserveDelegate now pane c n) ib = Some (fst (reserve_delegate now pane c n ib))"
| "run_op OpReleaseReply ib = Some (release_reply ib)"
| "run_op (OpPostReserved draws now r c) ib = map_option fst (post_reserved_reply draws now r c ib)"
| "run_op (OpPublish draws now sc topic c rs) ib = map_option fst (publish draws now sc topic c rs ib)"
| "run_op (OpOffer draws now sc pool ttl c rs) ib = map_option fst (offer draws now sc pool ttl c rs ib)"
| "run_op (OpAssign now i rs) ib = Some (fst (assign_offer now i rs ib))"
| "run_op (OpAck now i pane agent how) ib = Some (fst (ack now i pane agent how ib))"
| "run_op (OpTake now i pane agent who) ib = Some (fst (take_receipt now i pane agent who ib))"
| "run_op (OpRepeat i pane agent) ib = Some (fst (count_receipt_repeat i pane agent ib))"
| "run_op (OpRequeue now i pane) ib = Some (fst (requeue_receipt now i pane ib))"
| "run_op (OpComplete now i pane agent) ib = Some (fst (complete now i pane agent ib))"
| "run_op (OpRelease now i pane agent) ib = Some (fst (release now i pane agent ib))"
| "run_op (OpExited now pane agent) ib = Some (agent_exited now pane agent ib)"
| "run_op (OpRetire now i pane reason) ib = Some (fst (retire now i pane reason ib))"
| "run_op (OpTick now) ib = Some (tick now ib)"
| "run_op (OpForget pane) ib = Some (forget_pane_history pane ib)"
| "run_op (OpAdmitReply now c) ib = Some (fst (admit_reply now c ib))"
| "run_op (OpAdmitDirect now r c) ib = Some (fst (admit_direct now r c ib))"
| "run_op (OpAdmitAgentDirect now r c) ib = Some (fst (admit_agent_direct now r c ib))"
| "run_op (OpAdmitReserved now c) ib = Some (fst (admit_reserved_reply now c ib))"
| "run_op (OpAdmitPublish now c rs) ib = Some (fst (admit_publish now c rs ib))"
| "run_op (OpAdmitOffer now sc ttl c) ib = Some (fst (admit_offer now sc ttl c ib))"

text \<open>\<^verbatim>\<open>publish_recipients\<close> resolves at most one recipient per pane.\<close>

fun op_ok :: "inbox_op \<Rightarrow> bool" where
  "op_ok (OpPublish draws now sc topic c rs) \<longleftrightarrow> distinct (map rcp_pane_id rs)"
| "op_ok _ \<longleftrightarrow> True"

section \<open>Admission\<close>

lemma admit_inbox [simp]:
  "fst (admit_reply now c ib) = expire_dedup now ib"
  "fst (admit_direct now r c ib) = expire_dedup now ib"
  "fst (admit_reserved_reply now c ib) = expire_dedup now ib"
  "fst (admit_publish now c rs ib) = expire_dedup now ib"
  "fst (admit_offer now sc ttl c ib) = expire_dedup now ib"
  by (simp_all add: admit_reply_def admit_direct_def admit_reserved_reply_def admit_publish_def
      admit_offer_def Let_def)

lemma admitD:
  "admit_direct now r c ib = (ib1, x) \<Longrightarrow> ib1 = expire_dedup now ib"
  "admit_reserved_reply now c ib = (ib1, x) \<Longrightarrow> ib1 = expire_dedup now ib"
  "admit_publish now c rs ib = (ib1, x) \<Longrightarrow> ib1 = expire_dedup now ib"
  "admit_offer now sc ttl c ib = (ib1, y) \<Longrightarrow> ib1 = expire_dedup now ib"
  by (metis admit_inbox fst_conv)+

lemma check_body_ok: "check_body c ib = Inr () \<longleftrightarrow> length (c_body c) \<le> max_body_bytes (ib_limits ib)"
  by (auto simp: check_body_def Let_def)

lemma check_room_ok:
  "check_room n ib = Inr () \<longleftrightarrow> live_count ib + ib_reserved_replies ib + n \<le> max_messages (ib_limits ib)"
  by (auto simp: check_room_def)

lemma admitted_reply:
  assumes "admit_reply now c ib = (ib1, Inr u)"
  shows "ib1 = expire_dedup now ib" "check_body c ib1 = Inr ()" "check_id (c_id c) ib1 = Inr ()"
    "check_room 1 ib1 = Inr ()"
  using assms by (auto simp: admit_reply_def Let_def and_then_Inr)

lemma admitted_direct:
  assumes "admit_direct now r c ib = (ib1, Inr u)"
  shows "admit_reply now c ib = (ib1, Inr ())" "has_room_for (rcp_pane_id r) ib1"
  using assms by (auto simp: admit_direct_def and_then_Inr split: prod.splits if_splits)

lemma admitted_agent_direct:
  assumes "admit_agent_direct now r c ib = (ib1, Inr u)"
  shows "admit_direct now r c ib = (ib1, Inr ())" "check_rate now (c_from c) ib = Inr ()"
  using assms by (auto simp: admit_agent_direct_def split: sum.splits)

lemma admitted_reserved:
  assumes "admit_reserved_reply now c ib = (ib1, Inr u)"
  shows "ib1 = expire_dedup now ib" "check_body c ib1 = Inr ()" "check_id (c_id c) ib1 = Inr ()"
  using assms by (auto simp: admit_reserved_reply_def Let_def and_then_Inr)

lemma admitted_publish:
  assumes "admit_publish now c rs ib = (ib1, Inr u)"
  shows "ib1 = expire_dedup now ib" "check_body c ib1 = Inr ()" "check_rate now (c_from c) ib1 = Inr ()"
    "check_id (c_id c) ib1 = Inr ()"
    "check_room (length (filter (\<lambda>r. has_room_for (rcp_pane_id r) ib1) rs)) ib1 = Inr ()"
  using assms by (auto simp: admit_publish_def Let_def and_then_Inr)

lemma admitted_offer:
  assumes "admit_offer now sc ttl c ib = (ib1, Inr t)"
  shows "ib1 = expire_dedup now ib" "check_body c ib1 = Inr ()" "check_rate now (c_from c) ib1 = Inr ()"
    "check_id (c_id c) ib1 = Inr ()" "check_room 1 ib1 = Inr ()"
    "min_claim_ttl (ib_limits ib) \<le> t" "t \<le> max_claim_ttl (ib_limits ib)"
    "length (filter (open_offer_in sc) (ib_messages ib)) < max_offers_per_scope (ib_limits ib)"
  using assms by (auto simp: admit_offer_def Let_def and_then_Inr split: if_splits)

lemma when_admitted_cases:
  assumes "when_admitted adm go = Some (ib', res)"
  obtains (refused) e where "adm = (ib', Inl e)" "res = Inl e"
  | (went) a ib1 r where "adm = (ib1, Inr a)" "go a ib1 = Some (ib', r)" "res = Inr r"
proof -
  obtain ib1 v where adm: "adm = (ib1, v)" by fastforce
  show ?thesis
  proof (cases v)
    case (Inl e)
    with adm assms show ?thesis by (intro refused) (auto simp: when_admitted_def)
  next
    case (Inr a)
    with adm assms obtain r where "go a ib1 = Some (ib', r)" "res = Inr r"
      by (auto simp: when_admitted_def)
    with adm Inr show ?thesis by (intro went) auto
  qed
qed

section \<open>Every call is a sequence of elementary steps\<close>

lemma steps1: "inbox_step ib ib' \<Longrightarrow> inbox_steps ib ib'"
  by blast

lemma record_rate_step: "inbox_steps ib (record_rate now from ib)"
  by (auto simp: record_rate_def split: option.splits intro!: steps1 step_rate)

lemma release_reply_step: "inbox_steps ib (release_reply ib)"
  by (simp add: release_reply_def steps1 step_reserved)

lemma fresh_key_free: "id_is_fresh ib i \<Longrightarrow> ib_messages ib' = ib_messages ib \<Longrightarrow> key_free i kind rcp (ib_messages ib')"
  by (auto simp: id_is_fresh_def key_free_def list_ex_iff)

lemma check_id_cong:
  "ib_messages ib' = ib_messages ib \<Longrightarrow> ib_dedup_state ib' = ib_dedup_state ib
   \<Longrightarrow> check_id w ib' = check_id w ib"
  by (cases w) (simp_all add: check_id_def Let_def split: option.split)

lemma insert_direct_steps:
  assumes "insert_direct draws now r c ib = Some (ib', i)"
    and "check_id (c_id c) ib = Inr ()" "check_body c ib = Inr ()"
  shows "inbox_steps ib ib'"
proof -
  obtain ib1 where reg: "register_id draws now (c_id c) ib = Some (ib1, i)"
    and ib': "ib' = trim_history now (inbox_insert now i Direct (AddrDirect (ib_deck ib1) (rcp_pane_id r))
                (Some r) c (c_body c) ib1)"
    using assms(1) by (auto simp: insert_direct_def split: option.splits)
  have "inbox_step ib ib1" using reg assms(2) by (rule step_register[rotated])
  moreover have "key_free i Direct (Some r) (ib_messages ib1)"
    using register_id_fresh(1)[OF assms(2) reg] register_id_fields(3)[OF reg] by (rule fresh_key_free)
  then have "inbox_step ib1 (inbox_insert now i Direct (AddrDirect (ib_deck ib1) (rcp_pane_id r)) (Some r) c (c_body c) ib1)"
    using assms(3) by (intro step_insert) (simp_all add: kind_fits_def check_body_ok register_id_fields(2)[OF reg])
  ultimately show ?thesis unfolding ib' by (meson step_trim r_into_rtranclp rtranclp.rtrancl_into_rtrancl)
qed

lemma expire_steps: "inbox_steps ib (expire_dedup now ib)"
  by (simp add: steps1 step_expire)

lemma post_direct_steps:
  assumes "post_direct draws now r c ib = Some (ib', res)"
  shows "inbox_steps ib ib'"
  using assms unfolding post_direct_def
proof (cases rule: when_admitted_cases)
  case (refused e)
  then have "ib' = expire_dedup now ib" by (blast dest: admitD)
  then show ?thesis by (simp add: expire_steps)
next
  case (went a ib1 i)
  note adm = admitted_reply[OF admitted_direct(1)[OF went(1)]]
  from insert_direct_steps[OF went(2) adm(3) adm(2)] show ?thesis
    using expire_steps[of ib now] adm(1) by simp
qed

lemma post_agent_direct_steps:
  assumes "post_agent_direct draws now r c ib = Some (ib', res)"
  shows "inbox_steps ib ib'"
  using assms unfolding post_agent_direct_def
proof (cases rule: when_admitted_cases)
  case (refused e)
  then have "ib' = ib \<or> ib' = expire_dedup now ib"
    by (auto simp: admit_agent_direct_def split: sum.splits dest: admitD)
  then show ?thesis by (auto simp: expire_steps)
next
  case (went a ib1 i)
  note adm = admitted_reply[OF admitted_direct(1)[OF admitted_agent_direct(1)[OF went(1)]]]
  let ?ib2 = "record_rate now (c_from c) ib1"
  have "check_id (c_id c) ?ib2 = Inr ()" "check_body c ?ib2 = Inr ()"
    using adm(2,3) check_id_cong[of ?ib2 ib1] by (simp_all add: check_body_ok)
  from insert_direct_steps[OF went(2) this] record_rate_step[of ib1 now "c_from c"]
  show ?thesis using expire_steps[of ib now] adm(1) by simp
qed

lemma post_reserved_steps:
  assumes "post_reserved_reply draws now r c ib = Some (ib', res)"
  shows "inbox_steps ib ib'"
  using assms unfolding post_reserved_reply_def
proof (cases rule: when_admitted_cases)
  case (refused e)
  then have "ib' = expire_dedup now ib" by (blast dest: admitD)
  then show ?thesis by (simp add: expire_steps)
next
  case (went a ib1 i)
  note adm = admitted_reserved[OF went(1)]
  have "check_id (c_id c) (release_reply ib1) = Inr ()" "check_body c (release_reply ib1) = Inr ()"
    using adm(2,3) check_id_cong[of "release_reply ib1" ib1] by (simp_all add: check_body_ok)
  from insert_direct_steps[OF went(2) this] release_reply_step[of ib1]
  show ?thesis using expire_steps[of ib now] adm(1) by simp
qed

lemma reserve_delegate_steps: "inbox_steps ib (fst (reserve_delegate now pane c n ib))"
proof -
  have "fst (reserve_delegate now pane c n ib) = expire_dedup now ib
      \<or> (\<exists>k. fst (reserve_delegate now pane c n ib) = (expire_dedup now ib)\<lparr>ib_reserved_replies := k\<rparr>)"
    by (auto simp: reserve_delegate_def split: prod.splits sum.splits dest: admitD)
  then show ?thesis
    using step_expire step_reserved by (metis r_into_rtranclp rtranclp.rtrancl_into_rtrancl)
qed

lemma insert_copies_steps:
  assumes "distinct (map rcp_pane_id room)"
    and "\<And>m. m \<in> set (ib_messages ib) \<Longrightarrow> m_id m = i
           \<Longrightarrow> \<not> is_offer m \<and> (\<forall>r \<in> set room. holder_pane m \<noteq> Some (rcp_pane_id r))"
    and "length (c_body c) \<le> max_body_bytes (ib_limits ib)"
  shows "inbox_steps ib (insert_copies now i addr topic c room ib)"
  using assms
proof (induction room arbitrary: ib)
  case Nil
  then show ?case by (simp add: insert_copies_def)
next
  case (Cons r room)
  let ?ib1 = "inbox_insert now i (Publish topic) addr (Some r) c (c_body c) ib"
  have "key_free i (Publish topic) (Some r) (ib_messages ib)"
    using Cons.prems(2) by (auto simp: key_free_def)
  then have "inbox_step ib ?ib1"
    using Cons.prems(3) by (intro step_insert) (simp_all add: kind_fits_def)
  moreover have "inbox_steps ?ib1 (insert_copies now i addr topic c room ?ib1)"
  proof (rule Cons.IH)
    fix m assume m: "m \<in> set (ib_messages ?ib1)" "m_id m = i"
    show "\<not> is_offer m \<and> (\<forall>r \<in> set room. holder_pane m \<noteq> Some (rcp_pane_id r))"
    proof (cases "m \<in> set (ib_messages ib)")
      case True
      then show ?thesis using Cons.prems(2) m(2) by simp
    next
      case False
      with m(1) have "m = message_transition now Queued (new_message now i (Publish topic) addr (Some r) c (c_body c))"
        by simp
      then show ?thesis
        using Cons.prems(1) by (auto simp: new_message_def is_offer_def holder_pane_def image_iff)
    qed
  qed (use Cons.prems in simp_all)
  ultimately show ?case by (simp add: insert_copies_def converse_rtranclp_into_rtranclp)
qed

lemma publish_steps:
  assumes "publish draws now sc topic c rs ib = Some (ib', res)" "distinct (map rcp_pane_id rs)"
  shows "inbox_steps ib ib'"
  using assms(1) unfolding publish_def
proof (cases rule: when_admitted_cases)
  case (refused e)
  then have "ib' = expire_dedup now ib" by (blast dest: admitD)
  then show ?thesis by (simp add: expire_steps)
next
  case (went a ib1 p)
  note adm = admitted_publish[OF went(1)]
  let ?room = "filter (\<lambda>r. has_room_for (rcp_pane_id r) ib1) rs"
  obtain ib2 i where reg: "register_id draws now (c_id c) ib1 = Some (ib2, i)"
    and ib': "ib' = trim_history now (insert_copies now i (AddrTopic (ib_deck ib2) sc topic) topic c ?room
                 (record_rate now (c_from c) ib2))"
    using went(2) by (auto simp: Let_def split: option.splits)
  have none: "m_id m \<noteq> i" if "m \<in> set (ib_messages ib2)" for m
    using register_id_fresh(1)[OF adm(4) reg] register_id_fields(3)[OF reg] that
    by (auto simp: id_is_fresh_def list_ex_iff)
  have "inbox_steps (record_rate now (c_from c) ib2)
      (insert_copies now i (AddrTopic (ib_deck ib2) sc topic) topic c ?room (record_rate now (c_from c) ib2))"
    using adm(2) none
    by (intro insert_copies_steps) (auto simp: distinct_map_filter assms(2) check_body_ok register_id_fields(2)[OF reg])
  moreover have "inbox_steps ib1 (record_rate now (c_from c) ib2)"
    using step_register[OF adm(4) reg] record_rate_step[of ib2 now "c_from c"]
    by (rule converse_rtranclp_into_rtranclp)
  ultimately show ?thesis unfolding ib' using expire_steps[of ib now] adm(1)
    by (metis rtranclp_trans step_trim rtranclp.rtrancl_into_rtrancl)
qed

lemma moves1: "inbox_move ib ib' \<Longrightarrow> inbox_moves ib ib'"
  by blast

lemma moves_inbox_ok: "inbox_moves ib ib' \<Longrightarrow> inbox_ok ib \<Longrightarrow> inbox_ok ib'"
  using moves_steps steps_inbox_ok by blast

lemma transition_move:
  "i < length (ib_messages ib) \<Longrightarrow> lifecycle (ib_limits ib) now (ib_messages ib ! i) (ib_messages ib ! i) st
   \<Longrightarrow> inbox_move ib (transition i now st ib)"
  using move_life[of i ib now "ib_messages ib ! i" st] by (simp add: holder_fits_def)

lemma assign_offer_moves: "inbox_moves ib (fst (assign_offer now i rs ib))"
proof (cases "position (\<lambda>m. m_id m = i \<and> unassigned_offer m) (ib_messages ib)")
  case None
  then show ?thesis by (simp add: assign_offer_def)
next
  case (Some index)
  let ?m = "ib_messages ib ! index"
  note pos = position_SomeD[OF Some]
  show ?thesis
  proof (cases "find (eligible ib ?m) rs")
    case None
    with Some show ?thesis by (simp add: assign_offer_def)
  next
    case found: (Some chosen)
    then have "eligible ib ?m chosen" by (auto simp: find_Some_iff)
    then have "lifecycle (ib_limits ib) now ?m
        (?m\<lparr>m_recipient := Some chosen, m_deliveries := m_deliveries ?m + 1,
            m_assign_deadline := Some (now + offer_assign_wait (ib_limits ib))\<rparr>) Queued"
      using pos by (intro life_assign) (auto simp: eligible_def)
    from move_life[OF _ this] pos Some found \<open>eligible ib ?m chosen\<close> show ?thesis
      by (auto simp: assign_offer_def Let_def holder_fits_def eligible_def has_room_for_def intro!: moves1)
  qed
qed

lemma offer_steps:
  assumes "offer draws now sc pool ttl c rs ib = Some (ib', res)"
  shows "inbox_steps ib ib'"
  using assms unfolding offer_def
proof (cases rule: when_admitted_cases)
  case (refused e)
  then have "ib' = expire_dedup now ib" by (blast dest: admitD)
  then show ?thesis by (simp add: expire_steps)
next
  case (went t ib1 p)
  note adm = admitted_offer[OF went(1)]
  obtain ib2 i where reg: "register_id draws now (c_id c) ib1 = Some (ib2, i)" using went(2)
    by (auto split: option.splits)
  let ?ib3 = "record_rate now (c_from c) ib2"
  let ?ib4 = "inbox_insert now i (Offer pool t) (AddrOffer (ib_deck ib2) sc pool) None c (c_body c) ?ib3"
  have ib': "ib' = fst (assign_offer now i rs ?ib4)"
    using went(2) reg by (auto simp: Let_def split: prod.splits)
  have "key_free i (Offer pool t) None (ib_messages ?ib3)"
    using register_id_fresh(1)[OF adm(4) reg] register_id_fields(3)[OF reg] by (intro fresh_key_free) auto
  then have ins: "inbox_step ?ib3 ?ib4"
    using adm(2) by (intro step_insert) (simp_all add: kind_fits_def check_body_ok register_id_fields(2)[OF reg])
  have "inbox_steps ib1 ?ib3"
    using step_register[OF adm(4) reg] record_rate_step[of ib2 now "c_from c"]
    by (rule converse_rtranclp_into_rtranclp)
  then show ?thesis unfolding ib' using expire_steps[of ib now] adm(1) ins moves_steps[OF assign_offer_moves[of ?ib4 now i rs]]
    by (meson rtranclp_trans r_into_rtranclp)
qed

lemma find_for_SomeD:
  assumes "find_for i pane agent ib = Some index"
  shows "index < length (ib_messages ib)" "m_id (ib_messages ib ! index) = i"
    "\<exists>r. m_recipient (ib_messages ib ! index) = Some r \<and> admits r pane agent"
  using position_SomeD[OF assms[unfolded find_for_def]] by (auto simp: for_agent_def split: option.splits)

lemma trim_after: "inbox_moves ib ib' \<Longrightarrow> inbox_moves ib (trim_history now ib')"
  by (meson move_trim rtranclp.rtrancl_into_rtrancl)

lemma ack_moves: "inbox_moves ib (fst (ack now i pane agent how ib))"
proof (cases "find_for i pane agent ib")
  case None
  then show ?thesis by (simp add: ack_def)
next
  case (Some index)
  let ?m = "ib_messages ib ! index" and ?l = "ib_limits ib"
  note at = find_for_SomeD[OF Some]
  obtain r where r: "m_recipient ?m = Some r" using at(3) by blast
  have acked: "inbox_moves ib (trim_history now (transition index now (Acknowledged now how) ib))"
    if "lifecycle ?l now ?m ?m (Acknowledged now how)"
    using transition_move[OF at(1) that] by (intro trim_after moves1)
  show ?thesis
  proof (cases "m_state ?m = Queued \<or> is_fetched (m_state ?m)")
    case waiting: True
    show ?thesis
    proof (cases "is_offer ?m")
      case True
      then obtain pool ttl where k: "m_kind ?m = Offer pool ttl" by (auto simp: is_offer_def split: message_kind.splits)
      from transition_move[OF at(1) life_claim[OF k waiting r]] show ?thesis
        using Some waiting k r by (auto simp: ack_def Let_def split: message_state.splits)
    next
      case False
      from acked[OF life_ack[OF False]] waiting Some False show ?thesis
        by (auto simp: ack_def Let_def is_offer_def split: message_state.splits message_kind.splits)
    qed
  next
    case False
    show ?thesis
    proof (cases "undeliverable_reason_of (m_state ?m) = Some MaxDeliver \<and> \<not> is_offer ?m")
      case True
      from acked[OF life_ack] True Some show ?thesis
        by (auto simp: ack_def Let_def undeliverable_reason_of_def split: message_state.splits)
    next
      case False
      with \<open>\<not> (m_state ?m = Queued \<or> is_fetched (m_state ?m))\<close> Some show ?thesis
        by (auto simp: ack_def Let_def undeliverable_reason_of_def split: message_state.splits)
    qed
  qed
qed

lemma take_receipt_moves: "inbox_moves ib (fst (take_receipt now i pane agent who ib))"
proof (cases "find_for i pane agent ib")
  case None
  then show ?thesis by (simp add: take_receipt_def)
next
  case (Some index)
  note at = find_for_SomeD[OF Some]
  show ?thesis
  proof (cases "m_state (ib_messages ib ! index) = Queued")
    case True
    from move_life[OF at(1) life_take[OF True]] at(3) Some True show ?thesis
      by (auto simp: take_receipt_def Let_def holder_fits_def intro!: moves1)
  next
    case False
    with Some show ?thesis by (simp add: take_receipt_def Let_def)
  qed
qed

lemma count_repeat_moves: "inbox_moves ib (fst (count_receipt_repeat i pane agent ib))"
proof (cases "find_for i pane agent ib")
  case None
  then show ?thesis by (simp add: count_receipt_repeat_def)
next
  case (Some index)
  with move_repeat[OF find_for_SomeD(1)[OF Some]] show ?thesis
    by (auto simp: count_receipt_repeat_def Let_def)
qed

lemma return_offer_moves:
  assumes "index < length (ib_messages ib)" "is_offer (ib_messages ib ! index)" "is_live (ib_messages ib ! index)"
    "m_recipient (ib_messages ib ! index) \<noteq> None"
  shows "inbox_moves ib (return_offer index now cause ib)"
proof -
  note step = move_life[OF assms(1) life_return[OF assms(2-4)]]
  show ?thesis unfolding return_offer_def Let_def
    using step[unfolded holder_fits_def, simplified] move_returned by (meson r_into_rtranclp rtranclp.rtrancl_into_rtrancl)
qed

lemma fetched_live: "is_fetched (m_state m) \<Longrightarrow> is_live m"
  by (cases "m_state m") (simp_all add: is_live_def)

lemma held_has_recipient: "held_for_pane pane m \<Longrightarrow> m_recipient m \<noteq> None"
  by (auto simp: held_for_pane_def split: option.splits)

lemma requeue_receipt_moves: "inbox_moves ib (fst (requeue_receipt now i pane ib))"
proof (cases "position (\<lambda>m. m_id m = i \<and> held_for_pane pane m) (ib_messages ib)")
  case None
  then show ?thesis by (simp add: requeue_receipt_def)
next
  case (Some index)
  note pos = position_SomeD[OF Some]
  let ?m = "ib_messages ib ! index"
  show ?thesis
  proof (cases "is_fetched (m_state ?m)")
    case fetched: True
    show ?thesis
    proof (cases "is_offer ?m")
      case True
      have "m_recipient ?m \<noteq> None" using pos by (blast dest: held_has_recipient)
      from return_offer_moves[OF _ True fetched_live[OF fetched] this] pos fetched Some True show ?thesis
        by (auto simp: requeue_receipt_def intro!: trim_after)
    next
      case False
      from transition_move[OF _ life_requeue[OF fetched False]] pos fetched False Some show ?thesis
        by (auto simp: requeue_receipt_def intro!: trim_after)
    qed
  qed (simp add: requeue_receipt_def Some)
qed

lemma claimed_by_InrD:
  assumes "claimed_by i pane agent ib = Inr index"
  shows "index < length (ib_messages ib)" "m_id (ib_messages ib ! index) = i"
    "is_offer (ib_messages ib ! index)" "is_live (ib_messages ib ! index)"
    "\<exists>who at expires. m_state (ib_messages ib ! index) = Claimed who at expires \<and> admits who pane agent"
  using assms unfolding claimed_by_def
  by (auto simp: is_live_def split: option.splits message_state.splits if_splits dest!: position_SomeD)

lemma claimed_recipient:
  assumes "messages_ok ib" "index < length (ib_messages ib)" "m_state (ib_messages ib ! index) = Claimed who at expires"
  shows "m_recipient (ib_messages ib ! index) = Some who" "is_offer (ib_messages ib ! index)"
proof -
  have "holding_ok (ib_messages ib ! index)" using assms(1,2) by (simp add: messages_ok_def msg_ok_def)
  with assms(3) show "m_recipient (ib_messages ib ! index) = Some who" "is_offer (ib_messages ib ! index)"
    by (simp_all add: holding_ok_def)
qed

lemma claimed_return_moves:
  assumes "messages_ok ib" "index < length (ib_messages ib)" "m_state (ib_messages ib ! index) = Claimed who at expires"
  shows "inbox_moves ib (return_offer index now cause ib)"
  using claimed_recipient[OF assms] assms by (intro return_offer_moves) (simp_all add: is_live_def)

lemma claim_due_iff: "claim_due now m \<longleftrightarrow> (\<exists>who at expires. m_state m = Claimed who at expires \<and> expires \<le> now)"
  by (simp add: claim_due_def split: message_state.splits)

lemma settle_moves:
  assumes "messages_ok ib"
  shows "inbox_moves ib (fst (complete now i pane agent ib))" "inbox_moves ib (fst (release now i pane agent ib))"
proof -
  have "inbox_moves ib (fst (complete now i pane agent ib)) \<and> inbox_moves ib (fst (release now i pane agent ib))"
  proof (cases "claimed_by i pane agent ib")
    case (Inl outcome)
    then show ?thesis by (simp add: complete_def release_def)
  next
    case (Inr index)
    note at = claimed_by_InrD[OF Inr]
    obtain who t expires where st: "m_state (ib_messages ib ! index) = Claimed who t expires" using at(5) by blast
    note ret = claimed_return_moves[OF assms at(1) st, THEN trim_after]
    show ?thesis
    proof (cases "claim_due now (ib_messages ib ! index)")
      case True
      with ret Inr show ?thesis by (simp add: complete_def release_def expire_claim_if_due_def)
    next
      case False
      then have "now < expires" using st by (simp add: claim_due_def)
      from transition_move[OF at(1) life_complete[OF at(3) st this]]
      have "inbox_moves ib (trim_history now (transition index now (Acknowledged now OfferCompleted) ib))"
        by (intro trim_after moves1)
      with ret Inr False show ?thesis by (simp add: complete_def release_def expire_claim_if_due_def)
    qed
  qed
  then show "inbox_moves ib (fst (complete now i pane agent ib))" "inbox_moves ib (fst (release now i pane agent ib))"
    by simp_all
qed

lemma retire_moves: "inbox_moves ib (fst (retire now i pane reason ib))"
proof (cases "position (\<lambda>m. m_id m = i \<and> \<not> is_ended m \<and> held_for_pane pane m) (ib_messages ib)")
  case None
  then show ?thesis by (simp add: retire_def)
next
  case (Some index)
  note pos = position_SomeD[OF Some]
  have "is_live (ib_messages ib ! index)" "m_recipient (ib_messages ib ! index) \<noteq> None"
    using pos held_has_recipient by (auto simp: is_live_def)
  from transition_move[OF _ life_retire[OF this]] pos Some show ?thesis
    by (auto simp: retire_def intro!: trim_after)
qed

lemma length_return_offer [simp]: "length (ib_messages (return_offer i now cause ib)) = length (ib_messages ib)"
  by (simp add: return_offer_def Let_def)

lemma return_offer_fields [simp]:
  "ib_limits (return_offer i now cause ib) = ib_limits ib" "ib_deck (return_offer i now cause ib) = ib_deck ib"
  "ib_rate (return_offer i now cause ib) = ib_rate ib" "ib_dedup (return_offer i now cause ib) = ib_dedup ib"
  "ib_reserved_replies (return_offer i now cause ib) = ib_reserved_replies ib"
  by (simp_all add: return_offer_def Let_def)

text \<open>The two loops over every message: a body made of steps makes a loop made of steps.\<close>

lemma down_from_moves:
  assumes "inbox_ok ib"
    and body: "\<And>i s. inbox_ok s \<Longrightarrow> i < length (ib_messages s)
                 \<Longrightarrow> inbox_moves s (body i s) \<and> length (ib_messages (body i s)) = length (ib_messages s)"
  shows "inbox_moves ib (down_from body (length (ib_messages ib)) ib)"
proof -
  have "inbox_moves ib (down_from body (length (ib_messages ib)) ib)
      \<and> length (ib_messages (down_from body (length (ib_messages ib)) ib)) = length (ib_messages ib)"
  proof (rule down_from_inv)
    fix i s assume s: "inbox_moves ib s \<and> length (ib_messages s) = length (ib_messages ib)" "i < length (ib_messages ib)"
    then have "inbox_ok s" using assms(1) moves_inbox_ok by blast
    with s body[of s i] show "inbox_moves ib (body i s) \<and> length (ib_messages (body i s)) = length (ib_messages ib)"
      by (metis rtranclp_trans)
  qed simp
  then show ?thesis ..
qed

lemma inbox_okD: "inbox_ok ib \<Longrightarrow> messages_ok ib"
  by (simp add: inbox_ok_def)

lemma agent_exited_body_moves:
  assumes "i < length (ib_messages s)"
  shows "inbox_moves s (agent_exited_body now pane agent i s)
       \<and> length (ib_messages (agent_exited_body now pane agent i s)) = length (ib_messages s)"
proof (cases "is_live (ib_messages s ! i) \<and> bound_to pane agent (ib_messages s ! i)")
  case True
  then have rcp: "m_recipient (ib_messages s ! i) \<noteq> None" by (auto simp: bound_to_def split: option.splits)
  from return_offer_moves[OF assms, of now HolderExited] transition_move[OF assms life_retire, of now AgentExited]
    True rcp
  show ?thesis by (auto simp: agent_exited_body_def Let_def is_live_def)
next
  case False
  then show ?thesis by (auto simp: agent_exited_body_def Let_def is_live_def)
qed

lemma agent_exited_moves: "inbox_ok ib \<Longrightarrow> inbox_moves ib (agent_exited now pane agent ib)"
  unfolding agent_exited_def by (intro trim_after down_from_moves agent_exited_body_moves)

lemma assignment_due_offer:
  assumes "messages_ok s" "i < length (ib_messages s)" "assignment_due now (ib_messages s ! i)"
  shows "is_offer (ib_messages s ! i)" "m_recipient (ib_messages s ! i) \<noteq> None" "is_live (ib_messages s ! i)"
proof -
  have "deadline_ok (ib_messages s ! i)" using assms(1,2) by (simp add: messages_ok_def msg_ok_def)
  then show "is_offer (ib_messages s ! i)" "m_recipient (ib_messages s ! i) \<noteq> None" "is_live (ib_messages s ! i)"
    using assms(3) by (auto simp: deadline_ok_def assignment_due_def is_live_def split: option.splits)
qed

lemma tick_body_moves:
  assumes "inbox_ok s" "i < length (ib_messages s)"
  shows "inbox_moves s (tick_body now i s) \<and> length (ib_messages (tick_body now i s)) = length (ib_messages s)"
proof (cases "claim_due now (ib_messages s ! i)")
  case True
  then obtain who t e where "m_state (ib_messages s ! i) = Claimed who t e" by (auto simp: claim_due_iff)
  from claimed_return_moves[OF inbox_okD[OF assms(1)] assms(2) this] True show ?thesis
    by (simp add: tick_body_def Let_def)
next
  case False
  show ?thesis
  proof (cases "assignment_due now (ib_messages s ! i)")
    case True
    note offer = assignment_due_offer[OF inbox_okD[OF assms(1)] assms(2) True]
    from return_offer_moves[OF assms(2) offer(1,3,2)] False True show ?thesis by (simp add: tick_body_def Let_def)
  qed (simp add: tick_body_def Let_def False)
qed

lemma tick_moves: "inbox_ok ib \<Longrightarrow> inbox_moves ib (tick now ib)"
proof -
  assume "inbox_ok ib"
  then have "inbox_moves ib (trim_history now (down_from (tick_body now) (length (ib_messages ib)) ib))"
    by (intro trim_after down_from_moves tick_body_moves)
  from rtranclp.rtrancl_into_rtrancl[OF rtranclp.rtrancl_into_rtrancl[OF this move_expire] move_rate]
  show ?thesis unfolding tick_def Let_def .
qed

lemma run_op_steps:
  assumes "run_op op ib = Some ib'" "op_ok op" "inbox_ok ib"
  shows "inbox_steps ib ib'"
proof (cases op)
  case (OpReserveReply)
  with assms(1) show ?thesis
    by (auto simp: reserve_reply_def split: sum.splits intro!: steps1 step_reserved)
next
  case (OpAdmitAgentDirect now r c)
  with assms(1) show ?thesis by (auto simp: admit_agent_direct_def expire_steps split: sum.splits)
next
  case (OpForget pane)
  with assms(1) show ?thesis by (auto intro!: steps1 step_forget)
qed (use assms settle_moves[OF inbox_okD[OF assms(3)], THEN moves_steps] in
     \<open>auto simp: moves_steps post_direct_steps post_agent_direct_steps post_reserved_steps reserve_delegate_steps
       release_reply_step publish_steps offer_steps assign_offer_moves ack_moves take_receipt_moves
       count_repeat_moves requeue_receipt_moves agent_exited_moves retire_moves tick_moves expire_steps\<close>)

end
