(* ===== verification/Inbox_Safety.thy ===== *)
theory Inbox_Safety
  imports Inbox_Calls
begin

text \<open>
  What holds of every inbox a daemon can reach by calling the operations in any order: the
  invariant, that a call is a sequence of lifecycle steps, that no live message is lost without an
  event saying how it ended, and the memory bounds.
\<close>

inductive inbox_reach :: "deck_id \<Rightarrow> inbox_limits \<Rightarrow> inbox \<Rightarrow> bool"
  for deck :: deck_id and l :: inbox_limits where
  reach_new: "inbox_reach deck l (inbox_new deck l)"
| reach_op: "inbox_reach deck l ib \<Longrightarrow> op_ok op \<Longrightarrow> run_op op ib = Some ib' \<Longrightarrow> inbox_reach deck l ib'"
| reach_drain: "inbox_reach deck l ib \<Longrightarrow> inbox_reach deck l (fst (drain_events ib))"

lemma drain_fields [simp]:
  "ib_deck (fst (drain_events ib)) = ib_deck ib" "ib_limits (fst (drain_events ib)) = ib_limits ib"
  "ib_messages (fst (drain_events ib)) = ib_messages ib" "ib_dedup (fst (drain_events ib)) = ib_dedup ib"
  "ib_dedup_state (fst (drain_events ib)) = ib_dedup_state ib" "ib_rate (fst (drain_events ib)) = ib_rate ib"
  "ib_reserved_replies (fst (drain_events ib)) = ib_reserved_replies ib"
  by (simp_all add: drain_events_def)

section \<open>The interface the invariants share\<close>

text \<open>
  A property of inboxes that starts true, that every elementary step keeps on a well-formed inbox, and
  that draining the events keeps, holds of every inbox that can be reached.
\<close>

locale inbox_invariant =
  fixes inv :: "inbox \<Rightarrow> bool"
  assumes starts: "limits_ok l \<Longrightarrow> inv (inbox_new deck l)"
    and steps: "inbox_step ib ib' \<Longrightarrow> inbox_ok ib \<Longrightarrow> inv ib \<Longrightarrow> inv ib'"
    and drains: "inv ib \<Longrightarrow> inv (fst (drain_events ib))"
begin

lemma inv_steps: "inbox_steps ib ib' \<Longrightarrow> inbox_ok ib \<Longrightarrow> inv ib \<Longrightarrow> inv ib' \<and> inbox_ok ib'"
  by (induction rule: rtranclp_induct) (auto intro: steps step_inbox_ok)

lemma inv_reach: "inbox_reach deck l ib \<Longrightarrow> limits_ok l \<Longrightarrow> inv ib \<and> inbox_ok ib"
proof (induction rule: inbox_reach.induct)
  case reach_new
  then show ?case by (simp add: starts inbox_ok_new)
next
  case (reach_op ib op ib')
  then show ?case using run_op_steps inv_steps by blast
next
  case (reach_drain ib)
  then show ?case by (auto simp: drains inbox_ok_def messages_ok_def dedup_ok_def)
qed

end

interpretation wellformed: inbox_invariant inbox_ok
  by unfold_locales (auto simp: inbox_ok_new intro: step_inbox_ok,
      auto simp: inbox_ok_def messages_ok_def dedup_ok_def)

section \<open>No live message is lost silently\<close>

definition event_key :: "inbox_event \<Rightarrow> message_id \<times> string option" where
  "event_key e =
     (ev_message_id e, if ev_kind e = ''offer'' then None else map_option rcp_pane_id (ev_recipient e))"

definition event_ends :: "inbox_event \<Rightarrow> bool" where
  "event_ends e \<longleftrightarrow> ev_state e = NAcknowledged \<or> ev_state e = NUndeliverable"

definition accounted :: "message_id \<times> string option \<Rightarrow> string \<Rightarrow> inbox \<Rightarrow> bool" where
  "accounted key body ib \<longleftrightarrow>
     (\<exists>m \<in> set (ib_messages ib). is_live m \<and> msg_key m = key \<and> m_body m = body)
     \<or> (\<exists>e \<in> set (ib_events ib). event_key e = key \<and> event_ends e)"

lemma kind_name_offer: "kind_name (m_kind m) = ''offer'' \<longleftrightarrow> is_offer m"
  by (cases "m_kind m") (simp_all add: is_offer_def)

lemma event_key_transition: "event_key (transition_event req m) = msg_key m"
  by (simp add: event_key_def transition_event_def msg_key_def holder_pane_def kind_name_offer)

lemma event_ends_transition: "event_ends (transition_event req m) \<longleftrightarrow> is_ended m"
  by (simp add: event_ends_def transition_event_def is_terminal_name)

lemma mark_returned_events:
  assumes "e \<in> set evs"
  shows "\<exists>e' \<in> set (mark_returned p cause evs). event_key e' = event_key e \<and> event_ends e' = event_ends e"
proof -
  show ?thesis
  proof (cases p)
    case None
    with assms show ?thesis by (auto simp: mark_returned_def)
  next
    case (Some q)
    let ?upd = "(last evs)\<lparr>ev_returned := Some \<lparr>ret_previous = q, ret_cause = cause\<rparr>\<rparr>"
    have mark: "mark_returned p cause evs = butlast evs @ [?upd]"
      using assms Some by (cases evs) (simp_all add: mark_returned_def)
    have "set evs = insert (last evs) (set (butlast evs))"
      using assms by (cases evs rule: rev_cases) auto
    then consider "e \<in> set (butlast evs)" | "e = last evs" using assms by auto
    then show ?thesis
    proof cases
      case 1
      then show ?thesis unfolding mark by auto
    next
      case 2
      then have "event_key ?upd = event_key e" "event_ends ?upd = event_ends e"
        by (simp_all add: event_key_def event_ends_def)
      then show ?thesis unfolding mark by auto
    qed
  qed
qed

lemma accounted_events:
  "ib_messages ib' = ib_messages ib \<Longrightarrow> ib_events ib' = ib_events ib
   \<Longrightarrow> accounted key body ib \<Longrightarrow> accounted key body ib'"
  by (simp add: accounted_def)

lemma accounted_update:
  assumes "i < length (ib_messages ib)" "msg_key m' = msg_key (ib_messages ib ! i)"
    and "m_body m' = m_body (ib_messages ib ! i)"
    and "ib_messages ib' = (ib_messages ib)[i := m']" "set (ib_events ib) \<subseteq> set (ib_events ib')"
    and "is_ended m' \<Longrightarrow> \<exists>e \<in> set (ib_events ib'). event_key e = msg_key m' \<and> event_ends e"
    and "accounted key body ib"
  shows "accounted key body ib'"
proof (cases "\<exists>e \<in> set (ib_events ib). event_key e = key \<and> event_ends e")
  case True
  then show ?thesis using assms(5) by (auto simp: accounted_def)
next
  case False
  then obtain m where m: "m \<in> set (ib_messages ib)" "is_live m" "msg_key m = key" "m_body m = body"
    using assms(7) by (auto simp: accounted_def)
  then obtain j where j: "j < length (ib_messages ib)" "ib_messages ib ! j = m" by (auto simp: in_set_conv_nth)
  show ?thesis
  proof (cases "j = i")
    case True
    have "m' \<in> set (ib_messages ib')" using assms(1,4) by (simp add: set_update_memI)
    with True j m assms(2,3,6) show ?thesis by (auto simp: accounted_def is_live_def)
  next
    case False
    then have "m \<in> set (ib_messages ib')" using j assms(4) by (metis length_list_update nth_list_update_neq nth_mem)
    with m show ?thesis by (auto simp: accounted_def)
  qed
qed

lemma step_accounted: "inbox_step ib ib' \<Longrightarrow> accounted key body ib \<Longrightarrow> accounted key body ib'"
proof (induction rule: inbox_step.induct)
  case (step_life i ib now m0 st)
  let ?ib0 = "ib\<lparr>ib_messages := (ib_messages ib)[i := m0]\<rparr>" and ?m' = "message_transition now st m0"
  note key = lifecycle_key[OF step_life(2)]
  have ev: "ib_events (transition i now st ?ib0)
      = ib_events ib @ [transition_event (is_requeue st (m_state m0)) ?m']"
    using step_life(1) by (simp add: transition_events)
  show ?case
    by (rule accounted_update[OF step_life(1), of ?m'])
       (use step_life key ev in \<open>auto simp: event_key_transition event_ends_transition\<close>)
next
  case (step_repeat i ib)
  let ?m' = "(ib_messages ib ! i)\<lparr>m_deliveries := m_deliveries (ib_messages ib ! i) + 1\<rparr>"
  show ?case
    by (rule accounted_update[OF step_repeat(1), of ?m'])
       (use step_repeat in \<open>auto simp: msg_key_def holder_pane_def elim: fetched_cases\<close>)
next
  case (step_insert kind rcp body' ib i now addr content)
  then show ?case by (auto simp: accounted_def inbox_insert_def Let_def transition_events)
next
  case (step_trim ib now)
  then show ?case by (auto simp: accounted_def trimmed.live_member_trim)
next
  case (step_forget ib pane)
  then show ?case by (auto simp: accounted_def forget_pane_history_def is_live_def)
next
  case (step_returned ib p cause)
  then show ?case using mark_returned_events[of _ "ib_events ib" p cause] by (fastforce simp: accounted_def)
qed (auto simp: register_id_fields intro: accounted_events)

lemma steps_accounted: "inbox_steps ib ib' \<Longrightarrow> accounted key body ib \<Longrightarrow> accounted key body ib'"
  by (induction rule: rtranclp_induct) (auto intro: step_accounted)

lemma reach_ok: "inbox_reach deck l ib \<Longrightarrow> limits_ok l \<Longrightarrow> inbox_ok ib"
  using wellformed.inv_reach by blast

lemma live_accounted: "m \<in> set (ib_messages ib) \<Longrightarrow> is_live m \<Longrightarrow> accounted (msg_key m) (m_body m) ib"
  by (auto simp: accounted_def)

section \<open>A small inbox to try the operations on\<close>

definition sample_limits :: inbox_limits where
  "sample_limits =
     default_limits\<lparr>max_deliver := 2, max_per_recipient := 2, max_messages := 4, rate_per_minute := 1,
       history_per_pane := 1, max_history_messages := 2\<rparr>"

definition sample_inbox :: inbox where
  "sample_inbox = inbox_new ''deck0000'' sample_limits"

definition sample_rcp :: recipient where
  "sample_rcp = recipient_bound ''p1'' ''a1''"

definition sample_content :: "message_id option \<Rightarrow> content" where
  "sample_content i =
     (content_from_deck ''delegate'' ''subject'' ''body'')\<lparr>c_from := SenderAgent ''p0'' ''a0'' None None, c_id := i\<rparr>"

lemma sample_limits_ok: "limits_ok sample_limits"
  by code_simp

lemma sample_inbox_ok: "inbox_ok sample_inbox"
  by (simp add: sample_inbox_def inbox_ok_new sample_limits_ok)

lemma sample_reach: "inbox_reach ''deck0000'' sample_limits sample_inbox"
  by (simp add: sample_inbox_def reach_new)

lemma sample_post_runs:
  "\<exists>ib'. run_op (OpPostDirect [] 0 sample_rcp (sample_content (Some ''m-deck0000-0000000000000001''))) sample_inbox = Some ib'"
proof -
  have "run_op (OpPostDirect [] 0 sample_rcp (sample_content (Some ''m-deck0000-0000000000000001''))) sample_inbox \<noteq> None"
    by code_simp
  then show ?thesis by blast
qed

end
