(* ===== verification/Inbox_Bounds.thy ===== *)
theory Inbox_Bounds
  imports Inbox_Safety
begin

text \<open>
  The bounds of the inbox: deck-wide room with the reservations counted in, the backlog of one
  recipient, the history, and the per-agent posting rate.
\<close>

section \<open>Which calls post\<close>

fun posts_or_reserves :: "inbox_op \<Rightarrow> bool" where
  "posts_or_reserves (OpPostDirect draws now r c) = True"
| "posts_or_reserves (OpPostAgentDirect draws now r c) = True"
| "posts_or_reserves OpReserveReply = True"
| "posts_or_reserves (OpReserveDelegate now pane c n) = True"
| "posts_or_reserves OpReleaseReply = True"
| "posts_or_reserves (OpPostReserved draws now r c) = True"
| "posts_or_reserves (OpPublish draws now sc topic c rs) = True"
| "posts_or_reserves (OpOffer draws now sc pool ttl c rs) = True"
| "posts_or_reserves _ = False"

lemma expire_moves: "inbox_moves ib (expire_dedup now ib)"
  by (rule moves1) (rule move_expire)

lemma run_op_moves:
  assumes "run_op op ib = Some ib'" "\<not> posts_or_reserves op" "inbox_ok ib"
  shows "inbox_moves ib ib'"
proof (cases op)
  case (OpAdmitAgentDirect now r c)
  with assms(1) show ?thesis
    by (auto simp: admit_agent_direct_def split: sum.splits intro!: moves1 move_expire)
next
  case (OpForget pane)
  with assms(1) show ?thesis by (auto intro!: moves1 move_forget)
qed (use assms settle_moves[OF inbox_okD[OF assms(3)]] in
     \<open>auto simp: assign_offer_moves ack_moves take_receipt_moves count_repeat_moves requeue_receipt_moves
       agent_exited_moves retire_moves tick_moves expire_moves\<close>)

section \<open>Deck-wide room\<close>

definition room_used :: "inbox \<Rightarrow> nat" where
  "room_used ib = live_count ib + ib_reserved_replies ib"

lemma lifecycle_live: "lifecycle l now m m0 st \<Longrightarrow> is_live (message_transition now st m0) \<Longrightarrow> is_live m"
  using lifecycle_from_ended by (fastforce simp: is_live_def is_terminal_name)

lemma move_room: "inbox_move ib ib' \<Longrightarrow> live_count ib' \<le> live_count ib \<and> ib_reserved_replies ib' = ib_reserved_replies ib"
proof (induction rule: inbox_move.induct)
  case (move_life i ib now m0 st)
  then show ?case
    using lifecycle_live[OF move_life(2)] by (auto simp: live_count_def intro!: length_filter_list_update_le)
next
  case (move_repeat i ib)
  then show ?case by (auto simp: live_count_def is_live_def intro!: length_filter_list_update_le)
next
  case (move_forget ib pane)
  have "filter is_live (ib_messages (forget_pane_history pane ib)) = filter is_live (ib_messages ib)"
    by (auto simp: forget_pane_history_def is_live_def intro!: filter_cong)
  then show ?case by (simp add: live_count_def forget_pane_history_def)
qed (simp_all add: live_count_def)

lemma moves_room: "inbox_moves ib ib' \<Longrightarrow> room_used ib' \<le> room_used ib"
  by (induction rule: rtranclp_induct) (auto simp: room_used_def dest!: move_room)

lemma inserted_counts:
  "live_count (inbox_insert now i kind addr rcp c body ib) = live_count ib + 1"
  "live_for_pane pane (inbox_insert now i kind addr rcp c body ib)
     = live_for_pane pane ib + (if map_option rcp_pane_id rcp = Some pane then 1 else 0)"
  by (auto simp: live_count_def live_for_pane_def is_live_def waits_for_pane_def held_for_pane_def new_message_def
      split: option.splits)

lemma unchanged_counts:
  "ib_messages ib' = ib_messages ib \<Longrightarrow> live_count ib' = live_count ib"
  "ib_messages ib' = ib_messages ib \<Longrightarrow> live_for_pane pane ib' = live_for_pane pane ib"
  by (simp_all add: live_count_def live_for_pane_def)

lemma expire_counts [simp]:
  "live_count (expire_dedup now ib) = live_count ib" "live_for_pane pane (expire_dedup now ib) = live_for_pane pane ib"
  by (simp_all add: live_count_def live_for_pane_def)

lemma insert_direct_counts:
  assumes "insert_direct draws now r c ib = Some (ib', i)"
  shows "live_count ib' = live_count ib + 1" "ib_reserved_replies ib' = ib_reserved_replies ib"
    "live_for_pane pane ib' = live_for_pane pane ib + (if rcp_pane_id r = pane then 1 else 0)"
    "ib_rate ib' = ib_rate ib"
proof -
  obtain ib1 where reg: "register_id draws now (c_id c) ib = Some (ib1, i)"
    and ib': "ib' = trim_history now (inbox_insert now i Direct (AddrDirect (ib_deck ib1) (rcp_pane_id r))
                (Some r) c (c_body c) ib1)"
    using assms by (auto simp: insert_direct_def split: option.splits)
  note same = register_id_fields[OF reg]
  show "live_count ib' = live_count ib + 1" "ib_reserved_replies ib' = ib_reserved_replies ib"
    "live_for_pane pane ib' = live_for_pane pane ib + (if rcp_pane_id r = pane then 1 else 0)"
    "ib_rate ib' = ib_rate ib"
    unfolding ib' by (simp_all add: inserted_counts unchanged_counts[OF same(3)] same)
qed

lemma insert_copies_counts:
  "live_count (insert_copies now i addr topic c room ib) = live_count ib + length room"
  "ib_reserved_replies (insert_copies now i addr topic c room ib) = ib_reserved_replies ib"
  "ib_limits (insert_copies now i addr topic c room ib) = ib_limits ib"
  "ib_rate (insert_copies now i addr topic c room ib) = ib_rate ib"
  "live_for_pane pane (insert_copies now i addr topic c room ib)
     = live_for_pane pane ib + length (filter (\<lambda>r. rcp_pane_id r = pane) room)"
proof (induction room arbitrary: ib)
  case Nil
  { case 1 show ?case by (simp add: insert_copies_def) }
  { case 2 show ?case by (simp add: insert_copies_def) }
  { case 3 show ?case by (simp add: insert_copies_def) }
  { case 4 show ?case by (simp add: insert_copies_def) }
  { case 5 show ?case by (simp add: insert_copies_def) }
next
  case (Cons r room)
  have eq: "insert_copies now i addr topic c (r # room) ib
      = insert_copies now i addr topic c room (inbox_insert now i (Publish topic) addr (Some r) c (c_body c) ib)"
    for ib by (simp add: insert_copies_def)
  { case 1 show ?case by (simp add: eq Cons inserted_counts) }
  { case 2 show ?case by (simp add: eq Cons) }
  { case 3 show ?case by (simp add: eq Cons) }
  { case 4 show ?case by (simp add: eq Cons) }
  { case 5 show ?case by (simp add: eq Cons inserted_counts) }
qed

lemma publish_insert:
  assumes "publish draws now sc topic c rs ib = Some (ib', Inr p)"
  obtains ib1 ib2 where "ib1 = expire_dedup now ib" "check_rate now (c_from c) ib1 = Inr ()"
    "register_id draws now (c_id c) ib1 = Some (ib2, pub_id p)" "check_id (c_id c) ib1 = Inr ()"
    "check_room (length (filter (\<lambda>r. has_room_for (rcp_pane_id r) ib1) rs)) ib1 = Inr ()"
    "ib' = trim_history now (insert_copies now (pub_id p) (AddrTopic (ib_deck ib2) sc topic) topic c
             (filter (\<lambda>r. has_room_for (rcp_pane_id r) ib1) rs) (record_rate now (c_from c) ib2))"
    "pub_delivered_to p = length (filter (\<lambda>r. has_room_for (rcp_pane_id r) ib1) rs)"
    "pub_refused_full p = map rcp_pane_id (filter (\<lambda>r. \<not> has_room_for (rcp_pane_id r) ib1) rs)"
  using assms unfolding publish_def
proof (cases rule: when_admitted_cases)
  case (refused e)
  then show ?thesis by simp
next
  case (went a ib1 q)
  note adm = admitted_publish[OF went(1)]
  from went(2,3) obtain ib2 i where "register_id draws now (c_id c) ib1 = Some (ib2, i)"
    "ib' = trim_history now (insert_copies now i (AddrTopic (ib_deck ib2) sc topic) topic c
             (filter (\<lambda>r. has_room_for (rcp_pane_id r) ib1) rs) (record_rate now (c_from c) ib2))"
    "p = \<lparr>pub_id = i, pub_delivered_to = length (filter (\<lambda>r. has_room_for (rcp_pane_id r) ib1) rs),
          pub_refused_full = map rcp_pane_id (filter (\<lambda>r. \<not> has_room_for (rcp_pane_id r) ib1) rs)\<rparr>"
    by (auto simp: Let_def split: option.splits)
  with adm that show ?thesis by auto
qed

lemma release_counts:
  "room_used (release_reply ib) \<le> room_used ib" "live_for_pane pane (release_reply ib) = live_for_pane pane ib"
  by (simp_all add: release_reply_def room_used_def live_count_def live_for_pane_def)

fun replaced :: "inbox_op \<Rightarrow> nat" where
  "replaced (OpReserveDelegate now pane c n) = n"
| "replaced _ = 0"

fun spends_reservation :: "inbox_op \<Rightarrow> bool" where
  "spends_reservation (OpPostReserved draws now r c) = True"
| "spends_reservation _ = False"

lemma post_direct_counts:
  assumes "post_direct draws now r c ib = Some (ib', res)"
  shows "room_used ib' \<le> max (room_used ib) (max_messages (ib_limits ib))"
    "live_for_pane pane ib' \<le> max (live_for_pane pane ib) (max_per_recipient (ib_limits ib))"
proof -
  have "room_used ib' \<le> max (room_used ib) (max_messages (ib_limits ib))
      \<and> live_for_pane pane ib' \<le> max (live_for_pane pane ib) (max_per_recipient (ib_limits ib))"
    using assms unfolding post_direct_def
  proof (cases rule: when_admitted_cases)
    case (refused e)
    then show ?thesis by (auto simp: room_used_def dest!: admitD)
  next
    case (went a ib1 i)
    note adm = admitted_reply[OF admitted_direct(1)[OF went(1)]]
    note cnt = insert_direct_counts[OF went(2)]
    from adm(4) admitted_direct(2)[OF went(1)] show ?thesis
      by (auto simp: room_used_def cnt check_room_ok has_room_for_def adm(1))
  qed
  then show "room_used ib' \<le> max (room_used ib) (max_messages (ib_limits ib))"
    "live_for_pane pane ib' \<le> max (live_for_pane pane ib) (max_per_recipient (ib_limits ib))" by simp_all
qed

lemma rate_counts [simp]:
  "live_count (record_rate now from ib) = live_count ib"
  "live_for_pane pane (record_rate now from ib) = live_for_pane pane ib"
  by (simp_all add: live_count_def live_for_pane_def)

lemma post_agent_direct_counts:
  assumes "post_agent_direct draws now r c ib = Some (ib', res)"
  shows "room_used ib' \<le> max (room_used ib) (max_messages (ib_limits ib))"
    "live_for_pane pane ib' \<le> max (live_for_pane pane ib) (max_per_recipient (ib_limits ib))"
proof -
  have "room_used ib' \<le> max (room_used ib) (max_messages (ib_limits ib))
      \<and> live_for_pane pane ib' \<le> max (live_for_pane pane ib) (max_per_recipient (ib_limits ib))"
    using assms unfolding post_agent_direct_def
  proof (cases rule: when_admitted_cases)
    case (refused e)
    then have "ib' = ib \<or> ib' = expire_dedup now ib"
      by (auto simp: admit_agent_direct_def split: sum.splits dest: admitD)
    then show ?thesis by (auto simp: room_used_def)
  next
    case (went a ib1 i)
    note adm = admitted_reply[OF admitted_direct(1)[OF admitted_agent_direct(1)[OF went(1)]]]
    note cnt = insert_direct_counts[OF went(2)]
    from adm(4) admitted_direct(2)[OF admitted_agent_direct(1)[OF went(1)]] show ?thesis
      by (auto simp: room_used_def cnt check_room_ok has_room_for_def adm(1))
  qed
  then show "room_used ib' \<le> max (room_used ib) (max_messages (ib_limits ib))"
    "live_for_pane pane ib' \<le> max (live_for_pane pane ib) (max_per_recipient (ib_limits ib))" by simp_all
qed

lemma post_reserved_room:
  assumes "post_reserved_reply draws now r c ib = Some (ib', res)" "0 < ib_reserved_replies ib"
  shows "room_used ib' \<le> room_used ib"
  using assms(1) unfolding post_reserved_reply_def
proof (cases rule: when_admitted_cases)
  case (refused e)
  then show ?thesis by (auto simp: room_used_def dest!: admitD)
next
  case (went a ib1 i)
  note cnt = insert_direct_counts[OF went(2)]
  from admitted_reserved(1)[OF went(1)] assms(2) show ?thesis
    by (simp add: room_used_def cnt) (simp add: release_reply_def live_count_def)
qed

lemma filter_distinct_key: "distinct (map f xs) \<Longrightarrow> length (filter (\<lambda>x. f x = k) xs) \<le> 1"
  by (induction xs) (auto simp: filter_empty_conv image_iff dest: sym)

lemma publish_counts:
  assumes "publish draws now sc topic c rs ib = Some (ib', res)"
  shows "room_used ib' \<le> max (room_used ib) (max_messages (ib_limits ib))"
    "distinct (map rcp_pane_id rs)
      \<Longrightarrow> live_for_pane pane ib' \<le> max (live_for_pane pane ib) (max_per_recipient (ib_limits ib))"
proof -
  have "room_used ib' \<le> max (room_used ib) (max_messages (ib_limits ib))
      \<and> (distinct (map rcp_pane_id rs)
      \<longrightarrow> live_for_pane pane ib' \<le> max (live_for_pane pane ib) (max_per_recipient (ib_limits ib)))"
  proof (cases res)
    case (Inl e)
    with assms have "ib' = expire_dedup now ib"
      unfolding publish_def by (cases rule: when_admitted_cases) (auto dest: admitD)
    then show ?thesis by (simp add: room_used_def)
  next
    case (Inr p)
    from assms[unfolded Inr] show ?thesis
    proof (cases rule: publish_insert)
      case (1 ib1 ib2)
      let ?room = "filter (\<lambda>r. has_room_for (rcp_pane_id r) ib1) rs"
      note same = register_id_fields[OF 1(3)]
      have counts: "live_count ib' = live_count ib1 + length ?room" "ib_reserved_replies ib' = ib_reserved_replies ib1"
        "live_for_pane pane ib' = live_for_pane pane ib1 + length (filter (\<lambda>r. rcp_pane_id r = pane) ?room)"
        unfolding 1(6) by (simp_all add: insert_copies_counts unchanged_counts[OF same(3)] same)
      have "filter (\<lambda>r. rcp_pane_id r = pane) ?room = [] \<or> has_room_for pane ib1"
        by (auto simp: filter_empty_conv)
      moreover have "length (filter (\<lambda>r. rcp_pane_id r = pane) ?room) \<le> 1" if "distinct (map rcp_pane_id rs)"
        using that by (intro filter_distinct_key distinct_map_filter)
      ultimately show ?thesis
        using counts 1(5) by (auto simp: room_used_def check_room_ok has_room_for_def 1(1))
    qed
  qed
  then show "room_used ib' \<le> max (room_used ib) (max_messages (ib_limits ib))"
    "distinct (map rcp_pane_id rs)
      \<Longrightarrow> live_for_pane pane ib' \<le> max (live_for_pane pane ib) (max_per_recipient (ib_limits ib))" by simp_all
qed

section \<open>The backlog of one recipient\<close>

lemma lifecycle_waits:
  assumes "lifecycle l now m m0 st" "waits_for_pane pane (message_transition now st m0)" "holder_fits ib m m0"
  shows "waits_for_pane pane m \<or> has_room_for pane ib"
  using assms
  by (induction rule: lifecycle.induct)
     (auto simp: waits_for_pane_def held_for_pane_def holder_fits_def unassigned_offer_def split: option.splits if_splits)

lemma move_backlog:
  "inbox_move ib ib' \<Longrightarrow> live_for_pane pane ib' \<le> max (live_for_pane pane ib) (max_per_recipient (ib_limits ib))"
proof (induction rule: inbox_move.induct)
  case (move_life i ib now m0 st)
  let ?P = "waits_for_pane pane" and ?m' = "message_transition now st m0"
  consider "?P ?m' \<longrightarrow> ?P (ib_messages ib ! i)" | "?P ?m'" "has_room_for pane ib"
    using lifecycle_waits[OF move_life(2) _ move_life(3)] by blast
  then show ?case
  proof cases
    case 1
    with length_filter_list_update_le[OF move_life(1), of ?P ?m'] move_life(1) show ?thesis
      by (simp add: live_for_pane_def)
  next
    case 2
    with length_filter_list_update_Suc[OF move_life(1), of ?P ?m'] move_life(1) show ?thesis
      by (simp add: live_for_pane_def has_room_for_def)
  qed
next
  case (move_repeat i ib)
  then show ?case
    by (simp add: live_for_pane_def max.coboundedI1 length_filter_list_update_le waits_for_pane_def held_for_pane_def)
next
  case (move_forget ib pane')
  have "filter (waits_for_pane pane) (ib_messages (forget_pane_history pane' ib))
      = filter (waits_for_pane pane) (ib_messages ib)"
    by (auto simp: forget_pane_history_def waits_for_pane_def intro!: filter_cong dest: fetched_live[unfolded is_live_def])
  then show ?case by (simp add: live_for_pane_def)
qed (simp_all, simp_all add: live_for_pane_def)

lemma moves_backlog:
  "inbox_moves ib ib' \<Longrightarrow> live_for_pane pane ib' \<le> max (live_for_pane pane ib) (max_per_recipient (ib_limits ib))"
proof (induction rule: rtranclp_induct)
  case base
  show ?case by simp
next
  case (step ib1 ib2)
  have "ib_limits ib1 = ib_limits ib" using inbox_steps_limits[OF moves_steps[OF step(1)]] by simp
  with step move_backlog[OF step(2), of pane] show ?case by (simp add: max_def split: if_splits)
qed

lemma offer_counts:
  assumes "offer draws now sc pool ttl c rs ib = Some (ib', res)"
  shows "room_used ib' \<le> max (room_used ib) (max_messages (ib_limits ib))"
    "live_for_pane pane ib' \<le> max (live_for_pane pane ib) (max_per_recipient (ib_limits ib))"
proof -
  have "room_used ib' \<le> max (room_used ib) (max_messages (ib_limits ib))
      \<and> live_for_pane pane ib' \<le> max (live_for_pane pane ib) (max_per_recipient (ib_limits ib))"
    using assms unfolding offer_def
  proof (cases rule: when_admitted_cases)
    case (refused e)
    then show ?thesis by (auto simp: room_used_def dest!: admitD)
  next
    case (went t ib1 q)
    note adm = admitted_offer[OF went(1)]
    obtain ib2 i where reg: "register_id draws now (c_id c) ib1 = Some (ib2, i)" using went(2)
      by (auto split: option.splits)
    note same = register_id_fields[OF reg]
    let ?ib4 = "inbox_insert now i (Offer pool t) (AddrOffer (ib_deck ib2) sc pool) None c (c_body c)
        (record_rate now (c_from c) ib2)"
    have moves: "inbox_moves ?ib4 ib'"
      using went(2) reg assign_offer_moves[of ?ib4 now i rs] by (auto simp: Let_def split: prod.splits)
    have counts: "live_count ?ib4 = live_count ib1 + 1" "ib_reserved_replies ?ib4 = ib_reserved_replies ib1"
      "live_for_pane pane ?ib4 = live_for_pane pane ib1" "ib_limits ?ib4 = ib_limits ib"
      by (simp_all add: inserted_counts unchanged_counts[OF same(3)] same adm(1))
    from moves_room[OF moves] moves_backlog[OF moves, of pane] adm(5) show ?thesis
      unfolding room_used_def counts by (simp add: check_room_ok adm(1))
  qed
  then show "room_used ib' \<le> max (room_used ib) (max_messages (ib_limits ib))"
    "live_for_pane pane ib' \<le> max (live_for_pane pane ib) (max_per_recipient (ib_limits ib))" by simp_all
qed

lemma reserve_counts:
  "room_used (fst (reserve_reply ib)) \<le> max (room_used ib) (max_messages (ib_limits ib))"
  "room_used (fst (reserve_delegate now pane c n ib)) \<le> max (room_used ib) (max_messages (ib_limits ib) + n)"
  "live_for_pane p (fst (reserve_reply ib)) = live_for_pane p ib"
  "live_for_pane p (fst (reserve_delegate now pane c n ib)) = live_for_pane p ib"
  by (auto simp: reserve_reply_def reserve_delegate_def check_room_def room_used_def live_count_def live_for_pane_def
      split: sum.splits prod.splits dest!: admitD)

text \<open>
  C16: the deck-wide bound. No call takes the room in use (live messages plus the room reserved for
  answers) past \<^const>\<open>max_messages\<close>, unless it already was: a delegated task may exceed it by the
  number of older tasks it replaces, and a reserved answer, posted while its reservation is held,
  needs no room of its own.
\<close>

theorem room_kept:
  assumes "run_op op ib = Some ib'" "inbox_ok ib" "spends_reservation op \<Longrightarrow> 0 < ib_reserved_replies ib"
  shows "room_used ib' \<le> max (room_used ib) (max_messages (ib_limits ib) + replaced op)"
proof (cases "posts_or_reserves op")
  case False
  with run_op_moves[OF assms(1) False assms(2)] show ?thesis using moves_room by (blast intro: max.coboundedI1)
next
  case True
  with assms(1,3) show ?thesis
    by (cases op)
       (auto dest!: post_direct_counts(1) post_agent_direct_counts(1) publish_counts(1) offer_counts(1)
           post_reserved_room
         intro: reserve_counts(1)[THEN order_trans] reserve_counts(2) max.coboundedI1 release_counts(1))
qed

theorem room_kept_witness:
  "\<exists>ib'. run_op (OpPostDirect [] 0 sample_rcp (sample_content (Some ''m-deck0000-0000000000000001''))) sample_inbox
      = Some ib' \<and> room_used ib' \<le> max (room_used sample_inbox) (max_messages (ib_limits sample_inbox) + 0)"
proof -
  obtain ib' where run:
    "run_op (OpPostDirect [] 0 sample_rcp (sample_content (Some ''m-deck0000-0000000000000001''))) sample_inbox = Some ib'"
    using sample_post_runs by blast
  from room_kept[OF run sample_inbox_ok] run show ?thesis by auto
qed

text \<open>
  C17: the bound per recipient. No call but the posting of a reserved answer takes the messages waiting
  for one pane past \<^const>\<open>max_per_recipient\<close>, assignment of an offer included.
\<close>

theorem backlog_kept:
  assumes "run_op op ib = Some ib'" "inbox_ok ib" "op_ok op" "\<not> spends_reservation op"
  shows "live_for_pane pane ib' \<le> max (live_for_pane pane ib) (max_per_recipient (ib_limits ib))"
proof (cases "posts_or_reserves op")
  case False
  with run_op_moves[OF assms(1) False assms(2)] show ?thesis using moves_backlog by blast
next
  case True
  with assms(1,3,4) show ?thesis
    by (cases op)
       (auto simp: release_counts reserve_counts
         dest!: post_direct_counts(2) post_agent_direct_counts(2) publish_counts(2) offer_counts(2))
qed

theorem backlog_kept_witness:
  "\<exists>ib'. run_op (OpPostDirect [] 0 sample_rcp (sample_content (Some ''m-deck0000-0000000000000001''))) sample_inbox
      = Some ib' \<and> live_for_pane ''p1'' ib' \<le> max (live_for_pane ''p1'' sample_inbox) (max_per_recipient (ib_limits sample_inbox))"
proof -
  obtain ib' where run:
    "run_op (OpPostDirect [] 0 sample_rcp (sample_content (Some ''m-deck0000-0000000000000001''))) sample_inbox = Some ib'"
    using sample_post_runs by blast
  from backlog_kept[OF run sample_inbox_ok] run show ?thesis by auto
qed

end
