(* ===== verification/Inbox_Memory.thy ===== *)
theory Inbox_Memory
  imports Inbox_Bounds
begin

text \<open>
  The history bound as an invariant of every reachable inbox, and the per-agent posting rate.
\<close>

section \<open>The history stays bounded\<close>

lemma terminal_count_ended: "terminal_count ms h = terminal_count (filter is_ended ms) h"
  by (simp add: terminal_count_def)

lemma history_bounded_iff:
  "history_bounded ib \<longleftrightarrow>
     (\<forall>h. terminal_count (filter is_ended (ib_messages ib)) h \<le> history_per_pane (ib_limits ib))
     \<and> length (filter is_ended (ib_messages ib)) \<le> max_history_messages (ib_limits ib)
     \<and> (\<Sum>m\<leftarrow>filter is_ended (ib_messages ib). length (m_body m)) \<le> max_history_bytes (ib_limits ib)"
proof -
  have "(\<forall>m \<in> set (ib_messages ib). terminal_count (ib_messages ib) (holder_pane m) \<le> history_per_pane (ib_limits ib))
      \<longleftrightarrow> (\<forall>h. terminal_count (ib_messages ib) h \<le> history_per_pane (ib_limits ib))" (is "?L \<longleftrightarrow> ?R")
  proof
    assume L: ?L
    show ?R
    proof
      fix h
      show "terminal_count (ib_messages ib) h \<le> history_per_pane (ib_limits ib)"
      proof (cases "\<exists>m \<in> set (ib_messages ib). holder_pane m = h")
        case True
        with L show ?thesis by auto
      next
        case False
        then have "filter (\<lambda>m. is_ended m \<and> holder_pane m = h) (ib_messages ib) = []"
          by (auto simp: filter_empty_conv)
        then show ?thesis by (simp add: terminal_count_def)
      qed
    qed
  qed simp
  then show ?thesis
    by (simp add: history_bounded_def within_def history_size_eq flip: terminal_count_ended)
qed

lemma history_bounded_cong:
  "filter is_ended (ib_messages ib') = filter is_ended (ib_messages ib) \<Longrightarrow> ib_limits ib' = ib_limits ib
   \<Longrightarrow> history_bounded ib \<Longrightarrow> history_bounded ib'"
  by (simp add: history_bounded_iff)

lemma ended_list_update:
  "i < length ms \<Longrightarrow> \<not> is_ended (ms ! i) \<Longrightarrow> \<not> is_ended m' \<Longrightarrow> filter is_ended (ms[i := m']) = filter is_ended ms"
proof (induction ms arbitrary: i)
  case Nil
  then show ?case by simp
next
  case (Cons x xs)
  then show ?case by (cases i) auto
qed

lemma hb_transition:
  assumes "i < length (ib_messages ib)" "\<not> is_ended (ib_messages ib ! i)" "\<not> is_terminal st" "history_bounded ib"
  shows "history_bounded (transition i now st (ib\<lparr>ib_messages := (ib_messages ib)[i := m0]\<rparr>))"
  using assms by (intro history_bounded_cong[OF _ _ assms(4)]) (simp_all add: ended_list_update)

lemma hb_plain_transition:
  assumes "i < length (ib_messages ib)" "\<not> is_ended (ib_messages ib ! i)" "\<not> is_terminal st" "history_bounded ib"
  shows "history_bounded (transition i now st ib)"
  using hb_transition[OF assms, of now "ib_messages ib ! i"] by simp

lemma hb_expire: "history_bounded ib \<Longrightarrow> history_bounded (expire_dedup now ib)"
  by (rule history_bounded_cong) simp_all

lemma hb_insert_direct: "insert_direct draws now r c ib = Some (ib', i) \<Longrightarrow> history_bounded ib'"
  by (auto simp: insert_direct_def history_bounded_trim split: option.splits)

lemma hb_assign: "history_bounded ib \<Longrightarrow> history_bounded (fst (assign_offer now i rs ib))"
  by (auto simp: assign_offer_def Let_def unassigned_offer_def split: option.splits dest!: position_SomeD
      intro!: hb_transition)

lemma hb_take: "history_bounded ib \<Longrightarrow> history_bounded (fst (take_receipt now i pane agent who ib))"
proof (cases "find_for i pane agent ib")
  case None
  assume "history_bounded ib"
  with None show ?thesis by (simp add: take_receipt_def)
next
  case (Some index)
  assume hb: "history_bounded ib"
  note go = hb_transition[OF find_for_SomeD(1)[OF Some] _ _ hb, of "Fetched who now" now]
  show ?thesis using Some hb go by (simp add: take_receipt_def Let_def)
qed

lemma hb_repeat: "history_bounded ib \<Longrightarrow> history_bounded (fst (count_receipt_repeat i pane agent ib))"
  by (auto simp: count_receipt_repeat_def Let_def split: option.splits dest!: find_for_SomeD(1)
      intro!: history_bounded_cong[of _ ib] ended_list_update)

lemma hb_ack: "history_bounded ib \<Longrightarrow> history_bounded (fst (ack now i pane agent how ib))"
proof (cases "find_for i pane agent ib")
  case None
  assume "history_bounded ib"
  with None show ?thesis by (simp add: ack_def)
next
  case (Some index)
  assume hb: "history_bounded ib"
  have claim: "history_bounded (transition index now (Claimed r now e) ib)"
    if "\<not> is_ended (ib_messages ib ! index)" for r e
    using hb_plain_transition[OF find_for_SomeD(1)[OF Some] that] hb by simp
  show ?thesis
    using Some hb claim
    by (auto simp: ack_def Let_def history_bounded_trim split: message_state.splits message_kind.splits if_splits)
qed

lemma hb_requeue: "history_bounded ib \<Longrightarrow> history_bounded (fst (requeue_receipt now i pane ib))"
  by (auto simp: requeue_receipt_def history_bounded_trim split: option.splits)

lemma hb_settle:
  "history_bounded ib \<Longrightarrow> history_bounded (fst (complete now i pane agent ib))"
  "history_bounded ib \<Longrightarrow> history_bounded (fst (release now i pane agent ib))"
  by (auto simp: complete_def release_def expire_claim_if_due_def history_bounded_trim
      split: sum.splits bool.splits prod.splits if_splits)

lemma hb_retire: "history_bounded ib \<Longrightarrow> history_bounded (fst (retire now i pane reason ib))"
  by (auto simp: retire_def history_bounded_trim split: option.splits)

lemma hb_tick: "history_bounded (tick now ib)"
  unfolding tick_def Let_def
  by (rule history_bounded_cong[OF _ _ hb_expire[OF history_bounded_trim]]) simp_all

lemma sum_list_filter_le: "(\<Sum>m\<leftarrow>filter P xs. (f m :: nat)) \<le> (\<Sum>m\<leftarrow>xs. f m)"
  by (induction xs) auto

lemma hb_forget: "history_bounded ib \<Longrightarrow> history_bounded (forget_pane_history pane ib)"
proof -
  assume hb: "history_bounded ib"
  let ?keep = "\<lambda>m. \<not> is_ended m \<or> \<not> held_for_pane pane m"
  have sub: "filter is_ended (ib_messages (forget_pane_history pane ib)) = filter ?keep (filter is_ended (ib_messages ib))"
    by (simp add: forget_pane_history_def conj_commute)
  have "terminal_count (filter ?keep xs) h \<le> terminal_count xs h" for xs h
    by (induction xs) (auto simp: terminal_count_def)
  from order_trans[OF this]
  have "terminal_count (filter ?keep (filter is_ended (ib_messages ib))) h \<le> history_per_pane (ib_limits ib)" for h
    using hb unfolding history_bounded_iff by blast
  moreover have "length (filter ?keep (filter is_ended (ib_messages ib))) \<le> max_history_messages (ib_limits ib)"
    using hb order_trans[OF length_filter_le] unfolding history_bounded_iff by blast
  moreover have "(\<Sum>m\<leftarrow>filter ?keep (filter is_ended (ib_messages ib)). length (m_body m)) \<le> max_history_bytes (ib_limits ib)"
    using hb order_trans[OF sum_list_filter_le] unfolding history_bounded_iff by blast
  moreover have "ib_limits (forget_pane_history pane ib) = ib_limits ib" by (simp add: forget_pane_history_def)
  ultimately show ?thesis unfolding history_bounded_iff sub by metis
qed

lemma hb_posts:
  "post_direct draws now r c ib = Some (ib', res) \<Longrightarrow> history_bounded ib \<Longrightarrow> history_bounded ib'"
  "post_agent_direct draws now r c ib = Some (ib', res) \<Longrightarrow> history_bounded ib \<Longrightarrow> history_bounded ib'"
  "post_reserved_reply draws now r c ib = Some (ib', res) \<Longrightarrow> history_bounded ib \<Longrightarrow> history_bounded ib'"
  "publish draws now sc topic c rs ib = Some (ib', pres) \<Longrightarrow> history_bounded ib \<Longrightarrow> history_bounded ib'"
  unfolding post_direct_def post_agent_direct_def post_reserved_reply_def publish_def
  by (auto elim!: when_admitted_cases dest: hb_insert_direct dest!: admitD
      simp: hb_expire history_bounded_trim Let_def admit_agent_direct_def split: option.splits sum.splits)

lemma ended_insert [simp]:
  "filter is_ended (ib_messages (inbox_insert now i kind addr rcp c body ib)) = filter is_ended (ib_messages ib)"
  by simp

lemma hb_offer:
  assumes "offer draws now sc pool ttl c rs ib = Some (ib', res)" "history_bounded ib"
  shows "history_bounded ib'"
  using assms(1) unfolding offer_def
proof (cases rule: when_admitted_cases)
  case (refused e)
  with assms(2) show ?thesis by (auto dest!: admitD simp: hb_expire)
next
  case (went t ib1 q)
  note adm = admitted_offer[OF went(1)]
  obtain ib2 i where reg: "register_id draws now (c_id c) ib1 = Some (ib2, i)" using went(2)
    by (auto split: option.splits)
  note same = register_id_fields[OF reg]
  let ?ib4 = "inbox_insert now i (Offer pool t) (AddrOffer (ib_deck ib2) sc pool) None c (c_body c)
      (record_rate now (c_from c) ib2)"
  have "history_bounded ?ib4"
    by (rule history_bounded_cong[OF _ _ assms(2)]) (simp_all add: same adm(1) del: inbox_insert_fields(6))
  from hb_assign[OF this, of now i rs] went(2) reg show ?thesis by (auto simp: Let_def split: prod.splits)
qed

lemma hb_run_op:
  assumes "run_op op ib = Some ib'" "history_bounded ib"
  shows "history_bounded ib'"
proof (cases op)
  case OpReserveReply
  with assms show ?thesis
    by (auto simp: reserve_reply_def split: sum.splits intro: history_bounded_cong[of _ ib])
next
  case (OpReserveDelegate now pane c n)
  with assms show ?thesis
    by (auto simp: reserve_delegate_def split: prod.splits sum.splits dest!: admitD intro: history_bounded_cong[of _ ib])
next
  case OpReleaseReply
  with assms show ?thesis by (auto intro: history_bounded_cong[of _ ib])
next
  case (OpAdmitAgentDirect now r c)
  with assms show ?thesis by (auto simp: admit_agent_direct_def hb_expire split: sum.splits)
next
  case (OpExited now pane agent)
  with assms show ?thesis by (auto simp: agent_exited_def history_bounded_trim)
qed (use assms in \<open>auto simp: hb_expire hb_assign hb_take hb_repeat hb_ack hb_requeue hb_settle hb_retire hb_tick
       hb_forget dest: hb_posts hb_offer\<close>)

lemma hb_reach: "inbox_reach deck l ib \<Longrightarrow> history_bounded ib"
proof (induction rule: inbox_reach.induct)
  case reach_new
  show ?case by (simp add: history_bounded_iff inbox_new_def terminal_count_def)
next
  case (reach_op ib op ib')
  then show ?case by (blast intro: hb_run_op)
next
  case (reach_drain ib)
  then show ?case by (auto intro: history_bounded_cong)
qed

text \<open>
  C33: the memory the history takes is bounded in every inbox a daemon can reach: at most
  \<^const>\<open>history_per_pane\<close> ended messages per pane, at most \<^const>\<open>max_history_messages\<close> of them
  deck-wide, with at most \<^const>\<open>max_history_bytes\<close> of body text.
\<close>

theorem history_stays_bounded:
  assumes "inbox_reach deck l ib"
  shows "terminal_count (ib_messages ib) h \<le> history_per_pane (ib_limits ib)
    \<and> length (filter (\<lambda>m. is_terminal (m_state m)) (ib_messages ib)) \<le> max_history_messages (ib_limits ib)
    \<and> (\<Sum>m\<leftarrow>filter (\<lambda>m. is_terminal (m_state m)) (ib_messages ib). length (m_body m))
        \<le> max_history_bytes (ib_limits ib)"
  using hb_reach[OF assms] by (simp_all add: history_bounded_iff flip: terminal_count_ended)

theorem history_stays_bounded_witness:
  "terminal_count (ib_messages sample_inbox) (Some ''p1'') \<le> history_per_pane (ib_limits sample_inbox)"
  using history_stays_bounded[OF sample_reach] by blast

section \<open>The posting rate of one agent\<close>

lemma recent_posts_later: "t \<le> t' \<Longrightarrow> recent_posts t' agent ib \<le> recent_posts t agent ib"
proof -
  assume le: "t \<le> t'"
  have "length (filter (\<lambda>x. t' - x < RATE_WINDOW) ts) \<le> length (filter (\<lambda>x. t - x < RATE_WINDOW) ts)" for ts
    by (induction ts) (use le in auto)
  then show ?thesis by (simp add: recent_posts_def split: option.split)
qed

lemma recent_posts_record:
  assumes "sender_agent_id from = Some agent"
  shows "recent_posts now agent (record_rate now from ib) = recent_posts now agent ib + 1"
  using assms by (simp add: recent_posts_def record_rate_def RATE_WINDOW_def from_secs_def split: option.split)

lemma recent_posts_cong: "ib_rate ib' = ib_rate ib \<Longrightarrow> recent_posts now agent ib' = recent_posts now agent ib"
  by (simp add: recent_posts_def)

lemma check_rate_ok:
  "sender_agent_id from = Some agent
   \<Longrightarrow> check_rate now from ib = Inr () \<longleftrightarrow> recent_posts now agent ib < rate_per_minute (ib_limits ib)"
  by (auto simp: check_rate_def)

lemma prune_keeps_recent: "recent_posts now agent (ib\<lparr>ib_rate := prune_rate now (ib_rate ib)\<rparr>) = recent_posts now agent ib"
proof -
  have *: "filter (\<lambda>t. now - t < RATE_WINDOW) (dropWhile (\<lambda>t. RATE_WINDOW \<le> now - t) ts)
      = filter (\<lambda>t. now - t < RATE_WINDOW) ts" for ts
    by (induction ts) auto
  show ?thesis
  proof (cases "ib_rate ib agent")
    case None
    then show ?thesis by (simp add: recent_posts_def prune_rate_def)
  next
    case (Some ts)
    then show ?thesis using *[of ts] by (auto simp: recent_posts_def prune_rate_def Let_def filter_empty_conv)
  qed
qed

text \<open>
  A message one agent sends another is accepted only while the agent is below its quota for the
  last minute, and is then counted, so at no later time do more than \<^const>\<open>rate_per_minute\<close> accepted
  posts lie within the last minute; a sender at its quota is refused with \<^const>\<open>RateLimited\<close> and
  nothing changes, and a post refused for another reason does not count.
\<close>

theorem agent_rate_limited:
  assumes "sender_agent_id (c_from c) = Some agent"
    and "post_agent_direct draws now r c ib = Some (ib', res)" "now \<le> t"
  shows "if rate_per_minute (ib_limits ib) \<le> recent_posts now agent ib
         then ib' = ib \<and> res = Inl (RateLimited (rate_per_minute (ib_limits ib)))
         else case res of
                Inl e \<Rightarrow> recent_posts now agent ib' = recent_posts now agent ib
              | Inr i \<Rightarrow> recent_posts now agent ib' = recent_posts now agent ib + 1
                         \<and> recent_posts t agent ib' \<le> rate_per_minute (ib_limits ib)"
proof (cases "rate_per_minute (ib_limits ib) \<le> recent_posts now agent ib")
  case True
  then show ?thesis
    using assms(1,2) by (auto simp: post_agent_direct_def admit_agent_direct_def when_admitted_def check_rate_def)
next
  case below: False
  from assms(2) have "case res of
      Inl e \<Rightarrow> recent_posts now agent ib' = recent_posts now agent ib
    | Inr i \<Rightarrow> recent_posts now agent ib' = recent_posts now agent ib + 1
               \<and> recent_posts t agent ib' \<le> rate_per_minute (ib_limits ib)"
    unfolding post_agent_direct_def
  proof (cases rule: when_admitted_cases)
    case (refused e)
    then show ?thesis
      using recent_posts_cong[of "expire_dedup now ib" ib now agent]
      by (auto simp: admit_agent_direct_def split: sum.splits dest!: admitD)
  next
    case (went a ib1 j)
    note adm = admitted_agent_direct[OF went(1)]
    have ib1: "ib1 = expire_dedup now ib" using admitted_reply(1)[OF admitted_direct(1)[OF adm(1)]] .
    have "recent_posts now agent ib' = recent_posts now agent (record_rate now (c_from c) ib1)"
      using insert_direct_counts(4)[OF went(2)] by (rule recent_posts_cong)
    also have "\<dots> = recent_posts now agent ib + 1"
      using recent_posts_record[OF assms(1)] recent_posts_cong[of ib1 ib now agent] by (simp add: ib1)
    finally have "recent_posts now agent ib' = recent_posts now agent ib + 1" .
    with below recent_posts_later[OF assms(3), of agent ib'] went(3) show ?thesis by simp
  qed
  with below show ?thesis by simp
qed

end
