(* ===== verification/Inbox_Theorems.thy ===== *)
theory Inbox_Theorems
  imports Inbox_Memory
begin

text \<open>
  What the inbox promises its callers, operation by operation: the invariant and the refinement of
  every call, that no message is lost, duplicates, minting, offers and claims, acknowledgements,
  deadlines, exits and publishing.
\<close>

section \<open>Every reachable inbox\<close>

lemma inbox_reach_limits: "inbox_reach deck l ib \<Longrightarrow> limits_ok l \<Longrightarrow> ib_limits ib = l \<and> ib_deck ib = deck"
proof (induction rule: inbox_reach.induct)
  case reach_new
  show ?case by (simp add: inbox_new_def)
next
  case (reach_op ib op ib')
  then show ?case using inbox_steps_limits[OF run_op_steps] reach_ok by blast
qed simp

text \<open>
  C1: in every inbox a daemon can reach, whatever the order of the calls, each message is well
  formed. A claim is held on an offer by its recipient; only an offer may be without a recipient; an
  offer held and not yet fetched has a deadline and nothing else has one; an offer's deliveries
  count its holders, are at most \<^const>\<open>max_deliver\<close>, and no holder gets it twice; what is stored
  is bounded; a message's key is unique; the dedup window matches its recorded states.
\<close>

theorem inbox_wellformed:
  assumes "limits_ok l" "inbox_reach deck l ib"
  shows "inbox_ok ib \<and> ib_limits ib = l \<and> ib_deck ib = deck"
  using assms by (simp add: reach_ok inbox_reach_limits)

definition sample_offer_op :: inbox_op where
  "sample_offer_op =
     OpOffer [] 0 (Orchestration ''tok'') ''build'' None (sample_content (Some ''m-deck0000-0000000000000002''))
       [sample_rcp, recipient_bound ''p2'' ''a2'']"

definition sample_offered :: inbox where
  "sample_offered = the (run_op sample_offer_op sample_inbox)"

lemma sample_offered_run: "run_op sample_offer_op sample_inbox = Some sample_offered"
proof -
  have "run_op sample_offer_op sample_inbox \<noteq> None" by code_simp
  then show ?thesis by (auto simp: sample_offered_def)
qed

lemma sample_offered_reach: "inbox_reach ''deck0000'' sample_limits sample_offered"
  by (rule reach_op[OF sample_reach _ sample_offered_run]) (simp add: sample_offer_op_def)

lemma sample_offered_ok: "inbox_ok sample_offered"
  using reach_ok[OF sample_offered_reach sample_limits_ok] .

theorem inbox_wellformed_witness:
  "inbox_ok sample_offered \<and> ib_limits sample_offered = sample_limits \<and> length (ib_messages sample_offered) = 1"
proof -
  have "length (ib_messages sample_offered) = 1" by code_simp
  with inbox_wellformed[OF sample_limits_ok sample_offered_reach] show ?thesis by simp
qed

text \<open>
  C9: every call of the inbox's interface is a sequence of the elementary steps: a message moves only
  along \<^const>\<open>lifecycle\<close>, into an inbox with room, new messages come in under a fresh key, and
  everything else is bookkeeping. In particular a message that ended moves again only when it ran
  out of deliveries and is acknowledged after all.
\<close>

theorem calls_refine_lifecycle:
  assumes "limits_ok l" "inbox_reach deck l ib" "op_ok op" "run_op op ib = Some ib'"
  shows "inbox_step\<^sup>*\<^sup>* ib ib'"
  using run_op_steps[OF assms(4,3) reach_ok[OF assms(2,1)]] .

theorem calls_refine_lifecycle_witness: "inbox_step\<^sup>*\<^sup>* sample_inbox sample_offered"
  by (rule calls_refine_lifecycle[OF sample_limits_ok sample_reach _ sample_offered_run])
     (simp add: sample_offer_op_def)

text \<open>
  C2: no live message is lost silently. After any call, a message that was live is still held and
  live under the same key with the same body, or an event not yet drained says that it was
  acknowledged or became undeliverable.
\<close>

theorem live_never_lost:
  assumes "limits_ok l" "inbox_reach deck l ib" "op_ok op" "run_op op ib = Some ib'"
    and "m \<in> set (ib_messages ib)" "is_live m"
  shows "(\<exists>m' \<in> set (ib_messages ib'). is_live m' \<and> msg_key m' = msg_key m \<and> m_body m' = m_body m)
       \<or> (\<exists>e \<in> set (ib_events ib'). event_key e = msg_key m \<and> event_ends e)"
  using steps_accounted[OF run_op_steps[OF assms(4,3) reach_ok[OF assms(2,1)]] live_accounted[OF assms(5,6)]]
  by (simp add: accounted_def)

definition sample_exited :: inbox where
  "sample_exited = the (run_op (OpExited 7 ''p1'' ''a1'') sample_offered)"

theorem live_never_lost_witness:
  "(\<exists>m' \<in> set (ib_messages sample_exited). is_live m' \<and> m_body m' = ''body'')
   \<or> (\<exists>e \<in> set (ib_events sample_exited). event_ends e)"
proof -
  have m: "ib_messages sample_offered ! 0 \<in> set (ib_messages sample_offered)"
    "is_live (ib_messages sample_offered ! 0)" "m_body (ib_messages sample_offered ! 0) = ''body''"
    by code_simp+
  have run: "run_op (OpExited 7 ''p1'' ''a1'') sample_offered = Some sample_exited" by (simp add: sample_exited_def)
  from live_never_lost[OF sample_limits_ok sample_offered_reach _ run m(1,2)] m(3) show ?thesis by auto
qed

section \<open>Posting\<close>

lemma check_id_duplicate:
  assumes "dedup_ok ib"
    and "(\<exists>at. (at, i) \<in> set (ib_dedup ib) \<and> now - at < dedup_window (ib_limits ib))
         \<or> (\<exists>m \<in> set (ib_messages ib). m_id m = i)"
  shows "\<exists>st. check_id (Some i) (expire_dedup now ib) = Inl (Duplicate i (Some st))"
proof (cases "find (\<lambda>m. m_id m = i) (ib_messages ib)")
  case None
  then have "\<nexists>m. m \<in> set (ib_messages ib) \<and> m_id m = i" by (auto simp: find_None_iff)
  with assms(2) obtain at where at: "(at, i) \<in> set (ib_dedup ib)" "now - at < dedup_window (ib_limits ib)" by blast
  from young_id_known[OF assms(1) at] None show ?thesis by (auto simp: check_id_def)
next
  case (Some m)
  then show ?thesis by (simp add: check_id_def)
qed

text \<open>
  C21: an id is used at most once per dedup window. A post, a reserved answer or a publish of the deck under an id
  that is still held, or was registered less than \<^const>\<open>dedup_window\<close> ago and not pushed out, is
  refused as a duplicate and posts nothing.
\<close>

theorem duplicate_refused:
  assumes "inbox_ok ib" "c_id c = Some i" "length (c_body c) \<le> max_body_bytes (ib_limits ib)"
    and "(\<exists>at. (at, i) \<in> set (ib_dedup ib) \<and> now - at < dedup_window (ib_limits ib))
         \<or> (\<exists>m \<in> set (ib_messages ib). m_id m = i)"
  shows "\<exists>st. post_direct draws now r c ib = Some (expire_dedup now ib, Inl (Duplicate i (Some st)))
            \<and> post_reserved_reply draws now r c ib = Some (expire_dedup now ib, Inl (Duplicate i (Some st)))
            \<and> (sender_agent_id (c_from c) = None
                \<longrightarrow> publish draws now sc topic c rs ib = Some (expire_dedup now ib, Inl (Duplicate i (Some st))))"
proof -
  obtain st where st: "check_id (Some i) (expire_dedup now ib) = Inl (Duplicate i (Some st))"
    using check_id_duplicate[OF _ assms(4)] assms(1) by (auto simp: inbox_ok_def)
  have "check_body c (expire_dedup now ib) = Inr ()" using assms(3) by (simp add: check_body_ok)
  with st assms(2) show ?thesis
    by (auto simp: post_direct_def admit_direct_def admit_reply_def post_reserved_reply_def admit_reserved_reply_def
        publish_def admit_publish_def check_rate_def when_admitted_def Let_def)
qed

theorem duplicate_refused_witness:
  "\<exists>st. post_direct [] 9 sample_rcp (sample_content (Some ''m-deck0000-0000000000000002'')) sample_offered
     = Some (expire_dedup 9 sample_offered, Inl (Duplicate ''m-deck0000-0000000000000002'' (Some st)))"
proof -
  have held: "\<exists>m \<in> set (ib_messages sample_offered). m_id m = ''m-deck0000-0000000000000002''" by code_simp
  have body: "length (c_body (sample_content (Some ''m-deck0000-0000000000000002''))) \<le> max_body_bytes (ib_limits sample_offered)"
    by code_simp
  have "c_id (sample_content (Some ''m-deck0000-0000000000000002'')) = Some ''m-deck0000-0000000000000002''"
    by (simp add: sample_content_def)
  from duplicate_refused[OF sample_offered_ok this body disjI2[OF held]] show ?thesis by blast
qed

lemma trim_keeps_queued:
  "m \<in> set (ib_messages ib) \<Longrightarrow> is_live m \<Longrightarrow> m \<in> set (ib_messages (trim_history now ib))"
  by (simp add: trimmed.live_member_trim)

lemma insert_direct_message:
  assumes "insert_direct draws now r c ib = Some (ib', i)"
  shows "\<exists>m \<in> set (ib_messages ib'). m_id m = i \<and> m_kind m = Direct \<and> m_recipient m = Some r
           \<and> m_state m = Queued \<and> m_body m = c_body c"
proof -
  obtain ib1 where ib': "ib' = trim_history now (inbox_insert now i Direct
      (AddrDirect (ib_deck ib1) (rcp_pane_id r)) (Some r) c (c_body c) ib1)"
    using assms by (auto simp: insert_direct_def split: option.splits)
  let ?m = "message_transition now Queued
      (new_message now i Direct (AddrDirect (ib_deck ib1) (rcp_pane_id r)) (Some r) c (c_body c))"
  have "?m \<in> set (ib_messages ib')" unfolding ib' by (rule trim_keeps_queued) (simp_all add: is_live_def)
  then show ?thesis by (intro bexI[of _ ?m]) (simp_all add: new_message_def)
qed

lemma register_id_wanted: "register_id draws now (Some i) ib = Some (ib', j) \<Longrightarrow> j = i"
  by (auto simp: register_id_def Let_def split: prod.splits)

text \<open>
  A direct post always answers: with more random draws than there are messages and ids held, the
  minting loop finds a fresh id. An accepted message is queued for its recipient with its body
  unchanged, under an id that nothing held and that the window now knows.
\<close>

theorem post_direct_answers:
  assumes "inbox_ok ib" "draws_ok draws" "length (ib_messages ib) + length (ib_dedup ib) < length draws"
  shows "\<exists>ib' res. post_direct draws now r c ib = Some (ib', res)
     \<and> (case res of
          Inl e \<Rightarrow> ib' = expire_dedup now ib
        | Inr i \<Rightarrow> id_is_fresh (expire_dedup now ib) i \<and> (now, i) \<in> set (ib_dedup ib')
            \<and> (\<exists>m \<in> set (ib_messages ib'). m_id m = i \<and> m_kind m = Direct \<and> m_recipient m = Some r
                  \<and> m_state m = Queued \<and> m_body m = c_body c))"
proof -
  obtain v where v: "admit_direct now r c ib = (expire_dedup now ib, v)"
    using admit_inbox(2)[of now r c ib] by (metis prod.collapse)
  show ?thesis
  proof (cases v)
    case (Inl e)
    with v show ?thesis by (simp add: post_direct_def when_admitted_def)
  next
    case (Inr u)
    let ?ib1 = "expire_dedup now ib"
    note adm = admitted_reply[OF admitted_direct(1)[OF v[unfolded Inr]]]
    have "dedup_ok ?ib1" "length (ib_messages ?ib1) + length (ib_dedup ?ib1) < length draws"
      using assms(1,3) expire_dedup_length[of now ib] by (simp_all add: dedup_ok_expire inbox_ok_def)
    from register_id_returns[OF this(1) assms(2) this(2), of now "c_id c"] obtain ib2 i where
      reg: "register_id draws now (c_id c) ?ib1 = Some (ib2, i)" by blast
    then obtain ib' where ins: "insert_direct draws now r c ?ib1 = Some (ib', i)" "ib_dedup ib' = ib_dedup ib2"
      by (simp add: insert_direct_def)
    have "0 < dedup_max_ids (ib_limits ?ib1)" using assms(1) by (simp add: inbox_ok_def limits_ok_def)
    from registered_in_window[OF reg this] register_id_fresh(1)[OF adm(3) reg] insert_direct_message[OF ins(1)] ins
    show ?thesis using v Inr by (auto simp: post_direct_def when_admitted_def)
  qed
qed

section \<open>Publishing\<close>

lemma insert_copies_messages:
  "ib_messages (insert_copies now i addr topic c room ib)
     = ib_messages ib @ map (\<lambda>r. message_transition now Queued
         (new_message now i (Publish topic) addr (Some r) c (c_body c))) room"
proof (induction room arbitrary: ib)
  case Nil
  show ?case by (simp add: insert_copies_def)
next
  case (Cons r room)
  have "insert_copies now i addr topic c (r # room) ib
      = insert_copies now i addr topic c room (inbox_insert now i (Publish topic) addr (Some r) c (c_body c) ib)"
    by (simp add: insert_copies_def)
  then show ?case by (simp add: Cons)
qed

text \<open>
  A publish splits its recipients in two: each one whose inbox has room gets its own queued copy,
  with the body unchanged, under the one id, and each one whose inbox is full is named in the
  answer. None is left out, and the answer counts the copies.
\<close>

theorem publish_splits_recipients:
  assumes "publish draws now sc topic c rs ib = Some (ib', Inr p)"
  shows "pub_delivered_to p + length (pub_refused_full p) = length rs
     \<and> (\<forall>r \<in> set rs.
          if has_room_for (rcp_pane_id r) ib
          then \<exists>m \<in> set (ib_messages ib'). m_id m = pub_id p \<and> m_kind m = Publish topic \<and> m_recipient m = Some r
                 \<and> m_state m = Queued \<and> m_body m = c_body c
          else rcp_pane_id r \<in> set (pub_refused_full p))"
  using assms
proof (cases rule: publish_insert)
  case (1 ib1 ib2)
  have room: "has_room_for pane ib1 = has_room_for pane ib" for pane by (simp add: 1(1) has_room_for_def)
  have "\<exists>m \<in> set (ib_messages ib'). m_id m = pub_id p \<and> m_kind m = Publish topic \<and> m_recipient m = Some r
          \<and> m_state m = Queued \<and> m_body m = c_body c"
    if "r \<in> set rs" "has_room_for (rcp_pane_id r) ib" for r
  proof -
    let ?m = "message_transition now Queued
      (new_message now (pub_id p) (Publish topic) (AddrTopic (ib_deck ib2) sc topic) (Some r) c (c_body c))"
    have "?m \<in> set (ib_messages ib')" unfolding 1(6)
      by (rule trim_keeps_queued) (use that room in \<open>auto simp: is_live_def insert_copies_messages\<close>)
    then show ?thesis by (intro bexI[of _ ?m]) (simp_all add: new_message_def)
  qed
  moreover have "rcp_pane_id r \<in> set (pub_refused_full p)" if "r \<in> set rs" "\<not> has_room_for (rcp_pane_id r) ib" for r
    using that by (auto simp: 1(8) room)
  ultimately show ?thesis
    by (auto simp: 1(7,8) sum_length_filter_compl)
qed

end
