(* ===== verification/Inbox_Delivery.thy ===== *)
theory Inbox_Delivery
  imports Inbox_Theorems
begin

text \<open>
  Handing messages out and settling them (\<^verbatim>\<open>src/src/inbox.rs\<close>): offers and their assignment, claims,
  receipts, acknowledgements, deadlines and the exit of an agent.
\<close>

section \<open>Offers\<close>

text \<open>
  An offer goes to the first candidate, in the order given, that has not held it before and whose
  inbox has room; it then waits for that holder with a deadline. When no offer of that id waits in
  its pool, or no candidate is eligible, nothing changes.
\<close>

theorem assign_offer_first_eligible:
  assumes "assign_offer now i rs ib = (ib', chosen)"
  shows "case chosen of
      None \<Rightarrow> ib' = ib
        \<and> ((\<forall>m \<in> set (ib_messages ib). m_id m = i \<longrightarrow> \<not> unassigned_offer m)
           \<or> (\<exists>m \<in> set (ib_messages ib). m_id m = i \<and> unassigned_offer m \<and> (\<forall>r \<in> set rs. \<not> eligible ib m r)))
    | Some c \<Rightarrow> \<exists>before after k. rs = before @ c # after \<and> k < length (ib_messages ib)
        \<and> m_id (ib_messages ib ! k) = i \<and> unassigned_offer (ib_messages ib ! k)
        \<and> eligible ib (ib_messages ib ! k) c \<and> (\<forall>r \<in> set before. \<not> eligible ib (ib_messages ib ! k) r)
        \<and> (\<forall>j < length (ib_messages ib). j \<noteq> k \<longrightarrow> ib_messages ib' ! j = ib_messages ib ! j)
        \<and> m_recipient (ib_messages ib' ! k) = Some c
        \<and> m_state (ib_messages ib' ! k) = Queued
        \<and> m_assign_deadline (ib_messages ib' ! k) = Some (now + offer_assign_wait (ib_limits ib))"
proof (cases "position (\<lambda>m. m_id m = i \<and> unassigned_offer m) (ib_messages ib)")
  case None
  with assms show ?thesis by (auto simp: assign_offer_def position_None_iff)
next
  case (Some k)
  note pos = position_SomeD[OF Some]
  let ?m = "ib_messages ib ! k"
  show ?thesis
  proof (cases "find (eligible ib ?m) rs")
    case None
    with assms Some pos show ?thesis by (auto simp: assign_offer_def find_None_iff)
  next
    case found: (Some c)
    then obtain n where n: "n < length rs" "eligible ib ?m (rs ! n)" "c = rs ! n" "\<forall>j<n. \<not> eligible ib ?m (rs ! j)"
      by (auto simp: find_Some_iff)
    have split: "rs = take n rs @ c # drop (Suc n) rs" using n by (simp add: id_take_nth_drop)
    have skipped: "\<forall>r \<in> set (take n rs). \<not> eligible ib ?m r" using n by (auto simp: in_set_conv_nth)
    let ?m' = "message_transition now Queued (?m\<lparr>m_recipient := Some c, m_deliveries := m_deliveries ?m + 1,
        m_assign_deadline := Some (now + offer_assign_wait (ib_limits ib))\<rparr>)"
    have res: "chosen = Some c" "ib_messages ib' = (ib_messages ib)[k := ?m']"
      using assms Some found pos by (auto simp: assign_offer_def Let_def)
    show ?thesis unfolding res(1) option.case(2)
      by (intro exI[of _ "take n rs"] exI[of _ "drop (Suc n) rs"] exI[of _ k] conjI)
         (use split skipped pos n(2,3) in \<open>simp_all add: res(2)\<close>)
  qed
qed

section \<open>Claims\<close>

lemma settle_cases:
  assumes "claimed_by i pane agent ib = Inr k"
  obtains (expired) who at expires where "m_state (ib_messages ib ! k) = Claimed who at expires" "expires \<le> now"
      "complete now i pane agent ib = (trim_history now (return_offer k now ClaimExpired ib), ClaimOutExpired)"
      "release now i pane agent ib = (trim_history now (return_offer k now ClaimExpired ib), ClaimOutExpired)"
  | (held) who at expires where "m_state (ib_messages ib ! k) = Claimed who at expires" "now < expires"
      "complete now i pane agent ib
         = (trim_history now (transition k now (Acknowledged now OfferCompleted) ib), ClaimCompleted)"
      "release now i pane agent ib = (trim_history now (return_offer k now Released ib), ClaimReleased)"
proof -
  obtain who t e where st: "m_state (ib_messages ib ! k) = Claimed who t e"
    using claimed_by_InrD(5)[OF assms] by blast
  show ?thesis
  proof (cases "e \<le> now")
    case True
    with st assms show ?thesis
      by (intro expired[of who t e]) (simp_all add: complete_def release_def expire_claim_if_due_def claim_due_def)
  next
    case False
    with st assms show ?thesis
      by (intro held[of who t e]) (simp_all add: complete_def release_def expire_claim_if_due_def claim_due_def)
  qed
qed

lemma tick_body_claim:
  "m_state (ib_messages ib ! k) = Claimed who at expires \<Longrightarrow> expires \<le> now
   \<Longrightarrow> tick_body now k ib = return_offer k now ClaimExpired ib"
  by (simp add: tick_body_def Let_def claim_due_def)

text \<open>
  A claim is settled only by its claimant and only until it expires. Whoever else asks changes
  nothing. Up to the expiry, completing ends the offer and releasing returns it to its pool; from
  the expiry on, both return it exactly as the ticker would have.
\<close>

theorem claim_honoured_until_expiry:
  assumes "complete now i pane agent ib = (ibc, outc)" "release now i pane agent ib = (ibr, outr)"
  shows "(\<exists>k who at expires. k < length (ib_messages ib) \<and> m_id (ib_messages ib ! k) = i
            \<and> is_offer (ib_messages ib ! k)
            \<and> m_state (ib_messages ib ! k) = Claimed who at expires \<and> admits who pane agent
            \<and> (if now < expires
               then outc = ClaimCompleted \<and> outr = ClaimReleased
                    \<and> ibc = trim_history now (transition k now (Acknowledged now OfferCompleted) ib)
                    \<and> ibr = trim_history now (return_offer k now Released ib)
               else outc = ClaimOutExpired \<and> outr = ClaimOutExpired
                    \<and> ibc = trim_history now (tick_body now k ib) \<and> ibr = ibc))
         \<or> ibc = ib \<and> ibr = ib \<and> outc = outr \<and> outc \<in> {NotClaimant, ClaimUnknown}"
proof (cases "claimed_by i pane agent ib")
  case (Inl outcome)
  then have "outcome \<in> {NotClaimant, ClaimUnknown}"
    by (auto simp: claimed_by_def split: option.splits message_state.splits if_splits)
  with Inl assms show ?thesis by (simp add: complete_def release_def)
next
  case (Inr k)
  note at = claimed_by_InrD[OF Inr]
  obtain who t e where st: "m_state (ib_messages ib ! k) = Claimed who t e" "admits who pane agent" using at(5) by blast
  have "if now < e
        then outc = ClaimCompleted \<and> outr = ClaimReleased
             \<and> ibc = trim_history now (transition k now (Acknowledged now OfferCompleted) ib)
             \<and> ibr = trim_history now (return_offer k now Released ib)
        else outc = ClaimOutExpired \<and> outr = ClaimOutExpired
             \<and> ibc = trim_history now (tick_body now k ib) \<and> ibr = ibc"
    using Inr
  proof (cases rule: settle_cases[where now = now])
    case (expired who' t' e')
    with assms st show ?thesis by (auto simp: tick_body_claim)
  next
    case (held who' t' e')
    with assms st show ?thesis by auto
  qed
  with at st show ?thesis by blast
qed

definition sample_claimed :: inbox where
  "sample_claimed = fst (ack 5 ''m-deck0000-0000000000000002'' ''p1'' ''a1'' Explicit sample_offered)"

section \<open>Receipts and acknowledgements\<close>

lemma position_update_same:
  "i < length xs \<Longrightarrow> P y = P (xs ! i) \<Longrightarrow> position P (xs[i := y]) = position P xs"
proof (induction xs arbitrary: i)
  case Nil
  then show ?case by simp
next
  case (Cons x xs)
  then show ?case by (cases i) auto
qed

lemma for_agent_transition [simp]: "for_agent i pane agent (message_transition now st m) = for_agent i pane agent m"
  by (simp add: for_agent_def)

text \<open>
  A message is handed out once. Taking a queued message answers it as fetched, with one more
  delivery counted (for an offer the assignment already counted), and no other taker gets it after
  that while it stays fetched; a message that is not queued is never handed out.
\<close>

theorem take_receipt_exclusive:
  assumes "take_receipt now i pane agent who ib = (ib', Some m)"
  shows "\<exists>k. find_for i pane agent ib = Some k \<and> m_state (ib_messages ib ! k) = Queued
     \<and> m_state m = Fetched who now \<and> m_body m = m_body (ib_messages ib ! k)
     \<and> m_deliveries m = m_deliveries (ib_messages ib ! k) + (if is_offer m then 0 else 1)
     \<and> state_for i pane agent ib' = Some (Fetched who now)
     \<and> take_receipt later i pane agent who' ib' = (ib', None)"
proof -
  obtain k where k: "find_for i pane agent ib = Some k" "m_state (ib_messages ib ! k) = Queued"
    using assms by (auto simp: take_receipt_def Let_def split: option.splits if_splits)
  note at = find_for_SomeD[OF k(1)]
  let ?m0 = "if is_offer (ib_messages ib ! k) then ib_messages ib ! k
    else (ib_messages ib ! k)\<lparr>m_deliveries := m_deliveries (ib_messages ib ! k) + 1\<rparr>"
  let ?m' = "message_transition now (Fetched who now) ?m0"
  have ib': "ib_messages ib' = (ib_messages ib)[k := ?m']" and m: "m = ?m'"
    using assms k at(1) by (auto simp: take_receipt_def Let_def)
  have "for_agent i pane agent ?m' = for_agent i pane agent (ib_messages ib ! k)" by (simp add: for_agent_def)
  then have "find_for i pane agent ib' = Some k"
    using k(1) at(1) position_update_same[of k "ib_messages ib" "for_agent i pane agent" ?m']
    by (simp add: find_for_def ib')
  then show ?thesis using k at(1) m by (simp add: state_for_def take_receipt_def ib')
qed

text \<open>
  An acknowledgement changes the inbox only for the agent a message was addressed to, and only
  where there is something to acknowledge: a waiting or handed-out message is acknowledged, or
  claimed when it is an offer, and a message that ran out of deliveries is acknowledged late. A wrong
  agent, an unknown id, a repeat, a standing claim or any other end leaves the inbox as it was.
\<close>

theorem ack_changes:
  assumes "ack now i pane agent how ib = (ib', out)"
  shows "case find_for i pane agent ib of
      None \<Rightarrow> ib' = ib \<and> (out = AckWrongAgent \<or> out = AckUnknown)
    | Some k \<Rightarrow>
        (let m = ib_messages ib ! k; acked = trim_history now (transition k now (Acknowledged now how) ib)
         in case m_state m of
              Acknowledged _ _ \<Rightarrow> ib' = ib \<and> out = AckAlreadyAcknowledged
            | Undeliverable _ MaxDeliver \<Rightarrow>
                (if is_offer m then ib' = ib \<and> out = AckUndeliverable else ib' = acked \<and> out = AckAcknowledged)
            | Undeliverable _ _ \<Rightarrow> ib' = ib \<and> out = AckUndeliverable
            | Claimed _ _ expires \<Rightarrow> ib' = ib \<and> out = AckClaimed (millis (expires - now))
            | _ \<Rightarrow>
                (if is_offer m
                 then (\<exists>ttl r. m_recipient m = Some r \<and> admits r pane agent
                        \<and> ib' = transition k now (Claimed r now (now + ttl)) ib \<and> out = AckClaimed (millis ttl))
                 else ib' = acked \<and> out = AckAcknowledged))"
proof (cases "find_for i pane agent ib")
  case None
  with assms show ?thesis by (auto simp: ack_def split: if_splits)
next
  case (Some k)
  obtain r where r: "m_recipient (ib_messages ib ! k) = Some r" "admits r pane agent"
    using find_for_SomeD(3)[OF Some] by blast
  show ?thesis
  proof (cases "m_state (ib_messages ib ! k)")
    case (Undeliverable t reason)
    with assms Some show ?thesis by (cases reason) (auto simp: ack_def Let_def split: if_splits)
  qed (use assms Some r in \<open>auto simp: ack_def Let_def is_offer_def split: message_kind.splits\<close>)
qed

end
