(* ===== verification/Inbox_Time.thy ===== *)
theory Inbox_Time
  imports Inbox_Delivery
begin

text \<open>
  What time and exits do to the inbox (\<^verbatim>\<open>src/src/inbox.rs\<close>): \<^verbatim>\<open>tick\<close> against \<^verbatim>\<open>next_deadline\<close>,
  \<^verbatim>\<open>agent_exited\<close>, and the return of an offer by \<^verbatim>\<open>requeue_receipt\<close>.
\<close>

lemma return_offer_messages:
  "ib_messages (return_offer i now cause ib) = (ib_messages ib)
     [i := message_transition now
        (if max_deliver (ib_limits ib) \<le> m_deliveries (ib_messages ib ! i) then Undeliverable now MaxDeliver
         else Queued) (unassign (ib_messages ib ! i))]"
proof (cases "i < length (ib_messages ib)")
  case True
  then show ?thesis by (simp add: return_offer_def Let_def)
next
  case False
  then show ?thesis by (simp add: return_offer_def Let_def list_update_beyond)
qed

section \<open>Loops over every message\<close>

text \<open>
  Both loops visit every index once, from the end, with a body that only touches its own index: an
  index keeps what its own visit made of it.
\<close>

locale index_loop =
  fixes body :: "nat \<Rightarrow> inbox \<Rightarrow> inbox"
    and settled :: "message \<Rightarrow> bool"
    and kept :: "message \<Rightarrow> bool"
  assumes same_length: "length (ib_messages (body i ib)) = length (ib_messages ib)"
    and own_index: "j \<noteq> i \<Longrightarrow> j < length (ib_messages ib) \<Longrightarrow> ib_messages (body i ib) ! j = ib_messages ib ! j"
    and settles: "i < length (ib_messages ib) \<Longrightarrow> settled (ib_messages (body i ib) ! i)"
    and keeps: "i < length (ib_messages ib) \<Longrightarrow> kept (ib_messages ib ! i)
      \<Longrightarrow> ib_messages (body i ib) ! i = ib_messages ib ! i"
begin

lemma loop_settles:
  "j < length (ib_messages ib) \<Longrightarrow> settled (ib_messages (down_from body (length (ib_messages ib)) ib) ! j)"
proof -
  let ?n = "length (ib_messages ib)"
  have "length (ib_messages (down_from body ?n ib)) = ?n
      \<and> (\<forall>j. 0 \<le> j \<and> j < ?n \<longrightarrow> settled (ib_messages (down_from body ?n ib) ! j))"
  proof (rule down_from_rule[where J = "\<lambda>k s. length (ib_messages s) = ?n
        \<and> (\<forall>j. k \<le> j \<and> j < ?n \<longrightarrow> settled (ib_messages s ! j))"])
    fix i and s :: inbox assume J: "length (ib_messages s) = ?n \<and> (\<forall>j. Suc i \<le> j \<and> j < ?n \<longrightarrow> settled (ib_messages s ! j))" "i < ?n"
    have "settled (ib_messages (body i s) ! j)" if "i \<le> j" "j < ?n" for j
      using J that settles[of i s] own_index[of j i s] by (cases "j = i") auto
    with J show "length (ib_messages (body i s)) = ?n
        \<and> (\<forall>j. i \<le> j \<and> j < ?n \<longrightarrow> settled (ib_messages (body i s) ! j))" by (simp add: same_length)
  qed auto
  then show "j < ?n \<Longrightarrow> settled (ib_messages (down_from body ?n ib) ! j)" by simp
qed

lemma loop_length: "length (ib_messages (down_from body n ib)) = length (ib_messages ib)"
  by (rule down_from_inv[where I = "\<lambda>s. length (ib_messages s) = length (ib_messages ib)"]) (simp_all add: same_length)

lemma loop_all_settled: "m \<in> set (ib_messages (down_from body (length (ib_messages ib)) ib)) \<Longrightarrow> settled m"
  using loop_settles loop_length by (metis in_set_conv_nth)

lemma loop_keeps:
  assumes "j < length (ib_messages ib)" "kept (ib_messages ib ! j)"
  shows "ib_messages (down_from body (length (ib_messages ib)) ib) ! j = ib_messages ib ! j"
proof -
  have "length (ib_messages (down_from body (length (ib_messages ib)) ib)) = length (ib_messages ib)
      \<and> ib_messages (down_from body (length (ib_messages ib)) ib) ! j = ib_messages ib ! j"
  proof (rule down_from_inv)
    fix i and s :: inbox assume "length (ib_messages s) = length (ib_messages ib) \<and> ib_messages s ! j = ib_messages ib ! j"
      "i < length (ib_messages ib)"
    then show "length (ib_messages (body i s)) = length (ib_messages ib) \<and> ib_messages (body i s) ! j = ib_messages ib ! j"
      using assms keeps[of i s] own_index[of j i s] by (cases "j = i") (auto simp: same_length)
  qed simp
  then show ?thesis ..
qed

end

definition due :: "instant \<Rightarrow> message \<Rightarrow> bool" where
  "due now m \<longleftrightarrow> claim_due now m \<or> assignment_due now m"

interpretation ticking: index_loop "tick_body now" "\<lambda>m. \<not> due now m" "\<lambda>m. \<not> due now m"
  by unfold_locales
     (auto simp: tick_body_def Let_def return_offer_messages due_def claim_due_def assignment_due_def)

interpretation exiting: index_loop "agent_exited_body now pane agent"
    "\<lambda>m. \<not> (is_live m \<and> bound_to pane agent m)" "\<lambda>m. \<not> (is_live m \<and> bound_to pane agent m)"
  by unfold_locales
     (auto simp: agent_exited_body_def Let_def return_offer_messages is_live_def bound_to_def)

section \<open>Deadlines\<close>

lemma message_deadline_due: "due now m \<longleftrightarrow> (\<exists>d. message_deadline m = Some d \<and> d \<le> now)"
  by (cases "m_state m")
     (auto simp: due_def claim_due_def assignment_due_def message_deadline_def split: option.splits)

lemma fold_min: "fold min ds (d :: nat) = Min (insert d (set ds))"
proof (induction ds arbitrary: d)
  case Nil
  show ?case by simp
next
  case (Cons x ds)
  have "fold min (x # ds) d = Min (insert (min x d) (set ds))" by (simp add: Cons.IH)
  also have "\<dots> = Min (insert d (set (x # ds)))" by (cases "ds = []") (auto simp: min.assoc min.commute min.left_commute)
  finally show ?case .
qed

lemma set_map_filter: "set (List.map_filter f xs) = {y. \<exists>x \<in> set xs. f x = Some y}"
  by (induction xs) (auto simp: List.map_filter_simps split: option.splits)

lemma next_deadline_min:
  "next_deadline ib = Some d \<longleftrightarrow>
     (\<exists>m \<in> set (ib_messages ib). message_deadline m = Some d)
     \<and> (\<forall>m \<in> set (ib_messages ib). \<forall>d'. message_deadline m = Some d' \<longrightarrow> d \<le> d')"
proof (cases "List.map_filter message_deadline (ib_messages ib)")
  case Nil
  then have "{y. \<exists>x \<in> set (ib_messages ib). message_deadline x = Some y} = {}"
    using set_map_filter[of message_deadline "ib_messages ib"] by simp
  with Nil show ?thesis by (auto simp: next_deadline_def)
next
  case (Cons x xs)
  have set: "{y. \<exists>m \<in> set (ib_messages ib). message_deadline m = Some y} = insert x (set xs)"
    using Cons set_map_filter[of message_deadline "ib_messages ib"] by simp
  have "next_deadline ib = Some d \<longleftrightarrow> d = Min (insert x (set xs))"
    using Cons by (auto simp: next_deadline_def fold_min)
  also have "\<dots> \<longleftrightarrow> d \<in> insert x (set xs) \<and> (\<forall>d' \<in> insert x (set xs). d \<le> d')"
    by (metis Min_eqI Min_in Min_le finite_insert finite_set insert_not_empty)
  finally show ?thesis unfolding set[symmetric] by auto
qed

lemma next_deadline_None: "next_deadline ib = None \<longleftrightarrow> (\<forall>m \<in> set (ib_messages ib). message_deadline m = None)"
proof -
  have "next_deadline ib = None \<longleftrightarrow> set (List.map_filter message_deadline (ib_messages ib)) = {}"
    by (simp add: next_deadline_def split: list.split)
  also have "\<dots> \<longleftrightarrow> (\<forall>m \<in> set (ib_messages ib). message_deadline m = None)"
    unfolding set_map_filter using not_None_eq[where 'a = nat] by fastforce
  finally show ?thesis .
qed

lemma next_deadline_due:
  "(\<exists>m \<in> set (ib_messages ib). due t m) = (case next_deadline ib of None \<Rightarrow> False | Some d \<Rightarrow> d \<le> t)"
proof (cases "next_deadline ib")
  case None
  with next_deadline_None[of ib] show ?thesis by (auto simp: message_deadline_due)
next
  case (Some d)
  note min = Some[unfolded next_deadline_min]
  show ?thesis unfolding Some option.case(2) message_deadline_due using min by (meson order_trans)
qed

lemma trim_history_deadline:
  "m \<in> set (ib_messages (trim_history now ib)) \<Longrightarrow> \<exists>m' \<in> set (ib_messages ib). message_deadline m' = message_deadline m"
proof -
  assume "m \<in> set (ib_messages (trim_history now ib))"
  then obtain m' where "m' \<in> set (ib_messages ib)" "m = drop_old_body now (history_body_ttl (ib_limits ib)) m'"
    using trim_history_set[of now ib] by blast
  moreover have "message_deadline (drop_old_body now ttl m') = message_deadline m'" for ttl
    by (cases "m_state m'") (simp_all add: message_deadline_def)
  ultimately show ?thesis by metis
qed

text \<open>
  C34: the ticker does its work and can sleep. After \<^const>\<open>tick\<close> at some instant nothing is due at
  that instant any more, so the next deadline, when there is one, lies strictly later; and waking at
  \<^const>\<open>next_deadline\<close> is early enough, since it is the earliest deadline of all.
\<close>

theorem tick_clears_deadlines:
  "(case next_deadline (tick now ib) of None \<Rightarrow> True | Some d \<Rightarrow> now < d)
   \<and> (\<exists>m \<in> set (ib_messages ib). due t m) = (case next_deadline ib of None \<Rightarrow> False | Some d \<Rightarrow> d \<le> t)"
proof -
  let ?ib1 = "down_from (tick_body now) (length (ib_messages ib)) ib"
  have none_due: "\<not> due now m" if "m \<in> set (ib_messages (tick now ib))" for m
  proof -
    have "m \<in> set (ib_messages (trim_history now ?ib1))" using that by (simp add: tick_def Let_def)
    from trim_history_deadline[OF this] obtain m' where
      "m' \<in> set (ib_messages ?ib1)" "message_deadline m' = message_deadline m" by blast
    with ticking.loop_all_settled show ?thesis by (metis message_deadline_due)
  qed
  have "now < d" if nd: "next_deadline (tick now ib) = Some d" for d
  proof -
    have "\<exists>m \<in> set (ib_messages (tick now ib)). message_deadline m = Some d" using nd next_deadline_min by metis
    with none_due show ?thesis unfolding message_deadline_due by (meson not_le)
  qed
  moreover have "(\<exists>m \<in> set (ib_messages ib). due t m) = (case next_deadline ib of None \<Rightarrow> False | Some d \<Rightarrow> d \<le> t)"
    by (rule next_deadline_due)
  ultimately show ?thesis by (simp split: option.split)
qed

section \<open>Exits\<close>

text \<open>
  When an agent exits, nothing live stays bound to it: its messages become undeliverable and its
  offers leave it for their pool. Every other live message, in particular one that waits for whatever
  agent the pane runs next, is exactly as it was.
\<close>

theorem agent_exit_releases:
  "(\<forall>m \<in> set (ib_messages (agent_exited now pane agent ib)). is_live m \<longrightarrow> \<not> bound_to pane agent m)
   \<and> (\<forall>m \<in> set (ib_messages ib). is_live m \<and> \<not> bound_to pane agent m
        \<longrightarrow> m \<in> set (ib_messages (agent_exited now pane agent ib)))"
proof (intro conjI ballI impI)
  let ?body = "agent_exited_body now pane agent"
  let ?ib1 = "down_from ?body (length (ib_messages ib)) ib"
  { fix m assume m: "m \<in> set (ib_messages (agent_exited now pane agent ib))" "is_live m"
    then have "m \<in> set (ib_messages ?ib1)" by (simp add: agent_exited_def trimmed.live_member_trim)
    with exiting.loop_all_settled m(2) show "\<not> bound_to pane agent m" by blast }
  { fix m assume m: "m \<in> set (ib_messages ib)" "is_live m \<and> \<not> bound_to pane agent m"
    then obtain j where j: "j < length (ib_messages ib)" "ib_messages ib ! j = m" by (auto simp: in_set_conv_nth)
    with m(2) exiting.loop_keeps[of j ib pane agent now] have "ib_messages ?ib1 ! j = m" by simp
    moreover have "j < length (ib_messages ?ib1)" using j by (simp add: exiting.loop_length)
    ultimately have "m \<in> set (ib_messages ?ib1)" by (metis nth_mem)
    with m(2) show "m \<in> set (ib_messages (agent_exited now pane agent ib))"
      by (simp add: agent_exited_def trimmed.live_member_trim) }
qed

section \<open>The return of a handed-out offer\<close>

text \<open>
  Returning a fetched offer through \<^const>\<open>requeue_receipt\<close> applies the delivery limit: an offer
  handed out \<^const>\<open>max_deliver\<close> times does not go back to its pool but becomes undeliverable. (The
  comment on the method says the limit is not applied there.)
\<close>

theorem requeue_receipt_applies_limit:
  assumes "position (\<lambda>m. m_id m = i \<and> held_for_pane pane m) (ib_messages ib) = Some k"
    and "is_fetched (m_state (ib_messages ib ! k))" "is_offer (ib_messages ib ! k)"
    and "max_deliver (ib_limits ib) \<le> m_deliveries (ib_messages ib ! k)"
  shows "\<exists>e. last (ib_events (fst (requeue_receipt now i pane ib))) = e \<and> ev_message_id e = i
     \<and> ev_state e = NUndeliverable \<and> ev_undeliverable_reason e = Some MaxDeliver"
proof -
  note pos = position_SomeD[OF assms(1)]
  obtain r where r: "m_recipient (ib_messages ib ! k) = Some r" using pos held_has_recipient by blast
  have "ib_events (fst (requeue_receipt now i pane ib)) = ib_events (return_offer k now AckWaitExpired ib)"
    using assms by (simp add: requeue_receipt_def)
  also have "\<dots> = mark_returned (Some r) AckWaitExpired (ib_events ib @ [transition_event False
      (message_transition now (Undeliverable now MaxDeliver) (unassign (ib_messages ib ! k)))])"
    using assms(4) pos r by (simp add: return_offer_def Let_def transition_events is_requeue_def)
  finally show ?thesis using pos
    by (cases "ib_events ib")
       (simp_all add: mark_returned_def transition_event_def undeliverable_reason_of_def)
qed

definition sample_last_chance :: inbox where
  "sample_last_chance = fst (take_receipt 11 ''m-deck0000-0000000000000002'' ''p2'' ''a2'' (Waiter 1)
     (fst (assign_offer 9 ''m-deck0000-0000000000000002'' [recipient_bound ''p2'' ''a2''] sample_exited)))"

end
