(* ===== verification/Inbox_Scope.thy ===== *)
theory Inbox_Scope
  imports Inbox_Safety
begin

text \<open>
  Who a publish or an offer reaches: scope and subscription resolution, the pure functions at the end
  of \<^verbatim>\<open>src/src/inbox.rs\<close>. A hash map of the configuration is a map; a hash set of groups already
  visited is a list.
\<close>

record role_subscriptions =
  rs_subscribe :: "string list"
  rs_take_offers :: "string list"

record orchestration_subscriptions =
  os_subscribe :: "string list"
  os_roles :: "string \<rightharpoonup> role_subscriptions"

record subscriptions =
  sub_orchestrations :: "string \<rightharpoonup> orchestration_subscriptions"
  sub_dispatch :: "string list"

record role_facts =
  rf_token :: string
  rf_name :: string
  rf_role :: string

record pane_facts =
  pf_pane_id :: string
  pf_agent_id :: string
  pf_orchestration :: "role_facts option"
  pf_dispatch_caller :: "string option"

record scope_member =
  sm_recipient :: recipient
  sm_orchestration_name :: "string option"
  sm_role :: "string option"
  sm_is_dispatch_caller :: bool

record resolved_scope =
  rsv_scope :: scope
  rsv_members :: "scope_member list"

datatype group = GOrchestration string | GPane string

definition group_of :: "pane_facts \<Rightarrow> group" where
  "group_of p = (case pf_orchestration p of Some o' \<Rightarrow> GOrchestration (rf_token o') | None \<Rightarrow> GPane (pf_pane_id p))"

section \<open>The walk up the dispatch tree\<close>

fun find_map :: "('a \<Rightarrow> 'b option) \<Rightarrow> 'a list \<Rightarrow> 'b option" where
  "find_map f [] = None"
| "find_map f (x # xs) = (case f x of Some y \<Rightarrow> Some y | None \<Rightarrow> find_map f xs)"

definition group_caller :: "pane_facts list \<Rightarrow> group \<Rightarrow> string option" where
  "group_caller panes g = find_map pf_dispatch_caller (filter (\<lambda>p. group_of p = g) panes)"

definition caller_group :: "pane_facts list \<Rightarrow> string \<Rightarrow> group" where
  "caller_group panes caller =
     (case find (\<lambda>p. pf_pane_id p = caller) panes of
        Some p \<Rightarrow> group_of p
      | None \<Rightarrow> GPane caller)"

text \<open>
  The loop of \<^verbatim>\<open>dispatch_root\<close>. A group with a caller is the group of some pane, and a visited group
  ends the walk, so the panes whose group is not yet visited get fewer with every round.
\<close>

lemma find_map_SomeD: "find_map f xs = Some y \<Longrightarrow> \<exists>x \<in> set xs. f x = Some y"
  by (induction xs) (auto split: option.splits)

lemma group_caller_SomeD:
  "group_caller panes g = Some c \<Longrightarrow> \<exists>p \<in> set panes. group_of p = g \<and> pf_dispatch_caller p = Some c"
  by (auto simp: group_caller_def dest!: find_map_SomeD)

function dispatch_walk :: "pane_facts list \<Rightarrow> group list \<Rightarrow> group \<Rightarrow> string option \<Rightarrow> string option" where
  "dispatch_walk panes seen g root =
     (if g \<in> set seen then root
      else case group_caller panes g of
             None \<Rightarrow> root
           | Some caller \<Rightarrow> dispatch_walk panes (g # seen) (caller_group panes caller) (Some caller))"
  by pat_completeness auto
termination
proof (relation "measure (\<lambda>(panes, seen, g, root). length (filter (\<lambda>p. group_of p \<notin> set seen) panes))", goal_cases)
  case 1
  show ?case by simp
next
  case (2 panes seen g root caller)
  obtain p where p: "p \<in> set panes" "group_of p = g" using group_caller_SomeD[OF 2(2)] by blast
  have eq: "filter (\<lambda>p. group_of p \<notin> set (g # seen)) panes
      = filter (\<lambda>p. group_of p \<noteq> g) (filter (\<lambda>p. group_of p \<notin> set seen) panes)"
    by (auto intro: filter_cong)
  have "p \<in> set (filter (\<lambda>p. group_of p \<notin> set seen) panes)" using p 2(1) by simp
  then have "length (filter (\<lambda>p. group_of p \<noteq> g) (filter (\<lambda>p. group_of p \<notin> set seen) panes))
      < length (filter (\<lambda>p. group_of p \<notin> set seen) panes)"
    by (rule length_filter_less) (simp add: p(2))
  then show ?case by (simp only: in_measure prod.case eq)
qed

declare dispatch_walk.simps [simp del]

definition dispatch_root :: "group \<Rightarrow> pane_facts list \<Rightarrow> string option" where
  "dispatch_root g panes = dispatch_walk panes [] g None"

section \<open>Resolving a scope\<close>

definition is_caller :: "pane_facts list \<Rightarrow> string \<Rightarrow> bool" where
  "is_caller panes pane \<longleftrightarrow> list_ex (\<lambda>p. pf_dispatch_caller p = Some pane) panes"

definition tree_root :: "pane_facts \<Rightarrow> pane_facts list \<Rightarrow> string option" where
  "tree_root sender panes =
     (case dispatch_root (group_of sender) panes of
        Some root \<Rightarrow> Some root
      | None \<Rightarrow> map_option pf_pane_id
          (find (\<lambda>p. group_of p = group_of sender \<and> is_caller panes (pf_pane_id p)) panes))"

definition in_tree :: "string \<Rightarrow> pane_facts list \<Rightarrow> pane_facts \<Rightarrow> bool" where
  "in_tree root panes p \<longleftrightarrow>
     group_of p = caller_group panes root \<or> dispatch_root (group_of p) panes = Some root"

definition in_orchestration :: "string \<Rightarrow> pane_facts \<Rightarrow> bool" where
  "in_orchestration token p \<longleftrightarrow> (case pf_orchestration p of Some o' \<Rightarrow> rf_token o' = token | None \<Rightarrow> False)"

definition scope_member_of :: "pane_facts list \<Rightarrow> pane_facts \<Rightarrow> scope_member" where
  "scope_member_of panes p =
     \<lparr>sm_recipient = recipient_bound (pf_pane_id p) (pf_agent_id p),
      sm_orchestration_name = map_option rf_name (pf_orchestration p),
      sm_role = map_option rf_role (pf_orchestration p),
      sm_is_dispatch_caller = is_caller panes (pf_pane_id p)\<rparr>"

definition resolve_scope :: "string \<Rightarrow> pane_facts list \<Rightarrow> resolved_scope option" where
  "resolve_scope sender_pane panes =
     (case find (\<lambda>p. pf_pane_id p = sender_pane) panes of
        None \<Rightarrow> None
      | Some sender \<Rightarrow>
          (case tree_root sender panes of
             Some root \<Rightarrow>
               Some \<lparr>rsv_scope = Dispatch root,
                     rsv_members = map (scope_member_of panes) (filter (in_tree root panes) panes)\<rparr>
           | None \<Rightarrow>
               (case pf_orchestration sender of
                  None \<Rightarrow> None
                | Some o' \<Rightarrow>
                    Some \<lparr>rsv_scope = Orchestration (rf_token o'),
                          rsv_members =
                            map (scope_member_of panes) (filter (in_orchestration (rf_token o')) panes)\<rparr>)))"

definition role_config :: "subscriptions \<Rightarrow> scope_member \<Rightarrow> role_subscriptions option" where
  "role_config subs m =
     (case (Option.bind (sm_orchestration_name m) (sub_orchestrations subs), sm_role m) of
        (Some o', Some role) \<Rightarrow> os_roles o' role
      | _ \<Rightarrow> None)"

definition subscribed :: "subscriptions \<Rightarrow> string \<Rightarrow> scope_member \<Rightarrow> bool" where
  "subscribed subs topic m \<longleftrightarrow>
     (case Option.bind (sm_orchestration_name m) (sub_orchestrations subs) of
        Some o' \<Rightarrow> topic \<in> set (os_subscribe o') | None \<Rightarrow> False)
     \<or> (case role_config subs m of Some r \<Rightarrow> topic \<in> set (rs_subscribe r) | None \<Rightarrow> False)
     \<or> (sm_is_dispatch_caller m \<and> topic \<in> set (sub_dispatch subs))"

definition publish_recipients ::
  "scope_member list \<Rightarrow> subscriptions \<Rightarrow> string \<Rightarrow> string \<Rightarrow> recipient list" where
  "publish_recipients members subs topic sender_pane =
     map sm_recipient
       (filter (subscribed subs topic) (filter (\<lambda>m. rcp_pane_id (sm_recipient m) \<noteq> sender_pane) members))"

definition takes_offers :: "subscriptions \<Rightarrow> string \<Rightarrow> scope_member \<Rightarrow> bool" where
  "takes_offers subs pool m \<longleftrightarrow>
     (case role_config subs m of Some r \<Rightarrow> pool \<in> set (rs_take_offers r) | None \<Rightarrow> False)"

definition offer_candidates ::
  "scope_member list \<Rightarrow> subscriptions \<Rightarrow> string \<Rightarrow> string \<Rightarrow> recipient list \<Rightarrow> recipient list" where
  "offer_candidates members subs pool sender_pane exclude =
     map sm_recipient
       (filter (takes_offers subs pool)
         (filter (\<lambda>m. \<not> list_ex (\<lambda>e. same_holder e (sm_recipient m)) exclude)
           (filter (\<lambda>m. rcp_pane_id (sm_recipient m) \<noteq> sender_pane) members)))"

section \<open>What the resolution guarantees\<close>

lemma caller_group_of:
  "find (\<lambda>p. pf_pane_id p = pane) panes = Some p \<Longrightarrow> caller_group panes pane = group_of p"
  by (simp add: caller_group_def)

lemma find_pane_distinct:
  assumes "distinct (map pf_pane_id panes)" "p \<in> set panes"
  shows "find (\<lambda>q. pf_pane_id q = pf_pane_id p) panes = Some p"
  using assms
proof (induction panes)
  case Nil
  then show ?case by simp
next
  case (Cons q panes)
  then show ?case by (auto simp: rev_image_eqI)
qed

lemma resolve_members:
  assumes "resolve_scope sender panes = Some r"
  shows "\<exists>P. rsv_members r = map (scope_member_of panes) (filter P panes)
           \<and> (distinct (map pf_pane_id panes) \<longrightarrow> (\<exists>p \<in> set panes. pf_pane_id p = sender \<and> P p))"
proof -
  obtain s where s: "find (\<lambda>p. pf_pane_id p = sender) panes = Some s"
    using assms by (auto simp: resolve_scope_def split: option.splits)
  then have s_in: "s \<in> set panes" "pf_pane_id s = sender" by (auto simp: find_Some_iff)
  show ?thesis
  proof (cases "tree_root s panes")
    case None
    with assms s obtain o' where o': "pf_orchestration s = Some o'"
      "rsv_members r = map (scope_member_of panes) (filter (in_orchestration (rf_token o')) panes)"
      by (auto simp: resolve_scope_def split: option.splits)
    with s_in show ?thesis by (auto simp: in_orchestration_def intro!: exI[of _ "in_orchestration (rf_token o')"])
  next
    case (Some root)
    have mem: "rsv_members r = map (scope_member_of panes) (filter (in_tree root panes) panes)"
      using assms s Some by (auto simp: resolve_scope_def)
    have "in_tree root panes s" if dist: "distinct (map pf_pane_id panes)"
    proof (cases "dispatch_root (group_of s) panes")
      case None
      with Some obtain q where q: "find (\<lambda>p. group_of p = group_of s \<and> is_caller panes (pf_pane_id p)) panes = Some q"
        "root = pf_pane_id q" by (auto simp: tree_root_def)
      then have "q \<in> set panes" "group_of q = group_of s" by (auto simp: find_Some_iff)
      with find_pane_distinct[OF dist] q(2) show ?thesis by (simp add: in_tree_def caller_group_def)
    next
      case other: (Some root')
      with Some show ?thesis by (simp add: in_tree_def tree_root_def)
    qed
    with mem s_in show ?thesis by blast
  qed
qed

lemma distinct_members: "distinct (map pf_pane_id panes)
  \<Longrightarrow> distinct (map (\<lambda>m. rcp_pane_id (sm_recipient m)) (map (scope_member_of panes) (filter P panes)))"
  by (simp add: scope_member_of_def recipient_bound_def comp_def distinct_map_filter)

text \<open>
  Who a publish reaches. The members of a resolved scope are live panes, in the order given, the
  sender among them; a publish goes to each subscribed member but the sender, at most once per pane,
  which is what \<^const>\<open>op_ok\<close> asks of a publish.
\<close>

theorem publish_reaches_subscribers:
  assumes "distinct (map pf_pane_id panes)" "resolve_scope sender panes = Some r"
  shows "op_ok (OpPublish draws now (rsv_scope r) topic c (publish_recipients (rsv_members r) subs topic sender))
    \<and> sender \<in> (\<lambda>m. rcp_pane_id (sm_recipient m)) ` set (rsv_members r)
    \<and> (\<forall>rcp. rcp \<in> set (publish_recipients (rsv_members r) subs topic sender) \<longleftrightarrow>
         (\<exists>m \<in> set (rsv_members r). sm_recipient m = rcp \<and> subscribed subs topic m \<and> rcp_pane_id rcp \<noteq> sender))
    \<and> (\<forall>m \<in> set (rsv_members r). \<exists>p \<in> set panes. sm_recipient m = recipient_bound (pf_pane_id p) (pf_agent_id p))"
proof -
  obtain P where P: "rsv_members r = map (scope_member_of panes) (filter P panes)"
    "\<exists>p \<in> set panes. pf_pane_id p = sender \<and> P p"
    using resolve_members[OF assms(2)] assms(1) by blast
  have "distinct (map (\<lambda>m. rcp_pane_id (sm_recipient m)) (rsv_members r))"
    unfolding P(1) by (rule distinct_members[OF assms(1)])
  then have "distinct (map rcp_pane_id (publish_recipients (rsv_members r) subs topic sender))"
    by (simp add: publish_recipients_def comp_def distinct_map_filter)
  moreover have "sender \<in> (\<lambda>m. rcp_pane_id (sm_recipient m)) ` set (rsv_members r)"
    unfolding P(1) using P(2) by (force simp: scope_member_of_def recipient_bound_def)
  ultimately show ?thesis
    by (auto simp: publish_recipients_def) (auto simp: P(1) scope_member_of_def)
qed

definition pane_in :: "string \<Rightarrow> string option \<Rightarrow> string option \<Rightarrow> pane_facts" where
  "pane_in pane token caller =
     \<lparr>pf_pane_id = pane, pf_agent_id = ''a'' @ pane,
      pf_orchestration = map_option (\<lambda>t. \<lparr>rf_token = t, rf_name = ''o'', rf_role = ''r''\<rparr>) token,
      pf_dispatch_caller = caller\<rparr>"

definition two_callers :: "pane_facts list" where
  "two_callers =
     [pane_in ''p1'' (Some ''T'') None, pane_in ''p2'' (Some ''T'') None,
      pane_in ''c1'' None (Some ''p1''), pane_in ''c2'' None (Some ''p2'')]"

definition sample_subs :: subscriptions where
  "sample_subs =
     \<lparr>sub_orchestrations = [''o'' \<mapsto> \<lparr>os_subscribe = [''news''], os_roles = Map.empty\<rparr>], sub_dispatch = []\<rparr>"

text \<open>
  Who an offer may go to. Every candidate is a member whose role takes offers from the pool, is not
  the sender, and is not one of the holders excluded.
\<close>

theorem offer_candidates_eligible:
  "rcp \<in> set (offer_candidates members subs pool sender exclude) \<longleftrightarrow>
     (\<exists>m \<in> set members. sm_recipient m = rcp \<and> takes_offers subs pool m) \<and> rcp_pane_id rcp \<noteq> sender
     \<and> \<not> list_ex (\<lambda>e. same_holder e rcp) exclude"
  by (auto simp: offer_candidates_def)

definition member_panes :: "resolved_scope \<Rightarrow> string set" where
  "member_panes r = (\<lambda>m. rcp_pane_id (sm_recipient m)) ` set (rsv_members r)"

lemma tree_scope:
  assumes "distinct (map pf_pane_id panes)" "s \<in> set panes" "tree_root s panes = Some root"
  obtains r where "resolve_scope (pf_pane_id s) panes = Some r" "rsv_scope r = Dispatch root"
    "\<And>x. x \<in> set panes \<Longrightarrow> pf_pane_id x \<in> member_panes r \<longleftrightarrow> in_tree root panes x"
proof (rule that)
  let ?r = "\<lparr>rsv_scope = Dispatch root, rsv_members = map (scope_member_of panes) (filter (in_tree root panes) panes)\<rparr>"
  show "resolve_scope (pf_pane_id s) panes = Some ?r" using find_pane_distinct[OF assms(1,2)] assms(3) by (simp add: resolve_scope_def)
  show "rsv_scope ?r = Dispatch root" by simp
  have "inj_on pf_pane_id (set panes)" using assms(1) by (simp add: distinct_map)
  then show "pf_pane_id x \<in> member_panes ?r \<longleftrightarrow> in_tree root panes x" if "x \<in> set panes" for x
    using that by (auto simp: member_panes_def image_image scope_member_of_def recipient_bound_def dest: inj_onD)
qed

text \<open>
  C40: A scope is not always the whole dispatch tree. Let no pane of a group have been dispatched, and two different panes of it
  have dispatched, the first of them in the order given and another. The other's scope is the tree of the
  first: it has both of them as members, but not a unit the other dispatched, while that unit's own scope is the
  other's tree and has the unit and both of them as members.
\<close>

theorem second_caller_misses_own_unit:
  assumes "distinct (map pf_pane_id panes)" "second \<in> set panes" "u \<in> set panes" "first \<noteq> second"
    and "group_of second = g" "group_caller panes g = None"
    and "find (\<lambda>x. group_of x = g \<and> is_caller panes (pf_pane_id x)) panes = Some first"
    and "group_caller panes (group_of u) = Some (pf_pane_id second)"
  shows "\<exists>r r'. resolve_scope (pf_pane_id second) panes = Some r \<and> rsv_scope r = Dispatch (pf_pane_id first)
    \<and> pf_pane_id first \<in> member_panes r \<and> pf_pane_id second \<in> member_panes r \<and> pf_pane_id u \<notin> member_panes r
    \<and> resolve_scope (pf_pane_id u) panes = Some r' \<and> rsv_scope r' = Dispatch (pf_pane_id second)
    \<and> pf_pane_id u \<in> member_panes r' \<and> pf_pane_id second \<in> member_panes r' \<and> pf_pane_id first \<in> member_panes r'"
proof -
  have first: "first \<in> set panes" "group_of first = g" using assms(7) by (auto simp: find_Some_iff)
  have groups: "caller_group panes (pf_pane_id first) = g" "caller_group panes (pf_pane_id second) = g"
    using find_pane_distinct[OF assms(1)] first assms(2,5) by (simp_all add: caller_group_def)
  have apart: "group_of u \<noteq> g" using assms(6,8) by auto
  have "pf_pane_id first \<noteq> pf_pane_id second" using assms(1,2,4) first(1) by (auto simp: distinct_map dest: inj_onD)
  moreover have roots: "dispatch_root g panes = None" "dispatch_root (group_of u) panes = Some (pf_pane_id second)"
    using assms(6,8) apart groups(2) by (simp_all add: dispatch_root_def dispatch_walk.simps)
  ultimately have tree: "in_tree (pf_pane_id first) panes first" "in_tree (pf_pane_id first) panes second" "\<not> in_tree (pf_pane_id first) panes u"
    "in_tree (pf_pane_id second) panes first" "in_tree (pf_pane_id second) panes second" "in_tree (pf_pane_id second) panes u"
    using first(2) assms(5) groups apart by (auto simp: in_tree_def)
  have "tree_root second panes = Some (pf_pane_id first)" "tree_root u panes = Some (pf_pane_id second)"
    using roots assms(5,7) by (simp_all add: tree_root_def)
  from tree_scope[OF assms(1,2) this(1)] tree_scope[OF assms(1,3) this(2)] show ?thesis using tree first(1) assms(2,3) by metis
qed

theorem second_caller_misses_own_unit_witness:
  "\<exists>r. resolve_scope ''p2'' two_callers = Some r \<and> rsv_scope r = Dispatch ''p1'' \<and> ''c2'' \<notin> member_panes r"
proof -
  let ?p1 = "pane_in ''p1'' (Some ''T'') None" and ?p2 = "pane_in ''p2'' (Some ''T'') None" and ?c2 = "pane_in ''c2'' None (Some ''p2'')"
  have facts: "distinct (map pf_pane_id two_callers)" "?p2 \<in> set two_callers" "?c2 \<in> set two_callers" "?p1 \<noteq> ?p2"
    "group_of ?p2 = GOrchestration ''T''" "group_caller two_callers (GOrchestration ''T'') = None"
    "find (\<lambda>x. group_of x = GOrchestration ''T'' \<and> is_caller two_callers (pf_pane_id x)) two_callers = Some ?p1"
    "group_caller two_callers (group_of ?c2) = Some (pf_pane_id ?p2)"
    by code_simp+
  from second_caller_misses_own_unit[OF facts] show ?thesis by (auto simp: pane_in_def)
qed

end
