(* ===== verification/Doorbell_Latch.thy ===== *)
theory Doorbell_Latch
  imports Deck_Ids "HOL-Library.Word"
begin

unbundle bit_operations_syntax

text \<open>
  The ring token, the attempt counter, the attempt ring and the latch cell of
  \<^verbatim>\<open>src/src/doorbell_txn.rs\<close>. The atomics are machine words: a token and an attempt number are 32
  bits, a ring entry and the latch word 64.

  A compare-and-swap loop reads the word again whenever another thread got in first. The words it is
  shown then are an argument, \<open>seen\<close>: each one is a failed exchange, and the loop's last exchange
  succeeds. A decoded word that no write could have made panics in the source; the decoder answers
  \<^const>\<open>None\<close> for it.
\<close>

section \<open>The ring token\<close>

type_synonym ring_token = "32 word"

definition TOKEN_ALPHABET :: string where
  "TOKEN_ALPHABET = ''abcdfgimoprtvwxz''"

definition ring_token_parse :: "string \<Rightarrow> ring_token option" where
  "ring_token_parse str =
     (if length str = 6 \<and> list_all is_ascii_lowercase str
      then Some (foldl (\<lambda>packed b. push_bit 5 packed OR word_of_nat (byte_of b - 97)) 0 str)
      else None)"

definition ring_token_from_draws :: "nat list \<Rightarrow> ring_token option" where
  "ring_token_from_draws draws =
     ring_token_parse (map (\<lambda>d. TOKEN_ALPHABET ! (d mod 16)) (take 6 draws))"

definition ring_token_letters :: "ring_token \<Rightarrow> string" where
  "ring_token_letters t =
     map (\<lambda>i. of_byte (97 + unat (drop_bit (5 * i) t AND 31))) (rev [0..<6])"

definition LINE_PREFIX :: string where
  "LINE_PREFIX = '' dot-agent-deck: message ''"

definition LINE_SUFFIX :: string where
  "LINE_SUFFIX = '' waiting, run: dot-agent-deck inbox fetch''"

definition doorbell_line :: "string \<Rightarrow> string" where
  "doorbell_line i = LINE_PREFIX @ i @ LINE_SUFFIX"

definition ring_token_line :: "ring_token \<Rightarrow> message_id \<Rightarrow> string" where
  "ring_token_line t i = ''('' @ ring_token_letters t @ '')'' @ doorbell_line i"

section \<open>The attempt counter and the attempt ring\<close>

definition ATTEMPT_RESERVED :: "32 word" where
  "ATTEMPT_RESERVED = - 1"

definition starting_at :: "32 word \<Rightarrow> 32 word" where
  "starting_at next = max next 1"

definition exhausted :: "32 word \<Rightarrow> bool" where
  "exhausted counter \<longleftrightarrow> counter = ATTEMPT_RESERVED"

fun allocate_loop :: "32 word list \<Rightarrow> 32 word \<Rightarrow> 32 word \<times> 32 word option" where
  "allocate_loop seen n =
     (if n = ATTEMPT_RESERVED then (n, None)
      else case seen of [] \<Rightarrow> (n + 1, Some n) | s # rest \<Rightarrow> allocate_loop rest s)"

definition allocate :: "32 word list \<Rightarrow> 32 word \<Rightarrow> 32 word \<times> 32 word option" where
  "allocate seen counter = allocate_loop seen counter"

definition RING_SLOTS :: nat where
  "RING_SLOTS = 64"

type_synonym attempt_ring = "64 word list"

definition attempt_ring_default :: attempt_ring where
  "attempt_ring_default = replicate RING_SLOTS 0"

definition ring_entry :: "32 word \<Rightarrow> ring_token \<Rightarrow> 64 word" where
  "ring_entry attempt token = push_bit 32 (ucast attempt) OR ucast token"

definition ring_record :: "32 word \<Rightarrow> ring_token \<Rightarrow> attempt_ring \<Rightarrow> attempt_ring" where
  "ring_record attempt token ring = ring[unat attempt mod RING_SLOTS := ring_entry attempt token]"

definition ring_lookup :: "ring_token \<Rightarrow> attempt_ring \<Rightarrow> 32 word option" where
  "ring_lookup token ring =
     (case map (\<lambda>entry. ucast (drop_bit 32 entry)) (filter (\<lambda>entry. entry \<noteq> 0 \<and> ucast entry = token) ring) of
        [] \<Rightarrow> None
      | a # as \<Rightarrow> Some (fold max as a))"

definition TOKEN_DRAWS :: nat where
  "TOKEN_DRAWS = 32"

definition contains :: "string \<Rightarrow> string \<Rightarrow> bool" where
  "contains str part \<longleftrightarrow> list_ex (\<lambda>i. take (length part) (drop i str) = part) [0..<Suc (length str)]"

text \<open>The draws come as one stream of bytes, six to a candidate; a short stream ends the search.\<close>

fun pick_token_loop :: "nat \<Rightarrow> nat list \<Rightarrow> string \<Rightarrow> attempt_ring \<Rightarrow> ring_token option" where
  "pick_token_loop 0 draws screen ring = None"
| "pick_token_loop (Suc n) draws screen ring =
     (case ring_token_from_draws draws of
        None \<Rightarrow> None
      | Some candidate \<Rightarrow>
          (if \<not> contains screen (ring_token_letters candidate) \<and> ring_lookup candidate ring = None
           then Some candidate else pick_token_loop n (drop 6 draws) screen ring))"

definition pick_token :: "nat list \<Rightarrow> string \<Rightarrow> attempt_ring \<Rightarrow> ring_token option" where
  "pick_token draws screen ring = pick_token_loop TOKEN_DRAWS draws screen ring"

section \<open>The latch cell\<close>

datatype cause =
    Deadline | EchoMismatch | PartialWrite | WriteStalled | ModeChanged | Layout | NoSubmitEvidence
  | WithdrawalRefused | WithdrawalStalled | DialogAfterTyping | DialogBeforeSubmit | DialogAfterSubmit

definition cause_all :: "cause list" where
  "cause_all =
     [Deadline, EchoMismatch, PartialWrite, WriteStalled, ModeChanged, Layout, NoSubmitEvidence,
      WithdrawalRefused, WithdrawalStalled, DialogAfterTyping, DialogBeforeSubmit, DialogAfterSubmit]"

fun cause_code :: "cause \<Rightarrow> 8 word" where
  "cause_code Deadline = 1" | "cause_code EchoMismatch = 2" | "cause_code PartialWrite = 3"
| "cause_code WriteStalled = 4" | "cause_code ModeChanged = 5" | "cause_code Layout = 6"
| "cause_code NoSubmitEvidence = 7" | "cause_code WithdrawalRefused = 8"
| "cause_code WithdrawalStalled = 9" | "cause_code DialogAfterTyping = 10"
| "cause_code DialogBeforeSubmit = 11" | "cause_code DialogAfterSubmit = 12"

definition cause_is_dialog :: "cause \<Rightarrow> bool" where
  "cause_is_dialog c \<longleftrightarrow> c = DialogAfterTyping \<or> c = DialogBeforeSubmit \<or> c = DialogAfterSubmit"

definition cause_from_code :: "8 word \<Rightarrow> cause option" where
  "cause_from_code code = find (\<lambda>c. cause_code c = code) cause_all"

datatype resolution = ResNotTyped | ResSubmitted | ResWithdrawn | ResLateExact | ResUser

fun resolution_code :: "resolution \<Rightarrow> 8 word" where
  "resolution_code ResNotTyped = 1" | "resolution_code ResSubmitted = 2"
| "resolution_code ResWithdrawn = 3" | "resolution_code ResLateExact = 4" | "resolution_code ResUser = 5"

definition resolution_from_code :: "8 word \<Rightarrow> resolution option" where
  "resolution_from_code code =
     find (\<lambda>r. resolution_code r = code) [ResNotTyped, ResSubmitted, ResWithdrawn, ResLateExact, ResUser]"

datatype latch = LOpen "32 word" | LSuspended "32 word" cause | LResolved "32 word" resolution | LRetired

definition PHASE_OPEN :: "64 word" where "PHASE_OPEN = 0"
definition PHASE_SUSPENDED :: "64 word" where "PHASE_SUSPENDED = 1"
definition PHASE_RESOLVED :: "64 word" where "PHASE_RESOLVED = 2"
definition RETIRED :: "64 word" where "RETIRED = - 1"

definition latch_word :: "32 word \<Rightarrow> 64 word \<Rightarrow> 8 word \<Rightarrow> 64 word" where
  "latch_word attempt phase detail = push_bit 32 (ucast attempt) OR push_bit 8 phase OR ucast detail"

definition latch_key :: "64 word \<Rightarrow> 64 word" where
  "latch_key w = drop_bit 8 w"

definition latch_decode :: "64 word \<Rightarrow> latch option" where
  "latch_decode w =
     (if w = RETIRED then Some LRetired
      else let attempt = ucast (drop_bit 32 w); detail = ucast w; phase = drop_bit 8 w AND 0xffffff
           in if phase = PHASE_OPEN then Some (LOpen attempt)
              else if phase = PHASE_SUSPENDED then map_option (LSuspended attempt) (cause_from_code detail)
              else map_option (LResolved attempt) (resolution_from_code detail))"

definition latch_suspended :: "latch \<Rightarrow> bool" where
  "latch_suspended l \<longleftrightarrow> (case l of LSuspended _ _ \<Rightarrow> True | _ \<Rightarrow> False)"

definition latch_default :: "64 word" where
  "latch_default = latch_word 0 PHASE_RESOLVED (resolution_code ResNotTyped)"

text \<open>The answer of an advance: \<open>Inl\<close> the state that refused it, \<open>Inr\<close> the state moved from.\<close>

type_synonym latch_result = "(64 word \<times> (latch + latch)) option"

fun advance :: "64 word list \<Rightarrow> (latch \<Rightarrow> bool) \<Rightarrow> 64 word \<Rightarrow> 64 word \<Rightarrow> latch_result" where
  "advance seen from to current =
     (case latch_decode current of
        None \<Rightarrow> None
      | Some state \<Rightarrow>
          (if current = RETIRED \<or> \<not> from state \<or> latch_key to \<le> latch_key current
           then Some (current, Inl state)
           else case seen of
                  [] \<Rightarrow> Some (to, Inr state)
                | s # rest \<Rightarrow> advance rest from to s))"

definition earlier_than :: "32 word \<Rightarrow> latch \<Rightarrow> bool" where
  "earlier_than attempt state =
     (case state of LOpen a \<Rightarrow> a < attempt | LSuspended a _ \<Rightarrow> a < attempt | LResolved a _ \<Rightarrow> a < attempt
      | LRetired \<Rightarrow> False)"

definition suspended_at :: "32 word \<Rightarrow> latch \<Rightarrow> bool" where
  "suspended_at attempt state = (case state of LSuspended a _ \<Rightarrow> a = attempt | _ \<Rightarrow> False)"

definition latch_open :: "64 word list \<Rightarrow> 32 word \<Rightarrow> 64 word \<Rightarrow> latch_result" where
  "latch_open seen attempt = advance seen (earlier_than attempt) (latch_word attempt PHASE_OPEN 0)"

definition latch_not_typed :: "64 word list \<Rightarrow> 32 word \<Rightarrow> 64 word \<Rightarrow> latch_result" where
  "latch_not_typed seen attempt =
     advance seen (\<lambda>state. state = LOpen attempt)
       (latch_word attempt PHASE_RESOLVED (resolution_code ResNotTyped))"

definition latch_suspend :: "64 word list \<Rightarrow> 32 word \<Rightarrow> cause \<Rightarrow> 64 word \<Rightarrow> latch_result" where
  "latch_suspend seen attempt cause =
     advance seen (\<lambda>state. state = LOpen attempt) (latch_word attempt PHASE_SUSPENDED (cause_code cause))"

text \<open>The second advance loads the word again; \<open>again\<close> is what another thread stored meanwhile, if any.\<close>

definition latch_exact_evidence ::
  "64 word list \<Rightarrow> 64 word option \<Rightarrow> 64 word list \<Rightarrow> 32 word \<Rightarrow> 64 word \<Rightarrow> latch_result" where
  "latch_exact_evidence seen again seen' attempt current =
     (case advance seen (\<lambda>state. state = LOpen attempt)
             (latch_word attempt PHASE_RESOLVED (resolution_code ResSubmitted)) current of
        Some (w, Inl _) \<Rightarrow>
          advance seen' (suspended_at attempt)
            (latch_word attempt PHASE_RESOLVED (resolution_code ResLateExact))
            (case again of Some w' \<Rightarrow> w' | None \<Rightarrow> w)
      | r \<Rightarrow> r)"

definition latch_resolve :: "64 word list \<Rightarrow> 32 word \<Rightarrow> resolution \<Rightarrow> 64 word \<Rightarrow> latch_result" where
  "latch_resolve seen attempt how =
     advance seen (\<lambda>state. state = LOpen attempt \<or> suspended_at attempt state)
       (latch_word attempt PHASE_RESOLVED (resolution_code how))"

definition latch_user_cleared :: "64 word option \<Rightarrow> 64 word list \<Rightarrow> 64 word \<Rightarrow> latch_result" where
  "latch_user_cleared again seen current =
     (let reload = (case again of Some w' \<Rightarrow> w' | None \<Rightarrow> current)
      in case latch_decode current of
           None \<Rightarrow> None
         | Some (LSuspended attempt _) \<Rightarrow>
             advance seen (suspended_at attempt)
               (latch_word attempt PHASE_RESOLVED (resolution_code ResUser)) reload
         | Some _ \<Rightarrow> map_option (\<lambda>state. (reload, Inl state)) (latch_decode reload))"

definition latch_retire :: "64 word \<Rightarrow> 64 word" where
  "latch_retire w = RETIRED"

definition hook_evidence ::
  "64 word list \<Rightarrow> attempt_ring \<Rightarrow> ring_token \<Rightarrow> bool \<Rightarrow> 64 word \<Rightarrow> (64 word \<times> latch option) option" where
  "hook_evidence seen ring token exact w =
     (if \<not> exact then Some (w, None)
      else case ring_lookup token ring of
             None \<Rightarrow> Some (w, None)
           | Some attempt \<Rightarrow>
               (case latch_exact_evidence seen None [] attempt w of
                  None \<Rightarrow> None
                | Some (w', Inl _) \<Rightarrow> Some (w', None)
                | Some (w', Inr _) \<Rightarrow> map_option (\<lambda>l. (w', Some l)) (latch_decode w')))"

end
