(* ===== verification/Latch_Props.thy ===== *)
theory Latch_Props
  imports Doorbell_Latch
begin

unbundle bit_operations_syntax

text \<open>
  The latch word as a state machine (\<^verbatim>\<open>src/src/doorbell_txn.rs\<close>): encoding and decoding, the order of
  latch states, and that every operation of every thread only ever moves a generation's latch up
  that order. Then the ring token, the attempt counter and the attempt ring.
\<close>

section \<open>Packed words\<close>

lemma nat_or_shift: "w < 2 ^ n \<Longrightarrow> push_bit n p OR w = p * 2 ^ n + (w :: nat)"
proof -
  assume "w < 2 ^ n"
  then have w: "take_bit n w = w" by (simp add: take_bit_nat_eq_self_iff)
  have "push_bit n p AND w = 0"
  proof (rule bit_eqI)
    fix k
    show "bit (push_bit n p AND w) k = bit 0 k"
      by (subst w[symmetric]) (auto simp: bit_and_iff bit_push_bit_iff bit_take_bit_iff)
  qed
  then have "push_bit n p OR w = push_bit n p + w" by (simp add: disjunctive_add_eq_or)
  then show ?thesis by (simp add: push_bit_eq_mult)
qed

lemma unat_or_shift:
  fixes p w :: "'a::len word"
  assumes "unat w < 2 ^ n" "unat p * 2 ^ n < 2 ^ LENGTH('a)"
  shows "unat (push_bit n p OR w) = unat p * 2 ^ n + unat w"
proof -
  have "unat (push_bit n p) = take_bit LENGTH('a) (push_bit n (unat p))" by (rule unsigned_push_bit_eq)
  also have "\<dots> = push_bit n (unat p)"
    using assms(2) by (simp add: take_bit_nat_eq_self_iff push_bit_eq_mult)
  finally show ?thesis using nat_or_shift[OF assms(1)] by (simp only: unsigned_or_eq)
qed

lemma unat32_less: "unat (a :: 32 word) < 4294967296"
proof -
  have "unat a < 2 ^ LENGTH(32)" by (rule unsigned_less)
  then show ?thesis by simp
qed

lemma unat8_less: "unat (d :: 8 word) < 256"
proof -
  have "unat d < 2 ^ LENGTH(8)" by (rule unsigned_less)
  then show ?thesis by simp
qed

lemma unat_ucast_up32 [simp]: "unat (ucast (a :: 32 word) :: 64 word) = unat a"
  using unat32_less[of a] by (simp add: unsigned_ucast_eq take_bit_nat_eq_self_iff)

lemma unat_ucast_up8 [simp]: "unat (ucast (d :: 8 word) :: 64 word) = unat d"
  using unat8_less[of d] by (simp add: unsigned_ucast_eq take_bit_nat_eq_self_iff)

lemma unat_ring_entry: "unat (ring_entry a t) = unat a * 2 ^ 32 + unat t"
  unfolding ring_entry_def
  using unat32_less[of t] unat32_less[of a] by (subst unat_or_shift) simp_all

lemma unat_latch_word:
  assumes "unat p < 2 ^ 24"
  shows "unat (latch_word a p d) = unat a * 2 ^ 32 + unat p * 2 ^ 8 + unat d"
proof -
  have inner: "unat (push_bit 8 p OR ucast d) = unat p * 2 ^ 8 + unat d"
    using unat8_less[of d] assms by (subst unat_or_shift) simp_all
  then have "unat (push_bit 8 p OR ucast d) < 2 ^ 32" using assms unat8_less[of d] by simp
  then show ?thesis unfolding latch_word_def or.assoc
    using inner unat32_less[of a] by (subst unat_or_shift) simp_all
qed

lemmas phase_values [simp] = PHASE_OPEN_def PHASE_SUSPENDED_def PHASE_RESOLVED_def

definition is_phase :: "64 word \<Rightarrow> bool" where
  "is_phase p \<longleftrightarrow> p = PHASE_OPEN \<or> p = PHASE_SUSPENDED \<or> p = PHASE_RESOLVED"

lemma phase_small: "is_phase p \<Longrightarrow> unat p \<le> 2"
  by (auto simp: is_phase_def)

lemma latch_word_parts:
  assumes "is_phase p"
  shows "ucast (drop_bit 32 (latch_word a p d)) = a" "ucast (latch_word a p d) = d"
    "drop_bit 8 (latch_word a p d) AND 0xffffff = p" "latch_word a p d \<noteq> RETIRED"
    "unat (latch_key (latch_word a p d)) = unat a * 2 ^ 24 + unat p"
proof -
  note p = phase_small[OF assms] and a = unat32_less[of a] and d = unat8_less[of d]
  have w: "unat (latch_word a p d) = unat a * 4294967296 + unat p * 256 + unat d"
    using unat_latch_word[of p a d] p by simp
  have split: "unat a * 4294967296 + unat p * 256 + unat d = (unat a * 16777216 + unat p) * 256 + unat d" by simp
  have shift: "unat (drop_bit k (latch_word a p d)) = (unat a * 4294967296 + unat p * 256 + unat d) div 2 ^ k" for k
    by (simp only: unat_drop_bit_eq w) (simp only: drop_bit_eq_div)
  have "unat (ucast (drop_bit 32 (latch_word a p d)) :: 32 word) = unat a"
    using p d a by (simp add: unsigned_ucast_eq shift take_bit_eq_mod)
  then show "ucast (drop_bit 32 (latch_word a p d)) = a" by (simp add: word_unat_eq_iff)
  have "unat (ucast (latch_word a p d) :: 8 word) = unat d"
  proof -
    have "((unat a * 16777216 + unat p) * 256 + unat d) mod 256 = unat d"
      using d by (simp only: mod_mult_self3 mod_less)
    then show ?thesis unfolding unsigned_ucast_eq w split take_bit_eq_mod by simp
  qed
  then show "ucast (latch_word a p d) = d" by (simp add: word_unat_eq_iff)
  have key: "unat (drop_bit 8 (latch_word a p d)) = unat a * 16777216 + unat p"
    using p d by (simp add: shift)
  then show "unat (latch_key (latch_word a p d)) = unat a * 2 ^ 24 + unat p" by (simp add: latch_key_def)
  have mask: "(0xffffff :: 64 word) = mask 24" by (simp add: mask_eq_exp_minus_1)
  have "unat (drop_bit 8 (latch_word a p d) AND 0xffffff) = unat p"
  proof -
    have "(unat a * 16777216 + unat p) mod 16777216 = unat p" using p by (simp only: mod_mult_self3 mod_less)
    then show ?thesis
      unfolding mask take_bit_eq_mask[symmetric] unsigned_take_bit_eq key by (simp add: take_bit_eq_mod)
  qed
  then show "drop_bit 8 (latch_word a p d) AND 0xffffff = p" by (simp add: word_unat_eq_iff)
  have "unat RETIRED = 18446744073709551615"
    by (simp add: RETIRED_def unsigned_minus_1_eq_mask mask_eq_exp_minus_1)
  then show "latch_word a p d \<noteq> RETIRED" using w a d p by auto
qed

section \<open>Encoding a latch state\<close>

fun latch_encode :: "latch \<Rightarrow> 64 word" where
  "latch_encode (LOpen a) = latch_word a PHASE_OPEN 0"
| "latch_encode (LSuspended a c) = latch_word a PHASE_SUSPENDED (cause_code c)"
| "latch_encode (LResolved a r) = latch_word a PHASE_RESOLVED (resolution_code r)"
| "latch_encode LRetired = RETIRED"

lemma cause_from_code [simp]: "cause_from_code (cause_code c) = Some c"
  by (cases c) (simp_all add: cause_from_code_def cause_all_def)

lemma resolution_from_code [simp]: "resolution_from_code (resolution_code r) = Some r"
  by (cases r) (simp_all add: resolution_from_code_def)

lemma is_phases [simp]: "is_phase 0" "is_phase 1" "is_phase 2"
  by (simp_all add: is_phase_def)

lemma latch_decode_encode [simp]: "latch_decode (latch_encode l) = Some l"
  by (cases l) (simp_all add: latch_decode_def Let_def latch_word_parts)

lemma latch_encode_inject: "latch_encode l = latch_encode l' \<Longrightarrow> l = l'"
  by (metis latch_decode_encode option.inject)

text \<open>
  Latch states are ordered as their words are: by attempt, then by phase, with the retired state on
  top.
\<close>

instantiation latch :: linorder
begin

definition less_eq_latch :: "latch \<Rightarrow> latch \<Rightarrow> bool" where
  "less_eq_latch l l' \<longleftrightarrow> latch_encode l \<le> latch_encode l'"

definition less_latch :: "latch \<Rightarrow> latch \<Rightarrow> bool" where
  "less_latch l l' \<longleftrightarrow> latch_encode l < latch_encode l'"

instance
proof
  fix x y z :: latch
  show "x < y \<longleftrightarrow> x \<le> y \<and> \<not> y \<le> x" by (auto simp: less_eq_latch_def less_latch_def)
  show "x \<le> x" by (simp add: less_eq_latch_def)
  show "x \<le> y \<Longrightarrow> y \<le> z \<Longrightarrow> x \<le> z" by (simp add: less_eq_latch_def)
  show "x \<le> y \<Longrightarrow> y \<le> x \<Longrightarrow> x = y" by (simp add: less_eq_latch_def latch_encode_inject)
  show "x \<le> y \<or> y \<le> x" by (auto simp: less_eq_latch_def)
qed

end

lemma latch_le_retired: "l \<le> LRetired"
  by (simp add: less_eq_latch_def RETIRED_def)

lemma key_less_word_less: "latch_key w < latch_key w' \<Longrightarrow> w < w'"
proof -
  assume "latch_key w < latch_key w'"
  then have "drop_bit 8 (unat w) < drop_bit 8 (unat w')"
    by (simp only: latch_key_def word_less_nat_alt unat_drop_bit_eq)
  then have "unat w div 256 < unat w' div 256" by (simp add: drop_bit_eq_div)
  then have "unat w < unat w'" by (meson div_le_mono leD leI)
  then show ?thesis by (simp add: word_less_nat_alt)
qed

section \<open>What an advance does\<close>

lemma advance_moved:
  assumes "advance seen from to current = Some (w, Inr state)"
  shows "w = to \<and> (\<exists>v \<in> set (current # seen). latch_decode v = Some state \<and> from state \<and> v \<noteq> RETIRED
           \<and> latch_key v < latch_key to)"
  using assms
proof (induction seen arbitrary: current)
  case Nil
  then show ?case by (auto split: option.splits if_splits)
next
  case (Cons s rest)
  then show ?case by (fastforce split: option.splits if_splits)
qed

lemma advance_refused:
  assumes "advance seen from to current = Some (w, Inl state)"
  shows "w \<in> set (current # seen) \<and> latch_decode w = Some state
         \<and> (w = RETIRED \<or> \<not> from state \<or> latch_key to \<le> latch_key w)"
  using assms
proof (induction seen arbitrary: current)
  case Nil
  then show ?case by (auto split: option.splits if_splits)
next
  case (Cons s rest)
  then show ?case by (fastforce split: option.splits if_splits)
qed

lemma advance_returns:
  assumes "\<And>v. v \<in> set (current # seen) \<Longrightarrow> latch_decode v \<noteq> None"
  shows "advance seen from to current \<noteq> None"
  using assms
proof (induction seen arbitrary: current)
  case Nil
  then show ?case by (auto split: option.splits)
next
  case (Cons s rest)
  then show ?case by (auto split: option.splits)
qed

declare advance.simps [simp del]

section \<open>The latch as an abstract state machine\<close>

inductive latch_step :: "latch \<Rightarrow> latch \<Rightarrow> bool" where
  st_open: "earlier_than a l \<Longrightarrow> latch_step l (LOpen a)"
| st_not_typed: "latch_step (LOpen a) (LResolved a ResNotTyped)"
| st_suspend: "latch_step (LOpen a) (LSuspended a c)"
| st_submitted: "latch_step (LOpen a) (LResolved a ResSubmitted)"
| st_late: "latch_step (LSuspended a c) (LResolved a ResLateExact)"
| st_resolve_open: "r = ResSubmitted \<or> r = ResWithdrawn \<Longrightarrow> latch_step (LOpen a) (LResolved a r)"
| st_resolve_suspended: "r = ResSubmitted \<or> r = ResWithdrawn \<Longrightarrow> latch_step (LSuspended a c) (LResolved a r)"
| st_user: "latch_step (LSuspended a c) (LResolved a ResUser)"
| st_retire: "l \<noteq> LRetired \<Longrightarrow> latch_step l LRetired"

inductive_cases latch_step_from_resolved: "latch_step (LResolved a r) l"
inductive_cases latch_step_from_retired: "latch_step LRetired l"
inductive_cases latch_step_from_open: "latch_step (LOpen a) l"
inductive_cases latch_step_from_suspended: "latch_step (LSuspended a c) l"

fun latch_attempt :: "latch \<Rightarrow> nat" where
  "latch_attempt (LOpen a) = unat a"
| "latch_attempt (LSuspended a c) = unat a"
| "latch_attempt (LResolved a r) = unat a"
| "latch_attempt LRetired = 4294967296"

lemma latch_step_attempt: "latch_step l l' \<Longrightarrow> latch_attempt l \<le> latch_attempt l'"
proof (induction rule: latch_step.induct)
  case (st_open a l)
  then show ?case by (cases l) (auto simp: earlier_than_def word_less_nat_alt)
next
  case (st_retire l)
  then show ?case using unat32_less by (cases l) (auto intro: less_imp_le)
qed simp_all

lemma resolved_stays:
  assumes "latch_step\<^sup>*\<^sup>* (LResolved a r) l"
  shows "l = LResolved a r \<or> unat a < latch_attempt l"
  using assms
proof (induction rule: rtranclp_induct)
  case base
  show ?case by simp
next
  case (step l l')
  then show ?case
    using latch_step_attempt[OF step(2)] unat32_less[of a]
    by (auto elim!: latch_step_from_resolved simp: earlier_than_def word_less_nat_alt)
qed

lemma retired_stays: "latch_step\<^sup>*\<^sup>* LRetired l \<Longrightarrow> l = LRetired"
  by (induction rule: rtranclp_induct) (auto elim!: latch_step_from_retired simp: earlier_than_def)

section \<open>The operations of the cell\<close>

datatype cell_op =
    CellOpen "32 word"
  | CellNotTyped "32 word"
  | CellSuspend "32 word" cause
  | CellExact "32 word"
  | CellResolve "32 word" resolution
  | CellUser

fun run_cell :: "cell_op \<Rightarrow> 64 word list \<Rightarrow> 64 word option \<Rightarrow> 64 word list \<Rightarrow> 64 word \<Rightarrow> latch_result" where
  "run_cell (CellOpen a) seen again seen' w = latch_open seen a w"
| "run_cell (CellNotTyped a) seen again seen' w = latch_not_typed seen a w"
| "run_cell (CellSuspend a c) seen again seen' w = latch_suspend seen a c w"
| "run_cell (CellExact a) seen again seen' w = latch_exact_evidence seen again seen' a w"
| "run_cell (CellResolve a r) seen again seen' w = latch_resolve seen a r w"
| "run_cell CellUser seen again seen' w = latch_user_cleared again seen w"

fun cell_op_ok :: "cell_op \<Rightarrow> bool" where
  "cell_op_ok (CellResolve a r) \<longleftrightarrow> r = ResSubmitted \<or> r = ResWithdrawn"
| "cell_op_ok _ \<longleftrightarrow> True"

definition stored :: "64 word \<Rightarrow> bool" where
  "stored w \<longleftrightarrow> (\<exists>l. w = latch_encode l)"

lemma stored_decode: "stored w \<Longrightarrow> \<exists>l. latch_decode w = Some l \<and> w = latch_encode l"
  by (auto simp: stored_def)

definition refines :: "64 word set \<Rightarrow> latch_result \<Rightarrow> bool" where
  "refines observed r \<longleftrightarrow>
     (case r of
        None \<Rightarrow> False
      | Some (w', Inl l) \<Rightarrow> w' \<in> observed \<and> w' = latch_encode l
      | Some (w', Inr l) \<Rightarrow> latch_encode l \<in> observed \<and> (\<exists>l'. w' = latch_encode l' \<and> latch_step l l' \<and> l < l'))"

lemma advance_refines:
  assumes "\<And>v. v \<in> set (current # seen) \<Longrightarrow> stored v" "\<And>l. fits l \<Longrightarrow> latch_step l target"
  shows "refines (set (current # seen)) (advance seen fits (latch_encode target) current)"
proof -
  obtain w' res where run: "advance seen fits (latch_encode target) current = Some (w', res)"
    using advance_returns[of current seen fits] assms(1) stored_decode by fastforce
  show ?thesis
  proof (cases res)
    case (Inl l)
    then have "w' \<in> set (current # seen)" "latch_decode w' = Some l" using advance_refused run by blast+
    with assms(1) stored_decode[of w'] run Inl show ?thesis by (auto simp: refines_def)
  next
    case (Inr l)
    with advance_moved run obtain v where v: "w' = latch_encode target" "v \<in> set (current # seen)"
      "latch_decode v = Some l" "fits l" "latch_key v < latch_key (latch_encode target)" by blast
    then have "v = latch_encode l" using assms(1) stored_decode by fastforce
    moreover from this v(5) have "l < target" by (simp add: less_latch_def key_less_word_less)
    ultimately show ?thesis using v run Inr assms(2) by (auto simp: refines_def)
  qed
qed

lemma refines_mono: "refines A r \<Longrightarrow> A \<subseteq> B \<Longrightarrow> refines B r"
  by (auto simp: refines_def split: option.splits sum.splits)

lemma exact_refines:
  assumes "\<And>v. v \<in> set (current # seen) \<union> set_option again \<union> set seen' \<Longrightarrow> stored v"
  shows "refines (set (current # seen) \<union> set_option again \<union> set seen') (latch_exact_evidence seen again seen' a current)"
proof -
  let ?first = "advance seen (\<lambda>state. state = LOpen a) (latch_word a PHASE_RESOLVED (resolution_code ResSubmitted)) current"
  have first: "refines (set (current # seen)) ?first"
    using advance_refines[of current seen "\<lambda>state. state = LOpen a" "LResolved a ResSubmitted"] assms st_submitted
    by fastforce
  then obtain w res where run: "?first = Some (w, res)" by (auto simp: refines_def split: option.splits)
  show ?thesis
  proof (cases res)
    case (Inr l)
    with run first show ?thesis by (auto simp: latch_exact_evidence_def intro: refines_mono)
  next
    case (Inl l)
    let ?next = "case again of Some w' \<Rightarrow> w' | None \<Rightarrow> w"
    have w: "w \<in> set (current # seen)" using first run Inl by (auto simp: refines_def)
    have "refines (set (?next # seen')) (advance seen' (suspended_at a) (latch_encode (LResolved a ResLateExact)) ?next)"
      by (rule advance_refines)
         (use assms w in \<open>auto simp: suspended_at_def st_late split: option.splits latch.splits\<close>)
    moreover have "set (?next # seen') \<subseteq> set (current # seen) \<union> set_option again \<union> set seen'"
      using w by (cases again) auto
    ultimately show ?thesis using run Inl by (auto simp: latch_exact_evidence_def intro: refines_mono)
  qed
qed

lemma user_refines:
  assumes "\<And>v. v \<in> set (current # seen) \<union> set_option again \<Longrightarrow> stored v"
  shows "refines (set (current # seen) \<union> set_option again) (latch_user_cleared again seen current)"
proof -
  let ?next = "case again of Some w' \<Rightarrow> w' | None \<Rightarrow> current"
  have stored_next: "stored ?next" using assms by (cases again) auto
  then obtain ln where ln: "latch_decode ?next = Some ln" "?next = latch_encode ln" using stored_decode by blast
  have sub: "set (?next # seen) \<subseteq> set (current # seen) \<union> set_option again" by (cases again) auto
  obtain l where l: "latch_decode current = Some l" using assms stored_decode[of current] by auto
  show ?thesis
  proof (cases l)
    case (LSuspended a c)
    have "refines (set (?next # seen)) (advance seen (suspended_at a) (latch_encode (LResolved a ResUser)) ?next)"
      by (rule advance_refines)
         (use assms stored_next in \<open>auto simp: suspended_at_def st_user split: latch.splits\<close>)
    with l LSuspended sub show ?thesis by (auto simp: latch_user_cleared_def Let_def intro: refines_mono)
  qed (use l ln sub in \<open>auto simp: latch_user_cleared_def Let_def refines_def\<close>)
qed

lemma cell_ops_refine_aux:
  assumes "\<And>v. v \<in> set (w # seen) \<union> set_option again \<union> set seen' \<Longrightarrow> stored v" "cell_op_ok op"
  shows "refines (set (w # seen) \<union> set_option again \<union> set seen') (run_cell op seen again seen' w)"
proof -
  have seen: "\<And>v. v \<in> set (w # seen) \<Longrightarrow> stored v" using assms(1) by blast
  have adv: "refines (set (w # seen) \<union> set_option again \<union> set seen') (advance seen fits (latch_encode target) w)"
    if "\<And>l. fits l \<Longrightarrow> latch_step l target" for fits target
    using advance_refines[OF seen that] by (rule refines_mono) auto
  show ?thesis
  proof (cases op)
    case (CellOpen a)
    then show ?thesis using adv[of "earlier_than a" "LOpen a"] st_open by (simp add: latch_open_def)
  next
    case (CellNotTyped a)
    then show ?thesis
      using adv[of "\<lambda>l. l = LOpen a" "LResolved a ResNotTyped"] st_not_typed by (simp add: latch_not_typed_def)
  next
    case (CellSuspend a c)
    then show ?thesis using adv[of "\<lambda>l. l = LOpen a" "LSuspended a c"] st_suspend by (simp add: latch_suspend_def)
  next
    case (CellExact a)
    then show ?thesis using exact_refines[OF assms(1)] by simp
  next
    case (CellResolve a r)
    have "latch_step l (LResolved a r)" if "l = LOpen a \<or> suspended_at a l" for l
      using that assms(2) CellResolve
      by (cases l) (auto simp: suspended_at_def intro: st_resolve_open st_resolve_suspended)
    from adv[OF this] CellResolve show ?thesis by (simp add: latch_resolve_def)
  next
    case CellUser
    have "refines (set (w # seen) \<union> set_option again) (latch_user_cleared again seen w)"
      by (rule user_refines) (use assms(1) in blast)
    with CellUser show ?thesis by (auto elim!: refines_mono)
  qed
qed

text \<open>
  C27: whatever the threads of the deck do to a latch cell at once, an operation never panics, and it
  either leaves a word it saw, or moves one state it saw along the abstract machine, strictly up the
  order of latch states. So an attempt's state only ever advances.
\<close>

theorem cell_ops_refine:
  assumes "\<And>v. v \<in> set (w # seen) \<union> set_option again \<union> set seen' \<Longrightarrow> stored v" "cell_op_ok op"
  shows "refines (set (w # seen) \<union> set_option again \<union> set seen') (run_cell op seen again seen' w)"
  using cell_ops_refine_aux[OF assms] .

theorem cell_ops_refine_witness:
  "refines {latch_encode (LOpen 3), latch_encode (LSuspended 3 Layout)}
     (run_cell (CellSuspend 3 EchoMismatch) [latch_encode (LSuspended 3 Layout)] None [] (latch_encode (LOpen 3)))"
  using cell_ops_refine[of "latch_encode (LOpen 3)" "[latch_encode (LSuspended 3 Layout)]" None "[]"
      "CellSuspend 3 EchoMismatch"]
  by (auto simp: stored_def simp del: latch_encode.simps)

section \<open>A resolution is final\<close>

inductive cell_move :: "64 word \<Rightarrow> 64 word \<Rightarrow> bool" where
  "cell_op_ok op \<Longrightarrow> run_cell op [] None [] w = Some (w', res) \<Longrightarrow> cell_move w w'"
| "cell_move w (latch_retire w)"

lemma cell_move_step:
  assumes "cell_move w w'" "w = latch_encode l"
  shows "\<exists>l'. w' = latch_encode l' \<and> latch_step\<^sup>*\<^sup>* l l'"
  using assms
proof (induction rule: cell_move.induct)
  case (1 op w w' res)
  have "refines (set [w] \<union> set_option None \<union> set []) (run_cell op [] None [] w)"
    by (rule cell_ops_refine_aux) (use 1 in \<open>auto simp: stored_def\<close>)
  with 1 have "refines {w} (Some (w', res))" by simp
  then show ?case
    using 1(3) by (auto simp: refines_def dest!: latch_encode_inject split: sum.splits)
next
  case (2 w)
  then show ?case
    by (intro exI[of _ LRetired]) (auto simp: latch_retire_def intro: st_retire)
qed

lemma cell_moves_steps:
  "cell_move\<^sup>*\<^sup>* w w' \<Longrightarrow> w = latch_encode l \<Longrightarrow> \<exists>l'. w' = latch_encode l' \<and> latch_step\<^sup>*\<^sup>* l l'"
proof (induction rule: rtranclp_induct)
  case base
  then show ?case by auto
next
  case (step v v')
  then show ?case using cell_move_step by (metis rtranclp_trans)
qed

text \<open>
  C28: how an attempt ended is decided once. After a resolution is stored, no sequence of operations on
  the cell changes it for that attempt: the cell still says it, or is on a later attempt, or is
  retired; and a retired cell stays retired.
\<close>

theorem resolution_final:
  assumes "cell_move\<^sup>*\<^sup>* (latch_encode l) w'"
  shows "(\<exists>l'. latch_decode w' = Some l'
            \<and> (case l of
                 LResolved a r \<Rightarrow> l' = LResolved a r \<or> unat a < latch_attempt l'
               | LRetired \<Rightarrow> l' = LRetired
               | _ \<Rightarrow> latch_attempt l \<le> latch_attempt l'))"
proof -
  obtain l' where l': "w' = latch_encode l'" "latch_step\<^sup>*\<^sup>* l l'" using cell_moves_steps[OF assms refl] by blast
  have mono: "latch_attempt l \<le> latch_attempt l'"
    using l'(2) by (induction rule: rtranclp_induct) (auto dest: latch_step_attempt)
  show ?thesis
    using l' mono by (intro exI[of _ l']) (auto dest: resolved_stays retired_stays split: latch.split)
qed

theorem resolution_final_witness:
  "\<exists>l'. latch_decode (latch_retire (latch_encode (LResolved 3 ResSubmitted))) = Some l'
     \<and> (l' = LResolved 3 ResSubmitted \<or> unat (3 :: 32 word) < latch_attempt l')"
proof -
  have "cell_move\<^sup>*\<^sup>* (latch_encode (LResolved 3 ResSubmitted)) (latch_retire (latch_encode (LResolved 3 ResSubmitted)))"
    using cell_move.intros(2) by blast
  from resolution_final[OF this] show ?thesis by simp
qed

section \<open>The attempt counter\<close>

text \<open>
  Attempt numbers are never reused and never wrap. An allocation under any interference answers a
  number it saw in the counter, leaves the next one there, and never hands out the reserved number;
  once the counter is at the reserved number it stays there.
\<close>

theorem allocate_fresh:
  "case allocate seen n of
     (n', Some k) \<Rightarrow> k \<in> set (n # seen) \<and> k \<noteq> ATTEMPT_RESERVED \<and> n' = k + 1 \<and> unat n' = unat k + 1
   | (n', None) \<Rightarrow> n' = ATTEMPT_RESERVED \<and> n' \<in> set (n # seen) \<and> exhausted n'"
  unfolding allocate_def
proof (induction seen arbitrary: n)
  case Nil
  have "unat (n + 1) = unat n + 1" if "n \<noteq> ATTEMPT_RESERVED"
  proof -
    have "1 + n \<noteq> 0" using that by (metis ATTEMPT_RESERVED_def add.commute add_eq_0_iff)
    from unatSuc[OF this] show ?thesis by (simp add: add.commute)
  qed
  then show ?case by (auto simp: exhausted_def)
next
  case (Cons s rest)
  show ?case
  proof (cases "n = ATTEMPT_RESERVED")
    case True
    then show ?thesis by (simp add: exhausted_def)
  next
    case False
    with Cons.IH[of s] show ?thesis by (auto split: prod.splits option.splits)
  qed
qed

section \<open>The attempt ring\<close>

lemma ring_entry_parts: "ucast (drop_bit 32 (ring_entry a t)) = a" "ucast (ring_entry a t) = t"
proof -
  note a = unat32_less[of a] and t = unat32_less[of t]
  have "unat (drop_bit 32 (ring_entry a t)) = (unat a * 4294967296 + unat t) div 4294967296"
    by (simp only: unat_drop_bit_eq unat_ring_entry) (simp add: drop_bit_eq_div)
  then have "unat (ucast (drop_bit 32 (ring_entry a t)) :: 32 word) = unat a"
    using a t by (simp add: unsigned_ucast_eq take_bit_eq_mod)
  then show "ucast (drop_bit 32 (ring_entry a t)) = a" by (simp add: word_unat_eq_iff)
  have "(unat a * 4294967296 + unat t) mod 4294967296 = unat t" using t by (simp only: mod_mult_self3 mod_less)
  then have "unat (ucast (ring_entry a t) :: 32 word) = unat t"
    by (simp add: unsigned_ucast_eq unat_ring_entry take_bit_eq_mod)
  then show "ucast (ring_entry a t) = t" by (simp add: word_unat_eq_iff)
qed

lemma ring_entry_nonzero: "a \<noteq> 0 \<Longrightarrow> ring_entry a t \<noteq> 0"
  using ring_entry_parts(1)[of a t] by auto

lemma fold_max_member: "fold max xs (a :: 32 word) \<in> set (a # xs)"
proof (induction xs arbitrary: a)
  case Nil
  show ?case by simp
next
  case (Cons x xs)
  from Cons[of "max x a"] show ?case by (auto simp: max_def split: if_splits)
qed

lemma lookup_member:
  assumes "ring_lookup t ring = Some b"
  shows "\<exists>e \<in> set ring. e \<noteq> 0 \<and> ucast e = t \<and> ucast (drop_bit 32 e) = b"
proof -
  let ?as = "map (\<lambda>e. ucast (drop_bit 32 e) :: 32 word) (filter (\<lambda>e. e \<noteq> 0 \<and> ucast e = t) ring)"
  have "b \<in> set ?as"
    using assms fold_max_member by (auto simp only: ring_lookup_def split: list.splits)
  then show ?thesis by auto
qed

lemma filter_update_only:
  assumes "k < length xs" "filter P xs = []" "P y"
  shows "filter P (xs[k := y]) = [y]"
proof -
  have "filter P (take k xs) = []" "filter P (drop (Suc k) xs) = []"
    using assms(2) by (auto simp: filter_empty_conv dest: in_set_takeD in_set_dropD)
  with assms(1,3) show ?thesis by (simp add: upd_conv_take_nth_drop)
qed

lemma record_lookup_self:
  assumes "length ring = RING_SLOTS" "a \<noteq> 0" "ring_lookup t ring = None"
  shows "ring_lookup t (ring_record a t ring) = Some a"
proof -
  let ?k = "unat a mod RING_SLOTS" and ?e = "ring_entry a t"
  have k: "?k < length ring" using assms(1) by (simp add: RING_SLOTS_def)
  have none: "filter (\<lambda>e. e \<noteq> 0 \<and> ucast e = t) ring = []"
    using assms(3) by (auto simp: ring_lookup_def split: list.splits)
  have "filter (\<lambda>e. e \<noteq> 0 \<and> ucast e = t) (ring[?k := ?e]) = [?e]"
    by (rule filter_update_only[OF k none]) (simp add: ring_entry_parts ring_entry_nonzero assms(2))
  then show ?thesis by (simp add: ring_lookup_def ring_record_def ring_entry_parts)
qed

text \<open>
  A token finds its attempt. Recording a token that no recent attempt has makes a lookup of it
  answer exactly its attempt, and a lookup of any other token that it answers is one it answered
  before (an evicted token is a miss, never another attempt's).
\<close>

theorem ring_record_lookup:
  assumes "length ring = RING_SLOTS" "a \<noteq> 0" "ring_lookup t ring = None"
  shows "ring_lookup t (ring_record a t ring) = Some a
     \<and> (\<forall>t'. t' \<noteq> t \<longrightarrow> (case ring_lookup t' (ring_record a t ring) of
           None \<Rightarrow> True
         | Some b \<Rightarrow> \<exists>e \<in> set ring. e \<noteq> 0 \<and> ucast e = t' \<and> ucast (drop_bit 32 e) = b))"
proof -
  let ?k = "unat a mod RING_SLOTS" and ?e = "ring_entry a t"
  have k: "?k < length ring" using assms(1) by (simp add: RING_SLOTS_def)
  have "ring_lookup t (ring_record a t ring) = Some a" by (rule record_lookup_self[OF assms])
  moreover have "\<exists>e \<in> set ring. e \<noteq> 0 \<and> ucast e = t' \<and> ucast (drop_bit 32 e) = b"
    if "t' \<noteq> t" and found: "ring_lookup t' (ring_record a t ring) = Some b" for t' b
  proof -
    obtain e where e: "e \<in> set (ring_record a t ring)" "e \<noteq> 0" "ucast e = t'" "ucast (drop_bit 32 e) = b"
      using lookup_member[OF found] by blast
    then have "e \<noteq> ?e" using that(1) ring_entry_parts(2) by metis
    with e(1) k have "e \<in> set ring" using set_update_subset_insert[of ring ?k ?e] by (auto simp: ring_record_def)
    with e show ?thesis by blast
  qed
  ultimately show ?thesis by (simp split: option.split)
qed

section \<open>The ring token\<close>

definition letter_value :: "char \<Rightarrow> nat" where
  "letter_value b = byte_of b - 97"

lemma lowercase_value: "is_ascii_lowercase b \<Longrightarrow> letter_value b < 32 \<and> of_byte (97 + letter_value b) = b"
  by (auto simp: is_ascii_lowercase_def letter_value_def)

lemma packed_value:
  assumes "list_all is_ascii_lowercase str" "length str \<le> 6"
  shows "unat (foldl (\<lambda>packed b. push_bit 5 packed OR word_of_nat (byte_of b - 97)) (0 :: 32 word) str)
           = foldl (\<lambda>n b. n * 32 + letter_value b) 0 str
         \<and> foldl (\<lambda>n b. n * 32 + letter_value b) 0 str < 32 ^ length str"
  using assms
proof (induction str rule: rev_induct)
  case Nil
  show ?case by simp
next
  case (snoc b str)
  let ?w = "foldl (\<lambda>packed b. push_bit 5 packed OR word_of_nat (byte_of b - 97)) (0 :: 32 word) str"
  let ?n = "foldl (\<lambda>n b. n * 32 + letter_value b) 0 str"
  have IH: "unat ?w = ?n" "?n < 32 ^ length str" using snoc by simp_all
  have v: "letter_value b < 32" using snoc.prems(1) lowercase_value by simp
  have le: "(32 :: nat) ^ length str \<le> 32 ^ 5" using snoc.prems(2) by (intro power_increasing) simp_all
  have bv: "unat (word_of_nat (byte_of b - 97) :: 32 word) = letter_value b"
    using v by (simp add: letter_value_def unsigned_of_nat take_bit_nat_eq_self_iff)
  have "unat (push_bit 5 ?w OR word_of_nat (byte_of b - 97)) = ?n * 2 ^ 5 + letter_value b"
    using IH v bv le by (subst unat_or_shift) simp_all
  with IH v show ?case by simp
qed

lemma letter_of_token: "unat (drop_bit (5 * i) (t :: 32 word) AND 31) = unat t div 32 ^ i mod 32"
proof -
  have m: "(31 :: 32 word) = mask 5" by (simp add: mask_eq_exp_minus_1)
  have "unat (drop_bit (5 * i) t AND 31) = take_bit 5 (drop_bit (5 * i) (unat t))"
    unfolding m take_bit_eq_mask[symmetric] unsigned_take_bit_eq unat_drop_bit_eq by simp
  also have "\<dots> = unat t div 32 ^ i mod 32" by (simp add: take_bit_eq_mod drop_bit_eq_div power_mult)
  finally show ?thesis .
qed

lemma letters_value: "ring_token_letters t = map (\<lambda>i. of_byte (97 + unat t div 32 ^ i mod 32)) [5, 4, 3, 2, 1, 0]"
proof -
  have "rev [0..<6] = [5, 4, 3, 2, 1, 0::nat]" by code_simp
  then show ?thesis unfolding ring_token_letters_def letter_of_token by (simp only:)
qed

lemma digits_back:
  fixes a b c d e f :: nat
  assumes "a < 32" "b < 32" "c < 32" "d < 32" "e < 32" "f < 32"
    and n: "n = ((((a * 32 + b) * 32 + c) * 32 + d) * 32 + e) * 32 + f"
  shows "map (\<lambda>i. n div 32 ^ i mod 32) [5, 4, 3, 2, 1, 0] = [a, b, c, d, e, f]"
proof -
  have step: "(x * 32 + y) div 32 = x" "(x * 32 + y) mod 32 = y" if "y < 32" for x y :: nat
    using that by simp_all
  have "x div 1024 = x div 32 div 32" "x div 32768 = x div 32 div 32 div 32"
    "x div 1048576 = x div 32 div 32 div 32 div 32" "x div 33554432 = x div 32 div 32 div 32 div 32 div 32" for x :: nat
    by (simp_all flip: div_mult2_eq)
  note pows = this
  have "n div 32 = (((a * 32 + b) * 32 + c) * 32 + d) * 32 + e" unfolding n by (rule step(1)) fact
  note n1 = this
  have n2: "n div 32 div 32 = ((a * 32 + b) * 32 + c) * 32 + d" unfolding n1 by (rule step(1)) fact
  have n3: "n div 32 div 32 div 32 = (a * 32 + b) * 32 + c" unfolding n2 by (rule step(1)) fact
  have n4: "n div 32 div 32 div 32 div 32 = a * 32 + b" unfolding n3 by (rule step(1)) fact
  have n5: "n div 32 div 32 div 32 div 32 div 32 = a" unfolding n4 by (rule step(1)) fact
  have "n mod 32 = f" unfolding n by (rule step(2)) fact
  moreover have "n div 32 mod 32 = e" unfolding n1 by (rule step(2)) fact
  moreover have "n div 32 div 32 mod 32 = d" unfolding n2 by (rule step(2)) fact
  moreover have "n div 32 div 32 div 32 mod 32 = c" unfolding n3 by (rule step(2)) fact
  moreover have "n div 32 div 32 div 32 div 32 mod 32 = b" unfolding n4 by (rule step(2)) fact
  moreover have "n div 32 div 32 div 32 div 32 div 32 mod 32 = a" unfolding n5 using assms(1) by simp
  ultimately show ?thesis by (simp add: pows)
qed

lemma parse_letters:
  assumes "ring_token_parse str = Some t"
  shows "ring_token_letters t = str"
proof -
  have str: "length str = 6" "list_all is_ascii_lowercase str"
    and t: "t = foldl (\<lambda>packed b. push_bit 5 packed OR word_of_nat (byte_of b - 97)) 0 str"
    using assms by (auto simp: ring_token_parse_def split: if_splits)
  obtain a b c d e f where s6: "str = [a, b, c, d, e, f]"
    using str(1) by (auto simp: numeral_eq_Suc length_Suc_conv)
  let ?v = letter_value
  have "unat t = ((((?v a * 32 + ?v b) * 32 + ?v c) * 32 + ?v d) * 32 + ?v e) * 32 + ?v f"
    using packed_value[OF str(2)] str(1) t s6 by simp
  from digits_back[OF _ _ _ _ _ _ this] str(2) s6 lowercase_value
  have "map (\<lambda>i. unat t div 32 ^ i mod 32) [5, 4, 3, 2, 1, 0] = [?v a, ?v b, ?v c, ?v d, ?v e, ?v f]" by simp
  then have "ring_token_letters t = map (\<lambda>v. of_byte (97 + v)) [?v a, ?v b, ?v c, ?v d, ?v e, ?v f]"
    unfolding letters_value by (simp only: list.map list.inject)
  with str(2) s6 lowercase_value show ?thesis by simp
qed

lemma parse_bound: "ring_token_parse str = Some t \<Longrightarrow> unat t < 2 ^ 30"
  using packed_value[of str] by (auto simp: ring_token_parse_def split: if_splits)

text \<open>
  A ring token and its six letters are the same thing: the letters of a parsed token are the text
  it was parsed from, they parse to it again, and its packed value fits in thirty bits beside the
  attempt number of a ring entry.
\<close>

theorem token_round_trip:
  assumes "ring_token_parse str = Some t"
  shows "ring_token_letters t = str \<and> ring_token_parse (ring_token_letters t) = Some t \<and> unat t < 2 ^ 30"
  using parse_letters[OF assms] parse_bound[OF assms] assms by simp

lemma pick_loop_fresh:
  "pick_token_loop n draws screen ring = Some t
   \<Longrightarrow> \<not> contains screen (ring_token_letters t) \<and> ring_lookup t ring = None
       \<and> (\<exists>k < n. ring_token_from_draws (drop (6 * k) draws) = Some t)"
proof (induction n arbitrary: draws)
  case 0
  then show ?case by simp
next
  case (Suc n)
  then obtain c where c: "ring_token_from_draws draws = Some c" by (auto split: option.splits)
  show ?case
  proof (cases "\<not> contains screen (ring_token_letters c) \<and> ring_lookup c ring = None")
    case True
    with Suc.prems c have "t = c" by simp
    with True c show ?thesis by (intro conjI exI[of _ 0]) auto
  next
    case False
    with Suc.prems c have "pick_token_loop n (drop 6 draws) screen ring = Some t" by auto
    from Suc.IH[OF this] obtain k where k: "k < n" "ring_token_from_draws (drop (6 * k) (drop 6 draws)) = Some t"
      "\<not> contains screen (ring_token_letters t) \<and> ring_lookup t ring = None" by blast
    then have "ring_token_from_draws (drop (6 * Suc k) draws) = Some t" by (simp add: add.commute)
    with k show ?thesis by (intro conjI exI[of _ "Suc k"]) auto
  qed
qed

lemma draws_letters:
  assumes "ring_token_from_draws draws = Some t"
  shows "set (ring_token_letters t) \<subseteq> set TOKEN_ALPHABET"
proof -
  have "ring_token_letters t = map (\<lambda>d. TOKEN_ALPHABET ! (d mod 16)) (take 6 draws)"
    using parse_letters assms by (simp add: ring_token_from_draws_def)
  moreover have "TOKEN_ALPHABET ! (d mod 16) \<in> set TOKEN_ALPHABET" for d :: nat
    by (rule nth_mem) (simp add: TOKEN_ALPHABET_def)
  ultimately show ?thesis by auto
qed

text \<open>
  The token of an attempt is a checked choice: when one is picked, its letters are from the inert
  alphabet, it is nowhere on the screen the attempt was admitted on, and no recent attempt has it;
  so the ring entry then written for it correlates to this attempt alone.
\<close>

theorem pick_token_fresh:
  assumes "pick_token draws screen ring = Some t" "length ring = RING_SLOTS" "a \<noteq> 0"
  shows "set (ring_token_letters t) \<subseteq> set TOKEN_ALPHABET \<and> \<not> contains screen (ring_token_letters t)
     \<and> ring_lookup t ring = None \<and> ring_lookup t (ring_record a t ring) = Some a"
proof -
  have p: "\<not> contains screen (ring_token_letters t)" "ring_lookup t ring = None"
    "\<exists>k. ring_token_from_draws (drop (6 * k) draws) = Some t"
    using pick_loop_fresh assms(1) unfolding pick_token_def by blast+
  from record_lookup_self[OF assms(2,3) p(2)] p draws_letters show ?thesis by blast
qed

end
