(* ===== verification/Doorbell_Txn.thy ===== *)
theory Doorbell_Txn
  imports Latch_Props Untrusted_Text
begin

text \<open>
  The doorbell's transaction, \<^verbatim>\<open>Txn\<close> of \<^verbatim>\<open>src/src/doorbell_txn.rs\<close>: one attempt to type the deck's
  line into an agent's composer and press Enter on it.

  A transaction is a record \<open>txn\<close>; what it shares with the rest of the daemon is the record \<open>world\<close>:
  the latch cell, the claim words of the jobs it queued (a store, so that the writer thread and the
  transaction see one word), the answers the final seam will give, and for each operation on the cell
  the states other threads store while its exchange runs. A method takes both and returns the
  actions it answers with. An \<^verbatim>\<open>expect\<close> or an index out of range, which would panic, is the action
  \<open>APanic\<close>.
\<close>

section \<open>What the transaction reads\<close>

record composer_view =
  cv_text :: string
  cv_cursor_at_end :: bool
  cv_placeholder :: bool
  cv_selection :: bool
  cv_hidden :: bool

record frame =
  fr_epoch :: nat
  fr_clean :: bool
  fr_dialog :: "string option"
  fr_composer :: "composer_view option"
  fr_user_cells :: "string list"
  fr_text :: string
  fr_touched :: bool

definition char_count :: "string \<Rightarrow> nat" where
  "char_count s = length (chars s)"

definition starts_with :: "string \<Rightarrow> string \<Rightarrow> bool" where
  "starts_with s pre \<longleftrightarrow> take (length pre) s = pre"

definition composer_is :: "(composer_view \<Rightarrow> bool) \<Rightarrow> frame \<Rightarrow> bool" where
  "composer_is P f = (case fr_composer f of None \<Rightarrow> False | Some c \<Rightarrow> P c)"

definition empty_and_ready :: "frame \<Rightarrow> bool" where
  "empty_and_ready f \<longleftrightarrow>
     \<not> fr_touched f \<and> fr_dialog f = None
     \<and> composer_is (\<lambda>c. cv_placeholder c \<or> (\<not> cv_hidden c \<and> cv_text c = [] \<and> cv_cursor_at_end c)) f"

definition holds_exactly :: "string \<Rightarrow> frame \<Rightarrow> bool" where
  "holds_exactly str f \<longleftrightarrow>
     composer_is (\<lambda>c. \<not> cv_placeholder c \<and> \<not> cv_hidden c \<and> cv_text c = str \<and> cv_cursor_at_end c) f"

definition holds_prefix :: "string \<Rightarrow> nat \<Rightarrow> frame \<Rightarrow> bool" where
  "holds_prefix line n f \<longleftrightarrow>
     composer_is (\<lambda>c. \<not> cv_placeholder c \<and> \<not> cv_hidden c \<and> cv_cursor_at_end c
       \<and> char_count (cv_text c) = n \<and> starts_with line (cv_text c)) f"

definition placeholder_empty :: "frame \<Rightarrow> bool" where
  "placeholder_empty f \<longleftrightarrow> fr_dialog f = None \<and> composer_is cv_placeholder f"

record caps =
  cap_delete_key :: bool
  cap_placeholder :: bool
  cap_hook_route :: bool
  cap_transcript_route :: bool
  cap_staged_head :: "nat option"

record seam_read =
  sr_watermark :: nat
  sr_job_mark :: nat
  sr_frame :: frame
  sr_mode :: "string + unit"
  sr_open :: bool

datatype not_typed =
    CannotType string | AwaitingPrompt | NTDialog string | HumanInput | NTLayout | Settling
  | NotAdmitted | NTRetired | Exhausted | NoToken | NTDeadline | WriteFailed | OffGround

record admission =
  adm_activation :: "string + unit"
  adm_mode :: "string + unit"
  adm_ledger_idle :: bool
  adm_watermark :: nat
  adm_job_mark :: nat
  adm_frame :: frame
  adm_nudge_in_flight :: bool
  adm_settling :: bool
  adm_submit_route :: bool
  adm_still_admitted :: bool

datatype outcome =
  NothingWritten not_typed | OutSubmitted | OutWithdrawn | Unresolved cause | OutRetired

section \<open>Jobs and their claims\<close>

datatype job = JobLine string | JobCr | JobDeletes nat

datatype claim_state = ClaimQueued | ClaimStarted | ClaimWithdrawn | ClaimRefused

datatype 'r start = StStarted | StRefused 'r | StNotQueued

text \<open>
  The condition is asked while the claim is read as queued; \<open>at_swap\<close> is the claim at the exchange,
  which another thread may have moved while the condition ran.
\<close>

definition start_if :: "('c \<Rightarrow> 'r + unit) \<Rightarrow> 'c \<Rightarrow> claim_state \<Rightarrow> claim_state \<Rightarrow> claim_state \<times> 'r start" where
  "start_if pred ctx at_load at_swap =
     (if at_load \<noteq> ClaimQueued then (at_swap, StNotQueued)
      else case pred ctx of
             Inr _ \<Rightarrow> (if at_swap = ClaimQueued then (ClaimStarted, StStarted) else (at_swap, StNotQueued))
           | Inl reason \<Rightarrow>
               (if at_swap = ClaimQueued then (ClaimRefused, StRefused reason) else (at_swap, StNotQueued)))"

definition claim_start :: "claim_state \<Rightarrow> claim_state \<times> bool" where
  "claim_start s = (if s = ClaimQueued then (ClaimStarted, True) else (s, False))"

definition claim_withdraw :: "claim_state \<Rightarrow> claim_state \<times> bool" where
  "claim_withdraw s = (if s = ClaimQueued then (ClaimWithdrawn, True) else (s, False))"

datatype action = Enqueue job nat | WakeAt instant | Reproject | Release outcome | APanic

datatype event =
    EvFrame frame | JobStarted | JobEnded nat bool | JobStalled | JobNotStarted
  | Evidence ring_token bool | Tick | EvModeChanged | AdmissionLost | EvRetired

datatype phase =
    Typing nat | LineJob nat | HeadEcho | Echo | PreCr | CrJob | Confirm | Withdrawing | DeleteJob
  | ConfirmWithdrawn | Pause cause | Done outcome

datatype job_kind = KLine | KCr | KDeletes

datatype owned = Idle | OQueued job_kind | ORunning job_kind

datatype end_why = EndNotTyped not_typed | EndExpire | EndSubmitted | EndRetired

datatype seam_verdict =
  VContended instant | VPass frame | VHuman | VJobMark | VMode string | VLayout | VClosed | VExpired

record txn =
  tx_attempt :: "32 word"
  tx_token :: ring_token
  tx_line :: string
  tx_caps :: caps
  tx_deadline :: instant
  tx_w0 :: nat
  tx_j0 :: nat
  tx_epoch :: nat
  tx_phase :: phase
  tx_frame :: frame
  tx_job :: owned
  tx_claim :: "nat option"
  tx_cr_ended_at :: "instant option"
  tx_wrote :: bool
  tx_accepted :: nat
  tx_line_done_at :: "instant option"
  tx_phase_since :: instant
  tx_withdrawal :: "(nat \<times> cause) option"
  tx_after_cr :: bool
  tx_admission_lost :: bool
  tx_unresolved_at :: "(string \<times> nat option) option"

text \<open>The diagnosis \<^verbatim>\<open>unresolved_at\<close> is kept as what its message shows: the step, and the composer text's length.\<close>

record world =
  wd_cell :: latch
  wd_races :: "latch list list"
  wd_claims :: "claim_state list"
  wd_seam :: "seam_read option list"

type_synonym sys = "txn \<times> world"
type_synonym reply = "action list \<times> sys"

definition TXN_MAX :: duration where "TXN_MAX = from_secs 3"
definition ECHO_WAIT :: duration where "ECHO_WAIT = from_millis 1500"
definition SUBMIT_CONFIRM_WAIT :: duration where "SUBMIT_CONFIRM_WAIT = from_secs 1"
definition SUBMIT_DELAY :: duration where "SUBMIT_DELAY = from_millis 150"
definition SEAM_RETRY :: duration where "SEAM_RETRY = from_millis 1"
definition TOKEN_HEAD_CHARS :: nat where "TOKEN_HEAD_CHARS = 8"

section \<open>The cell, decoded\<close>

text \<open>
  The cell's operations on states rather than words; \<open>l_advance_word\<close> shows they are the operations of
  \<open>Doorbell_Latch\<close> on the words the states are stored as.
\<close>

fun l_advance :: "latch list \<Rightarrow> (latch \<Rightarrow> bool) \<Rightarrow> latch \<Rightarrow> latch \<Rightarrow> latch \<times> (latch + latch)" where
  "l_advance seen fits target current =
     (if current = LRetired \<or> \<not> fits current \<or> latch_key (latch_encode target) \<le> latch_key (latch_encode current)
      then (current, Inl current)
      else case seen of [] \<Rightarrow> (target, Inr current) | s # rest \<Rightarrow> l_advance rest fits target s)"

declare l_advance.simps [simp del]

lemma encode_retired [simp]: "latch_encode l = RETIRED \<longleftrightarrow> l = LRetired"
  using latch_encode_inject[of l LRetired] by auto

lemma l_advance_word:
  "advance (map latch_encode seen) fits (latch_encode target) (latch_encode current)
     = Some (map_prod latch_encode id (l_advance seen fits target current))"
proof (induction seen arbitrary: current)
  case Nil
  show ?case by (simp add: advance.simps[of "[]"] l_advance.simps[of "[]"])
next
  case (Cons s rest)
  then show ?case by (simp add: advance.simps[of "_ # _"] l_advance.simps[of "_ # _"])
qed

definition next_race :: "world \<Rightarrow> latch list \<times> world" where
  "next_race w = (case wd_races w of [] \<Rightarrow> ([], w) | r # rest \<Rightarrow> (r, w\<lparr>wd_races := rest\<rparr>))"

definition cell_advance :: "(latch \<Rightarrow> bool) \<Rightarrow> latch \<Rightarrow> world \<Rightarrow> (latch + latch) \<times> world" where
  "cell_advance fits target w =
     (case next_race w of (seen, w1) \<Rightarrow>
        (case l_advance seen fits target (wd_cell w1) of (l, res) \<Rightarrow> (res, w1\<lparr>wd_cell := l\<rparr>)))"

definition cell_open :: "32 word \<Rightarrow> world \<Rightarrow> (latch + latch) \<times> world" where
  "cell_open a = cell_advance (earlier_than a) (LOpen a)"

definition cell_not_typed :: "32 word \<Rightarrow> world \<Rightarrow> (latch + latch) \<times> world" where
  "cell_not_typed a = cell_advance (\<lambda>l. l = LOpen a) (LResolved a ResNotTyped)"

definition cell_suspend :: "32 word \<Rightarrow> cause \<Rightarrow> world \<Rightarrow> (latch + latch) \<times> world" where
  "cell_suspend a c = cell_advance (\<lambda>l. l = LOpen a) (LSuspended a c)"

definition cell_resolve :: "32 word \<Rightarrow> resolution \<Rightarrow> world \<Rightarrow> (latch + latch) \<times> world" where
  "cell_resolve a how = cell_advance (\<lambda>l. l = LOpen a \<or> suspended_at a l) (LResolved a how)"

definition cell_retire :: "world \<Rightarrow> world" where
  "cell_retire w = w\<lparr>wd_cell := LRetired\<rparr>"

section \<open>Admission\<close>

text \<open>
  The refusals come first, in the source's order; then the token, the attempt number, the ring entry
  and the cell, in that order. The counter and the ring come back changed.
\<close>

definition admit_checks :: "admission \<Rightarrow> latch \<Rightarrow> not_typed + unit" where
  "admit_checks adm cell =
     (case adm_activation adm of Inl clause \<Rightarrow> Inl (CannotType clause) | Inr _ \<Rightarrow>
      (case adm_mode adm of Inl clause \<Rightarrow> Inl (CannotType clause) | Inr _ \<Rightarrow>
       (if \<not> adm_submit_route adm then Inl (CannotType ''no_submit_route'')
        else if \<not> adm_ledger_idle adm then Inl HumanInput
        else if \<not> fr_clean (adm_frame adm) \<or> adm_nudge_in_flight adm then Inl NTLayout
        else if adm_settling adm then Inl Settling
        else if \<not> adm_still_admitted adm then Inl NotAdmitted
        else case fr_dialog (adm_frame adm) of Some d \<Rightarrow> Inl (NTDialog d) | None \<Rightarrow>
             (if \<not> empty_and_ready (adm_frame adm) then Inl AwaitingPrompt
              else if cell = LRetired then Inl NTRetired else Inr ()))))"

definition new_txn ::
  "admission \<Rightarrow> 32 word \<Rightarrow> ring_token \<Rightarrow> message_id \<Rightarrow> caps \<Rightarrow> instant \<Rightarrow> txn" where
  "new_txn adm attempt token i cps now =
     \<lparr>tx_attempt = attempt, tx_token = token, tx_line = ring_token_line token i, tx_caps = cps,
      tx_deadline = now + TXN_MAX, tx_w0 = adm_watermark adm, tx_j0 = adm_job_mark adm,
      tx_epoch = fr_epoch (adm_frame adm), tx_phase = Typing 0, tx_frame = adm_frame adm,
      tx_job = Idle, tx_claim = None, tx_cr_ended_at = None, tx_wrote = False, tx_accepted = 0,
      tx_line_done_at = None, tx_phase_since = now, tx_withdrawal = None, tx_after_cr = False,
      tx_admission_lost = False, tx_unresolved_at = None\<rparr>"

definition admit ::
  "admission \<Rightarrow> 32 word list \<Rightarrow> 32 word \<Rightarrow> attempt_ring \<Rightarrow> nat list \<Rightarrow> message_id \<Rightarrow> caps \<Rightarrow> instant \<Rightarrow> world
     \<Rightarrow> (not_typed + txn) \<times> 32 word \<times> attempt_ring \<times> world" where
  "admit adm seen counter ring draws i cps now w =
     (case admit_checks adm (wd_cell w) of
        Inl why \<Rightarrow> (Inl why, counter, ring, w)
      | Inr _ \<Rightarrow>
          (case pick_token draws (fr_text (adm_frame adm)) ring of
             None \<Rightarrow> (Inl NoToken, counter, ring, w)
           | Some token \<Rightarrow>
               (case allocate seen counter of
                  (counter', None) \<Rightarrow> (Inl Exhausted, counter', ring, w)
                | (counter', Some attempt) \<Rightarrow>
                    (let ring' = ring_record attempt token ring
                     in case cell_open attempt w of
                          (Inl _, w') \<Rightarrow> (Inl NTRetired, counter', ring', w')
                        | (Inr _, w') \<Rightarrow> (Inr (new_txn adm attempt token i cps now), counter', ring', w')))))"

section \<open>Small steps of a transaction\<close>

definition note_unresolved :: "string \<Rightarrow> txn \<Rightarrow> txn" where
  "note_unresolved what t =
     t\<lparr>tx_unresolved_at := Some (what, map_option (\<lambda>c. char_count (cv_text c)) (fr_composer (tx_frame t)))\<rparr>"

definition stages :: "txn \<Rightarrow> string list" where
  "stages t =
     (case cap_staged_head (tx_caps t) of
        Some head \<Rightarrow>
          (if 0 < head \<and> head < char_count (tx_line t)
           then let split = length (of_chars (take head (chars (tx_line t))))
                in [take split (tx_line t), drop split (tx_line t)]
           else [tx_line t])
      | None \<Rightarrow> [tx_line t])"

definition owned_text :: "txn \<Rightarrow> string" where
  "owned_text t = of_chars (take (tx_accepted t) (chars (tx_line t)))"

definition enter :: "phase \<Rightarrow> instant \<Rightarrow> txn \<Rightarrow> txn" where
  "enter ph now t = t\<lparr>tx_phase := ph, tx_phase_since := now\<rparr>"

definition next_wake :: "txn \<Rightarrow> instant \<Rightarrow> instant" where
  "next_wake t now = min (now + from_millis 10) (tx_deadline t)"

definition txn_release :: "outcome \<Rightarrow> sys \<Rightarrow> reply" where
  "txn_release out s = (case s of (t, w) \<Rightarrow> ([Reproject, Release out], (t\<lparr>tx_phase := Done out\<rparr>, w)))"

definition txn_started :: "job_kind \<Rightarrow> txn \<Rightarrow> txn" where
  "txn_started kind t =
     t\<lparr>tx_job := ORunning kind, tx_claim := None, tx_wrote := (if kind = KLine then True else tx_wrote t)\<rparr>"

definition job_ended :: "job_kind \<Rightarrow> nat \<Rightarrow> instant \<Rightarrow> txn \<Rightarrow> txn" where
  "job_ended kind accepted now t =
     t\<lparr>tx_job := Idle, tx_claim := None,
       tx_wrote := (if kind = KLine then tx_wrote t \<or> 0 < accepted else tx_wrote t),
       tx_cr_ended_at := (if kind = KCr then Some now else tx_cr_ended_at t),
       tx_after_cr := (if kind = KCr then tx_after_cr t \<or> 0 < accepted else tx_after_cr t)\<rparr>"

definition track_job :: "event \<Rightarrow> instant \<Rightarrow> txn \<Rightarrow> txn" where
  "track_job ev now t =
     (case (ev, tx_job t) of
        (JobStarted, OQueued kind) \<Rightarrow> txn_started kind t
      | (JobNotStarted, OQueued _) \<Rightarrow> t\<lparr>tx_job := Idle, tx_claim := None\<rparr>
      | (JobEnded accepted _, OQueued kind) \<Rightarrow> job_ended kind accepted now t
      | (JobEnded accepted _, ORunning kind) \<Rightarrow> job_ended kind accepted now t
      | _ \<Rightarrow> t)"

definition enqueue :: "job_kind \<Rightarrow> job \<Rightarrow> phase \<Rightarrow> instant \<Rightarrow> sys \<Rightarrow> reply" where
  "enqueue kind j ph now s =
     (case s of (t, w) \<Rightarrow>
        (let claim = length (wd_claims w)
         in ([Enqueue j claim],
             (enter ph now (t\<lparr>tx_job := OQueued kind, tx_claim := Some claim\<rparr>),
              w\<lparr>wd_claims := wd_claims w @ [ClaimQueued]\<rparr>))))"

definition take_back :: "sys \<Rightarrow> sys option" where
  "take_back s =
     (case s of (t, w) \<Rightarrow>
        (case tx_job t of
           OQueued kind \<Rightarrow>
             (case tx_claim t of
                None \<Rightarrow> None
              | Some i \<Rightarrow>
                  (case claim_withdraw (wd_claims w ! i) of (c, won) \<Rightarrow>
                     (let w' = w\<lparr>wd_claims := (wd_claims w)[i := c]\<rparr>; t' = t\<lparr>tx_claim := None\<rparr>
                      in Some (if won \<or> c = ClaimRefused then (t'\<lparr>tx_job := Idle\<rparr>, w')
                               else (txn_started kind t', w')))))
         | _ \<Rightarrow> Some s))"

definition txn_not_typed :: "not_typed \<Rightarrow> sys \<Rightarrow> reply" where
  "txn_not_typed why s =
     (case s of (t, w) \<Rightarrow>
        (case cell_not_typed (tx_attempt t) w of (_, w') \<Rightarrow> txn_release (NothingWritten why) (t, w')))"

definition resolved_submitted :: "32 word \<Rightarrow> latch \<Rightarrow> bool" where
  "resolved_submitted a l \<longleftrightarrow> l = LResolved a ResSubmitted \<or> l = LResolved a ResLateExact"

definition expire_suspend :: "sys \<Rightarrow> reply" where
  "expire_suspend s =
     (case s of (t, w) \<Rightarrow>
        (let c = (if \<not> fr_clean (tx_frame t) \<or> fr_epoch (tx_frame t) \<noteq> tx_epoch t then Layout else Deadline)
         in case cell_suspend (tx_attempt t) c w of
              (Inl l, w') \<Rightarrow>
                txn_release (if resolved_submitted (tx_attempt t) l then OutSubmitted else Unresolved c) (t, w')
            | (Inr _, w') \<Rightarrow> txn_release (Unresolved c) (t, w')))"

definition expire :: "sys \<Rightarrow> reply" where
  "expire s =
     (case s of (t, w) \<Rightarrow>
        (if \<not> tx_wrote t then txn_not_typed NTDeadline s
         else case wd_cell w of
                LSuspended a c \<Rightarrow>
                  (if a = tx_attempt t then txn_release (Unresolved c) s else expire_suspend s)
              | LResolved a how \<Rightarrow>
                  (if a = tx_attempt t \<and> how = ResWithdrawn then txn_release OutWithdrawn s
                   else if a = tx_attempt t \<and> (how = ResSubmitted \<or> how = ResLateExact)
                     then txn_release OutSubmitted s
                   else expire_suspend s)
              | _ \<Rightarrow> expire_suspend s))"

definition finish :: "end_why \<Rightarrow> instant \<Rightarrow> sys \<Rightarrow> reply" where
  "finish why now s =
     (case s of (t, w) \<Rightarrow>
        (case why of
           EndNotTyped nt \<Rightarrow>
             (if tx_wrote t \<and> tx_deadline t \<le> now then expire s
              else if tx_wrote t then ([WakeAt (next_wake t now)], (t\<lparr>tx_admission_lost := True\<rparr>, w))
              else txn_not_typed nt s)
         | EndExpire \<Rightarrow> expire s
         | EndSubmitted \<Rightarrow> txn_release OutSubmitted s
         | EndRetired \<Rightarrow> (if tx_wrote t then txn_release OutRetired s else txn_not_typed NTRetired s)))"

definition txn_end :: "end_why \<Rightarrow> instant \<Rightarrow> sys \<Rightarrow> reply" where
  "txn_end why now s = (case take_back s of None \<Rightarrow> ([APanic], s) | Some s' \<Rightarrow> finish why now s')"

definition nothing_written :: "not_typed \<Rightarrow> instant \<Rightarrow> sys \<Rightarrow> reply" where
  "nothing_written why now s = txn_end (EndNotTyped why) now s"

definition txn_retired :: "instant \<Rightarrow> sys \<Rightarrow> reply" where
  "txn_retired now s = (case s of (t, w) \<Rightarrow> txn_end EndRetired now (t, cell_retire w))"

definition evidence :: "ring_token \<Rightarrow> bool \<Rightarrow> instant \<Rightarrow> sys \<Rightarrow> reply option" where
  "evidence token exact now s =
     (case s of (t, w) \<Rightarrow>
        (if token \<noteq> tx_token t \<or> \<not> exact \<or> \<not> tx_wrote t then None
         else if resolved_submitted (tx_attempt t) (wd_cell w) then Some (txn_end EndSubmitted now s)
         else None))"

section \<open>The seam\<close>

definition txn_seam :: "bool \<Rightarrow> instant \<Rightarrow> sys \<Rightarrow> seam_verdict \<times> sys" where
  "txn_seam first_byte now s =
     (case s of (t, w) \<Rightarrow>
        (case (case wd_seam w of [] \<Rightarrow> (None, w) | r # rest \<Rightarrow> (r, w\<lparr>wd_seam := rest\<rparr>)) of
           (None, w') \<Rightarrow> (VContended (min (now + SEAM_RETRY) (tx_deadline t)), (t, w'))
         | (Some r, w') \<Rightarrow>
             (let t' = t\<lparr>tx_frame := sr_frame r\<rparr>
              in (if \<not> sr_open r then VClosed
                  else if tx_deadline t \<le> now then VExpired
                  else if first_byte \<and> sr_watermark r \<noteq> tx_w0 t then VHuman
                  else if \<not> first_byte \<and> sr_job_mark r \<noteq> tx_j0 t then VJobMark
                  else case sr_mode r of
                         Inl clause \<Rightarrow> VMode clause
                       | Inr _ \<Rightarrow>
                           (if \<not> fr_clean (sr_frame r) \<or> fr_epoch (sr_frame r) \<noteq> tx_epoch t then VLayout
                            else VPass (sr_frame r)),
                  (t', w')))))"

section \<open>Withdrawal and the unresolved end\<close>

definition whole_token :: "string \<Rightarrow> bool" where
  "whole_token str \<longleftrightarrow>
     (let head = take TOKEN_HEAD_CHARS (chars str)
      in length head = TOKEN_HEAD_CHARS \<and> head ! 0 = 40 \<and> head ! 7 = 41
         \<and> list_all (\<lambda>c. 97 \<le> c \<and> c \<le> 122) (take 6 (drop 1 head)))"

definition strict :: "txn \<Rightarrow> nat option" where
  "strict t =
     (let own = owned_text t; f = tx_frame t
      in if \<not> whole_token own \<or> \<not> fr_clean f \<or> fr_epoch f \<noteq> tx_epoch t \<or> fr_dialog f \<noteq> None then None
         else case fr_composer f of
                None \<Rightarrow> None
              | Some c \<Rightarrow>
                  (if cv_selection c \<or> cv_placeholder c \<or> \<not> cv_cursor_at_end c then None
                   else let newline = (cv_text c = own @ [CHR 0x0A])
                        in if \<not> (cv_text c = own \<or> newline) \<or> (newline \<and> \<not> tx_after_cr t) then None
                           else Some (char_count own + (if newline then 1 else 0))))"

definition may_withdraw :: "instant \<Rightarrow> txn \<Rightarrow> bool" where
  "may_withdraw now t \<longleftrightarrow>
     cap_delete_key (tx_caps t) \<and> cap_placeholder (tx_caps t) \<and> tx_job t = Idle
     \<and> (case tx_cr_ended_at t of None \<Rightarrow> True | Some ended \<Rightarrow> ended + SUBMIT_CONFIRM_WAIT \<le> now)"

definition suspend_and_pause :: "cause \<Rightarrow> instant \<Rightarrow> sys \<Rightarrow> reply" where
  "suspend_and_pause c now s =
     (case s of (t, w) \<Rightarrow>
        (case cell_suspend (tx_attempt t) c w of (res, w') \<Rightarrow>
           (case res of
              Inr _ \<Rightarrow> ([Reproject, WakeAt (next_wake t now)], (enter (Pause c) now t, w'))
            | Inl l \<Rightarrow>
                (if resolved_submitted (tx_attempt t) l then txn_release OutSubmitted (t, w')
                 else if l = LResolved (tx_attempt t) ResWithdrawn then txn_release OutWithdrawn (t, w')
                 else ([WakeAt (next_wake t now)], (enter (Pause c) now t, w'))))))"

definition edge :: "instant \<Rightarrow> sys \<Rightarrow> reply" where
  "edge now s =
     (case s of (t, w) \<Rightarrow>
        (if fr_clean (tx_frame t) then ([WakeAt now], (t\<lparr>tx_epoch := fr_epoch (tx_frame t)\<rparr>, w))
         else ([WakeAt (next_wake t now)], s)))"

definition try_deletes :: "instant \<Rightarrow> sys \<Rightarrow> reply" where
  "try_deletes now s =
     (case tx_withdrawal (fst s) of
        None \<Rightarrow> ([APanic], s)
      | Some (deletes, c) \<Rightarrow>
          (case txn_seam False now s of (v, s') \<Rightarrow>
             (case v of
                VContended at \<Rightarrow> ([WakeAt at], s')
              | VPass _ \<Rightarrow>
                  (if strict (fst s') \<noteq> Some deletes then suspend_and_pause c now s'
                   else enqueue KDeletes (JobDeletes deletes) DeleteJob now s')
              | VLayout \<Rightarrow> edge now s'
              | VClosed \<Rightarrow> txn_retired now s'
              | VExpired \<Rightarrow> txn_end EndExpire now s'
              | VMode _ \<Rightarrow> suspend_and_pause ModeChanged now s'
              | _ \<Rightarrow> suspend_and_pause c now s')))"

definition begin_withdrawal :: "nat \<Rightarrow> cause \<Rightarrow> instant \<Rightarrow> sys \<Rightarrow> reply" where
  "begin_withdrawal deletes c now s =
     (case s of (t, w) \<Rightarrow>
        try_deletes now (enter Withdrawing now (t\<lparr>tx_withdrawal := Some (deletes, c)\<rparr>), w))"

definition unresolve :: "cause \<Rightarrow> instant \<Rightarrow> sys \<Rightarrow> reply" where
  "unresolve c now s =
     (case (may_withdraw now (fst s), strict (fst s)) of
        (True, Some deletes) \<Rightarrow> begin_withdrawal deletes c now s
      | _ \<Rightarrow> suspend_and_pause c now s)"

definition unresolve_noted :: "string \<Rightarrow> cause \<Rightarrow> instant \<Rightarrow> sys \<Rightarrow> reply" where
  "unresolve_noted what c now s = (case s of (t, w) \<Rightarrow> unresolve c now (note_unresolved what t, w))"

definition confirm_withdrawn :: "instant \<Rightarrow> sys \<Rightarrow> reply" where
  "confirm_withdrawn now s =
     (case s of (t, w) \<Rightarrow>
        (if fr_clean (tx_frame t)
         then let t' = t\<lparr>tx_epoch := fr_epoch (tx_frame t)\<rparr>
              in (if placeholder_empty (tx_frame t)
                  then (case cell_resolve (tx_attempt t) ResWithdrawn w of (_, w') \<Rightarrow> txn_release OutWithdrawn (t', w'))
                  else ([WakeAt (next_wake t' now)], (t', w)))
         else ([WakeAt (next_wake t now)], s)))"

section \<open>The steps of an attempt\<close>

definition try_line :: "nat \<Rightarrow> instant \<Rightarrow> sys \<Rightarrow> reply" where
  "try_line stage now s =
     (let first = (stage = 0)
      in case txn_seam first now s of (v, s') \<Rightarrow>
         (let t = fst s'
          in case v of
               VContended at \<Rightarrow> ([WakeAt at], s')
             | VPass f \<Rightarrow>
                 (if \<not> (if first then empty_and_ready f
                        else fr_dialog f = None \<and> holds_prefix (tx_line t) (tx_accepted t) f)
                  then if first
                       then (case fr_dialog f of
                               Some d \<Rightarrow> nothing_written (NTDialog d) now s'
                             | None \<Rightarrow> nothing_written AwaitingPrompt now s')
                       else unresolve DialogAfterTyping now s'
                  else if stage < length (stages t)
                       then enqueue KLine (JobLine (stages t ! stage)) (LineJob stage) now s'
                       else ([APanic], s'))
             | VHuman \<Rightarrow>
                 (if first then nothing_written HumanInput now s'
                  else unresolve_noted ''try_line: later stage's seam'' EchoMismatch now s')
             | VLayout \<Rightarrow>
                 (if first then nothing_written NTLayout now s' else ([WakeAt (next_wake t now)], s'))
             | VMode clause \<Rightarrow>
                 (if first then nothing_written (CannotType clause) now s' else unresolve ModeChanged now s')
             | VClosed \<Rightarrow> (if first then nothing_written NTRetired now s' else txn_retired now s')
             | VExpired \<Rightarrow>
                 (if first then nothing_written NTDeadline now s'
                  else unresolve_noted ''try_line: later stage's seam'' EchoMismatch now s')
             | VJobMark \<Rightarrow> unresolve_noted ''try_line: later stage's seam'' EchoMismatch now s'))"

definition off_epoch :: "txn \<Rightarrow> bool" where
  "off_epoch t \<longleftrightarrow> \<not> fr_clean (tx_frame t) \<or> fr_epoch (tx_frame t) \<noteq> tx_epoch t"

definition head_echo :: "instant \<Rightarrow> sys \<Rightarrow> reply" where
  "head_echo now s =
     (case s of (t, w) \<Rightarrow>
        (if off_epoch t then edge now s
         else if fr_dialog (tx_frame t) \<noteq> None then unresolve DialogAfterTyping now s
         else if holds_prefix (tx_line t) (tx_accepted t) (tx_frame t)
           then try_line 1 now (enter (Typing 1) now t, w)
         else if tx_phase_since t + ECHO_WAIT \<le> now
           then unresolve_noted ''head_echo: wait ended'' EchoMismatch now s
         else ([WakeAt (next_wake t now)], s)))"

definition cancels_at_head :: "txn \<Rightarrow> bool" where
  "cancels_at_head t \<longleftrightarrow> tx_admission_lost t \<and> cap_delete_key (tx_caps t) \<and> cap_placeholder (tx_caps t)"

definition cancel_after_head :: "instant \<Rightarrow> sys \<Rightarrow> reply" where
  "cancel_after_head now s =
     (case s of (t, w) \<Rightarrow>
        (if off_epoch t then edge now s
         else if fr_dialog (tx_frame t) \<noteq> None then unresolve DialogAfterTyping now s
         else if holds_prefix (tx_line t) (tx_accepted t) (tx_frame t)
           then unresolve_noted ''cancel_after_head: admission lost'' EchoMismatch now
                  (t\<lparr>tx_admission_lost := False\<rparr>, w)
         else if tx_phase_since t + ECHO_WAIT \<le> now then unresolve EchoMismatch now s
         else ([WakeAt (next_wake t now)], s)))"

definition after_head :: "instant \<Rightarrow> sys \<Rightarrow> reply" where
  "after_head now s = (if cancels_at_head (fst s) then cancel_after_head now s else head_echo now s)"

definition pre_cr :: "instant \<Rightarrow> sys \<Rightarrow> reply" where
  "pre_cr now s =
     (let floor = (case tx_line_done_at (fst s) of Some d \<Rightarrow> d | None \<Rightarrow> now) + SUBMIT_DELAY
      in if now < floor then ([WakeAt (min floor (tx_deadline (fst s)))], s)
         else case txn_seam False now s of (v, s') \<Rightarrow>
           (case v of
              VContended at \<Rightarrow> ([WakeAt at], s')
            | VPass f \<Rightarrow>
                (if fr_dialog f \<noteq> None then unresolve DialogBeforeSubmit now s'
                 else if \<not> holds_exactly (tx_line (fst s')) f
                   then unresolve_noted ''pre_cr: the frame does not hold exactly the line'' EchoMismatch now s'
                 else enqueue KCr JobCr CrJob now s')
            | VLayout \<Rightarrow> edge now s'
            | VMode _ \<Rightarrow> unresolve ModeChanged now s'
            | VClosed \<Rightarrow> txn_retired now s'
            | VExpired \<Rightarrow> txn_end EndExpire now s'
            | VHuman \<Rightarrow> unresolve_noted ''pre_cr: seam watermark moved'' EchoMismatch now s'
            | VJobMark \<Rightarrow> unresolve_noted ''pre_cr: seam job mark moved'' EchoMismatch now s'))"

definition echo :: "instant \<Rightarrow> sys \<Rightarrow> reply" where
  "echo now s =
     (case s of (t, w) \<Rightarrow>
        (if off_epoch t then edge now s
         else if fr_dialog (tx_frame t) \<noteq> None then unresolve DialogAfterTyping now s
         else if holds_exactly (tx_line t) (tx_frame t) then pre_cr now (enter PreCr now t, w)
         else if (case tx_line_done_at t of Some d \<Rightarrow> d | None \<Rightarrow> tx_phase_since t) + ECHO_WAIT \<le> now
           then unresolve_noted ''echo: wait ended'' EchoMismatch now s
         else ([WakeAt (next_wake t now)], s)))"

definition line_ended :: "nat \<Rightarrow> nat \<Rightarrow> bool \<Rightarrow> instant \<Rightarrow> sys \<Rightarrow> reply" where
  "line_ended stage accepted ok now s =
     (case s of (t, w) \<Rightarrow>
        (let sts = stages t
         in if length sts \<le> stage then ([APanic], s)
            else let part = sts ! stage; wanted = length part; cut = min accepted wanted
                 in if \<not> is_char_boundary part cut then ([APanic], s)
                    else let before = sum_list (map char_count (take stage sts));
                             t1 = t\<lparr>tx_accepted := before + char_count (take cut part)\<rparr>
                         in if accepted = 0 \<and> stage = 0
                            then nothing_written WriteFailed now (t1\<lparr>tx_wrote := False\<rparr>, w)
                            else let t2 = t1\<lparr>tx_wrote := True\<rparr>
                                 in if \<not> ok \<or> accepted < wanted then unresolve PartialWrite now (t2, w)
                                    else if stage + 1 < length sts then after_head now (enter HeadEcho now t2, w)
                                    else echo now (enter Echo now (t2\<lparr>tx_line_done_at := Some now\<rparr>), w)))"

definition transcript_echo :: "txn \<Rightarrow> bool" where
  "transcript_echo t \<longleftrightarrow>
     cap_transcript_route (tx_caps t) \<and> fr_clean (tx_frame t) \<and> tx_line t \<in> set (fr_user_cells (tx_frame t))
     \<and> \<not> composer_is (\<lambda>c. starts_with (cv_text c) (tx_line t)) (tx_frame t)"

definition confirm :: "instant \<Rightarrow> sys \<Rightarrow> reply" where
  "confirm now s =
     (case s of (t0, w) \<Rightarrow>
        (let t = (if fr_clean (tx_frame t0) \<and> fr_epoch (tx_frame t0) \<noteq> tx_epoch t0
                  then t0\<lparr>tx_epoch := fr_epoch (tx_frame t0)\<rparr> else t0)
         in if fr_clean (tx_frame t) \<and> fr_dialog (tx_frame t) \<noteq> None then unresolve DialogAfterSubmit now (t, w)
            else if fr_clean (tx_frame t) \<and> transcript_echo t
              then (case cell_resolve (tx_attempt t) ResSubmitted w of (_, w') \<Rightarrow> txn_release OutSubmitted (t, w'))
            else if now < tx_phase_since t + SUBMIT_CONFIRM_WAIT
              then ([WakeAt (min (tx_phase_since t + SUBMIT_CONFIRM_WAIT) (next_wake t now))], (t, w))
            else if strict t \<noteq> None \<and> \<not> cap_placeholder (tx_caps t)
              then suspend_and_pause WithdrawalRefused now (t, w)
            else unresolve NoSubmitEvidence now (t, w)))"

definition cancel_after_line :: "instant \<Rightarrow> sys \<Rightarrow> reply" where
  "cancel_after_line now s =
     (case s of (t, w) \<Rightarrow>
        (if \<not> off_epoch t \<and> holds_exactly (tx_line t) (tx_frame t)
         then if cap_delete_key (tx_caps t) \<and> cap_placeholder (tx_caps t)
              then (case strict t of
                      Some deletes \<Rightarrow>
                        begin_withdrawal deletes EchoMismatch now
                          (note_unresolved ''cancel_after_line: admission lost'' t, w)
                    | None \<Rightarrow> unresolve EchoMismatch now s)
              else if \<not> cap_delete_key (tx_caps t) then pre_cr now (enter PreCr now t, w)
              else unresolve EchoMismatch now s
         else unresolve EchoMismatch now s))"

definition pause_withdraw :: "cause \<Rightarrow> instant \<Rightarrow> sys \<Rightarrow> reply" where
  "pause_withdraw c now s =
     (case (tx_withdrawal (fst s) = None \<and> may_withdraw now (fst s), strict (fst s)) of
        (True, Some deletes) \<Rightarrow> begin_withdrawal deletes c now s
      | _ \<Rightarrow> ([WakeAt (next_wake (fst s) now)], s))"

definition pause_open :: "cause \<Rightarrow> instant \<Rightarrow> sys \<Rightarrow> reply" where
  "pause_open c now s =
     (case s of (t, w) \<Rightarrow>
        (if transcript_echo t
         then (case cell_resolve (tx_attempt t) ResSubmitted w of
                 (Inr _, w') \<Rightarrow> txn_release OutSubmitted (t, w')
               | (Inl _, w') \<Rightarrow> pause_withdraw c now (t, w'))
         else pause_withdraw c now s))"

definition pause :: "cause \<Rightarrow> instant \<Rightarrow> sys \<Rightarrow> reply" where
  "pause c now s =
     (case s of (t0, w) \<Rightarrow>
        (let t = (if fr_clean (tx_frame t0) \<and> fr_epoch (tx_frame t0) \<noteq> tx_epoch t0
                  then t0\<lparr>tx_epoch := fr_epoch (tx_frame t0)\<rparr> else t0)
         in case wd_cell w of
              LResolved a how \<Rightarrow>
                (if a = tx_attempt t
                 then (case how of
                         ResWithdrawn \<Rightarrow> txn_release OutWithdrawn (t, w)
                       | ResUser \<Rightarrow> txn_release (Unresolved c) (t, w)
                       | _ \<Rightarrow> txn_release OutSubmitted (t, w))
                 else pause_open c now (t, w))
            | _ \<Rightarrow> pause_open c now (t, w)))"

section \<open>One event\<close>

definition wait_more :: "instant \<Rightarrow> sys \<Rightarrow> reply" where
  "wait_more now s = ([WakeAt (next_wake (fst s) now)], s)"

definition delete_ended :: "nat \<Rightarrow> bool \<Rightarrow> instant \<Rightarrow> sys \<Rightarrow> reply" where
  "delete_ended accepted ok now s =
     (case s of (t, w) \<Rightarrow>
        (case tx_withdrawal t of
           None \<Rightarrow> ([APanic], s)
         | Some (deletes, _) \<Rightarrow>
             (if ok \<and> accepted = deletes then confirm_withdrawn now (enter ConfirmWithdrawn now t, w)
              else suspend_and_pause WithdrawalStalled now s)))"

definition txn_step :: "event \<Rightarrow> instant \<Rightarrow> sys \<Rightarrow> reply" where
  "txn_step ev now s =
     (case s of (t, w) \<Rightarrow>
        (case tx_phase t of
           Typing stage \<Rightarrow>
             (if 0 < stage \<and> cancels_at_head t then cancel_after_head now s else try_line stage now s)
         | LineJob stage \<Rightarrow>
             (case ev of
                JobEnded accepted ok \<Rightarrow> line_ended stage accepted ok now s
              | JobNotStarted \<Rightarrow>
                  (if stage = 0 \<and> \<not> tx_wrote t then nothing_written OffGround now s
                   else unresolve WriteStalled now s)
              | JobStalled \<Rightarrow> unresolve WriteStalled now s
              | _ \<Rightarrow> wait_more now s)
         | HeadEcho \<Rightarrow>
             (if ev = EvModeChanged \<and> tx_wrote t then unresolve ModeChanged now s else after_head now s)
         | Echo \<Rightarrow>
             (if ev = EvModeChanged \<and> tx_wrote t then unresolve ModeChanged now s
              else if tx_admission_lost t then cancel_after_line now (t\<lparr>tx_admission_lost := False\<rparr>, w)
              else echo now s)
         | PreCr \<Rightarrow>
             (if tx_admission_lost t then cancel_after_line now (t\<lparr>tx_admission_lost := False\<rparr>, w)
              else if ev = EvModeChanged then unresolve ModeChanged now s
              else pre_cr now s)
         | CrJob \<Rightarrow>
             (case ev of
                JobEnded accepted ok \<Rightarrow>
                  (if ok \<and> accepted = 1 then confirm now (enter Confirm now t, w)
                   else unresolve WriteStalled now s)
              | JobNotStarted \<Rightarrow> unresolve WriteStalled now s
              | JobStalled \<Rightarrow> unresolve WriteStalled now s
              | _ \<Rightarrow> wait_more now s)
         | Confirm \<Rightarrow> confirm now s
         | Withdrawing \<Rightarrow> try_deletes now s
         | DeleteJob \<Rightarrow>
             (case ev of
                JobEnded accepted ok \<Rightarrow> delete_ended accepted ok now s
              | JobNotStarted \<Rightarrow> suspend_and_pause WithdrawalStalled now s
              | JobStalled \<Rightarrow> suspend_and_pause WithdrawalStalled now s
              | _ \<Rightarrow> wait_more now s)
         | ConfirmWithdrawn \<Rightarrow> confirm_withdrawn now s
         | Pause c \<Rightarrow> pause c now s
         | Done _ \<Rightarrow> wait_more now s))"

definition step_or_expire :: "event \<Rightarrow> instant \<Rightarrow> sys \<Rightarrow> reply" where
  "step_or_expire ev now s =
     (if tx_deadline (fst s) \<le> now then txn_end EndExpire now s else txn_step ev now s)"

definition hear :: "event \<Rightarrow> instant \<Rightarrow> txn \<Rightarrow> txn" where
  "hear ev now t = track_job ev now (case ev of EvFrame f \<Rightarrow> t\<lparr>tx_frame := f\<rparr> | _ \<Rightarrow> t)"

definition txn_on :: "event \<Rightarrow> instant \<Rightarrow> sys \<Rightarrow> reply" where
  "txn_on ev now s =
     (case s of (t0, w) \<Rightarrow>
        (case tx_phase t0 of
           Done _ \<Rightarrow> ([], s)
         | _ \<Rightarrow>
             (let t = hear ev now t0
              in case ev of
                   EvRetired \<Rightarrow> txn_retired now (t, w)
                 | Evidence token exact \<Rightarrow>
                     (case evidence token exact now (t, w) of
                        Some r \<Rightarrow> r
                      | None \<Rightarrow> step_or_expire ev now (t, w))
                 | AdmissionLost \<Rightarrow>
                     (if \<not> tx_wrote t then nothing_written NotAdmitted now (t, w)
                      else step_or_expire ev now (t\<lparr>tx_admission_lost := True\<rparr>, w))
                 | _ \<Rightarrow> step_or_expire ev now (t, w))))"

definition txn_start :: "instant \<Rightarrow> sys \<Rightarrow> reply" where
  "txn_start now s = txn_on Tick now s"

section \<open>Re-projection\<close>

datatype shown = UncertainInput | DialogDuringRing

definition project :: "latch \<Rightarrow> shown option" where
  "project l =
     (case l of
        LSuspended _ c \<Rightarrow> Some (if cause_is_dialog c then DialogDuringRing else UncertainInput)
      | _ \<Rightarrow> None)"

record publisher =
  pb_pending :: "(string \<times> string) list"
  pb_snapshot :: "string \<rightharpoonup> shown option"
  pb_broadcasts :: "(string \<times> shown option) list"

definition pub_request :: "string \<Rightarrow> string \<Rightarrow> publisher \<Rightarrow> publisher" where
  "pub_request pane agent p =
     (if (pane, agent) \<in> set (pb_pending p) then p else p\<lparr>pb_pending := pb_pending p @ [(pane, agent)]\<rparr>)"

definition flatten_shown :: "shown option option \<Rightarrow> shown option" where
  "flatten_shown x = (case x of Some y \<Rightarrow> y | None \<Rightarrow> None)"

definition pub_run_next ::
  "(string \<Rightarrow> string option) \<Rightarrow> (string \<Rightarrow> latch option) \<Rightarrow> publisher \<Rightarrow> publisher \<times> bool" where
  "pub_run_next current_agent cell_of p =
     (case pb_pending p of
        [] \<Rightarrow> (p, False)
      | (pane, agent) # rest \<Rightarrow>
          (let p1 = p\<lparr>pb_pending := rest\<rparr>
           in if current_agent pane \<noteq> Some agent then (p1, True)
              else case cell_of agent of
                     None \<Rightarrow> (p1, True)
                   | Some cell \<Rightarrow>
                       (let sh = project cell;
                            p2 = p1\<lparr>pb_snapshot := (pb_snapshot p1)(pane \<mapsto> sh)\<rparr>
                        in (if flatten_shown (pb_snapshot p1 pane) \<noteq> sh
                            then p2\<lparr>pb_broadcasts := pb_broadcasts p2 @ [(pane, sh)]\<rparr> else p2, True))))"

definition pub_shown :: "string \<Rightarrow> publisher \<Rightarrow> shown option" where
  "pub_shown pane p = flatten_shown (pb_snapshot p pane)"

section \<open>The seam's retry loop\<close>

text \<open>The seam tried is a closure with a state of its own.\<close>

function seam_until :: "(instant \<Rightarrow> 's \<Rightarrow> bool \<times> 's) \<Rightarrow> instant \<Rightarrow> instant \<Rightarrow> 's \<Rightarrow> instant option \<times> 's" where
  "seam_until try_seam now deadline st =
     (if now < deadline
      then case try_seam now st of (passed, st') \<Rightarrow>
             (if passed then (Some now, st')
              else seam_until try_seam (min (now + SEAM_RETRY) deadline) deadline st')
      else (None, st))"
  by pat_completeness auto
termination
  by (relation "measure (\<lambda>(f, now, deadline, st). deadline - now)") (auto simp: SEAM_RETRY_def from_millis_def)

declare seam_until.simps [simp del]

end
