(* ===== verification/Txn_Inv.thy ===== *)
theory Txn_Inv
  imports Doorbell_Txn
begin

text \<open>
  The invariant of a doorbell transaction: which job it owns in which phase, that a queued job has
  its claim, that the phases' data are there, and that "nothing written" is only ever said while
  nothing was. And the contract of a step, \<open>fine\<close>: no panic, the invariant kept, a job only after a
  seam read that passed, and something that keeps the transaction going.
\<close>

section \<open>The invariant\<close>

definition claim_ok :: "sys \<Rightarrow> bool" where
  "claim_ok s \<longleftrightarrow>
     (case tx_job (fst s) of
        OQueued _ \<Rightarrow> (\<exists>i. tx_claim (fst s) = Some i \<and> i < length (wd_claims (snd s)))
      | _ \<Rightarrow> tx_claim (fst s) = None)"

definition line_ok :: "txn \<Rightarrow> bool" where
  "line_ok t \<longleftrightarrow> list_all (\<lambda>c. byte_of c < 128) (tx_line t)"

definition queued :: "txn \<Rightarrow> bool" where
  "queued t \<longleftrightarrow> (case tx_job t of OQueued _ \<Rightarrow> True | _ \<Rightarrow> False)"

definition running :: "txn \<Rightarrow> bool" where
  "running t \<longleftrightarrow> (case tx_job t of ORunning _ \<Rightarrow> True | _ \<Rightarrow> False)"

definition works :: "job_kind \<Rightarrow> txn \<Rightarrow> bool" where
  "works k t \<longleftrightarrow> tx_job t = OQueued k \<or> tx_job t = ORunning k"

fun phase_job_ok :: "phase \<Rightarrow> txn \<Rightarrow> bool" where
  "phase_job_ok (Typing n) t \<longleftrightarrow> tx_job t = Idle \<and> n < length (stages t) \<and> (tx_wrote t \<longleftrightarrow> 0 < n)"
| "phase_job_ok (LineJob n) t \<longleftrightarrow>
     works KLine t \<and> n < length (stages t) \<and> (tx_wrote t \<or> n = 0 \<and> \<not> running t)"
| "phase_job_ok HeadEcho t \<longleftrightarrow> tx_job t = Idle \<and> length (stages t) = 2 \<and> tx_wrote t"
| "phase_job_ok Echo t \<longleftrightarrow> tx_job t = Idle \<and> tx_wrote t"
| "phase_job_ok PreCr t \<longleftrightarrow> tx_job t = Idle \<and> tx_wrote t"
| "phase_job_ok CrJob t \<longleftrightarrow> works KCr t \<and> tx_wrote t"
| "phase_job_ok Confirm t \<longleftrightarrow> tx_job t = Idle \<and> tx_wrote t"
| "phase_job_ok Withdrawing t \<longleftrightarrow> tx_job t = Idle \<and> tx_withdrawal t \<noteq> None \<and> tx_wrote t"
| "phase_job_ok DeleteJob t \<longleftrightarrow> works KDeletes t \<and> tx_withdrawal t \<noteq> None \<and> tx_wrote t"
| "phase_job_ok ConfirmWithdrawn t \<longleftrightarrow> tx_job t = Idle \<and> tx_wrote t"
| "phase_job_ok (Pause c) t \<longleftrightarrow> \<not> queued t \<and> tx_wrote t"
| "phase_job_ok (Done out) t \<longleftrightarrow>
     \<not> queued t \<and> (case out of NothingWritten _ \<Rightarrow> \<not> tx_wrote t \<and> tx_job t = Idle | _ \<Rightarrow> tx_wrote t)"

definition txn_ok :: "sys \<Rightarrow> bool" where
  "txn_ok s \<longleftrightarrow> claim_ok s \<and> line_ok (fst s) \<and> phase_job_ok (tx_phase (fst s)) (fst s)"

section \<open>The contract of a step\<close>

text \<open>What a read of the final seam must have shown for the next job to be queued.\<close>

definition passed :: "bool \<Rightarrow> instant \<Rightarrow> txn \<Rightarrow> seam_read \<Rightarrow> bool" where
  "passed first now t r \<longleftrightarrow>
     sr_open r \<and> now < tx_deadline t
     \<and> (if first then sr_watermark r = tx_w0 t else sr_job_mark r = tx_j0 t)
     \<and> sr_mode r = Inr () \<and> fr_clean (sr_frame r) \<and> fr_epoch (sr_frame r) = tx_epoch t
     \<and> tx_frame t = sr_frame r"

fun job_safe :: "instant \<Rightarrow> job \<Rightarrow> txn \<Rightarrow> seam_read \<Rightarrow> bool" where
  "job_safe now (JobLine part) t r \<longleftrightarrow>
     (\<exists>n. tx_phase t = LineJob n \<and> n < length (stages t) \<and> part = stages t ! n \<and> passed (n = 0) now t r
        \<and> (if n = 0 then empty_and_ready (sr_frame r)
           else fr_dialog (sr_frame r) = None \<and> holds_prefix (tx_line t) (tx_accepted t) (sr_frame r)))"
| "job_safe now JobCr t r \<longleftrightarrow>
     tx_phase t = CrJob \<and> passed False now t r \<and> fr_dialog (sr_frame r) = None
     \<and> holds_exactly (tx_line t) (sr_frame r)"
| "job_safe now (JobDeletes n) t r \<longleftrightarrow>
     tx_phase t = DeleteJob \<and> passed False now t r \<and> strict t = Some n"

definition fixed :: "txn \<Rightarrow> 32 word \<times> ring_token \<times> string \<times> caps \<times> instant \<times> nat \<times> nat" where
  "fixed t = (tx_attempt t, tx_token t, tx_line t, tx_caps t, tx_deadline t, tx_w0 t, tx_j0 t)"

text \<open>
  How the cell stands when an attempt is released: never open for it any more, and not suspended
  either when the line was submitted or withdrawn.
\<close>

definition settled :: "32 word \<Rightarrow> outcome \<Rightarrow> latch \<Rightarrow> bool" where
  "settled a out l \<longleftrightarrow>
     l \<noteq> LOpen a \<and> (out = OutSubmitted \<or> out = OutWithdrawn \<longrightarrow> \<not> suspended_at a l)
     \<and> (out = OutRetired \<longrightarrow> l = LRetired)"

definition progress :: "instant \<Rightarrow> reply \<Rightarrow> bool" where
  "progress now r \<longleftrightarrow>
     (case r of (acts, (t, w)) \<Rightarrow>
        (\<exists>out. acts = [Reproject, Release out] \<and> tx_phase t = Done out \<and> settled (tx_attempt t) out (wd_cell w))
        \<or> (\<exists>j c. acts = [Enqueue j c] \<and> tx_claim t = Some c \<and> queued t)
        \<or> (\<exists>d. (acts = [WakeAt d] \<or> acts = [Reproject, WakeAt d]) \<and> d \<le> max now (tx_deadline t)))"

type_synonym seam_answers = "seam_read option set"

definition fine :: "seam_answers \<Rightarrow> instant \<Rightarrow> 32 word \<times> ring_token \<times> string \<times> caps \<times> instant \<times> nat \<times> nat \<Rightarrow> reply \<Rightarrow> bool" where
  "fine seam now k r \<longleftrightarrow>
     APanic \<notin> set (fst r) \<and> txn_ok (snd r) \<and> fixed (fst (snd r)) = k \<and> progress now r
     \<and> (\<forall>j c. Enqueue j c \<in> set (fst r) \<longrightarrow> (\<exists>sr. Some sr \<in> seam \<and> job_safe now j (fst (snd r)) sr))"

text \<open>
  What every step can rely on (\<open>base\<close>), and a transaction between two phases: past its first byte,
  with no job queued (\<open>midway\<close>) or no job at all (\<open>calm\<close>).
\<close>

definition base :: "seam_answers \<Rightarrow> 32 word \<times> ring_token \<times> string \<times> caps \<times> instant \<times> nat \<times> nat \<Rightarrow> sys \<Rightarrow> bool" where
  "base seam k s \<longleftrightarrow> claim_ok s \<and> line_ok (fst s) \<and> set (wd_seam (snd s)) \<subseteq> seam \<and> fixed (fst s) = k"

definition midway :: "seam_answers \<Rightarrow> 32 word \<times> ring_token \<times> string \<times> caps \<times> instant \<times> nat \<times> nat \<Rightarrow> sys \<Rightarrow> bool" where
  "midway seam k s \<longleftrightarrow> base seam k s \<and> \<not> queued (fst s) \<and> tx_wrote (fst s)"

definition calm :: "seam_answers \<Rightarrow> 32 word \<times> ring_token \<times> string \<times> caps \<times> instant \<times> nat \<times> nat \<Rightarrow> sys \<Rightarrow> bool" where
  "calm seam k s \<longleftrightarrow> base seam k s \<and> tx_job (fst s) = Idle \<and> tx_wrote (fst s)"

lemmas inv_defs = claim_ok_def line_ok_def queued_def running_def works_def fixed_def

lemma calm_midway: "calm seam k s \<Longrightarrow> midway seam k s"
  by (simp add: calm_def midway_def queued_def)

lemma stages_cong: "tx_line t' = tx_line t \<Longrightarrow> tx_caps t' = tx_caps t \<Longrightarrow> stages t' = stages t"
  by (cases "cap_staged_head (tx_caps t)") (simp_all add: stages_def)

lemma stages_upd [simp]:
  "stages (t\<lparr>tx_frame := f\<rparr>) = stages t" "stages (t\<lparr>tx_job := j\<rparr>) = stages t" "stages (t\<lparr>tx_claim := c\<rparr>) = stages t"
  "stages (t\<lparr>tx_wrote := b\<rparr>) = stages t" "stages (t\<lparr>tx_epoch := e\<rparr>) = stages t" "stages (t\<lparr>tx_phase := p\<rparr>) = stages t"
  "stages (t\<lparr>tx_phase_since := i\<rparr>) = stages t" "stages (t\<lparr>tx_accepted := n\<rparr>) = stages t"
  "stages (t\<lparr>tx_withdrawal := wd\<rparr>) = stages t" "stages (t\<lparr>tx_admission_lost := b\<rparr>) = stages t"
  "stages (t\<lparr>tx_line_done_at := d\<rparr>) = stages t" "stages (t\<lparr>tx_unresolved_at := u\<rparr>) = stages t"
  "stages (t\<lparr>tx_cr_ended_at := d\<rparr>) = stages t" "stages (t\<lparr>tx_after_cr := b\<rparr>) = stages t"
  by (rule stages_cong; simp)+

lemma stages_length: "length (stages t) = 1 \<or> length (stages t) = 2"
  by (auto simp: stages_def Let_def split: option.splits)

lemma strict_cong:
  "owned_text t' = owned_text t \<Longrightarrow> tx_frame t' = tx_frame t \<Longrightarrow> tx_epoch t' = tx_epoch t
     \<Longrightarrow> tx_after_cr t' = tx_after_cr t \<Longrightarrow> strict t' = strict t"
  by (cases "fr_composer (tx_frame t)") (simp_all add: strict_def Let_def)

lemma strict_upd [simp]:
  "strict (t\<lparr>tx_job := j\<rparr>) = strict t" "strict (t\<lparr>tx_claim := c\<rparr>) = strict t"
  "strict (t\<lparr>tx_phase := p\<rparr>) = strict t" "strict (t\<lparr>tx_phase_since := i\<rparr>) = strict t"
  by (rule strict_cong; simp add: owned_text_def)+

lemma cell_advance_world:
  "wd_claims (snd (cell_advance fits target w)) = wd_claims w"
  "wd_seam (snd (cell_advance fits target w)) = wd_seam w"
  by (simp_all add: cell_advance_def next_race_def split: list.splits prod.splits)

lemmas cell_op_defs = cell_open_def cell_not_typed_def cell_suspend_def cell_resolve_def

lemma cell_ops_world:
  "cell_not_typed a w = (r, w') \<Longrightarrow> wd_claims w' = wd_claims w \<and> wd_seam w' = wd_seam w"
  "cell_suspend a c w = (r, w') \<Longrightarrow> wd_claims w' = wd_claims w \<and> wd_seam w' = wd_seam w"
  "cell_resolve a how w = (r, w') \<Longrightarrow> wd_claims w' = wd_claims w \<and> wd_seam w' = wd_seam w"
  unfolding cell_op_defs by (metis cell_advance_world snd_conv)+

lemma key_value: "is_phase p \<Longrightarrow> unat (latch_key (latch_word a p d)) = unat a * 2 ^ 24 + unat p"
proof -
  assume "is_phase p"
  then have "unat (latch_word a p d) = unat a * 2 ^ 32 + unat p * 2 ^ 8 + unat d"
    using phase_small[of p] by (intro unat_latch_word) simp
  then show ?thesis
    using unat8_less[of d] by (simp only: latch_key_def unat_drop_bit_eq drop_bit_nat_def) simp
qed

lemma key_less_iff:
  "is_phase p \<Longrightarrow> is_phase q \<Longrightarrow> latch_key (latch_word a p d) \<le> latch_key (latch_word a q e) \<longleftrightarrow> unat p \<le> unat q"
  by (simp add: word_le_nat_alt key_value)

lemma l_advance_end:
  "l_advance seen fits target current = (l, res) \<Longrightarrow>
     l = target \<and> (\<exists>c. res = Inr c)
     \<or> res = Inl l \<and> (l = LRetired \<or> \<not> fits l \<or> latch_key (latch_encode target) \<le> latch_key (latch_encode l))"
  by (induction seen arbitrary: current) (auto simp: l_advance.simps split: if_splits)

lemma cell_advance_end:
  assumes "cell_advance fits target w = (res, w')"
  shows "wd_cell w' = target \<and> (\<exists>c. res = Inr c)
     \<or> res = Inl (wd_cell w')
     \<and> (wd_cell w' = LRetired \<or> \<not> fits (wd_cell w') \<or> latch_key (latch_encode target) \<le> latch_key (latch_encode (wd_cell w')))"
  using assms by (auto simp: cell_advance_def dest!: l_advance_end split: prod.splits)

lemma cell_settles:
  "cell_not_typed a w = (r, w') \<Longrightarrow> wd_cell w' \<noteq> LOpen a"
  "cell_suspend a c w = (r, w') \<Longrightarrow> wd_cell w' \<noteq> LOpen a \<and> (\<forall>l. r = Inl l \<longrightarrow> wd_cell w' = l)"
  "cell_resolve a how w = (r, w') \<Longrightarrow> wd_cell w' \<noteq> LOpen a \<and> \<not> suspended_at a (wd_cell w')"
  unfolding cell_op_defs
  by (drule cell_advance_end, auto simp: suspended_at_def key_less_iff split: latch.splits)+

text \<open>The part of a state the invariant reads; what differs elsewhere keeps \<open>base\<close>.\<close>

lemma base_cong:
  assumes "base seam k (t, w)" "fixed t' = fixed t" "tx_job t' = tx_job t" "tx_claim t' = tx_claim t"
    and "wd_claims w' = wd_claims w" "set (wd_seam w') \<subseteq> set (wd_seam w)"
  shows "base seam k (t', w')"
  using assms by (auto simp: base_def inv_defs split: owned.splits)

lemma base_upd:
  assumes "base seam k (t, w)"
  shows "base seam k (t\<lparr>tx_frame := f\<rparr>, w)" "base seam k (t\<lparr>tx_wrote := b\<rparr>, w)" "base seam k (t\<lparr>tx_epoch := e\<rparr>, w)"
    "base seam k (t\<lparr>tx_phase := p\<rparr>, w)" "base seam k (enter p i t, w)" "base seam k (t\<lparr>tx_accepted := n\<rparr>, w)"
    "base seam k (t\<lparr>tx_withdrawal := wd\<rparr>, w)" "base seam k (t\<lparr>tx_admission_lost := b\<rparr>, w)"
    "base seam k (t\<lparr>tx_line_done_at := d\<rparr>, w)" "base seam k (note_unresolved what t, w)"
  by (rule base_cong[OF assms]; simp add: fixed_def enter_def note_unresolved_def)+

lemma midway_upd:
  assumes "midway seam k (t, w)"
  shows "midway seam k (t\<lparr>tx_epoch := e\<rparr>, w)" "midway seam k (note_unresolved what t, w)"
    "midway seam k (t\<lparr>tx_admission_lost := b\<rparr>, w)" "midway seam k (enter p i t, w)"
  using assms base_upd[of seam k t w]
  by (simp_all add: midway_def queued_def note_unresolved_def enter_def)

lemma calm_upd:
  assumes "calm seam k (t, w)"
  shows "calm seam k (t\<lparr>tx_epoch := e\<rparr>, w)" "calm seam k (note_unresolved what t, w)"
    "calm seam k (t\<lparr>tx_admission_lost := b\<rparr>, w)" "calm seam k (enter p i t, w)"
    "calm seam k (t\<lparr>tx_withdrawal := wd\<rparr>, w)" "calm seam k (t\<lparr>tx_line_done_at := d\<rparr>, w)"
  using assms base_upd[of seam k t w]
  by (simp_all add: calm_def note_unresolved_def enter_def)

lemma base_txn_ok: "base seam k s \<Longrightarrow> phase_job_ok (tx_phase (fst s)) (fst s) \<Longrightarrow> txn_ok s"
  by (simp add: base_def txn_ok_def)

section \<open>Replies\<close>

lemma waits_fine:
  assumes "base seam k (t, w)" "phase_job_ok (tx_phase t) t" "d \<le> max now (tx_deadline t)"
  shows "fine seam now k ([WakeAt d], (t, w))" "fine seam now k ([Reproject, WakeAt d], (t, w))"
  using assms by (simp_all add: fine_def progress_def txn_ok_def base_def)

lemma next_wake_in_time [simp]: "next_wake t now \<le> max now (tx_deadline t)"
  by (simp add: next_wake_def)

lemma release_fine:
  assumes "base seam k (t, w)" "\<not> queued t" "settled (tx_attempt t) out (wd_cell w)"
    and "case out of NothingWritten _ \<Rightarrow> \<not> tx_wrote t \<and> tx_job t = Idle | _ \<Rightarrow> tx_wrote t"
  shows "fine seam now k (txn_release out (t, w))"
  using assms base_upd(4)[OF assms(1), of "Done out"]
  by (auto simp: fine_def progress_def txn_release_def base_def txn_ok_def queued_def split: outcome.splits)

lemma enqueue_fine:
  assumes "base seam k (t, w)" "phase_job_ok ph (t\<lparr>tx_job := OQueued kind\<rparr>)" "Some sr \<in> seam"
    and "job_safe now j (enter ph now (t\<lparr>tx_job := OQueued kind, tx_claim := Some (length (wd_claims w))\<rparr>)) sr"
  shows "fine seam now k (enqueue kind j ph now (t, w))"
proof -
  let ?t = "enter ph now (t\<lparr>tx_job := OQueued kind, tx_claim := Some (length (wd_claims w))\<rparr>)"
  have "phase_job_ok ph ?t" using assms(2) by (cases ph) (auto simp: enter_def inv_defs split: outcome.splits)
  with assms show ?thesis
    by (auto simp: enqueue_def Let_def fine_def progress_def base_def txn_ok_def inv_defs enter_def)
qed

end
