(* ===== verification/Txn_Steps.thy ===== *)
theory Txn_Steps
  imports Txn_Inv
begin

text \<open>
  Every method of the transaction meets the contract \<^const>\<open>fine\<close>, one lemma per method, from the
  endings up to the handler of one event.
\<close>

section \<open>Endings\<close>

lemma not_typed_fine:
  assumes "base seam k (t, w)" "\<not> tx_wrote t" "tx_job t = Idle"
  shows "fine seam now k (txn_not_typed why (t, w))"
proof -
  obtain r w' where c: "cell_not_typed (tx_attempt t) w = (r, w')" by fastforce
  have "base seam k (t, w')" by (rule base_cong[OF assms(1)]) (simp_all add: cell_ops_world(1)[OF c])
  with c assms cell_settles(1)[OF c] show ?thesis
    by (auto simp: txn_not_typed_def queued_def settled_def intro!: release_fine)
qed

lemma midway_world:
  assumes "midway seam k (t, w)" "wd_claims w' = wd_claims w \<and> wd_seam w' = wd_seam w"
  shows "midway seam k (t, w')"
  using assms base_cong[of seam k t w t w'] by (simp add: midway_def)

lemma release_midway_fine:
  assumes "midway seam k (t, w)" "\<And>why. out \<noteq> NothingWritten why" "settled (tx_attempt t) out (wd_cell w)"
  shows "fine seam now k (txn_release out (t, w))"
  using assms by (intro release_fine) (auto simp: midway_def split: outcome.splits)

lemma expire_suspend_fine:
  assumes "midway seam k (t, w)"
  shows "fine seam now k (expire_suspend (t, w))"
proof -
  define c where "c = (if \<not> fr_clean (tx_frame t) \<or> fr_epoch (tx_frame t) \<noteq> tx_epoch t then Layout else Deadline)"
  obtain r w' where s: "cell_suspend (tx_attempt t) c w = (r, w')" by fastforce
  have "midway seam k (t, w')" using midway_world[OF assms] cell_ops_world(2)[OF s] by simp
  moreover have "expire_suspend (t, w) = txn_release
      (case r of Inl l \<Rightarrow> if resolved_submitted (tx_attempt t) l then OutSubmitted else Unresolved c | Inr _ \<Rightarrow> Unresolved c) (t, w')"
    unfolding expire_suspend_def Let_def prod.case c_def[symmetric] s by (cases r) simp_all
  ultimately show ?thesis
    using cell_settles(2)[OF s]
    by (auto simp: settled_def suspended_at_def resolved_submitted_def intro!: release_midway_fine split: sum.splits)
qed

lemma expire_fine:
  assumes "base seam k (t, w)" "\<not> queued t" "tx_wrote t \<or> tx_job t = Idle"
  shows "fine seam now k (expire (t, w))"
proof (cases "tx_wrote t")
  case False
  with assms show ?thesis by (simp add: expire_def not_typed_fine)
next
  case True
  with assms have "midway seam k (t, w)" by (simp add: midway_def)
  with True show ?thesis
    by (auto simp: expire_def expire_suspend_fine settled_def suspended_at_def intro!: release_midway_fine split: latch.splits)
qed

text \<open>Taking a queued job back: it is withdrawn, or it turns out to have started.\<close>

lemma take_back_ok:
  assumes "base seam k (t0, w0)"
  obtains t w where "take_back (t0, w0) = Some (t, w)" "base seam k (t, w)" "\<not> queued t"
    "tx_phase t = tx_phase t0" "stages t = stages t0" "tx_deadline t = tx_deadline t0"
    "wd_cell w = wd_cell w0" "tx_attempt t = tx_attempt t0"
    "if queued t0 then tx_job t = Idle \<and> tx_wrote t = tx_wrote t0
       \<or> (\<exists>kind. tx_job t0 = OQueued kind \<and> tx_job t = ORunning kind \<and> tx_wrote t = (tx_wrote t0 \<or> kind = KLine))
     else (t, w) = (t0, w0)"
proof (cases "tx_job t0")
  case (OQueued kind)
  then obtain i where i: "tx_claim t0 = Some i" using assms by (auto simp: base_def claim_ok_def)
  show ?thesis
    by (rule that[of "fst (the (take_back (t0, w0)))" "snd (the (take_back (t0, w0)))"])
       (use OQueued i assms in \<open>auto simp: take_back_def claim_withdraw_def Let_def base_def inv_defs txn_started_def\<close>)
qed (use that[of t0 w0] assms in \<open>simp_all add: take_back_def queued_def\<close>)

lemma end_fine:
  assumes b: "base seam k (t0, w0)" and w: "tx_wrote t0 \<or> \<not> running t0 \<and> tx_job t0 \<noteq> OQueued KCr \<and> tx_job t0 \<noteq> OQueued KDeletes"
    and why: "why = EndExpire \<or> why = EndRetired \<and> wd_cell w0 = LRetired
      \<or> why = EndSubmitted \<and> tx_wrote t0 \<and> resolved_submitted (tx_attempt t0) (wd_cell w0)"
  shows "fine seam now k (txn_end why now (t0, w0))"
proof -
  from take_back_ok[OF b] obtain t w where tb: "take_back (t0, w0) = Some (t, w)" "base seam k (t, w)" "\<not> queued t"
    and cell: "wd_cell w = wd_cell w0" "tx_attempt t = tx_attempt t0" and moved: "if queued t0 then tx_job t = Idle \<and> tx_wrote t = tx_wrote t0
       \<or> (\<exists>kind. tx_job t0 = OQueued kind \<and> tx_job t = ORunning kind \<and> tx_wrote t = (tx_wrote t0 \<or> kind = KLine))
     else (t, w) = (t0, w0)"
    by metis
  have or_idle: "tx_wrote t \<or> tx_job t = Idle" and keeps: "tx_wrote t0 \<Longrightarrow> tx_wrote t"
    using tb(3) moved w by (auto simp: queued_def running_def split: owned.splits if_splits) (metis job_kind.exhaust)+
  have mid: "tx_wrote t \<Longrightarrow> midway seam k (t, w)" using tb by (simp add: midway_def)
  show ?thesis
    using why mid or_idle keeps tb cell expire_fine[OF tb(2,3)]
    by (auto simp: txn_end_def finish_def settled_def suspended_at_def resolved_submitted_def
        intro!: release_midway_fine not_typed_fine)
qed

lemma nothing_written_fine:
  assumes b: "base seam k (t0, w0)"
    and p: "\<not> tx_wrote t0" "tx_job t0 = Idle \<or> tx_job t0 = OQueued KLine \<and> tx_phase t0 = LineJob 0"
  shows "fine seam now k (nothing_written why now (t0, w0))"
proof -
  from take_back_ok[OF b] obtain t w where tb: "take_back (t0, w0) = Some (t, w)" "base seam k (t, w)" "\<not> queued t"
    "tx_phase t = tx_phase t0" "stages t = stages t0"
    "if queued t0 then tx_job t = Idle \<and> tx_wrote t = tx_wrote t0
       \<or> (\<exists>kind. tx_job t0 = OQueued kind \<and> tx_job t = ORunning kind \<and> tx_wrote t = (tx_wrote t0 \<or> kind = KLine))
     else (t, w) = (t0, w0)"
    by metis
  consider "\<not> tx_wrote t" "tx_job t = Idle" | "tx_wrote t" "tx_job t = ORunning KLine" "tx_phase t = LineJob 0"
    using tb p by (auto simp: queued_def split: owned.splits if_splits)
  then show ?thesis
  proof cases
    case 1
    with tb show ?thesis by (auto simp: nothing_written_def txn_end_def finish_def intro: not_typed_fine)
  next
    case 2
    have "0 < length (stages t)" using stages_length[of t] by linarith
    with 2 base_upd(8)[OF tb(2), of True]
    have "fine seam now k ([WakeAt (next_wake t now)], (t\<lparr>tx_admission_lost := True\<rparr>, w))"
      by (intro waits_fine) (auto simp: works_def next_wake_def)
    with 2 tb expire_fine[OF tb(2,3)] show ?thesis
      by (auto simp: nothing_written_def txn_end_def finish_def)
  qed
qed

lemma retired_fine:
  assumes "base seam k (t, w)" "tx_wrote t \<or> \<not> running t \<and> tx_job t \<noteq> OQueued KCr \<and> tx_job t \<noteq> OQueued KDeletes"
  shows "fine seam now k (txn_retired now (t, w))"
proof -
  have "base seam k (t, cell_retire w)" by (rule base_cong[OF assms(1)]) (simp_all add: cell_retire_def)
  moreover have "wd_cell (cell_retire w) = LRetired" by (simp add: cell_retire_def)
  ultimately show ?thesis using assms(2) by (simp add: txn_retired_def end_fine)
qed

section \<open>The seam\<close>

lemma seam_cases:
  assumes "base seam k (t, w)" "txn_seam first now (t, w) = (v, s)"
  obtains w' where "s = (t, w')" "base seam k (t, w')" "v = VContended (min (now + SEAM_RETRY) (tx_deadline t))"
  | w' r where "s = (t\<lparr>tx_frame := sr_frame r\<rparr>, w')" "base seam k s" "Some r \<in> seam"
      "v = VPass (sr_frame r) \<and> passed first now (fst s) r \<or> v = VClosed \<or> v = VExpired
        \<or> v = VHuman \<and> first \<or> v = VJobMark \<and> \<not> first \<or> (\<exists>c. v = VMode c) \<or> v = VLayout"
proof (cases "wd_seam w")
  case Nil
  with assms that(1)[of w] show ?thesis by (simp add: txn_seam_def)
next
  case (Cons a rest)
  let ?w = "w\<lparr>wd_seam := rest\<rparr>"
  have b: "base seam k (t', ?w)" if "fixed t' = fixed t" "tx_job t' = tx_job t" "tx_claim t' = tx_claim t" for t'
    using that by (intro base_cong[OF assms(1)]) (auto simp: Cons)
  show ?thesis
  proof (cases a)
    case None
    with assms Cons that(1)[of ?w] b[of t] show ?thesis by (simp add: txn_seam_def)
  next
    case (Some r)
    have "Some r \<in> seam" using assms(1) Cons Some by (auto simp: base_def)
    moreover have "s = (t\<lparr>tx_frame := sr_frame r\<rparr>, ?w)" using assms(2) Cons Some by (simp add: txn_seam_def Let_def)
    moreover have "v = VPass (sr_frame r) \<and> passed first now (t\<lparr>tx_frame := sr_frame r\<rparr>) r \<or> v = VClosed \<or> v = VExpired
        \<or> v = VHuman \<and> first \<or> v = VJobMark \<and> \<not> first \<or> (\<exists>c. v = VMode c) \<or> v = VLayout"
      using assms(2) Cons Some
      by (auto simp: txn_seam_def Let_def passed_def not_le split: if_splits sum.splits)
    ultimately show ?thesis using that(2)[of r ?w] b[of "t\<lparr>tx_frame := sr_frame r\<rparr>"] by (simp add: fixed_def)
  qed
qed

section \<open>Withdrawal and the unresolved end\<close>

lemma suspend_and_pause_fine:
  assumes "midway seam k (t, w)"
  shows "fine seam now k (suspend_and_pause c now (t, w))"
proof -
  obtain r w' where s: "cell_suspend (tx_attempt t) c w = (r, w')" by fastforce
  have mid: "midway seam k (t, w')" using midway_world[OF assms] cell_ops_world(2)[OF s] by simp
  have "fine seam now k ([WakeAt (next_wake t now)], (enter (Pause c) now t, w'))"
    "fine seam now k ([Reproject, WakeAt (next_wake t now)], (enter (Pause c) now t, w'))"
    using midway_upd(4)[OF mid, of "Pause c" now]
    by (intro waits_fine; simp add: midway_def enter_def next_wake_def)+
  with s mid cell_settles(2)[OF s] show ?thesis
    by (cases r) (auto simp: suspend_and_pause_def settled_def suspended_at_def resolved_submitted_def
        intro!: release_midway_fine)
qed

lemma edge_fine:
  assumes "base seam k (t, w)" "phase_job_ok (tx_phase t) t"
  shows "fine seam now k (edge now (t, w))"
proof -
  have "phase_job_ok (tx_phase t) (t\<lparr>tx_epoch := e\<rparr>)" for e
    using assms(2) by (cases "tx_phase t") (auto simp: inv_defs split: outcome.splits)
  with assms base_upd(3)[OF assms(1)] show ?thesis
    by (auto simp: edge_def intro!: waits_fine)
qed

lemma calm_frame: "calm seam k (t, w) \<Longrightarrow> base seam k (t\<lparr>tx_frame := f\<rparr>, w') \<Longrightarrow> calm seam k (t\<lparr>tx_frame := f\<rparr>, w')"
  by (simp add: calm_def)

lemma calm_end_fine:
  assumes "calm seam k (t, w)"
  shows "fine seam now k (txn_end EndExpire now (t, w))" "fine seam now k (txn_retired now (t, w))"
  using assms by (auto simp: calm_def intro!: end_fine retired_fine)

lemma try_deletes_fine:
  assumes "calm seam k (t, w)" "tx_phase t = Withdrawing" "tx_withdrawal t = Some (deletes, c)"
  shows "fine seam now k (try_deletes now (t, w))"
proof -
  have b: "base seam k (t, w)" using assms(1) by (simp add: calm_def)
  obtain v s where sm: "txn_seam False now (t, w) = (v, s)" by (cases "txn_seam False now (t, w)")
  from b sm show ?thesis
  proof (cases rule: seam_cases)
    case (1 w')
    with assms sm show ?thesis
      by (auto simp: try_deletes_def calm_def intro!: waits_fine)
  next
    case (2 w' r)
    let ?t = "t\<lparr>tx_frame := sr_frame r\<rparr>"
    have c': "calm seam k (?t, w')" using 2 assms(1) by (simp add: calm_def)
    have e: "fine seam now k (edge now (?t, w'))" using c' assms by (intro edge_fine) (auto simp: calm_def)
    have q: "fine seam now k (enqueue KDeletes (JobDeletes deletes) DeleteJob now (?t, w'))"
      if "passed False now ?t r" "strict ?t = Some deletes"
      using that 2 c' assms
      by (intro enqueue_fine[where sr = r]) (auto simp: calm_def works_def enter_def passed_def)
    show ?thesis
      using 2 assms sm e q suspend_and_pause_fine[OF calm_midway[OF c']] calm_end_fine[OF c']
      by (auto simp: try_deletes_def)
  qed
qed

lemma begin_withdrawal_fine:
  assumes "calm seam k (t, w)"
  shows "fine seam now k (begin_withdrawal deletes c now (t, w))"
  unfolding begin_withdrawal_def prod.case
  by (rule try_deletes_fine[where deletes = deletes and c = c])
     (use calm_upd(4)[OF calm_upd(5)[OF assms, of "Some (deletes, c)"]] in \<open>simp_all add: enter_def\<close>)

lemma unresolve_fine:
  assumes "midway seam k (t, w)"
  shows "fine seam now k (unresolve c now (t, w))"
proof -
  have "calm seam k (t, w)" if "may_withdraw now t"
    using that assms by (simp add: may_withdraw_def calm_def midway_def)
  then show ?thesis
    using suspend_and_pause_fine[OF assms] by (cases "may_withdraw now t"; cases "strict t") (simp_all add: unresolve_def begin_withdrawal_fine)
qed

lemma unresolve_noted_fine: "midway seam k (t, w) \<Longrightarrow> fine seam now k (unresolve_noted what c now (t, w))"
  by (simp add: unresolve_noted_def unresolve_fine midway_upd(2))

lemmas failing_fine = unresolve_fine unresolve_noted_fine suspend_and_pause_fine

lemma release_resolved_fine:
  assumes "midway seam k (t, w)" "cell_resolve (tx_attempt t) how w = (r, w')" "out = OutSubmitted \<or> out = OutWithdrawn"
  shows "fine seam now k (txn_release out (t, w'))"
  using assms(3) cell_settles(3)[OF assms(2)] midway_world[OF assms(1) cell_ops_world(3)[OF assms(2)]]
  by (intro release_midway_fine) (auto simp: settled_def)

lemma confirm_withdrawn_fine:
  assumes "calm seam k (t, w)" "tx_phase t = ConfirmWithdrawn"
  shows "fine seam now k (confirm_withdrawn now (t, w))"
proof -
  let ?t = "t\<lparr>tx_epoch := fr_epoch (tx_frame t)\<rparr>"
  obtain r w' where c: "cell_resolve (tx_attempt t) ResWithdrawn w = (r, w')" by fastforce
  have m: "midway seam k (?t, w)" and b: "base seam k (?t, w)"
    using calm_upd(1)[OF assms(1)] calm_midway by (blast, simp add: calm_def)
  have "fine seam now k ([WakeAt (next_wake ?t now)], (?t, w))"
    using assms b by (intro waits_fine) (auto simp: calm_def next_wake_def)
  moreover have "fine seam now k ([WakeAt (next_wake t now)], (t, w))"
    using assms by (intro waits_fine) (auto simp: calm_def next_wake_def)
  ultimately show ?thesis
    using release_resolved_fine[OF m, of ResWithdrawn r w'] c by (simp add: confirm_withdrawn_def Let_def)
qed

section \<open>Typing, echo and submission\<close>

lemma try_line_fine:
  assumes b: "base seam k (t, w)" and p: "tx_phase t = Typing n" "phase_job_ok (Typing n) t"
  shows "fine seam now k (try_line n now (t, w))"
proof -
  obtain v s where sm: "txn_seam (n = 0) now (t, w) = (v, s)" by (cases "txn_seam (n = 0) now (t, w)")
  from b sm show ?thesis
  proof (cases rule: seam_cases)
    case (1 w')
    with p sm show ?thesis by (auto simp: try_line_def Let_def intro!: waits_fine)
  next
    case (2 w' r)
    let ?t = "t\<lparr>tx_frame := sr_frame r\<rparr>"
    have b': "base seam k (?t, w')" using 2 by simp
    have mid: "n \<noteq> 0 \<Longrightarrow> midway seam k (?t, w')" using b' p by (simp add: midway_def queued_def)
    have nw: "n = 0 \<Longrightarrow> fine seam now k (nothing_written why now (?t, w'))" for why
      using b' p by (intro nothing_written_fine) auto
    have wake: "fine seam now k ([WakeAt (next_wake ?t now)], (?t, w'))"
      using b' p by (intro waits_fine) (auto simp: next_wake_def)
    have ret: "fine seam now k (txn_retired now (?t, w'))" using b' p by (intro retired_fine) (auto simp: running_def)
    have q: "fine seam now k (enqueue KLine (JobLine (stages ?t ! n)) (LineJob n) now (?t, w'))"
      if "passed (n = 0) now ?t r"
        "if n = 0 then empty_and_ready (sr_frame r)
         else fr_dialog (sr_frame r) = None \<and> holds_prefix (tx_line ?t) (tx_accepted ?t) (sr_frame r)"
      using that 2 b' p
      by (intro enqueue_fine[where sr = r]) (auto simp: works_def running_def enter_def passed_def)
    have len: "n < length (stages ?t)" using p by simp
    show ?thesis
      using 2(4)
    proof (elim disjE)
      assume v: "v = VPass (sr_frame r) \<and> passed (n = 0) now (fst s) r"
      show ?thesis
        using v sm 2(1) len q nw failing_fine[OF mid]
        by (auto simp: try_line_def Let_def split: option.split)
    qed (use sm 2(1) nw wake ret failing_fine[OF mid] in \<open>auto simp: try_line_def Let_def\<close>)
  qed
qed

lemma calm_waits_fine:
  assumes "calm seam k (t, w)" "phase_job_ok (tx_phase t) t"
  shows "fine seam now k ([WakeAt (next_wake t now)], (t, w))"
  using assms by (intro waits_fine) (auto simp: calm_def)

lemma head_echo_fine:
  assumes c: "calm seam k (t, w)" and p: "tx_phase t = HeadEcho" "length (stages t) = 2"
  shows "fine seam now k (head_echo now (t, w))"
proof -
  have ph: "phase_job_ok (tx_phase t) t" using c p by (simp add: calm_def)
  have t1: "fine seam now k (try_line 1 now (enter (Typing 1) now t, w))"
    using c p base_upd(5)[of seam k t w "Typing 1" now]
    by (intro try_line_fine) (auto simp: calm_def enter_def)
  show ?thesis
    using failing_fine[OF calm_midway[OF c]] calm_waits_fine[OF c ph] t1 edge_fine[of seam k t w] c ph
    by (auto simp: head_echo_def calm_def)
qed

lemma cancel_after_head_fine:
  assumes c: "calm seam k (t, w)" and p: "phase_job_ok (tx_phase t) t"
  shows "fine seam now k (cancel_after_head now (t, w))"
  using failing_fine[OF calm_midway[OF c]] calm_waits_fine[OF c p] edge_fine[of seam k t w] c p
    unresolve_noted_fine[OF calm_midway[OF calm_upd(3)[OF c]]]
  by (auto simp: cancel_after_head_def calm_def)

lemma after_head_fine:
  assumes "calm seam k (t, w)" "tx_phase t = HeadEcho" "length (stages t) = 2"
  shows "fine seam now k (after_head now (t, w))"
  using cancel_after_head_fine[OF assms(1)] head_echo_fine[OF assms] assms
  by (auto simp: after_head_def calm_def)

lemma pre_cr_fine:
  assumes c: "calm seam k (t, w)" and p: "tx_phase t = PreCr"
  shows "fine seam now k (pre_cr now (t, w))"
proof -
  have b: "base seam k (t, w)" and ph: "phase_job_ok (tx_phase t) t" using c p by (simp_all add: calm_def)
  define floor where "floor = (case tx_line_done_at t of Some d \<Rightarrow> d | None \<Rightarrow> now) + SUBMIT_DELAY"
  show ?thesis
  proof (cases "now < floor")
    case True
    moreover have "fine seam now k ([WakeAt (min floor (tx_deadline t))], (t, w))"
      by (rule waits_fine[OF b ph]) simp
    ultimately show ?thesis by (simp add: pre_cr_def Let_def floor_def[symmetric])
  next
    case False
    then have eq: "pre_cr now (t, w) = (case txn_seam False now (t, w) of (v, s') \<Rightarrow>
           (case v of
              VContended at \<Rightarrow> ([WakeAt at], s')
            | VPass f \<Rightarrow>
                (if fr_dialog f \<noteq> None then unresolve DialogBeforeSubmit now s'
                 else if \<not> holds_exactly (tx_line (fst s')) f
                   then unresolve_noted ''pre_cr: the frame does not hold exactly the line'' EchoMismatch now s'
                 else enqueue KCr JobCr CrJob now s')
            | VLayout \<Rightarrow> edge now s'
            | VMode _ \<Rightarrow> unresolve ModeChanged now s'
            | VClosed \<Rightarrow> txn_retired now s'
            | VExpired \<Rightarrow> txn_end EndExpire now s'
            | VHuman \<Rightarrow> unresolve_noted ''pre_cr: seam watermark moved'' EchoMismatch now s'
            | VJobMark \<Rightarrow> unresolve_noted ''pre_cr: seam job mark moved'' EchoMismatch now s'))"
      by (simp add: pre_cr_def Let_def floor_def[symmetric])
    obtain v s where sm: "txn_seam False now (t, w) = (v, s)" by (cases "txn_seam False now (t, w)")
    from b sm show ?thesis
    proof (cases rule: seam_cases)
      case (1 w')
      with p ph sm eq show ?thesis by (auto intro!: waits_fine)
    next
      case (2 w' r)
      let ?t = "t\<lparr>tx_frame := sr_frame r\<rparr>"
      have c': "calm seam k (?t, w')" using 2 c by (simp add: calm_def)
      have e: "fine seam now k (edge now (?t, w'))" using c' p by (intro edge_fine) (auto simp: calm_def)
      have q: "fine seam now k (enqueue KCr JobCr CrJob now (?t, w'))"
        if "passed False now ?t r" "fr_dialog (sr_frame r) = None" "holds_exactly (tx_line t) (sr_frame r)"
        using that 2 c' by (intro enqueue_fine[where sr = r]) (auto simp: calm_def works_def enter_def passed_def)
      show ?thesis
        using 2 sm e q failing_fine[OF calm_midway[OF c']] calm_end_fine[OF c'] by (auto simp: eq)
    qed
  qed
qed

lemma echo_fine:
  assumes c: "calm seam k (t, w)" and p: "tx_phase t = Echo"
  shows "fine seam now k (echo now (t, w))"
proof -
  have ph: "phase_job_ok (tx_phase t) t" using c p by (simp add: calm_def)
  have "fine seam now k (pre_cr now (enter PreCr now t, w))"
    using calm_upd(4)[OF c] by (intro pre_cr_fine) (auto simp: enter_def)
  then show ?thesis
    using failing_fine[OF calm_midway[OF c]] calm_waits_fine[OF c ph] edge_fine[of seam k t w] c ph
    by (simp add: echo_def calm_def)
qed

lemma ascii_boundary: "list_all (\<lambda>c. byte_of c < 128) str \<Longrightarrow> n \<le> length str \<Longrightarrow> is_char_boundary str n"
  by (auto simp: is_char_boundary_def is_cont_def list_all_length le_less)

lemma stage_ascii:
  assumes "line_ok t" "n < length (stages t)"
  shows "list_all (\<lambda>c. byte_of c < 128) (stages t ! n)"
proof -
  have "set (stages t ! n) \<subseteq> set (tx_line t)"
    using assms(2) set_take_subset set_drop_subset
    by (auto simp: stages_def Let_def nth_Cons' split: option.splits if_splits dest: in_set_takeD in_set_dropD)
  with assms(1) show ?thesis by (auto simp: line_ok_def list_all_iff)
qed

lemma line_ended_fine:
  assumes b: "base seam k (t, w)" and p: "tx_job t = Idle" "tx_phase t = LineJob n" "n < length (stages t)"
  shows "fine seam now k (line_ended n accepted ok now (t, w))"
proof -
  define part where "part = stages t ! n"
  define t1 where "t1 = t\<lparr>tx_accepted := sum_list (map char_count (take n (stages t)))
      + char_count (take (min accepted (length part)) part)\<rparr>"
  have cut: "is_char_boundary part (min accepted (length part))"
    using stage_ascii[of t n] b p by (intro ascii_boundary) (auto simp: part_def base_def)
  have b1: "base seam k (t1\<lparr>tx_wrote := x\<rparr>, w)" for x
    using base_upd(2)[OF base_upd(6)[OF b]] by (simp add: t1_def)
  have idle: "tx_job (t1\<lparr>tx_wrote := x\<rparr>) = Idle" for x using p by (simp add: t1_def)
  have nw: "fine seam now k (nothing_written WriteFailed now (t1\<lparr>tx_wrote := False\<rparr>, w))"
    using b1 idle by (intro nothing_written_fine) auto
  have c: "calm seam k (t1\<lparr>tx_wrote := True\<rparr>, w)" using b1 idle by (simp add: calm_def)
  have st: "stages t1 = stages t" by (simp add: t1_def)
  have ah: "fine seam now k (after_head now (enter HeadEcho now (t1\<lparr>tx_wrote := True\<rparr>), w))" if "n + 1 < length (stages t)"
    using calm_upd(4)[OF c] that st stages_length[of t]
    by (intro after_head_fine) (auto simp: enter_def)
  have ec: "fine seam now k (echo now (enter Echo now (t1\<lparr>tx_wrote := True, tx_line_done_at := Some now\<rparr>), w))"
    using calm_upd(4)[OF calm_upd(6)[OF c]] by (intro echo_fine) (auto simp: enter_def)
  have "line_ended n accepted ok now (t, w) =
      (if accepted = 0 \<and> n = 0 then nothing_written WriteFailed now (t1\<lparr>tx_wrote := False\<rparr>, w)
       else if \<not> ok \<or> accepted < length part then unresolve PartialWrite now (t1\<lparr>tx_wrote := True\<rparr>, w)
       else if n + 1 < length (stages t) then after_head now (enter HeadEcho now (t1\<lparr>tx_wrote := True\<rparr>), w)
       else echo now (enter Echo now (t1\<lparr>tx_wrote := True, tx_line_done_at := Some now\<rparr>), w))"
    using p cut by (simp add: line_ended_def Let_def t1_def part_def)
  then show ?thesis using nw ah ec unresolve_fine[OF calm_midway[OF c]] by simp
qed

lemma confirm_fine:
  assumes c: "calm seam k (t0, w)" and p: "tx_phase t0 = Confirm"
  shows "fine seam now k (confirm now (t0, w))"
proof -
  define t where "t = (if fr_clean (tx_frame t0) \<and> fr_epoch (tx_frame t0) \<noteq> tx_epoch t0
      then t0\<lparr>tx_epoch := fr_epoch (tx_frame t0)\<rparr> else t0)"
  have c': "calm seam k (t, w)" using c calm_upd(1)[OF c] by (simp add: t_def)
  have ph: "phase_job_ok (tx_phase t) t" using c c' p by (auto simp: calm_def t_def)
  obtain r w' where cr: "cell_resolve (tx_attempt t) ResSubmitted w = (r, w')" by fastforce
  have wk: "fine seam now k ([WakeAt (min (tx_phase_since t + SUBMIT_CONFIRM_WAIT) (next_wake t now))], (t, w))"
    using c' ph by (intro waits_fine) (auto simp: calm_def next_wake_def)
  show ?thesis
    using failing_fine[OF calm_midway[OF c']] wk release_resolved_fine[OF calm_midway[OF c'] cr] cr
    unfolding confirm_def Let_def prod.case t_def[symmetric] by simp
qed

lemma cancel_after_line_fine:
  assumes c: "calm seam k (t, w)"
  shows "fine seam now k (cancel_after_line now (t, w))"
proof -
  have "fine seam now k (pre_cr now (enter PreCr now t, w))"
    using calm_upd(4)[OF c] by (intro pre_cr_fine) (auto simp: enter_def)
  then show ?thesis
    using failing_fine[OF calm_midway[OF c]] begin_withdrawal_fine[OF calm_upd(2)[OF c]]
    by (simp add: cancel_after_line_def split: option.split)
qed

section \<open>The pause\<close>

lemma pause_withdraw_fine:
  assumes m: "midway seam k (t, w)" and p: "tx_phase t = Pause c"
  shows "fine seam now k (pause_withdraw c now (t, w))"
proof -
  have "calm seam k (t, w)" if "may_withdraw now t"
    using that m by (simp add: may_withdraw_def calm_def midway_def)
  moreover have "fine seam now k ([WakeAt (next_wake t now)], (t, w))"
    using m p by (intro waits_fine) (auto simp: midway_def)
  ultimately show ?thesis
    by (cases "tx_withdrawal t = None \<and> may_withdraw now t"; cases "strict t")
       (auto simp: pause_withdraw_def begin_withdrawal_fine)
qed

lemma pause_open_fine:
  assumes m: "midway seam k (t, w)" and p: "tx_phase t = Pause c"
  shows "fine seam now k (pause_open c now (t, w))"
proof -
  obtain r w' where cr: "cell_resolve (tx_attempt t) ResSubmitted w = (r, w')" by fastforce
  have m': "midway seam k (t, w')" using midway_world[OF m] cell_ops_world(3)[OF cr] by blast
  show ?thesis
    using pause_withdraw_fine[OF m p] pause_withdraw_fine[OF m' p] release_resolved_fine[OF m cr] cr
    by (cases r) (simp_all add: pause_open_def)
qed

lemma pause_fine:
  assumes m: "midway seam k (t0, w)" and p: "tx_phase t0 = Pause c"
  shows "fine seam now k (pause c now (t0, w))"
proof -
  define t where "t = (if fr_clean (tx_frame t0) \<and> fr_epoch (tx_frame t0) \<noteq> tx_epoch t0
      then t0\<lparr>tx_epoch := fr_epoch (tx_frame t0)\<rparr> else t0)"
  have m': "midway seam k (t, w)" using m midway_upd(1)[OF m] by (simp add: t_def)
  have "tx_phase t = Pause c" using p by (simp add: t_def)
  then show ?thesis
    using pause_open_fine[OF m'] release_midway_fine[OF m']
    unfolding pause_def Let_def prod.case t_def[symmetric]
    by (simp add: settled_def suspended_at_def split: latch.split resolution.split)
qed

end
