(* ===== verification/Txn_Events.thy ===== *)
theory Txn_Events
  imports Txn_Steps
begin

text \<open>
  One event: what hearing it does to the job the transaction owns, and that the handler of every event
  meets the contract \<^const>\<open>fine\<close>. The one thing asked of the driver is that it reports a stall only of
  a job that started.
\<close>

section \<open>Hearing an event\<close>

definition event_ok :: "event \<Rightarrow> txn \<Rightarrow> bool" where
  "event_ok ev t \<longleftrightarrow> ev = JobStalled \<longrightarrow> \<not> queued t"

fun heard :: "event \<Rightarrow> phase \<Rightarrow> txn \<Rightarrow> bool" where
  "heard ev (LineJob n) t \<longleftrightarrow>
     n < length (stages t)
     \<and> (case ev of
          JobEnded _ _ \<Rightarrow> tx_job t = Idle
        | JobNotStarted \<Rightarrow> \<not> queued t \<and> (tx_wrote t \<or> n = 0 \<and> tx_job t = Idle)
        | JobStalled \<Rightarrow> \<not> queued t \<and> tx_wrote t
        | _ \<Rightarrow> phase_job_ok (LineJob n) t)"
| "heard ev CrJob t \<longleftrightarrow>
     tx_wrote t
     \<and> (case ev of JobEnded _ _ \<Rightarrow> tx_job t = Idle | JobNotStarted \<Rightarrow> \<not> queued t | JobStalled \<Rightarrow> \<not> queued t
        | _ \<Rightarrow> works KCr t)"
| "heard ev DeleteJob t \<longleftrightarrow>
     tx_wrote t \<and> tx_withdrawal t \<noteq> None
     \<and> (case ev of JobEnded _ _ \<Rightarrow> tx_job t = Idle | JobNotStarted \<Rightarrow> \<not> queued t | JobStalled \<Rightarrow> \<not> queued t
        | _ \<Rightarrow> works KDeletes t)"
| "heard ev ph t \<longleftrightarrow> phase_job_ok ph t"

lemmas hear_defs = hear_def track_job_def txn_started_def job_ended_def

lemma hear_keeps [simp]:
  "fixed (hear ev now t) = fixed t" "tx_phase (hear ev now t) = tx_phase t" "stages (hear ev now t) = stages t"
  "tx_withdrawal (hear ev now t) = tx_withdrawal t" "tx_deadline (hear ev now t) = tx_deadline t"
  by (cases ev; cases "tx_job t"; simp add: hear_defs fixed_def)+

lemma hear_job:
  "tx_job (hear ev now t) =
     (case (ev, tx_job t) of
        (JobStarted, OQueued kind) \<Rightarrow> ORunning kind
      | (JobNotStarted, OQueued _) \<Rightarrow> Idle
      | (JobEnded _ _, _) \<Rightarrow> Idle
      | (_, j) \<Rightarrow> j)"
  by (cases ev; cases "tx_job t") (simp_all add: hear_defs)

lemma hear_wrote:
  "tx_wrote (hear ev now t) \<longleftrightarrow>
     tx_wrote t
     \<or> (case (ev, tx_job t) of
          (JobStarted, OQueued KLine) \<Rightarrow> True
        | (JobEnded n _, OQueued KLine) \<Rightarrow> 0 < n
        | (JobEnded n _, ORunning KLine) \<Rightarrow> 0 < n
        | _ \<Rightarrow> False)"
  by (cases ev; cases "tx_job t") (auto simp: hear_defs split: job_kind.splits)

lemma hear_base: "base seam k (t, w) \<Longrightarrow> base seam k (hear ev now t, w)"
  by (cases ev; cases "tx_job t") (auto simp: base_def inv_defs hear_defs)

lemma hear_heard:
  assumes "txn_ok (t, w)" "event_ok ev t"
  shows "heard ev (tx_phase t) (hear ev now t)"
proof -
  have p: "phase_job_ok (tx_phase t) t" using assms(1) by (simp add: txn_ok_def)
  show ?thesis
  proof (cases "tx_phase t")
    case (LineJob n)
    with p assms(2) show ?thesis
      by (cases ev) (auto simp: hear_job hear_wrote works_def queued_def running_def event_ok_def)
  next
    case CrJob
    with p assms(2) show ?thesis
      by (cases ev) (auto simp: hear_job hear_wrote works_def queued_def event_ok_def)
  next
    case DeleteJob
    with p assms(2) show ?thesis
      by (cases ev) (auto simp: hear_job hear_wrote works_def queued_def event_ok_def)
  next
    case (Pause c)
    with p show ?thesis
      by (cases ev; cases "tx_job t") (auto simp: hear_job hear_wrote queued_def)
  next
    case (Done out)
    with p show ?thesis
      by (cases ev; cases "tx_job t") (auto simp: hear_job hear_wrote queued_def split: outcome.splits job_kind.splits)
  qed (use p in \<open>auto simp: hear_job hear_wrote split: event.split\<close>)
qed

section \<open>One step\<close>

lemma delete_ended_fine:
  assumes c: "calm seam k (t, w)" and p: "tx_withdrawal t \<noteq> None"
  shows "fine seam now k (delete_ended accepted ok now (t, w))"
proof -
  have "fine seam now k (confirm_withdrawn now (enter ConfirmWithdrawn now t, w))"
    using calm_upd(4)[OF c] by (intro confirm_withdrawn_fine) (auto simp: enter_def)
  with p suspend_and_pause_fine[OF calm_midway[OF c]] show ?thesis by (auto simp: delete_ended_def)
qed

lemma line_job_step_fine:
  assumes b: "base seam k (t, w)" and h: "heard ev (LineJob n) t" and p: "tx_phase t = LineJob n"
  shows "fine seam now k (txn_step ev now (t, w))"
proof -
  have wait: "phase_job_ok (LineJob n) t \<Longrightarrow> fine seam now k (wait_more now (t, w))"
    using b p unfolding wait_more_def fst_conv by (intro waits_fine) auto
  show ?thesis
  proof (cases ev)
    case (JobEnded accepted ok)
    with b h p show ?thesis by (simp add: txn_step_def line_ended_fine)
  next
    case JobNotStarted
    with b h p show ?thesis
      using unresolve_fine[of seam k t w] nothing_written_fine[OF b]
      by (auto simp: txn_step_def midway_def)
  next
    case JobStalled
    with b h p show ?thesis using unresolve_fine[of seam k t w] by (simp add: txn_step_def midway_def)
  qed (use h p wait in \<open>simp_all add: txn_step_def\<close>)
qed

lemma cr_job_step_fine:
  assumes b: "base seam k (t, w)" and h: "heard ev CrJob t" and p: "tx_phase t = CrJob"
  shows "fine seam now k (txn_step ev now (t, w))"
proof -
  have wait: "works KCr t \<Longrightarrow> fine seam now k (wait_more now (t, w))"
    using b h p unfolding wait_more_def fst_conv by (intro waits_fine) auto
  show ?thesis
  proof (cases ev)
    case (JobEnded accepted ok)
    then have c: "calm seam k (t, w)" using b h by (simp add: calm_def)
    have "fine seam now k (confirm now (enter Confirm now t, w))"
      using calm_upd(4)[OF c] by (intro confirm_fine) (auto simp: enter_def)
    with JobEnded p unresolve_fine[OF calm_midway[OF c]] show ?thesis by (simp add: txn_step_def)
  next
    case JobNotStarted
    with b h p show ?thesis using unresolve_fine[of seam k t w] by (simp add: txn_step_def midway_def)
  next
    case JobStalled
    with b h p show ?thesis using unresolve_fine[of seam k t w] by (simp add: txn_step_def midway_def)
  qed (use h p wait in \<open>simp_all add: txn_step_def\<close>)
qed

lemma delete_job_step_fine:
  assumes b: "base seam k (t, w)" and h: "heard ev DeleteJob t" and p: "tx_phase t = DeleteJob"
  shows "fine seam now k (txn_step ev now (t, w))"
proof -
  have wait: "works KDeletes t \<Longrightarrow> fine seam now k (wait_more now (t, w))"
    using b h p unfolding wait_more_def fst_conv by (intro waits_fine) auto
  show ?thesis
  proof (cases ev)
    case (JobEnded accepted ok)
    then have "calm seam k (t, w)" using b h by (simp add: calm_def)
    with JobEnded h p show ?thesis by (simp add: txn_step_def delete_ended_fine)
  next
    case JobNotStarted
    with b h p show ?thesis using suspend_and_pause_fine[of seam k t w] by (simp add: txn_step_def midway_def)
  next
    case JobStalled
    with b h p show ?thesis using suspend_and_pause_fine[of seam k t w] by (simp add: txn_step_def midway_def)
  qed (use h p wait in \<open>simp_all add: txn_step_def\<close>)
qed

lemma step_fine:
  assumes b: "base seam k (t, w)" and h: "heard ev (tx_phase t) t" and nd: "\<And>out. tx_phase t \<noteq> Done out"
  shows "fine seam now k (txn_step ev now (t, w))"
proof (cases "tx_phase t")
  case (Typing n)
  with h have "0 < n \<Longrightarrow> calm seam k (t, w)" using b by (simp add: calm_def)
  with Typing h b show ?thesis
    by (auto simp: txn_step_def cancel_after_head_fine try_line_fine)
next
  case (LineJob n)
  show ?thesis by (rule line_job_step_fine[OF b _ LineJob]) (use h LineJob in metis)
next
  case CrJob
  show ?thesis by (rule cr_job_step_fine[OF b _ CrJob]) (use h CrJob in metis)
next
  case DeleteJob
  show ?thesis by (rule delete_job_step_fine[OF b _ DeleteJob]) (use h DeleteJob in metis)
next
  case (Pause c)
  then have "midway seam k (t, w)" using b h by (simp add: midway_def)
  with Pause show ?thesis by (simp add: txn_step_def pause_fine)
next
  case (Done out)
  with nd show ?thesis by blast
next
  case HeadEcho
  with b h show ?thesis using unresolve_fine[OF calm_midway, of seam k t w]
    by (auto simp: txn_step_def calm_def intro!: after_head_fine)
next
  case Echo
  then have c: "calm seam k (t, w)" using b h by (simp add: calm_def)
  with Echo calm_upd(3)[OF c] show ?thesis using unresolve_fine[OF calm_midway[OF c]]
    by (simp add: txn_step_def echo_fine cancel_after_line_fine)
next
  case PreCr
  then have c: "calm seam k (t, w)" using b h by (simp add: calm_def)
  with PreCr calm_upd(3)[OF c] show ?thesis using unresolve_fine[OF calm_midway[OF c]]
    by (simp add: txn_step_def pre_cr_fine cancel_after_line_fine)
next
  case Confirm
  with b h show ?thesis by (simp add: txn_step_def calm_def confirm_fine)
next
  case Withdrawing
  with b h show ?thesis by (auto simp: txn_step_def calm_def try_deletes_fine)
next
  case ConfirmWithdrawn
  with b h show ?thesis by (simp add: txn_step_def calm_def confirm_withdrawn_fine)
qed

section \<open>One event\<close>

lemma heard_fresh:
  assumes "heard ev (tx_phase t) t" "\<And>out. tx_phase t \<noteq> Done out" "\<And>n b. ev \<noteq> JobEnded n b" "ev \<noteq> JobNotStarted" "ev \<noteq> JobStalled"
  shows "phase_job_ok (tx_phase t) t"
  using assms by (cases "tx_phase t"; cases ev) auto

lemma heard_may_end:
  assumes "heard ev (tx_phase t) t" "\<And>out. tx_phase t \<noteq> Done out"
  shows "tx_wrote t \<or> \<not> running t \<and> tx_job t \<noteq> OQueued KCr \<and> tx_job t \<noteq> OQueued KDeletes"
  using assms by (cases "tx_phase t"; cases ev) (auto simp: running_def works_def queued_def split: owned.splits)

lemma step_or_expire_fine:
  assumes "base seam k (t, w)" "heard ev (tx_phase t) t" "\<And>out. tx_phase t \<noteq> Done out"
  shows "fine seam now k (step_or_expire ev now (t, w))"
  using assms heard_may_end[OF assms(2,3)] by (auto simp: step_or_expire_def intro!: step_fine end_fine)

lemma heard_lost: "heard ev ph (t\<lparr>tx_admission_lost := b\<rparr>) = heard ev ph t"
  by (cases ph; cases ev) (auto simp: works_def queued_def running_def split: outcome.splits)

lemma on_cases:
  assumes "\<And>out. tx_phase t0 \<noteq> Done out"
  shows "txn_on ev now (t0, w) =
      (case ev of
         EvRetired \<Rightarrow> txn_retired now (hear ev now t0, w)
       | Evidence token exact \<Rightarrow>
           (case evidence token exact now (hear ev now t0, w) of
              Some r \<Rightarrow> r | None \<Rightarrow> step_or_expire ev now (hear ev now t0, w))
       | AdmissionLost \<Rightarrow>
           (if \<not> tx_wrote (hear ev now t0) then nothing_written NotAdmitted now (hear ev now t0, w)
            else step_or_expire ev now ((hear ev now t0)\<lparr>tx_admission_lost := True\<rparr>, w))
       | _ \<Rightarrow> step_or_expire ev now (hear ev now t0, w))"
  using assms unfolding txn_on_def prod.case Let_def by (cases "tx_phase t0") (simp_all, blast?)

lemma on_fine:
  assumes ok: "txn_ok (t0, w)" "event_ok ev t0" and nd: "\<And>out. tx_phase t0 \<noteq> Done out"
  shows "fine (set (wd_seam w)) now (fixed t0) (txn_on ev now (t0, w))"
proof -
  define t where "t = hear ev now t0"
  let ?fine = "fine (set (wd_seam w)) now (fixed t0)"
  have b: "base (set (wd_seam w)) (fixed t0) (t, w)"
    unfolding t_def by (rule hear_base) (use ok in \<open>simp add: base_def txn_ok_def\<close>)
  have ph: "tx_phase t = tx_phase t0" by (simp add: t_def)
  have h: "heard ev (tx_phase t) t" using hear_heard[OF ok] ph by (simp add: t_def)
  have nd': "\<And>out. tx_phase t \<noteq> Done out" using nd ph by simp
  have step: "?fine (step_or_expire ev now (t, w))" by (rule step_or_expire_fine[OF b h nd'])
  have lost: "?fine (step_or_expire ev now (t\<lparr>tx_admission_lost := True\<rparr>, w))"
    using h nd' by (intro step_or_expire_fine base_upd(8)[OF b]) (simp_all add: heard_lost)
  have ret: "?fine (txn_retired now (t, w))" by (rule retired_fine[OF b heard_may_end[OF h nd']])
  have ev: "?fine r" if "evidence token exact now (t, w) = Some r" for token exact r
    using that end_fine[OF b] by (auto simp: evidence_def split: if_splits)
  have nw: "?fine (nothing_written NotAdmitted now (t, w))" if "ev = AdmissionLost" "\<not> tx_wrote t"
    using that heard_fresh[OF h nd'] nd'
    by (intro nothing_written_fine[OF b]) (cases "tx_phase t"; auto simp: works_def running_def)+
  have "txn_on ev now (t0, w) =
      (case ev of
         EvRetired \<Rightarrow> txn_retired now (t, w)
       | Evidence token exact \<Rightarrow>
           (case evidence token exact now (t, w) of Some r \<Rightarrow> r | None \<Rightarrow> step_or_expire ev now (t, w))
       | AdmissionLost \<Rightarrow>
           (if \<not> tx_wrote t then nothing_written NotAdmitted now (t, w)
            else step_or_expire ev now (t\<lparr>tx_admission_lost := True\<rparr>, w))
       | _ \<Rightarrow> step_or_expire ev now (t, w))"
    unfolding t_def by (rule on_cases[OF nd])
  then show ?thesis
    using step lost ret ev nw by (cases ev) (auto split: option.split)
qed

end
