(* ===== verification/Txn_Props.thy ===== *)
theory Txn_Props
  imports Txn_Events
begin

text \<open>
  What a doorbell transaction guarantees from its admission to its release, whatever order events come
  in and whatever the rest of the daemon does to the cell, the claims and the seam in between.
\<close>

section \<open>Reachable transactions\<close>

text \<open>
  Between two events other threads move the cell, the claims and what the seam will answer; they only
  never remove a claim.
\<close>

definition daemon_moves :: "world \<Rightarrow> world \<Rightarrow> bool" where
  "daemon_moves w w' \<longleftrightarrow> length (wd_claims w) \<le> length (wd_claims w')"

inductive txn_reach :: "sys \<Rightarrow> bool" where
  tr_admit: "txn_reach (t, w')"
    if "is_valid_message_id i" "admit adm seen counter ring draws i cps now w = (Inr t, counter', ring', w')"
| tr_event: "txn_reach s'"
    if "txn_reach (t, w)" "daemon_moves w w1" "event_ok ev t" "txn_on ev now (t, w1) = (acts, s')"

section \<open>Admission\<close>

lemma message_id_ascii:
  assumes "is_valid_message_id i"
  shows "list_all (\<lambda>c. byte_of c < 128) i"
proof -
  from assms obtain rest deck hex where r: "strip_prefix ''m-'' i = Some rest"
    "split_once (CHR ''-'') rest = Some (deck, hex)" "is_valid_deck_id deck" "list_all is_lower_hex hex"
    by (auto simp: is_valid_message_id_def split: option.splits prod.splits)
  have "rest = deck @ CHR ''-'' # hex" using split_once_SomeD[OF r(2)] by blast
  moreover have "i = ''m-'' @ rest" using r(1) by (simp only: strip_prefix_Some)
  moreover have "list_all (\<lambda>c. byte_of c < 128) deck"
  proof -
    have "list_all (\<lambda>c. byte_of c < 128) ALPHABET" by code_simp
    with r(3) show ?thesis by (auto simp: is_valid_deck_id_def list_all_iff)
  qed
  moreover have "list_all (\<lambda>c. byte_of c < 128) hex"
    using r(4) by (auto simp: list_all_iff is_lower_hex_def is_ascii_digit_def)
  moreover have "byte_of (CHR ''-'') < 128" "byte_of (CHR ''m'') < 128" by code_simp+
  ultimately show ?thesis by simp
qed

lemma token_ascii:
  assumes "pick_token draws screen ring = Some token"
  shows "list_all (\<lambda>c. byte_of c < 128) (ring_token_letters token)"
proof -
  have "set (ring_token_letters token) \<subseteq> set TOKEN_ALPHABET"
    using pick_loop_fresh assms draws_letters unfolding pick_token_def by blast
  moreover have "list_all (\<lambda>c. byte_of c < 128) TOKEN_ALPHABET" by code_simp
  ultimately show ?thesis by (auto simp: list_all_iff)
qed

lemma admit_cases:
  assumes "admit adm seen counter ring draws i cps now w = (Inr t, counter', ring', w')"
  obtains token attempt r where "admit_checks adm (wd_cell w) = Inr ()"
    "pick_token draws (fr_text (adm_frame adm)) ring = Some token" "allocate seen counter = (counter', Some attempt)"
    "ring' = ring_record attempt token ring" "cell_open attempt w = (Inr r, w')" "t = new_txn adm attempt token i cps now"
  using assms by (auto simp: admit_def Let_def split: sum.splits option.splits prod.splits)

lemma new_txn_line_ok:
  assumes "is_valid_message_id i" "pick_token draws screen ring = Some token"
  shows "line_ok (new_txn adm attempt token i cps now)"
proof -
  have "list_all (\<lambda>c. byte_of c < 128) LINE_PREFIX" "list_all (\<lambda>c. byte_of c < 128) LINE_SUFFIX"
    "byte_of (CHR ''('') < 128" "byte_of (CHR '')'') < 128" by code_simp+
  with message_id_ascii[OF assms(1)] token_ascii[OF assms(2)] show ?thesis
    by (simp add: line_ok_def new_txn_def ring_token_line_def doorbell_line_def)
qed

lemma admitted_ok:
  assumes "is_valid_message_id i" "admit adm seen counter ring draws i cps now w = (Inr t, counter', ring', w')"
  shows "txn_ok (t, w')"
  using assms(2)
proof (cases rule: admit_cases)
  case (1 token attempt r)
  have "0 < length (stages t)" using stages_length[of t] by linarith
  with new_txn_line_ok[OF assms(1) 1(2)] 1(6) show ?thesis
    by (simp add: txn_ok_def new_txn_def claim_ok_def)
qed

lemma moved_ok: "txn_ok (t, w) \<Longrightarrow> daemon_moves w w1 \<Longrightarrow> txn_ok (t, w1)"
  by (auto simp: txn_ok_def claim_ok_def daemon_moves_def split: owned.splits)

lemma done_silent: "tx_phase t = Done out \<Longrightarrow> txn_on ev now (t, w) = ([], (t, w))"
  by (simp add: txn_on_def)

lemma on_ok:
  assumes "txn_ok (t, w)" "event_ok ev t" "txn_on ev now (t, w) = (acts, s')"
  shows "txn_ok s'"
proof (cases "\<exists>out. tx_phase t = Done out")
  case True
  with assms show ?thesis by (auto simp: done_silent)
next
  case False
  then have "fine (set (wd_seam w)) now (fixed t) (txn_on ev now (t, w))" by (intro on_fine[OF assms(1,2)]) blast
  with assms(3) show ?thesis by (simp add: fine_def)
qed

lemma txn_reach_ok: "txn_reach s \<Longrightarrow> txn_ok s"
  by (induction rule: txn_reach.induct) (blast intro: admitted_ok moved_ok on_ok)+

lemma txn_reach_fine:
  assumes "txn_reach (t, w)" "daemon_moves w w1" "event_ok ev t" "\<And>out. tx_phase t \<noteq> Done out"
  shows "fine (set (wd_seam w1)) now (fixed t) (txn_on ev now (t, w1))"
  using on_fine moved_ok txn_reach_ok assms by blast

section \<open>The deadline\<close>

definition releases :: "reply \<Rightarrow> bool" where
  "releases r \<longleftrightarrow> (\<exists>out. fst r = [Reproject, Release out] \<and> tx_phase (fst (snd r)) = Done out)"

lemma release_releases [simp]: "releases (txn_release out s)"
  by (cases s) (simp add: releases_def txn_release_def)

lemma not_typed_releases [simp]: "releases (txn_not_typed why s)"
  by (cases s) (simp add: txn_not_typed_def split: prod.split)

lemma expire_releases [simp]: "releases (expire s)"
  by (cases s) (auto simp: expire_def expire_suspend_def Let_def split: latch.split prod.split sum.split)

lemma end_releases:
  assumes "claim_ok (t, w)" "tx_deadline t \<le> now"
  shows "releases (txn_end why now (t, w))"
proof -
  have "\<exists>s'. take_back (t, w) = Some s' \<and> tx_deadline (fst s') = tx_deadline t"
    using assms(1) by (cases "tx_job t") (auto simp: take_back_def claim_ok_def Let_def txn_started_def claim_withdraw_def)
  then obtain t' w' where "take_back (t, w) = Some (t', w')" "tx_deadline t' = tx_deadline t" by auto
  with assms(2) show ?thesis by (cases why) (auto simp: txn_end_def finish_def)
qed

lemma on_at_deadline:
  assumes ok: "txn_ok (t0, w)" and late: "tx_deadline t0 \<le> now" and nd: "\<And>out. tx_phase t0 \<noteq> Done out"
  shows "releases (txn_on ev now (t0, w))"
proof -
  define t where "t = hear ev now t0"
  have b: "base (set (wd_seam w)) (fixed t0) (t, w)"
    unfolding t_def by (rule hear_base) (use ok in \<open>simp add: base_def txn_ok_def\<close>)
  then have c: "claim_ok (t, w)" by (simp add: base_def)
  have d: "tx_deadline t \<le> now" using late by (simp add: t_def)
  have ends: "releases (txn_end why now (t, w))" for why by (rule end_releases[OF c d])
  have retired: "releases (txn_retired now (t, w))"
    unfolding txn_retired_def prod.case
    by (rule end_releases[OF _ d]) (use c in \<open>auto simp: claim_ok_def cell_retire_def split: owned.splits\<close>)
  have lost: "releases (txn_end why now (t\<lparr>tx_admission_lost := True\<rparr>, w))" for why
    by (rule end_releases) (use c d in \<open>auto simp: claim_ok_def split: owned.splits\<close>)
  have "txn_on ev now (t0, w) =
      (case ev of
         EvRetired \<Rightarrow> txn_retired now (t, w)
       | Evidence token exact \<Rightarrow>
           (case evidence token exact now (t, w) of Some r \<Rightarrow> r | None \<Rightarrow> step_or_expire ev now (t, w))
       | AdmissionLost \<Rightarrow>
           (if \<not> tx_wrote t then nothing_written NotAdmitted now (t, w)
            else step_or_expire ev now (t\<lparr>tx_admission_lost := True\<rparr>, w))
       | _ \<Rightarrow> step_or_expire ev now (t, w))"
    unfolding t_def by (rule on_cases[OF nd])
  with ends retired lost d show ?thesis
    by (cases ev) (auto simp: step_or_expire_def nothing_written_def evidence_def split: option.splits if_splits)
qed

section \<open>The guarantees\<close>

text \<open>
  C15: in every transaction the daemon can reach, whatever the order of the events and whatever other
  threads do in between, the job it owns fits its phase and has its claim, and it is in no phase whose
  data are missing. In particular it says that nothing was written only when no byte of the line was
  handed to the pane and no job is left, and no job is still queued once it is over.
\<close>

theorem txn_wellformed:
  assumes "txn_reach s"
  shows "txn_ok s"
  using txn_reach_ok[OF assms] .

text \<open>
  C3: a byte goes into an agent's input only on fresh evidence. Whenever the transaction queues a job, it
  does nothing else in that step, and one read of the seam, taken in that step and before the deadline,
  allowed it: the pane open, the input mode usable, the screen clean and of the attempt's epoch. The
  line starts only into an empty ready composer with no human input since admission; Enter is pressed
  only on a composer that holds exactly the line, with no dialog up; and the deletes remove exactly the
  text the attempt owns.
\<close>

theorem txn_jobs_on_evidence:
  assumes "txn_reach (t, w)" "daemon_moves w w1" "event_ok ev t"
    and "txn_on ev now (t, w1) = (acts, (t', w'))" "Enqueue j c \<in> set acts"
  shows "acts = [Enqueue j c] \<and> tx_claim t' = Some c
     \<and> (\<exists>sr. Some sr \<in> set (wd_seam w1) \<and> job_safe now j t' sr)"
proof -
  have nd: "tx_phase t \<noteq> Done out" for out using assms(4,5) done_silent[of t out] by auto
  have "fine (set (wd_seam w1)) now (fixed t) (acts, (t', w'))"
    using txn_reach_fine[OF assms(1-3) nd, of now] assms(4) by simp
  with assms(5) show ?thesis by (auto simp: fine_def progress_def)
qed

text \<open>
  C25: the transaction never gets stuck. Every event it takes while it is not over has exactly one kind of
  answer: it is over, with the cell no longer open for the attempt (nor suspended, when the line was
  submitted or withdrawn); or it has just queued a job, whose end is its next event; or it asks to be
  woken no later than its deadline. It never panics, and what it was admitted with never changes.
\<close>

theorem txn_progress:
  assumes "txn_reach (t, w)" "daemon_moves w w1" "event_ok ev t" "\<forall>out. tx_phase t \<noteq> Done out"
    and "txn_on ev now (t, w1) = (acts, (t', w'))"
  shows "fixed t' = fixed t \<and> APanic \<notin> set acts
     \<and> ((\<exists>out. acts = [Reproject, Release out] \<and> tx_phase t' = Done out \<and> settled (tx_attempt t) out (wd_cell w'))
        \<or> (\<exists>j c. acts = [Enqueue j c] \<and> queued t')
        \<or> (\<exists>d. (acts = [WakeAt d] \<or> acts = [Reproject, WakeAt d]) \<and> d \<le> max now (tx_deadline t)))"
proof -
  have "fine (set (wd_seam w1)) now (fixed t) (acts, (t', w'))"
    using txn_reach_fine[OF assms(1-3), of now] assms(4,5) by simp
  moreover from this have "tx_deadline t' = tx_deadline t" "tx_attempt t' = tx_attempt t"
    by (simp_all add: fine_def fixed_def)
  ultimately show ?thesis by (auto simp: fine_def progress_def)
qed

text \<open>
  C26: a transaction is over at its deadline. Whatever event it takes at or after the deadline, in any
  phase and with a job queued, running or none, it releases the writer in that very step; and from
  then on it takes nothing more.
\<close>

theorem txn_over_at_deadline:
  assumes "txn_reach (t, w)" "daemon_moves w w1" "tx_deadline t \<le> now"
  shows "\<exists>out t' w'. txn_on ev now (t, w1) = (if \<exists>o1. tx_phase t = Done o1 then [] else [Reproject, Release out], (t', w'))
     \<and> tx_phase t' = Done out \<and> txn_on ev' now' (t', w2) = ([], (t', w2))"
proof (cases "\<exists>o1. tx_phase t = Done o1")
  case True
  then obtain o1 where "tx_phase t = Done o1" by blast
  then show ?thesis using done_silent[of t o1] by auto
next
  case False
  then have "releases (txn_on ev now (t, w1))"
    using on_at_deadline[OF moved_ok[OF txn_reach_ok[OF assms(1)] assms(2)] assms(3)] by blast
  with False show ?thesis using done_silent by (cases "txn_on ev now (t, w1)") (auto simp: releases_def)
qed

section \<open>A transaction admitted\<close>

definition sample_composer :: "string \<Rightarrow> composer_view" where
  "sample_composer str =
     \<lparr>cv_text = str, cv_cursor_at_end = True, cv_placeholder = (str = []), cv_selection = False, cv_hidden = False\<rparr>"

definition sample_frame :: "string \<Rightarrow> frame" where
  "sample_frame str =
     \<lparr>fr_epoch = 1, fr_clean = True, fr_dialog = None, fr_composer = Some (sample_composer str), fr_user_cells = [],
      fr_text = [], fr_touched = False\<rparr>"

definition sample_admission :: admission where
  "sample_admission =
     \<lparr>adm_activation = Inr (), adm_mode = Inr (), adm_ledger_idle = True, adm_watermark = 7, adm_job_mark = 3,
      adm_frame = sample_frame [], adm_nudge_in_flight = False, adm_settling = False, adm_submit_route = True,
      adm_still_admitted = True\<rparr>"

definition sample_read :: "string \<Rightarrow> seam_read" where
  "sample_read str =
     \<lparr>sr_watermark = 7, sr_job_mark = 3, sr_frame = sample_frame str, sr_mode = Inr (), sr_open = True\<rparr>"

definition sample_world :: world where
  "sample_world =
     \<lparr>wd_cell = LResolved 0 ResNotTyped, wd_races = [], wd_claims = [], wd_seam = [Some (sample_read [])]\<rparr>"

definition sample_caps :: caps where
  "sample_caps =
     \<lparr>cap_delete_key = True, cap_placeholder = True, cap_hook_route = True, cap_transcript_route = False,
      cap_staged_head = None\<rparr>"

definition sample_id :: message_id where
  "sample_id = ''m-aaaaaaaa-0000000000000000''"

definition sample_txn :: txn where
  "sample_txn = new_txn sample_admission 1 (the (ring_token_from_draws [0, 1, 2, 3, 4, 5])) sample_id sample_caps 100"

definition sample_opened :: world where
  "sample_opened = sample_world\<lparr>wd_cell := LOpen 1\<rparr>"

lemma sample_admitted:
  "\<exists>counter ring. admit sample_admission [] 1 attempt_ring_default [0, 1, 2, 3, 4, 5] sample_id sample_caps 100 sample_world
     = (Inr sample_txn, counter, ring, sample_opened)"
proof -
  have "admit_checks sample_admission (wd_cell sample_world) = Inr ()" by code_simp
  moreover have "pick_token [0, 1, 2, 3, 4, 5] (fr_text (adm_frame sample_admission)) attempt_ring_default
      = Some (the (ring_token_from_draws [0, 1, 2, 3, 4, 5]))" by code_simp
  moreover have "allocate [] 1 = (2, Some 1)" by code_simp
  moreover have "cell_open 1 sample_world = (Inr (LResolved 0 ResNotTyped), sample_opened)"
    by (simp add: cell_open_def cell_advance_def next_race_def sample_world_def sample_opened_def l_advance.simps
        earlier_than_def word_le_nat_alt key_value)
  ultimately show ?thesis by (simp add: admit_def Let_def sample_txn_def)
qed

lemma sample_txn_reach: "txn_reach (sample_txn, sample_opened)"
proof -
  have "is_valid_message_id sample_id" by code_simp
  with sample_admitted show ?thesis by (blast intro: tr_admit)
qed

lemma sample_first:
  "\<exists>s'. txn_on Tick 100 (sample_txn, sample_opened) = ([Enqueue (JobLine (tx_line sample_txn)) 0], s')"
  by (simp add: txn_on_def sample_txn_def new_txn_def step_or_expire_def hear_def track_job_def TXN_MAX_def
      from_secs_def txn_step_def try_line_def txn_seam_def sample_opened_def sample_world_def sample_read_def
      sample_frame_def sample_admission_def sample_composer_def sample_caps_def empty_and_ready_def composer_is_def
      Let_def stages_def enqueue_def)

lemma sample_calm: "daemon_moves sample_opened sample_opened" "event_ok ev sample_txn"
  by (simp_all add: daemon_moves_def event_ok_def queued_def sample_txn_def new_txn_def)

lemma sample_typing: "tx_phase sample_txn = Typing 0" "tx_deadline sample_txn = 100 + TXN_MAX"
  by (simp_all add: sample_txn_def new_txn_def)

theorem txn_wellformed_witness: "txn_ok (sample_txn, sample_opened)"
  using txn_wellformed[OF sample_txn_reach] .

theorem txn_jobs_on_evidence_witness:
  "\<exists>t' w' sr. txn_on Tick 100 (sample_txn, sample_opened) = ([Enqueue (JobLine (tx_line sample_txn)) 0], (t', w'))
     \<and> Some sr \<in> set (wd_seam sample_opened) \<and> job_safe 100 (JobLine (tx_line sample_txn)) t' sr"
proof -
  obtain t' w' where on: "txn_on Tick 100 (sample_txn, sample_opened) = ([Enqueue (JobLine (tx_line sample_txn)) 0], (t', w'))"
    using sample_first by force
  from txn_jobs_on_evidence[OF sample_txn_reach sample_calm on, of "JobLine (tx_line sample_txn)" 0] on show ?thesis by auto
qed

theorem txn_progress_witness:
  "\<exists>acts t' w'. txn_on Tick 100 (sample_txn, sample_opened) = (acts, (t', w')) \<and> fixed t' = fixed sample_txn \<and> APanic \<notin> set acts"
proof -
  obtain acts t' w' where on: "txn_on Tick 100 (sample_txn, sample_opened) = (acts, (t', w'))" by (metis prod.exhaust)
  from txn_progress[OF sample_txn_reach sample_calm _ on] on show ?thesis by (simp add: sample_typing)
qed

theorem txn_over_at_deadline_witness:
  "\<exists>out t' w'. txn_on JobStarted (100 + TXN_MAX) (sample_txn, sample_opened) = ([Reproject, Release out], (t', w'))
     \<and> tx_phase t' = Done out"
  using txn_over_at_deadline[OF sample_txn_reach sample_calm(1), of "100 + TXN_MAX" JobStarted Tick 0 sample_opened]
  by (auto simp: sample_typing)

end
