(* ===== verification/Step_Invariant.thy ===== *)
theory Step_Invariant
  imports Main
begin

text \<open>
  The interface between a component's steps and its invariant: where a component starts, its step
  relation, and an invariant that holds at the start and that every step keeps. A second locale adds
  a measure that no step lowers, for the counters the components read to learn that nothing happened.
\<close>

locale step_invariant =
  fixes starts :: "'s \<Rightarrow> bool"
    and step :: "'s \<Rightarrow> 's \<Rightarrow> bool"
    and inv :: "'s \<Rightarrow> bool"
  assumes starts_inv: "starts s \<Longrightarrow> inv s"
    and step_inv: "inv s \<Longrightarrow> step s s' \<Longrightarrow> inv s'"
begin

lemma steps_inv: "step\<^sup>*\<^sup>* s s' \<Longrightarrow> inv s \<Longrightarrow> inv s'"
  by (induction rule: rtranclp_induct) (blast intro: step_inv)+

lemma reachable_inv: "starts s \<Longrightarrow> step\<^sup>*\<^sup>* s s' \<Longrightarrow> inv s'"
  using steps_inv starts_inv by blast

end

locale counted_steps = step_invariant starts step inv
  for starts :: "'s \<Rightarrow> bool" and step inv +
  fixes count :: "'s \<Rightarrow> nat"
  assumes step_count: "inv s \<Longrightarrow> step s s' \<Longrightarrow> count s \<le> count s'"
begin

lemma steps_count: "step\<^sup>*\<^sup>* s s' \<Longrightarrow> inv s \<Longrightarrow> count s \<le> count s'"
proof (induction rule: rtranclp_induct)
  case (step u v)
  then have "inv u" using steps_inv by blast
  with step show ?case using step_count[of u v] by linarith
qed simp

text \<open>When the count is the same at both ends, nothing raised it in between: a fact every uncounted
  step keeps holds at the end.\<close>

lemma quiet_keeps:
  assumes "step\<^sup>*\<^sup>* s s'" "inv s" "count s' = count s" "P s"
    and "\<And>u v. inv u \<Longrightarrow> P u \<Longrightarrow> step u v \<Longrightarrow> count v = count u \<Longrightarrow> P v"
  shows "P s'"
  using assms(1,3)
proof (induction rule: rtranclp_induct)
  case base
  show ?case by (rule assms(4))
next
  case (step u v)
  have u: "inv u" using steps_inv[OF step.hyps(1) assms(2)] .
  have "count s \<le> count u" using steps_count[OF step.hyps(1) assms(2)] .
  with step_count[OF u step.hyps(2)] step.prems have "count u = count s" "count v = count u" by simp_all
  with step.IH assms(5)[OF u _ step.hyps(2)] show ?case by simp
qed

end

end
