(* ===== verification/Ingress_Ledger.thy ===== *)
theory Ingress_Ledger
  imports Deck_Prelude Step_Invariant
begin

text \<open>
  The ledger of human operations on an agent's input, \<^verbatim>\<open>src/src/ingress_ledger.rs\<close>: tickets, the two
  marks the doorbell reads, and the flag a queued job shares with whoever may end it.

  The counters are 64 bits wide in the source and move by one per human operation; here they are
  natural numbers. The \<^verbatim>\<open>BTreeMap\<close> of outstanding tickets is an association list in ascending order
  of its keys.
\<close>

section \<open>The ledger\<close>

datatype settlement =
  Written nat | Partial nat | Failed string | Cancelled | Refused string | SRetired

record ledger =
  lg_watermark :: nat
  lg_job_mark :: nat
  lg_next_ticket :: nat
  lg_outstanding :: "(nat \<times> bool) list"
  lg_unreported :: "nat set"
  lg_closed :: bool
  lg_settled :: "(nat \<times> settlement) list"

definition SETTLED_KEPT :: nat where
  "SETTLED_KEPT = 64"

record ledger_marks =
  lm_watermark :: nat
  lm_job_mark :: nat
  lm_outstanding :: nat

definition ledger_new :: ledger where
  "ledger_new =
     \<lparr>lg_watermark = 0, lg_job_mark = 0, lg_next_ticket = 0, lg_outstanding = [], lg_unreported = {},
      lg_closed = False, lg_settled = []\<rparr>"

definition btree_insert :: "nat \<Rightarrow> bool \<Rightarrow> (nat \<times> bool) list \<Rightarrow> (nat \<times> bool) list" where
  "btree_insert k v m =
     takeWhile (\<lambda>e. fst e < k) m @ (k, v) # dropWhile (\<lambda>e. fst e \<le> k) m"

definition btree_remove :: "nat \<Rightarrow> (nat \<times> bool) list \<Rightarrow> (nat \<times> bool) list" where
  "btree_remove k m = filter (\<lambda>e. fst e \<noteq> k) m"

definition btree_set :: "nat \<Rightarrow> bool \<Rightarrow> (nat \<times> bool) list \<Rightarrow> (nat \<times> bool) list" where
  "btree_set k v m = map (\<lambda>e. if fst e = k then (k, v) else e) m"

definition has_key :: "nat \<Rightarrow> (nat \<times> bool) list \<Rightarrow> bool" where
  "has_key k m \<longleftrightarrow> k \<in> fst ` set m"

definition push_settled :: "nat \<Rightarrow> settlement \<Rightarrow> ledger \<Rightarrow> ledger" where
  "push_settled ticket how lg =
     (let settled = lg_settled lg @ [(ticket, how)]
      in lg\<lparr>lg_settled :=
             (if SETTLED_KEPT < length settled then drop (length settled - SETTLED_KEPT) settled else settled)\<rparr>)"

text \<open>A new ticket; its caller holds the guard.\<close>

definition ledger_admit :: "ledger \<Rightarrow> ledger \<times> nat" where
  "ledger_admit lg =
     (let ticket = lg_next_ticket lg + 1
      in (lg\<lparr>lg_next_ticket := ticket, lg_watermark := lg_watermark lg + 1,
             lg_outstanding :=
               (if lg_closed lg then lg_outstanding lg else btree_insert ticket False (lg_outstanding lg))\<rparr>,
          ticket))"

definition ledger_marks_of :: "ledger \<Rightarrow> ledger_marks" where
  "ledger_marks_of lg =
     \<lparr>lm_watermark = lg_watermark lg, lm_job_mark = lg_job_mark lg, lm_outstanding = length (lg_outstanding lg)\<rparr>"

definition any_outstanding :: "ledger \<Rightarrow> bool" where
  "any_outstanding lg \<longleftrightarrow> lg_outstanding lg \<noteq> []"

definition jobs_unreported :: "ledger \<Rightarrow> nat" where
  "jobs_unreported lg = card (lg_unreported lg)"

definition ledger_close :: "ledger \<Rightarrow> ledger" where
  "ledger_close lg =
     (if lg_closed lg then lg
      else foldl (\<lambda>l ticket. push_settled ticket SRetired l)
             (lg\<lparr>lg_closed := True, lg_outstanding := []\<rparr>) (map fst (lg_outstanding lg)))"

definition ledger_settle :: "nat \<Rightarrow> settlement \<Rightarrow> ledger \<Rightarrow> ledger" where
  "ledger_settle ticket how lg =
     (let lg1 = lg\<lparr>lg_unreported := lg_unreported lg - {ticket},
                   lg_outstanding := btree_remove ticket (lg_outstanding lg)\<rparr>
      in if has_key ticket (lg_outstanding lg) \<or> lg_closed lg then push_settled ticket how lg1 else lg1)"

text \<open>The bytes earlier parts of a cut operation took are an argument: a counter other threads raise.\<close>

definition failed_after :: "nat option \<Rightarrow> settlement" where
  "failed_after prior =
     (case prior of
        None \<Rightarrow> Failed ''BrokenPipe''
      | Some accepted \<Rightarrow> (if accepted = 0 then Failed ''BrokenPipe'' else Partial accepted))"

section \<open>Guards and jobs\<close>

datatype guard_end = GRefuse string | GRefuseAfter nat string | GSettleEmpty | GDrop

fun guard_settlement :: "guard_end \<Rightarrow> settlement" where
  "guard_settlement (GRefuse reason) = Refused reason"
| "guard_settlement (GRefuseAfter accepted reason) = (if 0 < accepted then Partial accepted else Refused reason)"
| "guard_settlement GSettleEmpty = Written 0"
| "guard_settlement GDrop = Cancelled"

datatype flag = Unqueued | FQueued | Reported | Disposed

text \<open>
  The hold that queues a job. \<open>queued\<close> is whether the enqueue took it, \<open>at_swap\<close> the flag at the
  exchange, which the writer, a take-back or a disposal may have moved during the enqueue. The answer
  has the flag afterwards and whether the job is armed.
\<close>

definition queue_with ::
  "nat \<Rightarrow> bool \<Rightarrow> flag \<Rightarrow> nat option \<Rightarrow> ledger \<Rightarrow> ledger \<times> flag \<times> bool" where
  "queue_with ticket queued at_swap prior lg =
     (let armed = (queued \<and> (at_swap = Unqueued \<or> at_swap = Reported));
          flag = (if armed then (if at_swap = Unqueued then FQueued else Reported) else Reported)
      in (if armed
          then lg\<lparr>lg_job_mark := lg_job_mark lg + 1, lg_unreported := insert ticket (lg_unreported lg),
                  lg_outstanding := btree_set ticket True (lg_outstanding lg)\<rparr>
          else if has_key ticket (lg_outstanding lg) \<or> lg_closed lg
            then push_settled ticket (failed_after prior)
                   (lg\<lparr>lg_outstanding := btree_remove ticket (lg_outstanding lg)\<rparr>)
            else lg,
          flag, armed))"

text \<open>The writer's report and the take-back swap the flag; each reports only when it was first.\<close>

definition job_report :: "flag \<Rightarrow> flag \<times> bool" where
  "job_report f = (Reported, f \<noteq> Reported)"

text \<open>The drop's loop, with the flags other threads left at each failed exchange.\<close>

fun job_drop :: "flag list \<Rightarrow> flag \<Rightarrow> flag \<times> bool" where
  "job_drop seen f =
     (case f of
        FQueued \<Rightarrow> (case seen of [] \<Rightarrow> (Reported, True) | s # rest \<Rightarrow> job_drop rest s)
      | Unqueued \<Rightarrow> (case seen of [] \<Rightarrow> (Disposed, False) | s # rest \<Rightarrow> job_drop rest s)
      | _ \<Rightarrow> (f, False))"

declare job_drop.simps [simp del]

definition written_settlement :: "nat \<Rightarrow> nat \<Rightarrow> string option \<Rightarrow> settlement" where
  "written_settlement len accepted error =
     (case error of
        None \<Rightarrow> (if accepted = len then Written accepted else Partial accepted)
      | Some kind \<Rightarrow> (if accepted = 0 then Failed kind else Partial accepted))"

end
