(* ===== verification/Ledger_Props.thy ===== *)
theory Ledger_Props
  imports Ingress_Ledger
begin

text \<open>
  Everything the deck's threads can do to one ledger, as steps: callers admit operations and end their
  guards, jobs are queued, and the writer, a take-back or a disposal ends a queued job in two parts,
  the swap of its flag and, once it has the ledger's lock, the settlement. \<open>ho_reported\<close> records every
  physical outcome ever reported, which the ledger itself only keeps the newest of.
\<close>

section \<open>Steps\<close>

record human_ops =
  ho_ledger :: ledger
  ho_guards :: "nat set"
  ho_flags :: "nat \<rightharpoonup> flag"
  ho_pending :: "(nat \<times> settlement) list"
  ho_reported :: "(nat \<times> settlement) list"

definition human_ops_new :: human_ops where
  "human_ops_new = \<lparr>ho_ledger = ledger_new, ho_guards = {}, ho_flags = Map.empty, ho_pending = [], ho_reported = []\<rparr>"

definition op_admit :: "human_ops \<Rightarrow> human_ops" where
  "op_admit h =
     (case ledger_admit (ho_ledger h) of (lg, ticket) \<Rightarrow>
        h\<lparr>ho_ledger := lg, ho_guards := insert ticket (ho_guards h)\<rparr>)"

definition op_guard_end :: "nat \<Rightarrow> guard_end \<Rightarrow> human_ops \<Rightarrow> human_ops" where
  "op_guard_end ticket how h =
     h\<lparr>ho_ledger := ledger_settle ticket (guard_settlement how) (ho_ledger h), ho_guards := ho_guards h - {ticket},
       ho_reported := ho_reported h @ [(ticket, guard_settlement how)]\<rparr>"

text \<open>A job that was not queued was dropped in the enqueue; \<open>early\<close> is what a writer already swapped in.\<close>

definition op_queue :: "nat \<Rightarrow> bool \<Rightarrow> flag \<Rightarrow> settlement \<Rightarrow> nat option \<Rightarrow> human_ops \<Rightarrow> human_ops" where
  "op_queue ticket queued at_swap early prior h =
     (case queue_with ticket queued at_swap prior (ho_ledger h) of (lg, flag, armed) \<Rightarrow>
        h\<lparr>ho_ledger := lg, ho_guards := ho_guards h - {ticket}, ho_flags := (ho_flags h)(ticket \<mapsto> flag),
          ho_pending := (if armed \<and> at_swap = Reported then ho_pending h @ [(ticket, early)] else ho_pending h),
          ho_reported := (if armed then ho_reported h else ho_reported h @ [(ticket, failed_after prior)])\<rparr>)"

definition op_swap :: "nat \<Rightarrow> (flag \<Rightarrow> flag \<times> bool) \<Rightarrow> settlement \<Rightarrow> human_ops \<Rightarrow> human_ops" where
  "op_swap ticket swap how h =
     (case ho_flags h ticket of
        None \<Rightarrow> h
      | Some f \<Rightarrow>
          (case swap f of (f', reports) \<Rightarrow>
             h\<lparr>ho_flags := (ho_flags h)(ticket \<mapsto> f'),
               ho_pending := (if reports then ho_pending h @ [(ticket, how)] else ho_pending h)\<rparr>))"

definition op_settle :: "nat \<Rightarrow> human_ops \<Rightarrow> human_ops" where
  "op_settle i h =
     (case ho_pending h ! i of (ticket, how) \<Rightarrow>
        h\<lparr>ho_ledger := ledger_settle ticket how (ho_ledger h),
          ho_pending := take i (ho_pending h) @ drop (Suc i) (ho_pending h),
          ho_reported := ho_reported h @ [(ticket, how)]\<rparr>)"

inductive human_step :: "human_ops \<Rightarrow> human_ops \<Rightarrow> bool" where
  hs_admit: "human_step h (op_admit h)"
| hs_guard_end: "human_step h (op_guard_end ticket how h)" if "ticket \<in> ho_guards h"
| hs_queue: "human_step h (op_queue ticket queued at_swap early prior h)"
    if "ticket \<in> ho_guards h" "at_swap \<noteq> FQueued" "\<not> queued \<Longrightarrow> at_swap \<noteq> Reported"
| hs_report: "human_step h (op_swap ticket job_report how h)"
| hs_drop: "human_step h (op_swap ticket (job_drop []) how h)"
| hs_settle: "human_step h (op_settle i h)" if "i < length (ho_pending h)"
| hs_close: "human_step h (h\<lparr>ho_ledger := ledger_close (ho_ledger h)\<rparr>)"

inductive_simps human_step_iff: "human_step h h'"

section \<open>The invariant\<close>

definition queued_jobs :: "human_ops \<Rightarrow> nat set" where
  "queued_jobs h = {t. ho_flags h t = Some FQueued}"

definition pending_tickets :: "human_ops \<Rightarrow> nat list" where
  "pending_tickets h = map fst (ho_pending h)"

definition reported_tickets :: "human_ops \<Rightarrow> nat list" where
  "reported_tickets h = map fst (ho_reported h)"

text \<open>
  Every ticket made has exactly one owner: its guard, its queued job, a report waiting for the lock, or
  it was reported, once. An open ledger's outstanding tickets are those not reported yet; jobs not
  reported yet are the unreported ones, whether the ledger is open or closed.
\<close>

definition owned_once :: "human_ops \<Rightarrow> bool" where
  "owned_once h \<longleftrightarrow>
     ho_guards h \<union> queued_jobs h \<union> set (pending_tickets h) \<union> set (reported_tickets h)
       = {1..lg_next_ticket (ho_ledger h)}
     \<and> dom (ho_flags h) \<subseteq> {1..lg_next_ticket (ho_ledger h)} - ho_guards h
     \<and> ran (ho_flags h) \<subseteq> {FQueued, Reported}
     \<and> ho_guards h \<inter> set (reported_tickets h) = {}
     \<and> set (pending_tickets h) \<union> set (reported_tickets h) \<inter> dom (ho_flags h) \<subseteq> {t. ho_flags h t = Some Reported}
     \<and> set (pending_tickets h) \<inter> set (reported_tickets h) = {}
     \<and> distinct (pending_tickets h) \<and> distinct (reported_tickets h)"

definition ledger_agrees :: "human_ops \<Rightarrow> bool" where
  "ledger_agrees h \<longleftrightarrow>
     lg_watermark (ho_ledger h) = lg_next_ticket (ho_ledger h)
     \<and> fst ` set (lg_outstanding (ho_ledger h))
         = (if lg_closed (ho_ledger h) then {}
            else ho_guards h \<union> queued_jobs h \<union> set (pending_tickets h))
     \<and> sorted_wrt (<) (map fst (lg_outstanding (ho_ledger h)))
     \<and> lg_unreported (ho_ledger h) = queued_jobs h \<union> set (pending_tickets h)
     \<and> length (lg_settled (ho_ledger h)) \<le> SETTLED_KEPT"

definition human_ok :: "human_ops \<Rightarrow> bool" where
  "human_ok h \<longleftrightarrow> owned_once h \<and> ledger_agrees h"

lemma human_ok_new: "human_ok human_ops_new"
  by (auto simp: human_ok_def owned_once_def ledger_agrees_def human_ops_new_def ledger_new_def queued_jobs_def
      pending_tickets_def reported_tickets_def)

section \<open>What the ledger's operations do\<close>

lemma push_settled_fields [simp]:
  "lg_watermark (push_settled t how lg) = lg_watermark lg" "lg_job_mark (push_settled t how lg) = lg_job_mark lg"
  "lg_next_ticket (push_settled t how lg) = lg_next_ticket lg" "lg_outstanding (push_settled t how lg) = lg_outstanding lg"
  "lg_unreported (push_settled t how lg) = lg_unreported lg" "lg_closed (push_settled t how lg) = lg_closed lg"
  by (simp_all add: push_settled_def Let_def)

lemma push_settled_bound [simp]: "length (lg_settled (push_settled t how lg)) \<le> SETTLED_KEPT"
  by (auto simp: push_settled_def Let_def SETTLED_KEPT_def)

lemma fold_retired_fields [simp]:
  fixes ts :: "nat list" and lg :: ledger
  defines "lg' \<equiv> foldl (\<lambda>l ticket. push_settled ticket SRetired l) lg ts"
  shows "lg_watermark lg' = lg_watermark lg" "lg_job_mark lg' = lg_job_mark lg" "lg_next_ticket lg' = lg_next_ticket lg"
    "lg_outstanding lg' = lg_outstanding lg" "lg_unreported lg' = lg_unreported lg" "lg_closed lg' = lg_closed lg"
  unfolding lg'_def by (induction ts arbitrary: lg) simp_all

lemma fold_retired_bound:
  "length (lg_settled lg) \<le> SETTLED_KEPT
     \<Longrightarrow> length (lg_settled (foldl (\<lambda>l ticket. push_settled ticket SRetired l) lg ts)) \<le> SETTLED_KEPT"
  by (induction ts arbitrary: lg) simp_all

lemma settle_fields [simp]:
  "lg_watermark (ledger_settle t how lg) = lg_watermark lg" "lg_job_mark (ledger_settle t how lg) = lg_job_mark lg"
  "lg_next_ticket (ledger_settle t how lg) = lg_next_ticket lg" "lg_closed (ledger_settle t how lg) = lg_closed lg"
  "lg_outstanding (ledger_settle t how lg) = btree_remove t (lg_outstanding lg)"
  "lg_unreported (ledger_settle t how lg) = lg_unreported lg - {t}"
  by (simp_all add: ledger_settle_def Let_def)

lemma settle_bound:
  "length (lg_settled lg) \<le> SETTLED_KEPT \<Longrightarrow> length (lg_settled (ledger_settle t how lg)) \<le> SETTLED_KEPT"
  by (simp add: ledger_settle_def Let_def)

lemma keys_remove [simp]: "fst ` set (btree_remove k m) = fst ` set m - {k}"
  by (auto simp: btree_remove_def)

lemma keys_set [simp]: "map fst (btree_set k v m) = map fst m"
  by (simp add: btree_set_def)

lemma keys_set_image [simp]: "fst ` set (btree_set k v m) = fst ` set m"
  using keys_set[of k v m] by (metis set_map)

lemma sorted_remove: "sorted_wrt (<) (map fst m) \<Longrightarrow> sorted_wrt (<) (map fst (btree_remove k m))"
  by (simp add: btree_remove_def sorted_wrt_map sorted_wrt_filter)

lemma insert_above:
  assumes "\<And>e. e \<in> set m \<Longrightarrow> fst e < k"
  shows "btree_insert k v m = m @ [(k, v)]"
proof -
  have "takeWhile (\<lambda>e. fst e < k) m = m" using assms by (simp add: takeWhile_eq_all_conv)
  moreover have "dropWhile (\<lambda>e. fst e \<le> k) m = []" using assms by (simp add: dropWhile_eq_Nil_conv less_imp_le)
  ultimately show ?thesis by (simp add: btree_insert_def)
qed

section \<open>Every step keeps it\<close>

lemmas human_defs = human_ok_def owned_once_def ledger_agrees_def queued_jobs_def pending_tickets_def reported_tickets_def

lemma outstanding_range:
  assumes "human_ok h" "e \<in> set (lg_outstanding (ho_ledger h))"
  shows "fst e \<in> {1..lg_next_ticket (ho_ledger h)}"
proof -
  have "fst e \<in> fst ` set (lg_outstanding (ho_ledger h))" using assms(2) by blast
  with assms(1) show ?thesis
    unfolding human_ok_def owned_once_def ledger_agrees_def by (metis UnCI empty_iff)
qed

lemma owners:
  assumes "human_ok h"
  shows "t \<in> ho_guards h \<Longrightarrow> t \<notin> queued_jobs h \<and> t \<notin> set (pending_tickets h) \<and> t \<notin> set (reported_tickets h)
       \<and> ho_flags h t = None \<and> 1 \<le> t \<and> t \<le> lg_next_ticket (ho_ledger h)"
    and "t \<in> queued_jobs h \<Longrightarrow> t \<notin> set (pending_tickets h) \<and> t \<notin> set (reported_tickets h)"
    and "t \<in> set (pending_tickets h) \<Longrightarrow> t \<notin> set (reported_tickets h) \<and> ho_flags h t = Some Reported"
proof -
  have made: "ho_guards h \<union> queued_jobs h \<union> set (pending_tickets h) \<union> set (reported_tickets h) = {1..lg_next_ticket (ho_ledger h)}"
    and dom: "dom (ho_flags h) \<subseteq> {1..lg_next_ticket (ho_ledger h)} - ho_guards h"
    and gr: "ho_guards h \<inter> set (reported_tickets h) = {}"
    and sub: "set (pending_tickets h) \<union> set (reported_tickets h) \<inter> dom (ho_flags h) \<subseteq> {t. ho_flags h t = Some Reported}"
    and pr: "set (pending_tickets h) \<inter> set (reported_tickets h) = {}"
    using assms by (simp_all only: human_ok_def owned_once_def)
  have o: "\<And>t. t \<in> dom (ho_flags h) \<Longrightarrow> t \<notin> ho_guards h" "\<And>t. t \<in> ho_guards h \<Longrightarrow> t \<notin> set (reported_tickets h)"
    "\<And>t. t \<in> set (pending_tickets h) \<Longrightarrow> ho_flags h t = Some Reported"
    "\<And>t f. t \<in> set (reported_tickets h) \<Longrightarrow> ho_flags h t = Some f \<Longrightarrow> f = Reported"
    "\<And>t. t \<in> set (pending_tickets h) \<Longrightarrow> t \<notin> set (reported_tickets h)"
    using dom apply blast
    using gr apply blast
    using sub apply blast
    using sub apply fastforce
    using pr by blast
  show "t \<in> ho_guards h \<Longrightarrow> t \<notin> queued_jobs h \<and> t \<notin> set (pending_tickets h) \<and> t \<notin> set (reported_tickets h)
       \<and> ho_flags h t = None \<and> 1 \<le> t \<and> t \<le> lg_next_ticket (ho_ledger h)"
  proof -
    assume t: "t \<in> ho_guards h"
    then have "t \<in> {1..lg_next_ticket (ho_ledger h)}" using made by blast
    with t o(1)[of t] o(2)[of t] o(3)[of t] show ?thesis by (auto simp: queued_jobs_def)
  qed
  show "t \<in> queued_jobs h \<Longrightarrow> t \<notin> set (pending_tickets h) \<and> t \<notin> set (reported_tickets h)"
    using o(3)[of t] o(4)[of t FQueued] by (auto simp: queued_jobs_def)
  show "t \<in> set (pending_tickets h) \<Longrightarrow> t \<notin> set (reported_tickets h) \<and> ho_flags h t = Some Reported"
    using o(3)[of t] o(5)[of t] by blast
qed

text \<open>How the owners of tickets change, operation by operation.\<close>

lemma owners_admit [simp]:
  "ho_guards (op_admit h) = insert (Suc (lg_next_ticket (ho_ledger h))) (ho_guards h)"
  "queued_jobs (op_admit h) = queued_jobs h" "pending_tickets (op_admit h) = pending_tickets h"
  "reported_tickets (op_admit h) = reported_tickets h" "ho_flags (op_admit h) = ho_flags h"
  "lg_next_ticket (ho_ledger (op_admit h)) = Suc (lg_next_ticket (ho_ledger h))"
  by (simp_all add: op_admit_def ledger_admit_def Let_def queued_jobs_def pending_tickets_def reported_tickets_def)

lemma owners_guard_end [simp]:
  "ho_guards (op_guard_end t how h) = ho_guards h - {t}"
  "queued_jobs (op_guard_end t how h) = queued_jobs h" "pending_tickets (op_guard_end t how h) = pending_tickets h"
  "reported_tickets (op_guard_end t how h) = reported_tickets h @ [t]" "ho_flags (op_guard_end t how h) = ho_flags h"
  by (simp_all add: op_guard_end_def queued_jobs_def pending_tickets_def reported_tickets_def)

lemma owners_settle [simp]:
  assumes "i < length (ho_pending h)"
  shows "ho_guards (op_settle i h) = ho_guards h" "queued_jobs (op_settle i h) = queued_jobs h"
    "ho_flags (op_settle i h) = ho_flags h"
    "pending_tickets (op_settle i h) = take i (pending_tickets h) @ drop (Suc i) (pending_tickets h)"
    "reported_tickets (op_settle i h) = reported_tickets h @ [pending_tickets h ! i]"
  using assms
  by (simp_all add: op_settle_def queued_jobs_def pending_tickets_def reported_tickets_def take_map drop_map split: prod.split)

lemma admit_ok:
  assumes ok: "human_ok h"
  shows "human_ok (op_admit h)"
proof -
  let ?n = "lg_next_ticket (ho_ledger h)"
  have fresh: "Suc ?n \<notin> ho_guards h \<union> queued_jobs h \<union> set (pending_tickets h) \<union> set (reported_tickets h)"
    using ok unfolding human_ok_def owned_once_def by auto
  have below: "fst e < Suc ?n" if "e \<in> set (lg_outstanding (ho_ledger h))" for e
    using outstanding_range[OF ok that] by simp
  then have ins: "btree_insert (Suc ?n) False (lg_outstanding (ho_ledger h)) = lg_outstanding (ho_ledger h) @ [(Suc ?n, False)]"
    by (rule insert_above)
  have below': "sorted_wrt (<) (map fst (lg_outstanding (ho_ledger h)) @ [Suc ?n])"
  proof -
    have "sorted_wrt (<) (map fst (lg_outstanding (ho_ledger h)))" using ok by (simp only: human_ok_def ledger_agrees_def)
    with below show ?thesis by (auto simp: sorted_wrt_append)
  qed
  have "owned_once (op_admit h)"
    using ok fresh unfolding human_ok_def owned_once_def by auto
  moreover have "ledger_agrees (op_admit h)"
    using ok below' unfolding human_ok_def ledger_agrees_def owners_admit
    by (simp add: op_admit_def ledger_admit_def Let_def ins)
  ultimately show ?thesis by (simp add: human_ok_def)
qed

lemma guard_end_ok:
  assumes ok: "human_ok h" and t: "t \<in> ho_guards h"
  shows "human_ok (op_guard_end t how h)"
proof -
  note o = owners(1)[OF ok t]
  have "owned_once (op_guard_end t how h)"
    using ok t o unfolding human_ok_def owned_once_def owners_guard_end by (auto simp: op_guard_end_def)
  moreover have "ledger_agrees (op_guard_end t how h)"
    using ok o unfolding human_ok_def ledger_agrees_def owners_guard_end
    by (auto simp: op_guard_end_def sorted_remove settle_bound)
  ultimately show ?thesis by (simp add: human_ok_def)
qed

lemma distinct_remove_nth:
  assumes "distinct xs" "i < length xs"
  shows "set (take i xs @ drop (Suc i) xs) = set xs - {xs ! i}" "distinct (take i xs @ drop (Suc i) xs)"
proof -
  have "xs = take i xs @ xs ! i # drop (Suc i) xs" using assms(2) by (rule id_take_nth_drop)
  then have "distinct (take i xs @ xs ! i # drop (Suc i) xs)" "set xs = set (take i xs @ xs ! i # drop (Suc i) xs)"
    using assms(1) by simp_all
  then show "set (take i xs @ drop (Suc i) xs) = set xs - {xs ! i}" "distinct (take i xs @ drop (Suc i) xs)" by auto
qed

lemma settle_ok:
  assumes ok: "human_ok h" and i: "i < length (ho_pending h)"
  shows "human_ok (op_settle i h)"
proof -
  let ?p = "pending_tickets h" and ?t = "pending_tickets h ! i"
  have len: "i < length ?p" using i by (simp add: pending_tickets_def)
  have d: "distinct ?p" using ok by (simp add: human_ok_def owned_once_def)
  have split: "?p = take i ?p @ ?t # drop (Suc i) ?p" using len by (simp add: id_take_nth_drop)
  have left: "set (take i ?p @ drop (Suc i) ?p) = set ?p - {?t}" "distinct (take i ?p @ drop (Suc i) ?p)"
    using distinct_remove_nth[OF d len] by simp_all
  have t: "?t \<in> set ?p" using len by simp
  note o = owners(3)[OF ok t]
  have q: "?t \<notin> queued_jobs h" "?t \<notin> ho_guards h"
    using owners(1,2)[OF ok] t by blast+
  obtain how where lg: "ho_ledger (op_settle i h) = ledger_settle ?t how (ho_ledger h)"
    using i by (cases "ho_pending h ! i") (simp add: op_settle_def pending_tickets_def)
  have "owned_once (op_settle i h)"
    using ok t o left unfolding human_ok_def owned_once_def owners_settle[OF i] lg settle_fields by auto
  moreover have "ledger_agrees (op_settle i h)"
    using ok o q left unfolding human_ok_def ledger_agrees_def owners_settle[OF i]
    by (auto simp: lg sorted_remove settle_bound)
  ultimately show ?thesis by (simp add: human_ok_def)
qed

lemma close_ok:
  assumes ok: "human_ok h"
  shows "human_ok (h\<lparr>ho_ledger := ledger_close (ho_ledger h)\<rparr>)"
  using ok by (auto simp: human_defs ledger_close_def fold_retired_bound)


lemma flags_queue:
  "queue_with t queued at_swap prior lg = (lg', f, armed) \<Longrightarrow> f = (if armed \<and> at_swap = Unqueued then FQueued else Reported)"
  by (auto simp: queue_with_def Let_def split: if_splits)

lemma queue_armed:
  assumes "queue_with t queued at_swap prior lg = (lg', f, True)"
  shows "lg_next_ticket lg' = lg_next_ticket lg" "lg_watermark lg' = lg_watermark lg" "lg_closed lg' = lg_closed lg"
    "lg_unreported lg' = insert t (lg_unreported lg)" "lg_settled lg' = lg_settled lg"
    "map fst (lg_outstanding lg') = map fst (lg_outstanding lg)" "fst ` set (lg_outstanding lg') = fst ` set (lg_outstanding lg)"
    "lg_job_mark lg' = lg_job_mark lg + 1" "at_swap = Unqueued \<or> at_swap = Reported"
proof -
  have lg: "lg' = lg\<lparr>lg_job_mark := lg_job_mark lg + 1, lg_unreported := insert t (lg_unreported lg),
      lg_outstanding := btree_set t True (lg_outstanding lg)\<rparr>"
    and "at_swap = Unqueued \<or> at_swap = Reported"
    using assms by (auto simp: queue_with_def Let_def split: if_splits)
  then show "lg_next_ticket lg' = lg_next_ticket lg" "lg_watermark lg' = lg_watermark lg" "lg_closed lg' = lg_closed lg"
    "lg_unreported lg' = insert t (lg_unreported lg)" "lg_settled lg' = lg_settled lg"
    "map fst (lg_outstanding lg') = map fst (lg_outstanding lg)" "fst ` set (lg_outstanding lg') = fst ` set (lg_outstanding lg)"
    "lg_job_mark lg' = lg_job_mark lg + 1" "at_swap = Unqueued \<or> at_swap = Reported"
    by simp_all
qed

lemma queue_unarmed:
  assumes "queue_with t queued at_swap prior lg = (lg', f, False)"
  shows "lg_next_ticket lg' = lg_next_ticket lg" "lg_watermark lg' = lg_watermark lg" "lg_closed lg' = lg_closed lg"
    "lg_unreported lg' = lg_unreported lg" "lg_outstanding lg' = btree_remove t (lg_outstanding lg)"
    "lg_job_mark lg' = lg_job_mark lg"
    "length (lg_settled lg) \<le> SETTLED_KEPT \<Longrightarrow> length (lg_settled lg') \<le> SETTLED_KEPT"
  using assms
  by (auto simp: queue_with_def Let_def has_key_def btree_remove_def split: if_splits intro!: filter_True[symmetric])

lemma ran_upd: "m t = None \<Longrightarrow> ran (m(t \<mapsto> x)) = insert x (ran m)"
  by auto

lemma queue_armed_ok:
  assumes ok: "human_ok h" and t: "t \<in> ho_guards h"
    and q: "queue_with t queued at_swap prior (ho_ledger h) = (lg, f, True)"
  shows "human_ok (op_queue t queued at_swap early prior h)"
proof -
  note o = owners(1)[OF ok t] and a = queue_armed[OF q]
  let ?h = "op_queue t queued at_swap early prior h"
  have j: "queued_jobs ?h = (if at_swap = Unqueued then insert t (queued_jobs h) else queued_jobs h)"
    "pending_tickets ?h = (if at_swap = Reported then pending_tickets h @ [t] else pending_tickets h)"
    "reported_tickets ?h = reported_tickets h" "ho_guards ?h = ho_guards h - {t}"
    "ho_flags ?h = (ho_flags h)(t \<mapsto> if at_swap = Unqueued then FQueued else Reported)" "ho_ledger ?h = lg"
    using q flags_queue[OF q] o by (auto simp: op_queue_def queued_jobs_def pending_tickets_def reported_tickets_def)
  have ran: "ran (ho_flags ?h) = insert (if at_swap = Unqueued then FQueued else Reported) (ran (ho_flags h))"
    unfolding j using o by (intro ran_upd) blast
  have "owned_once ?h"
    using ok t o a(9) unfolding human_ok_def owned_once_def ran unfolding j a by auto
  moreover have "ledger_agrees ?h"
    using ok o t a(9) unfolding human_ok_def ledger_agrees_def j a by auto
  ultimately show ?thesis by (simp add: human_ok_def)
qed

lemma queue_unarmed_ok:
  assumes ok: "human_ok h" and t: "t \<in> ho_guards h"
    and q: "queue_with t queued at_swap prior (ho_ledger h) = (lg, f, False)"
  shows "human_ok (op_queue t queued at_swap early prior h)"
proof -
  note o = owners(1)[OF ok t] and a = queue_unarmed[OF q]
  let ?h = "op_queue t queued at_swap early prior h"
  have j: "queued_jobs ?h = queued_jobs h" "pending_tickets ?h = pending_tickets h"
    "reported_tickets ?h = reported_tickets h @ [t]" "ho_guards ?h = ho_guards h - {t}"
    "ho_flags ?h = (ho_flags h)(t \<mapsto> Reported)" "ho_ledger ?h = lg"
    using q flags_queue[OF q] o by (auto simp: op_queue_def queued_jobs_def pending_tickets_def reported_tickets_def)
  have ran: "ran (ho_flags ?h) = insert Reported (ran (ho_flags h))"
    unfolding j using o by (intro ran_upd) blast
  have sorted: "sorted_wrt (<) (map fst (btree_remove t (lg_outstanding (ho_ledger h))))"
    using ok by (intro sorted_remove) (simp only: human_ok_def ledger_agrees_def)
  have "owned_once ?h"
    using ok t o unfolding human_ok_def owned_once_def ran unfolding j a by auto
  moreover have "ledger_agrees ?h"
    using ok o t sorted a(7) unfolding human_ok_def ledger_agrees_def j a(1-6) keys_remove by auto
  ultimately show ?thesis by (simp add: human_ok_def)
qed

lemma queue_ok:
  assumes "human_ok h" "t \<in> ho_guards h"
  shows "human_ok (op_queue t queued at_swap early prior h)"
proof -
  obtain lg f armed where "queue_with t queued at_swap prior (ho_ledger h) = (lg, f, armed)" by (metis prod_cases3)
  with assms show ?thesis by (cases armed) (auto intro: queue_armed_ok queue_unarmed_ok)
qed

lemma swap_ok:
  assumes ok: "human_ok h" and swap: "swap FQueued = (Reported, True)" "swap Reported = (Reported, False)"
  shows "human_ok (op_swap t swap how h)"
proof -
  have "ran (ho_flags h) \<subseteq> {FQueued, Reported}" using ok by (simp only: human_ok_def owned_once_def)
  then consider "ho_flags h t = None" | "ho_flags h t = Some Reported" | (queued) "ho_flags h t = Some FQueued"
    by (cases "ho_flags h t") (auto simp: ran_def)
  then show ?thesis
  proof cases
    case queued
    let ?h = "op_swap t swap how h"
    have q: "t \<in> queued_jobs h" using queued by (simp add: queued_jobs_def)
    note o = owners(2)[OF ok q]
    have g: "t \<notin> ho_guards h" using owners(1)[OF ok] queued by fastforce
    have j: "queued_jobs ?h = queued_jobs h - {t}" "pending_tickets ?h = pending_tickets h @ [t]"
      "reported_tickets ?h = reported_tickets h" "ho_guards ?h = ho_guards h"
      "ho_flags ?h = (ho_flags h)(t \<mapsto> Reported)" "ho_ledger ?h = ho_ledger h"
      using queued swap by (auto simp: op_swap_def queued_jobs_def pending_tickets_def reported_tickets_def)
    have "ran (ho_flags ?h) \<subseteq> {FQueued, Reported}"
      using ok unfolding j human_ok_def owned_once_def ran_def by auto
    with ok q o g have "owned_once ?h"
      unfolding human_ok_def owned_once_def unfolding j by (auto simp: domIff)
    moreover have "ledger_agrees ?h"
      using ok q o unfolding human_ok_def ledger_agrees_def j by auto
    ultimately show ?thesis by (simp add: human_ok_def)
  qed (use ok swap in \<open>auto simp: op_swap_def fun_upd_idem\<close>)
qed

lemma step_ok: "human_ok h \<Longrightarrow> human_step h h' \<Longrightarrow> human_ok h'"
  unfolding human_step_iff
  by (auto intro!: admit_ok guard_end_ok queue_ok swap_ok settle_ok close_ok simp: job_report_def job_drop.simps)


section \<open>The marks\<close>

lemma swap_ledger [simp]: "ho_ledger (op_swap t swap how h) = ho_ledger h"
  by (simp add: op_swap_def split: option.split prod.split)

lemma settle_watermark [simp]: "lg_watermark (ho_ledger (op_settle i h)) = lg_watermark (ho_ledger h)"
  by (simp add: op_settle_def split: prod.split)

lemma step_watermark:
  "human_step h h' \<Longrightarrow> lg_watermark (ho_ledger h) \<le> lg_watermark (ho_ledger h')"
  "human_step h h' \<Longrightarrow> h' = op_admit h \<or> lg_watermark (ho_ledger h') = lg_watermark (ho_ledger h)"
proof -
  have q: "lg_watermark (ho_ledger (op_queue t queued at_swap early prior h)) = lg_watermark (ho_ledger h)" for t queued at_swap early prior
    by (cases "queue_with t queued at_swap prior (ho_ledger h)")
       (auto simp: op_queue_def queue_with_def Let_def split: if_splits)
  show "human_step h h' \<Longrightarrow> h' = op_admit h \<or> lg_watermark (ho_ledger h') = lg_watermark (ho_ledger h)"
    unfolding human_step_iff
    by (auto simp: q op_guard_end_def ledger_close_def)
  then show "human_step h h' \<Longrightarrow> lg_watermark (ho_ledger h) \<le> lg_watermark (ho_ledger h')"
    by (auto simp: op_admit_def ledger_admit_def Let_def)
qed

interpretation human: counted_steps "\<lambda>h. h = human_ops_new" human_step human_ok "\<lambda>h. lg_watermark (ho_ledger h)"
  by unfold_locales (auto intro: step_ok step_watermark(1) simp: human_ok_new)

text \<open>Nothing anyone could still write: no guard, no queued job and no report on its way.\<close>

definition idle_input :: "human_ops \<Rightarrow> bool" where
  "idle_input h \<longleftrightarrow> ho_guards h = {} \<and> queued_jobs h = {} \<and> ho_pending h = []"

lemma idle_step:
  assumes "human_ok h" "idle_input h" "human_step h h'" "h' \<noteq> op_admit h"
  shows "idle_input h' \<and> lg_job_mark (ho_ledger h') = lg_job_mark (ho_ledger h)"
proof -
  have f: "ho_flags h t = None \<or> ho_flags h t = Some Reported" for t
    using assms(1,2) unfolding human_ok_def owned_once_def idle_input_def queued_jobs_def ran_def by (cases "ho_flags h t") fastforce+
  have s: "op_swap t swap how h = h" if "swap Reported = (Reported, False)" for t swap how
    using f[of t] that by (auto simp: op_swap_def fun_upd_idem)
  have c: "queued_jobs (h\<lparr>ho_ledger := lg\<rparr>) = queued_jobs h" for lg by (simp add: queued_jobs_def)
  show ?thesis
    using assms(2-4) unfolding human_step_iff idle_input_def
    by (auto simp: s c job_report_def job_drop.simps ledger_close_def)
qed

section \<open>The guarantees\<close>

text \<open>
  C6: every human operation reports its physical outcome exactly once. Whatever the callers, the writer,
  take-backs, disposals and the retirement of the generation do and in whatever order, each ticket made
  has at any time exactly one of four fates: its guard holds it, its queued job does, a report of it
  waits for the lock, or its outcome was reported, and no outcome is ever reported twice. What an open
  ledger calls outstanding is exactly what was not reported, and what it counts as unreported is the
  queued jobs, closed or not.
\<close>

theorem outcome_reported_once:
  assumes "human_step\<^sup>*\<^sup>* human_ops_new h"
  shows "distinct (reported_tickets h)
     \<and> (\<forall>t. t \<in> {1..lg_next_ticket (ho_ledger h)} \<longleftrightarrow>
          length (filter id [t \<in> ho_guards h, t \<in> queued_jobs h, t \<in> set (pending_tickets h), t \<in> set (reported_tickets h)]) = 1)
     \<and> (\<not> lg_closed (ho_ledger h) \<longrightarrow>
          fst ` set (lg_outstanding (ho_ledger h)) = {1..lg_next_ticket (ho_ledger h)} - set (reported_tickets h))
     \<and> jobs_unreported (ho_ledger h) = card (queued_jobs h \<union> set (pending_tickets h))"
proof -
  have ok: "human_ok h" using human.reachable_inv[OF refl assms] .
  have made: "ho_guards h \<union> queued_jobs h \<union> set (pending_tickets h) \<union> set (reported_tickets h) = {1..lg_next_ticket (ho_ledger h)}"
    and keys: "fst ` set (lg_outstanding (ho_ledger h)) =
      (if lg_closed (ho_ledger h) then {} else ho_guards h \<union> queued_jobs h \<union> set (pending_tickets h))"
    and rest: "distinct (reported_tickets h)" "lg_unreported (ho_ledger h) = queued_jobs h \<union> set (pending_tickets h)"
    using ok by (simp_all only: human_ok_def owned_once_def ledger_agrees_def)
  note o = owners[OF ok]
  have "t \<in> {1..lg_next_ticket (ho_ledger h)} \<longleftrightarrow>
      length (filter id [t \<in> ho_guards h, t \<in> queued_jobs h, t \<in> set (pending_tickets h), t \<in> set (reported_tickets h)]) = 1" for t
    unfolding made[symmetric] using o[of t] by auto
  moreover have "fst ` set (lg_outstanding (ho_ledger h)) = {1..lg_next_ticket (ho_ledger h)} - set (reported_tickets h)"
    if "\<not> lg_closed (ho_ledger h)"
    unfolding made[symmetric] keys using that o by auto
  ultimately show ?thesis using rest by (simp add: jobs_unreported_def)
qed

text \<open>
  C31: the doorbell can trust the watermark. If nothing was outstanding on an open ledger and the watermark
  has not moved since, then whatever happened in between no human byte was queued for the pane: the job
  mark is the same, and there is still no guard, no queued job and no report on its way.
\<close>

theorem watermark_tells_silence:
  assumes "human_step\<^sup>*\<^sup>* human_ops_new h" "human_step\<^sup>*\<^sup>* h h'"
    and "\<not> any_outstanding (ho_ledger h)" "\<not> lg_closed (ho_ledger h)"
    and "lg_watermark (ho_ledger h') = lg_watermark (ho_ledger h)"
  shows "idle_input h' \<and> lg_job_mark (ho_ledger h') = lg_job_mark (ho_ledger h)"
proof -
  have ok: "human_ok h" using human.reachable_inv[OF refl assms(1)] .
  have "fst ` set (lg_outstanding (ho_ledger h)) = ho_guards h \<union> queued_jobs h \<union> set (pending_tickets h)"
    using ok assms(4) by (simp only: human_ok_def ledger_agrees_def if_False)
  then have idle: "idle_input h"
    using assms(3) by (simp add: any_outstanding_def idle_input_def pending_tickets_def)
  show ?thesis
  proof (rule human.quiet_keeps[OF assms(2) ok assms(5)])
    show "idle_input h \<and> lg_job_mark (ho_ledger h) = lg_job_mark (ho_ledger h)" using idle by simp
  next
    fix u v
    assume u: "human_ok u" "idle_input u \<and> lg_job_mark (ho_ledger u) = lg_job_mark (ho_ledger h)" "human_step u v"
      and same: "lg_watermark (ho_ledger v) = lg_watermark (ho_ledger u)"
    from same have "v \<noteq> op_admit u" by (auto simp: op_admit_def ledger_admit_def Let_def)
    with idle_step[OF u(1) _ u(3)] u(2) show "idle_input v \<and> lg_job_mark (ho_ledger v) = lg_job_mark (ho_ledger h)" by simp
  qed
qed


definition sample_typed :: human_ops where
  "sample_typed = op_queue 1 True Unqueued Cancelled None (op_admit human_ops_new)"

lemma sample_typed_reach: "human_step\<^sup>*\<^sup>* human_ops_new sample_typed"
proof -
  have "human_step human_ops_new (op_admit human_ops_new)" by (rule hs_admit)
  moreover have "human_step (op_admit human_ops_new) sample_typed"
    unfolding sample_typed_def by (rule hs_queue) (simp_all add: human_ops_new_def ledger_new_def)
  ultimately show ?thesis by (meson r_into_rtranclp rtranclp_trans)
qed

theorem outcome_reported_once_witness:
  "distinct (reported_tickets sample_typed) \<and> jobs_unreported (ho_ledger sample_typed) = 1"
proof -
  have "queued_jobs sample_typed \<union> set (pending_tickets sample_typed) = {1}"
    by (auto simp: sample_typed_def op_queue_def op_admit_def ledger_admit_def human_ops_new_def ledger_new_def queue_with_def
        Let_def queued_jobs_def pending_tickets_def split: if_splits)
  with outcome_reported_once[OF sample_typed_reach] show ?thesis by simp
qed

theorem watermark_tells_silence_witness:
  "lg_job_mark (ho_ledger (human_ops_new\<lparr>ho_ledger := ledger_close ledger_new\<rparr>)) = lg_job_mark (ho_ledger human_ops_new)"
proof -
  have "human_step human_ops_new (human_ops_new\<lparr>ho_ledger := ledger_close ledger_new\<rparr>)"
    using hs_close[of human_ops_new] by (simp add: human_ops_new_def)
  then show ?thesis
    using watermark_tells_silence[of human_ops_new "human_ops_new\<lparr>ho_ledger := ledger_close ledger_new\<rparr>"]
    by (auto simp: human_ops_new_def ledger_new_def any_outstanding_def ledger_close_def)
qed

end
