(* ===== verification/Doorbell_Bell.thy ===== *)
theory Doorbell_Bell
  imports Doorbell_Txn Inbox_Data "HOL-Library.AList"
begin

text \<open>
  The doorbell's schedule and driver, \<^verbatim>\<open>src/src/doorbell.rs\<close>: its timings, the bell of one agent
  generation, the policy that decides a ring, the stall clock and the hold episode behind what a card
  shows, the check a ring repeats while it holds the pane's writer, and the tick that composes them.

  What the tick asks the registry, the app state and the hub about a generation comes from code with
  its own locks and threads; the answers of one tick are the record \<open>tick_view\<close>.
\<close>

section \<open>Timings\<close>

definition DEFAULT_TICK :: duration where
  "DEFAULT_TICK = from_millis 200"

definition DEFAULT_SCHEDULE :: "duration list" where
  "DEFAULT_SCHEDULE = [from_secs 15, from_secs 30, from_secs 60, from_secs 120]"

definition DEFAULT_ARM_GRACE :: duration where
  "DEFAULT_ARM_GRACE = from_secs 10"

definition DEFAULT_WAKE_STALL_AFTER :: duration where
  "DEFAULT_WAKE_STALL_AFTER = from_secs 120"

record doorbell_config =
  dc_tick :: duration
  dc_schedule :: "duration list"
  dc_arm_grace :: duration
  dc_wake_stall_after :: duration

definition default_doorbell :: doorbell_config where
  "default_doorbell =
     \<lparr>dc_tick = DEFAULT_TICK, dc_schedule = DEFAULT_SCHEDULE, dc_arm_grace = DEFAULT_ARM_GRACE,
      dc_wake_stall_after = DEFAULT_WAKE_STALL_AFTER\<rparr>"

definition parse_ms :: "string \<Rightarrow> duration option" where
  "parse_ms raw = map_option from_millis (parse_u64 (trim raw))"

text \<open>\<^verbatim>\<open>str::split\<close> on a character: one more part than the character occurs.\<close>

fun split_on :: "char \<Rightarrow> string \<Rightarrow> string list" where
  "split_on c [] = [[]]"
| "split_on c (x # xs) =
     (if x = c then [] # split_on c xs
      else (case split_on c xs of p # ps \<Rightarrow> (x # p) # ps | [] \<Rightarrow> [[x]]))"

definition nonzero_ms :: "string \<Rightarrow> duration option" where
  "nonzero_ms raw = (case parse_ms raw of Some d \<Rightarrow> if d = 0 then None else Some d | None \<Rightarrow> None)"

definition parse_schedule :: "string \<Rightarrow> duration list option" where
  "parse_schedule raw =
     (case those (map nonzero_ms (split_on (CHR '','') raw)) of
        Some schedule \<Rightarrow> (if schedule = [] then None else Some schedule)
      | None \<Rightarrow> None)"

text \<open>A variable that is set and does not give a value is ignored, with a warning in the log.\<close>

definition overridden :: "(string \<Rightarrow> string option) \<Rightarrow> string \<Rightarrow> (string \<Rightarrow> 'a option) \<Rightarrow> 'a \<Rightarrow> 'a" where
  "overridden lookup name parse d =
     (case lookup name of None \<Rightarrow> d | Some raw \<Rightarrow> (case parse raw of Some v \<Rightarrow> v | None \<Rightarrow> d))"

definition doorbell_from_lookup :: "(string \<Rightarrow> string option) \<Rightarrow> doorbell_config" where
  "doorbell_from_lookup lookup =
     (let d = default_doorbell
      in \<lparr>dc_tick = overridden lookup ''DOT_AGENT_DECK_DOORBELL_TICK_MS'' nonzero_ms (dc_tick d),
          dc_schedule =
            overridden lookup ''DOT_AGENT_DECK_DOORBELL_SCHEDULE_MS'' parse_schedule (dc_schedule d),
          dc_arm_grace = overridden lookup ''DOT_AGENT_DECK_INBOX_ARM_GRACE_MS'' parse_ms (dc_arm_grace d),
          dc_wake_stall_after =
            overridden lookup ''DOT_AGENT_DECK_INBOX_WAKE_STALL_AFTER_MS'' nonzero_ms (dc_wake_stall_after d)\<rparr>)"

text \<open>The schedule is never empty; the source would panic on an empty one.\<close>

definition delay_after :: "doorbell_config \<Rightarrow> nat \<Rightarrow> duration" where
  "delay_after config rings =
     dc_schedule config ! min (max rings 1 - 1) (length (dc_schedule config) - 1)"

section \<open>The bell\<close>

record doorbell_facts =
  df_queued :: "message_id list"
  df_armed :: nat
  df_native_announced_at :: "instant option"
  df_blocked :: bool

record bell_facts =
  bf_inbox :: doorbell_facts
  bf_idle :: bool
  bf_held :: bool

record bell =
  bl_rings :: nat
  bl_last_ring :: "instant option"
  bl_covered :: "message_id list"

definition bell_default :: bell where
  "bell_default = \<lparr>bl_rings = 0, bl_last_ring = None, bl_covered = []\<rparr>"

datatype bell_action = BellNothing | BellRing message_id

definition bell_observe :: "bell_facts \<Rightarrow> bell \<Rightarrow> bell" where
  "bell_observe facts b =
     (let queued = df_queued (bf_inbox facts)
      in if queued = [] \<or> \<not> list_ex (\<lambda>i. List.member queued i) (bl_covered b)
         then b\<lparr>bl_rings := 0, bl_last_ring := None, bl_covered := []\<rparr>
         else b)"

definition bell_rang :: "instant \<Rightarrow> message_id list \<Rightarrow> bell \<Rightarrow> bell" where
  "bell_rang now covered b =
     b\<lparr>bl_rings := min (bl_rings b + 1) u32_max, bl_last_ring := Some now, bl_covered := covered\<rparr>"

definition bell_is_idle :: "bell \<Rightarrow> bool" where
  "bell_is_idle b \<longleftrightarrow> bl_rings b = 0"

definition ring_still_admitted :: "doorbell_facts \<Rightarrow> doorbell_config \<Rightarrow> instant \<Rightarrow> bool" where
  "ring_still_admitted inbox config now \<longleftrightarrow>
     \<not> df_blocked inbox \<and> df_armed inbox = 0
     \<and> (case df_native_announced_at inbox of None \<Rightarrow> True | Some at \<Rightarrow> at + dc_arm_grace config \<le> now)"

definition decide :: "bell \<Rightarrow> bell_facts \<Rightarrow> doorbell_config \<Rightarrow> instant \<Rightarrow> bell_action" where
  "decide b facts config now =
     (if \<not> bf_idle facts \<or> bf_held facts then BellNothing
      else
        let due = (case bl_last_ring b of
                     None \<Rightarrow> True
                   | Some rang \<Rightarrow> rang + delay_after config (bl_rings b) \<le> now)
        in case df_queued (bf_inbox facts) of
             [] \<Rightarrow> BellNothing
           | i # _ \<Rightarrow>
               if due \<and> ring_still_admitted (bf_inbox facts) config now then BellRing i else BellNothing)"

section \<open>The check a ring repeats\<close>

datatype readiness_level = Unproven | StartedOnScreen | Ready

fun readiness_rank :: "readiness_level \<Rightarrow> nat" where
  "readiness_rank Unproven = 0"
| "readiness_rank StartedOnScreen = 1"
| "readiness_rank Ready = 2"

instantiation readiness_level :: linorder
begin

definition less_eq_readiness_level :: "readiness_level \<Rightarrow> readiness_level \<Rightarrow> bool" where
  "a \<le> b \<longleftrightarrow> readiness_rank a \<le> readiness_rank b"

definition less_readiness_level :: "readiness_level \<Rightarrow> readiness_level \<Rightarrow> bool" where
  "a < b \<longleftrightarrow> readiness_rank a < readiness_rank b"

instance
proof
  fix x y :: readiness_level
  show "x \<le> y \<Longrightarrow> y \<le> x \<Longrightarrow> x = y"
    by (cases x; cases y) (simp_all add: less_eq_readiness_level_def)
qed (auto simp: less_eq_readiness_level_def less_readiness_level_def)

end

record doorbell_admission =
  da_epoch :: nat
  da_readiness :: readiness_level

definition still_holds :: "doorbell_admission \<Rightarrow> doorbell_admission \<Rightarrow> bool" where
  "still_holds decided now \<longleftrightarrow> da_epoch now = da_epoch decided \<and> da_readiness decided \<le> da_readiness now"

text \<open>
  One round of the check: what the app state admits now, the hub's facts when its lock was free, and
  the time. While the hub is contended the check asks again; with the rounds used up it has not
  answered.
\<close>

fun ring_admission_check ::
  "doorbell_config \<Rightarrow> message_id \<Rightarrow> doorbell_admission option
   \<Rightarrow> (doorbell_admission option \<times> doorbell_facts option \<times> instant) list \<Rightarrow> bool option" where
  "ring_admission_check config selected admission [] = None"
| "ring_admission_check config selected admission ((granted, facts, now) # rounds) =
     (if \<not> (case (admission, granted) of (Some decided, Some a) \<Rightarrow> still_holds decided a | _ \<Rightarrow> False)
      then Some False
      else case facts of
        Some f \<Rightarrow> Some (List.member (df_queued f) selected \<and> ring_still_admitted f config now)
      | None \<Rightarrow> ring_admission_check config selected admission rounds)"

section \<open>The stall clock\<close>

record stall_clock =
  sc_oldest :: "message_id option"
  sc_since :: "instant option"
  sc_raised :: bool

definition stall_default :: stall_clock where
  "stall_default = \<lparr>sc_oldest = None, sc_since = None, sc_raised = False\<rparr>"

datatype stall_change = StallRaise | StallClear | StallNothing

definition stall_observe ::
  "message_id option \<Rightarrow> bool \<Rightarrow> instant \<Rightarrow> duration \<Rightarrow> stall_clock \<Rightarrow> stall_clock \<times> stall_change" where
  "stall_observe oldest waiting now after c =
     (case oldest of
        None \<Rightarrow> (stall_default, if sc_raised c then StallClear else StallNothing)
      | Some i \<Rightarrow>
          let (c1, change) =
                (if sc_oldest c \<noteq> Some i
                 then (c\<lparr>sc_oldest := Some i, sc_since := None, sc_raised := False\<rparr>,
                       if sc_raised c then StallClear else StallNothing)
                 else (c, StallNothing))
          in if \<not> waiting
             then (c1\<lparr>sc_since := None, sc_raised := False\<rparr>, if sc_raised c1 then StallClear else change)
             else
               let since = (case sc_since c1 of Some s \<Rightarrow> s | None \<Rightarrow> now);
                   c2 = c1\<lparr>sc_since := Some since\<rparr>
               in if \<not> sc_raised c2 \<and> since + after \<le> now then (c2\<lparr>sc_raised := True\<rparr>, StallRaise)
                  else (c2, change))"

section \<open>The hold episode\<close>

datatype wake_hold =
    PossibleDraft | WHAwaitingPrompt | PasteOpen | WHCannotType | NotTaken | UncertainInput
  | DialogDuringRing | NeedsFetch | CannotCheck | WHUnknown

record hold_facts =
  hf_queued :: bool
  hf_receiver :: bool
  hf_working :: bool
  hf_settling :: bool
  hf_waiting_for_input :: bool
  hf_paste_open :: bool
  hf_draft :: bool
  hf_unchecked :: "wake_hold option"
  hf_cannot_type :: "string option"
  hf_unrecognised :: bool
  hf_not_taken :: bool
  hf_turns :: nat

datatype hold_clock = HoldReset | HoldPaused | HoldRuns

definition obstacle :: "hold_facts \<Rightarrow> wake_hold option \<times> hold_clock" where
  "obstacle facts =
     (if \<not> hf_queued facts then (None, HoldReset)
      else if hf_receiver facts \<or> hf_working facts \<or> hf_settling facts then (None, HoldPaused)
      else if hf_waiting_for_input facts then (Some WHAwaitingPrompt, HoldRuns)
      else if hf_paste_open facts then (Some PasteOpen, HoldRuns)
      else if hf_draft facts then (Some PossibleDraft, HoldRuns)
      else if hf_unchecked facts \<noteq> None then (hf_unchecked facts, HoldRuns)
      else if hf_cannot_type facts \<noteq> None then (Some WHCannotType, HoldRuns)
      else if hf_unrecognised facts then (Some WHAwaitingPrompt, HoldRuns)
      else if hf_not_taken facts then (Some NotTaken, HoldRuns)
      else (None, HoldRuns))"

record hold_episode =
  he_turns :: "nat option"
  he_ran :: duration
  he_running_since :: "instant option"
  he_published :: "wake_hold option"

definition hold_default :: hold_episode where
  "hold_default = \<lparr>he_turns = None, he_ran = 0, he_running_since = None, he_published = None\<rparr>"

text \<open>The answer is the reason to publish when it differs from the one published last.\<close>

definition hold_observe ::
  "hold_facts \<Rightarrow> instant \<Rightarrow> duration \<Rightarrow> hold_episode \<Rightarrow> hold_episode \<times> wake_hold option option" where
  "hold_observe facts now after e =
     (let (reason, clock) = obstacle facts;
          e1 = (if clock = HoldReset \<or> (case he_turns e of Some turns \<Rightarrow> turns \<noteq> hf_turns facts | None \<Rightarrow> False)
                then e\<lparr>he_ran := 0, he_running_since := None\<rparr> else e);
          e2 = e1\<lparr>he_turns := Some (hf_turns facts)\<rparr>;
          e3 = (if clock = HoldRuns
                then (case he_running_since e2 of None \<Rightarrow> e2\<lparr>he_running_since := Some now\<rparr> | Some _ \<Rightarrow> e2)
                else (case he_running_since e2 of
                        Some since \<Rightarrow> e2\<lparr>he_running_since := None, he_ran := he_ran e2 + (now - since)\<rparr>
                      | None \<Rightarrow> e2));
          elapsed = he_ran e3 + (case he_running_since e3 of None \<Rightarrow> 0 | Some since \<Rightarrow> now - since);
          shown = (if after \<le> elapsed then reason else None)
      in if shown = he_published e3 then (e3, None) else (e3\<lparr>he_published := shown\<rparr>, Some shown))"

section \<open>What a ring's report does\<close>

datatype ring_outcome = NotOwner | NotReading | RingSuspended | RingTxn outcome

record ring_report =
  rr_outcome :: ring_outcome
  rr_attempt :: "nat option"
  rr_cr_reached :: bool

definition unrecognised_after :: "ring_outcome \<Rightarrow> bool \<Rightarrow> bool" where
  "unrecognised_after out before =
     (case out of
        RingTxn (NothingWritten AwaitingPrompt) \<Rightarrow> True
      | RingTxn (NothingWritten (NTDialog _)) \<Rightarrow> True
      | RingTxn (NothingWritten NTLayout) \<Rightarrow> True
      | RingTxn (NothingWritten _) \<Rightarrow> before
      | RingTxn _ \<Rightarrow> False
      | _ \<Rightarrow> before)"

record ring_effect =
  re_rang :: bool
  re_not_taken :: bool

definition ring_effect_of :: "ring_outcome \<Rightarrow> bool \<Rightarrow> ring_effect" where
  "ring_effect_of out cr_reached =
     (case out of
        RingTxn OutSubmitted \<Rightarrow> \<lparr>re_rang = True, re_not_taken = False\<rparr>
      | RingTxn (Unresolved _) \<Rightarrow> \<lparr>re_rang = True, re_not_taken = False\<rparr>
      | RingTxn OutWithdrawn \<Rightarrow> \<lparr>re_rang = True, re_not_taken = cr_reached\<rparr>
      | _ \<Rightarrow> \<lparr>re_rang = False, re_not_taken = False\<rparr>)"

datatype session_status =
  Thinking | Working | Compacting | WaitingForInput | StIdle | StError | StBlocked | StUnknown

definition status_explains_waiting :: "session_status option \<Rightarrow> bool" where
  "status_explains_waiting status \<longleftrightarrow>
     status \<in> {Some Thinking, Some Working, Some Compacting, Some WaitingForInput, Some StBlocked}"

section \<open>The tick\<close>

record bell_slot =
  sl_bell :: bell
  sl_busy :: bool
  sl_stall :: stall_clock
  sl_hold :: hold_episode
  sl_unrecognised :: bool
  sl_not_taken :: "nat option"
  sl_nudged :: "nat option"

definition slot_default :: bell_slot where
  "slot_default =
     \<lparr>sl_bell = bell_default, sl_busy = False, sl_stall = stall_default, sl_hold = hold_default,
      sl_unrecognised = False, sl_not_taken = None, sl_nudged = None\<rparr>"

record pane_input_hold =
  ph_paste_open :: bool
  ph_draft :: bool
  ph_unchecked :: bool
  ph_turns :: nat

text \<open>
  What one tick learns of a generation: its admission and status from the app state, the pane's input,
  the inbox, and the registry's answers to the questions the tick asks. \<open>tv_unchecked_hold\<close> is the
  registry's reason for the permission of a touched box it can't check, \<open>tv_checking\<close> whether the tick
  of the composer probe says a check is outstanding.
\<close>

record tick_view =
  tv_admission :: "doorbell_admission option"
  tv_hooked :: bool
  tv_status :: "session_status option"
  tv_input :: pane_input_hold
  tv_inbox :: doorbell_facts
  tv_refusal :: "string option"
  tv_ready_before_hooks :: bool
  tv_settling :: bool
  tv_suspended :: bool
  tv_dirty :: bool
  tv_nudge_due :: bool
  tv_probe_failing :: bool
  tv_unchecked_hold :: wake_hold
  tv_hold_detail :: "string option"
  tv_checking :: bool

datatype tick_effect =
    SetWakeStalled bool
  | SetWakeHold "wake_hold option" "string option"
  | NudgeRepaint
  | ComposerProbeTick
  | StartRing message_id "message_id list"

definition tv_queued :: "tick_view \<Rightarrow> bool" where
  "tv_queued v \<longleftrightarrow> df_queued (tv_inbox v) \<noteq> []"

definition tv_receiver :: "doorbell_config \<Rightarrow> instant \<Rightarrow> tick_view \<Rightarrow> bool" where
  "tv_receiver config now v \<longleftrightarrow> \<not> ring_still_admitted (tv_inbox v) config now"

definition tv_refused :: "doorbell_config \<Rightarrow> instant \<Rightarrow> tick_view \<Rightarrow> string option" where
  "tv_refused config now v = (if tv_queued v \<and> \<not> tv_receiver config now v then tv_refusal v else None)"

definition tv_ready :: "doorbell_config \<Rightarrow> instant \<Rightarrow> tick_view \<Rightarrow> bool" where
  "tv_ready config now v \<longleftrightarrow>
     tv_hooked v
     \<or> (tv_queued v \<and> \<not> tv_receiver config now v \<and> tv_refused config now v = None \<and> tv_ready_before_hooks v)"

definition tv_settles :: "doorbell_config \<Rightarrow> instant \<Rightarrow> tick_view \<Rightarrow> bool" where
  "tv_settles config now v \<longleftrightarrow>
     tv_queued v \<and> \<not> tv_receiver config now v \<and> tv_refused config now v = None \<and> tv_settling v"

definition tv_is_dirty :: "doorbell_config \<Rightarrow> instant \<Rightarrow> tick_view \<Rightarrow> bool" where
  "tv_is_dirty config now v \<longleftrightarrow> tv_queued v \<and> tv_refused config now v = None \<and> tv_dirty v"

definition tv_working :: "tick_view \<Rightarrow> bool" where
  "tv_working v \<longleftrightarrow> tv_status v \<notin> {Some StIdle, Some WaitingForInput}"

definition end_episode :: "bool \<Rightarrow> nat \<Rightarrow> nat option \<Rightarrow> nat option" where
  "end_episode queued turns kept =
     (if \<not> queued \<or> (case kept of Some t \<Rightarrow> t \<noteq> turns | None \<Rightarrow> False) then None else kept)"

definition tick_hold_facts :: "doorbell_config \<Rightarrow> instant \<Rightarrow> tick_view \<Rightarrow> bell_slot \<Rightarrow> hold_facts" where
  "tick_hold_facts config now v s =
     (let refused = tv_refused config now v;
          failing = (ph_draft (tv_input v) \<and> tv_probe_failing v);
          unchecked =
            (if refused \<noteq> None then None
             else if failing then Some CannotCheck
             else if ph_unchecked (tv_input v) then Some (tv_unchecked_hold v) else None)
      in \<lparr>hf_queued = tv_queued v, hf_receiver = tv_receiver config now v, hf_working = tv_working v,
          hf_settling = tv_settles config now v, hf_waiting_for_input = (tv_status v = Some WaitingForInput),
          hf_paste_open = ph_paste_open (tv_input v), hf_draft = (ph_draft (tv_input v) \<and> \<not> failing),
          hf_unchecked = unchecked, hf_cannot_type = refused,
          hf_unrecognised = (sl_unrecognised s \<or> tv_is_dirty config now v),
          hf_not_taken = (sl_not_taken s \<noteq> None), hf_turns = ph_turns (tv_input v)\<rparr>)"

definition tick_facts :: "doorbell_config \<Rightarrow> instant \<Rightarrow> tick_view \<Rightarrow> bell_slot \<Rightarrow> bell_facts" where
  "tick_facts config now v s =
     \<lparr>bf_inbox = tv_inbox v, bf_idle = (tv_admission v \<noteq> None \<and> tv_ready config now v),
      bf_held =
        (ph_paste_open (tv_input v) \<or> tv_refused config now v \<noteq> None \<or> ph_unchecked (tv_input v)
         \<or> tv_settles config now v \<or> tv_suspended v \<or> sl_not_taken s \<noteq> None)\<rparr>"

text \<open>The clocks of the slot, and what the tick tells the hub of them.\<close>

definition tick_clocks ::
  "doorbell_config \<Rightarrow> instant \<Rightarrow> tick_view \<Rightarrow> bell_slot \<Rightarrow> bell_slot \<times> tick_effect list" where
  "tick_clocks config now v s =
     (let queue = df_queued (tv_inbox v);
          waiting = (df_armed (tv_inbox v) = 0 \<and> \<not> status_explains_waiting (tv_status v));
          (stall, change) =
            stall_observe (case queue of [] \<Rightarrow> None | i # _ \<Rightarrow> Some i) waiting now (dc_wake_stall_after config)
              (sl_stall s);
          turns = ph_turns (tv_input v);
          s1 = s\<lparr>sl_stall := stall, sl_not_taken := end_episode (tv_queued v) turns (sl_not_taken s),
                 sl_nudged := end_episode (tv_queued v) turns (sl_nudged s)\<rparr>;
          (hold, said) =
            hold_observe (tick_hold_facts config now v s1) now (dc_wake_stall_after config) (sl_hold s1)
      in (s1\<lparr>sl_hold := hold\<rparr>,
          (case change of StallRaise \<Rightarrow> [SetWakeStalled True] | StallClear \<Rightarrow> [SetWakeStalled False]
           | StallNothing \<Rightarrow> [])
          @ (case said of
               None \<Rightarrow> []
             | Some shown \<Rightarrow>
                 [SetWakeHold shown (if shown = Some CannotCheck then tv_hold_detail v else None)])))"

text \<open>
  One generation's part of a tick: the slot afterwards, none when it was dropped, and the effects in
  order. The answer of the composer probe that a check is outstanding gives the slot back unrung.
\<close>

definition agent_tick ::
  "doorbell_config \<Rightarrow> instant \<Rightarrow> tick_view \<Rightarrow> bell_slot \<Rightarrow> bell_slot option \<times> tick_effect list" where
  "agent_tick config now v s =
     (let (s1, effects) = tick_clocks config now v s
      in if sl_busy s1 then (Some s1, effects)
         else
           let facts = tick_facts config now v s1;
               s2 = s1\<lparr>sl_bell := bell_observe facts (sl_bell s1)\<rparr>;
               nudge = (tv_is_dirty config now v \<and> tv_nudge_due v \<and> bf_idle facts \<and> \<not> bf_held facts
                        \<and> \<not> tv_working v \<and> sl_nudged s2 = None);
               s3 = (if nudge then s2\<lparr>sl_nudged := Some (ph_turns (tv_input v))\<rparr> else s2);
               effects1 = effects @ (if nudge then [NudgeRepaint] else [])
           in case decide (sl_bell s3) facts config now of
                BellNothing \<Rightarrow>
                  (if bell_is_idle (sl_bell s3) \<and> \<not> tv_queued v then None else Some s3, effects1)
              | BellRing i \<Rightarrow>
                  if tv_checking v then (Some s3, effects1 @ [ComposerProbeTick])
                  else (Some (s3\<lparr>sl_busy := True\<rparr>),
                        effects1 @ [ComposerProbeTick, StartRing i (df_queued (tv_inbox v))]))"

text \<open>A ring's report: the slot afterwards and whether the ring counts for the hub. \<open>turns\<close> are the
  pane's turns when the report is heard.\<close>

definition ring_done ::
  "ring_report \<Rightarrow> instant \<Rightarrow> message_id list \<Rightarrow> nat \<Rightarrow> bell_slot \<Rightarrow> bell_slot \<times> bool" where
  "ring_done report now covered turns s =
     (let s1 = s\<lparr>sl_busy := False, sl_unrecognised := unrecognised_after (rr_outcome report) (sl_unrecognised s)\<rparr>;
          effect = ring_effect_of (rr_outcome report) (rr_cr_reached report);
          s2 = (if re_rang effect then s1\<lparr>sl_bell := bell_rang now covered (sl_bell s1)\<rparr> else s1)
      in (if re_not_taken effect then s2\<lparr>sl_not_taken := Some turns\<rparr> else s2, re_rang effect))"

section \<open>All generations\<close>

type_synonym agent_key = "string \<times> string"

text \<open>
  The slots in the order the table gives them. The keys of a tick are the live generations with queued
  messages and every one the doorbell still remembers.
\<close>

definition tick_retain ::
  "(string \<Rightarrow> string option) \<Rightarrow> (agent_key \<times> bell_slot) list \<Rightarrow> (agent_key \<times> bell_slot) list" where
  "tick_retain current slots = filter (\<lambda>((pane, agent), s). sl_busy s \<or> current pane = Some agent) slots"

definition tick_keys ::
  "string list \<Rightarrow> (string \<Rightarrow> string option) \<Rightarrow> (agent_key \<times> bell_slot) list \<Rightarrow> agent_key list" where
  "tick_keys panes current slots =
     foldl (\<lambda>keys k. if List.member keys k then keys else keys @ [k])
       (concat (map (\<lambda>pane. case current pane of Some agent \<Rightarrow> [(pane, agent)] | None \<Rightarrow> []) panes))
       (map fst slots)"

definition tick_key ::
  "doorbell_config \<Rightarrow> instant \<Rightarrow> (agent_key \<Rightarrow> tick_view) \<Rightarrow> agent_key
   \<Rightarrow> (agent_key \<times> bell_slot) list \<times> (agent_key \<times> tick_effect) list
   \<Rightarrow> (agent_key \<times> bell_slot) list \<times> (agent_key \<times> tick_effect) list" where
  "tick_key config now view k acc =
     (case acc of (slots, effects) \<Rightarrow>
        let s = (case map_of slots k of Some s \<Rightarrow> s | None \<Rightarrow> slot_default);
            (s', new) = agent_tick config now (view k) s
        in (case s' of Some s1 \<Rightarrow> AList.update k s1 slots | None \<Rightarrow> AList.delete k slots,
            effects @ map (Pair k) new))"

definition run_tick ::
  "doorbell_config \<Rightarrow> instant \<Rightarrow> string list \<Rightarrow> (string \<Rightarrow> string option) \<Rightarrow> (agent_key \<Rightarrow> tick_view)
   \<Rightarrow> (agent_key \<times> bell_slot) list \<Rightarrow> (agent_key \<times> bell_slot) list \<times> (agent_key \<times> tick_effect) list" where
  "run_tick config now panes current view slots =
     (let kept = tick_retain current slots
      in foldl (\<lambda>acc k. tick_key config now view k acc) (kept, []) (tick_keys panes current kept))"

text \<open>A report that finds no slot is dropped.\<close>

definition report_ring ::
  "agent_key \<Rightarrow> ring_report \<Rightarrow> instant \<Rightarrow> message_id list \<Rightarrow> nat \<Rightarrow> (agent_key \<times> bell_slot) list
   \<Rightarrow> (agent_key \<times> bell_slot) list \<times> bool" where
  "report_ring k report now covered turns slots =
     (case map_of slots k of
        None \<Rightarrow> (slots, False)
      | Some s \<Rightarrow> (case ring_done report now covered turns s of (s', rang) \<Rightarrow> (AList.update k s' slots, rang)))"

end
