(* ===== verification/Bell_Clocks.thy ===== *)
theory Bell_Clocks
  imports Doorbell_Bell
begin

text \<open>
  The timings the doorbell accepts from the environment, and the two clocks behind what a card shows,
  each against a reference that looks at the whole history of ticks: histories are lists with the
  newest tick first.
\<close>

section \<open>Timings\<close>

lemma split_on_not_Nil [simp]: "split_on c s \<noteq> []"
  by (cases s) (auto split: list.splits)

lemma those_Some_set: "those xs = Some ys \<Longrightarrow> Some ` set ys = set xs"
proof (induction xs arbitrary: ys)
  case (Cons x xs)
  then obtain z zs where "x = Some z" "those xs = Some zs" "ys = z # zs" by (auto split: option.splits)
  with Cons.IH[of zs] show ?case by simp
qed simp

lemma those_Some_length: "those xs = Some ys \<Longrightarrow> length ys = length xs"
  by (induction xs arbitrary: ys) (auto split: option.splits)

lemma nonzero_ms_pos: "nonzero_ms raw = Some d \<Longrightarrow> 0 < d"
  by (auto simp: nonzero_ms_def split: option.splits if_splits)

lemma parse_schedule_ok: "parse_schedule raw = Some ds \<Longrightarrow> ds \<noteq> [] \<and> (\<forall>d \<in> set ds. 0 < d)"
proof -
  assume "parse_schedule raw = Some ds"
  then have t: "those (map nonzero_ms (split_on (CHR '','') raw)) = Some ds" "ds \<noteq> []"
    by (auto simp: parse_schedule_def split: option.splits if_splits)
  have "0 < d" if "d \<in> set ds" for d
  proof -
    have "Some d \<in> set (map nonzero_ms (split_on (CHR '','') raw))"
      using those_Some_set[OF t(1)] that by blast
    then show ?thesis by (metis (no_types, lifting) ex_map_conv nonzero_ms_pos)
  qed
  with t(2) show ?thesis by blast
qed

lemma overridden_holds:
  assumes "P d" "\<And>raw v. parse raw = Some v \<Longrightarrow> P v"
  shows "P (overridden lookup name parse d)"
  using assms by (auto simp: overridden_def split: option.splits)

lemma delay_after_in: "dc_schedule config \<noteq> [] \<Longrightarrow> delay_after config rings \<in> set (dc_schedule config)"
  by (simp add: delay_after_def min_less_iff_disj)

text \<open>
  Whatever the environment holds, the doorbell's timings are usable: the tick and the stall window are
  positive, the schedule has at least one delay and all of them are positive, the delay after any number
  of rings is one of the schedule's and the last one repeats.
\<close>

theorem doorbell_from_lookup_ok:
  "let config = doorbell_from_lookup lookup in
     0 < dc_tick config \<and> 0 < dc_wake_stall_after config \<and> dc_schedule config \<noteq> []
     \<and> 0 \<notin> set (dc_schedule config)
     \<and> (\<forall>rings. delay_after config rings \<in> set (dc_schedule config))
     \<and> (\<forall>rings. delay_after config (length (dc_schedule config) + rings) = last (dc_schedule config))"
proof -
  let ?c = "doorbell_from_lookup lookup"
  have "0 < dc_tick ?c" "0 < dc_wake_stall_after ?c"
    unfolding doorbell_from_lookup_def Let_def doorbell_config.select_convs
    by (rule overridden_holds; simp add: nonzero_ms_pos default_doorbell_def DEFAULT_TICK_def
        DEFAULT_WAKE_STALL_AFTER_def from_millis_def from_secs_def)+
  moreover have s: "dc_schedule ?c \<noteq> [] \<and> (\<forall>d \<in> set (dc_schedule ?c). 0 < d)"
    unfolding doorbell_from_lookup_def Let_def doorbell_config.select_convs
    by (rule overridden_holds) (simp add: default_doorbell_def DEFAULT_SCHEDULE_def from_secs_def,
        rule parse_schedule_ok)
  moreover have "delay_after ?c (length (dc_schedule ?c) + rings) = last (dc_schedule ?c)" for rings
  proof -
    have "min (max (length (dc_schedule ?c) + rings) 1 - 1) (length (dc_schedule ?c) - 1) = length (dc_schedule ?c) - 1"
      by simp
    with s show ?thesis unfolding delay_after_def by (simp add: last_conv_nth)
  qed
  ultimately show ?thesis by (auto simp: Let_def intro: delay_after_in)
qed

section \<open>The stall clock against the history\<close>

text \<open>One tick's look: the oldest queued message, whether the agent is idle with nothing armed, the time.\<close>

type_synonym stall_look = "message_id option \<times> bool \<times> instant"

fun look_at :: "stall_look \<Rightarrow> instant" where
  "look_at (oldest, waiting, now) = now"

text \<open>What the hub shows after a history of ticks: the clock is folded over it and each change recorded.\<close>

fun stall_run :: "duration \<Rightarrow> stall_look list \<Rightarrow> stall_clock \<times> bool" where
  "stall_run after [] = (stall_default, False)"
| "stall_run after ((oldest, waiting, now) # earlier) =
     (case stall_run after earlier of (c, shown) \<Rightarrow>
        case stall_observe oldest waiting now after c of (c', change) \<Rightarrow>
          (c', case change of StallRaise \<Rightarrow> True | StallClear \<Rightarrow> False | StallNothing \<Rightarrow> shown))"

definition waits_on :: "message_id option \<Rightarrow> stall_look \<Rightarrow> bool" where
  "waits_on oldest look \<longleftrightarrow> oldest \<noteq> None \<and> fst look = oldest \<and> fst (snd look)"

text \<open>The reference: when the unbroken wait of the newest tick began, and whether it passed the window.\<close>

definition wait_began :: "stall_look list \<Rightarrow> instant option" where
  "wait_began looks =
     (case takeWhile (waits_on (fst (hd looks))) looks of
        [] \<Rightarrow> None
      | w # ws \<Rightarrow> Some (look_at (last (w # ws))))"

definition wait_passed :: "duration \<Rightarrow> stall_look list \<Rightarrow> bool" where
  "wait_passed after looks =
     (case wait_began looks of None \<Rightarrow> False | Some began \<Rightarrow> began + after \<le> look_at (hd looks))"

lemma wait_began_Cons:
  "wait_began ((oldest, waiting, now) # looks) =
     (if oldest = None \<or> \<not> waiting then None
      else case wait_began looks of
        Some began \<Rightarrow> Some (if fst (hd looks) = oldest then began else now)
      | None \<Rightarrow> Some now)"
proof (cases looks)
  case Nil
  then show ?thesis by (simp add: wait_began_def waits_on_def)
next
  case (Cons l ls)
  obtain o1 w1 t1 where "l = (o1, w1, t1)" by (cases l)
  with Cons show ?thesis
    by (cases "oldest = o1") (auto simp: wait_began_def waits_on_def takeWhile_eq_Nil_iff split: list.splits)
qed

lemma wait_began_same: "wait_began looks = Some began \<Longrightarrow> fst (hd looks) \<noteq> None"
  by (cases looks) (auto simp: wait_began_def waits_on_def split: if_splits)

lemma stall_run_ref:
  assumes "sorted_wrt (\<ge>) (map look_at looks)"
  shows "stall_run after looks =
     (\<lparr>sc_oldest = (if looks = [] then None else fst (hd looks)), sc_since = (if looks = [] then None else wait_began looks),
       sc_raised = (looks \<noteq> [] \<and> wait_passed after looks)\<rparr>,
      looks \<noteq> [] \<and> wait_passed after looks)"
  using assms
proof (induction looks)
  case Nil
  then show ?case by (simp add: stall_default_def)
next
  case (Cons l looks)
  obtain oldest waiting now where l: "l = (oldest, waiting, now)" by (cases l)
  from Cons.prems have "sorted_wrt (\<ge>) (map look_at looks)" by simp
  note IH = Cons.IH[OF this]
  have newer: "looks \<noteq> [] \<Longrightarrow> look_at (hd looks) \<le> now" using Cons.prems l by (cases looks) auto
  show ?case
  proof (cases "looks = []")
    case True
    then show ?thesis unfolding l
      by (auto simp: stall_default_def stall_observe_def wait_passed_def wait_began_Cons Let_def
          wait_began_def[of "[]"] split: option.splits)
  next
    case False
    note newer = newer[OF False]
    show ?thesis unfolding l stall_run.simps IH wait_passed_def wait_began_Cons
      using False newer wait_began_same[of looks]
      by (auto simp: stall_observe_def stall_default_def Let_def split: option.splits)
  qed
qed

text \<open>
  A card says its messages wait to wake exactly when they do: over any history of ticks, the flag the
  hub holds is up if and only if at the newest tick the same oldest message has been queued, with no
  component armed and the agent not working, at every tick since one that is at least the stall window
  ago.
\<close>

theorem stall_shown_iff_waited:
  assumes "sorted_wrt (\<ge>) (map look_at looks)"
  shows "snd (stall_run after looks) \<longleftrightarrow>
     (\<exists>k < length looks. \<exists>i.
        (\<forall>j \<le> k. \<exists>t. looks ! j = (Some i, True, t))
        \<and> look_at (looks ! k) + after \<le> look_at (looks ! 0))"
    (is "_ \<longleftrightarrow> ?waited")
proof (cases "looks = []")
  case True
  then show ?thesis by simp
next
  case False
  let ?o = "fst (hd looks)"
  let ?st = "takeWhile (waits_on ?o) looks"
  have hd: "hd looks = looks ! 0" using False by (simp add: hd_conv_nth)
  have shown: "snd (stall_run after looks) \<longleftrightarrow> ?st \<noteq> [] \<and> look_at (last ?st) + after \<le> look_at (looks ! 0)"
    using stall_run_ref[OF assms] False hd by (auto simp: wait_passed_def wait_began_def split: list.splits)
  have last: "?st \<noteq> [] \<Longrightarrow> last ?st = looks ! (length ?st - 1)"
    by (simp add: last_conv_nth takeWhile_nth)
  show ?thesis unfolding shown
  proof
    assume s: "?st \<noteq> [] \<and> look_at (last ?st) + after \<le> look_at (looks ! 0)"
    let ?k = "length ?st - 1"
    have k: "?k < length ?st" "?k < length looks"
      using s length_takeWhile_le[of "waits_on ?o" looks] by (cases ?st; simp)+
    have w: "waits_on ?o (looks ! j)" if "j \<le> ?k" for j
    proof -
      have j: "j < length ?st" using that k by linarith
      then have "?st ! j \<in> set ?st" by (rule nth_mem)
      then show ?thesis using takeWhile_nth[OF j] set_takeWhileD by metis
    qed
    from w[of 0] obtain i where i: "?o = Some i" by (auto simp: waits_on_def)
    have "\<exists>t. looks ! j = (Some i, True, t)" if "j \<le> ?k" for j
      using w[OF that] i by (cases "looks ! j") (auto simp: waits_on_def)
    moreover have "look_at (looks ! ?k) + after \<le> look_at (looks ! 0)" using s last by simp
    ultimately show ?waited using k(2) by blast
  next
    assume ?waited
    then obtain k i where k: "k < length looks" "\<forall>j \<le> k. \<exists>t. looks ! j = (Some i, True, t)"
      "look_at (looks ! k) + after \<le> look_at (looks ! 0)" by blast
    have o: "?o = Some i" using k(2) hd by (metis bot_nat_0.extremum fst_conv)
    have "k < length ?st"
    proof (rule ccontr)
      assume "\<not> k < length ?st"
      then have "length ?st < length looks" "length ?st \<le> k" using k(1) by linarith+
      then have "\<not> waits_on ?o (looks ! length ?st)" by (simp add: nth_length_takeWhile)
      moreover obtain t where "looks ! length ?st = (Some i, True, t)" using k(2) \<open>length ?st \<le> k\<close> by blast
      ultimately show False using o by (simp add: waits_on_def)
    qed
    moreover have "look_at (looks ! (length ?st - 1)) \<le> look_at (looks ! k)"
    proof (cases "k = length ?st - 1")
      case False
      with \<open>k < length ?st\<close> have "k < length ?st - 1" "length ?st - 1 < length looks"
        using length_takeWhile_le[of "waits_on ?o" looks] by linarith+
      with sorted_wrt_nth_less[OF assms, of k "length ?st - 1"] show ?thesis by simp
    qed simp
    ultimately show "?st \<noteq> [] \<and> look_at (last ?st) + after \<le> look_at (looks ! 0)"
      using last k(3) by (cases "?st = []") auto
  qed
qed

definition sample_looks :: "stall_look list" where
  "sample_looks =
     [(Some ''m'', True, from_secs 500), (Some ''m'', True, from_secs 379), (None, True, from_secs 1)]"

section \<open>The hold episode against the history\<close>

type_synonym hold_look = "hold_facts \<times> instant"

text \<open>The reason on the card after a history of ticks.\<close>

fun hold_run :: "duration \<Rightarrow> hold_look list \<Rightarrow> hold_episode \<times> wake_hold option" where
  "hold_run after [] = (hold_default, None)"
| "hold_run after ((facts, now) # earlier) =
     (case hold_run after earlier of (e, before) \<Rightarrow>
        case hold_observe facts now after e of (e', said) \<Rightarrow>
          (e', case said of None \<Rightarrow> before | Some shown \<Rightarrow> shown))"

text \<open>
  The reference: the time between each tick of the episode whose obstacle let the clock run and the
  next tick. An episode starts at a tick with nothing queued or another count of turns.
\<close>

definition clock_of :: "hold_look \<Rightarrow> hold_clock" where
  "clock_of look = snd (obstacle (fst look))"

definition starts_episode :: "hold_look \<Rightarrow> hold_look \<Rightarrow> bool" where
  "starts_episode earlier look \<longleftrightarrow> clock_of look = HoldReset \<or> hf_turns (fst look) \<noteq> hf_turns (fst earlier)"

fun running_time :: "hold_look list \<Rightarrow> duration" where
  "running_time (look # earlier # rest) =
     (if starts_episode earlier look then 0
      else (if clock_of earlier = HoldRuns then snd look - snd earlier else 0) + running_time (earlier # rest))"
| "running_time _ = 0"

definition shown_ref :: "duration \<Rightarrow> hold_look list \<Rightarrow> wake_hold option" where
  "shown_ref after looks =
     (case looks of [] \<Rightarrow> None | look # _ \<Rightarrow> if after \<le> running_time looks then fst (obstacle (fst look)) else None)"

text \<open>The episode's clock as the reference has it.\<close>

definition clock_agrees :: "hold_look list \<Rightarrow> hold_episode \<Rightarrow> bool" where
  "clock_agrees looks e \<longleftrightarrow>
     (case looks of
        [] \<Rightarrow> he_turns e = None \<and> he_ran e = 0 \<and> he_running_since e = None
      | (facts, now) # _ \<Rightarrow>
          he_turns e = Some (hf_turns facts)
          \<and> (case he_running_since e of
               None \<Rightarrow> clock_of (facts, now) \<noteq> HoldRuns \<and> he_ran e = running_time looks
             | Some since \<Rightarrow> clock_of (facts, now) = HoldRuns \<and> since \<le> now \<and> he_ran e + (now - since) = running_time looks))"

lemma hold_observe_agrees:
  assumes "clock_agrees looks e" "\<forall>look \<in> set looks. snd look \<le> now" "he_published e = shown_ref after looks"
    and "hold_observe facts now after e = (e', said)"
  shows "clock_agrees ((facts, now) # looks) e'" "he_published e' = shown_ref after ((facts, now) # looks)"
    "said = (if shown_ref after ((facts, now) # looks) = shown_ref after looks then None
             else Some (shown_ref after ((facts, now) # looks)))"
proof -
  obtain reason clock where ob: "obstacle facts = (reason, clock)" by (cases "obstacle facts")
  have c: "clock_of (facts, now) = clock" by (simp add: clock_of_def ob)
  define e3 where "e3 = (let e1 = (if clock = HoldReset \<or> (case he_turns e of Some turns \<Rightarrow> turns \<noteq> hf_turns facts | None \<Rightarrow> False)
                then e\<lparr>he_ran := 0, he_running_since := None\<rparr> else e);
          e2 = e1\<lparr>he_turns := Some (hf_turns facts)\<rparr>
      in (if clock = HoldRuns
                then (case he_running_since e2 of None \<Rightarrow> e2\<lparr>he_running_since := Some now\<rparr> | Some _ \<Rightarrow> e2)
                else (case he_running_since e2 of
                        Some since \<Rightarrow> e2\<lparr>he_running_since := None, he_ran := he_ran e2 + (now - since)\<rparr>
                      | None \<Rightarrow> e2)))"
  have pub: "he_published e3 = he_published e" by (simp add: e3_def Let_def split: option.splits)
  have agrees: "clock_agrees ((facts, now) # looks) e3"
  proof (cases looks)
    case Nil
    with assms(1) show ?thesis
      by (auto simp: clock_agrees_def e3_def Let_def c split: option.splits)
  next
    case (Cons l ls)
    obtain f t where l: "l = (f, t)" by (cases l)
    have t: "t \<le> now" using assms(2) Cons l by simp
    show ?thesis
      using assms(1) t unfolding Cons l
      by (auto simp: clock_agrees_def e3_def Let_def c starts_episode_def split: option.splits)
  qed
  then have el: "he_ran e3 + (case he_running_since e3 of None \<Rightarrow> 0 | Some since \<Rightarrow> now - since) = running_time ((facts, now) # looks)"
    by (auto simp: clock_agrees_def split: option.splits)
  have out: "(e', said) = (let shown = shown_ref after ((facts, now) # looks)
     in if shown = he_published e3 then (e3, None) else (e3\<lparr>he_published := shown\<rparr>, Some shown))"
    using assms(4) unfolding hold_observe_def ob prod.case Let_def
    unfolding e3_def[unfolded Let_def, symmetric] el by (auto simp: shown_ref_def ob split: if_splits)
  show "clock_agrees ((facts, now) # looks) e'"
    using out agrees by (auto simp: Let_def clock_agrees_def split: if_splits option.splits)
  show "he_published e' = shown_ref after ((facts, now) # looks)"
    using out by (auto simp: Let_def split: if_splits)
  show "said = (if shown_ref after ((facts, now) # looks) = shown_ref after looks then None
             else Some (shown_ref after ((facts, now) # looks)))"
    using out pub assms(3) by (auto simp: Let_def split: if_splits)
qed

lemma hold_run_agrees:
  assumes "sorted_wrt (\<ge>) (map snd looks)"
  shows "clock_agrees looks (fst (hold_run after looks)) \<and> he_published (fst (hold_run after looks)) = shown_ref after looks
     \<and> snd (hold_run after looks) = shown_ref after looks"
  using assms
proof (induction looks)
  case Nil
  then show ?case by (simp add: clock_agrees_def hold_default_def shown_ref_def)
next
  case (Cons l looks)
  obtain facts now where l: "l = (facts, now)" by (cases l)
  obtain e before where run: "hold_run after looks = (e, before)" by (cases "hold_run after looks")
  obtain e' said where ob: "hold_observe facts now after e = (e', said)" by (cases "hold_observe facts now after e")
  from Cons have IH: "clock_agrees looks e" "he_published e = shown_ref after looks" "before = shown_ref after looks"
    by (simp_all add: run)
  from Cons.prems l have newer: "\<forall>look \<in> set looks. snd look \<le> now" by auto
  show ?case
    using hold_observe_agrees[OF IH(1) newer IH(2) ob] by (simp add: l run ob IH(3))
qed

text \<open>
  The reason a card gives for a held doorbell is the obstacle of the newest tick, shown exactly when
  the time the episode's obstacles let the clock run adds up to the stall window: ticks at which the
  agent works, a component is armed or the first ring settles stop the clock without setting it back,
  an emptied queue or an ended turn sets it back, and a changed reason does not.
\<close>

theorem hold_shown_counts_running_time:
  assumes "sorted_wrt (\<ge>) (map snd looks)"
  shows "snd (hold_run after looks) =
     (case looks of [] \<Rightarrow> None
      | look # _ \<Rightarrow> if after \<le> running_time looks then fst (obstacle (fst look)) else None)"
  using hold_run_agrees[OF assms] by (simp add: shown_ref_def)

definition sample_hold :: "nat \<Rightarrow> bool \<Rightarrow> hold_facts" where
  "sample_hold turns working =
     \<lparr>hf_queued = True, hf_receiver = False, hf_working = working, hf_settling = False, hf_waiting_for_input = False,
      hf_paste_open = False, hf_draft = True, hf_unchecked = None, hf_cannot_type = None,
      hf_unrecognised = False, hf_not_taken = False, hf_turns = turns\<rparr>"

end
