(* ===== verification/Bell_Props.thy ===== *)
theory Bell_Props
  imports Bell_Clocks Step_Invariant
begin

text \<open>
  The doorbell of one agent generation over time: ticks, the reports of rings, which arrive from tasks
  of their own, and the sweep that forgets a replaced generation, in any order. The last section shows
  that a tick over all generations is one such step for each of them.
\<close>

section \<open>One tick\<close>

lemma stall_hold_effects:
  assumes "tick_clocks config now v s = (s1, effects)"
  shows "StartRing i c \<notin> set effects" "sl_bell s1 = sl_bell s" "sl_busy s1 = sl_busy s"
    "sl_not_taken s1 = end_episode (tv_queued v) (ph_turns (tv_input v)) (sl_not_taken s)"
  using assms by (auto simp: tick_clocks_def Let_def split: prod.splits stall_change.splits option.splits)

lemma agent_tick_cases:
  assumes "agent_tick config now v s = (s', effects)"
  obtains s1 before where "tick_clocks config now v s = (s1, before)" "sl_busy s" "s' = Some s1" "effects = before"
  | s1 before s3 extra where "tick_clocks config now v s = (s1, before)" "\<not> sl_busy s"
      "sl_bell s3 = bell_observe (tick_facts config now v s1) (sl_bell s)" "sl_busy s3 = sl_busy s"
      "sl_not_taken s3 = sl_not_taken s1" "set extra \<subseteq> {NudgeRepaint}"
      "case decide (sl_bell s3) (tick_facts config now v s1) config now of
         BellNothing \<Rightarrow> s' = (if bell_is_idle (sl_bell s3) \<and> \<not> tv_queued v then None else Some s3) \<and> effects = before @ extra
       | BellRing i \<Rightarrow>
           if tv_checking v then s' = Some s3 \<and> effects = before @ extra @ [ComposerProbeTick]
           else s' = Some (s3\<lparr>sl_busy := True\<rparr>)
             \<and> effects = before @ extra @ [ComposerProbeTick, StartRing i (df_queued (tv_inbox v))]"
proof (cases "tick_clocks config now v s")
  case (Pair s1 before)
  note clocks = stall_hold_effects[OF Pair]
  show thesis
  proof (cases "sl_busy s")
    case True
    with assms Pair clocks show thesis by (intro that(1)) (auto simp: agent_tick_def)
  next
    case False
    define facts where "facts = tick_facts config now v s1"
    define nudge where "nudge \<longleftrightarrow> tv_is_dirty config now v \<and> tv_nudge_due v \<and> bf_idle facts \<and> \<not> bf_held facts
                        \<and> \<not> tv_working v \<and> sl_nudged s1 = None"
    define s3 where "s3 = (if nudge then s1\<lparr>sl_bell := bell_observe facts (sl_bell s1), sl_nudged := Some (ph_turns (tv_input v))\<rparr>
      else s1\<lparr>sl_bell := bell_observe facts (sl_bell s1)\<rparr>)"
    show thesis
    proof (rule that(2)[OF Pair False])
      show "sl_bell s3 = bell_observe (tick_facts config now v s1) (sl_bell s)" "sl_busy s3 = sl_busy s" "sl_not_taken s3 = sl_not_taken s1"
        using clocks by (simp_all add: s3_def facts_def)
      show "set (if nudge then [NudgeRepaint] else []) \<subseteq> {NudgeRepaint}" by auto
      show "case decide (sl_bell s3) (tick_facts config now v s1) config now of
         BellNothing \<Rightarrow> s' = (if bell_is_idle (sl_bell s3) \<and> \<not> tv_queued v then None else Some s3)
           \<and> effects = before @ (if nudge then [NudgeRepaint] else [])
       | BellRing i \<Rightarrow>
           if tv_checking v then s' = Some s3 \<and> effects = before @ (if nudge then [NudgeRepaint] else []) @ [ComposerProbeTick]
           else s' = Some (s3\<lparr>sl_busy := True\<rparr>)
             \<and> effects = before @ (if nudge then [NudgeRepaint] else []) @ [ComposerProbeTick, StartRing i (df_queued (tv_inbox v))]"
        using assms Pair False clocks
        by (auto simp: agent_tick_def Let_def s3_def nudge_def facts_def split: bell_action.splits if_splits)
    qed
  qed
qed

lemma tick_starts_iff:
  assumes "agent_tick config now v s = (s', effects)" "tick_clocks config now v s = (s1, before)"
  shows "StartRing i c \<in> set effects \<longleftrightarrow>
     \<not> sl_busy s \<and> \<not> tv_checking v \<and> c = df_queued (tv_inbox v)
     \<and> decide (bell_observe (tick_facts config now v s1) (sl_bell s)) (tick_facts config now v s1) config now = BellRing i"
  using assms(1)
proof (cases rule: agent_tick_cases)
  case (1 s1' before')
  with assms(2) stall_hold_effects(1)[OF assms(2)] show ?thesis by auto
next
  case (2 s1' before' s3 extra)
  then have e: "s1' = s1" "before' = before" using assms(2) by simp_all
  have "StartRing i c \<notin> set extra" using 2(6) by auto
  with 2 stall_hold_effects(1)[OF assms(2)] show ?thesis
    unfolding e by (auto split: bell_action.splits if_splits)
qed

lemma decide_ring_iff:
  "decide b facts config now = BellRing i \<longleftrightarrow>
     bf_idle facts \<and> \<not> bf_held facts \<and> df_queued (bf_inbox facts) \<noteq> [] \<and> i = hd (df_queued (bf_inbox facts))
     \<and> (case bl_last_ring b of None \<Rightarrow> True | Some rang \<Rightarrow> rang + delay_after config (bl_rings b) \<le> now)
     \<and> ring_still_admitted (bf_inbox facts) config now"
  by (auto simp: decide_def Let_def split: list.splits)

text \<open>When the schedule lets the bell ring for a queue.\<close>

definition schedule_due :: "doorbell_config \<Rightarrow> bell \<Rightarrow> message_id list \<Rightarrow> instant \<Rightarrow> bool" where
  "schedule_due config b queue now =
     (case bl_last_ring b of
        None \<Rightarrow> True
      | Some rang \<Rightarrow> set (bl_covered b) \<inter> set queue = {} \<or> rang + delay_after config (bl_rings b) \<le> now)"

lemma bell_observe_due:
  assumes "df_queued (bf_inbox facts) \<noteq> []"
  shows "(case bl_last_ring (bell_observe facts b) of
            None \<Rightarrow> True | Some rang \<Rightarrow> rang + delay_after config (bl_rings (bell_observe facts b)) \<le> now)
     \<longleftrightarrow> schedule_due config b (df_queued (bf_inbox facts)) now"
  using assms by (auto simp: bell_observe_def schedule_due_def Let_def list_ex_iff split: option.splits)

lemma ring_starts_iff_cond:
  "StartRing i covered \<in> set (snd (agent_tick config now v s)) \<longleftrightarrow>
     \<not> sl_busy s \<and> tv_admission v \<noteq> None \<and> (tv_hooked v \<or> tv_ready_before_hooks v)
     \<and> ring_still_admitted (tv_inbox v) config now \<and> tv_refusal v = None
     \<and> \<not> ph_paste_open (tv_input v) \<and> \<not> ph_unchecked (tv_input v) \<and> \<not> tv_checking v
     \<and> \<not> tv_settling v \<and> \<not> tv_suspended v \<and> sl_not_taken s \<noteq> Some (ph_turns (tv_input v))
     \<and> schedule_due config (sl_bell s) covered now
     \<and> covered = df_queued (tv_inbox v) \<and> covered \<noteq> [] \<and> i = hd covered"
proof -
  obtain s' effects where t: "agent_tick config now v s = (s', effects)" by (cases "agent_tick config now v s")
  obtain s1 before where c: "tick_clocks config now v s = (s1, before)" by (cases "tick_clocks config now v s")
  have nt: "sl_not_taken s1 = end_episode (tv_queued v) (ph_turns (tv_input v)) (sl_not_taken s)"
    using stall_hold_effects(4)[OF c] .
  have inbox: "bf_inbox (tick_facts config now v s1) = tv_inbox v" by (simp add: tick_facts_def)
  have fit: "bf_idle (tick_facts config now v s1) \<and> \<not> bf_held (tick_facts config now v s1) \<longleftrightarrow>
     tv_admission v \<noteq> None \<and> (tv_hooked v \<or> tv_ready_before_hooks v) \<and> tv_refusal v = None
     \<and> \<not> ph_paste_open (tv_input v) \<and> \<not> ph_unchecked (tv_input v) \<and> \<not> tv_settling v \<and> \<not> tv_suspended v
     \<and> sl_not_taken s \<noteq> Some (ph_turns (tv_input v))"
    if "tv_queued v" "ring_still_admitted (tv_inbox v) config now"
    using that by (auto simp: tick_facts_def tv_ready_def tv_refused_def tv_receiver_def tv_settles_def nt end_episode_def
        split: option.splits)
  show ?thesis
  proof (cases "tv_queued v \<and> ring_still_admitted (tv_inbox v) config now")
    case True
    then have q: "df_queued (bf_inbox (tick_facts config now v s1)) \<noteq> []" by (simp add: inbox tv_queued_def)
    show ?thesis
      unfolding t snd_conv tick_starts_iff[OF t c] decide_ring_iff bell_observe_due[OF q] inbox
      using fit[OF conjunct1[OF True] conjunct2[OF True]] True q[unfolded inbox]
      by (cases "covered = df_queued (tv_inbox v)"; simp) blast
  next
    case False
    then show ?thesis
      unfolding t snd_conv tick_starts_iff[OF t c] decide_ring_iff inbox by (auto simp: tv_queued_def)
  qed
qed

text \<open>
  C32: a tick starts a ring exactly when everything allows it: no ring is under way, the app state admits
  the pane, its own hooks or its measured proof say it is ready, no component is armed or inside its
  grace and the integration is not blocked, the deck may type, no paste is open, no touched box is out
  of reach of a check and none is being checked, the first ring is not settling, the doorbell is not
  suspended, no Enter of this turn was refused, and the schedule is due or the queue holds nothing the
  last ring covered. The ring names the oldest queued message and covers the whole queue.
\<close>

theorem ring_starts_iff_fit:
  "StartRing i covered \<in> set (snd (agent_tick config now v s)) \<longleftrightarrow>
     \<not> sl_busy s \<and> tv_admission v \<noteq> None \<and> (tv_hooked v \<or> tv_ready_before_hooks v)
     \<and> ring_still_admitted (tv_inbox v) config now \<and> tv_refusal v = None
     \<and> \<not> ph_paste_open (tv_input v) \<and> \<not> ph_unchecked (tv_input v) \<and> \<not> tv_checking v
     \<and> \<not> tv_settling v \<and> \<not> tv_suspended v \<and> sl_not_taken s \<noteq> Some (ph_turns (tv_input v))
     \<and> schedule_due config (sl_bell s) covered now
     \<and> covered = df_queued (tv_inbox v) \<and> covered \<noteq> [] \<and> i = hd covered"
  by (rule ring_starts_iff_cond)

section \<open>A generation over time\<close>

text \<open>The slot, if the doorbell remembers the generation, and what each ring under way covers.\<close>

record bell_world =
  bw_slot :: "bell_slot option"
  bw_rings :: "message_id list list"

definition bell_world_new :: bell_world where
  "bell_world_new = \<lparr>bw_slot = None, bw_rings = []\<rparr>"

datatype bell_event =
  BTick instant tick_view | BDone nat ring_report instant nat | BForget

definition slot_or_default :: "bell_slot option \<Rightarrow> bell_slot" where
  "slot_or_default s = (case s of Some s \<Rightarrow> s | None \<Rightarrow> slot_default)"

fun started :: "tick_effect list \<Rightarrow> message_id list list" where
  "started [] = []"
| "started (StartRing i covered # effects) = covered # started effects"
| "started (e # effects) = started effects"

fun bell_effects :: "doorbell_config \<Rightarrow> bell_event \<Rightarrow> bell_world \<Rightarrow> tick_effect list" where
  "bell_effects config (BTick now v) w = snd (agent_tick config now v (slot_or_default (bw_slot w)))"
| "bell_effects config e w = []"

fun bell_step :: "doorbell_config \<Rightarrow> bell_event \<Rightarrow> bell_world \<Rightarrow> bell_world" where
  "bell_step config (BTick now v) w =
     (case agent_tick config now v (slot_or_default (bw_slot w)) of (s', effects) \<Rightarrow>
        \<lparr>bw_slot = s', bw_rings = bw_rings w @ started effects\<rparr>)"
| "bell_step config (BDone k report now turns) w =
     (if k < length (bw_rings w)
      then w\<lparr>bw_slot := map_option (fst \<circ> ring_done report now (bw_rings w ! k) turns) (bw_slot w),
             bw_rings := take k (bw_rings w) @ drop (Suc k) (bw_rings w)\<rparr>
      else w)"
| "bell_step config BForget w =
     (case bw_slot w of Some s \<Rightarrow> if sl_busy s then w else w\<lparr>bw_slot := None\<rparr> | None \<Rightarrow> w)"

definition bell_run :: "doorbell_config \<Rightarrow> bell_event list \<Rightarrow> bell_world \<Rightarrow> bell_world" where
  "bell_run config evs w = foldl (\<lambda>w e. bell_step config e w) w evs"

lemma started_append [simp]: "started (a @ b) = started a @ started b"
  by (induction a rule: started.induct) auto

lemma started_Nil: "\<forall>i c. StartRing i c \<notin> set effects \<Longrightarrow> started effects = []"
  by (induction effects rule: started.induct) auto

lemma agent_tick_started:
  assumes "agent_tick config now v s = (s', effects)"
  shows "started effects = [] \<and> (\<forall>s1. s' = Some s1 \<longrightarrow> sl_busy s1 = sl_busy s) \<and> (sl_busy s \<longrightarrow> s' \<noteq> None)
    \<or> (\<not> sl_busy s \<and> (\<exists>s1 covered. s' = Some s1 \<and> sl_busy s1 \<and> started effects = [covered]))"
  using assms
proof (cases rule: agent_tick_cases)
  case (1 s1 before)
  then have "started effects = []" using stall_hold_effects(1) by (metis started_Nil)
  then show ?thesis using 1 stall_hold_effects(3)[OF 1(1)] by auto
next
  case (2 s1 before s3 extra)
  have "started before = []" using stall_hold_effects(1)[OF 2(1)] by (intro started_Nil) simp
  moreover have "started extra = []" using 2(6) by (intro started_Nil) auto
  ultimately show ?thesis using 2 by (auto split: bell_action.splits if_splits)
qed

definition rings_ok :: "bell_world \<Rightarrow> bool" where
  "rings_ok w \<longleftrightarrow>
     (case bw_rings w of
        [] \<Rightarrow> (\<forall>s. bw_slot w = Some s \<longrightarrow> \<not> sl_busy s)
      | _ # others \<Rightarrow> others = [] \<and> (\<exists>s. bw_slot w = Some s \<and> sl_busy s))"

lemma ring_done_busy [simp]: "\<not> sl_busy (fst (ring_done report now covered turns s))"
  by (simp add: ring_done_def Let_def)

lemma slot_default_busy [simp]: "\<not> sl_busy slot_default"
  by (simp add: slot_default_def)

lemma bell_step_ok: "rings_ok w \<Longrightarrow> rings_ok (bell_step config e w)"
proof (cases e)
  case (BTick now v)
  obtain s' effects where t: "agent_tick config now v (slot_or_default (bw_slot w)) = (s', effects)"
    by (cases "agent_tick config now v (slot_or_default (bw_slot w))")
  assume "rings_ok w"
  then show ?thesis
    using agent_tick_started[OF t] unfolding BTick bell_step.simps t prod.case
    by (auto simp: rings_ok_def slot_or_default_def split: list.splits option.splits)
next
  case (BDone k report now turns)
  assume "rings_ok w"
  then show ?thesis unfolding BDone
    by (auto simp: rings_ok_def comp_def split: list.splits)
next
  case BForget
  assume "rings_ok w"
  then show ?thesis unfolding BForget
    by (auto simp: rings_ok_def split: list.splits option.splits)
qed

interpretation bell: step_invariant "\<lambda>w. w = bell_world_new" "\<lambda>w w'. \<exists>e. w' = bell_step config e w" rings_ok for config
  by unfold_locales (auto simp: bell_step_ok, simp add: rings_ok_def bell_world_new_def)

lemma bell_run_steps: "(\<lambda>w w'. \<exists>e. w' = bell_step config e w)\<^sup>*\<^sup>* w (bell_run config evs w)"
proof (induction evs rule: rev_induct)
  case (snoc e evs)
  then show ?case by (auto simp: bell_run_def intro: rtranclp.rtrancl_into_rtrancl)
qed (simp add: bell_run_def)

lemma bell_run_ok: "rings_ok (bell_run config evs bell_world_new)"
  using bell.reachable_inv[OF refl bell_run_steps] .

lemma bell_run_simps [simp]:
  "bell_run config [] w = w"
  "bell_run config (e # evs) w = bell_run config evs (bell_step config e w)"
  by (simp_all add: bell_run_def)

text \<open>
  At most one ring for a generation is under way, whatever the order of ticks, reports and sweeps; while
  one is, its slot is kept and marked busy, so its report is never lost, and a slot is marked busy only
  then, so a reported ring never leaves the doorbell stuck.
\<close>

theorem one_ring_at_a_time:
  "let w = bell_run config evs bell_world_new in
     length (bw_rings w) \<le> 1 \<and> (bw_rings w \<noteq> [] \<longleftrightarrow> (\<exists>s. bw_slot w = Some s \<and> sl_busy s))"
  using bell_run_ok[of config evs] by (auto simp: rings_ok_def Let_def split: list.splits)

section \<open>The schedule\<close>

text \<open>Events that leave the wait a ring covered as it is: some of its messages stay queued and no other ring writes.\<close>

definition rang_report :: "ring_report \<Rightarrow> bool" where
  "rang_report report \<longleftrightarrow> re_rang (ring_effect_of (rr_outcome report) (rr_cr_reached report))"

fun keeps_wait :: "message_id list \<Rightarrow> bell_event \<Rightarrow> bool" where
  "keeps_wait covered (BTick now v) \<longleftrightarrow> set covered \<inter> set (df_queued (tv_inbox v)) \<noteq> {}"
| "keeps_wait covered (BDone k report now turns) \<longleftrightarrow> \<not> rang_report report"
| "keeps_wait covered BForget \<longleftrightarrow> False"

lemma bell_observe_keeps:
  "set (bl_covered b) \<inter> set (df_queued (bf_inbox facts)) \<noteq> {} \<Longrightarrow> bell_observe facts b = b"
  by (auto simp: bell_observe_def Let_def list_ex_iff)

lemma tick_keeps_bell:
  assumes "agent_tick config now v s = (s', effects)" "set (bl_covered (sl_bell s)) \<inter> set (df_queued (tv_inbox v)) \<noteq> {}"
  shows "\<exists>s1. s' = Some s1 \<and> sl_bell s1 = sl_bell s"
  using assms(1)
proof (cases rule: agent_tick_cases)
  case (1 s1 before)
  then show ?thesis using stall_hold_effects(2)[OF 1(1)] by simp
next
  case (2 s1 before s3 extra)
  have "bell_observe (tick_facts config now v s1) (sl_bell s) = sl_bell s"
    by (rule bell_observe_keeps) (use assms(2) in \<open>simp add: tick_facts_def\<close>)
  moreover have "tv_queued v" using assms(2) by (auto simp: tv_queued_def)
  ultimately show ?thesis using 2 by (auto split: bell_action.splits if_splits)
qed

lemma report_keeps_bell: "\<not> rang_report report \<Longrightarrow> sl_bell (fst (ring_done report now covered turns s)) = sl_bell s"
  by (simp add: ring_done_def Let_def rang_report_def)

lemma run_keeps_bell:
  assumes "bw_slot w = Some s" "\<forall>e \<in> set evs. keeps_wait (bl_covered (sl_bell s)) e"
  shows "\<exists>s1. bw_slot (bell_run config evs w) = Some s1 \<and> sl_bell s1 = sl_bell s"
  using assms
proof (induction evs arbitrary: w s)
  case (Cons e evs)
  have "\<exists>s1. bw_slot (bell_step config e w) = Some s1 \<and> sl_bell s1 = sl_bell s"
  proof (cases e)
    case (BTick now v)
    obtain s' effects where t: "agent_tick config now v s = (s', effects)" by (cases "agent_tick config now v s")
    have "set (bl_covered (sl_bell s)) \<inter> set (df_queued (tv_inbox v)) \<noteq> {}" using Cons.prems(2) by (simp add: BTick)
    from tick_keeps_bell[OF t this] show ?thesis by (auto simp: BTick Cons.prems(1) slot_or_default_def t)
  qed (use Cons.prems in \<open>auto simp: report_keeps_bell\<close>)
  then obtain s1 where s1: "bw_slot (bell_step config e w) = Some s1" "sl_bell s1 = sl_bell s" by blast
  with Cons.IH[OF s1(1)] Cons.prems(2) show ?case by simp
qed simp

text \<open>
  C23: rings keep to the schedule. After a ring that wrote, and for as long as some message it covered stays
  queued and nothing else is written, no tick starts another one before the delay the schedule has
  after that many rings has passed since the report.
\<close>

theorem rings_follow_schedule:
  assumes "w = bell_run config before bell_world_new" "bw_rings w = [covered]" "bw_slot w = Some s"
    and "rang_report report" "\<forall>e \<in> set evs. keeps_wait covered e" "keeps_wait covered (BTick now v)"
    and "StartRing i c \<in> set (bell_effects config (BTick now v)
           (bell_run config evs (bell_step config (BDone 0 report reported turns) w)))"
  shows "reported + delay_after config (min (bl_rings (sl_bell s) + 1) u32_max) \<le> now"
proof -
  let ?w1 = "bell_step config (BDone 0 report reported turns) w"
  define s1 where "s1 = fst (ring_done report reported covered turns s)"
  have w1: "bw_slot ?w1 = Some s1" using assms(2,3) by (simp add: s1_def)
  have b1: "sl_bell s1 = bell_rang reported covered (sl_bell s)"
    using assms(4) by (simp add: s1_def ring_done_def Let_def rang_report_def)
  then have c1: "bl_covered (sl_bell s1) = covered" by (simp add: bell_rang_def)
  from run_keeps_bell[OF w1, of evs config] assms(5) c1
  obtain s2 where s2: "bw_slot (bell_run config evs ?w1) = Some s2" "sl_bell s2 = sl_bell s1" by auto
  have "schedule_due config (sl_bell s1) c now \<and> c = df_queued (tv_inbox v)"
    using assms(7) unfolding bell_effects.simps s2(1) slot_or_default_def option.case ring_starts_iff_cond s2(2) by blast
  then show ?thesis using assms(6) c1 b1 by (auto simp: schedule_due_def bell_rang_def)
qed

section \<open>An Enter the agent did not take\<close>

fun same_turn :: "nat \<Rightarrow> bell_event \<Rightarrow> bool" where
  "same_turn turns (BTick now v) \<longleftrightarrow> tv_queued v \<and> ph_turns (tv_input v) = turns"
| "same_turn turns (BDone k report now t) \<longleftrightarrow> True"
| "same_turn turns BForget \<longleftrightarrow> False"

definition refused_in :: "nat \<Rightarrow> bell_world \<Rightarrow> bool" where
  "refused_in turns w \<longleftrightarrow>
     bw_rings w = [] \<and> (\<exists>s. bw_slot w = Some s \<and> \<not> sl_busy s \<and> sl_not_taken s = Some turns)"

lemma tick_keeps_refused:
  assumes "agent_tick config now v s = (s', effects)" "\<not> sl_busy s" "sl_not_taken s = Some turns" "same_turn turns (BTick now v)"
  shows "started effects = [] \<and> (\<exists>s1. s' = Some s1 \<and> \<not> sl_busy s1 \<and> sl_not_taken s1 = Some turns)"
  using assms(1)
proof (cases rule: agent_tick_cases)
  case (1 s1 before)
  with assms(2) show ?thesis by simp
next
  case (2 s1 before s3 extra)
  have nt: "sl_not_taken s1 = Some turns"
    using stall_hold_effects(4)[OF 2(1)] assms(3,4) by (simp add: end_episode_def)
  then have "decide b (tick_facts config now v s1) config now = BellNothing" for b
    by (simp add: decide_def tick_facts_def)
  moreover have "started before = []" using stall_hold_effects(1)[OF 2(1)] by (intro started_Nil) simp
  moreover have "started extra = []" using 2(6) by (intro started_Nil) auto
  ultimately show ?thesis using 2 nt assms(4) by auto
qed

lemma run_keeps_refused:
  assumes "refused_in turns w" "\<forall>e \<in> set evs. same_turn turns e"
  shows "refused_in turns (bell_run config evs w)"
  using assms
proof (induction evs arbitrary: w)
  case (Cons e evs)
  have "refused_in turns (bell_step config e w)"
  proof (cases e)
    case (BTick now v)
    from Cons.prems obtain s where s: "bw_slot w = Some s" "\<not> sl_busy s" "sl_not_taken s = Some turns" "bw_rings w = []"
      by (auto simp: refused_in_def)
    obtain s' effects where t: "agent_tick config now v s = (s', effects)" by (cases "agent_tick config now v s")
    from tick_keeps_refused[OF t s(2,3)] Cons.prems(2) s show ?thesis
      by (auto simp: BTick t refused_in_def slot_or_default_def)
  qed (use Cons.prems in \<open>auto simp: refused_in_def\<close>)
  with Cons show ?case by simp
qed simp

text \<open>
  After an Enter the agent did not take, the doorbell types nothing more until a turn of the agent ends
  or its queue empties: with both as they were, no later tick starts a ring.
\<close>

theorem not_taken_waits_for_turn:
  assumes "w = bell_run config before bell_world_new" "bw_rings w = [covered]"
    and "re_not_taken (ring_effect_of (rr_outcome report) (rr_cr_reached report))"
    and "\<forall>e \<in> set evs. same_turn turns e"
  shows "bw_rings (bell_run config evs (bell_step config (BDone 0 report reported turns) w)) = []"
proof -
  obtain s where s: "bw_slot w = Some s"
    using bell_run_ok[of config before] assms(1,2) by (auto simp: rings_ok_def)
  have "refused_in turns (bell_step config (BDone 0 report reported turns) w)"
    using s assms(2,3) by (simp add: refused_in_def ring_done_def Let_def)
  from run_keeps_refused[OF this assms(4)] show ?thesis by (simp add: refused_in_def)
qed

definition sample_view :: "message_id list \<Rightarrow> tick_view" where
  "sample_view queue =
     \<lparr>tv_admission = Some \<lparr>da_epoch = 1, da_readiness = Ready\<rparr>, tv_hooked = True, tv_status = Some StIdle,
      tv_input = \<lparr>ph_paste_open = False, ph_draft = False, ph_unchecked = False, ph_turns = 3\<rparr>,
      tv_inbox = \<lparr>df_queued = queue, df_armed = 0, df_native_announced_at = None, df_blocked = False\<rparr>,
      tv_refusal = None, tv_ready_before_hooks = False, tv_settling = False, tv_suspended = False, tv_dirty = False,
      tv_nudge_due = False, tv_probe_failing = False, tv_unchecked_hold = NeedsFetch, tv_hold_detail = None,
      tv_checking = False\<rparr>"

definition sample_ring :: bell_world where
  "sample_ring = bell_run default_doorbell [BTick 5 (sample_view [''m1'', ''m2''])] bell_world_new"

lemmas sample_bell_defs = sample_ring_def sample_view_def bell_world_new_def agent_tick_def tick_clocks_def Let_def
  slot_or_default_def slot_default_def stall_observe_def stall_default_def hold_observe_def hold_default_def obstacle_def
  tick_hold_facts_def tick_facts_def tv_queued_def tv_receiver_def tv_refused_def tv_ready_def tv_settles_def
  tv_is_dirty_def tv_working_def ring_still_admitted_def end_episode_def status_explains_waiting_def bell_observe_def
  bell_default_def decide_def default_doorbell_def DEFAULT_TICK_def DEFAULT_SCHEDULE_def DEFAULT_ARM_GRACE_def
  DEFAULT_WAKE_STALL_AFTER_def from_secs_def from_millis_def ring_done_def bell_rang_def unrecognised_after_def
  ring_effect_of_def delay_after_def u32_max_def

lemma sample_ring_state:
  "bw_rings sample_ring = [[''m1'', ''m2'']]"
  "\<exists>s. bw_slot sample_ring = Some s \<and> bl_rings (sl_bell s) = 0"
  by (simp_all add: sample_bell_defs)

theorem rings_follow_schedule_witness:
  "6 + from_secs 15 \<le> (6 + from_secs 15 :: nat)
   \<and> StartRing ''m2'' [''m2''] \<in> set (bell_effects default_doorbell (BTick (6 + from_secs 15) (sample_view [''m2'']))
        (bell_run default_doorbell [BTick 7 (sample_view [''m2''])] (bell_step default_doorbell
           (BDone 0 \<lparr>rr_outcome = RingTxn OutSubmitted, rr_attempt = Some 1, rr_cr_reached = True\<rparr> 6 3) sample_ring)))"
proof -
  let ?report = "\<lparr>rr_outcome = RingTxn OutSubmitted, rr_attempt = Some 1, rr_cr_reached = True\<rparr>"
  let ?v = "sample_view [''m2'']"
  obtain s where s: "bw_slot sample_ring = Some s" "bl_rings (sl_bell s) = 0" using sample_ring_state(2) by blast
  have ring: "StartRing ''m2'' [''m2''] \<in> set (bell_effects default_doorbell (BTick (6 + from_secs 15) ?v)
        (bell_run default_doorbell [BTick 7 ?v] (bell_step default_doorbell (BDone 0 ?report 6 3) sample_ring)))"
    by (simp add: sample_bell_defs)
  have "6 + delay_after default_doorbell (min (bl_rings (sl_bell s) + 1) u32_max) \<le> 6 + from_secs 15"
    by (rule rings_follow_schedule[OF sample_ring_def sample_ring_state(1) s(1) _ _ _ ring])
       (simp_all add: rang_report_def ring_effect_of_def sample_view_def)
  then have "6 + from_secs 15 \<le> (6 + from_secs 15 :: nat)"
    by (simp add: s(2) delay_after_def default_doorbell_def DEFAULT_SCHEDULE_def u32_max_def)
  with ring show ?thesis by blast
qed

section \<open>All generations\<close>

lemma fold_tick_keys:
  assumes "distinct ks"
  shows "(if k \<in> set ks
          then map_of (fst (foldl (\<lambda>acc k. tick_key config now view k acc) (slots, effects) ks)) k =
                 fst (agent_tick config now (view k) (slot_or_default (map_of slots k)))
             \<and> map snd (filter (\<lambda>e. fst e = k) (snd (foldl (\<lambda>acc k. tick_key config now view k acc) (slots, effects) ks))) =
                 map snd (filter (\<lambda>e. fst e = k) effects) @ snd (agent_tick config now (view k) (slot_or_default (map_of slots k)))
          else map_of (fst (foldl (\<lambda>acc k. tick_key config now view k acc) (slots, effects) ks)) k = map_of slots k
             \<and> map snd (filter (\<lambda>e. fst e = k) (snd (foldl (\<lambda>acc k. tick_key config now view k acc) (slots, effects) ks))) =
                 map snd (filter (\<lambda>e. fst e = k) effects))"
  using assms
proof (induction ks arbitrary: slots effects)
  case (Cons k' ks)
  obtain slots' effects' where step: "tick_key config now view k' (slots, effects) = (slots', effects')"
    by (cases "tick_key config now view k' (slots, effects)")
  obtain s' new where t: "agent_tick config now (view k') (slot_or_default (map_of slots k')) = (s', new)"
    by (cases "agent_tick config now (view k') (slot_or_default (map_of slots k'))")
  have own: "slots' = (case s' of Some s1 \<Rightarrow> AList.update k' s1 slots | None \<Rightarrow> AList.delete k' slots)"
    "effects' = effects @ map (Pair k') new"
    using step t[unfolded slot_or_default_def] by (simp_all add: tick_key_def)
  have m: "map_of slots' = (map_of slots)(k' := s')"
    unfolding own by (auto simp: update_conv' delete_conv' split: option.split)
  have f: "map snd (filter (\<lambda>e. fst e = k) effects') = map snd (filter (\<lambda>e. fst e = k) effects) @ (if k = k' then new else [])"
    unfolding own by (auto simp: filter_map comp_def filter_empty_conv)
  show ?case
    using Cons.IH[of slots' effects'] Cons.prems by (auto simp: step m f t split: if_splits)
qed simp

lemma tick_keys_fold:
  "distinct keys \<Longrightarrow> distinct (foldl (\<lambda>keys k. if List.member keys k then keys else keys @ [k]) keys ks)
     \<and> set (foldl (\<lambda>keys k. if List.member keys k then keys else keys @ [k]) keys ks) = set keys \<union> set ks"
  by (induction ks arbitrary: keys) auto

lemma tick_keys_ok:
  assumes "distinct panes"
  shows "distinct (tick_keys panes current slots)"
    "k \<in> set (tick_keys panes current slots) \<longleftrightarrow>
       (fst k \<in> set panes \<and> current (fst k) = Some (snd k)) \<or> map_of slots k \<noteq> None"
proof -
  let ?live = "concat (map (\<lambda>pane. case current pane of Some agent \<Rightarrow> [(pane, agent)] | None \<Rightarrow> []) panes)"
  have "distinct ?live" using assms
    by (induction panes) (auto split: option.splits)
  note d = tick_keys_fold[OF this, of "map fst slots"]
  then show "distinct (tick_keys panes current slots)" by (simp add: tick_keys_def)
  have "k \<in> set ?live \<longleftrightarrow> fst k \<in> set panes \<and> current (fst k) = Some (snd k)"
    by (cases k) (auto split: option.splits)
  with d show "k \<in> set (tick_keys panes current slots) \<longleftrightarrow>
       (fst k \<in> set panes \<and> current (fst k) = Some (snd k)) \<or> map_of slots k \<noteq> None"
    by (simp add: tick_keys_def map_of_eq_None_iff)
qed

definition kept_slot :: "(string \<Rightarrow> string option) \<Rightarrow> agent_key \<Rightarrow> bell_slot option \<Rightarrow> bell_slot option" where
  "kept_slot current k s =
     (case s of Some s \<Rightarrow> if sl_busy s \<or> current (fst k) = Some (snd k) then Some s else None | None \<Rightarrow> None)"

lemma map_of_retain:
  assumes "distinct (map fst slots)"
  shows "map_of (tick_retain current slots) k = kept_slot current k (map_of slots k)"
  using assms
proof (induction slots)
  case (Cons e slots)
  obtain pane agent s where e: "e = ((pane, agent), s)" by (metis prod.exhaust)
  from Cons have IH: "map_of (tick_retain current slots) k = kept_slot current k (map_of slots k)" by simp
  have "map_of slots (pane, agent) = None" using Cons.prems by (simp add: e map_of_eq_None_iff)
  with IH show ?case by (auto simp: e tick_retain_def kept_slot_def)
qed (simp add: tick_retain_def kept_slot_def)

text \<open>
  A tick over all generations is one tick of each: a live generation with queued messages or one the
  doorbell remembers is ticked exactly once, from its own slot or a fresh one, with exactly the effects
  of that tick; a replaced generation with no ring under way is forgotten; and no generation's tick
  touches another's slot.
\<close>

theorem run_tick_each_once:
  assumes "distinct (map fst slots)" "distinct panes"
    and "run_tick config now panes current view slots = (slots', effects)"
  shows "let s = kept_slot current k (map_of slots k);
             due = (s \<noteq> None \<or> (fst k \<in> set panes \<and> current (fst k) = Some (snd k)));
             tick = agent_tick config now (view k) (slot_or_default s)
         in map_of slots' k = (if due then fst tick else None)
            \<and> map snd (filter (\<lambda>e. fst e = k) effects) = (if due then snd tick else [])"
proof -
  let ?kept = "tick_retain current slots"
  have run: "foldl (\<lambda>acc k. tick_key config now view k acc) (?kept, []) (tick_keys panes current ?kept) = (slots', effects)"
    using assms(3) by (simp add: run_tick_def Let_def)
  note keys = tick_keys_ok[OF assms(2), where slots = ?kept and current = current]
  note fold = fold_tick_keys[OF keys(1), where slots = ?kept and effects = "[]" and k = k and config = config and now = now and view = view,
      unfolded run keys(2) map_of_retain[OF assms(1)] fst_conv snd_conv]
  show ?thesis using fold by (auto simp: Let_def split: if_splits)
qed

end
