(* ===== verification/Hook_Provenance.thy ===== *)
theory Hook_Provenance
  imports Inbox_Data Step_Invariant "HOL-Library.Word"
begin

text \<open>
  The provenance gate of the hook socket, \<^verbatim>\<open>src/src/hook_provenance.rs\<close>: minting and comparing capability
  tokens, and the verdict on a message that claims to come from a pane.

  The gate asks a directory of tokens, a trait in the source. It is a record of functions here, and the
  laws its documentation promises are the locale \<open>token_directory\<close>, in which the gate's lemmas are
  proved.
\<close>

unbundle bit_operations_syntax

section \<open>Tokens\<close>

definition TOKEN_BYTES :: nat where
  "TOKEN_BYTES = 32"

definition TOKEN_LEN :: nat where
  "TOKEN_LEN = TOKEN_BYTES * 2"

definition to_le_bytes :: "64 word \<Rightarrow> 8 word list" where
  "to_le_bytes seq = map (\<lambda>k. ucast (drop_bit (8 * k) seq)) [0..<8]"

text \<open>The operating system's bytes are an argument; the counter is mixed into the last eight.\<close>

definition mint_bytes :: "8 word list \<Rightarrow> 64 word \<Rightarrow> 8 word list" where
  "mint_bytes random seq =
     take (TOKEN_BYTES - 8) random @ map2 (XOR) (drop (TOKEN_BYTES - 8) random) (to_le_bytes seq)"

definition mint :: "8 word list \<Rightarrow> 64 word \<Rightarrow> string" where
  "mint random seq = concat (map (\<lambda>b. hex_byte (unat b)) (mint_bytes random seq))"

definition is_ascii_hexdigit :: "char \<Rightarrow> bool" where
  "is_ascii_hexdigit c \<longleftrightarrow>
     is_ascii_digit c \<or> (97 \<le> byte_of c \<and> byte_of c \<le> 102) \<or> (65 \<le> byte_of c \<and> byte_of c \<le> 70)"

definition is_well_formed :: "string \<Rightarrow> bool" where
  "is_well_formed candidate \<longleftrightarrow> length candidate = TOKEN_LEN \<and> list_all is_ascii_hexdigit candidate"

definition byte8 :: "char \<Rightarrow> 8 word" where
  "byte8 c = word_of_nat (byte_of c)"

definition tokens_match :: "string \<Rightarrow> string \<Rightarrow> bool" where
  "tokens_match a b \<longleftrightarrow>
     length a = length b \<and> foldl (\<lambda>diff (x, y). diff OR (byte8 x XOR byte8 y)) 0 (zip a b) = 0"

section \<open>Verdicts\<close>

datatype instance_origin = Direct | Dispatched | Conflict

record seat =
  se_instance :: string
  se_is_orchestrator :: bool
  se_origin :: "instance_origin option"

record attest_facts =
  af_seat :: "seat option"
  af_unit :: "string option"
  af_replacement_of :: "nat option"

definition attest_facts_default :: attest_facts where
  "attest_facts_default = \<lparr>af_seat = None, af_unit = None, af_replacement_of = None\<rparr>"

record token_owner =
  to_agent_id :: string
  to_pane_id :: "string option"
  to_facts :: attest_facts

datatype hook_refusal =
  Malformed | UnknownToken | WrongPane "string option" | Missing | WrongAgent | Superseded

datatype provenance = Attested string attest_facts | Unattested | RefusedBy hook_refusal

datatype policy = Enforce | WarnOnly

definition to_ascii_lowercase :: "char \<Rightarrow> char" where
  "to_ascii_lowercase c = (if is_ascii_uppercase c then of_byte (byte_of c + 32) else c)"

definition policy_from_env_value :: "string option \<Rightarrow> policy" where
  "policy_from_env_value raw =
     (case map_option trim raw of
        Some v \<Rightarrow> (if map to_ascii_lowercase v = ''warn'' then WarnOnly else Enforce)
      | None \<Rightarrow> Enforce)"

record token_dir =
  td_owner :: "string \<Rightarrow> token_owner option"
  td_pane_issued :: "string \<Rightarrow> bool"
  td_paneless_issued :: "string \<Rightarrow> bool"
  td_speaks_for :: "string \<Rightarrow> string \<Rightarrow> bool"

definition classify :: "string \<Rightarrow> string option \<Rightarrow> token_dir \<Rightarrow> provenance" where
  "classify claimed_pane presented directory =
     (case presented of
        None \<Rightarrow> (if td_pane_issued directory claimed_pane then RefusedBy Missing else Unattested)
      | Some token \<Rightarrow>
          (if \<not> is_well_formed token then RefusedBy Malformed
           else case td_owner directory token of
             None \<Rightarrow> RefusedBy UnknownToken
           | Some owner \<Rightarrow>
               (if to_pane_id owner = Some claimed_pane then Attested (to_agent_id owner) (to_facts owner)
                else RefusedBy (WrongPane (to_pane_id owner)))))"

definition classify_paneless :: "string \<Rightarrow> string option \<Rightarrow> token_dir \<Rightarrow> provenance" where
  "classify_paneless claimed_agent presented directory =
     (case presented of
        None \<Rightarrow> RefusedBy Missing
      | Some token \<Rightarrow>
          (if \<not> is_well_formed token then RefusedBy Malformed
           else case td_owner directory token of
             None \<Rightarrow> RefusedBy UnknownToken
           | Some owner \<Rightarrow>
               (case to_pane_id owner of
                  None \<Rightarrow>
                    (if to_agent_id owner = claimed_agent then Attested (to_agent_id owner) (to_facts owner)
                     else RefusedBy WrongAgent)
                | Some pane \<Rightarrow> RefusedBy (WrongPane (Some pane)))))"

definition event_agent_check ::
  "string option \<Rightarrow> string option \<Rightarrow> token_dir \<Rightarrow> provenance \<Rightarrow> provenance" where
  "event_agent_check claimed_pane claimed_agent directory verdict =
     (case verdict of
        Attested agent_id facts \<Rightarrow>
          (case claimed_agent of
             Some claimed \<Rightarrow> (if claimed \<noteq> agent_id then RefusedBy WrongAgent else verdict)
           | None \<Rightarrow>
               (case claimed_pane of
                  Some pane \<Rightarrow> (if \<not> td_speaks_for directory agent_id pane then RefusedBy Superseded else verdict)
                | None \<Rightarrow> verdict))
      | _ \<Rightarrow> verdict)"

definition classify_event ::
  "string option \<Rightarrow> string option \<Rightarrow> string option \<Rightarrow> token_dir \<Rightarrow> provenance" where
  "classify_event claimed_pane claimed_agent presented directory =
     (case claimed_pane of
        Some pane \<Rightarrow>
          (if \<not> td_pane_issued directory pane then Unattested
           else event_agent_check claimed_pane claimed_agent directory (classify pane presented directory))
      | None \<Rightarrow>
          (case claimed_agent of
             Some agent \<Rightarrow>
               (if td_paneless_issued directory agent
                then event_agent_check claimed_pane claimed_agent directory
                       (classify_paneless agent presented directory)
                else Unattested)
           | None \<Rightarrow> Unattested))"

definition admits_provenance :: "provenance \<Rightarrow> policy \<Rightarrow> hook_refusal + unit" where
  "admits_provenance verdict p =
     (case verdict of
        Attested _ _ \<Rightarrow> Inr ()
      | Unattested \<Rightarrow> Inr ()
      | RefusedBy refusal \<Rightarrow> (if refusal = Missing \<and> p = WarnOnly then Inr () else Inl refusal))"

fun refusal_code :: "hook_refusal \<Rightarrow> string" where
  "refusal_code Malformed = ''malformed_token''"
| "refusal_code UnknownToken = ''unknown_token''"
| "refusal_code (WrongPane _) = ''token_names_another_pane''"
| "refusal_code Missing = ''missing_token''"
| "refusal_code WrongAgent = ''token_names_another_agent''"
| "refusal_code Superseded = ''token_generation_replaced''"

definition token_from_env :: "string option \<Rightarrow> string option" where
  "token_from_env v =
     (case map_option trim v of Some t \<Rightarrow> (if t = [] then None else Some t) | None \<Rightarrow> None)"

section \<open>Minted tokens\<close>

lemma mint_bytes_length: "length random = TOKEN_BYTES \<Longrightarrow> length (mint_bytes random seq) = TOKEN_BYTES"
  by (simp add: mint_bytes_def TOKEN_BYTES_def to_le_bytes_def)

lemma hex_of_byte:
  fixes b :: "8 word"
  shows "length (hex_byte (unat b)) = 2" "list_all is_ascii_hexdigit (hex_byte (unat b))"
proof -
  have "unat b < 256" using unsigned_less[of b] by simp
  then have "unat b div 16 < 16" "unat b mod 16 < 16" by auto
  from this[THEN hex_digit_props(1)] show "list_all is_ascii_hexdigit (hex_byte (unat b))"
    by (auto simp: hex_byte_def is_ascii_hexdigit_def is_lower_hex_def)
qed (simp add: hex_byte_def)

lemma length_concat_pairs: "(\<forall>x \<in> set xs. length (f x) = n) \<Longrightarrow> length (concat (map f xs)) = n * length xs"
  by (induction xs) auto

lemma mint_well_formed: "length random = TOKEN_BYTES \<Longrightarrow> is_well_formed (mint random seq)"
  by (auto simp: is_well_formed_def mint_def TOKEN_LEN_def length_concat_pairs[where n = 2] hex_of_byte mint_bytes_length
      list_all_iff dest: hex_of_byte(2)[unfolded list_all_iff, THEN bspec])

lemma le_bytes_bit:
  assumes "n < 64"
  shows "bit (to_le_bytes seq ! (n div 8)) (n mod 8) = bit seq n"
proof -
  have "n div 8 < 8" using assms by auto
  moreover have "8 * (n div 8) + n mod 8 = n" by simp
  ultimately show ?thesis by (simp add: to_le_bytes_def bit_ucast_iff bit_drop_bit_eq)
qed

lemma le_bytes_inject: "to_le_bytes a = to_le_bytes b \<Longrightarrow> a = b"
proof (rule bit_word_eqI)
  fix n
  assume eq: "to_le_bytes a = to_le_bytes b" and n: "n < LENGTH(64)"
  then have "n < 64" by simp
  from le_bytes_bit[OF this, of a] le_bytes_bit[OF this, of b] eq show "bit a n \<longleftrightarrow> bit b n" by simp
qed


lemma xor_cancel:
  fixes x :: "'a :: len word"
  shows "x XOR y = x XOR z \<longleftrightarrow> y = z" "x XOR y = 0 \<longleftrightarrow> x = y"
  by (metis xor.assoc xor_self_eq xor.left_neutral)+

lemma map2_xor_inject:
  fixes xs ys zs :: "'a :: len word list"
  assumes "length ys = length xs" "length zs = length xs" "map2 (XOR) xs ys = map2 (XOR) xs zs"
  shows "ys = zs"
  using assms
proof (induction xs arbitrary: ys zs)
  case (Cons x xs)
  then obtain y ys' z zs' where c: "ys = y # ys'" "zs = z # zs'" by (metis length_Suc_conv)
  with Cons.prems Cons.IH[of ys' zs'] show ?case by (simp add: xor_cancel)
qed simp

lemma hex_unat_inject:
  fixes a b :: "8 word"
  assumes "hex_byte (unat a) = hex_byte (unat b)"
  shows "a = b"
proof -
  have "unat a < 256" "unat b < 256" using unsigned_less[of a] unsigned_less[of b] by simp_all
  from hex_byte_inject[OF this assms] show ?thesis by (simp only: word_unat_eq_iff)
qed

lemma concat_pairs_inject:
  assumes "\<And>x. length (f x) = 2" "\<And>x y. f x = f y \<Longrightarrow> x = y" "concat (map f xs) = concat (map f ys)"
  shows "xs = ys"
  using assms(3)
proof (induction xs arbitrary: ys)
  case Nil
  then show ?case using assms(1) by (cases ys) (auto, metis list.size(3) zero_neq_numeral)
next
  case (Cons x xs)
  then obtain y ys' where ys: "ys = y # ys'"
    using assms(1)[of x] by (cases ys) auto
  have "f x = f y" "concat (map f xs) = concat (map f ys')"
    using Cons.prems assms(1)[of x] assms(1)[of y] by (simp_all add: ys)
  with Cons.IH assms(2) ys show ?case by blast
qed

text \<open>
  Every minted token is one the gate accepts as well formed, and the counter alone keeps tokens apart:
  even when the operating system hands out the same 32 bytes twice, different counter values give
  different tokens.
\<close>

theorem mint_distinct:
  assumes "length random = TOKEN_BYTES"
  shows "is_well_formed (mint random seq) \<and> (mint random seq = mint random seq' \<longleftrightarrow> seq = seq')"
proof -
  have "seq = seq'" if "mint random seq = mint random seq'"
  proof -
    have "mint_bytes random seq = mint_bytes random seq'"
      using that unfolding mint_def
      by (rule concat_pairs_inject[OF hex_of_byte(1), rotated]) (rule hex_unat_inject)
    then have "map2 (XOR) (drop (TOKEN_BYTES - 8) random) (to_le_bytes seq) =
      map2 (XOR) (drop (TOKEN_BYTES - 8) random) (to_le_bytes seq')"
      by (simp add: mint_bytes_def)
    then have "to_le_bytes seq = to_le_bytes seq'"
      by (rule map2_xor_inject[rotated 2]) (use assms in \<open>simp_all add: to_le_bytes_def TOKEN_BYTES_def\<close>)
    then show ?thesis by (rule le_bytes_inject)
  qed
  with mint_well_formed[OF assms] show ?thesis by blast
qed

lemma tokens_fold:
  "length a = length b \<Longrightarrow>
     foldl (\<lambda>diff (x, y). diff OR (byte8 x XOR byte8 y)) d (zip a b) = 0 \<longleftrightarrow> d = 0 \<and> a = b"
proof (induction a arbitrary: b d)
  case (Cons x a)
  then obtain y b' where b: "b = y # b'" by (metis length_Suc_conv)
  have "byte8 x = byte8 y \<longleftrightarrow> x = y"
  proof
    assume "byte8 x = byte8 y"
    then have "byte_of x mod 256 = byte_of y mod 256"
      unfolding byte8_def by (simp add: word_of_nat_eq_iff take_bit_eq_mod)
    then show "x = y" by simp
  qed simp
  with Cons b show ?case by (auto simp: or_eq_0_iff xor_cancel)
qed auto

lemma tokens_match_iff [simp]: "tokens_match a b \<longleftrightarrow> a = b"
  using tokens_fold[of a b 0] by (auto simp: tokens_match_def)

section \<open>The gate\<close>

lemma classify_Attested:
  "classify pane presented d = Attested a f \<longleftrightarrow>
     (\<exists>token ow. presented = Some token \<and> is_well_formed token \<and> td_owner d token = Some ow
        \<and> to_pane_id ow = Some pane \<and> a = to_agent_id ow \<and> f = to_facts ow)"
  by (auto simp: classify_def split: option.splits if_splits)

lemma classify_paneless_Attested:
  "classify_paneless agent presented d = Attested a f \<longleftrightarrow>
     (\<exists>token ow. presented = Some token \<and> is_well_formed token \<and> td_owner d token = Some ow
        \<and> to_pane_id ow = None \<and> to_agent_id ow = agent \<and> a = agent \<and> f = to_facts ow)"
  by (auto simp: classify_paneless_def split: option.splits if_splits)

lemma event_agent_check_Attested:
  "event_agent_check cp ca d verdict = Attested a f \<longleftrightarrow>
     verdict = Attested a f
     \<and> (case ca of Some claimed \<Rightarrow> claimed = a | None \<Rightarrow> (case cp of Some pane \<Rightarrow> td_speaks_for d a pane | None \<Rightarrow> True))"
  by (auto simp: event_agent_check_def split: provenance.splits option.splits)

lemma admits_Enforce:
  "admits_provenance verdict Enforce = Inr () \<longleftrightarrow> (\<exists>a f. verdict = Attested a f) \<or> verdict = Unattested"
  by (cases verdict) (auto simp: admits_provenance_def)

lemma event_agent_check_Unattested: "event_agent_check cp ca d verdict = Unattested \<longleftrightarrow> verdict = Unattested"
  by (cases verdict) (auto simp: event_agent_check_def split: option.splits)

lemma classify_Unattested: "classify pane presented d = Unattested \<longleftrightarrow> presented = None \<and> \<not> td_pane_issued d pane"
  by (cases presented) (auto simp: classify_def split: option.splits)

text \<open>An issued pane is never left to an unproven message under the strict policy.\<close>

lemma issued_admits_attested:
  assumes "td_pane_issued d pane"
  shows "admits_provenance (classify pane presented d) Enforce = Inr () \<Longrightarrow> \<exists>a f. classify pane presented d = Attested a f"
    "admits_provenance (classify_event (Some pane) agent presented d) Enforce = Inr () \<Longrightarrow>
       \<exists>a f. classify_event (Some pane) agent presented d = Attested a f"
  using assms by (simp_all add: admits_Enforce classify_event_def event_agent_check_Unattested classify_Unattested)

text \<open>The laws a directory of tokens owes the gate: what owns a token was issued one.\<close>

locale token_directory =
  fixes ok :: "'s \<Rightarrow> bool"
    and dir :: "'s \<Rightarrow> token_dir"
  assumes owner_pane_issued:
      "ok s \<Longrightarrow> td_owner (dir s) token = Some ow \<Longrightarrow> to_pane_id ow = Some pane \<Longrightarrow> td_pane_issued (dir s) pane"
    and owner_paneless_issued:
      "ok s \<Longrightarrow> td_owner (dir s) token = Some ow \<Longrightarrow> to_pane_id ow = None \<Longrightarrow> td_paneless_issued (dir s) (to_agent_id ow)"
begin

text \<open>The one way an event is attested: a token of the very spawn it names, on that spawn's pane.\<close>

lemma event_attested_iff:
  assumes "ok s"
  shows "classify_event cp ca presented (dir s) = Attested a f \<longleftrightarrow>
     (\<exists>token ow. presented = Some token \<and> is_well_formed token \<and> td_owner (dir s) token = Some ow
        \<and> to_pane_id ow = cp \<and> a = to_agent_id ow \<and> f = to_facts ow
        \<and> (case ca of Some claimed \<Rightarrow> claimed = a
           | None \<Rightarrow> (case cp of Some pane \<Rightarrow> td_speaks_for (dir s) a pane | None \<Rightarrow> False)))"
proof (cases cp)
  case (Some pane)
  have issued: "td_pane_issued (dir s) pane" if "td_owner (dir s) token = Some ow" "to_pane_id ow = Some pane" for token ow
    using owner_pane_issued[OF assms that] .
  have "classify_event cp ca presented (dir s) = Attested a f \<longleftrightarrow>
      td_pane_issued (dir s) pane \<and> classify pane presented (dir s) = Attested a f
      \<and> (case ca of Some claimed \<Rightarrow> claimed = a | None \<Rightarrow> td_speaks_for (dir s) a pane)"
    by (cases ca) (simp_all add: Some classify_event_def event_agent_check_Attested)
  with issued show ?thesis unfolding classify_Attested Some option.case by blast
next
  case None
  have issued: "td_paneless_issued (dir s) (to_agent_id ow)" if "td_owner (dir s) token = Some ow" "to_pane_id ow = None" for token ow
    using owner_paneless_issued[OF assms that] .
  show ?thesis
  proof (cases ca)
    case (Some agent)
    have "classify_event cp ca presented (dir s) = Attested a f \<longleftrightarrow>
        td_paneless_issued (dir s) agent \<and> classify_paneless agent presented (dir s) = Attested a f \<and> agent = a"
      by (auto simp: None Some classify_event_def event_agent_check_Attested)
    with issued show ?thesis unfolding classify_paneless_Attested None Some option.case by blast
  qed (simp add: None classify_event_def)
qed

lemma own_event_attested:
  assumes "ok s" "td_owner (dir s) token = Some ow" "is_well_formed token"
  shows "classify_event (to_pane_id ow) (Some (to_agent_id ow)) (Some token) (dir s) = Attested (to_agent_id ow) (to_facts ow)"
  using event_attested_iff[OF assms(1)] assms by simp

end

end
