(* ===== verification/Spawn_Registry.thy ===== *)
theory Spawn_Registry
  imports Hook_Provenance "HOL-Library.AList"
begin

text \<open>
  Which spawn holds which pane: the part of the agent registry, \<^verbatim>\<open>src/src/agent_pty.rs\<close>, that reserves a
  pane and a token before a child is forked, publishes the child's record, gives a failed reservation up,
  retires and removes records, and answers who may speak for a pane.

  Each operation is one hold of the registry's lock. Tables are association lists, in the order a hash
  table happens to give. Agent ids are the decimal text of a counter that only grows; it is 64 bits wide
  in the source.
\<close>

section \<open>State\<close>

record running_agent =
  ra_pane :: "string option"
  ra_token :: string
  ra_facts :: attest_facts
  ra_exited :: bool
  ra_handed_over :: bool

record registry =
  rg_next_id :: nat
  rg_agents :: "(string \<times> running_agent) list"
  rg_hook_token_panes :: "string set"
  rg_paneless_agents :: "string set"
  rg_pane_generations :: "string \<Rightarrow> string set"
  rg_pending_spawns :: "(string \<times> string option) list"
  rg_pending_hook_tokens :: "(string \<times> string) list"
  rg_pending_facts :: "(string \<times> attest_facts) list"
  rg_cleanup_holds :: "string set"

definition registry_new :: registry where
  "registry_new =
     \<lparr>rg_next_id = 1, rg_agents = [], rg_hook_token_panes = {}, rg_paneless_agents = {}, rg_pane_generations = (\<lambda>_. {}),
      rg_pending_spawns = [], rg_pending_hook_tokens = [], rg_pending_facts = [], rg_cleanup_holds = {}\<rparr>"

definition INSTANCE_CLOSING_REASON :: string where
  "INSTANCE_CLOSING_REASON = ''the orchestration is being closed; no new pane may join it''"

text \<open>The errors these operations return.\<close>

datatype pty_error = SpawnError string | DirBeingRemoved string | DuplicatePaneId string | NotFound string

section \<open>Reserving a spawn\<close>

definition live_on :: "string \<Rightarrow> string \<times> running_agent \<Rightarrow> bool" where
  "live_on pane e \<longleftrightarrow> ra_pane (snd e) = Some pane \<and> \<not> ra_exited (snd e)"

definition pane_taken :: "string \<Rightarrow> registry \<Rightarrow> bool" where
  "pane_taken pane rg \<longleftrightarrow>
     pane \<in> rg_cleanup_holds rg
     \<or> list_ex (\<lambda>e. snd e = Some pane) (rg_pending_spawns rg)
     \<or> list_ex (live_on pane) (rg_agents rg)"

text \<open>An origin that contradicts another generation of the same instance is recorded as a conflict.\<close>

definition seat_origins :: "string \<Rightarrow> registry \<Rightarrow> instance_origin list" where
  "seat_origins inst rg =
     List.map_filter (\<lambda>facts. case af_seat facts of
         Some other \<Rightarrow> (if se_instance other = inst then se_origin other else None)
       | None \<Rightarrow> None)
       (map (\<lambda>e. ra_facts (snd e)) (filter (\<lambda>e. \<not> ra_exited (snd e)) (rg_agents rg)) @ map snd (rg_pending_facts rg))"

definition settled_seat :: "seat \<Rightarrow> registry \<Rightarrow> seat" where
  "settled_seat s rg =
     (case se_origin s of
        None \<Rightarrow> s
      | Some origin \<Rightarrow>
          (case find (\<lambda>other. other \<noteq> origin) (seat_origins (se_instance s) rg) of
             Some _ \<Rightarrow> s\<lparr>se_origin := Some Conflict\<rparr>
           | None \<Rightarrow> s))"

text \<open>
  \<open>join_refused\<close>: the orchestration instance the spawn would join is being closed; \<open>held_dir\<close>: the first
  of its working directories a removal holds.
\<close>

definition reserve_spawn ::
  "string option \<Rightarrow> string \<Rightarrow> bool \<Rightarrow> string option \<Rightarrow> seat option \<Rightarrow> nat option \<Rightarrow> registry
   \<Rightarrow> pty_error + (string \<times> registry)" where
  "reserve_spawn pane token join_refused held_dir s replacement rg =
     (if join_refused then Inl (SpawnError INSTANCE_CLOSING_REASON)
      else case held_dir of
        Some dir \<Rightarrow> Inl (DirBeingRemoved dir)
      | None \<Rightarrow>
          (if (case pane of Some candidate \<Rightarrow> pane_taken candidate rg | None \<Rightarrow> False)
           then Inl (DuplicatePaneId (the pane))
           else
             let i = nat_string (rg_next_id rg);
                 facts = \<lparr>af_seat = map_option (\<lambda>s. settled_seat s rg) s, af_unit = None, af_replacement_of = replacement\<rparr>
             in Inr (i,
                  rg\<lparr>rg_next_id := rg_next_id rg + 1,
                     rg_pending_spawns := AList.update i pane (rg_pending_spawns rg),
                     rg_pending_hook_tokens := AList.update i token (rg_pending_hook_tokens rg),
                     rg_pending_facts := AList.update i facts (rg_pending_facts rg),
                     rg_hook_token_panes :=
                       (case pane of Some p \<Rightarrow> insert p (rg_hook_token_panes rg) | None \<Rightarrow> rg_hook_token_panes rg),
                     rg_paneless_agents :=
                       (case pane of Some _ \<Rightarrow> rg_paneless_agents rg | None \<Rightarrow> insert i (rg_paneless_agents rg))\<rparr>)))"

definition give_up :: "string \<Rightarrow> registry \<Rightarrow> registry" where
  "give_up i rg =
     rg\<lparr>rg_pending_spawns := AList.delete i (rg_pending_spawns rg),
        rg_pending_hook_tokens := AList.delete i (rg_pending_hook_tokens rg),
        rg_pending_facts := AList.delete i (rg_pending_facts rg)\<rparr>"

section \<open>Publishing and retiring\<close>

definition hand_over :: "string option \<Rightarrow> (string \<times> running_agent) list \<Rightarrow> (string \<times> running_agent) list" where
  "hand_over pane agents =
     (case pane of
        None \<Rightarrow> agents
      | Some claimed \<Rightarrow>
          map (\<lambda>(i, a). (i, if ra_pane a = Some claimed then a\<lparr>ra_handed_over := True\<rparr> else a)) agents)"

text \<open>
  The part of a spawn after the fork, in one hold of the lock. \<open>refused\<close>: the first of the checks that
  stops it, when the registry shuts down, its admission is frozen for a restart, or the instance is being
  closed. A frozen admission returns with the reservation still in the tables; dropping the reservation
  gives it up in a hold of its own. \<open>pane\<close> and \<open>token\<close> are those of the reservation.
\<close>

datatype publish_stop = ShuttingDown | AdmissionFrozen | InstanceClosing

definition ADMISSION_FROZEN_REASON :: string where
  "ADMISSION_FROZEN_REASON = ''the daemon is restarting; start the agent again once it is back''"

fun stop_reason :: "publish_stop \<Rightarrow> string" where
  "stop_reason ShuttingDown = ''registry is shutting down''"
| "stop_reason AdmissionFrozen = ADMISSION_FROZEN_REASON"
| "stop_reason InstanceClosing = INSTANCE_CLOSING_REASON"

text \<open>The record goes in, and the pane's generation history learns it.\<close>

definition insert_record :: "string \<Rightarrow> running_agent \<Rightarrow> registry \<Rightarrow> registry" where
  "insert_record i agent rg =
     rg\<lparr>rg_pane_generations :=
          (case ra_pane agent of
             Some p \<Rightarrow> (rg_pane_generations rg)(p := insert i (rg_pane_generations rg p))
           | None \<Rightarrow> rg_pane_generations rg),
        rg_agents := AList.update i agent (rg_agents rg)\<rparr>"

definition publish_spawn ::
  "string \<Rightarrow> string option \<Rightarrow> string \<Rightarrow> publish_stop option \<Rightarrow> registry \<Rightarrow> registry \<times> (pty_error + unit)" where
  "publish_spawn i pane token refused rg =
     (if refused \<noteq> None
      then (if refused = Some AdmissionFrozen then rg else give_up i rg, Inl (SpawnError (stop_reason (the refused))))
      else if (case pane of Some candidate \<Rightarrow> list_ex (live_on candidate) (rg_agents rg) | None \<Rightarrow> False)
        then (give_up i rg, Inl (DuplicatePaneId (the pane)))
      else
        let facts = (case map_of (rg_pending_facts rg) i of Some f \<Rightarrow> f | None \<Rightarrow> attest_facts_default);
            rg1 = give_up i rg;
            agent = \<lparr>ra_pane = pane, ra_token = token, ra_facts = facts, ra_exited = False, ra_handed_over = False\<rparr>
        in (insert_record i agent (rg1\<lparr>rg_agents := hand_over pane (rg_agents rg1)\<rparr>), Inr ()))"

text \<open>The reader saw the child's end; a close, a respawn or a shutdown removes the record.\<close>

definition mark_exited :: "string \<Rightarrow> registry \<Rightarrow> registry" where
  "mark_exited i rg =
     rg\<lparr>rg_agents := map (\<lambda>(j, a). (j, if j = i then a\<lparr>ra_exited := True\<rparr> else a)) (rg_agents rg)\<rparr>"

definition remove_record :: "string \<Rightarrow> registry \<Rightarrow> pty_error + registry" where
  "remove_record i rg =
     (if map_of (rg_agents rg) i = None then Inl (NotFound i)
      else Inr (rg\<lparr>rg_agents := AList.delete i (rg_agents rg)\<rparr>))"

definition drain_records :: "registry \<Rightarrow> registry" where
  "drain_records rg = rg\<lparr>rg_agents := []\<rparr>"

text \<open>A dispatched unit is pinned on the facts of its terminal, once.\<close>

definition pin_facts :: "string \<Rightarrow> attest_facts \<Rightarrow> attest_facts" where
  "pin_facts unit facts = (if af_unit facts = None then facts\<lparr>af_unit := Some unit\<rparr> else facts)"

definition pin_unit :: "string \<Rightarrow> string \<Rightarrow> nat option \<Rightarrow> registry \<Rightarrow> registry \<times> bool" where
  "pin_unit i unit ticket rg =
     (case map_of (rg_agents rg) i of
        Some a \<Rightarrow>
          (if ticket \<noteq> None \<and> af_replacement_of (ra_facts a) \<noteq> ticket then (rg, False)
           else (rg\<lparr>rg_agents := AList.update i (a\<lparr>ra_facts := pin_facts unit (ra_facts a)\<rparr>) (rg_agents rg)\<rparr>, True))
      | None \<Rightarrow>
          (case map_of (rg_pending_facts rg) i of
             Some facts \<Rightarrow>
               (if ticket \<noteq> None \<and> af_replacement_of facts \<noteq> ticket then (rg, False)
                else (rg\<lparr>rg_pending_facts := AList.update i (pin_facts unit facts) (rg_pending_facts rg)\<rparr>, True))
           | None \<Rightarrow> (rg, False)))"

section \<open>Who may speak for a pane\<close>

definition pane_claimed_by_other :: "string \<Rightarrow> string \<Rightarrow> registry \<Rightarrow> bool" where
  "pane_claimed_by_other pane excluded rg \<longleftrightarrow>
     list_ex (\<lambda>e. fst e \<noteq> excluded \<and> live_on pane e) (rg_agents rg)
     \<or> list_ex (\<lambda>e. fst e \<noteq> excluded \<and> snd e = Some pane) (rg_pending_spawns rg)"

definition generation_speaks_for_pane :: "string \<Rightarrow> running_agent \<Rightarrow> string \<Rightarrow> registry \<Rightarrow> bool" where
  "generation_speaks_for_pane i a pane rg \<longleftrightarrow>
     \<not> ra_exited a \<or> \<not> (ra_handed_over a \<or> pane_claimed_by_other pane i rg)"

text \<open>The lock is taken to be sound, so the answer is never the source's \<^verbatim>\<open>Unknown\<close>.\<close>

datatype ownership = Owned | Unclaimed

definition generation_ownership :: "string option \<Rightarrow> string option \<Rightarrow> registry \<Rightarrow> ownership" where
  "generation_ownership pane_id agent_id rg =
     (case (pane_id, agent_id) of
        (Some pane, Some agent) \<Rightarrow>
          (if map_of (rg_pending_spawns rg) agent = Some (Some pane) then Owned
           else case map_of (rg_agents rg) agent of
             Some a \<Rightarrow>
               (if ra_pane a = Some pane \<and> generation_speaks_for_pane agent a pane rg then Owned else Unclaimed)
           | None \<Rightarrow> Unclaimed)
      | (Some pane, None) \<Rightarrow>
          (if list_ex (\<lambda>e. snd e = Some pane) (rg_pending_spawns rg)
              \<or> list_ex (\<lambda>(i, a). ra_pane a = Some pane \<and> generation_speaks_for_pane i a pane rg) (rg_agents rg)
           then Owned else Unclaimed)
      | (None, Some agent) \<Rightarrow>
          (if map_of (rg_pending_spawns rg) agent = Some None
              \<or> (case map_of (rg_agents rg) agent of Some a \<Rightarrow> ra_pane a = None | None \<Rightarrow> False)
           then Owned else Unclaimed)
      | (None, None) \<Rightarrow> Unclaimed)"

datatype generation_verdict = CurrentGeneration | Displaced

definition current_generation :: "string \<Rightarrow> registry \<Rightarrow> string option" where
  "current_generation pane rg =
     (case find (\<lambda>e. snd e = Some pane) (rg_pending_spawns rg) of
        Some e \<Rightarrow> Some (fst e)
      | None \<Rightarrow>
          map_option fst (find (\<lambda>e. ra_pane (snd e) = Some pane \<and> \<not> ra_handed_over (snd e)) (rg_agents rg)))"

definition pane_generation_verdict :: "string \<Rightarrow> string \<Rightarrow> registry \<Rightarrow> generation_verdict option" where
  "pane_generation_verdict pane agent rg =
     (case current_generation pane rg of
        None \<Rightarrow> None
      | Some current \<Rightarrow>
          (if current = agent then Some CurrentGeneration
           else if agent \<in> rg_pane_generations rg pane then Some Displaced else None))"

definition pane_current_agent_id :: "string \<Rightarrow> registry \<Rightarrow> string option" where
  "pane_current_agent_id pane rg = map_option fst (find (live_on pane) (rg_agents rg))"

text \<open>The claim of a stopping agent's cleanup on its pane: no other generation may take it meanwhile.\<close>

definition hold_pane_for_cleanup :: "string \<Rightarrow> string \<Rightarrow> registry \<Rightarrow> registry \<times> bool" where
  "hold_pane_for_cleanup pane stopping rg =
     (if pane_claimed_by_other pane stopping rg \<or> pane \<in> rg_cleanup_holds rg then (rg, False)
      else (rg\<lparr>rg_cleanup_holds := insert pane (rg_cleanup_holds rg)\<rparr>, True))"

definition release_cleanup_hold :: "string \<Rightarrow> registry \<Rightarrow> registry" where
  "release_cleanup_hold pane rg = rg\<lparr>rg_cleanup_holds := rg_cleanup_holds rg - {pane}\<rparr>"

section \<open>The directory of tokens\<close>

definition owner_of_hook_token :: "string \<Rightarrow> registry \<Rightarrow> token_owner option" where
  "owner_of_hook_token token rg =
     (case find (\<lambda>(i, a). tokens_match (ra_token a) token) (rg_agents rg) of
        Some (i, a) \<Rightarrow> Some \<lparr>to_agent_id = i, to_pane_id = ra_pane a, to_facts = ra_facts a\<rparr>
      | None \<Rightarrow>
          (case find (\<lambda>(i, minted). tokens_match minted token) (rg_pending_hook_tokens rg) of
             Some (i, _) \<Rightarrow>
               map_option (\<lambda>pane. \<lparr>to_agent_id = i, to_pane_id = pane,
                   to_facts = (case map_of (rg_pending_facts rg) i of Some f \<Rightarrow> f | None \<Rightarrow> attest_facts_default)\<rparr>)
                 (map_of (rg_pending_spawns rg) i)
           | None \<Rightarrow> None))"

definition token_dir_of :: "registry \<Rightarrow> token_dir" where
  "token_dir_of rg =
     \<lparr>td_owner = (\<lambda>token. owner_of_hook_token token rg),
      td_pane_issued = (\<lambda>pane. pane \<in> rg_hook_token_panes rg),
      td_paneless_issued = (\<lambda>agent. agent \<in> rg_paneless_agents rg),
      td_speaks_for = (\<lambda>agent pane. generation_ownership (Some pane) (Some agent) rg = Owned)\<rparr>"

end
