(* ===== verification/Registry_Inv.thy ===== *)
theory Registry_Inv
  imports Spawn_Registry
begin

text \<open>
  The registry over time, with every token it ever handed to a spawn, and the invariant all its
  operations keep: which ids and tokens the tables hold, and that a pane has at most one claimant.
\<close>

section \<open>Steps\<close>

text \<open>\<open>sw_minted\<close> lists the reservations ever made: the token, the id and the pane.\<close>

record spawn_world =
  sw_registry :: registry
  sw_minted :: "(string \<times> string \<times> string option) list"

definition spawn_world_new :: spawn_world where
  "spawn_world_new = \<lparr>sw_registry = registry_new, sw_minted = []\<rparr>"

text \<open>
  A minted token is new: 256 bits of the operating system's randomness and a counter. A spawn publishes
  what it reserved; it may give up at any point before. Everything else may happen at any time.
\<close>

inductive spawn_step :: "spawn_world \<Rightarrow> spawn_world \<Rightarrow> bool" where
  ss_reserve: "spawn_step w \<lparr>sw_registry = rg, sw_minted = sw_minted w @ [(token, i, pane)]\<rparr>"
    if "reserve_spawn pane token join_refused held_dir s replacement (sw_registry w) = Inr (i, rg)"
       "token \<notin> fst ` set (sw_minted w)"
| ss_publish: "spawn_step w (w\<lparr>sw_registry := fst (publish_spawn i pane token refused (sw_registry w))\<rparr>)"
    if "map_of (rg_pending_spawns (sw_registry w)) i = Some pane" "map_of (rg_pending_hook_tokens (sw_registry w)) i = Some token"
| ss_give_up: "spawn_step w (w\<lparr>sw_registry := give_up i (sw_registry w)\<rparr>)"
| ss_exit: "spawn_step w (w\<lparr>sw_registry := mark_exited i (sw_registry w)\<rparr>)"
| ss_remove: "spawn_step w (w\<lparr>sw_registry := rg\<rparr>)" if "remove_record i (sw_registry w) = Inr rg"
| ss_drain: "spawn_step w (w\<lparr>sw_registry := drain_records (sw_registry w)\<rparr>)"
| ss_pin: "spawn_step w (w\<lparr>sw_registry := fst (pin_unit i unit ticket (sw_registry w))\<rparr>)"
| ss_hold: "spawn_step w (w\<lparr>sw_registry := fst (hold_pane_for_cleanup p i (sw_registry w))\<rparr>)"
| ss_release: "spawn_step w (w\<lparr>sw_registry := release_cleanup_hold p (sw_registry w)\<rparr>)"

section \<open>What each operation does to the tables\<close>

abbreviation agents_of :: "registry \<Rightarrow> string \<Rightarrow> running_agent option" where
  "agents_of rg \<equiv> map_of (rg_agents rg)"

abbreviation pending_of :: "registry \<Rightarrow> string \<Rightarrow> string option option" where
  "pending_of rg \<equiv> map_of (rg_pending_spawns rg)"

abbreviation tokens_of :: "registry \<Rightarrow> string \<Rightarrow> string option" where
  "tokens_of rg \<equiv> map_of (rg_pending_hook_tokens rg)"

lemma map_of_map_keyed: "map_of (map (\<lambda>(k, v). (k, f k v)) xs) k = map_option (f k) (map_of xs k)"
  by (induction xs) auto

lemma keys_map_keyed: "map (fst \<circ> (\<lambda>(k, v). (k, f k v))) xs = map fst xs"
  by (induction xs) auto

definition keys_distinct :: "registry \<Rightarrow> bool" where
  "keys_distinct rg \<longleftrightarrow>
     distinct (map fst (rg_agents rg)) \<and> distinct (map fst (rg_pending_spawns rg))
     \<and> distinct (map fst (rg_pending_hook_tokens rg))"

lemma reserve_effect:
  assumes "reserve_spawn pane token join_refused held_dir s replacement rg = Inr (i, rg')"
  shows "i = nat_string (rg_next_id rg)" "rg_next_id rg' = rg_next_id rg + 1" "agents_of rg' = agents_of rg"
    "pending_of rg' = (pending_of rg)(i \<mapsto> pane)" "tokens_of rg' = (tokens_of rg)(i \<mapsto> token)"
    "rg_hook_token_panes rg' = rg_hook_token_panes rg \<union> set_option pane"
    "rg_paneless_agents rg' = rg_paneless_agents rg \<union> (if pane = None then {i} else {})"
    "rg_pane_generations rg' = rg_pane_generations rg"
    "pane = Some p \<Longrightarrow> \<not> pane_taken p rg" "keys_distinct rg \<Longrightarrow> keys_distinct rg'"
  using assms
  by (auto simp: reserve_spawn_def Let_def update_conv' keys_distinct_def distinct_update split: if_splits option.splits)

lemma give_up_effect:
  "rg_next_id (give_up i rg) = rg_next_id rg" "agents_of (give_up i rg) = agents_of rg"
  "pending_of (give_up i rg) = (pending_of rg)(i := None)" "tokens_of (give_up i rg) = (tokens_of rg)(i := None)"
  "rg_hook_token_panes (give_up i rg) = rg_hook_token_panes rg" "rg_paneless_agents (give_up i rg) = rg_paneless_agents rg"
  "rg_pane_generations (give_up i rg) = rg_pane_generations rg" "keys_distinct rg \<Longrightarrow> keys_distinct (give_up i rg)"
  by (simp_all add: give_up_def delete_conv' keys_distinct_def distinct_delete)

definition handed :: "string option \<Rightarrow> running_agent \<Rightarrow> running_agent" where
  "handed pane a = (if pane \<noteq> None \<and> ra_pane a = pane then a\<lparr>ra_handed_over := True\<rparr> else a)"

lemma hand_over_map: "map_of (hand_over pane agents) = map_option (handed pane) \<circ> map_of agents"
proof
  fix x
  show "map_of (hand_over pane agents) x = (map_option (handed pane) \<circ> map_of agents) x"
    by (cases pane; cases "map_of agents x") (auto simp: hand_over_def handed_def map_of_map_keyed)
qed

lemma hand_over_keys: "map fst (hand_over pane agents) = map fst agents"
  by (cases pane) (auto simp: hand_over_def keys_map_keyed)

text \<open>A publication that is refused at most gives the reservation up.\<close>

lemma publish_cases:
  obtains "fst (publish_spawn i pane token refused rg) = rg \<or> fst (publish_spawn i pane token refused rg) = give_up i rg" "snd (publish_spawn i pane token refused rg) \<noteq> Inr ()"
  | facts where "rg_next_id (fst (publish_spawn i pane token refused rg)) = rg_next_id rg"
      "agents_of (fst (publish_spawn i pane token refused rg)) = (map_option (handed pane) \<circ> agents_of rg)
         (i \<mapsto> \<lparr>ra_pane = pane, ra_token = token, ra_facts = facts, ra_exited = False, ra_handed_over = False\<rparr>)"
      "pending_of (fst (publish_spawn i pane token refused rg)) = (pending_of rg)(i := None)"
      "tokens_of (fst (publish_spawn i pane token refused rg)) = (tokens_of rg)(i := None)"
      "rg_hook_token_panes (fst (publish_spawn i pane token refused rg)) = rg_hook_token_panes rg"
      "rg_paneless_agents (fst (publish_spawn i pane token refused rg)) = rg_paneless_agents rg"
      "rg_pane_generations (fst (publish_spawn i pane token refused rg)) =
         (\<lambda>p. if pane = Some p then insert i (rg_pane_generations rg p) else rg_pane_generations rg p)"
      "\<forall>p. pane = Some p \<longrightarrow> \<not> list_ex (live_on p) (rg_agents rg)"
      "keys_distinct rg \<longrightarrow> keys_distinct (fst (publish_spawn i pane token refused rg))"
      "snd (publish_spawn i pane token refused rg) = Inr ()"
proof (cases "refused \<noteq> None \<or> (case pane of Some candidate \<Rightarrow> list_ex (live_on candidate) (rg_agents rg) | None \<Rightarrow> False)")
  case True
  then show thesis by (intro that(1)) (auto simp: publish_spawn_def)
next
  case False
  define facts where "facts = (case map_of (rg_pending_facts rg) i of Some f \<Rightarrow> f | None \<Rightarrow> attest_facts_default)"
  define agent where "agent = \<lparr>ra_pane = pane, ra_token = token, ra_facts = facts, ra_exited = False, ra_handed_over = False\<rparr>"
  have p: "publish_spawn i pane token refused rg = ((give_up i rg)\<lparr>rg_agents := AList.update i agent (hand_over pane (rg_agents rg)),
                rg_pane_generations :=
                  (case pane of
                     Some p \<Rightarrow> (rg_pane_generations rg)(p := insert i (rg_pane_generations rg p))
                   | None \<Rightarrow> rg_pane_generations rg)\<rparr>, Inr ())"
    using False by (cases pane) (simp_all add: publish_spawn_def insert_record_def Let_def facts_def[symmetric] agent_def give_up_def)
  show thesis
  proof (rule that(2)[of facts])
    show "keys_distinct rg \<longrightarrow> keys_distinct (fst (publish_spawn i pane token refused rg))"
      by (auto simp: p keys_distinct_def distinct_update hand_over_keys give_up_def distinct_delete)
    show "\<forall>p. pane = Some p \<longrightarrow> \<not> list_ex (live_on p) (rg_agents rg)" using False by auto
    show "rg_pane_generations (fst (publish_spawn i pane token refused rg)) =
         (\<lambda>p. if pane = Some p then insert i (rg_pane_generations rg p) else rg_pane_generations rg p)"
      by (auto simp: p fun_eq_iff split: option.splits)
  qed (simp_all add: p update_conv' hand_over_map agent_def give_up_effect[simplified give_up_def] give_up_def delete_conv')
qed

lemma exit_effect:
  "rg_next_id (mark_exited i rg) = rg_next_id rg"
  "agents_of (mark_exited i rg) j = map_option (\<lambda>a. if j = i then a\<lparr>ra_exited := True\<rparr> else a) (agents_of rg j)"
  "rg_pending_spawns (mark_exited i rg) = rg_pending_spawns rg" "rg_pending_hook_tokens (mark_exited i rg) = rg_pending_hook_tokens rg"
  "rg_hook_token_panes (mark_exited i rg) = rg_hook_token_panes rg" "rg_paneless_agents (mark_exited i rg) = rg_paneless_agents rg"
  "rg_pane_generations (mark_exited i rg) = rg_pane_generations rg" "keys_distinct rg \<Longrightarrow> keys_distinct (mark_exited i rg)"
  by (simp_all add: mark_exited_def map_of_map_keyed keys_map_keyed keys_distinct_def)

lemma pin_effect:
  "rg_next_id (fst (pin_unit i unit ticket rg)) = rg_next_id rg"
  "\<exists>f. agents_of (fst (pin_unit i unit ticket rg)) = (\<lambda>j. map_option (\<lambda>a. a\<lparr>ra_facts := f j a\<rparr>) (agents_of rg j))"
  "rg_pending_spawns (fst (pin_unit i unit ticket rg)) = rg_pending_spawns rg"
  "rg_pending_hook_tokens (fst (pin_unit i unit ticket rg)) = rg_pending_hook_tokens rg"
  "rg_hook_token_panes (fst (pin_unit i unit ticket rg)) = rg_hook_token_panes rg"
  "rg_paneless_agents (fst (pin_unit i unit ticket rg)) = rg_paneless_agents rg"
  "rg_pane_generations (fst (pin_unit i unit ticket rg)) = rg_pane_generations rg"
  "keys_distinct rg \<Longrightarrow> keys_distinct (fst (pin_unit i unit ticket rg))"
proof -
  have same: "\<exists>f. agents_of rg = (\<lambda>j. map_option (\<lambda>a. a\<lparr>ra_facts := f j a\<rparr>) (agents_of rg j))"
    by (rule exI[of _ "\<lambda>_. ra_facts"]) (simp add: option.map_ident)
  show "\<exists>f. agents_of (fst (pin_unit i unit ticket rg)) = (\<lambda>j. map_option (\<lambda>a. a\<lparr>ra_facts := f j a\<rparr>) (agents_of rg j))"
  proof (cases "agents_of rg i")
    case None
    then show ?thesis using same by (auto simp: pin_unit_def split: option.split)
  next
    case (Some a)
    define f where "f = (\<lambda>j (a :: running_agent). if j = i \<and> \<not> (ticket \<noteq> None \<and> af_replacement_of (ra_facts a) \<noteq> ticket)
             then pin_facts unit (ra_facts a) else ra_facts a)"
    have "agents_of (fst (pin_unit i unit ticket rg)) j = map_option (\<lambda>a. a\<lparr>ra_facts := f j a\<rparr>) (agents_of rg j)" for j
      using Some by (cases "j = i"; cases "agents_of rg j") (auto simp: pin_unit_def update_conv' f_def)
    then show ?thesis by blast
  qed
qed (auto simp: pin_unit_def keys_distinct_def distinct_update split: option.split)

section \<open>The invariant\<close>

lemma list_ex_agents:
  "keys_distinct rg \<Longrightarrow> list_ex (\<lambda>e. P (fst e) (snd e)) (rg_agents rg) \<longleftrightarrow> (\<exists>i a. agents_of rg i = Some a \<and> P i a)"
  "keys_distinct rg \<Longrightarrow> list_ex (\<lambda>e. Q (fst e) (snd e)) (rg_pending_spawns rg) \<longleftrightarrow> (\<exists>i p. pending_of rg i = Some p \<and> Q i p)"
  by (auto simp: keys_distinct_def list_ex_iff map_of_eq_Some_iff Bex_def)

text \<open>A claim on a pane is a live agent on it or a reservation of it; a holder is its newest record.\<close>

definition claims :: "registry \<Rightarrow> string \<Rightarrow> string \<Rightarrow> bool" where
  "claims rg p i \<longleftrightarrow>
     (\<exists>a. agents_of rg i = Some a \<and> ra_pane a = Some p \<and> \<not> ra_exited a) \<or> pending_of rg i = Some (Some p)"

definition holds_pane :: "registry \<Rightarrow> string \<Rightarrow> string \<Rightarrow> bool" where
  "holds_pane rg p i \<longleftrightarrow> (\<exists>a. agents_of rg i = Some a \<and> ra_pane a = Some p \<and> \<not> ra_handed_over a)"

definition tables_ok :: "registry \<Rightarrow> bool" where
  "tables_ok rg \<longleftrightarrow>
     keys_distinct rg \<and> dom (tokens_of rg) = dom (pending_of rg) \<and> dom (agents_of rg) \<inter> dom (pending_of rg) = {}"

definition minted_ok :: "spawn_world \<Rightarrow> bool" where
  "minted_ok w \<longleftrightarrow>
     distinct (map fst (sw_minted w)) \<and> distinct (map (fst \<circ> snd) (sw_minted w))
     \<and> (\<forall>t i p. (t, i, p) \<in> set (sw_minted w) \<longrightarrow>
          (\<exists>n < rg_next_id (sw_registry w). i = nat_string n)
          \<and> (\<forall>pane. p = Some pane \<longrightarrow> pane \<in> rg_hook_token_panes (sw_registry w))
          \<and> (p = None \<longrightarrow> i \<in> rg_paneless_agents (sw_registry w)))"

definition recorded_ok :: "spawn_world \<Rightarrow> bool" where
  "recorded_ok w \<longleftrightarrow>
     (\<forall>i a. agents_of (sw_registry w) i = Some a \<longrightarrow> (ra_token a, i, ra_pane a) \<in> set (sw_minted w))
     \<and> (\<forall>i p t. pending_of (sw_registry w) i = Some p \<longrightarrow> tokens_of (sw_registry w) i = Some t \<longrightarrow> (t, i, p) \<in> set (sw_minted w))"

definition panes_ok :: "registry \<Rightarrow> bool" where
  "panes_ok rg \<longleftrightarrow>
     (\<forall>p i j. claims rg p i \<longrightarrow> claims rg p j \<longrightarrow> i = j)
     \<and> (\<forall>p i j. holds_pane rg p i \<longrightarrow> holds_pane rg p j \<longrightarrow> i = j)
     \<and> (\<forall>i a. agents_of rg i = Some a \<longrightarrow> \<not> ra_exited a \<longrightarrow> \<not> ra_handed_over a)
     \<and> (\<forall>i a p. agents_of rg i = Some a \<longrightarrow> ra_pane a = Some p \<longrightarrow> i \<in> rg_pane_generations rg p)"

definition spawns_ok :: "spawn_world \<Rightarrow> bool" where
  "spawns_ok w \<longleftrightarrow> tables_ok (sw_registry w) \<and> minted_ok w \<and> recorded_ok w \<and> panes_ok (sw_registry w)"

lemma spawns_ok_new: "spawns_ok spawn_world_new"
  by (simp add: spawns_ok_def tables_ok_def minted_ok_def recorded_ok_def panes_ok_def keys_distinct_def spawn_world_new_def
      registry_new_def claims_def holds_pane_def)

lemma fresh_id:
  assumes "spawns_ok w"
  shows "nat_string (rg_next_id (sw_registry w)) \<notin> (fst \<circ> snd) ` set (sw_minted w)"
    "agents_of (sw_registry w) (nat_string (rg_next_id (sw_registry w))) = None"
    "pending_of (sw_registry w) (nat_string (rg_next_id (sw_registry w))) = None"
    "tokens_of (sw_registry w) (nat_string (rg_next_id (sw_registry w))) = None"
proof -
  let ?rg = "sw_registry w" and ?i = "nat_string (rg_next_id (sw_registry w))"
  from assms have m: "minted_ok w" and r: "recorded_ok w" and t: "tables_ok ?rg" by (simp_all add: spawns_ok_def)
  show "?i \<notin> (fst \<circ> snd) ` set (sw_minted w)"
  proof
    assume "?i \<in> (fst \<circ> snd) ` set (sw_minted w)"
    then obtain tok p where "(tok, ?i, p) \<in> set (sw_minted w)" by auto
    with m obtain n where "n < rg_next_id ?rg" "?i = nat_string n" unfolding minted_ok_def by blast
    then show False by simp
  qed
  then have "(tok, ?i, p) \<notin> set (sw_minted w)" for tok p by force
  note new = this
  show "agents_of ?rg ?i = None"
    using r new unfolding recorded_ok_def by (cases "agents_of ?rg ?i") auto
  have d: "tokens_of ?rg ?i = None \<longleftrightarrow> pending_of ?rg ?i = None"
    using t unfolding tables_ok_def by blast
  show "pending_of ?rg ?i = None"
  proof (rule ccontr)
    assume "pending_of ?rg ?i \<noteq> None"
    with d obtain p tok where "pending_of ?rg ?i = Some p" "tokens_of ?rg ?i = Some tok" by blast
    with r new show False unfolding recorded_ok_def by blast
  qed
  with d show "tokens_of ?rg ?i = None" by blast
qed

text \<open>The steps that touch no reservation and no pane.\<close>

lemma spawns_ok_agents:
  assumes "spawns_ok w" "rg_next_id rg = rg_next_id (sw_registry w)" "keys_distinct rg"
    and "pending_of rg = pending_of (sw_registry w)" "tokens_of rg = tokens_of (sw_registry w)"
    and "rg_hook_token_panes rg = rg_hook_token_panes (sw_registry w)" "rg_paneless_agents rg = rg_paneless_agents (sw_registry w)"
    and "rg_pane_generations rg = rg_pane_generations (sw_registry w)"
    and agents: "\<And>i a. agents_of rg i = Some a \<Longrightarrow> \<exists>b. agents_of (sw_registry w) i = Some b \<and> ra_pane a = ra_pane b \<and> ra_token a = ra_token b
          \<and> (ra_exited b \<longrightarrow> ra_exited a) \<and> ra_handed_over a = ra_handed_over b"
  shows "spawns_ok (w\<lparr>sw_registry := rg\<rparr>)"
proof -
  let ?rg = "sw_registry w"
  from assms(1) have ok: "tables_ok ?rg" "minted_ok w" "recorded_ok w" "panes_ok ?rg" by (simp_all add: spawns_ok_def)
  have "dom (agents_of rg) \<subseteq> dom (agents_of ?rg)" using agents by blast
  then have "tables_ok rg" using ok(1) assms(3-5) unfolding tables_ok_def by auto
  moreover have "minted_ok (w\<lparr>sw_registry := rg\<rparr>)" using ok(2) assms(2,6,7) by (simp add: minted_ok_def)
  moreover have "recorded_ok (w\<lparr>sw_registry := rg\<rparr>)"
  proof -
    have "(ra_token a, i, ra_pane a) \<in> set (sw_minted w)" if "agents_of rg i = Some a" for i a
      using agents[OF that] ok(3) unfolding recorded_ok_def by auto
    with ok(3) show ?thesis by (simp add: recorded_ok_def assms(4,5))
  qed
  moreover have "panes_ok rg"
  proof -
  have "claims rg p i \<Longrightarrow> claims ?rg p i" "holds_pane rg p i \<Longrightarrow> holds_pane ?rg p i" for p i
    unfolding claims_def holds_pane_def assms(4) using agents by (fastforce, fastforce)
  moreover have "\<not> ra_handed_over a" if "agents_of rg i = Some a" "\<not> ra_exited a" for i a
    using agents[OF that(1)] that(2) ok(4) unfolding panes_ok_def by blast
  moreover have "i \<in> rg_pane_generations rg p" if "agents_of rg i = Some a" "ra_pane a = Some p" for i a p
    using agents[OF that(1)] that(2) ok(4) unfolding panes_ok_def assms(8) by auto
  ultimately show ?thesis using ok(4) unfolding panes_ok_def by blast
  qed
  ultimately show ?thesis by (simp add: spawns_ok_def)
qed

lemma give_up_ok:
  assumes "spawns_ok w"
  shows "spawns_ok (w\<lparr>sw_registry := give_up i (sw_registry w)\<rparr>)"
proof -
  let ?rg = "sw_registry w"
  from assms have ok: "tables_ok ?rg" "minted_ok w" "recorded_ok w" "panes_ok ?rg" by (simp_all add: spawns_ok_def)
  note e = give_up_effect[where i = i and rg = ?rg]
  have "tables_ok (give_up i ?rg)" using ok(1) e(8) unfolding tables_ok_def e(2-4) by auto
  moreover have "minted_ok (w\<lparr>sw_registry := give_up i ?rg\<rparr>)" using ok(2) by (simp add: minted_ok_def e)
  moreover have "recorded_ok (w\<lparr>sw_registry := give_up i ?rg\<rparr>)" using ok(3) by (simp add: recorded_ok_def e)
  moreover have "panes_ok (give_up i ?rg)" using ok(4) unfolding panes_ok_def claims_def holds_pane_def e by (auto split: if_splits)
  ultimately show ?thesis by (simp add: spawns_ok_def)
qed

lemma reserve_ok:
  assumes ok: "spawns_ok w" and res: "reserve_spawn pane token join_refused held_dir s replacement (sw_registry w) = Inr (i, rg)"
    and fresh: "token \<notin> fst ` set (sw_minted w)"
  shows "spawns_ok \<lparr>sw_registry = rg, sw_minted = sw_minted w @ [(token, i, pane)]\<rparr>"
proof -
  let ?rg = "sw_registry w"
  from ok have o: "tables_ok ?rg" "minted_ok w" "recorded_ok w" "panes_ok ?rg" by (simp_all add: spawns_ok_def)
  note e = reserve_effect[OF res] and new = fresh_id[OF ok, folded e(1)]
  have k: "keys_distinct ?rg" using o(1) by (simp add: tables_ok_def)
  have "tables_ok rg" using o(1) e(10) new unfolding tables_ok_def e(3-5) by auto
  moreover have "minted_ok \<lparr>sw_registry = rg, sw_minted = sw_minted w @ [(token, i, pane)]\<rparr>"
    using o(2) fresh new(1) unfolding minted_ok_def spawn_world.select_convs e(2,6,7)
    by (auto simp: e(1) split: option.splits) (metis less_SucI)+
  moreover have "recorded_ok \<lparr>sw_registry = rg, sw_minted = sw_minted w @ [(token, i, pane)]\<rparr>"
    using o(3) new unfolding recorded_ok_def spawn_world.select_convs e(3-5) by auto
  moreover have "panes_ok rg"
  proof -
    have free: "\<not> claims ?rg p j" if "pane = Some p" for p j
      using e(9)[OF that] list_ex_agents(1)[OF k, of "\<lambda>_ a. ra_pane a = Some p \<and> \<not> ra_exited a"] list_ex_agents(2)[OF k, of "\<lambda>_ q. q = Some p"]
      unfolding pane_taken_def live_on_def claims_def by blast
    have c: "claims rg p j \<longleftrightarrow> claims ?rg p j \<or> (j = i \<and> pane = Some p)" for p j
      using new unfolding claims_def e(3,4) by auto
    have h: "holds_pane rg p j \<longleftrightarrow> holds_pane ?rg p j" for p j by (simp add: holds_pane_def e(3))
    show ?thesis using o(4) free unfolding panes_ok_def c h e(3,8) by blast
  qed
  ultimately show ?thesis by (simp add: spawns_ok_def)
qed

lemma publish_ok:
  assumes ok: "spawns_ok w" and pend: "pending_of (sw_registry w) i = Some pane" "tokens_of (sw_registry w) i = Some token"
  shows "spawns_ok (w\<lparr>sw_registry := fst (publish_spawn i pane token refused (sw_registry w))\<rparr>)"
proof (cases rule: publish_cases[of i pane token refused "sw_registry w"])
  case 1
  then show ?thesis using give_up_ok[OF ok, of i] ok by auto
next
  case (2 facts)
  let ?rg = "sw_registry w" and ?rg' = "fst (publish_spawn i pane token refused (sw_registry w))"
  from ok have o: "tables_ok ?rg" "minted_ok w" "recorded_ok w" "panes_ok ?rg" by (simp_all add: spawns_ok_def)
  have k: "keys_distinct ?rg" using o(1) by (simp add: tables_ok_def)
  have none: "agents_of ?rg i = None" using o(1) pend unfolding tables_ok_def by blast
  have handed [simp]: "ra_token (handed q a) = ra_token a" "ra_pane (handed q a) = ra_pane a" "ra_exited (handed q a) = ra_exited a"
    "ra_handed_over (handed q a) \<longleftrightarrow> ra_handed_over a \<or> (q \<noteq> None \<and> ra_pane a = q)" for q a
    by (simp_all add: handed_def)
  have "tables_ok ?rg'" using o(1) 2(9) unfolding tables_ok_def 2(2-4) by auto
  moreover have "minted_ok (w\<lparr>sw_registry := ?rg'\<rparr>)" using o(2) by (simp add: minted_ok_def 2)
  moreover have "recorded_ok (w\<lparr>sw_registry := ?rg'\<rparr>)"
    using o(3) pend by (auto simp: recorded_ok_def 2(2-4) split: if_splits)
  moreover have "panes_ok ?rg'"
  proof -
    have c: "claims ?rg' p j \<longleftrightarrow> claims ?rg p j" for p j
      unfolding claims_def 2(2,3) using pend none by (auto split: if_splits)
    have h: "holds_pane ?rg' p j \<longleftrightarrow> (if pane = Some p then j = i else holds_pane ?rg p j)" for p j
      unfolding holds_pane_def 2(2) using none by (auto split: if_splits)
    have dead: "ra_exited a" if "agents_of ?rg j = Some a" "ra_pane a = pane" "pane \<noteq> None" for j a
      using 2(8) list_ex_agents(1)[OF k, of "\<lambda>_ a. ra_pane a = pane \<and> \<not> ra_exited a"] that unfolding live_on_def by auto
    show ?thesis unfolding panes_ok_def c h 2(2,7) using o(4)[unfolded panes_ok_def] dead
      by (intro conjI allI impI) (auto split: if_splits)
  qed
  ultimately show ?thesis by (simp add: spawns_ok_def)
qed

lemma remove_ok: "spawns_ok w \<Longrightarrow> remove_record i (sw_registry w) = Inr rg \<Longrightarrow> spawns_ok (w\<lparr>sw_registry := rg\<rparr>)"
  by (rule spawns_ok_agents)
     (auto simp: remove_record_def delete_conv' spawns_ok_def tables_ok_def keys_distinct_def distinct_delete split: if_splits)

lemma exit_ok: "spawns_ok w \<Longrightarrow> spawns_ok (w\<lparr>sw_registry := mark_exited i (sw_registry w)\<rparr>)"
  by (rule spawns_ok_agents) (auto simp: exit_effect spawns_ok_def tables_ok_def)

lemma drain_ok: "spawns_ok w \<Longrightarrow> spawns_ok (w\<lparr>sw_registry := drain_records (sw_registry w)\<rparr>)"
  by (rule spawns_ok_agents) (auto simp: drain_records_def spawns_ok_def tables_ok_def keys_distinct_def)

lemma pin_ok:
  assumes "spawns_ok w"
  shows "spawns_ok (w\<lparr>sw_registry := fst (pin_unit i unit ticket (sw_registry w))\<rparr>)"
proof -
  obtain f where f: "agents_of (fst (pin_unit i unit ticket (sw_registry w))) = (\<lambda>j. map_option (\<lambda>a. a\<lparr>ra_facts := f j a\<rparr>) (agents_of (sw_registry w) j))"
    using pin_effect(2) by blast
  have "keys_distinct (sw_registry w)" using assms by (simp add: spawns_ok_def tables_ok_def)
  from pin_effect(8)[OF this] assms show ?thesis
    by (intro spawns_ok_agents) (auto simp: f pin_effect)
qed

lemma hold_ok:
  assumes "spawns_ok w"
  shows "spawns_ok (w\<lparr>sw_registry := fst (hold_pane_for_cleanup p i (sw_registry w))\<rparr>)"
    "spawns_ok (w\<lparr>sw_registry := release_cleanup_hold p (sw_registry w)\<rparr>)"
proof -
  have k: "keys_distinct (sw_registry w)" using assms by (simp add: spawns_ok_def tables_ok_def)
  have "spawns_ok (w\<lparr>sw_registry := (sw_registry w)\<lparr>rg_cleanup_holds := holds\<rparr>\<rparr>)" for holds
    by (rule spawns_ok_agents[OF assms]) (use k in \<open>simp_all add: keys_distinct_def\<close>)
  then show "spawns_ok (w\<lparr>sw_registry := release_cleanup_hold p (sw_registry w)\<rparr>)"
    "spawns_ok (w\<lparr>sw_registry := fst (hold_pane_for_cleanup p i (sw_registry w))\<rparr>)"
    using assms by (simp_all add: hold_pane_for_cleanup_def release_cleanup_hold_def)
qed

lemma spawn_step_ok: "spawns_ok w \<Longrightarrow> spawn_step w w' \<Longrightarrow> spawns_ok w'"
  by (erule spawn_step.cases)
     (auto intro: reserve_ok publish_ok give_up_ok exit_ok remove_ok drain_ok pin_ok hold_ok)

interpretation spawns: step_invariant "\<lambda>w. w = spawn_world_new" spawn_step spawns_ok
  by unfold_locales (auto simp: spawns_ok_new intro: spawn_step_ok)

end
