(* ===== verification/Registry_Props.thy ===== *)
theory Registry_Props
  imports Registry_Inv
begin

text \<open>
  What the registry guarantees at every moment: one generation speaks for a pane, a handover is for good,
  a token names its own spawn for as long as that spawn is recorded, and the hook gate over it.
\<close>

section \<open>Tokens and their spawns\<close>

lemma minted_unique:
  assumes "spawns_ok w" "(t, i, p) \<in> set (sw_minted w)" "(t', i', p') \<in> set (sw_minted w)"
  shows "t = t' \<longleftrightarrow> i = i'" "t = t' \<Longrightarrow> p = p'"
proof -
  have d: "inj_on fst (set (sw_minted w))" "inj_on (fst \<circ> snd) (set (sw_minted w))"
    using assms(1) unfolding spawns_ok_def minted_ok_def by (simp_all add: distinct_map)
  have "t = t' \<Longrightarrow> (t, i, p) = (t', i', p')" using inj_onD[OF d(1) _ assms(2,3)] by simp
  moreover have "i = i' \<Longrightarrow> (t, i, p) = (t', i', p')" using inj_onD[OF d(2) _ assms(2,3)] by simp
  ultimately show "t = t' \<longleftrightarrow> i = i'" "t = t' \<Longrightarrow> p = p'" by auto
qed

definition recorded :: "registry \<Rightarrow> string \<Rightarrow> bool" where
  "recorded rg i \<longleftrightarrow> agents_of rg i \<noteq> None \<or> pending_of rg i \<noteq> None"

lemma recordedD:
  assumes "spawns_ok w"
  shows "agents_of (sw_registry w) i = Some a \<Longrightarrow> (ra_token a, i, ra_pane a) \<in> set (sw_minted w)"
    "pending_of (sw_registry w) i = Some p \<Longrightarrow> tokens_of (sw_registry w) i = Some t \<Longrightarrow> (t, i, p) \<in> set (sw_minted w)"
  using assms unfolding spawns_ok_def recorded_ok_def by blast+

lemma pending_tokens:
  assumes "spawns_ok w"
  shows "(\<exists>p. pending_of (sw_registry w) i = Some p) \<longleftrightarrow> (\<exists>t. tokens_of (sw_registry w) i = Some t)"
proof -
  have "dom (tokens_of (sw_registry w)) = dom (pending_of (sw_registry w))"
    using assms unfolding spawns_ok_def tables_ok_def by simp
  then have "i \<in> dom (pending_of (sw_registry w)) \<longleftrightarrow> i \<in> dom (tokens_of (sw_registry w))" by simp
  then show ?thesis by (simp add: dom_def)
qed

lemma find_map_of:
  assumes "find P xs = Some (k, v)" "distinct (map fst xs)"
  shows "map_of xs k = Some v \<and> P (k, v)"
proof -
  from assms(1) obtain n where "n < length xs" "(k, v) = xs ! n" "P (k, v)" by (auto simp: find_Some_iff)
  then have "(k, v) \<in> set xs" by (metis nth_mem)
  with assms(2) \<open>P (k, v)\<close> show ?thesis by simp
qed

lemma find_agent:
  assumes "spawns_ok w"
  shows "find (\<lambda>(i, a). tokens_match (ra_token a) token) (rg_agents (sw_registry w)) = Some (i, a) \<longleftrightarrow>
     agents_of (sw_registry w) i = Some a \<and> ra_token a = token"
proof -
  let ?rg = "sw_registry w"
  have k: "distinct (map fst (rg_agents ?rg))"
    using assms by (simp_all add: spawns_ok_def tables_ok_def keys_distinct_def)
  have found: "agents_of ?rg i = Some a \<and> ra_token a = token"
    if "find (\<lambda>(i, a). tokens_match (ra_token a) token) (rg_agents ?rg) = Some (i, a)" for i a
    using find_map_of[OF that k] by simp
  have "find (\<lambda>(i, a). tokens_match (ra_token a) token) (rg_agents ?rg) = Some (i, a)"
    if a: "agents_of ?rg i = Some a" "ra_token a = token"
  proof (cases "find (\<lambda>(i, a). tokens_match (ra_token a) token) (rg_agents ?rg)")
    case None
    with map_of_SomeD[OF a(1)] a(2) show ?thesis by (auto simp: find_None_iff)
  next
    case (Some e)
    obtain j b where e: "e = (j, b)" by (cases e)
    note b = found[OF Some[unfolded e]]
    have "(token, i, ra_pane a) \<in> set (sw_minted w)" "(token, j, ra_pane b) \<in> set (sw_minted w)"
      using recordedD(1)[OF assms a(1)] recordedD(1)[OF assms, of j b] a b by simp_all
    then have "i = j" using minted_unique(1)[OF assms] by blast
    with Some e a b show ?thesis by simp
  qed
  with found show ?thesis by blast
qed

lemma find_pending:
  assumes "spawns_ok w"
  shows "find (\<lambda>(i, minted). tokens_match minted token) (rg_pending_hook_tokens (sw_registry w)) = Some (i, t) \<longleftrightarrow>
     tokens_of (sw_registry w) i = Some token \<and> t = token"
proof -
  let ?rg = "sw_registry w"
  have k: "distinct (map fst (rg_pending_hook_tokens ?rg))"
    using assms by (simp_all add: spawns_ok_def tables_ok_def keys_distinct_def)
  have found: "tokens_of ?rg i = Some token \<and> t = token"
    if "find (\<lambda>(i, minted). tokens_match minted token) (rg_pending_hook_tokens ?rg) = Some (i, t)" for i t
    using find_map_of[OF that k] by simp
  have minted: "\<exists>p. (token, i, p) \<in> set (sw_minted w)" if "tokens_of ?rg i = Some token" for i
    using pending_tokens[OF assms, of i] recordedD(2)[OF assms] that by metis
  have "find (\<lambda>(i, minted). tokens_match minted token) (rg_pending_hook_tokens ?rg) = Some (i, token)"
    if a: "tokens_of ?rg i = Some token"
  proof (cases "find (\<lambda>(i, minted). tokens_match minted token) (rg_pending_hook_tokens ?rg)")
    case None
    with map_of_SomeD[OF a] show ?thesis by (auto simp: find_None_iff)
  next
    case (Some e)
    obtain j t' where e: "e = (j, t')" by (cases e)
    note b = found[OF Some[unfolded e]]
    have "i = j" using minted[OF a] minted b minted_unique(1)[OF assms] by blast
    with Some e b show ?thesis by simp
  qed
  with found show ?thesis by blast
qed

lemma owner_of_recorded:
  assumes ok: "spawns_ok w" and m: "(token, i, pane) \<in> set (sw_minted w)" and rec: "recorded (sw_registry w) i"
  shows "\<exists>f. owner_of_hook_token token (sw_registry w) = Some \<lparr>to_agent_id = i, to_pane_id = pane, to_facts = f\<rparr>"
proof (cases "agents_of (sw_registry w) i")
  case (Some a)
  have "(ra_token a, i, ra_pane a) \<in> set (sw_minted w)" using recordedD(1)[OF ok Some] .
  from minted_unique[OF ok this m] have "ra_token a = token" "ra_pane a = pane" by simp_all
  with Some find_agent[OF ok, of token i a] show ?thesis by (simp add: owner_of_hook_token_def)
next
  case None
  let ?rg = "sw_registry w"
  from None rec obtain p where p: "pending_of ?rg i = Some p" by (auto simp: recorded_def)
  with pending_tokens[OF ok] obtain t where t: "tokens_of ?rg i = Some t" by metis
  have "(t, i, p) \<in> set (sw_minted w)" using recordedD(2)[OF ok p t] .
  from minted_unique[OF ok this m] have tp: "t = token" "p = pane" by simp_all
  have no: "find (\<lambda>(i, a). tokens_match (ra_token a) token) (rg_agents ?rg) = None"
  proof (rule ccontr)
    assume "find (\<lambda>(i, a). tokens_match (ra_token a) token) (rg_agents ?rg) \<noteq> None"
    then obtain j b where b: "agents_of ?rg j = Some b" "ra_token b = token" using find_agent[OF ok] by (metis not_None_eq surj_pair)
    then have "(token, j, ra_pane b) \<in> set (sw_minted w)" using recordedD(1)[OF ok] by metis
    from minted_unique(1)[OF ok this m] b(1) None show False by simp
  qed
  have "find (\<lambda>(i, minted). tokens_match minted token) (rg_pending_hook_tokens ?rg) = Some (i, token)"
    using find_pending[OF ok, of token i token] t tp by blast
  with no p tp show ?thesis by (simp add: owner_of_hook_token_def)
qed

lemma owner_SomeD:
  assumes ok: "spawns_ok w" and own: "owner_of_hook_token token (sw_registry w) = Some ow"
  shows "(token, to_agent_id ow, to_pane_id ow) \<in> set (sw_minted w)" "recorded (sw_registry w) (to_agent_id ow)"
proof -
  let ?rg = "sw_registry w"
  consider i a where "find (\<lambda>(i, a). tokens_match (ra_token a) token) (rg_agents ?rg) = Some (i, a)"
      "ow = \<lparr>to_agent_id = i, to_pane_id = ra_pane a, to_facts = ra_facts a\<rparr>"
    | i t p f where "find (\<lambda>(i, minted). tokens_match minted token) (rg_pending_hook_tokens ?rg) = Some (i, t)"
      "pending_of ?rg i = Some p" "ow = \<lparr>to_agent_id = i, to_pane_id = p, to_facts = f\<rparr>"
    using own unfolding owner_of_hook_token_def by (auto split: option.splits)
  then have "(token, to_agent_id ow, to_pane_id ow) \<in> set (sw_minted w) \<and> recorded ?rg (to_agent_id ow)"
  proof cases
    case 1
    from 1(1) have "agents_of ?rg i = Some a" "ra_token a = token" using find_agent[OF ok] by blast+
    with 1(2) recordedD(1)[OF ok, of i a] show ?thesis by (simp add: recorded_def)
  next
    case 2
    from 2(1) have "tokens_of ?rg i = Some token" using find_pending[OF ok] by blast
    with 2(2,3) recordedD(2)[OF ok, of i p token] show ?thesis by (simp add: recorded_def)
  qed
  then show "(token, to_agent_id ow, to_pane_id ow) \<in> set (sw_minted w)" "recorded ?rg (to_agent_id ow)" by auto
qed

interpretation registry_dir: token_directory spawns_ok "\<lambda>w. token_dir_of (sw_registry w)"
proof
  fix w token ow
  assume ok: "spawns_ok w" and "td_owner (token_dir_of (sw_registry w)) token = Some ow"
  then have m: "(token, to_agent_id ow, to_pane_id ow) \<in> set (sw_minted w)" using owner_SomeD(1) by (simp add: token_dir_of_def)
  show "to_pane_id ow = Some pane \<Longrightarrow> td_pane_issued (token_dir_of (sw_registry w)) pane" for pane
    using ok m unfolding spawns_ok_def minted_ok_def token_dir_of_def by auto
  show "to_pane_id ow = None \<Longrightarrow> td_paneless_issued (token_dir_of (sw_registry w)) (to_agent_id ow)"
    using ok m unfolding spawns_ok_def minted_ok_def token_dir_of_def by auto
qed

section \<open>Who speaks for a pane\<close>

lemma spawns_okD:
  assumes "spawns_ok w"
  shows "keys_distinct (sw_registry w)" "\<And>i a. agents_of (sw_registry w) i = Some a \<Longrightarrow> pending_of (sw_registry w) i = None"
    "\<And>p i j. claims (sw_registry w) p i \<Longrightarrow> claims (sw_registry w) p j \<Longrightarrow> i = j"
    "\<And>p i j. holds_pane (sw_registry w) p i \<Longrightarrow> holds_pane (sw_registry w) p j \<Longrightarrow> i = j"
    "\<And>i a. agents_of (sw_registry w) i = Some a \<Longrightarrow> \<not> ra_exited a \<Longrightarrow> \<not> ra_handed_over a"
proof -
  from assms have t: "tables_ok (sw_registry w)" and p: "panes_ok (sw_registry w)" by (simp_all add: spawns_ok_def)
  show "keys_distinct (sw_registry w)" using t by (simp add: tables_ok_def)
  show "pending_of (sw_registry w) i = None" if "agents_of (sw_registry w) i = Some a" for i a
  proof -
    have "i \<notin> dom (pending_of (sw_registry w))" using t domI[of "agents_of (sw_registry w)", OF that] unfolding tables_ok_def by blast
    then show ?thesis by (simp add: domIff)
  qed
qed (use assms in \<open>unfold spawns_ok_def panes_ok_def, blast+\<close>)

lemma claimed_by_other_iff:
  assumes "spawns_ok w"
  shows "pane_claimed_by_other p i (sw_registry w) \<longleftrightarrow> (\<exists>j. j \<noteq> i \<and> claims (sw_registry w) p j)"
  unfolding pane_claimed_by_other_def live_on_def claims_def
    list_ex_agents(1)[OF spawns_okD(1)[OF assms], where P = "\<lambda>j a. j \<noteq> i \<and> ra_pane a = Some p \<and> \<not> ra_exited a"]
    list_ex_agents(2)[OF spawns_okD(1)[OF assms], where Q = "\<lambda>j q. j \<noteq> i \<and> q = Some p"]
  by blast

lemma owned_iff:
  assumes "spawns_ok w"
  shows "generation_ownership (Some p) (Some i) (sw_registry w) = Owned \<longleftrightarrow>
     claims (sw_registry w) p i
     \<or> (holds_pane (sw_registry w) p i \<and> (\<forall>j. claims (sw_registry w) p j \<longrightarrow> j = i))"
proof (cases "agents_of (sw_registry w) i")
  case None
  then show ?thesis by (auto simp: generation_ownership_def claims_def holds_pane_def)
next
  case (Some a)
  have "generation_ownership (Some p) (Some i) (sw_registry w) = Owned \<longleftrightarrow>
      ra_pane a = Some p \<and> (\<not> ra_exited a \<or> \<not> (ra_handed_over a \<or> pane_claimed_by_other p i (sw_registry w)))"
    using Some spawns_okD(2)[OF assms Some] by (simp add: generation_ownership_def generation_speaks_for_pane_def)
  then show ?thesis
    unfolding claimed_by_other_iff[OF assms] using Some spawns_okD(2)[OF assms Some]
    by (auto simp: claims_def[of _ _ i] holds_pane_def)
qed

lemma owned_unique:
  assumes "spawns_ok w" "generation_ownership (Some p) (Some i) (sw_registry w) = Owned"
    "generation_ownership (Some p) (Some j) (sw_registry w) = Owned"
  shows "i = j"
  using assms(2,3) spawns_okD(3,4)[OF assms(1)] unfolding owned_iff[OF assms(1)] by blast

lemma find_None_agents:
  "find P xs = None \<Longrightarrow> map_of xs k = Some v \<Longrightarrow> \<not> P (k, v)"
  by (metis find_None_iff map_of_SomeD)

lemma owned_is_current:
  assumes ok: "spawns_ok w" and own: "generation_ownership (Some p) (Some i) (sw_registry w) = Owned"
  shows "current_generation p (sw_registry w) = Some i"
proof (cases "find (\<lambda>e. snd e = Some p) (rg_pending_spawns (sw_registry w))")
  case (Some e)
  obtain j q where e: "e = (j, q)" by (cases e)
  have "distinct (map fst (rg_pending_spawns (sw_registry w)))" using spawns_okD(1)[OF ok] by (simp add: keys_distinct_def)
  from find_map_of[OF Some[unfolded e] this] have "claims (sw_registry w) p j" by (simp add: claims_def)
  with own spawns_okD(3)[OF ok] have "i = j" unfolding owned_iff[OF ok] by blast
  with Some e show ?thesis by (simp add: current_generation_def)
next
  case none: None
  have notpend: "pending_of (sw_registry w) i \<noteq> Some (Some p)" using find_None_agents[OF none] by fastforce
  have hold: "holds_pane (sw_registry w) p i"
    using own notpend spawns_okD(5)[OF ok] unfolding owned_iff[OF ok] claims_def[of _ _ i] holds_pane_def by blast
  let ?f = "find (\<lambda>e. ra_pane (snd e) = Some p \<and> \<not> ra_handed_over (snd e)) (rg_agents (sw_registry w))"
  have d: "distinct (map fst (rg_agents (sw_registry w)))" using spawns_okD(1)[OF ok] by (simp add: keys_distinct_def)
  show ?thesis
  proof (cases ?f)
    case None
    with hold show ?thesis using find_None_agents[OF None] unfolding holds_pane_def by fastforce
  next
    case (Some e)
    obtain j a where e: "e = (j, a)" by (cases e)
    from find_map_of[OF Some[unfolded e] d] have "holds_pane (sw_registry w) p j" by (simp add: holds_pane_def)
    with spawns_okD(4)[OF ok] hold have "j = i" by blast
    with none Some e show ?thesis by (simp add: current_generation_def)
  qed
qed

text \<open>
  C4: at every moment at most one generation speaks for a pane, and it is the one the registry calls
  current: a spawn from its reservation on, then its live record, then its retired one until another
  claims the pane. No two live agents or reservations share a pane.
\<close>

theorem one_generation_speaks:
  assumes "spawn_step\<^sup>*\<^sup>* spawn_world_new w"
  shows "(\<forall>i j. generation_ownership (Some p) (Some i) (sw_registry w) = Owned
             \<longrightarrow> generation_ownership (Some p) (Some j) (sw_registry w) = Owned \<longrightarrow> i = j)
     \<and> (\<forall>i. generation_ownership (Some p) (Some i) (sw_registry w) = Owned
             \<longrightarrow> pane_generation_verdict p i (sw_registry w) = Some CurrentGeneration)
     \<and> (\<forall>i. claims (sw_registry w) p i \<longrightarrow> generation_ownership (Some p) (Some i) (sw_registry w) = Owned)
     \<and> (\<forall>i j. claims (sw_registry w) p i \<longrightarrow> claims (sw_registry w) p j \<longrightarrow> i = j)"
proof -
  have ok: "spawns_ok w" using spawns.reachable_inv[OF refl assms] .
  have "pane_generation_verdict p i (sw_registry w) = Some CurrentGeneration"
    if "generation_ownership (Some p) (Some i) (sw_registry w) = Owned" for i
    using owned_is_current[OF ok that] by (simp add: pane_generation_verdict_def)
  moreover have "generation_ownership (Some p) (Some i) (sw_registry w) = Owned" if "claims (sw_registry w) p i" for i
    using that owned_iff[OF ok] by blast
  ultimately show ?thesis using owned_unique[OF ok] spawns_okD(3)[OF ok] by blast
qed

section \<open>Handover\<close>

text \<open>A generation that was displaced on its pane: no longer in flight, and its record, while it lasts, is spent.\<close>

definition displaced :: "string \<Rightarrow> spawn_world \<Rightarrow> bool" where
  "displaced i w \<longleftrightarrow>
     i \<in> (fst \<circ> snd) ` set (sw_minted w) \<and> pending_of (sw_registry w) i = None
     \<and> (\<forall>a. agents_of (sw_registry w) i = Some a \<longrightarrow> ra_exited a \<and> ra_handed_over a)"

lemma displaced_agents:
  assumes "displaced i w" "pending_of rg i = None"
    and "\<And>a. agents_of rg i = Some a \<Longrightarrow>
           \<exists>b. agents_of (sw_registry w) i = Some b \<and> (ra_exited b \<longrightarrow> ra_exited a) \<and> (ra_handed_over b \<longrightarrow> ra_handed_over a)"
  shows "displaced i (w\<lparr>sw_registry := rg\<rparr>)"
proof -
  have "ra_exited a \<and> ra_handed_over a" if "agents_of rg i = Some a" for a
    using assms(3)[OF that] assms(1) unfolding displaced_def by blast
  with assms(1,2) show ?thesis by (simp add: displaced_def)
qed

lemma displaced_step:
  assumes ok: "spawns_ok w" and d: "displaced i w" and step: "spawn_step w w'"
  shows "displaced i w'"
proof -
  have notpend: "pending_of (sw_registry w) i = None" using d by (simp add: displaced_def)
  show ?thesis using step
proof cases
  case (ss_reserve pane token join_refused held_dir s replacement j rg)
  have "j \<noteq> i" using fresh_id(1)[OF ok] reserve_effect(1)[OF ss_reserve(2)] d by (auto simp: displaced_def)
  with d show ?thesis
    unfolding displaced_def ss_reserve(1) spawn_world.select_convs reserve_effect(3,4)[OF ss_reserve(2)] by simp
next
  case (ss_publish j pane token refused)
  have "j \<noteq> i" using ss_publish(2) d by (auto simp: displaced_def)
  show ?thesis
  proof (cases rule: publish_cases[of j pane token refused "sw_registry w"])
    case 1
    with d show ?thesis by (auto simp: ss_publish(1) displaced_def give_up_effect)
  next
    case (2 facts)
    have "ra_exited a \<and> ra_handed_over a" if "agents_of (fst (publish_spawn j pane token refused (sw_registry w))) i = Some a" for a
      using that \<open>j \<noteq> i\<close> d unfolding 2(2) by (auto simp: displaced_def handed_def)
    with d 2(3) show ?thesis by (simp add: ss_publish(1) displaced_def)
  qed
next
  case (ss_pin j unit ticket)
  obtain f where "agents_of (fst (pin_unit j unit ticket (sw_registry w))) =
      (\<lambda>k. map_option (\<lambda>a. a\<lparr>ra_facts := f k a\<rparr>) (agents_of (sw_registry w) k))" using pin_effect(2) by blast
  then show ?thesis unfolding ss_pin by (intro displaced_agents[OF d]) (use notpend in \<open>auto simp: pin_effect\<close>)
next
  case (ss_exit j)
  show ?thesis unfolding ss_exit by (rule displaced_agents[OF d]) (use notpend in \<open>auto simp: exit_effect\<close>)
next
  case (ss_remove j rg)
  show ?thesis unfolding ss_remove(1)
    by (rule displaced_agents[OF d]) (use notpend ss_remove(2) in \<open>auto simp: remove_record_def delete_conv' split: if_splits\<close>)
next
  case (ss_give_up j)
  show ?thesis unfolding ss_give_up by (rule displaced_agents[OF d]) (use notpend in \<open>auto simp: give_up_effect\<close>)
next
  case (ss_hold p j)
  show ?thesis unfolding ss_hold
    by (rule displaced_agents[OF d]) (use notpend in \<open>auto simp: hold_pane_for_cleanup_def split: if_splits\<close>)
next
  case ss_drain
  show ?thesis unfolding ss_drain by (rule displaced_agents[OF d]) (use notpend in \<open>auto simp: drain_records_def\<close>)
next
  case (ss_release p)
  show ?thesis unfolding ss_release by (rule displaced_agents[OF d]) (use notpend in \<open>auto simp: release_cleanup_hold_def\<close>)
qed
qed

lemma displaced_steps: "spawn_step\<^sup>*\<^sup>* w w' \<Longrightarrow> spawns_ok w \<Longrightarrow> displaced i w \<Longrightarrow> displaced i w'"
proof (induction rule: rtranclp_induct)
  case (step u v)
  then show ?case using displaced_step spawns.steps_inv by blast
qed

lemma displaced_unclaimed: "displaced i w \<Longrightarrow> generation_ownership (Some p) (Some i) (sw_registry w) = Unclaimed"
  by (auto simp: displaced_def generation_ownership_def generation_speaks_for_pane_def split: option.splits)

text \<open>
  C10: a pane changes hands for good. Once a spawn is published on a pane, no generation that ever reserved
  it before speaks for the pane again under its own name, whatever happens to its record or to the
  successor: not when the successor exits, and not when it is removed.
\<close>

theorem handover_permanent:
  assumes "spawn_step\<^sup>*\<^sup>* spawn_world_new w"
    and "pending_of (sw_registry w) j = Some (Some p)" "tokens_of (sw_registry w) j = Some token"
    and "publish_spawn j (Some p) token refused (sw_registry w) = (rg, Inr ())"
    and "(t, i, Some p) \<in> set (sw_minted w)" "i \<noteq> j"
    and "spawn_step\<^sup>*\<^sup>* (w\<lparr>sw_registry := rg\<rparr>) w'"
  shows "generation_ownership (Some p) (Some i) (sw_registry w') = Unclaimed"
proof -
  have ok: "spawns_ok w" using spawns.reachable_inv[OF refl assms(1)] .
  have ok1: "spawns_ok (w\<lparr>sw_registry := rg\<rparr>)" using publish_ok[OF ok assms(2,3), of refused] assms(4) by simp
  have cj: "claims (sw_registry w) p j" using assms(2) by (simp add: claims_def)
  have "displaced i (w\<lparr>sw_registry := rg\<rparr>)"
  proof (cases rule: publish_cases[of j "Some p" token refused "sw_registry w"])
    case (2 facts)
    note e = 2[unfolded assms(4) fst_conv snd_conv]
    have notpend: "pending_of (sw_registry w) i = None"
    proof (rule ccontr)
      assume "pending_of (sw_registry w) i \<noteq> None"
      then obtain q tok where "(tok, i, q) \<in> set (sw_minted w)" "pending_of (sw_registry w) i = Some q"
        using pending_tokens[OF ok, of i] recordedD(2)[OF ok] by blast
      with minted_unique[OF ok assms(5)] have "claims (sw_registry w) p i" by (auto simp: claims_def)
      with cj spawns_okD(3)[OF ok] assms(6) show False by blast
    qed
    have "ra_exited a \<and> ra_handed_over a" if "agents_of rg i = Some a" for a
    proof -
      from that e(2) assms(6) obtain b where b: "agents_of (sw_registry w) i = Some b" "a = handed (Some p) b" by auto
      have "ra_pane b = Some p" using minted_unique[OF ok recordedD(1)[OF ok b(1)] assms(5)] by simp
      moreover from this cj spawns_okD(3)[OF ok] assms(6) b(1) have "ra_exited b" unfolding claims_def by blast
      ultimately show ?thesis using b(2) by (simp add: handed_def)
    qed
    moreover have "i \<in> (fst \<circ> snd) ` set (sw_minted w)" using assms(5) by force
    ultimately show ?thesis using notpend assms(6) by (simp add: displaced_def e(3))
  qed (use assms(4) in simp)
  from displaced_unclaimed[OF displaced_steps[OF assms(7) ok1 this]] show ?thesis .
qed

section \<open>The gate over the registry\<close>

text \<open>A token that is minted for one spawn on one pane, which the registry still records.\<close>

definition genuine :: "spawn_world \<Rightarrow> string \<Rightarrow> string \<Rightarrow> string \<Rightarrow> bool" where
  "genuine w token i p \<longleftrightarrow>
     (token, i, Some p) \<in> set (sw_minted w) \<and> recorded (sw_registry w) i
     \<and> (\<forall>i' p'. (token, i', p') \<in> set (sw_minted w) \<longrightarrow> i' = i \<and> p' = Some p)"

lemma attested_genuine:
  assumes ok: "spawns_ok w" and own: "owner_of_hook_token token (sw_registry w) = Some ow" "to_pane_id ow = Some p"
  shows "genuine w token (to_agent_id ow) p"
proof -
  have m: "(token, to_agent_id ow, Some p) \<in> set (sw_minted w)" using owner_SomeD(1)[OF ok own(1)] own(2) by simp
  with owner_SomeD(2)[OF ok own(1)] minted_unique[OF ok m] show ?thesis unfolding genuine_def by blast
qed

lemma admits_any_policy:
  "admits_provenance (classify p (Some token) d) pol = admits_provenance (classify p (Some token) d) Enforce"
  "admits_provenance (classify_event (Some p) claimed (Some token) d) pol = admits_provenance (classify_event (Some p) claimed (Some token) d) Enforce"
  by (auto simp: admits_provenance_def classify_def classify_event_def event_agent_check_def split: option.splits)

lemma missing_admitted_iff:
  assumes "td_pane_issued d p"
  shows "admits_provenance (classify p None d) pol = Inr () \<longleftrightarrow> pol = WarnOnly"
    "admits_provenance (classify_event (Some p) claimed None d) pol = Inr () \<longleftrightarrow> pol = WarnOnly"
  using assms by (simp_all add: admits_provenance_def classify_def classify_event_def event_agent_check_def)

text \<open>
  C5: From the moment a spawn reserves a pane, and for as long as the daemon runs, a message or event that claims the pane
  and presents no token is admitted exactly under the warn policy. One that presents a token is admitted, under either
  policy, only if the token was minted for exactly one spawn, and that spawn is on the pane it claims and still
  recorded; an admitted event with a token moreover names that spawn, or names none and the spawn still speaks for the
  pane. This holds between two generations of the pane, when no record of it exists, too.
\<close>

theorem issued_pane_gated:
  assumes "spawn_step\<^sup>*\<^sup>* spawn_world_new w" "(t0, i0, Some p) \<in> set (sw_minted w)"
  shows "(admits_provenance (classify p None (token_dir_of (sw_registry w))) pol = Inr () \<longleftrightarrow> pol = WarnOnly)
     \<and> (admits_provenance (classify_event (Some p) claimed None (token_dir_of (sw_registry w))) pol = Inr () \<longleftrightarrow> pol = WarnOnly)
     \<and> (admits_provenance (classify p (Some token) (token_dir_of (sw_registry w))) pol = Inr () \<longrightarrow> (\<exists>i. genuine w token i p))
     \<and> (admits_provenance (classify_event (Some p) claimed (Some token) (token_dir_of (sw_registry w))) pol = Inr ()
            \<longrightarrow> (\<exists>i. genuine w token i p
                 \<and> (case claimed of Some c \<Rightarrow> c = i
                    | None \<Rightarrow> generation_ownership (Some p) (Some i) (sw_registry w) = Owned)))"
proof -
  let ?d = "token_dir_of (sw_registry w)"
  have ok: "spawns_ok w" using spawns.reachable_inv[OF refl assms(1)] .
  have issued: "td_pane_issued ?d p"
    using ok assms(2) unfolding spawns_ok_def minted_ok_def by (auto simp: token_dir_of_def)
  have owner: "td_owner ?d token = owner_of_hook_token token (sw_registry w)" for token by (simp add: token_dir_of_def)
  have "\<exists>i. genuine w token i p"
    if adm: "admits_provenance (classify p (Some token) ?d) pol = Inr ()"
    using issued_admits_attested(1)[OF issued] adm admits_any_policy(1)[of p token ?d pol] attested_genuine[OF ok]
    unfolding classify_Attested owner by (metis option.inject)
  moreover have "\<exists>i. genuine w token i p
      \<and> (case claimed of Some c \<Rightarrow> c = i | None \<Rightarrow> generation_ownership (Some p) (Some i) (sw_registry w) = Owned)"
    if adm: "admits_provenance (classify_event (Some p) claimed (Some token) ?d) pol = Inr ()"
  proof -
    from issued_admits_attested(2)[OF issued] adm admits_any_policy(2)[of p claimed token ?d pol] obtain a f
      where "classify_event (Some p) claimed (Some token) ?d = Attested a f" by fastforce
    then obtain ow where t: "owner_of_hook_token token (sw_registry w) = Some ow" "to_pane_id ow = Some p"
      "a = to_agent_id ow" "case claimed of Some c \<Rightarrow> c = a | None \<Rightarrow> td_speaks_for ?d a p"
      unfolding registry_dir.event_attested_iff[OF ok] owner option.case by blast
    with attested_genuine[OF ok t(1,2)] show ?thesis by (auto simp: token_dir_of_def split: option.splits)
  qed
  ultimately show ?thesis using missing_admitted_iff[OF issued] by blast
qed

text \<open>
  C22: a token names one spawn, for exactly as long as the registry records it: an agent's own events are
  attested from its reservation, before its record exists, until the record is removed or the spawn
  given up, and never afterwards; and at no time does the token attest another agent or another pane.
\<close>

theorem token_names_its_spawn:
  assumes "spawn_step\<^sup>*\<^sup>* spawn_world_new w" "(token, i, pane) \<in> set (sw_minted w)" "is_well_formed token"
  shows "(recorded (sw_registry w) i \<longleftrightarrow>
            (\<exists>f. classify_event pane (Some i) (Some token) (token_dir_of (sw_registry w)) = Attested i f))
     \<and> (\<forall>cp ca a f. classify_event cp ca (Some token) (token_dir_of (sw_registry w)) = Attested a f
            \<longrightarrow> a = i \<and> cp = pane)"
proof -
  let ?d = "token_dir_of (sw_registry w)"
  have ok: "spawns_ok w" using spawns.reachable_inv[OF refl assms(1)] .
  have owner: "td_owner ?d token = owner_of_hook_token token (sw_registry w)" by (simp add: token_dir_of_def)
  have only: "a = i \<and> cp = pane \<and> recorded (sw_registry w) i" if "classify_event cp ca (Some token) ?d = Attested a f" for cp ca a f
  proof -
    from that obtain ow where ow: "owner_of_hook_token token (sw_registry w) = Some ow" "to_pane_id ow = cp" "a = to_agent_id ow"
      using registry_dir.event_attested_iff[OF ok] owner by auto
    from owner_SomeD[OF ok ow(1)] minted_unique[OF ok assms(2)] ow show ?thesis by blast
  qed
  moreover have "\<exists>f. classify_event pane (Some i) (Some token) ?d = Attested i f" if rec: "recorded (sw_registry w) i"
  proof -
    obtain f where "td_owner ?d token = Some \<lparr>to_agent_id = i, to_pane_id = pane, to_facts = f\<rparr>"
      using owner_of_recorded[OF ok assms(2) rec] owner by auto
    from registry_dir.own_event_attested[OF ok this assms(3)] show ?thesis by auto
  qed
  ultimately show ?thesis by blast
qed

section \<open>A run\<close>

text \<open>A pane whose agent exits and is replaced.\<close>

definition sample_token :: "char \<Rightarrow> string" where
  "sample_token c = replicate 64 c"

definition sample_first :: spawn_world where
  "sample_first =
     \<lparr>sw_registry = snd (projr (reserve_spawn (Some ''p'') (sample_token (CHR ''a'')) False None None None registry_new)),
      sw_minted = [(sample_token (CHR ''a''), nat_string 1, Some ''p'')]\<rparr>"

definition sample_exited :: spawn_world where
  "sample_exited =
     sample_first\<lparr>sw_registry := mark_exited (nat_string 1)
       (fst (publish_spawn (nat_string 1) (Some ''p'') (sample_token (CHR ''a'')) None (sw_registry sample_first)))\<rparr>"

definition sample_second :: spawn_world where
  "sample_second =
     \<lparr>sw_registry = snd (projr (reserve_spawn (Some ''p'') (sample_token (CHR ''b'')) False None None None (sw_registry sample_exited))),
      sw_minted = sw_minted sample_exited @ [(sample_token (CHR ''b''), nat_string 2, Some ''p'')]\<rparr>"

lemmas sample_spawn_defs = sample_first_def sample_exited_def sample_second_def reserve_spawn_def registry_new_def pane_taken_def Let_def
  publish_spawn_def insert_record_def give_up_def hand_over_def mark_exited_def live_on_def numeral_2_eq_2

lemma sample_first_reach: "spawn_step\<^sup>*\<^sup>* spawn_world_new sample_first"
proof -
  have "reserve_spawn (Some ''p'') (sample_token (CHR ''a'')) False None None None (sw_registry spawn_world_new) =
      Inr (nat_string 1, sw_registry sample_first)"
    by (simp add: sample_spawn_defs spawn_world_new_def)
  from ss_reserve[OF this] have "spawn_step spawn_world_new sample_first" by (simp add: spawn_world_new_def sample_first_def)
  then show ?thesis by (rule r_into_rtranclp)
qed

lemma sample_second_reach: "spawn_step\<^sup>*\<^sup>* spawn_world_new sample_second"
proof -
  have "spawn_step sample_first (sample_first\<lparr>sw_registry := fst (publish_spawn (nat_string 1) (Some ''p'') (sample_token (CHR ''a'')) None (sw_registry sample_first))\<rparr>)"
    by (rule ss_publish) (simp_all add: sample_spawn_defs)
  moreover have "spawn_step (sample_first\<lparr>sw_registry := fst (publish_spawn (nat_string 1) (Some ''p'') (sample_token (CHR ''a'')) None (sw_registry sample_first))\<rparr>) sample_exited"
    using ss_exit[of "sample_first\<lparr>sw_registry := fst (publish_spawn (nat_string 1) (Some ''p'') (sample_token (CHR ''a'')) None (sw_registry sample_first))\<rparr>" "nat_string 1"]
    by (simp add: sample_exited_def)
  moreover have "spawn_step sample_exited sample_second"
  proof -
    have "reserve_spawn (Some ''p'') (sample_token (CHR ''b'')) False None None None (sw_registry sample_exited) =
        Inr (nat_string 2, sw_registry sample_second)"
      by (simp add: sample_spawn_defs)
    moreover have "sample_token (CHR ''b'') \<notin> fst ` set (sw_minted sample_exited)"
      by (simp add: sample_exited_def sample_first_def sample_token_def)
    ultimately show ?thesis using ss_reserve by (fastforce simp: sample_second_def)
  qed
  ultimately show ?thesis using sample_first_reach by (meson rtranclp.rtrancl_into_rtrancl)
qed

theorem one_generation_speaks_witness:
  "pane_generation_verdict ''p'' (nat_string 1) (sw_registry sample_first) = Some CurrentGeneration"
proof -
  have "claims (sw_registry sample_first) ''p'' (nat_string 1)" by (simp add: claims_def sample_spawn_defs)
  with one_generation_speaks[OF sample_first_reach, of "''p''"] show ?thesis by blast
qed

theorem handover_permanent_witness:
  "generation_ownership (Some ''p'') (Some (nat_string 1))
     (fst (publish_spawn (nat_string 2) (Some ''p'') (sample_token (CHR ''b'')) None (sw_registry sample_second))) = Unclaimed"
proof -
  let ?rg = "fst (publish_spawn (nat_string 2) (Some ''p'') (sample_token (CHR ''b'')) None (sw_registry sample_second))"
  have "publish_spawn (nat_string 2) (Some ''p'') (sample_token (CHR ''b'')) None (sw_registry sample_second) = (?rg, Inr ())"
    "pending_of (sw_registry sample_second) (nat_string 2) = Some (Some ''p'')"
    "tokens_of (sw_registry sample_second) (nat_string 2) = Some (sample_token (CHR ''b''))"
    "(sample_token (CHR ''a''), nat_string 1, Some ''p'') \<in> set (sw_minted sample_second)"
    by (simp_all add: sample_spawn_defs)
  from handover_permanent[OF sample_second_reach this(2,3,1,4), of "sample_second\<lparr>sw_registry := ?rg\<rparr>"] show ?thesis by simp
qed

theorem issued_pane_gated_witness:
  "admits_provenance (classify ''p'' None (token_dir_of (sw_registry sample_first))) Enforce \<noteq> Inr ()
   \<and> admits_provenance (classify ''p'' None (token_dir_of (sw_registry sample_first))) WarnOnly = Inr ()
   \<and> admits_provenance (classify_event (Some ''p'') None (Some (sample_token (CHR ''b''))) (token_dir_of (sw_registry sample_first))) WarnOnly \<noteq> Inr ()"
proof -
  have minted: "(sample_token (CHR ''a''), nat_string 1, Some ''p'') \<in> set (sw_minted sample_first)" by (simp add: sample_first_def)
  note gated = issued_pane_gated[OF sample_first_reach minted]
  have "\<not> genuine sample_first (sample_token (CHR ''b'')) i ''p''" for i by (simp add: genuine_def sample_first_def sample_token_def)
  with gated[of Enforce] gated[of WarnOnly None "sample_token (CHR ''b'')"] show ?thesis by auto
qed

theorem token_names_its_spawn_witness:
  "\<exists>f. classify_event (Some ''p'') (Some (nat_string 1)) (Some (sample_token (CHR ''a''))) (token_dir_of (sw_registry sample_first))
     = Attested (nat_string 1) f"
proof -
  have "is_well_formed (sample_token (CHR ''a''))" by code_simp
  moreover have "recorded (sw_registry sample_first) (nat_string 1)" by (simp add: recorded_def sample_spawn_defs)
  moreover have "(sample_token (CHR ''a''), nat_string 1, Some ''p'') \<in> set (sw_minted sample_first)" by (simp add: sample_first_def)
  ultimately show ?thesis using token_names_its_spawn[OF sample_first_reach] by blast
qed

end
