(* ===== verification/Hook_Order.thy ===== *)
theory Hook_Order
  imports Hook_Provenance
begin

text \<open>
  The order hook events are applied in, \<^verbatim>\<open>src/src/hook_event_order.rs\<close>: the place a connection takes when
  it is accepted, what a line makes of that place, and the scan that decides whether an event may be
  applied now.

  What \<^verbatim>\<open>serde_json\<close> reads from a line is the record \<open>line_fields\<close>. The task that waits for its turn looks
  again whenever a connection changes or a deadline passes; a look is one step here.
\<close>

section \<open>Standing and keys\<close>

definition PREDECESSOR_WAIT :: duration where
  "PREDECESSOR_WAIT = from_secs 2"

datatype standing = StAttested | StUnproven

definition standing_of :: "provenance \<Rightarrow> policy \<Rightarrow> standing option" where
  "standing_of verdict p =
     (case verdict of
        Attested _ _ \<Rightarrow> Some StAttested
      | _ \<Rightarrow> (case admits_provenance verdict p of Inr () \<Rightarrow> Some StUnproven | Inl _ \<Rightarrow> None))"

definition holds_back :: "standing \<Rightarrow> standing \<Rightarrow> bool" where
  "holds_back s waiter \<longleftrightarrow> s = StAttested \<or> waiter = StUnproven"

record hook_keys =
  hk_session :: string
  hk_pane :: "string option"

definition overlaps :: "hook_keys \<Rightarrow> hook_keys \<Rightarrow> bool" where
  "overlaps k other \<longleftrightarrow>
     hk_session k = hk_session other
     \<or> (case (hk_pane k, hk_pane other) of (Some a, Some b) \<Rightarrow> a = b | _ \<Rightarrow> False)"

section \<open>Open connections\<close>

datatype hook_slot =
  SlotSilent | SlotAnnounced string standing | SlotEvent hook_keys standing

record hook_conn =
  hc_accepted_at :: instant
  hc_slot :: hook_slot

text \<open>The connections not yet handled, in the order they were accepted.\<close>

record open_conns =
  oc_next :: nat
  oc_connections :: "(nat \<times> hook_conn) list"

definition open_conns_new :: open_conns where
  "open_conns_new = \<lparr>oc_next = 0, oc_connections = []\<rparr>"

definition order_admit :: "instant \<Rightarrow> open_conns \<Rightarrow> open_conns \<times> nat" where
  "order_admit now oc =
     (oc\<lparr>oc_next := oc_next oc + 1,
         oc_connections := oc_connections oc @ [(oc_next oc, \<lparr>hc_accepted_at = now, hc_slot = SlotSilent\<rparr>)]\<rparr>,
      oc_next oc)"

definition set_slot :: "nat \<Rightarrow> hook_slot \<Rightarrow> open_conns \<Rightarrow> open_conns" where
  "set_slot seq slot oc =
     oc\<lparr>oc_connections := map (\<lambda>(n, c). (n, if n = seq then c\<lparr>hc_slot := slot\<rparr> else c)) (oc_connections oc)\<rparr>"

definition drop_ticket :: "nat \<Rightarrow> open_conns \<Rightarrow> open_conns" where
  "drop_ticket seq oc = oc\<lparr>oc_connections := filter (\<lambda>e. fst e \<noteq> seq) (oc_connections oc)\<rparr>"

section \<open>Lines\<close>

datatype daemon_parse = ParsedAnnounce string "string option" | ParsedOther | ParseFailed

record line_fields =
  lf_message_type :: bool
  lf_session_id :: "string option"
  lf_pane_id :: "string option"
  lf_agent_id :: "string option"
  lf_daemon :: daemon_parse
  lf_token :: "unit + string option"

datatype line_kind = LineEvent hook_keys "standing option" | LineAnnounce string "standing option" | LineOther

definition raw_event_kind :: "line_fields \<Rightarrow> token_dir \<Rightarrow> policy \<Rightarrow> line_kind" where
  "raw_event_kind l directory p =
     (case lf_session_id l of
        None \<Rightarrow> LineOther
      | Some session \<Rightarrow>
          let presented = (case lf_token l of Inr token \<Rightarrow> token | Inl () \<Rightarrow> Some []);
              verdict = classify_event (lf_pane_id l) (lf_agent_id l) presented directory
          in LineEvent \<lparr>hk_session = session, hk_pane = lf_pane_id l\<rparr> (standing_of verdict p))"

definition line_kind_of :: "line_fields option \<Rightarrow> token_dir \<Rightarrow> policy \<Rightarrow> line_kind" where
  "line_kind_of line directory p =
     (case line of
        None \<Rightarrow> LineOther
      | Some l \<Rightarrow>
          (if lf_message_type l
           then (case lf_daemon l of
                   ParsedAnnounce pane token \<Rightarrow> LineAnnounce pane (standing_of (classify pane token directory) p)
                 | ParsedOther \<Rightarrow> LineOther
                 | ParseFailed \<Rightarrow> raw_event_kind l directory p)
           else raw_event_kind l directory p))"

text \<open>What a line does to a connection that still has its ticket: whether it now waits for its turn.\<close>

definition read_line :: "nat \<Rightarrow> line_kind \<Rightarrow> open_conns \<Rightarrow> open_conns \<times> (hook_keys \<times> standing) option" where
  "read_line seq kind oc =
     (case kind of
        LineEvent keys (Some st) \<Rightarrow> (set_slot seq (SlotEvent keys st) oc, Some (keys, st))
      | LineAnnounce pane (Some st) \<Rightarrow> (set_slot seq (SlotAnnounced pane st) oc, None)
      | _ \<Rightarrow> (drop_ticket seq oc, None))"

section \<open>The scan\<close>

definition slot_pending :: "hook_keys \<Rightarrow> standing \<Rightarrow> hook_slot \<Rightarrow> bool" where
  "slot_pending keys st slot =
     (case slot of
        SlotEvent _ _ \<Rightarrow> False
      | SlotSilent \<Rightarrow> True
      | SlotAnnounced pane StAttested \<Rightarrow> hk_pane keys = Some pane
      | SlotAnnounced _ StUnproven \<Rightarrow> st = StUnproven)"

definition slot_same_keys :: "hook_keys \<Rightarrow> standing \<Rightarrow> hook_slot \<Rightarrow> bool" where
  "slot_same_keys keys st slot =
     (case slot of SlotEvent theirs their_st \<Rightarrow> holds_back their_st st \<and> overlaps theirs keys | _ \<Rightarrow> False)"

record turn_look =
  tl_same_keys_ahead :: bool
  tl_silent_until :: "instant option"
  tl_gave_up :: bool

definition look_at_connection ::
  "duration \<Rightarrow> hook_keys \<Rightarrow> standing \<Rightarrow> instant \<Rightarrow> turn_look \<Rightarrow> hook_conn \<Rightarrow> turn_look" where
  "look_at_connection wait keys st now look c =
     (let look1 = (if slot_same_keys keys st (hc_slot c) then look\<lparr>tl_same_keys_ahead := True\<rparr> else look);
          until = hc_accepted_at c + wait
      in if \<not> slot_pending keys st (hc_slot c) then look1
         else if now < until
           then look1\<lparr>tl_silent_until := Some (case tl_silent_until look1 of None \<Rightarrow> until | Some u \<Rightarrow> min u until)\<rparr>
           else look1\<lparr>tl_gave_up := True\<rparr>)"

definition turn_scan ::
  "duration \<Rightarrow> nat \<Rightarrow> hook_keys \<Rightarrow> standing \<Rightarrow> instant \<Rightarrow> bool \<Rightarrow> open_conns \<Rightarrow> turn_look" where
  "turn_scan wait seq keys st now gave_up oc =
     foldl (look_at_connection wait keys st now)
       \<lparr>tl_same_keys_ahead = False, tl_silent_until = None, tl_gave_up = gave_up\<rparr>
       (map snd (takeWhile (\<lambda>e. fst e < seq) (oc_connections oc)))"

definition turn_is_due :: "turn_look \<Rightarrow> bool" where
  "turn_is_due look \<longleftrightarrow> \<not> tl_same_keys_ahead look \<and> tl_silent_until look = None"

text \<open>The looks a waiting task takes, each with the time and the connections it finds; none due yet is None.\<close>

fun wait_for_turn ::
  "duration \<Rightarrow> nat \<Rightarrow> hook_keys \<Rightarrow> standing \<Rightarrow> bool \<Rightarrow> (instant \<times> open_conns) list \<Rightarrow> bool option" where
  "wait_for_turn wait seq keys st gave_up [] = None"
| "wait_for_turn wait seq keys st gave_up ((now, oc) # looks) =
     (let look = turn_scan wait seq keys st now gave_up oc
      in if turn_is_due look then Some (tl_gave_up look)
         else wait_for_turn wait seq keys st (tl_gave_up look) looks)"

end
