(* ===== verification/Order_Props.thy ===== *)
theory Order_Props
  imports Hook_Order
begin

text \<open>
  When an event gets its turn, and what order turns are given in, over any interleaving of connections
  that are accepted, read, applied and closed.
\<close>

section \<open>When a turn is due\<close>

lemma look_at_connection_due:
  "tl_same_keys_ahead (look_at_connection wait keys st now look c) \<longleftrightarrow>
     tl_same_keys_ahead look \<or> slot_same_keys keys st (hc_slot c)"
  "tl_silent_until (look_at_connection wait keys st now look c) = None \<longleftrightarrow>
     tl_silent_until look = None \<and> \<not> (slot_pending keys st (hc_slot c) \<and> now < hc_accepted_at c + wait)"
  by (auto simp: look_at_connection_def Let_def)

lemma fold_look_due:
  "turn_is_due (foldl (look_at_connection wait keys st now) look cs) \<longleftrightarrow>
     turn_is_due look
     \<and> (\<forall>c \<in> set cs. \<not> slot_same_keys keys st (hc_slot c)
          \<and> (slot_pending keys st (hc_slot c) \<longrightarrow> hc_accepted_at c + wait \<le> now))"
  by (induction cs arbitrary: look) (auto simp: turn_is_due_def look_at_connection_due not_less)

definition conns_sorted :: "open_conns \<Rightarrow> bool" where
  "conns_sorted oc \<longleftrightarrow> sorted_wrt (<) (map fst (oc_connections oc)) \<and> (\<forall>e \<in> set (oc_connections oc). fst e < oc_next oc)"

lemma takeWhile_sorted:
  "sorted_wrt (<) (map fst xs) \<Longrightarrow> takeWhile (\<lambda>e. fst e < (n :: nat)) xs = filter (\<lambda>e. fst e < n) xs"
proof (induction xs)
  case (Cons x xs)
  have "filter (\<lambda>e. fst e < n) xs = []" if "\<not> fst x < n"
  proof -
    have "\<not> fst e < n" if "e \<in> set xs" for e
    proof -
      have "fst x < fst e" using Cons.prems that by simp
      with \<open>\<not> fst x < n\<close> show ?thesis by linarith
    qed
    then show ?thesis by (simp add: filter_empty_conv)
  qed
  with Cons show ?case by simp
qed simp

lemma turn_due_iff:
  assumes "conns_sorted oc"
  shows "turn_is_due (turn_scan wait seq keys st now gave_up oc) \<longleftrightarrow>
     (\<forall>(n, c) \<in> set (oc_connections oc). n < seq \<longrightarrow>
        \<not> slot_same_keys keys st (hc_slot c) \<and> (slot_pending keys st (hc_slot c) \<longrightarrow> hc_accepted_at c + wait \<le> now))"
  using assms unfolding turn_scan_def fold_look_due conns_sorted_def
  by (auto simp: takeWhile_sorted turn_is_due_def)

section \<open>Steps\<close>

text \<open>
  Beside the open connections: the clock, who holds a turn, and a record of what happened: when each
  connection was accepted, the event read on it and when, and, for each turn given, the earlier connections
  it overtook with what each had sent by then.
\<close>

record order_state =
  os_open :: open_conns
  os_now :: instant
  os_turns :: "nat set"
  os_accepted :: "nat \<Rightarrow> instant"
  os_events :: "nat \<rightharpoonup> hook_keys \<times> standing \<times> instant"
  os_overtook :: "(nat \<times> nat \<times> hook_slot) set"

definition order_new :: order_state where
  "order_new =
     \<lparr>os_open = open_conns_new, os_now = 0, os_turns = {}, os_accepted = (\<lambda>_. 0), os_events = Map.empty, os_overtook = {}\<rparr>"

definition open_seqs :: "order_state \<Rightarrow> nat set" where
  "open_seqs s = fst ` set (oc_connections (os_open s))"

definition os_accept :: "instant \<Rightarrow> order_state \<Rightarrow> order_state" where
  "os_accept t s =
     s\<lparr>os_now := t, os_open := fst (order_admit t (os_open s)),
       os_accepted := (os_accepted s)(snd (order_admit t (os_open s)) := t)\<rparr>"

definition os_read :: "instant \<Rightarrow> nat \<Rightarrow> line_kind \<Rightarrow> order_state \<Rightarrow> order_state" where
  "os_read t seq kind s =
     s\<lparr>os_now := t, os_open := fst (read_line seq kind (os_open s)),
       os_events :=
         (case snd (read_line seq kind (os_open s)) of
            Some (keys, st) \<Rightarrow> (os_events s)(seq \<mapsto> (keys, st, t))
          | None \<Rightarrow> os_events s)\<rparr>"

definition os_grant :: "instant \<Rightarrow> nat \<Rightarrow> order_state \<Rightarrow> order_state" where
  "os_grant t seq s =
     s\<lparr>os_now := t, os_turns := insert seq (os_turns s),
       os_overtook := os_overtook s \<union> {(a, seq, hc_slot c) | a c. (a, c) \<in> set (oc_connections (os_open s)) \<and> a < seq}\<rparr>"

definition os_finish :: "instant \<Rightarrow> nat \<Rightarrow> order_state \<Rightarrow> order_state" where
  "os_finish t seq s = s\<lparr>os_now := t, os_open := drop_ticket seq (os_open s), os_turns := os_turns s - {seq}\<rparr>"

inductive order_step :: "duration \<Rightarrow> order_state \<Rightarrow> order_state \<Rightarrow> bool" for wait where
  or_accept: "order_step wait s (os_accept t s)" if "os_now s \<le> t"
| or_read: "order_step wait s (os_read t seq kind s)"
    if "os_now s \<le> t" "seq \<in> open_seqs s" "os_events s seq = None"
| or_grant: "order_step wait s (os_grant t seq s)"
    if "os_now s \<le> t" "seq \<in> open_seqs s" "os_events s seq = Some (keys, st, read_at)"
       "turn_is_due (turn_scan wait seq keys st t gave_up (os_open s))"
| or_finish: "order_step wait s (os_finish t seq s)" if "os_now s \<le> t"

section \<open>The invariant\<close>

definition conn_agrees :: "order_state \<Rightarrow> nat \<Rightarrow> hook_conn \<Rightarrow> bool" where
  "conn_agrees s n c \<longleftrightarrow>
     hc_accepted_at c = os_accepted s n
     \<and> (case hc_slot c of
          SlotEvent keys st \<Rightarrow> \<exists>t. os_events s n = Some (keys, st, t)
        | _ \<Rightarrow> os_events s n = None)"

text \<open>
  Connection \<open>b\<close> was given its turn when \<open>a\<close>, ahead of it, had sent what \<open>slot\<close> says: an event \<open>b\<close> does not wait for, or nothing it
  waits for before a whole wait has passed.
\<close>

definition overtaken_late :: "duration \<Rightarrow> order_state \<Rightarrow> nat \<Rightarrow> nat \<Rightarrow> hook_slot \<Rightarrow> bool" where
  "overtaken_late wait s a b slot \<longleftrightarrow>
     (\<forall>keys st t. os_events s b = Some (keys, st, t) \<longrightarrow>
        \<not> slot_same_keys keys st slot
        \<and> (\<forall>akeys ast. slot = SlotEvent akeys ast \<longrightarrow> (\<exists>at. os_events s a = Some (akeys, ast, at)))
        \<and> (slot_pending keys st slot \<longrightarrow> os_accepted s a + wait \<le> (case os_events s a of None \<Rightarrow> os_now s | Some (_, _, at) \<Rightarrow> at)))"

definition order_ok :: "duration \<Rightarrow> order_state \<Rightarrow> bool" where
  "order_ok wait s \<longleftrightarrow>
     conns_sorted (os_open s)
     \<and> (\<forall>(n, c) \<in> set (oc_connections (os_open s)). conn_agrees s n c)
     \<and> (\<forall>n. os_events s n \<noteq> None \<longrightarrow> n < oc_next (os_open s))
     \<and> (\<forall>(a, b, slot) \<in> os_overtook s. a < b \<and> b < oc_next (os_open s) \<and> os_events s b \<noteq> None \<and> overtaken_late wait s a b slot)
     \<and> (\<forall>b \<in> os_turns s. b < oc_next (os_open s) \<and> (\<forall>a \<in> open_seqs s. a < b \<longrightarrow> (\<exists>slot. (a, b, slot) \<in> os_overtook s)))"

lemma order_okD:
  assumes "order_ok wait s"
  shows "conns_sorted (os_open s)" "\<And>n c. (n, c) \<in> set (oc_connections (os_open s)) \<Longrightarrow> conn_agrees s n c \<and> n < oc_next (os_open s)"
    "\<And>n e. os_events s n = Some e \<Longrightarrow> n < oc_next (os_open s)"
    "\<And>a b slot. (a, b, slot) \<in> os_overtook s \<Longrightarrow> a < b \<and> b < oc_next (os_open s) \<and> os_events s b \<noteq> None \<and> overtaken_late wait s a b slot"
    "\<And>a b. b \<in> os_turns s \<Longrightarrow> b < oc_next (os_open s) \<and> (a \<in> open_seqs s \<longrightarrow> a < b \<longrightarrow> (\<exists>slot. (a, b, slot) \<in> os_overtook s))"
  using assms unfolding order_ok_def conns_sorted_def by fastforce+

lemma order_okI:
  assumes "conns_sorted (os_open s)" "\<And>n c. (n, c) \<in> set (oc_connections (os_open s)) \<Longrightarrow> conn_agrees s n c"
    "\<And>n e. os_events s n = Some e \<Longrightarrow> n < oc_next (os_open s)"
    "\<And>a b slot. (a, b, slot) \<in> os_overtook s \<Longrightarrow> a < b \<and> b < oc_next (os_open s) \<and> os_events s b \<noteq> None \<and> overtaken_late wait s a b slot"
    "\<And>a b. b \<in> os_turns s \<Longrightarrow> b < oc_next (os_open s)"
    "\<And>a b. b \<in> os_turns s \<Longrightarrow> a \<in> open_seqs s \<Longrightarrow> a < b \<Longrightarrow> \<exists>slot. (a, b, slot) \<in> os_overtook s"
  shows "order_ok wait s"
  using assms unfolding order_ok_def by fastforce

lemma order_new_ok: "order_ok wait order_new"
  by (rule order_okI) (auto simp: order_new_def open_conns_new_def conns_sorted_def)

lemma sorted_drop: "conns_sorted oc \<Longrightarrow> conns_sorted (drop_ticket seq oc)"
  by (auto simp: conns_sorted_def drop_ticket_def sorted_wrt_map sorted_wrt_filter)

lemma sorted_set: "conns_sorted oc \<Longrightarrow> conns_sorted (set_slot seq slot oc)"
proof -
  have "map fst (oc_connections (set_slot seq slot oc)) = map fst (oc_connections oc)"
    by (simp add: set_slot_def case_prod_unfold)
  moreover have "oc_next (set_slot seq slot oc) = oc_next oc" by (simp add: set_slot_def)
  moreover have "(\<forall>e \<in> set xs. fst e < m) \<longleftrightarrow> (\<forall>n \<in> set (map fst xs). n < m)" for xs :: "(nat \<times> hook_conn) list" and m by simp
  moreover assume "conns_sorted oc"
  ultimately show ?thesis unfolding conns_sorted_def by metis
qed

lemma set_slot_conns:
  "(n, c) \<in> set (oc_connections (set_slot seq slot oc)) \<Longrightarrow>
     \<exists>c0. (n, c0) \<in> set (oc_connections oc) \<and> c = (if n = seq then c0\<lparr>hc_slot := slot\<rparr> else c0)"
  by (auto simp: set_slot_def)

lemma set_slot_seqs [simp]: "fst ` set (oc_connections (set_slot seq slot oc)) = fst ` set (oc_connections oc)"
  by (force simp: set_slot_def)

text \<open>Time passes: what was late stays late.\<close>

lemma late_mono:
  assumes "overtaken_late wait s a b slot" "os_events s' b = os_events s b" "os_events s' a = os_events s a"
    "os_accepted s' a = os_accepted s a" "os_now s \<le> os_now s'"
  shows "overtaken_late wait s' a b slot"
proof -
  have "(case os_events s a of None \<Rightarrow> os_now s | Some (k, u, at) \<Rightarrow> at) \<le> (case os_events s' a of None \<Rightarrow> os_now s' | Some (k, u, at) \<Rightarrow> at)"
    using assms(3,5) by (simp split: option.split)
  note later = order_trans[OF _ this]
  show ?thesis
    unfolding overtaken_late_def
  proof (intro allI impI conjI)
    fix keys st t
    assume "os_events s' b = Some (keys, st, t)"
    then have b: "os_events s b = Some (keys, st, t)" using assms(2) by simp
    show "\<not> slot_same_keys keys st slot" using assms(1) b unfolding overtaken_late_def by blast
    show "\<exists>at. os_events s' a = Some (akeys, ast, at)" if "slot = SlotEvent akeys ast" for akeys ast
      using assms(1,3) b that unfolding overtaken_late_def by metis
    show "os_accepted s' a + wait \<le> (case os_events s' a of None \<Rightarrow> os_now s' | Some (k, u, at) \<Rightarrow> at)" if "slot_pending keys st slot"
      using assms(1) b that later unfolding overtaken_late_def assms(4) by blast
  qed
qed

lemma agrees_mono:
  assumes "conn_agrees s n c" "os_accepted s' n = os_accepted s n" "os_events s' n = os_events s n"
  shows "conn_agrees s' n c"
  using assms unfolding conn_agrees_def by (cases "hc_slot c") auto


lemma accept_ok: "order_ok wait s \<Longrightarrow> os_now s \<le> t \<Longrightarrow> order_ok wait (os_accept t s)"
proof -
  assume ok: "order_ok wait s" and t: "os_now s \<le> t"
  note o = order_okD[OF ok]
  show ?thesis
  proof (rule order_okI)
    show "conns_sorted (os_open (os_accept t s))"
      using o(1) by (auto simp: conns_sorted_def os_accept_def order_admit_def sorted_wrt_append)
    fix n c assume "(n, c) \<in> set (oc_connections (os_open (os_accept t s)))"
    then consider (old) "(n, c) \<in> set (oc_connections (os_open s))"
      | "n = oc_next (os_open s)" "c = \<lparr>hc_accepted_at = t, hc_slot = SlotSilent\<rparr>"
      by (auto simp: os_accept_def order_admit_def)
    then show "conn_agrees (os_accept t s) n c"
    proof cases
      case old
      show ?thesis by (rule agrees_mono[of s]) (use o(2)[OF old] in \<open>auto simp: os_accept_def order_admit_def\<close>)
    next
      case 2
      have "os_events s n = None" using o(3)[of n] 2(1) by (cases "os_events s n") auto
      with 2 show ?thesis by (simp add: conn_agrees_def os_accept_def order_admit_def)
    qed
  next
    fix n e assume "os_events (os_accept t s) n = Some e"
    then show "n < oc_next (os_open (os_accept t s))" using o(3)[of n] by (simp add: os_accept_def order_admit_def less_SucI)
  next
    fix a b slot assume "(a, b, slot) \<in> os_overtook (os_accept t s)"
    then have ab: "(a, b, slot) \<in> os_overtook s" by (simp add: os_accept_def)
    have "overtaken_late wait (os_accept t s) a b slot"
      by (rule late_mono[of wait s]) (use t o(4)[OF ab] in \<open>auto simp: os_accept_def order_admit_def\<close>)
    with o(4)[OF ab] show "a < b \<and> b < oc_next (os_open (os_accept t s)) \<and> os_events (os_accept t s) b \<noteq> None \<and> overtaken_late wait (os_accept t s) a b slot"
      by (auto simp: os_accept_def order_admit_def)
  next
    fix b assume "b \<in> os_turns (os_accept t s)"
    then show "b < oc_next (os_open (os_accept t s))" using o(5)[of b] by (simp add: os_accept_def order_admit_def less_SucI)
    fix a assume "b \<in> os_turns (os_accept t s)" "a \<in> open_seqs (os_accept t s)" "a < b"
    then show "\<exists>slot. (a, b, slot) \<in> os_overtook (os_accept t s)"
      using o(5)[of b a] by (auto simp: os_accept_def order_admit_def open_seqs_def)
  qed
qed

lemma finish_ok: "order_ok wait s \<Longrightarrow> os_now s \<le> t \<Longrightarrow> order_ok wait (os_finish t seq s)"
proof -
  assume ok: "order_ok wait s" and t: "os_now s \<le> t"
  note o = order_okD[OF ok]
  show ?thesis
  proof (rule order_okI)
    show "conns_sorted (os_open (os_finish t seq s))" using o(1) by (simp add: os_finish_def sorted_drop)
    fix n c assume "(n, c) \<in> set (oc_connections (os_open (os_finish t seq s)))"
    then have "(n, c) \<in> set (oc_connections (os_open s))" by (simp add: os_finish_def drop_ticket_def)
    note old = this
    show "conn_agrees (os_finish t seq s) n c" by (rule agrees_mono[of s]) (use o(2)[OF old] in \<open>auto simp: os_finish_def\<close>)
  next
    fix a b slot assume "(a, b, slot) \<in> os_overtook (os_finish t seq s)"
    then have ab: "(a, b, slot) \<in> os_overtook s" by (simp add: os_finish_def)
    have "overtaken_late wait (os_finish t seq s) a b slot"
      by (rule late_mono[of wait s]) (use t o(4)[OF ab] in \<open>auto simp: os_finish_def\<close>)
    with o(4)[OF ab] show "a < b \<and> b < oc_next (os_open (os_finish t seq s)) \<and> os_events (os_finish t seq s) b \<noteq> None \<and> overtaken_late wait (os_finish t seq s) a b slot"
      by (auto simp: os_finish_def drop_ticket_def)
  next
    fix n e assume "os_events (os_finish t seq s) n = Some e"
    then show "n < oc_next (os_open (os_finish t seq s))" using o(3)[of n e] by (simp add: os_finish_def drop_ticket_def)
  next
    fix b assume b: "b \<in> os_turns (os_finish t seq s)"
    then show "b < oc_next (os_open (os_finish t seq s))" using o(5)[of b] by (simp add: os_finish_def drop_ticket_def)
    fix a assume "a \<in> open_seqs (os_finish t seq s)" "a < b"
    with b o(5)[of b a] show "\<exists>slot. (a, b, slot) \<in> os_overtook (os_finish t seq s)" by (auto simp: os_finish_def drop_ticket_def open_seqs_def)
  qed
qed

lemma grant_ok:
  assumes ok: "order_ok wait s" and t: "os_now s \<le> t" and seq: "seq \<in> open_seqs s" "os_events s seq = Some (keys, st, read_at)"
    and due: "turn_is_due (turn_scan wait seq keys st t gave_up (os_open s))"
  shows "order_ok wait (os_grant t seq s)"
proof -
  note o = order_okD[OF ok]
  have late: "overtaken_late wait (os_grant t seq s) a seq (hc_slot c)" if c: "(a, c) \<in> set (oc_connections (os_open s))" "a < seq" for a c
  proof -
    from due c have d: "\<not> slot_same_keys keys st (hc_slot c)" "slot_pending keys st (hc_slot c) \<longrightarrow> hc_accepted_at c + wait \<le> t"
      unfolding turn_due_iff[OF o(1)] by auto
    have "conn_agrees s a c" using o(2)[OF c(1)] by blast
    with d seq(2) show ?thesis
      by (cases "hc_slot c") (auto simp: overtaken_late_def os_grant_def conn_agrees_def slot_pending_def)
  qed
  show ?thesis
  proof (rule order_okI)
    fix n c assume "(n, c) \<in> set (oc_connections (os_open (os_grant t seq s)))"
    then have "(n, c) \<in> set (oc_connections (os_open s))" by (simp add: os_grant_def)
    note old = this
    show "conn_agrees (os_grant t seq s) n c" by (rule agrees_mono[of s]) (use o(2)[OF old] in \<open>auto simp: os_grant_def\<close>)
  next
    fix a b slot assume "(a, b, slot) \<in> os_overtook (os_grant t seq s)"
    then consider "(a, b, slot) \<in> os_overtook s"
      | c where "b = seq" "(a, c) \<in> set (oc_connections (os_open s))" "a < seq" "slot = hc_slot c" by (auto simp: os_grant_def)
    then show "a < b \<and> b < oc_next (os_open (os_grant t seq s)) \<and> os_events (os_grant t seq s) b \<noteq> None \<and> overtaken_late wait (os_grant t seq s) a b slot"
    proof cases
      case 1
      have "overtaken_late wait (os_grant t seq s) a b slot"
        by (rule late_mono[of wait s]) (use t o(4)[OF 1] in \<open>auto simp: os_grant_def\<close>)
      with o(4)[OF 1] show ?thesis by (auto simp: os_grant_def)
    next
      case 2
      with late[OF 2(2,3)] seq o(3)[OF seq(2)] show ?thesis by (auto simp: os_grant_def)
    qed
  next
    show "conns_sorted (os_open (os_grant t seq s))" using o(1) by (simp add: os_grant_def)
  next
    fix n e assume "os_events (os_grant t seq s) n = Some e"
    then show "n < oc_next (os_open (os_grant t seq s))" using o(3)[of n e] by (simp add: os_grant_def)
  next
    fix b assume b: "b \<in> os_turns (os_grant t seq s)"
    then show "b < oc_next (os_open (os_grant t seq s))" using o(5)[of b] o(3)[OF seq(2)] by (auto simp: os_grant_def)
    fix a assume "a \<in> open_seqs (os_grant t seq s)" "a < b"
    with b o(5)[of b a] show "\<exists>slot. (a, b, slot) \<in> os_overtook (os_grant t seq s)" by (fastforce simp: os_grant_def open_seqs_def)
  qed
qed

lemma read_ok:
  assumes ok: "order_ok wait s" and t: "os_now s \<le> t" and seq: "seq \<in> open_seqs s" "os_events s seq = None"
  shows "order_ok wait (os_read t seq kind s)"
proof -
  note o = order_okD[OF ok]
  let ?s = "os_read t seq kind s"
  have next': "oc_next (os_open ?s) = oc_next (os_open s)"
    by (simp add: os_read_def read_line_def set_slot_def drop_ticket_def split: line_kind.split option.split)
  have sorted: "conns_sorted (os_open ?s)"
    using o(1) by (auto simp: os_read_def read_line_def sorted_set sorted_drop split: line_kind.split option.split)
  have seqs: "open_seqs ?s \<subseteq> open_seqs s"
    by (auto simp: open_seqs_def os_read_def read_line_def drop_ticket_def split: line_kind.splits option.splits)
  have ev: "os_events ?s n = os_events s n" if "n \<noteq> seq" for n
    using that by (auto simp: os_read_def read_line_def split: line_kind.split option.split)
  have evs: "os_events ?s seq = None \<or> (\<exists>k st. os_events ?s seq = Some (k, st, t))"
    using seq(2) by (auto simp: os_read_def read_line_def split: line_kind.split option.split)
  have same: "os_accepted ?s = os_accepted s" "os_now ?s = t" "os_turns ?s = os_turns s" "os_overtook ?s = os_overtook s"
    by (simp_all add: os_read_def)
  show ?thesis
  proof (rule order_okI)
    fix n c assume c: "(n, c) \<in> set (oc_connections (os_open ?s))"
    show "conn_agrees ?s n c"
    proof (cases "n = seq")
      case False
      then have "(n, c) \<in> set (oc_connections (os_open s))"
        using c by (auto simp: os_read_def read_line_def set_slot_def drop_ticket_def split: line_kind.splits option.splits)
      note old = this
      show ?thesis by (rule agrees_mono[of s]) (use o(2)[OF old] ev[OF False] in \<open>auto simp: same\<close>)
    next
      case True
      with c o(2) seq(2) show ?thesis
        by (fastforce simp: os_read_def read_line_def set_slot_def drop_ticket_def conn_agrees_def split: line_kind.splits option.splits)
    qed
  next
    fix n e assume "os_events ?s n = Some e"
    then show "n < oc_next (os_open ?s)"
      unfolding next' using o(2,3) ev seq(1) by (cases "n = seq") (auto simp: open_seqs_def)
  next
    fix a b slot assume ab: "(a, b, slot) \<in> os_overtook ?s"
    then have old: "(a, b, slot) \<in> os_overtook s" by (simp add: same)
    note l = o(4)[OF old]
    have b: "b \<noteq> seq" using l seq(2) by auto
    have "overtaken_late wait ?s a b slot"
    proof (cases "a = seq")
      case False
      show ?thesis by (rule late_mono[of wait s]) (use l b t False in \<open>auto simp: ev same\<close>)
    next
      case True
      with l seq(2) evs t ev[OF b] show ?thesis unfolding overtaken_late_def same by fastforce
    qed
    with l ev[OF b] show "a < b \<and> b < oc_next (os_open ?s) \<and> os_events ?s b \<noteq> None \<and> overtaken_late wait ?s a b slot" by (simp add: next')
  qed (use sorted o(5) seqs in \<open>auto simp: next' same\<close>)
qed

interpretation order: step_invariant "\<lambda>s. s = order_new" "order_step wait" "order_ok wait" for wait
proof
  fix s s'
  show "order_ok wait s \<Longrightarrow> order_step wait s s' \<Longrightarrow> order_ok wait s'"
    by (erule order_step.cases) (auto intro: accept_ok read_ok grant_ok finish_ok)
qed (simp add: order_new_ok)

section \<open>The guarantees\<close>

text \<open>
  C24: Events of one session or pane are applied in the order their connections were accepted, with the exceptions the code
  makes. Where an event of an earlier connection would hold the later one's event back, standing and session or pane
  considered, the later one holds a turn while the earlier is still open only after overtaking it, and at that moment the
  earlier had not sent that event. It had announced an attested pane that is not the later event's, or
  announced unproven while the later event is attested; otherwise (silent, or after an announcement the later event
  waits for) its event came no sooner than a whole predecessor wait after its accept.
\<close>

theorem hook_order_kept:
  assumes "(order_step wait)\<^sup>*\<^sup>* order_new s"
    and "os_events s a = Some (akeys, ast, read_at)" "os_events s b = Some (keys, st, t)"
    and "holds_back ast st" "overlaps akeys keys"
  shows "(a < b \<and> a \<in> open_seqs s \<and> b \<in> os_turns s \<longrightarrow> (\<exists>slot. (a, b, slot) \<in> os_overtook s))
    \<and> (\<forall>slot. (a, b, slot) \<in> os_overtook s \<longrightarrow>
         a < b \<and> (\<forall>theirs their_st. slot \<noteq> SlotEvent theirs their_st)
         \<and> (os_accepted s a + wait \<le> read_at
            \<or> (\<exists>pane. slot = SlotAnnounced pane StAttested \<and> hk_pane keys \<noteq> Some pane)
            \<or> (\<exists>pane. slot = SlotAnnounced pane StUnproven \<and> st = StAttested)))"
proof -
  have ok: "order_ok wait s" using order.reachable_inv[OF refl assms(1)] .
  have "a < b \<and> (\<forall>theirs their_st. slot \<noteq> SlotEvent theirs their_st)
      \<and> (os_accepted s a + wait \<le> read_at \<or> (\<exists>pane. slot = SlotAnnounced pane StAttested \<and> hk_pane keys \<noteq> Some pane)
         \<or> (\<exists>pane. slot = SlotAnnounced pane StUnproven \<and> st = StAttested))"
    if "(a, b, slot) \<in> os_overtook s" for slot
  proof -
    have late: "\<not> slot_same_keys keys st slot" "\<And>k c. slot = SlotEvent k c \<Longrightarrow> k = akeys \<and> c = ast"
      "slot_pending keys st slot \<Longrightarrow> os_accepted s a + wait \<le> read_at"
      using order_okD(4)[OF ok that] assms(2,3) unfolding overtaken_late_def by auto
    have "\<exists>pane. slot = SlotAnnounced pane StAttested \<and> hk_pane keys \<noteq> Some pane \<or> slot = SlotAnnounced pane StUnproven \<and> st = StAttested"
      if "\<not> slot_pending keys st slot" "\<And>k c. slot \<noteq> SlotEvent k c"
      using that by (cases slot; cases st) (auto simp: slot_pending_def split: standing.splits)
    moreover have "slot \<noteq> SlotEvent k c" for k c using late(1,2) assms(4,5) by (auto simp: slot_same_keys_def)
    ultimately show ?thesis using late(3) order_okD(4)[OF ok that] by blast
  qed
  with order_okD(5)[OF ok] show ?thesis by blast
qed

text \<open>The connections whose line the gate attests, or that have said nothing.\<close>

definition proven_slot :: "hook_slot \<Rightarrow> bool" where
  "proven_slot slot = (case slot of SlotSilent \<Rightarrow> True | SlotAnnounced _ st \<Rightarrow> st = StAttested | SlotEvent _ st \<Rightarrow> st = StAttested)"

definition without_unproven :: "open_conns \<Rightarrow> open_conns" where
  "without_unproven oc = oc\<lparr>oc_connections := filter (\<lambda>e. proven_slot (hc_slot (snd e))) (oc_connections oc)\<rparr>"

lemma unproven_never_holds:
  "\<not> proven_slot slot \<Longrightarrow> \<not> slot_same_keys keys StAttested slot \<and> \<not> slot_pending keys StAttested slot"
  by (cases slot) (auto simp: proven_slot_def slot_same_keys_def slot_pending_def holds_back_def split: standing.splits)

text \<open>
  C35: a wait for a turn is bounded and no unproven peer adds to it. Once the predecessor wait of every earlier
  connection has passed, an event waits only for events of its own session or pane that are ahead of it
  and may hold it back; and whether an attested event is due never depends on the connections whose line
  the gate does not attest.
\<close>

theorem hook_wait_bounded:
  assumes "(order_step wait)\<^sup>*\<^sup>* order_new s"
  shows "((\<forall>a \<in> open_seqs s. a < seq \<longrightarrow> os_accepted s a + wait \<le> now) \<longrightarrow>
            (turn_is_due (turn_scan wait seq keys st now gave_up (os_open s)) \<longleftrightarrow>
               \<not> (\<exists>a c theirs their_st. (a, c) \<in> set (oc_connections (os_open s)) \<and> a < seq
                    \<and> hc_slot c = SlotEvent theirs their_st \<and> holds_back their_st st \<and> overlaps theirs keys)))
     \<and> (turn_is_due (turn_scan wait seq keys StAttested now gave_up (os_open s)) \<longleftrightarrow>
          turn_is_due (turn_scan wait seq keys StAttested now gave_up (without_unproven (os_open s))))"
proof -
  have ok: "order_ok wait s" using order.reachable_inv[OF refl assms] .
  note sorted = order_okD(1)[OF ok]
  have sorted': "conns_sorted (without_unproven (os_open s))"
    using sorted by (auto simp: without_unproven_def conns_sorted_def sorted_wrt_map sorted_wrt_filter)
  have acc: "hc_accepted_at c = os_accepted s a \<and> a \<in> open_seqs s" if "(a, c) \<in> set (oc_connections (os_open s))" for a c
    using order_okD(2)[OF ok that] that by (force simp: conn_agrees_def open_seqs_def)
  have same: "slot_same_keys keys st slot \<longleftrightarrow> (\<exists>theirs their_st. slot = SlotEvent theirs their_st \<and> holds_back their_st st \<and> overlaps theirs keys)" for slot
    by (cases slot) (auto simp: slot_same_keys_def)
  have "turn_is_due (turn_scan wait seq keys st now gave_up (os_open s)) \<longleftrightarrow>
      (\<forall>(a, c) \<in> set (oc_connections (os_open s)). a < seq \<longrightarrow> \<not> slot_same_keys keys st (hc_slot c))"
    if "\<forall>a \<in> open_seqs s. a < seq \<longrightarrow> os_accepted s a + wait \<le> now"
    unfolding turn_due_iff[OF sorted] using that acc by fastforce
  moreover have "turn_is_due (turn_scan wait seq keys StAttested now gave_up (os_open s)) \<longleftrightarrow>
      turn_is_due (turn_scan wait seq keys StAttested now gave_up (without_unproven (os_open s)))"
    unfolding turn_due_iff[OF sorted] turn_due_iff[OF sorted']
    using unproven_never_holds by (fastforce simp: without_unproven_def)
  ultimately show ?thesis unfolding same by blast
qed

definition sample_keys :: hook_keys where
  "sample_keys = \<lparr>hk_session = ''s'', hk_pane = None\<rparr>"

definition sample_event :: line_kind where
  "sample_event = LineEvent sample_keys (Some StAttested)"

definition sample_waiting :: order_state where
  "sample_waiting = os_read 1 1 sample_event (os_accept 1 (os_accept 0 order_new))"

definition sample_overtaken :: order_state where
  "sample_overtaken = os_read 6 0 sample_event (os_grant 5 1 sample_waiting)"

lemmas sample_order_defs = sample_waiting_def sample_overtaken_def sample_event_def os_read_def os_accept_def os_grant_def
  order_new_def open_conns_new_def order_admit_def read_line_def set_slot_def open_seqs_def

lemma sample_waiting_reach: "(order_step 5)\<^sup>*\<^sup>* order_new sample_waiting"
proof -
  have "order_step 5 order_new (os_accept 0 order_new)" by (rule or_accept) (simp add: order_new_def)
  moreover have "order_step 5 (os_accept 0 order_new) (os_accept 1 (os_accept 0 order_new))"
    by (rule or_accept) (simp add: os_accept_def)
  moreover have "order_step 5 (os_accept 1 (os_accept 0 order_new)) sample_waiting"
    unfolding sample_waiting_def by (rule or_read) (simp_all add: sample_order_defs)
  ultimately show ?thesis by (meson r_into_rtranclp rtranclp_trans)
qed

lemma sample_overtaken_reach: "(order_step 5)\<^sup>*\<^sup>* order_new sample_overtaken"
proof -
  have "order_step 5 sample_waiting (os_grant 5 1 sample_waiting)"
    by (rule or_grant[where keys = sample_keys and st = StAttested and read_at = 1 and gave_up = False])
       (simp_all add: sample_order_defs turn_scan_def look_at_connection_def turn_is_due_def slot_same_keys_def slot_pending_def Let_def)
  moreover have "order_step 5 (os_grant 5 1 sample_waiting) sample_overtaken"
    unfolding sample_overtaken_def by (rule or_read) (simp_all add: sample_order_defs)
  ultimately show ?thesis using sample_waiting_reach by (meson rtranclp.rtrancl_into_rtrancl)
qed

theorem hook_order_kept_witness:
  "(0, 1, SlotSilent) \<in> os_overtook sample_overtaken \<and> os_accepted sample_overtaken 0 + 5 \<le> 6"
proof -
  have "(0, 1, SlotSilent) \<in> os_overtook sample_overtaken" by (simp add: sample_order_defs)
  moreover have "os_events sample_overtaken 0 = Some (sample_keys, StAttested, 6)" "os_events sample_overtaken 1 = Some (sample_keys, StAttested, 1)"
    by (simp_all add: sample_order_defs)
  moreover have "holds_back StAttested StAttested" "overlaps sample_keys sample_keys" by (simp_all add: holds_back_def overlaps_def)
  ultimately show ?thesis using hook_order_kept[OF sample_overtaken_reach] by (metis hook_slot.distinct(1))
qed

theorem hook_wait_bounded_witness:
  "turn_is_due (turn_scan 5 1 sample_keys StAttested 5 False (os_open sample_waiting))"
  using hook_wait_bounded[OF sample_waiting_reach, of 1 5 sample_keys StAttested False]
  by (simp add: sample_order_defs)

end
