(* ===== verification/Prep_Token.thy ===== *)
theory Prep_Token
  imports Deck_Prelude
begin

text \<open>
  The store of preparation tokens, \<^verbatim>\<open>src/src/prep_token.rs\<close>: a queue, oldest first, pruned on every touch
  and capped. Tokens come from a generator the operations take as an argument; the file system identity
  a binding records is read by other code.
\<close>

section \<open>The store\<close>

definition PREP_TOKEN_TTL :: duration where
  "PREP_TOKEN_TTL = from_secs 120"

definition MAX_LIVE_PREP_TOKENS :: nat where
  "MAX_LIVE_PREP_TOKENS = 64"

record inode_identity =
  ii_dev :: nat
  ii_ino :: nat

record prep_binding =
  pb_project_dir :: string
  pb_project_identity :: "inode_identity option"
  pb_config_revision :: string
  pb_orchestration :: string
  pb_context_path :: string
  pb_context_identity :: "inode_identity option"
  pb_context_digest :: string
  pb_coordinator_prompt :: string

record prep_record =
  pr_token :: string
  pr_issued_at :: instant
  pr_binding :: prep_binding

type_synonym prep_tokens = "prep_record list"

definition prep_tokens_new :: prep_tokens where
  "prep_tokens_new = []"

text \<open>The prune loop: from the front, until one is young enough.\<close>

fun prune :: "instant \<Rightarrow> prep_tokens \<Rightarrow> prep_tokens" where
  "prune now [] = []"
| "prune now (front # live) = (if PREP_TOKEN_TTL \<le> now - pr_issued_at front then prune now live else front # live)"

text \<open>The eviction loop.\<close>

fun evict :: "prep_tokens \<Rightarrow> prep_tokens" where
  "evict [] = []"
| "evict (front # live) = (if MAX_LIVE_PREP_TOKENS \<le> length (front # live) then evict live else front # live)"

definition prep_issue :: "instant \<Rightarrow> prep_binding \<Rightarrow> string \<Rightarrow> prep_tokens \<Rightarrow> prep_tokens \<times> string" where
  "prep_issue now b token live =
     (evict (prune now live) @ [\<lparr>pr_token = token, pr_issued_at = now, pr_binding = b\<rparr>], token)"

definition prep_binding_of :: "string \<Rightarrow> instant \<Rightarrow> prep_tokens \<Rightarrow> prep_tokens \<times> prep_binding option" where
  "prep_binding_of token now live =
     (let live1 = prune now live in (live1, map_option pr_binding (find (\<lambda>r. pr_token r = token) live1)))"

definition prep_revoke :: "string \<Rightarrow> prep_tokens \<Rightarrow> prep_tokens \<times> bool" where
  "prep_revoke token live =
     (let live1 = filter (\<lambda>r. pr_token r \<noteq> token) live in (live1, length live1 \<noteq> length live))"

definition prep_revoke_context_path :: "string \<Rightarrow> prep_tokens \<Rightarrow> prep_tokens \<times> bool" where
  "prep_revoke_context_path path live =
     (let live1 = filter (\<lambda>r. pb_context_path (pr_binding r) \<noteq> path) live in (live1, length live1 \<noteq> length live))"

section \<open>Histories\<close>

text \<open>What callers did to the store, newest first.\<close>

datatype prep_event =
    PIssue instant prep_binding string
  | PLookup instant string
  | PRevoke string
  | PRevokePath string

fun prep_apply :: "prep_event \<Rightarrow> prep_tokens \<Rightarrow> prep_tokens" where
  "prep_apply (PIssue now b token) live = fst (prep_issue now b token live)"
| "prep_apply (PLookup now token) live = fst (prep_binding_of token now live)"
| "prep_apply (PRevoke token) live = fst (prep_revoke token live)"
| "prep_apply (PRevokePath path) live = fst (prep_revoke_context_path path live)"

fun prep_live :: "prep_event list \<Rightarrow> prep_tokens" where
  "prep_live [] = prep_tokens_new"
| "prep_live (e # earlier) = prep_apply e (prep_live earlier)"

fun issued_token :: "prep_event \<Rightarrow> string list" where
  "issued_token (PIssue now b token) = [token]"
| "issued_token _ = []"

fun event_time :: "prep_event \<Rightarrow> instant list" where
  "event_time (PIssue now b token) = [now]"
| "event_time (PLookup now token) = [now]"
| "event_time _ = []"

text \<open>The clock never runs back, and no token is minted twice.\<close>

definition orderly :: "prep_event list \<Rightarrow> bool" where
  "orderly h \<longleftrightarrow> sorted_wrt (\<ge>) (concat (map event_time h)) \<and> distinct (concat (map issued_token h))"

fun revokes :: "string \<Rightarrow> prep_binding \<Rightarrow> prep_event \<Rightarrow> bool" where
  "revokes token b (PRevoke t) \<longleftrightarrow> t = token"
| "revokes token b (PRevokePath path) \<longleftrightarrow> path = pb_context_path b"
| "revokes token b _ \<longleftrightarrow> False"

section \<open>The queue\<close>

lemma prune_dropWhile: "prune now live = dropWhile (\<lambda>r. PREP_TOKEN_TTL \<le> now - pr_issued_at r) live"
  by (induction live) auto

lemma evict_drop: "evict live = drop (length live - (MAX_LIVE_PREP_TOKENS - 1)) live"
proof (induction live)
  case (Cons r live)
  show ?case
  proof (cases "MAX_LIVE_PREP_TOKENS \<le> length (r # live)")
    case True
    then have "length (r # live) - (MAX_LIVE_PREP_TOKENS - 1) = Suc (length live - (MAX_LIVE_PREP_TOKENS - 1))"
      by (simp add: MAX_LIVE_PREP_TOKENS_def)
    with True Cons show ?thesis by simp
  qed (auto simp: MAX_LIVE_PREP_TOKENS_def)
qed simp

lemma set_apply:
  "set (prep_apply e live) \<subseteq>
     set live \<union> (case e of PIssue now b token \<Rightarrow> {\<lparr>pr_token = token, pr_issued_at = now, pr_binding = b\<rparr>} | _ \<Rightarrow> {})"
  by (cases e)
     (auto simp: prep_issue_def prep_binding_of_def prep_revoke_def prep_revoke_context_path_def Let_def prune_dropWhile evict_drop
       dest!: in_set_dropD set_dropWhileD)

lemma length_live: "length (prep_live h) \<le> MAX_LIVE_PREP_TOKENS"
proof (induction h)
  case (Cons e h)
  have "length (prune now live) \<le> length live" for now live by (simp add: prune_dropWhile length_dropWhile_le)
  with Cons show ?case
    by (cases e)
       (auto simp: prep_issue_def prep_binding_of_def prep_revoke_def prep_revoke_context_path_def Let_def evict_drop
         MAX_LIVE_PREP_TOKENS_def intro: le_trans length_filter_le)
qed (simp add: prep_tokens_new_def)

text \<open>Every record is one an event of the history issued.\<close>

lemma live_issued: "r \<in> set (prep_live h) \<Longrightarrow> PIssue (pr_issued_at r) (pr_binding r) (pr_token r) \<in> set h"
proof (induction h)
  case (Cons e h)
  then show ?case using set_apply[of e "prep_live h"] by (cases e) auto
qed (simp add: prep_tokens_new_def)

lemma orderly_Cons: "orderly (e # h) \<Longrightarrow> orderly h"
  by (simp add: orderly_def sorted_wrt_append)

lemma sorted_apply:
  assumes "sorted_wrt (\<lambda>r q. pr_issued_at r \<le> pr_issued_at q) live"
    "\<And>now b token r. e = PIssue now b token \<Longrightarrow> r \<in> set live \<Longrightarrow> pr_issued_at r \<le> now"
  shows "sorted_wrt (\<lambda>r q. pr_issued_at r \<le> pr_issued_at q) (prep_apply e live)"
  using assms
  by (cases e)
     (auto simp: prep_issue_def prep_binding_of_def prep_revoke_def prep_revoke_context_path_def Let_def prune_dropWhile evict_drop
       sorted_wrt_append sorted_wrt_filter sorted_wrt_drop sorted_wrt_dropWhile dest!: in_set_dropD set_dropWhileD)

lemma live_sorted: "orderly h \<Longrightarrow> sorted_wrt (\<lambda>r q. pr_issued_at r \<le> pr_issued_at q) (prep_live h)"
proof (induction h)
  case (Cons e h)
  have "pr_issued_at r \<le> now" if "e = PIssue now b token" "r \<in> set (prep_live h)" for now b token r
  proof -
    have "pr_issued_at r \<in> set (concat (map event_time h))" using live_issued[OF that(2)] by force
    with Cons.prems that(1) show ?thesis by (auto simp: orderly_def)
  qed
  with Cons show ?case using orderly_Cons by (auto intro!: sorted_apply)
qed (simp add: prep_tokens_new_def)

lemma dropWhile_sorted_young:
  assumes "sorted_wrt (\<lambda>r q. pr_issued_at r \<le> pr_issued_at q) live" "r \<in> set (prune now live)"
  shows "now - pr_issued_at r < PREP_TOKEN_TTL"
  using assms
proof (induction live)
  case (Cons q live)
  then show ?case by (cases "PREP_TOKEN_TTL \<le> now - pr_issued_at q") (auto simp: not_le)
qed simp

lemma issue_unique:
  assumes "orderly h" "PIssue t b token \<in> set h" "PIssue t' b' token \<in> set h"
  shows "t = t' \<and> b = b'"
  using assms
proof (induction h)
  case (Cons e h)
  have "token \<in> set (concat (map issued_token h))" if "PIssue u c token \<in> set h" for u c using that by force
  with Cons show ?case using orderly_Cons[OF Cons.prems(1)] by (auto simp: orderly_def)
qed simp

text \<open>A revoked token is gone for good.\<close>

lemma revoked_gone:
  assumes "orderly (later @ PIssue t b token # earlier)" "\<exists>e \<in> set later. revokes token b e"
    "r \<in> set (prep_live (later @ PIssue t b token # earlier))"
  shows "pr_token r \<noteq> token"
  using assms
proof (induction later)
  case (Cons e later)
  let ?h = "later @ PIssue t b token # earlier"
  have o: "orderly ?h" using Cons.prems(1) orderly_Cons by simp
  have own: "pr_binding q = b" if "q \<in> set (prep_live ?h)" "pr_token q = token" for q
    using issue_unique[OF o, of t b token "pr_issued_at q" "pr_binding q"] live_issued[OF that(1)] that(2) by auto
  have old: "pr_token r \<noteq> token" if "\<exists>e \<in> set later. revokes token b e" "r \<in> set (prep_live ?h)"
    using Cons.IH[OF o that] .
  have new: "s \<noteq> token" if "e = PIssue now c s" for now c s
    using Cons.prems(1) that by (auto simp: orderly_def)
  show ?case
  proof (cases "revokes token b e")
    case True
    with Cons.prems(3) own show ?thesis
      by (cases e) (auto simp: prep_revoke_def prep_revoke_context_path_def Let_def)
  next
    case False
    with Cons.prems(2) have "\<exists>e \<in> set later. revokes token b e" by auto
    with old new Cons.prems(3) set_apply[of e "prep_live ?h"] show ?thesis by (cases e) auto
  qed
qed simp

text \<open>A young record that is not revoked stays in the queue while few are issued after it.\<close>

definition kept_with :: "nat \<Rightarrow> prep_record \<Rightarrow> prep_tokens \<Rightarrow> bool" where
  "kept_with n r live \<longleftrightarrow> (\<exists>xs ys. live = xs @ r # ys \<and> length ys \<le> n)"

lemma kept_prune:
  assumes "kept_with n r live" "now - pr_issued_at r < PREP_TOKEN_TTL"
  shows "kept_with n r (prune now live)"
proof -
  from assms(1) obtain xs ys where l: "live = xs @ r # ys" "length ys \<le> n" by (auto simp: kept_with_def)
  have "prune now (xs @ r # ys) = prune now xs @ r # ys"
    using assms(2) by (induction xs) auto
  with l show ?thesis by (auto simp: kept_with_def)
qed

lemma kept_filter: "kept_with n r live \<Longrightarrow> P r \<Longrightarrow> kept_with n r (filter P live)"
  unfolding kept_with_def
proof (elim exE conjE)
  fix xs ys
  assume "P r" "live = xs @ r # ys" "length ys \<le> n"
  then have "filter P live = filter P xs @ r # filter P ys" "length (filter P ys) \<le> n"
    using length_filter_le[of P ys] by (simp, linarith)
  then show "\<exists>xs ys. filter P live = xs @ r # ys \<and> length ys \<le> n" by blast
qed

lemma kept_evict:
  assumes "kept_with n r live" "Suc n < MAX_LIVE_PREP_TOKENS"
  shows "kept_with n r (evict live)"
proof -
  from assms(1) obtain xs ys where l: "live = xs @ r # ys" "length ys \<le> n" by (auto simp: kept_with_def)
  have "length live - (MAX_LIVE_PREP_TOKENS - 1) \<le> length xs" using l assms(2) by (simp add: MAX_LIVE_PREP_TOKENS_def)
  then have "evict live = drop (length live - (MAX_LIVE_PREP_TOKENS - 1)) xs @ r # ys" by (simp add: evict_drop l)
  with l(2) show ?thesis by (auto simp: kept_with_def)
qed

lemma kept_append: "kept_with n r live \<Longrightarrow> kept_with (Suc n) r (live @ [q])"
  by (auto simp: kept_with_def) (metis append_Cons append_assoc length_append_singleton not_less_eq_eq)

lemma young_kept:
  assumes "orderly (later @ PIssue t b token # earlier)" "\<forall>e \<in> set later. \<not> revokes token b e"
    and "\<forall>now \<in> set (concat (map event_time later)). now - t < PREP_TOKEN_TTL"
    and "length (concat (map issued_token later)) < MAX_LIVE_PREP_TOKENS"
  shows "kept_with (length (concat (map issued_token later))) \<lparr>pr_token = token, pr_issued_at = t, pr_binding = b\<rparr>
     (prep_live (later @ PIssue t b token # earlier))"
  using assms
proof (induction later)
  case Nil
  show ?case by (auto simp: prep_issue_def kept_with_def)
next
  case (Cons e later)
  let ?h = "later @ PIssue t b token # earlier" and ?r = "\<lparr>pr_token = token, pr_issued_at = t, pr_binding = b\<rparr>"
  let ?n = "length (concat (map issued_token later))"
  have "orderly ?h" using Cons.prems(1) orderly_Cons by simp
  with Cons have IH: "kept_with ?n ?r (prep_live ?h)" by simp
  have new: "s \<noteq> token" if "e = PIssue now c s" for now c s
    using Cons.prems(1) that by (auto simp: orderly_def)
  show ?case
  proof (cases e)
    case (PIssue now c s)
    have "kept_with ?n ?r (evict (prune now (prep_live ?h)))"
      using IH Cons.prems(3,4) PIssue by (intro kept_evict kept_prune) auto
    from kept_append[OF this] show ?thesis by (simp add: PIssue prep_issue_def)
  next
    case (PLookup now s)
    with IH Cons.prems(3) show ?thesis by (simp add: prep_binding_of_def Let_def kept_prune)
  qed (use IH Cons.prems(2) in \<open>auto simp: prep_revoke_def prep_revoke_context_path_def Let_def intro!: kept_filter\<close>)
qed

section \<open>The guarantees\<close>

text \<open>
  C36: the store holds at most 64 records, and a token names the binding it was issued for, and nothing else,
  exactly while it should: a lookup answers only with that binding, only within two minutes of the
  issue and only if neither the token nor its context file was revoked; and within that time, unless
  64 more were issued, it does answer.
\<close>

theorem prep_token_binds:
  assumes "h = later @ PIssue t b token # earlier" "orderly (PLookup now token # h)"
  shows "length (prep_live h) \<le> MAX_LIVE_PREP_TOKENS
     \<and> (\<forall>b'. snd (prep_binding_of token now (prep_live h)) = Some b' \<longrightarrow>
          b' = b \<and> now - t < PREP_TOKEN_TTL \<and> \<not> (\<exists>e \<in> set later. revokes token b e))
     \<and> (now - t < PREP_TOKEN_TTL \<and> \<not> (\<exists>e \<in> set later. revokes token b e)
        \<and> length (concat (map issued_token later)) < MAX_LIVE_PREP_TOKENS \<longrightarrow>
          snd (prep_binding_of token now (prep_live h)) = Some b)"
proof -
  have o: "orderly h" using assms(2) orderly_Cons by blast
  have found: "PIssue (pr_issued_at r) (pr_binding r) token \<in> set h \<and> r \<in> set (prune now (prep_live h))"
    if "find (\<lambda>r. pr_token r = token) (prune now (prep_live h)) = Some r" for r
  proof -
    have r: "r \<in> set (prune now (prep_live h))" "pr_token r = token" using that by (auto simp: find_Some_iff nth_mem)
    then have "r \<in> set (prep_live h)" by (auto simp: prune_dropWhile dest: set_dropWhileD)
    from live_issued[OF this] r show ?thesis by simp
  qed
  have own: "PIssue t b token \<in> set h" by (simp add: assms(1))
  have "b' = b \<and> now - t < PREP_TOKEN_TTL \<and> \<not> (\<exists>e \<in> set later. revokes token b e)"
    if "snd (prep_binding_of token now (prep_live h)) = Some b'" for b'
  proof -
    from that obtain r where r: "find (\<lambda>r. pr_token r = token) (prune now (prep_live h)) = Some r" "b' = pr_binding r"
      by (auto simp: prep_binding_of_def Let_def)
    have "pr_token r = token" using r(1) by (auto simp: find_Some_iff)
    have same: "pr_issued_at r = t" "pr_binding r = b" using issue_unique[OF o own] found[OF r(1)] by blast+
    have "now - t < PREP_TOKEN_TTL" using dropWhile_sorted_young[OF live_sorted[OF o]] found[OF r(1)] same by blast
    moreover have "r \<in> set (prep_live h)" using found[OF r(1)] by (auto simp: prune_dropWhile dest: set_dropWhileD)
    then have "\<not> (\<exists>e \<in> set later. revokes token b e)"
      using revoked_gone[of later t b token earlier r] o \<open>pr_token r = token\<close> unfolding assms(1) by blast
    ultimately show ?thesis using r(2) same by blast
  qed
  moreover have "snd (prep_binding_of token now (prep_live h)) = Some b"
    if a: "now - t < PREP_TOKEN_TTL" "\<not> (\<exists>e \<in> set later. revokes token b e)" "length (concat (map issued_token later)) < MAX_LIVE_PREP_TOKENS"
  proof -
    have "u \<le> now" if "u \<in> set (concat (map event_time later))" for u
      using assms(2) that unfolding orderly_def assms(1) by auto
    then have "\<forall>u \<in> set (concat (map event_time later)). u - t < PREP_TOKEN_TTL" using a(1) by (meson diff_le_mono le_less_trans)
    with young_kept[OF o[unfolded assms(1)]] a(2,3) have
      "kept_with (length (concat (map issued_token later))) \<lparr>pr_token = token, pr_issued_at = t, pr_binding = b\<rparr> (prep_live h)"
      unfolding assms(1) by blast
    from kept_prune[OF this, of now] a(1) have "\<lparr>pr_token = token, pr_issued_at = t, pr_binding = b\<rparr> \<in> set (prune now (prep_live h))"
      by (auto simp: kept_with_def)
    then have "find (\<lambda>r. pr_token r = token) (prune now (prep_live h)) \<noteq> None" by (auto simp: find_None_iff)
    then obtain r where r: "find (\<lambda>r. pr_token r = token) (prune now (prep_live h)) = Some r" by blast
    have "pr_binding r = b" using issue_unique[OF o own] found[OF r] by blast
    with r show ?thesis by (simp add: prep_binding_of_def Let_def)
  qed
  ultimately show ?thesis using length_live by blast
qed

definition sample_binding :: prep_binding where
  "sample_binding =
     \<lparr>pb_project_dir = ''/p'', pb_project_identity = None, pb_config_revision = ''r'', pb_orchestration = ''o'',
      pb_context_path = ''/p/c'', pb_context_identity = None, pb_context_digest = ''d'', pb_coordinator_prompt = ''go''\<rparr>"

theorem prep_token_binds_witness:
  "snd (prep_binding_of ''prep-1'' (from_secs 60) (prep_live [PRevoke ''prep-2'', PIssue (from_secs 1) sample_binding ''prep-1'']))
     = Some sample_binding"
  using prep_token_binds[of "[PRevoke ''prep-2'', PIssue (from_secs 1) sample_binding ''prep-1'']" "[PRevoke ''prep-2'']" "from_secs 1"
      sample_binding "''prep-1''" "[]" "from_secs 60"]
  by (simp add: orderly_def PREP_TOKEN_TTL_def MAX_LIVE_PREP_TOKENS_def from_secs_def)

end
