(* ===== verification/Evidence_State.thy ===== *)
theory Evidence_State
  imports Rust_Str "HOL-Library.Word"
begin

text \<open>
  Whether the frame the deck reads for an agent was drawn for the terminal the agent has now:
  \<^verbatim>\<open>src/src/evidence_state.rs\<close>, with the metered parser it runs, \<^verbatim>\<open>src/src/vt_work.rs\<close>, and the marker
  search and the set of widths of \<^verbatim>\<open>src/src/doorbell_screen.rs\<close>.

  The terminal emulator (the crate \<^verbatim>\<open>vt100\<close>) and its tokenizer (the crate \<^verbatim>\<open>vte\<close>) are parameters, the
  record \<open>vt_lib\<close>: \<open>'v\<close> is a parser with its screen, \<open>'t\<close> the state of a tokenizer, which answers a byte
  with the actions it dispatches.
\<close>

unbundle bit_operations_syntax

section \<open>What a byte costs\<close>

definition BYTE_UNITS :: nat where
  "BYTE_UNITS = 64"

text \<open>The parameters of a sequence: how many there are, and each with its subparameters.\<close>

record vte_params =
  vp_len :: nat
  vp_groups :: "nat list list"

datatype perform =
    PfPrint
  | PfExecute char
  | PfEsc string char
  | PfCsi vte_params string char
  | PfOther

record ('v, 't) vt_lib =
  vl_new :: "nat \<Rightarrow> nat \<Rightarrow> 'v"
  vl_process :: "char \<Rightarrow> 'v \<Rightarrow> 'v"
  vl_size :: "'v \<Rightarrow> nat \<times> nat"
  vl_cursor_col :: "'v \<Rightarrow> nat"
  vl_shadow_new :: 't
  vl_advance :: "char \<Rightarrow> 't \<Rightarrow> 't \<times> perform list"

definition axis :: "nat \<Rightarrow> nat" where
  "axis v = (if v = 0 then 1 else v)"

definition vt_parser :: "('v, 't) vt_lib \<Rightarrow> nat \<Rightarrow> nat \<Rightarrow> 'v" where
  "vt_parser lib rows cols = vl_new lib (axis rows) (axis cols)"

record pricing =
  pc_rows :: nat
  pc_cols :: nat
  pc_col :: nat
  pc_units :: nat
  pc_alternate :: bool

definition pc_scroll :: "pricing \<Rightarrow> nat" where
  "pc_scroll p = pc_cols p + pc_rows p"

definition pc_grid :: "pricing \<Rightarrow> nat" where
  "pc_grid p = pc_rows p * pc_cols p"

definition pc_lines :: "nat \<Rightarrow> pricing \<Rightarrow> nat" where
  "pc_lines n p = min n (pc_rows p) * pc_cols p + pc_rows p"

definition charge :: "nat \<Rightarrow> pricing \<Rightarrow> pricing" where
  "charge n p = p\<lparr>pc_units := pc_units p + n\<rparr>"

definition first_param :: "vte_params \<Rightarrow> nat \<Rightarrow> nat" where
  "first_param params dflt =
     (let first = (case vp_groups params of [] \<Rightarrow> 0 | g # _ \<Rightarrow> (case g of [] \<Rightarrow> 0 | v # _ \<Rightarrow> v))
      in if first = 0 then dflt else first)"

definition price_print :: "pricing \<Rightarrow> pricing" where
  "price_print p =
     (let p1 = charge 1 p in if pc_cols p1 < pc_col p1 + 2 then charge (pc_scroll p1) p1 else p1)"

definition price_execute :: "char \<Rightarrow> pricing \<Rightarrow> pricing" where
  "price_execute b p = (if 10 \<le> byte_of b \<and> byte_of b \<le> 12 then charge (pc_scroll p) p else p)"

definition price_esc :: "string \<Rightarrow> char \<Rightarrow> pricing \<Rightarrow> pricing" where
  "price_esc intermediates b p =
     (if intermediates \<noteq> [] then p
      else if b = CHR ''M'' then charge (pc_scroll p) p
      else if b = CHR ''c'' then (charge (16 * pc_grid p + pc_rows p) p)\<lparr>pc_alternate := False\<rparr>
      else p)"

definition price_alternate :: "vte_params \<Rightarrow> char \<Rightarrow> pricing \<Rightarrow> pricing" where
  "price_alternate params action p =
     (let screens = length (filter (\<lambda>g. g = [47] \<or> g = [1049]) (vp_groups params));
          p1 = charge (screens * pc_grid p) p
      in if 0 < screens \<and> action = CHR ''h'' \<and> \<not> pc_alternate p1
         then (charge (16 * pc_grid p1) p1)\<lparr>pc_alternate := True\<rparr>
         else p1)"

definition price_csi :: "vte_params \<Rightarrow> string \<Rightarrow> char \<Rightarrow> pricing \<Rightarrow> pricing" where
  "price_csi params intermediates action p0 =
     (let p = charge (vp_len params) p0;
          plain = (intermediates = []);
          private = (intermediates \<noteq> [] \<and> hd intermediates = CHR ''?'')
      in if (plain \<or> private) \<and> action = CHR ''J'' then charge (pc_grid p + 4 * pc_cols p) p
         else if (plain \<or> private) \<and> action = CHR ''K'' \<or> plain \<and> action = CHR ''X'' then charge (4 * pc_cols p) p
         else if plain \<and> (action = CHR ''@'' \<or> action = CHR ''P'') then charge (pc_cols p) p
         else if plain \<and> List.member ''LMST'' action then charge (pc_lines (first_param params 1) p) p
         else if plain \<and> action = CHR ''b''
           then let n = first_param params 1; rows_filled = 2 * n div max (pc_cols p) 1 + 1
                in charge (n * BYTE_UNITS + rows_filled * pc_scroll p) p
         else if private \<and> (action = CHR ''h'' \<or> action = CHR ''l'') then price_alternate params action p
         else p)"

fun price_action :: "pricing \<Rightarrow> perform \<Rightarrow> pricing" where
  "price_action p PfPrint = price_print p"
| "price_action p (PfExecute b) = price_execute b p"
| "price_action p (PfEsc intermediates b) = price_esc intermediates b p"
| "price_action p (PfCsi params intermediates action) = price_csi params intermediates action p"
| "price_action p PfOther = p"

section \<open>The metered parser\<close>

record 't work_meter =
  wm_shadow :: 't
  wm_alternate :: bool

definition work_meter_new :: "('v, 't) vt_lib \<Rightarrow> 't work_meter" where
  "work_meter_new lib = \<lparr>wm_shadow = vl_shadow_new lib, wm_alternate = False\<rparr>"

definition meter_price :: "('v, 't) vt_lib \<Rightarrow> char \<Rightarrow> 'v \<Rightarrow> 't work_meter \<Rightarrow> 't work_meter \<times> nat" where
  "meter_price lib byte screen m =
     (let (rows, cols) = vl_size lib screen;
          start = \<lparr>pc_rows = rows, pc_cols = cols, pc_col = vl_cursor_col lib screen, pc_units = BYTE_UNITS,
                   pc_alternate = wm_alternate m\<rparr>;
          (shadow, actions) = vl_advance lib byte (wm_shadow m);
          done = foldl price_action start actions
      in (\<lparr>wm_shadow = shadow, wm_alternate = pc_alternate done\<rparr>, pc_units done))"

record ('v, 't) metered_parser =
  mp_parser :: 'v
  mp_meter :: "'t work_meter"
  mp_spent :: nat

definition metered_new :: "('v, 't) vt_lib \<Rightarrow> nat \<Rightarrow> nat \<Rightarrow> ('v, 't) metered_parser" where
  "metered_new lib rows cols =
     \<lparr>mp_parser = vt_parser lib rows cols, mp_meter = work_meter_new lib, mp_spent = 0\<rparr>"

definition saturating_add :: "nat \<Rightarrow> nat \<Rightarrow> nat" where
  "saturating_add a b = min (a + b) u64_max"

definition feed_byte ::
  "('v, 't) vt_lib \<Rightarrow> char \<Rightarrow> nat \<Rightarrow> ('v, 't) metered_parser \<Rightarrow> bool \<times> ('v, 't) metered_parser" where
  "feed_byte lib byte limit p =
     (let (meter, price) = meter_price lib byte (mp_parser p) (mp_meter p);
          p1 = p\<lparr>mp_meter := meter\<rparr>;
          after = saturating_add (mp_spent p1) price
      in if limit < after then (False, p1)
         else (True, p1\<lparr>mp_spent := after, mp_parser := vl_process lib byte (mp_parser p1)\<rparr>))"

text \<open>The iteration that stops at the first byte refused, with its index.\<close>

fun feed_all ::
  "('v, 't) vt_lib \<Rightarrow> nat \<Rightarrow> string \<Rightarrow> ('v, 't) metered_parser \<Rightarrow> nat option \<times> ('v, 't) metered_parser" where
  "feed_all lib limit [] p = (None, p)"
| "feed_all lib limit (b # bs) p =
     (case feed_byte lib b limit p of
        (False, p1) \<Rightarrow> (Some 0, p1)
      | (True, p1) \<Rightarrow> (case feed_all lib limit bs p1 of (refused, p2) \<Rightarrow> (map_option Suc refused, p2)))"

section \<open>Markers and widths\<close>

definition windows :: "nat \<Rightarrow> 'a list \<Rightarrow> 'a list list" where
  "windows n xs = map (\<lambda>i. take n (drop i xs)) [0..<length xs + 1 - n]"

definition find_marker :: "string \<Rightarrow> string \<Rightarrow> nat option" where
  "find_marker bytes needle =
     (if needle = [] then None else position (\<lambda>w. w = needle) (windows (length needle) bytes))"

type_synonym widths_seen = "64 word list"

definition widths_record :: "nat \<Rightarrow> widths_seen \<Rightarrow> widths_seen" where
  "widths_record cols seen = seen[cols div 64 := (seen ! (cols div 64)) OR push_bit (cols mod 64) 1]"

definition widths_had :: "nat \<Rightarrow> widths_seen \<Rightarrow> bool" where
  "widths_had cols seen \<longleftrightarrow> (seen ! (cols div 64)) AND push_bit (cols mod 64) 1 \<noteq> 0"

definition widths_of :: "nat list \<Rightarrow> widths_seen" where
  "widths_of widths = foldl (\<lambda>seen cols. widths_record cols seen) (replicate 1024 0) widths"

definition widths_list :: "widths_seen \<Rightarrow> nat list" where
  "widths_list seen = filter (\<lambda>w. widths_had w seen) [0..<65536]"

section \<open>The evidence\<close>

definition EVIDENCE_CELLS_MAX :: nat where
  "EVIDENCE_CELLS_MAX = 2 ^ 18"

definition EVIDENCE_WORK_PER_PUSH :: nat where
  "EVIDENCE_WORK_PER_PUSH = 5000000"

definition within_budget :: "nat \<Rightarrow> nat \<Rightarrow> bool" where
  "within_budget rows cols \<longleftrightarrow> max rows 1 * max cols 1 \<le> EVIDENCE_CELLS_MAX"

datatype edge_reason = Resize | NudgeShrink | NudgeRestore | ProfileLearned

fun edge_reason_str :: "edge_reason \<Rightarrow> string" where
  "edge_reason_str Resize = ''resize''"
| "edge_reason_str NudgeShrink = ''nudge_shrink''"
| "edge_reason_str NudgeRestore = ''nudge_restore''"
| "edge_reason_str ProfileLearned = ''profile_learned''"

datatype evidence_status =
    EvUnprofiled
  | EvPending nat "nat option"
  | EvClean nat
  | EvDirty nat edge_reason
  | EvGeometryUnknown nat
  | EvOverBudget nat
  | EvWorkOverBudget nat

fun evidence_status_str :: "evidence_status \<Rightarrow> string" where
  "evidence_status_str EvUnprofiled = ''unprofiled''"
| "evidence_status_str (EvPending _ _) = ''pending''"
| "evidence_status_str (EvClean _) = ''clean''"
| "evidence_status_str (EvDirty _ _) = ''dirty''"
| "evidence_status_str (EvGeometryUnknown _) = ''geometry_unknown''"
| "evidence_status_str (EvOverBudget _) = ''geometry_over_budget''"
| "evidence_status_str (EvWorkOverBudget _) = ''work_over_budget''"

record evidence_change =
  ec_from :: evidence_status
  ec_to :: evidence_status
  ec_layout_epoch :: nat
  ec_out_seq :: nat
  ec_marker_seq :: "nat option"

record frame_mark =
  fm_layout_epoch :: nat
  fm_out_seq :: nat

text \<open>Of a screen profile only what the evidence asks of it.\<close>

record 'v screen_profile =
  sp_redraw_marker :: string
  sp_width_witness :: "'v \<Rightarrow> widths_seen \<Rightarrow> bool"

record ('v, 't) evidence_st =
  es_profile :: "'v screen_profile option"
  es_rows :: nat
  es_cols :: nat
  es_layout_epoch :: nat
  es_out_seq :: nat
  es_status :: evidence_status
  es_parser :: "('v, 't) metered_parser option"
  es_widths :: widths_seen
  es_tail :: string

definition evidence_new :: "('v, 't) vt_lib \<Rightarrow> 'v screen_profile option \<Rightarrow> nat \<Rightarrow> nat \<Rightarrow> ('v, 't) evidence_st" where
  "evidence_new lib profile rows cols =
     (let (status, parser) =
        (case profile of
           Some _ \<Rightarrow> (if \<not> within_budget rows cols then (EvOverBudget 0, None)
                      else (EvPending 0 None, Some (metered_new lib rows cols)))
         | None \<Rightarrow> (EvUnprofiled, None))
      in \<lparr>es_profile = profile, es_rows = rows, es_cols = cols, es_layout_epoch = 0, es_out_seq = 0,
          es_status = status, es_parser = parser, es_widths = widths_of [cols], es_tail = []\<rparr>)"

definition parser_cells :: "('v, 't) vt_lib \<Rightarrow> ('v, 't) evidence_st \<Rightarrow> nat" where
  "parser_cells lib es =
     (case es_parser es of None \<Rightarrow> 0 | Some p \<Rightarrow> (case vl_size lib (mp_parser p) of (rows, cols) \<Rightarrow> rows * cols))"

text \<open>A frame is the parser's screen, which \<^verbatim>\<open>Grid::of\<close> copies, with its place in the output.\<close>

definition clean_frame :: "('v, 't) evidence_st \<Rightarrow> ('v \<times> nat) option" where
  "clean_frame es =
     (case (es_status es, es_parser es) of
        (EvClean _, Some p) \<Rightarrow> Some (mp_parser p, es_out_seq es)
      | _ \<Rightarrow> None)"

definition clean_frame_marked :: "('v, 't) evidence_st \<Rightarrow> (('v \<times> nat) \<times> frame_mark) option" where
  "clean_frame_marked es =
     map_option (\<lambda>g. (g, \<lparr>fm_layout_epoch = es_layout_epoch es, fm_out_seq = es_out_seq es\<rparr>)) (clean_frame es)"

definition frame_unchanged :: "frame_mark \<Rightarrow> ('v, 't) evidence_st \<Rightarrow> bool" where
  "frame_unchanged mark es \<longleftrightarrow>
     (case es_status es of EvClean _ \<Rightarrow> True | _ \<Rightarrow> False) \<and> es_parser es \<noteq> None
     \<and> es_layout_epoch es = fm_layout_epoch mark \<and> es_out_seq es = fm_out_seq mark"

definition ev_transition ::
  "evidence_status \<Rightarrow> nat option \<Rightarrow> ('v, 't) evidence_st \<Rightarrow> ('v, 't) evidence_st \<times> evidence_change option" where
  "ev_transition to marker_seq es =
     (es\<lparr>es_status := to\<rparr>,
      if es_status es \<noteq> to
      then Some \<lparr>ec_from = es_status es, ec_to = to, ec_layout_epoch = es_layout_epoch es, ec_out_seq = es_out_seq es,
                 ec_marker_seq = marker_seq\<rparr>
      else None)"

text \<open>One push to the running parser; the answer is present when a byte was refused.\<close>

definition ev_feed ::
  "('v, 't) vt_lib \<Rightarrow> string \<Rightarrow> ('v, 't) evidence_st \<Rightarrow> ('v, 't) evidence_st \<times> evidence_change option option" where
  "ev_feed lib bytes es =
     (let base = es_out_seq es; es1 = es\<lparr>es_out_seq := es_out_seq es + length bytes\<rparr>
      in case es_parser es1 of
           None \<Rightarrow> (es1, None)
         | Some p \<Rightarrow>
             (case feed_all lib (saturating_add (mp_spent p) EVIDENCE_WORK_PER_PUSH) bytes p of
                (None, p1) \<Rightarrow> (es1\<lparr>es_parser := Some p1\<rparr>, None)
              | (Some refused, _) \<Rightarrow>
                  (case ev_transition (EvWorkOverBudget (base + refused)) None (es1\<lparr>es_parser := None\<rparr>) of
                     (es2, t) \<Rightarrow> (es2, Some t))))"

definition check_witness ::
  "'v screen_profile \<Rightarrow> nat \<Rightarrow> nat option \<Rightarrow> ('v, 't) evidence_st \<Rightarrow> ('v, 't) evidence_st \<times> evidence_change option" where
  "check_witness profile since_seq marker_seq es =
     (case es_parser es of
        None \<Rightarrow> (es, None)
      | Some p \<Rightarrow>
          (if sp_width_witness profile (mp_parser p) (es_widths es)
           then ev_transition (EvClean since_seq) marker_seq es else (es, None)))"

text \<open>A push while the redraw marker is awaited.\<close>

definition dirty_push ::
  "('v, 't) vt_lib \<Rightarrow> 'v screen_profile \<Rightarrow> string \<Rightarrow> (nat \<Rightarrow> string) \<Rightarrow> nat \<Rightarrow> ('v, 't) evidence_st
   \<Rightarrow> ('v, 't) evidence_st \<times> evidence_change option" where
  "dirty_push lib profile bytes modes_at edge_seq es =
     (let marker = sp_redraw_marker profile;
          carried = length (es_tail es);
          window = es_tail es @ bytes;
          es1 = es\<lparr>es_tail := []\<rparr>;
          base = es_out_seq es1
      in case find_marker window marker of
           None \<Rightarrow>
             let keep = min (length marker - 1) (length window)
             in (es1\<lparr>es_tail := drop (length window - keep) window, es_out_seq := base + length bytes\<rparr>, None)
         | Some at \<Rightarrow>
             let marker_seq = base - carried + at;
                 modes = modes_at (at - carried)
             in case feed_all lib EVIDENCE_WORK_PER_PUSH (modes @ drop at window) (metered_new lib (es_rows es1) (es_cols es1)) of
                  (Some refused, _) \<Rightarrow>
                    ev_transition (EvWorkOverBudget (marker_seq + (refused - length modes))) (Some marker_seq)
                      (es1\<lparr>es_out_seq := base + length bytes\<rparr>)
                | (None, p) \<Rightarrow>
                    let (es2, first) =
                          ev_transition (EvPending marker_seq (Some edge_seq)) (Some marker_seq)
                            (es1\<lparr>es_parser := Some p, es_out_seq := base + length bytes\<rparr>);
                        (es3, second) = check_witness profile marker_seq (Some marker_seq) es2
                    in (es3, if second \<noteq> None then second else first))"

definition ev_push ::
  "('v, 't) vt_lib \<Rightarrow> string \<Rightarrow> (nat \<Rightarrow> string) \<Rightarrow> ('v, 't) evidence_st \<Rightarrow> ('v, 't) evidence_st \<times> evidence_change option" where
  "ev_push lib bytes modes_at es =
     (case es_profile es of
        None \<Rightarrow> (es\<lparr>es_out_seq := es_out_seq es + length bytes\<rparr>, None)
      | Some profile \<Rightarrow>
          (case es_status es of
             EvPending since_seq _ \<Rightarrow>
               (case ev_feed lib bytes es of
                  (es1, Some over) \<Rightarrow> (es1, over)
                | (es1, None) \<Rightarrow> check_witness profile since_seq None es1)
           | EvClean _ \<Rightarrow> (case ev_feed lib bytes es of (es1, over) \<Rightarrow> (es1, Option.bind over (\<lambda>t. t)))
           | EvDirty edge_seq _ \<Rightarrow> dirty_push lib profile bytes modes_at edge_seq es
           | _ \<Rightarrow> (es\<lparr>es_out_seq := es_out_seq es + length bytes\<rparr>, None)))"

text \<open>Where a layout change leaves the evidence, and the change itself.\<close>

definition edge_status :: "edge_reason \<Rightarrow> ('v, 't) evidence_st \<Rightarrow> evidence_status" where
  "edge_status reason es =
     (if within_budget (es_rows es) (es_cols es) then EvDirty (es_out_seq es) reason else EvOverBudget (es_out_seq es))"

definition ev_edge :: "edge_reason \<Rightarrow> nat \<Rightarrow> nat \<Rightarrow> ('v, 't) evidence_st \<Rightarrow> ('v, 't) evidence_st \<times> evidence_change option" where
  "ev_edge reason rows cols es =
     (let es1 = es\<lparr>es_rows := rows, es_cols := cols, es_layout_epoch := es_layout_epoch es + 1,
                   es_widths := widths_record cols (es_widths es)\<rparr>
      in if es_profile es1 = None then (es1, None)
         else ev_transition (edge_status reason es1) None (es1\<lparr>es_parser := None, es_tail := []\<rparr>))"

definition ev_adopt :: "'v screen_profile \<Rightarrow> ('v, 't) evidence_st \<Rightarrow> ('v, 't) evidence_st \<times> evidence_change option" where
  "ev_adopt profile es =
     (if es_profile es \<noteq> None then (es, None)
      else ev_transition (edge_status ProfileLearned es) None
             (es\<lparr>es_profile := Some profile, es_layout_epoch := es_layout_epoch es + 1, es_parser := None, es_tail := []\<rparr>))"

definition ev_geometry_unknown :: "('v, 't) evidence_st \<Rightarrow> ('v, 't) evidence_st \<times> evidence_change option" where
  "ev_geometry_unknown es =
     (let es1 = es\<lparr>es_layout_epoch := es_layout_epoch es + 1\<rparr>
      in if es_profile es1 = None then (es1, None)
         else ev_transition (EvGeometryUnknown (es_out_seq es1)) None (es1\<lparr>es_parser := None, es_tail := []\<rparr>))"

section \<open>The set of widths\<close>

lemma and_single_bit:
  fixes x :: "64 word"
  assumes "n < 64"
  shows "x AND push_bit n 1 \<noteq> 0 \<longleftrightarrow> bit x n"
proof
  assume "x AND push_bit n 1 \<noteq> 0"
  then obtain k where "bit (x AND push_bit n 1) k" by (auto simp only: bit_eq_iff bit_0_eq bot_apply bot_bool_def)
  then show "bit x n" by (auto simp: bit_and_iff bit_exp_iff)
next
  assume "bit x n"
  then have "bit (x AND push_bit n 1) n" using assms by (simp add: bit_and_iff bit_exp_iff)
  then show "x AND push_bit n 1 \<noteq> 0" by (metis bit_0_eq bot_apply bot_bool_def)
qed

lemma widths_had_bit: "widths_had w seen \<longleftrightarrow> bit (seen ! (w div 64)) (w mod 64)"
  using and_single_bit[of "w mod 64" "seen ! (w div 64)"] by (simp add: widths_had_def)

lemma widths_had_record:
  assumes "length seen = 1024" "cols < 65536"
  shows "widths_had w (widths_record cols seen) \<longleftrightarrow> w = cols \<or> widths_had w seen"
proof (cases "w div 64 = cols div 64")
  case True
  have "cols div 64 < 1024" using assms(2) by auto
  moreover have "w mod 64 = cols mod 64 \<longleftrightarrow> w = cols"
    using True by (metis div_mult_mod_eq)
  ultimately show ?thesis
    using True assms(1) by (auto simp: widths_had_bit widths_record_def bit_or_iff bit_exp_iff)
next
  case False
  then show ?thesis by (auto simp: widths_had_bit widths_record_def)
qed

text \<open>The widths listed are the ones recorded.\<close>

lemma widths_list_of:
  assumes "\<forall>w \<in> set ws. w < 65536"
  shows "set (widths_list (widths_of ws)) = set ws"
proof -
  have "length (widths_of ws) = 1024 \<and> (\<forall>w < 65536. widths_had w (widths_of ws) \<longleftrightarrow> w \<in> set ws)"
    using assms
  proof (induction ws rule: rev_induct)
    case Nil
    have "w div 64 < 1024" if "w < 65536" for w :: nat using that by auto
    then show ?case by (simp add: widths_of_def widths_had_def)
  next
    case (snoc x xs)
    have r: "widths_of (xs @ [x]) = widths_record x (widths_of xs)" by (simp add: widths_of_def)
    from snoc widths_had_record[of "widths_of xs" x] show ?case unfolding r by (auto simp: widths_record_def)
  qed
  with assms show ?thesis by (auto simp: widths_list_def)
qed

end
