(* ===== verification/Evidence_Props.thy ===== *)
theory Evidence_Props
  imports Evidence_State Step_Invariant
begin

text \<open>
  What the evidence is worth: a Clean frame is what the agent drew from the first redraw marker after the
  last layout change on, however the stream was cut into pushes; a mark tells whether the frame still
  stands; and a push does a bounded amount of work.
\<close>

section \<open>The marker search\<close>

definition marker_at :: "string \<Rightarrow> string \<Rightarrow> nat \<Rightarrow> bool" where
  "marker_at m xs i \<longleftrightarrow> i + length m \<le> length xs \<and> take (length m) (drop i xs) = m"

lemma nth_windows: "i < length (windows n xs) \<Longrightarrow> windows n xs ! i = take n (drop i xs)"
  by (simp add: windows_def)

lemma length_windows: "length (windows n xs) = length xs + 1 - n"
  by (simp add: windows_def)

lemma find_marker_None:
  assumes "m \<noteq> []"
  shows "find_marker xs m = None \<longleftrightarrow> (\<forall>i. \<not> marker_at m xs i)"
  using assms
  by (auto simp: find_marker_def position_None_iff windows_def marker_at_def)

lemma find_marker_Some:
  assumes "m \<noteq> []"
  shows "find_marker xs m = Some i \<longleftrightarrow> marker_at m xs i \<and> (\<forall>j < i. \<not> marker_at m xs j)"
proof
  assume "find_marker xs m = Some i"
  then have "position (\<lambda>w. w = m) (windows (length m) xs) = Some i" using assms by (simp add: find_marker_def)
  from position_SomeD[OF this] show "marker_at m xs i \<and> (\<forall>j < i. \<not> marker_at m xs j)"
    by (auto simp: length_windows nth_windows marker_at_def)
next
  assume r: "marker_at m xs i \<and> (\<forall>j < i. \<not> marker_at m xs j)"
  have "position (\<lambda>w. w = m) (windows (length m) xs) = Some i"
    by (rule position_SomeI) (use r in \<open>auto simp: length_windows nth_windows marker_at_def\<close>)
  then show "find_marker xs m = Some i" using assms by (simp add: find_marker_def)
qed

lemma find_marker_Nil [simp]: "find_marker xs [] = None"
  by (simp add: find_marker_def)

lemma marker_at_append:
  "i + length m \<le> length xs \<Longrightarrow> marker_at m (xs @ ys) i \<longleftrightarrow> marker_at m xs i"
  by (auto simp: marker_at_def)

lemma find_marker_append:
  assumes "find_marker xs m = Some i"
  shows "find_marker (xs @ ys) m = Some i"
proof -
  have m: "m \<noteq> []" using assms by auto
  from assms have i: "marker_at m xs i" "\<forall>j < i. \<not> marker_at m xs j" by (simp_all add: find_marker_Some[OF m])
  then have "i + length m \<le> length xs" by (simp add: marker_at_def)
  with i show ?thesis by (auto simp: find_marker_Some[OF m] marker_at_append)
qed

lemma find_marker_bound: "find_marker xs m = Some i \<Longrightarrow> i + length m \<le> length xs"
  by (cases "m = []") (auto simp: find_marker_Some marker_at_def)

lemma find_marker_drop:
  assumes "k \<le> length xs" "\<forall>i < k. \<not> marker_at m xs i"
  shows "find_marker (drop k xs) m = map_option (\<lambda>i. i - k) (find_marker xs m)"
proof (cases "m = []")
  case False
  have at: "marker_at m (drop k xs) i \<longleftrightarrow> marker_at m xs (k + i)" for i
    using assms(1) by (auto simp: marker_at_def add.commute)
  show ?thesis
  proof (cases "find_marker xs m")
    case None
    then have "\<not> marker_at m (drop k xs) i" for i by (simp add: find_marker_None[OF False] at)
    then have "find_marker (drop k xs) m = None" by (simp add: find_marker_None[OF False])
    with None show ?thesis by simp
  next
    case (Some i)
    then have i: "marker_at m xs i" "\<forall>j < i. \<not> marker_at m xs j" by (simp_all add: find_marker_Some[OF False])
    then have "k \<le> i" using assms(2) by (meson not_le)
    with i have "find_marker (drop k xs) m = Some (i - k)" by (auto simp: find_marker_Some[OF False] at)
    with Some show ?thesis by simp
  qed
qed simp

text \<open>The bytes carried over a push are enough: a marker not yet in the stream can only begin in them.\<close>

definition carried :: "string \<Rightarrow> string \<Rightarrow> string" where
  "carried m xs = drop (length xs - min (length m - 1) (length xs)) xs"

lemma find_marker_carried:
  assumes "find_marker xs m = None"
  shows "find_marker (carried m xs @ ys) m =
    map_option (\<lambda>i. i - (length xs - length (carried m xs))) (find_marker (xs @ ys) m)"
proof (cases "m = []")
  case False
  let ?k = "length xs - min (length m - 1) (length xs)"
  have k: "length xs - length (carried m xs) = ?k" by (simp add: carried_def)
  have "\<not> marker_at m (xs @ ys) i" if "i < ?k" for i
  proof -
    from that False have "i + length m \<le> length xs" by (cases m) auto
    with assms show ?thesis by (simp add: marker_at_append find_marker_None[OF False])
  qed
  then have "find_marker (drop ?k (xs @ ys)) m = map_option (\<lambda>i. i - ?k) (find_marker (xs @ ys) m)"
    by (intro find_marker_drop) auto
  moreover have "drop ?k (xs @ ys) = carried m xs @ ys" by (simp add: carried_def)
  ultimately show ?thesis by (simp add: k)
qed simp

lemma carried_carried: "carried m (carried m xs @ ys) = carried m (xs @ ys)"
  by (auto simp: carried_def min_def add.commute)

section \<open>What was drawn since a layout change\<close>

type_synonym pushes = "(string \<times> (nat \<Rightarrow> string)) list"

definition ev_pushes :: "('v, 't) vt_lib \<Rightarrow> pushes \<Rightarrow> ('v, 't) evidence_st \<Rightarrow> ('v, 't) evidence_st" where
  "ev_pushes lib ps es = foldl (\<lambda>es (bytes, modes_at). fst (ev_push lib bytes modes_at es)) es ps"

definition stream :: "pushes \<Rightarrow> string" where
  "stream ps = concat (map fst ps)"

definition replay :: "('v, 't) vt_lib \<Rightarrow> nat \<Rightarrow> nat \<Rightarrow> string \<Rightarrow> 'v" where
  "replay lib rows cols bytes = foldl (\<lambda>v b. vl_process lib b v) (vt_parser lib rows cols) bytes"

text \<open>
  The reference: the whole stream is searched for the first marker, and a frame is read at the end of every
  push from the one that completes it on, by an unmetered parser fed the terminal modes and then the
  stream from the marker.
\<close>

definition redraw_ends :: "string \<Rightarrow> nat \<Rightarrow> pushes \<Rightarrow> nat list" where
  "redraw_ends m at ps = filter (\<lambda>j. at + length m \<le> length (stream (take j ps))) [1..<Suc (length ps)]"

definition redraw_modes :: "string \<Rightarrow> nat \<Rightarrow> pushes \<Rightarrow> string" where
  "redraw_modes m at ps =
     (let j = hd (redraw_ends m at ps) in snd (ps ! (j - 1)) (at - length (stream (take (j - 1) ps))))"

definition redraw_frames :: "('v, 't) vt_lib \<Rightarrow> string \<Rightarrow> nat \<Rightarrow> nat \<Rightarrow> pushes \<Rightarrow> 'v list" where
  "redraw_frames lib m rows cols ps =
     (case find_marker (stream ps) m of
        None \<Rightarrow> []
      | Some at \<Rightarrow>
          map (\<lambda>j. replay lib rows cols (redraw_modes m at ps @ drop at (stream (take j ps)))) (redraw_ends m at ps))"

lemma stream_snoc: "stream (ps @ [p]) = stream ps @ fst p"
  by (simp add: stream_def)

lemma length_stream_take: "length (stream (take j ps)) \<le> length (stream ps)"
proof -
  have "stream ps = stream (take j ps) @ stream (drop j ps)"
    unfolding stream_def by (metis append_take_drop_id concat_append map_append)
  then show ?thesis by simp
qed

lemma redraw_ends_snoc:
  assumes "at + length m \<le> length (stream (ps @ [p]))"
  shows "redraw_ends m at (ps @ [p]) = redraw_ends m at ps @ [Suc (length ps)]"
  using assms by (auto simp: redraw_ends_def intro!: filter_cong)

lemma redraw_ends_early: "length (stream ps) < at + length m \<Longrightarrow> redraw_ends m at ps = []"
  using length_stream_take[of _ ps] by (auto simp: redraw_ends_def filter_empty_conv not_le intro: le_less_trans)

lemma redraw_ends_le: "j \<in> set (redraw_ends m at ps) \<Longrightarrow> 1 \<le> j \<and> j \<le> length ps"
  by (auto simp: redraw_ends_def)

lemma redraw_ends_found:
  assumes "m \<noteq> []" "at + length m \<le> length (stream ps)"
  shows "redraw_ends m at ps \<noteq> []"
proof -
  have "ps \<noteq> []" using assms by (auto simp: stream_def)
  with assms(2) have "length ps \<in> set (redraw_ends m at ps)" by (auto simp: redraw_ends_def Suc_le_eq)
  then show ?thesis by auto
qed

lemma redraw_modes_snoc:
  assumes "redraw_ends m at ps \<noteq> []" "at + length m \<le> length (stream (ps @ [p]))"
  shows "redraw_modes m at (ps @ [p]) = redraw_modes m at ps"
proof -
  have "hd (redraw_ends m at ps) \<in> set (redraw_ends m at ps)" using assms(1) by simp
  from redraw_ends_le[OF this] show ?thesis
    using assms by (auto simp: redraw_modes_def redraw_ends_snoc Let_def nth_append)
qed

text \<open>How the reference grows by one push.\<close>

lemma redraw_frames_Some:
  assumes "find_marker (stream ps) m = Some at"
  shows "redraw_frames lib m rows cols (ps @ [p]) =
    redraw_frames lib m rows cols ps @ [replay lib rows cols (redraw_modes m at ps @ drop at (stream ps @ fst p))]"
    and "redraw_frames lib m rows cols ps \<noteq> []"
proof -
  have m: "m \<noteq> []" using assms by auto
  have b: "at + length m \<le> length (stream ps)" using find_marker_bound[OF assms] .
  have e: "redraw_ends m at ps \<noteq> []" using redraw_ends_found[OF m b] .
  show "redraw_frames lib m rows cols ps \<noteq> []" using e by (simp add: redraw_frames_def assms)
  have b': "at + length m \<le> length (stream (ps @ [p]))" using b by (simp add: stream_snoc)
  have f: "find_marker (stream (ps @ [p])) m = Some at" using find_marker_append[OF assms] by (simp add: stream_snoc)
  have t: "take j (ps @ [p]) = take j ps" if "j \<in> set (redraw_ends m at ps)" for j
    using redraw_ends_le[OF that] by simp
  show "redraw_frames lib m rows cols (ps @ [p]) =
    redraw_frames lib m rows cols ps @ [replay lib rows cols (redraw_modes m at ps @ drop at (stream ps @ fst p))]"
    unfolding redraw_frames_def f assms
    by (simp add: redraw_ends_snoc[OF b'] redraw_modes_snoc[OF e b'] t stream_snoc del: take_append cong: map_cong)
qed

lemma redraw_frames_first:
  assumes "find_marker (stream ps) m = None" "find_marker (stream ps @ bytes) m = Some at"
  shows "redraw_frames lib m rows cols (ps @ [(bytes, modes_at)]) =
    [replay lib rows cols (modes_at (at - length (stream ps)) @ drop at (stream ps @ bytes))]"
    and "redraw_modes m at (ps @ [(bytes, modes_at)]) = modes_at (at - length (stream ps))"
proof -
  have m: "m \<noteq> []" using assms(2) by auto
  have "length (stream ps) < at + length m"
  proof (rule ccontr)
    assume "\<not> length (stream ps) < at + length m"
    then have "marker_at m (stream ps) at"
      using assms(2) by (simp add: find_marker_Some[OF m] marker_at_append)
    with assms(1) show False by (simp add: find_marker_None[OF m])
  qed
  then have e: "redraw_ends m at (ps @ [(bytes, modes_at)]) = [Suc (length ps)]"
    using find_marker_bound[OF assms(2)] by (simp add: redraw_ends_snoc redraw_ends_early stream_snoc)
  then show modes: "redraw_modes m at (ps @ [(bytes, modes_at)]) = modes_at (at - length (stream ps))"
    by (simp add: redraw_modes_def)
  show "redraw_frames lib m rows cols (ps @ [(bytes, modes_at)]) =
    [replay lib rows cols (modes_at (at - length (stream ps)) @ drop at (stream ps @ bytes))]"
    using e by (simp add: redraw_frames_def stream_snoc assms(2) modes)
qed

section \<open>The metered parser\<close>

lemma feed_all_fed: "feed_all lib limit bs p = (None, p1) \<Longrightarrow> mp_parser p1 = foldl (\<lambda>v b. vl_process lib b v) (mp_parser p) bs"
proof (induction bs arbitrary: p)
  case (Cons b bs)
  then obtain q where q: "feed_byte lib b limit p = (True, q)" "feed_all lib limit bs q = (None, p1)"
    by (auto split: prod.splits bool.splits)
  from q(1) have "mp_parser q = vl_process lib b (mp_parser p)"
    by (auto simp: feed_byte_def Let_def split: prod.splits if_splits)
  with Cons.IH[OF q(2)] show ?case by simp
qed simp

lemma feed_all_spent: "feed_all lib limit bs p = (r, p1) \<Longrightarrow> mp_spent p \<le> limit \<Longrightarrow> mp_spent p1 \<le> limit"
proof (induction bs arbitrary: p r)
  case (Cons b bs)
  obtain ok q where q: "feed_byte lib b limit p = (ok, q)" by (cases "feed_byte lib b limit p")
  have "mp_spent q \<le> limit"
    using q Cons.prems(2) by (auto simp: feed_byte_def Let_def split: prod.splits if_splits)
  with Cons q show ?case by (auto split: prod.splits bool.splits)
qed simp

lemma replay_append: "foldl (\<lambda>v b. vl_process lib b v) (replay lib rows cols xs) ys = replay lib rows cols (xs @ ys)"
  by (simp add: replay_def)


section \<open>The state after a layout change and pushes\<close>

fun is_over :: "evidence_status \<Rightarrow> bool" where
  "is_over (EvWorkOverBudget _) = True"
| "is_over _ = False"

text \<open>What the state of a profiled agent is, push by push, as long as no push ran over its budget.\<close>

definition evidence_agrees ::
  "('v, 't) vt_lib \<Rightarrow> 'v screen_profile \<Rightarrow> nat \<Rightarrow> edge_reason \<Rightarrow> pushes \<Rightarrow> ('v, 't) evidence_st \<Rightarrow> bool" where
  "evidence_agrees lib pf e reason ps es \<longleftrightarrow>
     es_profile es = Some pf \<and> es_out_seq es = e + length (stream ps)
     \<and> (case find_marker (stream ps) (sp_redraw_marker pf) of
          None \<Rightarrow> es_status es = EvDirty e reason \<and> es_parser es = None
                  \<and> es_tail es = carried (sp_redraw_marker pf) (stream ps)
        | Some at \<Rightarrow>
            (\<exists>p. es_parser es = Some p
               \<and> mp_parser p = replay lib (es_rows es) (es_cols es)
                   (redraw_modes (sp_redraw_marker pf) at ps @ drop at (stream ps)))
            \<and> es_status es =
                (if list_ex (\<lambda>v. sp_width_witness pf v (es_widths es))
                      (redraw_frames lib (sp_redraw_marker pf) (es_rows es) (es_cols es) ps)
                 then EvClean (e + at) else EvPending (e + at) (Some e)))"

lemma push_frame:
  "es_rows (fst (ev_push lib bytes modes_at es)) = es_rows es" "es_cols (fst (ev_push lib bytes modes_at es)) = es_cols es"
  "es_widths (fst (ev_push lib bytes modes_at es)) = es_widths es"
  "es_layout_epoch (fst (ev_push lib bytes modes_at es)) = es_layout_epoch es"
  "es_profile (fst (ev_push lib bytes modes_at es)) = es_profile es"
  "es_out_seq (fst (ev_push lib bytes modes_at es)) = es_out_seq es + length bytes"
  by (auto simp: ev_push_def ev_feed_def check_witness_def dirty_push_def ev_transition_def Let_def
      split: option.splits evidence_status.splits prod.splits)

lemma push_over: "is_over (es_status es) \<Longrightarrow> is_over (es_status (fst (ev_push lib bytes modes_at es)))"
  by (cases "es_status es") (auto simp: ev_push_def split: option.splits)

lemma agrees_dirty_push:
  assumes a: "evidence_agrees lib pf e reason ps es" and none: "find_marker (stream ps) (sp_redraw_marker pf) = None"
    and over: "\<not> is_over (es_status (fst (ev_push lib bytes modes_at es)))"
  shows "evidence_agrees lib pf e reason (ps @ [(bytes, modes_at)]) (fst (ev_push lib bytes modes_at es))"
proof -
  let ?m = "sp_redraw_marker pf" and ?ps = "ps @ [(bytes, modes_at)]"
  from a none have es: "es_profile es = Some pf" "es_out_seq es = e + length (stream ps)" "es_status es = EvDirty e reason"
    "es_parser es = None" "es_tail es = carried ?m (stream ps)" by (simp_all add: evidence_agrees_def)
  have push: "ev_push lib bytes modes_at es = dirty_push lib pf bytes modes_at e es" by (simp add: ev_push_def es)
  have look: "find_marker (es_tail es @ bytes) ?m =
      map_option (\<lambda>i. i - (length (stream ps) - length (es_tail es))) (find_marker (stream ps @ bytes) ?m)"
    unfolding es(5) by (rule find_marker_carried[OF none])
  show ?thesis
  proof (cases "find_marker (stream ps @ bytes) ?m")
    case None
    then have w: "find_marker (es_tail es @ bytes) ?m = None" using look by simp
    have tail: "drop (length (es_tail es @ bytes) - min (length ?m - 1) (length (es_tail es @ bytes))) (es_tail es @ bytes)
        = carried ?m (stream ps @ bytes)"
      using carried_carried[of ?m "stream ps" bytes] by (simp only: es(5) carried_def[of ?m "carried _ _ @ _"])
    have "fst (dirty_push lib pf bytes modes_at e es) =
        es\<lparr>es_tail := carried ?m (stream ps @ bytes), es_out_seq := es_out_seq es + length bytes\<rparr>"
      unfolding dirty_push_def w Let_def using tail by simp
    with None show ?thesis by (simp add: evidence_agrees_def push stream_snoc es)
  next
    case (Some at)
    define k where "k = length (stream ps) - length (es_tail es)"
    have tail_le: "length (es_tail es) \<le> length (stream ps)" by (simp add: es(5) carried_def)
    have "k \<le> at"
    proof (rule ccontr)
      assume "\<not> k \<le> at"
      have m: "?m \<noteq> []" using Some by auto
      with \<open>\<not> k \<le> at\<close> have "at + length ?m \<le> length (stream ps)" by (cases ?m) (auto simp: k_def es(5) carried_def)
      then have "marker_at ?m (stream ps) at"
        using Some by (simp add: find_marker_Some[OF m] marker_at_append)
      with none show False by (simp add: find_marker_None[OF m])
    qed
    have window: "drop (at - k) (es_tail es @ bytes) = drop at (stream ps @ bytes)"
    proof -
      have "es_tail es @ bytes = drop k (stream ps @ bytes)" using tail_le by (simp add: k_def es(5) carried_def)
      then have "drop (at - k) (es_tail es @ bytes) = drop (at - k) (drop k (stream ps @ bytes))" by (rule arg_cong)
      then show ?thesis using \<open>k \<le> at\<close> by (simp only: drop_drop le_add_diff_inverse2)
    qed
    have w: "find_marker (es_tail es @ bytes) ?m = Some (at - k)" using look Some by (simp add: k_def)
    have idx: "at - k - length (es_tail es) = at - length (stream ps)"
      "es_out_seq es - length (es_tail es) + (at - k) = e + at"
      using \<open>k \<le> at\<close> tail_le by (simp_all add: k_def es(2))
    obtain r p where fed: "feed_all lib EVIDENCE_WORK_PER_PUSH (modes_at (at - length (stream ps)) @ drop at (stream ps @ bytes))
        (metered_new lib (es_rows es) (es_cols es)) = (r, p)" by fastforce
    have upd: "es_out_seq (es\<lparr>es_tail := []\<rparr>) = es_out_seq es" "es_rows (es\<lparr>es_tail := []\<rparr>) = es_rows es"
      "es_cols (es\<lparr>es_tail := []\<rparr>) = es_cols es" by simp_all
    note step = push dirty_push_def Let_def upd w option.case window idx fed prod.case
    have r: "r = None" using over unfolding step by (cases r) (simp_all add: ev_transition_def)
    have p: "mp_parser p = replay lib (es_rows es) (es_cols es) (modes_at (at - length (stream ps)) @ drop at (stream ps @ bytes))"
      using feed_all_fed[OF fed[unfolded r]] by (simp add: metered_new_def replay_def)
    have result: "fst (ev_push lib bytes modes_at es) = fst (check_witness pf (e + at) (Some (e + at))
        (es\<lparr>es_tail := [], es_parser := Some p, es_out_seq := es_out_seq es + length bytes, es_status := EvPending (e + at) (Some e)\<rparr>))"
      unfolding step r by (simp add: ev_transition_def split: prod.split)
    have after: "es_parser (fst (ev_push lib bytes modes_at es)) = Some p
       \<and> es_status (fst (ev_push lib bytes modes_at es)) =
           (if sp_width_witness pf (mp_parser p) (es_widths es) then EvClean (e + at) else EvPending (e + at) (Some e))"
      unfolding result by (simp add: check_witness_def ev_transition_def)
    have found: "find_marker (stream ?ps) ?m = Some at" using Some by (simp add: stream_snoc)
    show ?thesis
      using p after unfolding evidence_agrees_def push_frame found option.case redraw_frames_first[OF none Some] es(1,2)
      by (simp add: stream_snoc)
  qed
qed

lemma agrees_running_push:
  assumes a: "evidence_agrees lib pf e reason ps es" and some: "find_marker (stream ps) (sp_redraw_marker pf) = Some at"
    and over: "\<not> is_over (es_status (fst (ev_push lib bytes modes_at es)))"
  shows "evidence_agrees lib pf e reason (ps @ [(bytes, modes_at)]) (fst (ev_push lib bytes modes_at es))"
proof -
  let ?m = "sp_redraw_marker pf" and ?ps = "ps @ [(bytes, modes_at)]"
  let ?clean = "list_ex (\<lambda>v. sp_width_witness pf v (es_widths es)) (redraw_frames lib ?m (es_rows es) (es_cols es) ps)"
  from a some obtain p where es: "es_profile es = Some pf" "es_out_seq es = e + length (stream ps)" "es_parser es = Some p"
    "mp_parser p = replay lib (es_rows es) (es_cols es) (redraw_modes ?m at ps @ drop at (stream ps))"
    "es_status es = (if ?clean then EvClean (e + at) else EvPending (e + at) (Some e))"
    by (auto simp: evidence_agrees_def)
  have b: "at + length ?m \<le> length (stream ps)" using find_marker_bound[OF some] .
  have modes: "redraw_modes ?m at ?ps = redraw_modes ?m at ps"
    by (rule redraw_modes_snoc[OF redraw_ends_found[OF _ b]]) (use some b in \<open>auto simp: stream_snoc\<close>)
  have found: "find_marker (stream ?ps) ?m = Some at" using find_marker_append[OF some] by (simp add: stream_snoc)
  obtain r q where fed: "feed_all lib (saturating_add (mp_spent p) EVIDENCE_WORK_PER_PUSH) bytes p = (r, q)" by fastforce
  have r: "r = None"
    using over by (cases r) (auto simp: ev_push_def es ev_feed_def fed Let_def ev_transition_def split: if_splits)
  have q: "mp_parser q = replay lib (es_rows es) (es_cols es) (redraw_modes ?m at ps @ drop at (stream ps @ bytes))"
    using feed_all_fed[OF fed[unfolded r]] b by (simp add: es(4) replay_append)
  have frames: "redraw_frames lib ?m (es_rows es) (es_cols es) ?ps =
      redraw_frames lib ?m (es_rows es) (es_cols es) ps @ [mp_parser q]"
    using redraw_frames_Some(1)[OF some, where p = "(bytes, modes_at)"] q by simp
  have feed: "ev_feed lib bytes es = (es\<lparr>es_out_seq := es_out_seq es + length bytes, es_parser := Some q\<rparr>, None)"
    by (simp add: ev_feed_def fed r es(3))
  have "es_parser (fst (ev_push lib bytes modes_at es)) = Some q
     \<and> es_status (fst (ev_push lib bytes modes_at es)) =
         (if ?clean \<or> sp_width_witness pf (mp_parser q) (es_widths es) then EvClean (e + at) else EvPending (e + at) (Some e))"
    by (cases ?clean) (simp_all add: ev_push_def es(1,5) feed check_witness_def ev_transition_def)
  then show ?thesis
    using q b unfolding evidence_agrees_def push_frame found option.case modes frames es(1,2)
    by (simp add: stream_snoc)
qed

lemma pushes_agree:
  assumes "es_profile es0 = Some pf" "es_status es0 = EvDirty e reason" "es_out_seq es0 = e" "es_parser es0 = None"
    "es_tail es0 = []" and "\<not> is_over (es_status (ev_pushes lib ps es0))"
  shows "evidence_agrees lib pf e reason ps (ev_pushes lib ps es0)"
  using assms(6)
proof (induction ps rule: rev_induct)
  case Nil
  have "\<not> marker_at m [] i" if "m \<noteq> []" for m i using that by (simp add: marker_at_def)
  then have "find_marker [] m = None" for m by (cases "m = []") (auto simp: find_marker_None)
  with assms show ?case by (simp add: evidence_agrees_def ev_pushes_def stream_def carried_def)
next
  case (snoc p ps)
  obtain bytes modes_at where p: "p = (bytes, modes_at)" by (cases p)
  have step: "ev_pushes lib (ps @ [p]) es0 = fst (ev_push lib bytes modes_at (ev_pushes lib ps es0))"
    by (simp add: ev_pushes_def p)
  with snoc.prems have "\<not> is_over (es_status (ev_pushes lib ps es0))" using push_over by metis
  from snoc.IH[OF this] show ?case
    using agrees_dirty_push agrees_running_push snoc.prems[unfolded step] unfolding step unfolding p
    by (cases "find_marker (stream ps) (sp_redraw_marker pf)") blast+
qed

lemma redraw_frames_last:
  assumes "find_marker (stream ps) m = Some at"
  shows "last (redraw_frames lib m rows cols ps) = replay lib rows cols (redraw_modes m at ps @ drop at (stream ps))"
proof -
  have m: "m \<noteq> []" using assms by auto
  have e: "redraw_ends m at ps \<noteq> []" using redraw_ends_found[OF m find_marker_bound[OF assms]] .
  then have ps: "ps \<noteq> []" by (auto simp: redraw_ends_def)
  have "redraw_ends m at ps = redraw_ends m at (butlast ps) @ [length ps]"
    using redraw_ends_snoc[of at m "butlast ps" "last ps"] find_marker_bound[OF assms] ps by simp
  then have "last (redraw_ends m at ps) = length ps" by simp
  with e show ?thesis by (simp add: redraw_frames_def assms last_map)
qed

text \<open>
  C29: a frame the deck reads as Clean after a layout change was drawn for the new size. However the agent's
  output is cut into pushes, the deck holds a Clean frame exactly when one of the frames since the first
  redraw marker after the change, each read at the end of a push, showed the width witness; and the frame
  is then what a fresh parser at the new size makes of the terminal modes and everything from that marker
  on. Nothing that came before the marker is in it. The only exception is a push over the work budget,
  after which there is no Clean frame.
\<close>

theorem clean_iff_redrawn:
  assumes "es_profile es0 = Some pf" "within_budget rows cols"
    and "es = ev_pushes lib ps (fst (ev_edge reason rows cols es0))"
  shows "clean_frame es =
     (if \<not> is_over (es_status es)
         \<and> list_ex (\<lambda>v. sp_width_witness pf v (widths_record cols (es_widths es0)))
             (redraw_frames lib (sp_redraw_marker pf) rows cols ps)
      then Some (last (redraw_frames lib (sp_redraw_marker pf) rows cols ps), es_out_seq es0 + length (stream ps))
      else None)"
proof (cases "is_over (es_status es)")
  case True
  then show ?thesis by (cases "es_status es") (simp_all add: clean_frame_def)
next
  case False
  let ?e = "fst (ev_edge reason rows cols es0)" and ?m = "sp_redraw_marker pf"
  have edge: "es_profile ?e = Some pf" "es_status ?e = EvDirty (es_out_seq es0) reason" "es_out_seq ?e = es_out_seq es0"
    "es_parser ?e = None" "es_tail ?e = []" "es_rows ?e = rows" "es_cols ?e = cols"
    "es_widths ?e = widths_record cols (es_widths es0)"
    using assms(1,2) by (simp_all add: ev_edge_def ev_transition_def edge_status_def Let_def)
  have frame: "es_rows es = rows \<and> es_cols es = cols \<and> es_widths es = widths_record cols (es_widths es0)"
    unfolding assms(3) ev_pushes_def using edge(6-8) by (induction ps rule: rev_induct) (auto simp: push_frame split: prod.splits)
  have agrees: "evidence_agrees lib pf (es_out_seq es0) reason ps es"
    using pushes_agree[OF edge(1-5)] False unfolding assms(3) by blast
  show ?thesis
  proof (cases "find_marker (stream ps) ?m")
    case None
    with agrees False show ?thesis by (simp add: evidence_agrees_def clean_frame_def redraw_frames_def)
  next
    case (Some at)
    with agrees frame obtain p where "es_parser es = Some p" "mp_parser p = last (redraw_frames lib ?m rows cols ps)"
      "es_out_seq es = es_out_seq es0 + length (stream ps)"
      "es_status es = (if list_ex (\<lambda>v. sp_width_witness pf v (widths_record cols (es_widths es0))) (redraw_frames lib ?m rows cols ps)
         then EvClean (es_out_seq es0 + at) else EvPending (es_out_seq es0 + at) (Some (es_out_seq es0)))"
      by (auto simp: evidence_agrees_def redraw_frames_last[OF Some])
    with False show ?thesis by (simp add: clean_frame_def)
  qed
qed

section \<open>Reachable states\<close>

inductive evidence_step :: "('v, 't) vt_lib \<Rightarrow> ('v, 't) evidence_st \<Rightarrow> ('v, 't) evidence_st \<Rightarrow> bool" for lib where
  es_push: "evidence_step lib es (fst (ev_push lib bytes modes_at es))"
| es_edge: "evidence_step lib es (fst (ev_edge reason rows cols es))"
| es_adopt: "evidence_step lib es (fst (ev_adopt profile es))"
| es_unknown: "evidence_step lib es (fst (ev_geometry_unknown es))"

fun has_parser :: "evidence_status \<Rightarrow> bool" where
  "has_parser (EvPending _ _) = True"
| "has_parser (EvClean _) = True"
| "has_parser _ = False"

fun is_dirty :: "evidence_status \<Rightarrow> bool" where
  "is_dirty (EvDirty _ _) = True"
| "is_dirty _ = False"

text \<open>
  A parser runs exactly while the evidence is Pending or Clean, only at a size within the budget; bytes are
  carried only while a marker is awaited, and fewer than the marker has; an agent without a profile has no
  evidence at all.
\<close>

definition evidence_ok :: "('v, 't) evidence_st \<Rightarrow> bool" where
  "evidence_ok es \<longleftrightarrow>
     (es_parser es \<noteq> None \<longleftrightarrow> has_parser (es_status es))
     \<and> (has_parser (es_status es) \<or> is_dirty (es_status es) \<longrightarrow> within_budget (es_rows es) (es_cols es))
     \<and> (es_profile es = None \<longleftrightarrow> es_status es = EvUnprofiled)
     \<and> (es_tail es \<noteq> [] \<longrightarrow> is_dirty (es_status es))
     \<and> (\<forall>pf. es_profile es = Some pf \<longrightarrow> length (es_tail es) \<le> length (sp_redraw_marker pf) - 1)
     \<and> length (es_tail es) \<le> es_out_seq es"

lemma evidence_new_ok: "evidence_ok (evidence_new lib profile rows cols)"
  by (auto simp: evidence_ok_def evidence_new_def Let_def split: option.splits)

lemma evidence_push_ok:
  assumes "evidence_ok es"
  shows "evidence_ok (fst (ev_push lib bytes modes_at es))"
  using assms
  by (auto simp: evidence_ok_def ev_push_def ev_feed_def check_witness_def dirty_push_def ev_transition_def Let_def
      split: option.splits evidence_status.splits prod.splits)

lemma evidence_edge_ok:
  assumes "evidence_ok es"
  shows "evidence_ok (fst (ev_edge reason rows cols es))" "evidence_ok (fst (ev_adopt profile es))"
    "evidence_ok (fst (ev_geometry_unknown es))"
  using assms by (auto simp: evidence_ok_def ev_edge_def ev_adopt_def ev_geometry_unknown_def ev_transition_def edge_status_def Let_def)

lemma layout_moves_epoch:
  "es_layout_epoch (fst (ev_edge reason rows cols es)) = es_layout_epoch es + 1"
  "es_layout_epoch (fst (ev_geometry_unknown es)) = es_layout_epoch es + 1"
  "es_layout_epoch (fst (ev_adopt profile es)) = (if es_profile es = None then es_layout_epoch es + 1 else es_layout_epoch es)"
  "es_out_seq (fst (ev_edge reason rows cols es)) = es_out_seq es"
  "es_out_seq (fst (ev_geometry_unknown es)) = es_out_seq es" "es_out_seq (fst (ev_adopt profile es)) = es_out_seq es"
  by (auto simp: ev_edge_def ev_adopt_def ev_geometry_unknown_def ev_transition_def Let_def)

definition evidence_clock :: "('v, 't) evidence_st \<Rightarrow> nat" where
  "evidence_clock es = es_layout_epoch es + es_out_seq es"

interpretation evid: counted_steps "\<lambda>es. \<exists>profile rows cols. es = evidence_new lib profile rows cols"
  "evidence_step lib" evidence_ok evidence_clock for lib
proof unfold_locales
  fix s s'
  assume "evidence_ok s" "evidence_step lib s s'"
  then show "evidence_ok s'" by (auto elim!: evidence_step.cases intro: evidence_push_ok evidence_edge_ok)
next
  fix s s'
  assume "evidence_step lib s s'"
  then show "evidence_clock s \<le> evidence_clock s'"
    by (auto elim!: evidence_step.cases simp: evidence_clock_def push_frame layout_moves_epoch)
qed (auto intro: evidence_new_ok)

lemma empty_push_keeps:
  assumes "clean_frame_marked es = Some x"
  shows "clean_frame_marked (fst (ev_push lib [] modes_at es)) = Some x"
  using assms
  by (auto simp: clean_frame_marked_def clean_frame_def ev_push_def ev_feed_def split: evidence_status.splits option.splits)

lemma quiet_step_keeps:
  assumes "clean_frame_marked es = Some x" "evidence_step lib es es'" "evidence_clock es' = evidence_clock es"
  shows "clean_frame_marked es' = Some x"
  using assms(2)
proof cases
  case (es_push bytes modes_at)
  with assms(3) have "bytes = []" by (simp add: evidence_clock_def push_frame)
  with es_push empty_push_keeps[OF assms(1)] show ?thesis by simp
next
  case (es_adopt profile)
  with assms(3) have "es_profile es \<noteq> None" by (auto simp: evidence_clock_def layout_moves_epoch split: if_splits)
  with es_adopt assms(1) show ?thesis by (simp add: ev_adopt_def)
qed (use assms(3) in \<open>simp_all add: evidence_clock_def layout_moves_epoch\<close>)

text \<open>
  C30: the mark of a Clean frame tells whether the frame still stands, whatever happened since: output,
  resizes, nudges, a failed restore, a profile learned. The check succeeds exactly when reading the frame
  again would give the same frame at the same mark.
\<close>

theorem frame_mark_stands:
  assumes "(evidence_step lib)\<^sup>*\<^sup>* (evidence_new lib profile rows cols) es" "(evidence_step lib)\<^sup>*\<^sup>* es es'"
    and "clean_frame_marked es = Some (frame, mark)"
  shows "frame_unchanged mark es' \<longleftrightarrow> clean_frame_marked es' = Some (frame, mark)"
proof
  have ok: "evidence_ok es" using evid.reachable_inv[OF _ assms(1)] by blast
  have mark: "mark = \<lparr>fm_layout_epoch = es_layout_epoch es, fm_out_seq = es_out_seq es\<rparr>"
    using assms(3) by (auto simp: clean_frame_marked_def)
  assume "frame_unchanged mark es'"
  then have "evidence_clock es' = evidence_clock es" by (simp add: frame_unchanged_def mark evidence_clock_def)
  then show "clean_frame_marked es' = Some (frame, mark)"
    by (rule evid.quiet_keeps[where P = "\<lambda>es. clean_frame_marked es = Some (frame, mark)", OF assms(2) ok _ assms(3)])
       (rule quiet_step_keeps)
next
  assume "clean_frame_marked es' = Some (frame, mark)"
  then show "frame_unchanged mark es'"
    by (auto simp: clean_frame_marked_def clean_frame_def frame_unchanged_def split: evidence_status.splits option.splits)
qed

section \<open>The work of a push\<close>

lemma price_action_units: "pc_units p \<le> pc_units (price_action p a)"
  by (cases a) (auto simp: price_print_def price_execute_def price_esc_def price_csi_def price_alternate_def charge_def Let_def)

lemma price_actions_units: "pc_units p \<le> pc_units (foldl price_action p actions)"
  by (induction actions arbitrary: p) (auto intro: order_trans[OF price_action_units])

lemma meter_price_least: "BYTE_UNITS \<le> snd (meter_price lib b v m)"
proof -
  obtain rows cols where size: "vl_size lib v = (rows, cols)" by fastforce
  obtain shadow actions where adv: "vl_advance lib b (wm_shadow m) = (shadow, actions)" by fastforce
  show ?thesis
    using price_actions_units[of "\<lparr>pc_rows = rows, pc_cols = cols, pc_col = vl_cursor_col lib v, pc_units = BYTE_UNITS,
      pc_alternate = wm_alternate m\<rparr>" actions]
    by (simp add: meter_price_def size adv Let_def)
qed

lemma feed_all_cost:
  "feed_all lib limit bs p = (None, p1) \<Longrightarrow> mp_spent p1 < u64_max \<Longrightarrow> mp_spent p + BYTE_UNITS * length bs \<le> mp_spent p1"
proof (induction bs arbitrary: p)
  case (Cons b bs)
  then obtain q where q: "feed_byte lib b limit p = (True, q)" "feed_all lib limit bs q = (None, p1)"
    by (auto split: prod.splits bool.splits)
  from Cons.IH[OF q(2) Cons.prems(2)] have "mp_spent q + BYTE_UNITS * length bs \<le> mp_spent p1" .
  moreover have "mp_spent q = saturating_add (mp_spent p) (snd (meter_price lib b (mp_parser p) (mp_meter p)))"
    using q(1) by (auto simp: feed_byte_def Let_def split: prod.splits if_splits)
  ultimately show ?case
    using meter_price_least[of lib b "mp_parser p" "mp_meter p"] Cons.prems(2)
    by (auto simp: saturating_add_def min_def split: if_splits)
qed simp

definition spent_before :: "('v, 't) evidence_st \<Rightarrow> nat" where
  "spent_before es = (case es_parser es of Some p \<Rightarrow> mp_spent p | None \<Rightarrow> 0)"

lemma push_parser:
  assumes "es_parser (fst (ev_push lib bytes modes_at es)) = Some p'" "es_parser es = Some p" "has_parser (es_status es)"
    "es_profile es = Some pf"
  shows "feed_all lib (saturating_add (mp_spent p) EVIDENCE_WORK_PER_PUSH) bytes p = (None, p')"
  using assms
  by (cases "es_status es")
     (auto simp: ev_push_def ev_feed_def check_witness_def ev_transition_def Let_def split: option.splits prod.splits if_splits)

lemma push_fresh_parser:
  assumes "es_parser (fst (ev_push lib bytes modes_at es)) = Some p'" "es_parser es = None"
  shows "\<exists>bs p. mp_spent p = 0 \<and> feed_all lib EVIDENCE_WORK_PER_PUSH bs p = (None, p')"
  using assms
  by (force simp: ev_push_def ev_feed_def check_witness_def dirty_push_def ev_transition_def Let_def metered_new_def
      split: option.splits prod.splits evidence_status.splits if_splits)

text \<open>
  Reading the screen costs a bounded amount. In every state an agent's evidence can reach, a parser runs
  only at a size of at most 262144 cells, and a push that leaves it running has cost it at most 5 million
  units of work, of which every byte took at least 64: so at most 78125 bytes.
\<close>

theorem evidence_work_bounded:
  assumes "(evidence_step lib)\<^sup>*\<^sup>* (evidence_new lib profile rows cols) es"
    and "es_parser (fst (ev_push lib bytes modes_at es)) = Some p'"
  shows "max (es_rows es) 1 * max (es_cols es) 1 \<le> 262144
     \<and> mp_spent p' \<le> spent_before es + 5000000
     \<and> (es_parser es \<noteq> None \<and> mp_spent p' < u64_max \<longrightarrow> length bytes \<le> 78125)"
proof -
  have ok: "evidence_ok es" using evid.reachable_inv[OF _ assms(1)] by blast
  have ok': "evidence_ok (fst (ev_push lib bytes modes_at es))" using evidence_push_ok[OF ok] .
  then have "within_budget (es_rows es) (es_cols es)"
    using assms(2) by (simp add: evidence_ok_def push_frame)
  moreover have "mp_spent p' \<le> spent_before es + EVIDENCE_WORK_PER_PUSH
     \<and> (es_parser es \<noteq> None \<and> mp_spent p' < u64_max \<longrightarrow> BYTE_UNITS * length bytes \<le> EVIDENCE_WORK_PER_PUSH)"
  proof (cases "es_parser es")
    case None
    from push_fresh_parser[OF assms(2) this] obtain bs p where "mp_spent p = 0" "feed_all lib EVIDENCE_WORK_PER_PUSH bs p = (None, p')"
      by blast
    with feed_all_spent[of lib EVIDENCE_WORK_PER_PUSH bs p None p'] None show ?thesis by (simp add: spent_before_def)
  next
    case (Some p)
    with ok obtain pf where "has_parser (es_status es)" "es_profile es = Some pf"
      by (cases "es_profile es") (auto simp: evidence_ok_def)
    from push_parser[OF assms(2) Some this]
    have fed: "feed_all lib (saturating_add (mp_spent p) EVIDENCE_WORK_PER_PUSH) bytes p = (None, p')" .
    show ?thesis
    proof (cases "mp_spent p \<le> saturating_add (mp_spent p) EVIDENCE_WORK_PER_PUSH")
      case True
      from feed_all_spent[OF fed True] have "mp_spent p' \<le> mp_spent p + EVIDENCE_WORK_PER_PUSH" by (simp add: saturating_add_def)
      with feed_all_cost[OF fed] Some show ?thesis by (auto simp: spent_before_def)
    next
      case False
      then have limit: "saturating_add (mp_spent p) EVIDENCE_WORK_PER_PUSH = u64_max" "u64_max < mp_spent p"
        by (auto simp: saturating_add_def min_def split: if_splits)
      show ?thesis
      proof (cases bytes)
        case Nil
        with fed Some show ?thesis by (simp add: spent_before_def)
      next
        case (Cons b bs)
        then have "mp_spent p' \<le> u64_max"
          using fed by (auto simp: feed_byte_def Let_def saturating_add_def limit split: prod.splits bool.splits if_splits
              dest!: feed_all_spent)
        with limit feed_all_cost[OF fed] Some show ?thesis by (auto simp: spent_before_def)
      qed
    qed
  qed
  ultimately show ?thesis by (simp add: within_budget_def EVIDENCE_CELLS_MAX_def EVIDENCE_WORK_PER_PUSH_def BYTE_UNITS_def)
qed

section \<open>Examples\<close>

text \<open>A terminal that collects the bytes it is given, and a profile that knows it by a bar.\<close>

definition sample_lib :: "(string, unit) vt_lib" where
  "sample_lib =
     \<lparr>vl_new = (\<lambda>_ _. []), vl_process = (\<lambda>b v. v @ [b]), vl_size = (\<lambda>_. (24, 80)), vl_cursor_col = (\<lambda>_. 0),
      vl_shadow_new = (), vl_advance = (\<lambda>_ _. ((), [PfPrint]))\<rparr>"

definition sample_profile :: "string screen_profile" where
  "sample_profile = \<lparr>sp_redraw_marker = ''##'', sp_width_witness = (\<lambda>v _. List.member v CHR ''|'')\<rparr>"

definition sample_evidence :: "(string, unit) evidence_st" where
  "sample_evidence = evidence_new sample_lib (Some sample_profile) 24 80"

definition sample_pushes :: pushes where
  "sample_pushes = [(''old#'', \<lambda>_. ''m''), (''#new|'', \<lambda>_. ''M'')]"

definition sample_clean :: "(string, unit) evidence_st" where
  "sample_clean = ev_pushes sample_lib sample_pushes (fst (ev_edge Resize 30 100 sample_evidence))"

lemmas sample_eval = sample_clean_def sample_pushes_def sample_evidence_def sample_lib_def sample_profile_def ev_pushes_def
  ev_push_def ev_edge_def edge_status_def evidence_new_def ev_transition_def ev_feed_def dirty_push_def check_witness_def
  find_marker_def windows_def upt_rec within_budget_def EVIDENCE_CELLS_MAX_def Let_def metered_new_def work_meter_new_def
  feed_byte_def meter_price_def price_print_def charge_def saturating_add_def BYTE_UNITS_def EVIDENCE_WORK_PER_PUSH_def
  vt_parser_def u64_max_def

lemma sample_status: "es_status sample_clean = EvClean 3" "es_parser sample_clean \<noteq> None"
  "clean_frame_marked sample_clean = Some ((''M##new|'', 9), \<lparr>fm_layout_epoch = 1, fm_out_seq = 9\<rparr>)"
  "es_parser sample_evidence \<noteq> None" "es_profile sample_evidence = Some sample_profile"
  "es_profile sample_clean = Some sample_profile"
  by (simp_all add: sample_eval clean_frame_marked_def clean_frame_def)

theorem clean_iff_redrawn_witness:
  "clean_frame (ev_pushes sample_lib sample_pushes (fst (ev_edge Resize 30 100 sample_evidence))) = Some (''M##new|'', 9)"
proof -
  have b: "within_budget 30 100" by (simp add: within_budget_def EVIDENCE_CELLS_MAX_def)
  have frames: "redraw_frames sample_lib (sp_redraw_marker sample_profile) 30 100 sample_pushes = [''M##new|'']"
    by (simp add: redraw_frames_def redraw_ends_def redraw_modes_def stream_def replay_def sample_eval)
  have seq: "es_out_seq sample_evidence = 0" "length (stream sample_pushes) = 9" by (simp_all add: sample_eval stream_def)
  show ?thesis
    using clean_iff_redrawn[OF sample_status(5) b refl, of sample_lib sample_pushes Resize]
    unfolding sample_clean_def[symmetric] sample_status(1) frames seq by (simp add: sample_profile_def)
qed

lemma sample_clean_reached: "(evidence_step sample_lib)\<^sup>*\<^sup>* sample_evidence sample_clean"
proof -
  have c: "sample_clean = fst (ev_push sample_lib ''#new|'' (\<lambda>_. ''M'')
      (fst (ev_push sample_lib ''old#'' (\<lambda>_. ''m'') (fst (ev_edge Resize 30 100 sample_evidence)))))"
    by (simp add: sample_clean_def sample_pushes_def ev_pushes_def)
  have "(evidence_step sample_lib)\<^sup>*\<^sup>* sample_evidence (fst (ev_edge Resize 30 100 sample_evidence))"
    by (rule r_into_rtranclp) (rule es_edge)
  then have "(evidence_step sample_lib)\<^sup>*\<^sup>* sample_evidence
      (fst (ev_push sample_lib ''old#'' (\<lambda>_. ''m'') (fst (ev_edge Resize 30 100 sample_evidence))))"
    by (rule rtranclp.rtrancl_into_rtrancl) (rule es_push)
  then show ?thesis unfolding c by (rule rtranclp.rtrancl_into_rtrancl) (rule es_push)
qed

text \<open>A resize invalidates the frame; an empty read does not.\<close>

theorem frame_mark_stands_witness:
  "\<not> frame_unchanged \<lparr>fm_layout_epoch = 1, fm_out_seq = 9\<rparr> (fst (ev_edge NudgeShrink 30 99 sample_clean))
   \<and> frame_unchanged \<lparr>fm_layout_epoch = 1, fm_out_seq = 9\<rparr> (fst (ev_push sample_lib [] (\<lambda>_. []) sample_clean))"
proof -
  note stands = frame_mark_stands[OF sample_clean_reached[unfolded sample_evidence_def] _ sample_status(3)]
  have "clean_frame_marked (fst (ev_edge NudgeShrink 30 99 sample_clean)) = None"
    using sample_status(1,6)
    by (auto simp: clean_frame_marked_def clean_frame_def ev_edge_def ev_transition_def edge_status_def Let_def split: if_splits)
  then show ?thesis
    using stands[OF r_into_rtranclp[of "evidence_step sample_lib", OF es_edge], of NudgeShrink 30 99]
      stands[OF r_into_rtranclp[of "evidence_step sample_lib", OF es_push], of "[]" "\<lambda>_. []"]
      empty_push_keeps[OF sample_status(3), of sample_lib "\<lambda>_. []"] by simp
qed

end
