(* ===== verification/Attempt_Data.thy ===== *)
theory Attempt_Data
  imports Inbox_Data "HOL-Library.Char_ord" "HOL-Library.List_Lexorder"
begin

text \<open>
  The data of the delivery model of one agent generation, \<^verbatim>\<open>src/src/inbox_attempts.rs\<close>: its limits, the
  stages of an attempt, the states of a message, receivers and the model itself, and the functions that
  only read them.

  A \<^verbatim>\<open>BTreeMap\<close> is an association list in ascending order of its keys, which is the order the loops of the
  source visit it in; strings are ordered by their bytes. Numbers of 32 and 64 bits that only count up by
  one are natural numbers.
\<close>

section \<open>Ordered maps\<close>

definition bt_insert :: "'k :: linorder \<Rightarrow> 'v \<Rightarrow> ('k \<times> 'v) list \<Rightarrow> ('k \<times> 'v) list" where
  "bt_insert k v m = takeWhile (\<lambda>e. fst e < k) m @ (k, v) # dropWhile (\<lambda>e. fst e \<le> k) m"

definition bt_remove :: "'k \<Rightarrow> ('k \<times> 'v) list \<Rightarrow> ('k \<times> 'v) list" where
  "bt_remove k m = filter (\<lambda>e. fst e \<noteq> k) m"

definition bt_modify :: "'k \<Rightarrow> ('v \<Rightarrow> 'v) \<Rightarrow> ('k \<times> 'v) list \<Rightarrow> ('k \<times> 'v) list" where
  "bt_modify k f m = map (\<lambda>e. if fst e = k then (k, f (snd e)) else e) m"

section \<open>Limits\<close>

definition MAX_ATTEMPTS :: nat where
  "MAX_ATTEMPTS = 6"

definition MAX_AUTO_REPEATS :: nat where
  "MAX_AUTO_REPEATS = 2"

definition EVIDENCE_PER_ATTEMPT :: nat where
  "EVIDENCE_PER_ATTEMPT = 5"

definition DEFAULT_EVIDENCE_LIMIT :: nat where
  "DEFAULT_EVIDENCE_LIMIT = 1024"

definition HELD_LONG_AFTER :: duration where
  "HELD_LONG_AFTER = from_secs (60 * 60)"

definition NOT_STARTED_AFTER :: duration where
  "NOT_STARTED_AFTER = from_secs (3 * 60)"

definition KEEPALIVES_PER_POSSESS_TTL :: nat where
  "KEEPALIVES_PER_POSSESS_TTL = 3"

definition WAIT_TTLS_BEFORE_UNCERTAIN :: nat where
  "WAIT_TTLS_BEFORE_UNCERTAIN = 2"

definition CLOSED_RETIRE_TTLS :: nat where
  "CLOSED_RETIRE_TTLS = 3"

definition MAX_LIVE_HOOKS :: nat where
  "MAX_LIVE_HOOKS = 8"

definition DEFAULT_KEEPALIVE :: duration where
  "DEFAULT_KEEPALIVE = from_secs 30"

record attempt_limits =
  al_max_attempts :: nat
  al_max_auto_repeats :: nat
  al_max_deliver :: nat
  al_evidence_limit :: nat
  al_possess_ttl :: duration
  al_ack_wait :: duration
  al_held_long_after :: duration
  al_not_started_after :: duration

definition uncertain_after :: "attempt_limits \<Rightarrow> duration" where
  "uncertain_after l = al_possess_ttl l * WAIT_TTLS_BEFORE_UNCERTAIN"

definition closed_retire_after :: "attempt_limits \<Rightarrow> duration" where
  "closed_retire_after l = al_possess_ttl l * CLOSED_RETIRE_TTLS"

definition hook_hold :: "attempt_limits \<Rightarrow> duration" where
  "hook_hold l = al_ack_wait l"

definition grant_ttl :: "attempt_limits \<Rightarrow> duration" where
  "grant_ttl l = al_ack_wait l"

definition default_attempt_limits :: attempt_limits where
  "default_attempt_limits =
     \<lparr>al_max_attempts = MAX_ATTEMPTS, al_max_auto_repeats = MAX_AUTO_REPEATS, al_max_deliver = max_deliver default_limits,
      al_evidence_limit = DEFAULT_EVIDENCE_LIMIT, al_possess_ttl = DEFAULT_KEEPALIVE * KEEPALIVES_PER_POSSESS_TTL,
      al_ack_wait = ack_wait default_limits, al_held_long_after = HELD_LONG_AFTER, al_not_started_after = NOT_STARTED_AFTER\<rparr>"

section \<open>Stages and states\<close>

record turn_view =
  tv_busy :: bool
  tv_idle_since :: "instant option"

definition turn_view_default :: turn_view where
  "turn_view_default = \<lparr>tv_busy = False, tv_idle_since = None\<rparr>"

type_synonym rx = nat

datatype rx_slot = OpencodeServer | OpencodeTui | PiSlot | OnceWaiter | HookSlot

datatype stage = SgIssued | SgHanded | SgCommitted | SgNotHanded | SgHandedInert | SgFenced

definition stage_is_final :: "stage \<Rightarrow> bool" where
  "stage_is_final s \<longleftrightarrow> \<not> (s = SgIssued \<or> s = SgHanded)"

fun stage_rank :: "stage \<Rightarrow> nat" where
  "stage_rank SgIssued = 0"
| "stage_rank SgHanded = 1"
| "stage_rank _ = 2"

datatype uncertain_reason = UnLapsed | UnOutOfAttempts

datatype undelivered_reason = UdCancelled | UdExited | UdMaxDeliver

datatype delivery_state =
    DsQueued
  | DsAttempting
  | DsUncertain uncertain_reason
  | DsCancelHeld
  | DsSettled
  | DsUndeliverable undelivered_reason

fun ds_terminal :: "delivery_state \<Rightarrow> bool" where
  "ds_terminal DsSettled = True"
| "ds_terminal (DsUndeliverable _) = True"
| "ds_terminal _ = False"

fun ds_uncertain :: "delivery_state \<Rightarrow> bool" where
  "ds_uncertain (DsUncertain _) = True"
| "ds_uncertain _ = False"

datatype issue_kind = IkFirst | IkRequeue | IkAutoRepeat | IkManualRetry

definition ik_marked :: "issue_kind \<Rightarrow> bool" where
  "ik_marked k \<longleftrightarrow> k = IkAutoRepeat \<or> k = IkManualRetry"

record attempt =
  tp_a :: nat
  tp_e :: nat
  tp_rx :: rx
  tp_d :: nat
  tp_stage :: stage
  tp_kind :: issue_kind
  tp_cleared :: bool
  tp_mark :: nat
  tp_resume_pending :: bool
  tp_revoked :: bool
  tp_revoke_sent :: "instant option"
  tp_verifier :: bool
  tp_correcting :: "rx option"
  tp_reclaimed :: bool
  tp_issued_at :: instant
  tp_resume_deadline :: "instant option"
  tp_slot :: rx_slot
  tp_quiet_at :: "instant option"
  tp_withheld :: bool
  tp_staged_until :: "instant option"

datatype token_kind = TkAuto | TkManual

record lapse_check =
  lc_id :: string
  lc_a :: nat
  lc_e :: nat
  lc_mark :: nat

record repeat_token =
  rt_a :: nat
  rt_revision :: nat
  rt_kind :: token_kind

datatype verb = VbRetry | VbCancel

datatype action_outcome =
    AoApplied nat
  | AoStale delivery_state nat
  | AoNotApplicable delivery_state
  | AoAlreadySettled
  | AoRetryLimit
  | AoWrongGeneration
  | AoUnknown

record delivery =
  dl_offer :: bool
  dl_a :: nat
  dl_state :: delivery_state
  dl_revision :: nat
  dl_attempts :: "attempt list"
  dl_latch :: bool
  dl_auto_repeats :: nat
  dl_issued :: nat
  dl_requeues :: nat
  dl_token :: "repeat_token option"
  dl_possessed_since :: "instant option"
  dl_waiting_since :: "instant option"
  dl_held_long_sent :: "nat option"
  dl_not_started_anchor :: "instant option"
  dl_not_started_after_e :: nat
  dl_not_started :: "nat option"
  dl_last_action :: "(nat \<times> verb \<times> action_outcome) option"
  dl_corrected :: bool

definition delivery_new :: "bool \<Rightarrow> nat \<Rightarrow> delivery" where
  "delivery_new off a =
     \<lparr>dl_offer = off, dl_a = a, dl_state = DsQueued, dl_revision = 0, dl_attempts = [], dl_latch = False,
      dl_auto_repeats = 0, dl_issued = 0, dl_requeues = 0, dl_token = None, dl_possessed_since = None,
      dl_waiting_since = None, dl_held_long_sent = None, dl_not_started_anchor = None, dl_not_started_after_e = 0,
      dl_not_started = None, dl_last_action = None, dl_corrected = False\<rparr>"

definition is_attempt :: "nat \<Rightarrow> nat \<Rightarrow> attempt \<Rightarrow> bool" where
  "is_attempt a e t \<longleftrightarrow> tp_a t = a \<and> tp_e t = e"

definition dl_attempt :: "nat \<Rightarrow> nat \<Rightarrow> delivery \<Rightarrow> attempt option" where
  "dl_attempt a e msg = find (is_attempt a e) (dl_attempts msg)"

text \<open>\<^verbatim>\<open>attempt_mut\<close>: a change of the first attempt with these numbers.\<close>

definition change_attempt :: "nat \<Rightarrow> nat \<Rightarrow> (attempt \<Rightarrow> attempt) \<Rightarrow> delivery \<Rightarrow> delivery" where
  "change_attempt a e f msg = msg\<lparr>dl_attempts := change_first (is_attempt a e) f (dl_attempts msg)\<rparr>"

definition repeat_scheduled :: "delivery \<Rightarrow> bool" where
  "repeat_scheduled msg \<longleftrightarrow> dl_token msg \<noteq> None"

definition dl_held_long :: "delivery \<Rightarrow> bool" where
  "dl_held_long msg \<longleftrightarrow> dl_state msg = DsAttempting \<and> dl_held_long_sent msg = Some (dl_revision msg)"

definition dl_not_started_shown :: "delivery \<Rightarrow> bool" where
  "dl_not_started_shown msg \<longleftrightarrow>
     dl_state msg = DsAttempting \<and> dl_not_started msg = Some (dl_revision msg) \<and> \<not> dl_held_long msg"

definition set_state :: "delivery_state \<Rightarrow> delivery \<Rightarrow> delivery" where
  "set_state st msg =
     (if dl_state msg \<noteq> st then msg\<lparr>dl_state := st, dl_revision := dl_revision msg + 1\<rparr> else msg)"

datatype attempt_effect =
    EfRevoke string nat nat
  | EfDeliveredAfterAll string bool
  | EfWitnessViolation string nat nat
  | EfAlsoReachedOldWorker string nat
  | EfReturnToPool string nat
  | EfHeldLong string nat
  | EfEvidencePaused nat
  | EfReclaimed string nat nat
  | EfClose rx
  | EfStagingLapsed string nat nat

datatype issue_refusal =
    IrUnknownMessage | IrRetiredReceiver | IrTerminal | IrCancelled | IrNothingToIssue | IrStaleRepeat
  | IrOutOfAttempts | IrEvidencePaused | IrExited

record issued =
  is_a :: nat
  is_e :: nat
  is_d :: nat
  is_kind :: issue_kind

datatype stage_outcome = SoApplied | SoNoOp | SoRecorded | SoWrongReceiver | SoUnknown | SoExited

datatype snapshot_outcome = SnApplied | SnDropped

datatype resume_ans = RaRetained | RaNotHanded | RaUnknown

record registration =
  rn_rx :: rx
  rn_resume :: "(string \<times> nat \<times> nat) list"
  rn_correctable :: "(string \<times> nat \<times> nat) list"

record grant =
  gr_id :: string
  gr_a :: nat
  gr_e :: nat
  gr_rx :: rx
  gr_epoch :: nat

datatype hand_over_refusal = HrUnknown | HrWrongReceiver | HrCommitted | HrRevoked | HrHeldEarlier

section \<open>The component side\<close>

record callback_guard =
  cg_epoch :: nat
  cg_revoked :: "(string \<times> nat \<times> nat) set"

definition guard_new :: "nat \<Rightarrow> callback_guard" where
  "guard_new epoch = \<lparr>cg_epoch = epoch, cg_revoked = {}\<rparr>"

definition guard_rebind :: "nat \<Rightarrow> callback_guard \<Rightarrow> callback_guard" where
  "guard_rebind epoch g = g\<lparr>cg_epoch := epoch\<rparr>"

definition guard_revoke :: "string \<Rightarrow> nat \<Rightarrow> nat \<Rightarrow> callback_guard \<Rightarrow> callback_guard" where
  "guard_revoke i a e g = g\<lparr>cg_revoked := insert (i, a, e) (cg_revoked g)\<rparr>"

definition may_call :: "grant \<Rightarrow> callback_guard \<Rightarrow> bool" where
  "may_call grant g \<longleftrightarrow> gr_epoch grant = cg_epoch g \<and> (gr_id grant, gr_a grant, gr_e grant) \<notin> cg_revoked g"

record watermark =
  wk_seen :: nat
  wk_above :: "nat set"

definition watermark_default :: watermark where
  "watermark_default = \<lparr>wk_seen = 0, wk_above = {}\<rparr>"

text \<open>The loop takes numbers out of a finite set; it runs at most once for each, which is the fuel.\<close>

fun absorb :: "nat \<Rightarrow> watermark \<Rightarrow> watermark" where
  "absorb 0 w = w"
| "absorb (Suc n) w =
     (if wk_seen w + 1 \<in> wk_above w
      then absorb n \<lparr>wk_seen = wk_seen w + 1, wk_above = wk_above w - {wk_seen w + 1}\<rparr>
      else w)"

definition watermark_observe :: "nat \<Rightarrow> watermark \<Rightarrow> watermark" where
  "watermark_observe d w =
     (if d \<le> wk_seen w then w
      else let above = insert d (wk_above w) in absorb (card above) (w\<lparr>wk_above := above\<rparr>))"

section \<open>Receivers and the model\<close>

record receiver =
  rv_slot :: rx_slot
  rv_retired :: bool
  rv_last_seq :: "nat option"
  rv_seen :: nat
  rv_fresh_at :: instant
  rv_held :: "(string \<times> nat \<times> nat) set"
  rv_hold_until :: "instant option"
  rv_closed_at :: "instant option"
  rv_queue_survived :: bool
  rv_next_d :: nat

record attempt_model =
  am_limits :: attempt_limits
  am_generation :: nat
  am_receivers :: "(rx \<times> receiver) list"
  am_slots :: "rx_slot \<Rightarrow> rx option"
  am_next_rx :: nat
  am_messages :: "(string \<times> delivery) list"
  am_forgotten_a :: nat
  am_evidence_reserved :: nat
  am_effects :: "attempt_effect list"
  am_exited :: bool
  am_turn :: turn_view
  am_seen_slots :: "rx_slot set"

datatype commit_target_refusal = CtNoAttempt | CtNotHanded

definition attempt_model_new :: "attempt_limits \<Rightarrow> nat \<Rightarrow> attempt_model" where
  "attempt_model_new limits generation =
     \<lparr>am_limits = limits, am_generation = generation, am_receivers = [], am_slots = (\<lambda>_. None), am_next_rx = 1,
      am_messages = [], am_forgotten_a = 0, am_evidence_reserved = 0, am_effects = [], am_exited = False,
      am_turn = turn_view_default, am_seen_slots = {}\<rparr>"

section \<open>Possession\<close>

definition recheck :: "attempt \<Rightarrow> attempt" where
  "recheck t = t\<lparr>tp_cleared := False, tp_mark := tp_mark t + 1\<rparr>"

definition regained :: "attempt \<Rightarrow> attempt" where
  "regained t = recheck t"

definition fence :: "attempt \<Rightarrow> attempt" where
  "fence t = regained (t\<lparr>tp_stage := SgFenced, tp_verifier := True\<rparr>)"

definition owes_revoke :: "attempt \<Rightarrow> bool" where
  "owes_revoke t \<longleftrightarrow> tp_revoked t \<and> \<not> stage_is_final (tp_stage t) \<and> \<not> tp_resume_pending t \<and> \<not> tp_reclaimed t"

definition needs_clearance :: "attempt \<Rightarrow> bool" where
  "needs_clearance t \<longleftrightarrow>
     \<not> tp_resume_pending t \<and> \<not> tp_withheld t
     \<and> (tp_stage t = SgIssued \<or> tp_stage t = SgHanded \<or> tp_stage t = SgFenced \<or> tp_stage t = SgHandedInert)"

definition is_stream :: "rx_slot \<Rightarrow> bool" where
  "is_stream s \<longleftrightarrow> s = OpencodeServer \<or> s = OpencodeTui \<or> s = PiSlot"

definition snapshot_holds :: "(rx \<times> receiver) list \<Rightarrow> attempt_limits \<Rightarrow> string \<Rightarrow> attempt \<Rightarrow> instant \<Rightarrow> bool" where
  "snapshot_holds receivers limits i t now =
     (case map_of receivers (tp_rx t) of
        None \<Rightarrow> False
      | Some r \<Rightarrow>
          is_stream (rv_slot r) \<and> now < rv_fresh_at r + al_possess_ttl limits \<and> (i, tp_a t, tp_e t) \<in> rv_held r)"

definition once_held :: "attempt \<Rightarrow> bool" where
  "once_held t \<longleftrightarrow> tp_slot t = OnceWaiter \<and> \<not> (tp_stage t = SgCommitted \<or> tp_stage t = SgNotHanded)"

definition once_anchor :: "attempt \<Rightarrow> turn_view \<Rightarrow> instant" where
  "once_anchor t turn = max (tp_issued_at t) (case tv_idle_since turn of Some i \<Rightarrow> i | None \<Rightarrow> tp_issued_at t)"

definition one_shot :: "rx_slot \<Rightarrow> bool" where
  "one_shot s \<longleftrightarrow> s = OnceWaiter \<or> s = HookSlot"

definition possessed ::
  "(rx \<times> receiver) list \<Rightarrow> attempt_limits \<Rightarrow> turn_view \<Rightarrow> string \<Rightarrow> attempt \<Rightarrow> instant \<Rightarrow> bool" where
  "possessed receivers limits turn i t now =
     (if tp_resume_pending t then False
      else if tp_slot t = OnceWaiter then once_held t \<and> (tv_busy turn \<or> now < once_anchor t turn + al_ack_wait limits)
      else if tp_stage t = SgCommitted \<or> tp_stage t = SgNotHanded \<or> tp_stage t = SgFenced then False
      else case map_of receivers (tp_rx t) of
             None \<Rightarrow> False
           | Some r \<Rightarrow>
               (if rv_retired r then False
                else if is_stream (rv_slot r)
                  then snapshot_holds receivers limits i t now
                       \<or> (rv_seen r < tp_d t \<and> now < tp_issued_at t + al_possess_ttl limits)
                else if rv_slot r = OnceWaiter then False
                else (case rv_hold_until r of Some until \<Rightarrow> now < until | None \<Rightarrow> False)))"

end
