(* ===== verification/Attempt_Ops.thy ===== *)
theory Attempt_Ops
  imports Attempt_Data
begin

text \<open>
  The operations of the delivery model, \<^verbatim>\<open>AttemptModel\<close> of \<^verbatim>\<open>src/src/inbox_attempts.rs\<close>: every method that
  changes it, the finalizer with its five rules, and the reads. A method takes the model and answers the
  model after the call, with the method's own answer beside it where it has one. What the source tells the
  hub to do is appended to \<^const>\<open>am_effects\<close>.
\<close>

section \<open>The finalizer\<close>

definition push_effect :: "attempt_effect \<Rightarrow> attempt_model \<Rightarrow> attempt_model" where
  "push_effect ef m = m\<lparr>am_effects := am_effects m @ [ef]\<rparr>"

definition change_message :: "string \<Rightarrow> (delivery \<Rightarrow> delivery) \<Rightarrow> attempt_model \<Rightarrow> attempt_model" where
  "change_message i f m = m\<lparr>am_messages := bt_modify i f (am_messages m)\<rparr>"

definition am_delivery :: "string \<Rightarrow> attempt_model \<Rightarrow> delivery option" where
  "am_delivery i m = map_of (am_messages m) i"

definition am_state :: "string \<Rightarrow> attempt_model \<Rightarrow> delivery_state option" where
  "am_state i m = map_option dl_state (am_delivery i m)"

definition held_now :: "attempt_model \<Rightarrow> string \<Rightarrow> attempt \<Rightarrow> instant \<Rightarrow> bool" where
  "held_now m i t now = possessed (am_receivers m) (am_limits m) (am_turn m) i t now"

definition current_attempts :: "delivery \<Rightarrow> attempt list" where
  "current_attempts msg = filter (\<lambda>t. tp_a t = dl_a msg) (dl_attempts msg)"

text \<open>One attempt's reclaim.\<close>

definition reclaim_due :: "delivery_state \<Rightarrow> attempt \<Rightarrow> bool" where
  "reclaim_due st t \<longleftrightarrow>
     ds_terminal st \<and> stage_is_final (tp_stage t) \<and> \<not> tp_resume_pending t \<and> \<not> tp_verifier t \<and> \<not> tp_withheld t"

fun reclaim_attempts ::
  "string \<Rightarrow> delivery_state \<Rightarrow> attempt list \<Rightarrow> nat \<Rightarrow> attempt list \<times> nat \<times> attempt_effect list" where
  "reclaim_attempts i st [] reserved = ([], reserved, [])"
| "reclaim_attempts i st (t # ts) reserved =
     (if tp_reclaimed t
      then (case reclaim_attempts i st ts reserved of (ts', r, efs) \<Rightarrow> (t # ts', r, efs))
      else
        let t1 = (if st = DsSettled then t\<lparr>tp_verifier := False\<rparr> else t)
        in if reclaim_due st t1
           then (case reclaim_attempts i st ts (reserved - EVIDENCE_PER_ATTEMPT) of
                   (ts', r, efs) \<Rightarrow> (t1\<lparr>tp_reclaimed := True\<rparr> # ts', r, EfReclaimed i (tp_a t1) (tp_e t1) # efs))
           else (case reclaim_attempts i st ts reserved of (ts', r, efs) \<Rightarrow> (t1 # ts', r, efs)))"

definition reclaim :: "string \<Rightarrow> attempt_model \<Rightarrow> attempt_model" where
  "reclaim i m =
     (case am_delivery i m of
        None \<Rightarrow> m
      | Some msg \<Rightarrow>
          (case reclaim_attempts i (dl_state msg) (dl_attempts msg) (am_evidence_reserved m) of
             (ts, reserved, efs) \<Rightarrow>
               (change_message i (\<lambda>msg. msg\<lparr>dl_attempts := ts\<rparr>) m)
                 \<lparr>am_evidence_reserved := reserved, am_effects := am_effects m @ efs\<rparr>))"

text \<open>What the rules ask of the attempts of the current assignment, read before any of them changes.\<close>

record final_facts =
  ff_committed :: bool
  ff_held :: bool
  ff_resuming :: bool
  ff_all_final :: bool
  ff_all_not_handed :: bool
  ff_none_issued :: bool
  ff_witnessed :: bool
  ff_cleared :: bool

definition final_facts_of :: "attempt_model \<Rightarrow> string \<Rightarrow> delivery \<Rightarrow> instant \<Rightarrow> final_facts" where
  "final_facts_of m i msg now =
     (let current = current_attempts msg
      in \<lparr>ff_committed = list_ex (\<lambda>t. tp_stage t = SgCommitted) current,
          ff_held = list_ex (\<lambda>t. held_now m i t now) current,
          ff_resuming = list_ex (\<lambda>t. tp_resume_pending t \<or> tp_withheld t) current,
          ff_all_final = list_all (\<lambda>t. stage_is_final (tp_stage t) \<and> \<not> tp_resume_pending t \<and> \<not> tp_withheld t) current,
          ff_all_not_handed = (current \<noteq> [] \<and> list_all (\<lambda>t. tp_stage t = SgNotHanded) current),
          ff_none_issued = (current = []),
          ff_witnessed = list_ex (\<lambda>t. tp_stage t = SgHanded
              \<or> (held_now m i t now \<and> snapshot_holds (am_receivers m) (am_limits m) i t now))
            (filter (\<lambda>t. dl_not_started_after_e msg < tp_e t) current),
          ff_cleared = list_all (\<lambda>t. needs_clearance t \<longrightarrow> tp_cleared t) current\<rparr>)"

text \<open>The message was told of as not delivered, and was: the sender is corrected once.\<close>

definition correct_sender :: "string \<Rightarrow> bool \<Rightarrow> delivery \<Rightarrow> delivery \<times> attempt_effect list" where
  "correct_sender i despite_cancel msg =
     (if dl_corrected msg then (msg, [])
      else (msg\<lparr>dl_corrected := True\<rparr>, [EfDeliveredAfterAll i despite_cancel]))"

text \<open>Revoking the open attempts a selection names.\<close>

definition revoke_open :: "instant \<Rightarrow> string \<Rightarrow> (attempt \<Rightarrow> bool) \<Rightarrow> delivery \<Rightarrow> delivery \<times> attempt_effect list" where
  "revoke_open now i sel msg =
     (let open_t = (\<lambda>t. sel t \<and> \<not> stage_is_final (tp_stage t) \<and> \<not> tp_revoked t)
      in (msg\<lparr>dl_attempts := map (\<lambda>t. if open_t t then t\<lparr>tp_revoked := True, tp_revoke_sent := Some now\<rparr> else t) (dl_attempts msg)\<rparr>,
          map (\<lambda>t. EfRevoke i (tp_a t) (tp_e t)) (filter open_t (dl_attempts msg))))"

definition rule_settle :: "instant \<Rightarrow> string \<Rightarrow> delivery \<Rightarrow> delivery \<times> attempt_effect list" where
  "rule_settle now i msg =
     (let told_otherwise = (dl_latch msg \<or> ds_uncertain (dl_state msg));
          msg1 = (set_state DsSettled msg)\<lparr>dl_token := None, dl_possessed_since := None, dl_waiting_since := None,
                                           dl_held_long_sent := None\<rparr>;
          (msg2, revokes) = revoke_open now i (\<lambda>_. True) msg1
      in if told_otherwise
         then (case correct_sender i (dl_latch msg2) msg2 of (msg3, efs) \<Rightarrow> (msg3, revokes @ efs))
         else (msg2, revokes))"

definition rule_committed :: "instant \<Rightarrow> string \<Rightarrow> delivery \<Rightarrow> delivery \<times> attempt_effect list" where
  "rule_committed now i msg =
     (if dl_state msg = DsUndeliverable UdMaxDeliver \<and> \<not> dl_offer msg then correct_sender i False (set_state DsSettled msg)
      else if ds_terminal (dl_state msg)
        then (if dl_state msg = DsUndeliverable UdCancelled then correct_sender i True msg
              else if dl_state msg = DsUndeliverable UdMaxDeliver then correct_sender i False msg
              else (msg, []))
      else rule_settle now i msg)"

definition rule_latch :: "string \<Rightarrow> final_facts \<Rightarrow> delivery \<Rightarrow> delivery \<times> attempt_effect list" where
  "rule_latch i facts msg =
     (let msg1 = msg\<lparr>dl_token := None, dl_possessed_since := None, dl_waiting_since := None\<rparr>
      in if ff_all_final facts
         then (set_state (DsUndeliverable UdCancelled) msg1,
               if dl_offer msg1 \<and> ff_all_not_handed facts then [EfReturnToPool i (dl_a msg1)] else [])
         else (set_state DsCancelHeld msg1, []))"

definition rule_not_handed :: "attempt_limits \<Rightarrow> string \<Rightarrow> delivery \<Rightarrow> delivery \<times> attempt_effect list" where
  "rule_not_handed limits i msg =
     (let msg1 = msg\<lparr>dl_token := None, dl_possessed_since := None, dl_waiting_since := None\<rparr>
      in if dl_state msg1 = DsQueued then (msg1, [])
         else
           let msg2 = msg1\<lparr>dl_requeues := dl_requeues msg1 + 1\<rparr>
           in if al_max_deliver limits \<le> dl_requeues msg2 \<or> al_max_attempts limits \<le> dl_issued msg2
              then (set_state (DsUndeliverable UdMaxDeliver) msg2, [])
              else if dl_offer msg2
                then (set_state DsQueued (msg2\<lparr>dl_a := dl_a msg2 + 1\<rparr>), [EfReturnToPool i (dl_a msg2)])
              else (set_state DsQueued msg2, []))"

definition is_auto :: "repeat_token \<Rightarrow> bool" where
  "is_auto t \<longleftrightarrow> rt_kind t = TkAuto"

definition rule_possessed :: "instant \<Rightarrow> final_facts \<Rightarrow> delivery \<Rightarrow> delivery" where
  "rule_possessed now facts msg =
     (let msg1 = (case dl_token msg of Some t \<Rightarrow> (if is_auto t then msg\<lparr>dl_token := None\<rparr> else msg) | None \<Rightarrow> msg);
          msg2 = (set_state DsAttempting msg1)\<lparr>dl_waiting_since := None\<rparr>
      in if ff_held facts
         then msg2\<lparr>dl_possessed_since := (case dl_possessed_since msg2 of None \<Rightarrow> Some now | s \<Rightarrow> s)\<rparr>
         else msg2\<lparr>dl_possessed_since := None\<rparr>)"

definition rule_waiting :: "attempt_limits \<Rightarrow> instant \<Rightarrow> final_facts \<Rightarrow> delivery \<Rightarrow> delivery" where
  "rule_waiting limits now facts msg =
     (let waiting = (case dl_waiting_since msg of None \<Rightarrow> now | Some w \<Rightarrow> w);
          msg1 = msg\<lparr>dl_possessed_since := None, dl_waiting_since := Some waiting\<rparr>;
          waited = (waiting + uncertain_after limits \<le> now)
      in if dl_token msg1 \<noteq> None
         then (if waited then set_state (DsUncertain UnLapsed) (msg1\<lparr>dl_token := None\<rparr>) else set_state DsAttempting msg1)
         else if ds_uncertain (dl_state msg1) then msg1
         else if al_max_attempts limits \<le> dl_issued msg1 then set_state (DsUncertain UnOutOfAttempts) msg1
         else if \<not> ff_cleared facts
           then (if waited then set_state (DsUncertain UnLapsed) msg1 else set_state DsAttempting msg1)
         else if dl_auto_repeats msg1 < al_max_auto_repeats limits
           then let msg2 = set_state DsAttempting msg1
                in msg2\<lparr>dl_token := Some \<lparr>rt_a = dl_a msg2, rt_revision = dl_revision msg2, rt_kind = TkAuto\<rparr>\<rparr>
         else set_state (DsUncertain UnLapsed) msg1)"

definition final_rules :: "attempt_limits \<Rightarrow> instant \<Rightarrow> string \<Rightarrow> final_facts \<Rightarrow> delivery \<Rightarrow> delivery \<times> attempt_effect list" where
  "final_rules limits now i facts msg =
     (if ff_committed facts then rule_committed now i msg
      else if ds_terminal (dl_state msg) then (msg, [])
      else if dl_latch msg then rule_latch i facts msg
      else if ff_none_issued facts then (set_state DsQueued msg, [])
      else if ff_all_not_handed facts then rule_not_handed limits i msg
      else if ff_held facts \<or> ff_resuming facts then (rule_possessed now facts msg, [])
      else (rule_waiting limits now facts msg, []))"

definition anchor_not_started :: "instant \<Rightarrow> final_facts \<Rightarrow> delivery \<Rightarrow> delivery" where
  "anchor_not_started now facts msg =
     (if dl_state msg = DsAttempting \<and> \<not> dl_latch msg
      then (if ff_witnessed facts
            then msg\<lparr>dl_not_started_anchor := (case dl_not_started_anchor msg of None \<Rightarrow> Some now | s \<Rightarrow> s)\<rparr>
            else msg)
      else msg\<lparr>dl_not_started_anchor := None, dl_not_started := None\<rparr>)"

definition finalize :: "instant \<Rightarrow> string \<Rightarrow> attempt_model \<Rightarrow> attempt_model" where
  "finalize now i m =
     (if am_exited m then m
      else case am_delivery i m of
        None \<Rightarrow> m
      | Some msg \<Rightarrow>
          (let facts = final_facts_of m i msg now;
               (msg1, efs) = final_rules (am_limits m) now i facts msg
           in reclaim i ((change_message i (\<lambda>_. anchor_not_started now facts msg1) m)\<lparr>am_effects := am_effects m @ efs\<rparr>)))"

definition finalize_ids :: "instant \<Rightarrow> string list \<Rightarrow> attempt_model \<Rightarrow> attempt_model" where
  "finalize_ids now ids m = foldl (\<lambda>m i. finalize now i m) m ids"

definition finalize_all :: "instant \<Rightarrow> attempt_model \<Rightarrow> attempt_model" where
  "finalize_all now m = finalize_ids now (map fst (am_messages m)) m"

definition finalize_bound_to :: "instant \<Rightarrow> rx \<Rightarrow> attempt_model \<Rightarrow> attempt_model" where
  "finalize_bound_to now x m =
     finalize_ids now (map fst (filter (\<lambda>e. list_ex (\<lambda>t. tp_rx t = x) (dl_attempts (snd e))) (am_messages m))) m"

section \<open>Loops over every attempt\<close>

definition map_attempts :: "(string \<Rightarrow> attempt \<Rightarrow> attempt) \<Rightarrow> attempt_model \<Rightarrow> attempt_model" where
  "map_attempts f m =
     m\<lparr>am_messages := map (\<lambda>(i, msg). (i, msg\<lparr>dl_attempts := map (f i) (dl_attempts msg)\<rparr>)) (am_messages m)\<rparr>"

definition attempts_where :: "(string \<Rightarrow> attempt \<Rightarrow> bool) \<Rightarrow> attempt_model \<Rightarrow> (string \<times> attempt) list" where
  "attempts_where p m = concat (map (\<lambda>(i, msg). map (Pair i) (filter (p i) (dl_attempts msg))) (am_messages m))"

definition attempt_ref :: "string \<times> attempt \<Rightarrow> string \<times> nat \<times> nat" where
  "attempt_ref e = (fst e, tp_a (snd e), tp_e (snd e))"

section \<open>The turn clock\<close>

definition am_turn_to :: "instant \<Rightarrow> turn_view \<Rightarrow> attempt_model \<Rightarrow> attempt_model" where
  "am_turn_to now view m =
     (let started = (tv_busy view \<and> \<not> tv_busy (am_turn m));
          m1 = m\<lparr>am_turn := view\<rparr>;
          touched = map fst (filter (\<lambda>e. list_ex once_held (dl_attempts (snd e))) (am_messages m1));
          m2 = (if started then map_attempts (\<lambda>_ t. if once_held t then regained t else t) m1 else m1)
      in finalize_ids now touched m2)"

definition least_of :: "instant list \<Rightarrow> instant option" where
  "least_of xs = (case xs of [] \<Rightarrow> None | _ \<Rightarrow> Some (Min (set xs)))"

definition hold_due_at :: "attempt_model \<Rightarrow> instant option" where
  "hold_due_at m =
     least_of (List.map_filter (\<lambda>e. rv_hold_until (snd e)) (am_receivers m))"

definition hook_room :: "attempt_model \<Rightarrow> bool" where
  "hook_room m \<longleftrightarrow>
     length (filter (\<lambda>e. rv_slot (snd e) = HookSlot \<and> \<not> rv_retired (snd e)) (am_receivers m)) < MAX_LIVE_HOOKS"

definition commit_target :: "string \<Rightarrow> attempt_model \<Rightarrow> commit_target_refusal + nat \<times> nat" where
  "commit_target i m =
     (case am_delivery i m of
        None \<Rightarrow> Inl CtNoAttempt
      | Some msg \<Rightarrow>
          (if current_attempts msg = [] then Inl CtNoAttempt
           else case filter (\<lambda>t. tp_stage t \<noteq> SgNotHanded \<and> \<not> tp_withheld t) (current_attempts msg) of
                  [] \<Rightarrow> Inl CtNotHanded
                | ts \<Rightarrow> Inr (dl_a msg, Max (set (map tp_e ts)))))"

definition am_post :: "string \<Rightarrow> bool \<Rightarrow> attempt_model \<Rightarrow> attempt_model" where
  "am_post i off m =
     (if am_delivery i m \<noteq> None then m
      else m\<lparr>am_messages := bt_insert i (delivery_new off (am_forgotten_a m + 1)) (am_messages m)\<rparr>)"

definition drain_effects :: "attempt_model \<Rightarrow> attempt_model \<times> attempt_effect list" where
  "drain_effects m = (m\<lparr>am_effects := []\<rparr>, am_effects m)"

section \<open>Receivers\<close>

definition am_live :: "rx \<Rightarrow> attempt_model \<Rightarrow> bool" where
  "am_live x m = (case map_of (am_receivers m) x of Some r \<Rightarrow> \<not> rv_retired r | None \<Rightarrow> False)"

definition slot_rx :: "rx_slot \<Rightarrow> attempt_model \<Rightarrow> rx option" where
  "slot_rx s m = (case am_slots m s of Some x \<Rightarrow> (if am_live x m then Some x else None) | None \<Rightarrow> None)"

definition free_slot :: "rx_slot \<Rightarrow> rx \<Rightarrow> attempt_model \<Rightarrow> attempt_model" where
  "free_slot s x m = (if am_slots m s = Some x then m\<lparr>am_slots := (am_slots m)(s := None)\<rparr> else m)"

definition close_one_shot :: "instant \<Rightarrow> rx \<Rightarrow> bool \<Rightarrow> attempt_model \<Rightarrow> attempt_model" where
  "close_one_shot now x close m =
     (case map_of (am_receivers m) x of
        None \<Rightarrow> m
      | Some r \<Rightarrow>
          (let quiet_at = now + grant_ttl (am_limits m);
               m1 = free_slot (rv_slot r) x (m\<lparr>am_receivers := bt_remove x (am_receivers m)\<rparr>);
               m2 = map_attempts (\<lambda>_ t. if tp_rx t = x \<and> \<not> stage_is_final (tp_stage t)
                                        then (fence t)\<lparr>tp_quiet_at := Some quiet_at\<rparr> else t) m1
           in if close then push_effect (EfClose x) m2 else m2))"

definition in_retired_slot :: "attempt_model \<Rightarrow> rx_slot \<Rightarrow> attempt \<Rightarrow> bool" where
  "in_retired_slot m s t = (case map_of (am_receivers m) (tp_rx t) of Some r \<Rightarrow> rv_slot r = s \<and> rv_retired r | None \<Rightarrow> False)"

definition receiver_new :: "instant \<Rightarrow> rx_slot \<Rightarrow> bool \<Rightarrow> attempt_limits \<Rightarrow> receiver" where
  "receiver_new now s queue_survived limits =
     \<lparr>rv_slot = s, rv_retired = False, rv_last_seq = None, rv_seen = 0, rv_fresh_at = now, rv_held = {},
      rv_hold_until = (if s = HookSlot then Some (now + hook_hold limits) else None), rv_closed_at = None,
      rv_queue_survived = queue_survived, rv_next_d = 0\<rparr>"

definition owes_resume :: "attempt_model \<Rightarrow> rx_slot \<Rightarrow> attempt \<Rightarrow> bool" where
  "owes_resume m s t \<longleftrightarrow> in_retired_slot m s t \<and> \<not> stage_is_final (tp_stage t)"

definition may_correct :: "attempt_model \<Rightarrow> rx_slot \<Rightarrow> attempt \<Rightarrow> bool" where
  "may_correct m s t \<longleftrightarrow> in_retired_slot m s t \<and> stage_is_final (tp_stage t) \<and> tp_verifier t \<and> \<not> tp_reclaimed t"

definition register_one_shot :: "instant \<Rightarrow> rx \<Rightarrow> rx_slot \<Rightarrow> attempt_model \<Rightarrow> attempt_model" where
  "register_one_shot now x s m =
     (if s = OnceWaiter
      then let m1 = m\<lparr>am_slots := (am_slots m)(s := Some x)\<rparr>
           in (case am_slots m s of Some old \<Rightarrow> close_one_shot now old True m1 | None \<Rightarrow> m1)
      else m)"

definition retire_for_successor :: "instant \<Rightarrow> rx_slot \<Rightarrow> rx \<Rightarrow> attempt_model \<Rightarrow> attempt_model \<times> (string \<times> nat \<times> nat) list" where
  "retire_for_successor now s old m =
     (let m1 = m\<lparr>am_receivers := bt_modify old (\<lambda>r. r\<lparr>rv_retired := True\<rparr>) (am_receivers m)\<rparr>;
          deadline = now + al_ack_wait (am_limits m)
      in (map_attempts (\<lambda>_ t. if owes_resume m1 s t then t\<lparr>tp_resume_pending := True, tp_resume_deadline := Some deadline\<rparr> else t) m1,
          map attempt_ref (attempts_where (\<lambda>_. owes_resume m1 s) m1)))"

definition am_register :: "instant \<Rightarrow> rx_slot \<Rightarrow> bool \<Rightarrow> attempt_model \<Rightarrow> attempt_model \<times> registration" where
  "am_register now s queue_survived m =
     (let x = am_next_rx m;
          m1 = m\<lparr>am_next_rx := x + 1, am_seen_slots := insert s (am_seen_slots m),
                 am_receivers := bt_insert x (receiver_new now s queue_survived (am_limits m)) (am_receivers m)\<rparr>
      in if one_shot s
         then (finalize_all now (register_one_shot now x s m1), \<lparr>rn_rx = x, rn_resume = [], rn_correctable = []\<rparr>)
         else
           let m2 = m1\<lparr>am_slots := (am_slots m1)(s := Some x)\<rparr>;
               (m3, resume) = (case am_slots m1 s of Some old \<Rightarrow> retire_for_successor now s old m2 | None \<Rightarrow> (m2, []));
               correctable = map attempt_ref (attempts_where (\<lambda>_. may_correct m3 s) m3);
               m4 = map_attempts (\<lambda>_ t. if may_correct m3 s t then recheck (t\<lparr>tp_correcting := Some x\<rparr>) else t) m3
           in (finalize_all now m4, \<lparr>rn_rx = x, rn_resume = resume, rn_correctable = correctable\<rparr>))"

definition has_slot :: "rx_slot \<Rightarrow> attempt_model \<Rightarrow> bool" where
  "has_slot s m \<longleftrightarrow> s \<in> am_seen_slots m"

section \<open>Handing out\<close>

definition next_attempt :: "string \<Rightarrow> attempt_model \<Rightarrow> (nat \<times> nat) option" where
  "next_attempt i m = map_option (\<lambda>msg. (dl_a msg, length (dl_attempts msg) + 1)) (am_delivery i m)"

text \<open>Whether a scheduled repeat still holds at the hand-out.\<close>

definition token_valid :: "attempt_model \<Rightarrow> string \<Rightarrow> delivery \<Rightarrow> repeat_token \<Rightarrow> instant \<Rightarrow> bool" where
  "token_valid m i msg token now \<longleftrightarrow>
     rt_a token = dl_a msg \<and> rt_revision token = dl_revision msg
     \<and> (rt_kind token = TkManual
        \<or> (\<not> list_ex (\<lambda>t. tp_resume_pending t \<or> held_now m i t now) (current_attempts msg)
           \<and> list_all (\<lambda>t. needs_clearance t \<longrightarrow> tp_cleared t) (current_attempts msg)))"

definition attempt_new :: "nat \<Rightarrow> nat \<Rightarrow> rx \<Rightarrow> nat \<Rightarrow> issue_kind \<Rightarrow> instant \<Rightarrow> rx_slot \<Rightarrow> attempt" where
  "attempt_new a e x d kind now s =
     \<lparr>tp_a = a, tp_e = e, tp_rx = x, tp_d = d, tp_stage = SgIssued, tp_kind = kind, tp_cleared = False, tp_mark = 0,
      tp_resume_pending = False, tp_revoked = False, tp_revoke_sent = None, tp_verifier = False, tp_correcting = None,
      tp_reclaimed = False, tp_issued_at = now, tp_resume_deadline = None, tp_slot = s, tp_quiet_at = None,
      tp_withheld = False, tp_staged_until = None\<rparr>"

definition hand_out :: "nat \<Rightarrow> rx \<Rightarrow> nat \<Rightarrow> issue_kind \<Rightarrow> instant \<Rightarrow> rx_slot \<Rightarrow> delivery \<Rightarrow> delivery" where
  "hand_out e x d kind now s msg =
     msg\<lparr>dl_attempts := map (\<lambda>t. if tp_a t = dl_a msg then recheck t else t) (dl_attempts msg) @ [attempt_new (dl_a msg) e x d kind now s],
         dl_issued := dl_issued msg + 1,
         dl_auto_repeats := (if kind = IkAutoRepeat then dl_auto_repeats msg + 1 else dl_auto_repeats msg),
         dl_token := None\<rparr>"

definition issue_kind_for :: "attempt_model \<Rightarrow> string \<Rightarrow> delivery \<Rightarrow> instant \<Rightarrow> issue_refusal + issue_kind" where
  "issue_kind_for m i msg now =
     (case dl_token msg of
        Some token \<Rightarrow>
          (if \<not> token_valid m i msg token now then Inl IrStaleRepeat
           else Inr (case rt_kind token of TkAuto \<Rightarrow> IkAutoRepeat | TkManual \<Rightarrow> IkManualRetry))
      | None \<Rightarrow>
          (if dl_state msg = DsQueued then Inr (if dl_attempts msg = [] then IkFirst else IkRequeue)
           else Inl IrNothingToIssue))"

definition am_issue :: "instant \<Rightarrow> string \<Rightarrow> rx \<Rightarrow> attempt_model \<Rightarrow> attempt_model \<times> (issue_refusal + issued)" where
  "am_issue now i x m =
     (if am_exited m then (m, Inl IrExited)
      else if \<not> am_live x m then (m, Inl IrRetiredReceiver)
      else case am_delivery i m of
        None \<Rightarrow> (m, Inl IrUnknownMessage)
      | Some msg \<Rightarrow>
          (if ds_terminal (dl_state msg) then (m, Inl IrTerminal)
           else if dl_latch msg then (m, Inl IrCancelled)
           else case issue_kind_for m i msg now of
             Inl refusal \<Rightarrow>
               (if refusal = IrStaleRepeat
                then (finalize now i (change_message i (\<lambda>msg. msg\<lparr>dl_token := None\<rparr>) m), Inl refusal)
                else (m, Inl refusal))
           | Inr kind \<Rightarrow>
               (if al_max_attempts (am_limits m) \<le> dl_issued msg then (finalize now i m, Inl IrOutOfAttempts)
                else if al_evidence_limit (am_limits m) < am_evidence_reserved m + EVIDENCE_PER_ATTEMPT
                  then (push_effect (EfEvidencePaused (am_evidence_reserved m)) m, Inl IrEvidencePaused)
                else case map_of (am_receivers m) x of
                  None \<Rightarrow> (m, Inl IrRetiredReceiver)
                | Some r \<Rightarrow>
                    (let d = rv_next_d r + 1;
                         e = length (dl_attempts msg) + 1;
                         m1 = m\<lparr>am_receivers := bt_modify x (\<lambda>r. r\<lparr>rv_next_d := d\<rparr>) (am_receivers m)\<rparr>;
                         m2 = change_message i (hand_out e x d kind now (rv_slot r)) m1;
                         m3 = m2\<lparr>am_evidence_reserved := am_evidence_reserved m2 + EVIDENCE_PER_ATTEMPT\<rparr>
                     in (finalize now i m3, Inr \<lparr>is_a = dl_a msg, is_e = e, is_d = d, is_kind = kind\<rparr>)))))"

section \<open>Stage records\<close>

definition commit_attempt :: "attempt \<Rightarrow> attempt" where
  "commit_attempt t = t\<lparr>tp_stage := SgCommitted, tp_resume_pending := False, tp_resume_deadline := None, tp_verifier := False\<rparr>"

definition stage_committed ::
  "instant \<Rightarrow> string \<Rightarrow> nat \<Rightarrow> nat \<Rightarrow> delivery \<Rightarrow> attempt \<Rightarrow> attempt_model \<Rightarrow> attempt_model \<times> stage_outcome" where
  "stage_committed now i a e msg t m =
     (if tp_stage t = SgCommitted then (m, SoNoOp)
      else
        let contradicted = (tp_stage t = SgNotHanded \<or> a \<noteq> dl_a msg);
            m1 = change_message i (change_attempt a e commit_attempt) m;
            m2 = (if contradicted then push_effect (EfWitnessViolation i a e) m1 else m1)
        in if a \<noteq> dl_a msg
           then (reclaim i (push_effect (EfAlsoReachedOldWorker i a) m2), SoRecorded)
           else (finalize now i m2, SoApplied))"

definition applied_stage :: "stage \<Rightarrow> rx_slot \<Rightarrow> stage" where
  "applied_stage s slot = (if s = SgHanded \<and> slot = OnceWaiter then SgHandedInert else s)"

definition am_stage ::
  "instant \<Rightarrow> string \<Rightarrow> nat \<Rightarrow> nat \<Rightarrow> stage \<Rightarrow> rx option \<Rightarrow> attempt_model \<Rightarrow> attempt_model \<times> stage_outcome" where
  "am_stage now i a e s reporter m =
     (if am_exited m then (m, SoExited)
      else case am_delivery i m of
        None \<Rightarrow> (m, SoUnknown)
      | Some msg \<Rightarrow>
          (case dl_attempt a e msg of
             None \<Rightarrow> (m, SoUnknown)
           | Some t \<Rightarrow>
               (if s = SgCommitted then stage_committed now i a e msg t m
                else if s = SgIssued \<or> s = SgFenced then (m, SoWrongReceiver)
                else case reporter of
                  None \<Rightarrow> (m, SoWrongReceiver)
                | Some x \<Rightarrow>
                    (case map_of (am_receivers m) x of
                       None \<Rightarrow> (m, SoWrongReceiver)
                     | Some r \<Rightarrow>
                         (if rv_retired r \<or> x \<noteq> tp_rx t \<or> tp_resume_pending t then (m, SoWrongReceiver)
                          else if stage_rank s \<le> stage_rank (tp_stage t) then (m, SoNoOp)
                          else
                            let s1 = applied_stage s (rv_slot r)
                            in (finalize now i (change_message i (change_attempt a e
                                  (\<lambda>t. if s1 = SgHandedInert then t\<lparr>tp_stage := s1, tp_verifier := True\<rparr> else t\<lparr>tp_stage := s1\<rparr>)) m),
                                SoApplied))))))"

section \<open>Withheld attempts\<close>

definition withhold :: "instant \<Rightarrow> string \<Rightarrow> nat \<Rightarrow> nat \<Rightarrow> attempt_model \<Rightarrow> attempt_model" where
  "withhold now i a e m =
     change_message i (change_attempt a e
       (\<lambda>t. t\<lparr>tp_withheld := True, tp_staged_until := Some (now + al_ack_wait (am_limits m))\<rparr>)) m"

definition attempt_of :: "string \<Rightarrow> nat \<Rightarrow> nat \<Rightarrow> attempt_model \<Rightarrow> attempt option" where
  "attempt_of i a e m = Option.bind (am_delivery i m) (dl_attempt a e)"

definition is_withheld :: "string \<Rightarrow> nat \<Rightarrow> nat \<Rightarrow> attempt_model \<Rightarrow> bool" where
  "is_withheld i a e m = (case attempt_of i a e m of Some t \<Rightarrow> tp_withheld t | None \<Rightarrow> False)"

definition is_reclaimed :: "string \<Rightarrow> nat \<Rightarrow> nat \<Rightarrow> attempt_model \<Rightarrow> bool" where
  "is_reclaimed i a e m = (case attempt_of i a e m of Some t \<Rightarrow> tp_reclaimed t | None \<Rightarrow> True)"

definition deck_not_handed ::
  "instant \<Rightarrow> string \<Rightarrow> nat \<Rightarrow> nat \<Rightarrow> rx \<Rightarrow> attempt_model \<Rightarrow> attempt_model \<times> stage_outcome" where
  "deck_not_handed now i a e x m =
     (if am_exited m then (m, SoExited)
      else case attempt_of i a e m of
        None \<Rightarrow> (m, SoUnknown)
      | Some t \<Rightarrow>
          (if tp_rx t \<noteq> x \<or> \<not> one_shot (tp_slot t) then (m, SoWrongReceiver)
           else if \<not> (tp_stage t = SgIssued \<or> tp_stage t = SgFenced) then (m, SoNoOp)
           else (finalize now i (change_message i (change_attempt a e
                   (\<lambda>t. t\<lparr>tp_stage := SgNotHanded, tp_verifier := False, tp_quiet_at := None\<rparr>)) m), SoApplied)))"

definition staging_over :: "instant \<Rightarrow> attempt \<Rightarrow> bool" where
  "staging_over now t \<longleftrightarrow> tp_withheld t \<and> (case tp_staged_until t of Some until \<Rightarrow> until \<le> now | None \<Rightarrow> False)"

definition staging_lapsed :: "instant \<Rightarrow> attempt_model \<Rightarrow> attempt_model" where
  "staging_lapsed now m =
     (let lapsed = attempts_where (\<lambda>_. staging_over now) m;
          m1 = map_attempts (\<lambda>_ t. if staging_over now t then t\<lparr>tp_withheld := False, tp_staged_until := None\<rparr> else t) m
      in foldl (\<lambda>m (i, t). fst (deck_not_handed now i (tp_a t) (tp_e t) (tp_rx t)
                                   (push_effect (EfStagingLapsed i (tp_a t) (tp_e t)) m))) m1 lapsed)"

definition expire_staging :: "instant \<Rightarrow> attempt_model \<Rightarrow> attempt_model" where
  "expire_staging now m = (if am_exited m then m else staging_lapsed now m)"

definition staging_due_at :: "attempt_model \<Rightarrow> instant option" where
  "staging_due_at m =
     (if am_exited m then None
      else least_of (List.map_filter (\<lambda>e. tp_staged_until (snd e)) (attempts_where (\<lambda>_ t. tp_withheld t) m)))"

definition released :: "instant \<Rightarrow> string \<Rightarrow> nat \<Rightarrow> nat \<Rightarrow> bool \<Rightarrow> attempt_model \<Rightarrow> attempt_model" where
  "released now i a e handed_over m =
     (case attempt_of i a e m of
        None \<Rightarrow> m
      | Some t \<Rightarrow>
          (let m1 = change_message i (change_attempt a e (\<lambda>t. t\<lparr>tp_withheld := False, tp_staged_until := None\<rparr>)) m
           in if handed_over then finalize now i m1 else fst (deck_not_handed now i a e (tp_rx t) m1)))"

definition commit_admissible :: "string \<Rightarrow> nat \<Rightarrow> nat \<Rightarrow> attempt_model \<Rightarrow> bool" where
  "commit_admissible i a e m =
     (case attempt_of i a e m of
        Some t \<Rightarrow> one_shot (tp_slot t) \<and> \<not> tp_withheld t \<and> tp_stage t \<noteq> SgNotHanded
      | None \<Rightarrow> False)"

section \<open>Snapshots\<close>

definition regain_held :: "rx \<Rightarrow> string \<times> nat \<times> nat \<Rightarrow> attempt_model \<Rightarrow> attempt_model" where
  "regain_held x ref m =
     (case ref of (i, a, e) \<Rightarrow>
        change_message i (change_attempt a e (\<lambda>t. if tp_rx t = x then regained t else t)) m)"

definition apply_snapshot ::
  "instant \<Rightarrow> rx \<Rightarrow> nat \<Rightarrow> nat \<Rightarrow> (string \<times> nat \<times> nat) list \<Rightarrow> attempt_model \<Rightarrow> attempt_model \<times> snapshot_outcome" where
  "apply_snapshot now x seq seen held m =
     (case map_of (am_receivers m) x of
        None \<Rightarrow> (m, SnDropped)
      | Some r \<Rightarrow>
          (if rv_retired r \<or> (case rv_last_seq r of Some last_seq \<Rightarrow> seq \<le> last_seq | None \<Rightarrow> False) then (m, SnDropped)
           else
             let m1 = m\<lparr>am_receivers := bt_modify x (\<lambda>r. r\<lparr>rv_last_seq := Some seq, rv_seen := max (rv_seen r) seen,
                                                           rv_fresh_at := now, rv_held := set held\<rparr>) (am_receivers m)\<rparr>
             in (foldl (\<lambda>m ref. regain_held x ref m) m1 held, SnApplied)))"

definition am_snapshot ::
  "instant \<Rightarrow> rx \<Rightarrow> nat \<Rightarrow> nat \<Rightarrow> (string \<times> nat \<times> nat) list \<Rightarrow> attempt_model \<Rightarrow> attempt_model \<times> snapshot_outcome" where
  "am_snapshot now x seq seen held m =
     (case apply_snapshot now x seq seen held m of
        (m1, outcome) \<Rightarrow> (if outcome = SnApplied then finalize_bound_to now x m1 else m1, outcome))"

section \<open>Spool checks\<close>

definition check_of :: "string \<times> attempt \<Rightarrow> lapse_check" where
  "check_of e = \<lparr>lc_id = fst e, lc_a = tp_a (snd e), lc_e = tp_e (snd e), lc_mark = tp_mark (snd e)\<rparr>"

definition lapse_candidates :: "instant \<Rightarrow> attempt_model \<Rightarrow> lapse_check list" where
  "lapse_candidates now m =
     (if am_exited m then []
      else concat (map (\<lambda>(i, msg).
             if ds_terminal (dl_state msg) then []
             else map (\<lambda>t. check_of (i, t))
                    (filter (\<lambda>t. needs_clearance t \<and> \<not> tp_cleared t \<and> \<not> held_now m i t now) (current_attempts msg)))
           (am_messages m)))"

definition is_correcting :: "attempt_model \<Rightarrow> attempt \<Rightarrow> bool" where
  "is_correcting m t = (case tp_correcting t of Some x \<Rightarrow> am_live x m | None \<Rightarrow> False)"

definition verify_due :: "instant \<Rightarrow> attempt_model \<Rightarrow> string \<Rightarrow> attempt \<Rightarrow> bool" where
  "verify_due now m i t \<longleftrightarrow>
     tp_stage t = SgFenced \<and> tp_verifier t \<and> \<not> tp_reclaimed t \<and> \<not> tp_withheld t \<and> \<not> is_correcting m t
     \<and> (case tp_quiet_at t of Some quiet \<Rightarrow> quiet \<le> now | None \<Rightarrow> True)
     \<and> \<not> (tp_slot t = OnceWaiter \<and> held_now m i t now)"

definition verify_candidates :: "instant \<Rightarrow> attempt_model \<Rightarrow> lapse_check list" where
  "verify_candidates now m =
     (if am_exited m then []
      else concat (map (\<lambda>(i, msg).
             if \<not> ds_terminal (dl_state msg) then []
             else map (\<lambda>t. check_of (i, t)) (filter (verify_due now m i) (dl_attempts msg)))
           (am_messages m)))"

definition verify_instant :: "attempt_model \<Rightarrow> attempt \<Rightarrow> instant option" where
  "verify_instant m t =
     (if tp_slot t = OnceWaiter
      then (if tv_busy (am_turn m) then None
            else let held_until = once_anchor t (am_turn m) + al_ack_wait (am_limits m)
                 in Some (case tp_quiet_at t of Some quiet \<Rightarrow> max quiet held_until | None \<Rightarrow> held_until))
      else tp_quiet_at t)"

definition verify_due_at :: "instant \<Rightarrow> attempt_model \<Rightarrow> instant option" where
  "verify_due_at now m =
     (if am_exited m then None
      else least_of (filter (\<lambda>due. now < due) (List.map_filter (verify_instant m)
        (concat (map (\<lambda>(i, msg).
           if ds_terminal (dl_state msg)
           then filter (\<lambda>t. tp_stage t = SgFenced \<and> tp_verifier t \<and> \<not> tp_reclaimed t \<and> \<not> is_correcting m t) (dl_attempts msg)
           else []) (am_messages m))))))"

definition verify_one :: "attempt_model \<Rightarrow> lapse_check \<Rightarrow> attempt_model" where
  "verify_one m check =
     (case attempt_of (lc_id check) (lc_a check) (lc_e check) m of
        None \<Rightarrow> m
      | Some t \<Rightarrow>
          reclaim (lc_id check)
            (if tp_mark t = lc_mark check \<and> tp_stage t = SgFenced
             then change_message (lc_id check) (change_attempt (lc_a check) (lc_e check) (\<lambda>t. t\<lparr>tp_verifier := False\<rparr>)) m
             else m))"

definition tick_verified :: "lapse_check list \<Rightarrow> attempt_model \<Rightarrow> attempt_model" where
  "tick_verified verified m = (if am_exited m then m else foldl verify_one m verified)"

definition watching_receipts :: "attempt_model \<Rightarrow> bool" where
  "watching_receipts m \<longleftrightarrow>
     \<not> am_exited m \<and> attempts_where (\<lambda>_ t. \<not> tp_reclaimed t \<and> tp_stage t \<noteq> SgCommitted) m \<noteq> []"

section \<open>Records no longer needed\<close>

definition spent :: "string \<Rightarrow> attempt_model \<Rightarrow> bool" where
  "spent i m =
     (case am_delivery i m of
        Some msg \<Rightarrow> ds_terminal (dl_state msg) \<and> list_all tp_reclaimed (dl_attempts msg)
      | None \<Rightarrow> False)"

definition am_forget :: "string \<Rightarrow> attempt_model \<Rightarrow> attempt_model \<times> bool" where
  "am_forget i m =
     (if \<not> spent i m then (m, False)
      else case am_delivery i m of
        None \<Rightarrow> (m, False)
      | Some msg \<Rightarrow>
          (m\<lparr>am_messages := bt_remove i (am_messages m), am_forgotten_a := max (am_forgotten_a m) (dl_a msg)\<rparr>, True))"

definition attempt_rx :: "string \<Rightarrow> nat \<Rightarrow> nat \<Rightarrow> attempt_model \<Rightarrow> rx option" where
  "attempt_rx i a e m = map_option tp_rx (attempt_of i a e m)"

definition holding_evidence :: "attempt_model \<Rightarrow> nat" where
  "holding_evidence m = length (filter (\<lambda>e. list_ex (\<lambda>t. \<not> tp_reclaimed t) (dl_attempts (snd e))) (am_messages m))"

section \<open>Closing connections\<close>

definition connection_closed :: "instant \<Rightarrow> rx \<Rightarrow> attempt_model \<Rightarrow> attempt_model" where
  "connection_closed now x m =
     (let m1 = (case map_of (am_receivers m) x of
                  Some r \<Rightarrow> (if one_shot (rv_slot r) then close_one_shot now x False m else m)
                | None \<Rightarrow> m)
      in finalize_bound_to now x m1)"

definition hold_over :: "instant \<Rightarrow> receiver \<Rightarrow> bool" where
  "hold_over now r = (case rv_hold_until r of Some until \<Rightarrow> until \<le> now | None \<Rightarrow> False)"

definition expire_holds :: "instant \<Rightarrow> attempt_model \<Rightarrow> attempt_model" where
  "expire_holds now m =
     foldl (\<lambda>m x. finalize_bound_to now x (close_one_shot now x True m)) m
       (map fst (filter (\<lambda>e. hold_over now (snd e)) (am_receivers m)))"

definition stream_closed :: "instant \<Rightarrow> rx \<Rightarrow> attempt_model \<Rightarrow> attempt_model" where
  "stream_closed now x m =
     finalize_bound_to now x
       (m\<lparr>am_receivers := bt_modify x (\<lambda>r.
            if \<not> rv_retired r \<and> is_stream (rv_slot r)
            then r\<lparr>rv_closed_at := (case rv_closed_at r of None \<Rightarrow> Some now | c \<Rightarrow> c)\<rparr> else r) (am_receivers m)\<rparr>)"

definition retire_one :: "rx \<Rightarrow> attempt_model \<Rightarrow> attempt_model" where
  "retire_one x m =
     (case map_of (am_receivers m) x of
        None \<Rightarrow> m
      | Some r \<Rightarrow>
          map_attempts (\<lambda>_ t. if tp_rx t = x \<and> \<not> stage_is_final (tp_stage t) \<and> \<not> tp_resume_pending t then fence t else t)
            (free_slot (rv_slot r) x
              (m\<lparr>am_receivers := bt_modify x (\<lambda>r. r\<lparr>rv_retired := True\<rparr>) (am_receivers m)\<rparr>)))"

definition retire_closed :: "instant \<Rightarrow> attempt_model \<Rightarrow> attempt_model" where
  "retire_closed now m =
     foldl (\<lambda>m x. retire_one x m) m
       (map fst (filter (\<lambda>e. \<not> rv_retired (snd e)
          \<and> (case rv_closed_at (snd e) of Some c \<Rightarrow> c + closed_retire_after (am_limits m) \<le> now | None \<Rightarrow> False)) (am_receivers m)))"

section \<open>The hand-over check and resuming\<close>

definition may_hand_over :: "instant \<Rightarrow> string \<Rightarrow> nat \<Rightarrow> nat \<Rightarrow> rx \<Rightarrow> attempt_model \<Rightarrow> hand_over_refusal + grant" where
  "may_hand_over now i a e x m =
     (case am_delivery i m of
        None \<Rightarrow> Inl HrUnknown
      | Some msg \<Rightarrow>
          (case dl_attempt a e msg of
             None \<Rightarrow> Inl HrUnknown
           | Some t \<Rightarrow>
               (if tp_rx t \<noteq> x \<or> \<not> am_live x m \<or> tp_resume_pending t then Inl HrWrongReceiver
                else if stage_is_final (tp_stage t) then Inl HrRevoked
                else if list_ex (\<lambda>u. tp_a u = a \<and> tp_stage u = SgCommitted) (dl_attempts msg) then Inl HrCommitted
                else if tp_revoked t \<or> dl_latch msg \<or> a \<noteq> dl_a msg then Inl HrRevoked
                else if tp_kind t = IkAutoRepeat
                     \<and> list_ex (\<lambda>u. tp_a u = a \<and> tp_e u < e \<and> \<not> stage_is_final (tp_stage u) \<and> \<not> tp_resume_pending u
                          \<and> am_live (tp_rx u) m \<and> snapshot_holds (am_receivers m) (am_limits m) i u now) (dl_attempts msg)
                  then Inl HrHeldEarlier
                else Inr \<lparr>gr_id = i, gr_a = a, gr_e = e, gr_rx = x, gr_epoch = x\<rparr>)))"

definition rebind :: "instant \<Rightarrow> rx \<Rightarrow> nat \<Rightarrow> attempt \<Rightarrow> attempt" where
  "rebind now x d t =
     (let t1 = regained (t\<lparr>tp_rx := x, tp_d := d, tp_issued_at := now\<rparr>)
      in if tp_revoked t1 then t1\<lparr>tp_revoke_sent := Some now\<rparr> else t1)"

definition answered :: "attempt \<Rightarrow> attempt" where
  "answered t = t\<lparr>tp_resume_pending := False, tp_resume_deadline := None\<rparr>"

definition resume_answer ::
  "instant \<Rightarrow> rx \<Rightarrow> string \<Rightarrow> nat \<Rightarrow> nat \<Rightarrow> resume_ans \<Rightarrow> attempt_model \<Rightarrow> attempt_model \<times> stage_outcome" where
  "resume_answer now x i a e answer m =
     (case map_of (am_receivers m) x of
        None \<Rightarrow> (m, SoUnknown)
      | Some r \<Rightarrow>
          (if rv_retired r then (m, SoWrongReceiver)
           else case attempt_of i a e m of
             None \<Rightarrow> (m, SoUnknown)
           | Some t \<Rightarrow>
               (if \<not> tp_resume_pending t then (m, SoNoOp)
                else if map_option rv_slot (map_of (am_receivers m) (tp_rx t)) \<noteq> Some (rv_slot r) then (m, SoWrongReceiver)
                else
                  let m1 = (case answer of
                       RaRetained \<Rightarrow>
                         (let d = rv_next_d r + 1;
                              m2 = change_message i (change_attempt a e (\<lambda>t. rebind now x d (answered t)))
                                     (m\<lparr>am_receivers := bt_modify x (\<lambda>r. r\<lparr>rv_next_d := d\<rparr>) (am_receivers m)\<rparr>)
                          in if tp_revoked t then push_effect (EfRevoke i a e) m2 else m2)
                     | RaNotHanded \<Rightarrow>
                         change_message i (change_attempt a e
                           (\<lambda>t. if rv_queue_survived r then (answered t)\<lparr>tp_stage := SgNotHanded\<rparr> else fence (answered t))) m
                     | RaUnknown \<Rightarrow> change_message i (change_attempt a e (\<lambda>t. fence (answered t))) m)
                  in (finalize now i m1, SoApplied))))"

section \<open>The clock\<close>

definition clear_one :: "instant \<Rightarrow> attempt_model \<Rightarrow> lapse_check \<Rightarrow> attempt_model" where
  "clear_one now m check =
     (case am_delivery (lc_id check) m of
        None \<Rightarrow> m
      | Some msg \<Rightarrow>
          (case dl_attempt (lc_a check) (lc_e check) msg of
             None \<Rightarrow> m
           | Some t \<Rightarrow>
               (if tp_mark t = lc_mark check \<and> tp_a t = dl_a msg \<and> needs_clearance t \<and> \<not> held_now m (lc_id check) t now
                then change_message (lc_id check) (change_attempt (lc_a check) (lc_e check) (\<lambda>t. t\<lparr>tp_cleared := True\<rparr>)) m
                else m)))"

definition resume_over :: "instant \<Rightarrow> attempt \<Rightarrow> bool" where
  "resume_over now t \<longleftrightarrow> tp_resume_pending t \<and> (case tp_resume_deadline t of Some d \<Rightarrow> d \<le> now | None \<Rightarrow> False)"

definition silence :: "instant \<Rightarrow> delivery \<Rightarrow> delivery" where
  "silence now msg =
     msg\<lparr>dl_attempts := map (\<lambda>t. if resume_over now t then fence (answered t) else t) (dl_attempts msg)\<rparr>"

definition held_long_due :: "attempt_limits \<Rightarrow> instant \<Rightarrow> delivery \<Rightarrow> bool" where
  "held_long_due limits now msg \<longleftrightarrow>
     dl_state msg = DsAttempting \<and> \<not> dl_latch msg
     \<and> (case dl_possessed_since msg of Some since \<Rightarrow> since + al_held_long_after limits \<le> now | None \<Rightarrow> False)
     \<and> dl_held_long_sent msg \<noteq> Some (dl_revision msg)"

definition note_held_long :: "instant \<Rightarrow> string \<Rightarrow> attempt_model \<Rightarrow> attempt_model" where
  "note_held_long now i m =
     (case am_delivery i m of
        Some msg \<Rightarrow>
          (if held_long_due (am_limits m) now msg
           then push_effect (EfHeldLong i (dl_revision msg))
                  (change_message i (\<lambda>msg. msg\<lparr>dl_held_long_sent := Some (dl_revision msg)\<rparr>) m)
           else m)
      | None \<Rightarrow> m)"

definition tick_message :: "instant \<Rightarrow> attempt_model \<Rightarrow> string \<Rightarrow> attempt_model" where
  "tick_message now m i = note_held_long now i (finalize now i (change_message i (silence now) m))"

definition revoke_again :: "attempt_limits \<Rightarrow> instant \<Rightarrow> attempt \<Rightarrow> bool" where
  "revoke_again limits now t \<longleftrightarrow>
     owes_revoke t \<and> (case tp_revoke_sent t of Some sent \<Rightarrow> sent + al_ack_wait limits \<le> now | None \<Rightarrow> True)"

definition revokes_due :: "instant \<Rightarrow> attempt_model \<Rightarrow> attempt_model" where
  "revokes_due now m =
     (if am_exited m then m
      else (map_attempts (\<lambda>_ t. if revoke_again (am_limits m) now t then t\<lparr>tp_revoke_sent := Some now\<rparr> else t) m)
             \<lparr>am_effects := am_effects m
                @ map (\<lambda>(i, t). EfRevoke i (tp_a t) (tp_e t)) (attempts_where (\<lambda>_. revoke_again (am_limits m) now) m)\<rparr>)"

definition tick_cleared :: "instant \<Rightarrow> lapse_check list \<Rightarrow> attempt_model \<Rightarrow> attempt_model" where
  "tick_cleared now cleared m =
     (if am_exited m then m
      else
        let m1 = staging_lapsed now (retire_closed now (expire_holds now (foldl (clear_one now) m cleared)))
        in revokes_due now (foldl (tick_message now) m1 (map fst (am_messages m1))))"

definition am_tick :: "instant \<Rightarrow> attempt_model \<Rightarrow> attempt_model" where
  "am_tick now m =
     (let m1 = (if am_exited m then m else expire_holds now m)
      in tick_cleared now (lapse_candidates now m1) m1)"

definition not_started_due :: "string \<Rightarrow> turn_view \<Rightarrow> attempt_model \<Rightarrow> instant option" where
  "not_started_due i turn m =
     (if am_exited m \<or> tv_busy turn then None
      else case am_delivery i m of
        None \<Rightarrow> None
      | Some msg \<Rightarrow>
          (if dl_state msg \<noteq> DsAttempting \<or> dl_latch msg then None
           else case dl_not_started_anchor msg of
             None \<Rightarrow> None
           | Some anchor \<Rightarrow>
               (if list_ex (\<lambda>t. \<not> stage_is_final (tp_stage t)
                     \<and> (case map_of (am_receivers m) (tp_rx t) of Some r \<Rightarrow> rv_slot r = PiSlot | None \<Rightarrow> False)) (current_attempts msg)
                then Some (max anchor (case tv_idle_since turn of Some s \<Rightarrow> s | None \<Rightarrow> anchor) + al_not_started_after (am_limits m))
                else None)))"

definition note_turn :: "instant \<Rightarrow> turn_view \<Rightarrow> attempt_model \<Rightarrow> attempt_model" where
  "note_turn now turn m =
     (if am_exited m then m
      else m\<lparr>am_messages := map (\<lambda>(i, msg). (i, msg\<lparr>dl_not_started :=
               (case not_started_due i turn m of Some due \<Rightarrow> (if due \<le> now then Some (dl_revision msg) else None) | None \<Rightarrow> None)\<rparr>))
             (am_messages m)\<rparr>)"

definition tick_turn :: "instant \<Rightarrow> lapse_check list \<Rightarrow> turn_view \<Rightarrow> attempt_model \<Rightarrow> attempt_model" where
  "tick_turn now cleared turn m = note_turn now turn (tick_cleared now cleared (am_turn_to now turn m))"

definition not_started_due_at :: "turn_view \<Rightarrow> attempt_model \<Rightarrow> instant option" where
  "not_started_due_at turn m =
     least_of (List.map_filter (\<lambda>(i, msg). if dl_not_started msg = None then not_started_due i turn m else None) (am_messages m))"

definition revoke_due_at :: "attempt_model \<Rightarrow> instant option" where
  "revoke_due_at m =
     (if am_exited m then None
      else least_of (map (\<lambda>(i, t). case tp_revoke_sent t of Some sent \<Rightarrow> sent + al_ack_wait (am_limits m) | None \<Rightarrow> tp_issued_at t)
             (attempts_where (\<lambda>_. owes_revoke) m)))"

section \<open>The user's actions and the generation's end\<close>

definition retry_message :: "delivery \<Rightarrow> delivery" where
  "retry_message msg =
     (let msg1 = (if dl_state msg = DsAttempting then msg\<lparr>dl_revision := dl_revision msg + 1\<rparr> else set_state DsAttempting msg)
      in msg1\<lparr>dl_token := Some \<lparr>rt_a = dl_a msg1, rt_revision = dl_revision msg1, rt_kind = TkManual\<rparr>,
              dl_possessed_since := None, dl_waiting_since := None, dl_held_long_sent := None, dl_not_started := None,
              dl_not_started_anchor := None, dl_not_started_after_e := length (dl_attempts msg1)\<rparr>)"

definition may_retry :: "delivery \<Rightarrow> bool" where
  "may_retry msg \<longleftrightarrow>
     ds_uncertain (dl_state msg)
     \<or> (dl_state msg = DsAttempting \<and> (dl_held_long_sent msg \<noteq> None \<or> dl_not_started msg = Some (dl_revision msg)))"

definition remember_action :: "nat \<Rightarrow> verb \<Rightarrow> string \<Rightarrow> attempt_model \<Rightarrow> attempt_model \<times> action_outcome" where
  "remember_action revision v i m =
     (case am_delivery i m of
        None \<Rightarrow> (m, AoUnknown)
      | Some msg \<Rightarrow>
          (change_message i (\<lambda>msg. msg\<lparr>dl_last_action := Some (revision, v, AoApplied (dl_revision msg))\<rparr>) m,
           AoApplied (dl_revision msg)))"

definition cancel_message :: "instant \<Rightarrow> string \<Rightarrow> delivery \<Rightarrow> delivery \<times> attempt_effect list" where
  "cancel_message now i msg =
     revoke_open now i (\<lambda>t. tp_a t = dl_a msg) (msg\<lparr>dl_latch := True, dl_token := None, dl_revision := dl_revision msg + 1\<rparr>)"

definition act_now :: "instant \<Rightarrow> string \<Rightarrow> nat \<Rightarrow> verb \<Rightarrow> delivery \<Rightarrow> attempt_model \<Rightarrow> attempt_model \<times> action_outcome" where
  "act_now now i revision v msg m =
     (if revision \<noteq> dl_revision msg then (m, AoStale (dl_state msg) (dl_revision msg))
      else if dl_state msg = DsSettled then (m, AoAlreadySettled)
      else if ds_terminal (dl_state msg) then (m, AoNotApplicable (dl_state msg))
      else case v of
        VbRetry \<Rightarrow>
          (if \<not> may_retry msg then (m, AoNotApplicable (dl_state msg))
           else if al_max_attempts (am_limits m) \<le> dl_issued msg then (m, AoRetryLimit)
           else remember_action revision v i (finalize now i (change_message i retry_message m)))
      | VbCancel \<Rightarrow>
          (case cancel_message now i msg of
             (msg1, efs) \<Rightarrow>
               remember_action revision v i
                 (finalize now i ((change_message i (\<lambda>_. msg1) m)\<lparr>am_effects := am_effects m @ efs\<rparr>))))"

text \<open>Asking again for an action that was applied answers what it answered then.\<close>

definition answered_before :: "nat \<Rightarrow> verb \<Rightarrow> delivery \<Rightarrow> action_outcome option" where
  "answered_before revision v msg =
     (case dl_last_action msg of
        Some (r, v', outcome) \<Rightarrow> (if r = revision \<and> v' = v then Some outcome else None)
      | None \<Rightarrow> None)"

definition am_action ::
  "instant \<Rightarrow> string \<Rightarrow> nat \<Rightarrow> nat \<Rightarrow> verb \<Rightarrow> attempt_model \<Rightarrow> attempt_model \<times> action_outcome" where
  "am_action now i generation revision v m =
     (if generation \<noteq> am_generation m then (m, AoWrongGeneration)
      else case am_delivery i m of
        None \<Rightarrow> (m, AoUnknown)
      | Some msg \<Rightarrow>
          (case answered_before revision v msg of Some outcome \<Rightarrow> (m, outcome) | None \<Rightarrow> act_now now i revision v msg m))"

definition am_retry :: "instant \<Rightarrow> string \<Rightarrow> nat \<Rightarrow> nat \<Rightarrow> attempt_model \<Rightarrow> attempt_model \<times> action_outcome" where
  "am_retry now i generation revision m = am_action now i generation revision VbRetry m"

definition am_cancel :: "instant \<Rightarrow> string \<Rightarrow> nat \<Rightarrow> nat \<Rightarrow> attempt_model \<Rightarrow> attempt_model \<times> action_outcome" where
  "am_cancel now i generation revision m = am_action now i generation revision VbCancel m"

definition exit_attempt :: "attempt \<Rightarrow> attempt" where
  "exit_attempt t =
     (let t1 = (if \<not> stage_is_final (tp_stage t) \<or> tp_resume_pending t
                then t\<lparr>tp_stage := SgFenced, tp_resume_pending := False, tp_resume_deadline := None\<rparr> else t)
      in t1\<lparr>tp_verifier := False, tp_reclaimed := True\<rparr>)"

definition exit_message :: "delivery \<Rightarrow> delivery" where
  "exit_message msg =
     (let msg1 = msg\<lparr>dl_attempts := map exit_attempt (dl_attempts msg), dl_token := None\<rparr>
      in if ds_terminal (dl_state msg1) then msg1 else set_state (DsUndeliverable UdExited) msg1)"

definition am_exit :: "attempt_model \<Rightarrow> attempt_model" where
  "am_exit m =
     m\<lparr>am_exited := True,
       am_messages := map (\<lambda>(i, msg). (i, exit_message msg)) (am_messages m),
       am_effects := am_effects m
         @ map (\<lambda>(i, msg). EfReturnToPool i (dl_a msg)) (filter (\<lambda>(i, msg). \<not> ds_terminal (dl_state msg) \<and> dl_offer msg) (am_messages m)),
       am_evidence_reserved := 0\<rparr>"

end
