(* ===== verification/Attempt_Inv.thy ===== *)
theory Attempt_Inv
  imports Attempt_Ops Step_Invariant
begin

text \<open>
  What is always true of the delivery model: the bookkeeping of every message, what its state says about
  its attempts, and the evidence reserved for them. \<open>core\<close> holds even in the middle of a call, \<open>decided\<close>
  once the finalizer ran for the message. Most of a call only moves attempts along (\<open>milder\<close>), which
  keeps both; the rest is a message changed and then finalized.
\<close>

section \<open>Ordered maps\<close>

lemma bt_modify_map: "bt_modify k f m = map (\<lambda>(i, v). (i, if i = k then f v else v)) m"
  by (induction m) (auto simp: bt_modify_def)

lemma keys_bt_modify [simp]: "map fst (bt_modify k f m) = map fst m"
  by (induction m) (auto simp: bt_modify_def)

lemma map_of_bt_modify: "map_of (bt_modify k f m) i = (if i = k then map_option f (map_of m k) else map_of m i)"
  by (induction m) (auto simp: bt_modify_def)

lemma map_of_bt_remove: "map_of (bt_remove k m) i = (if i = k then None else map_of m i)"
  by (induction m) (auto simp: bt_remove_def)

lemma set_bt_insert: "sorted_wrt (<) (map fst m) \<Longrightarrow> k \<notin> fst ` set m \<Longrightarrow> set (bt_insert k v m) = insert (k, v) (set m)"
proof -
  assume sorted: "sorted_wrt (<) (map fst m)" and "k \<notin> fst ` set m"
  then have "takeWhile (\<lambda>e. fst e < k) m @ dropWhile (\<lambda>e. fst e \<le> k) m = m"
    by (induction m) (auto simp: order_le_less)
  then have "set m = set (takeWhile (\<lambda>e. fst e < k) m) \<union> set (dropWhile (\<lambda>e. fst e \<le> k) m)"
    by (metis set_append)
  then show ?thesis by (simp add: bt_insert_def)
qed

lemma sorted_bt_insert:
  assumes "sorted_wrt (<) (map fst m)"
  shows "sorted_wrt (<) (map fst (bt_insert k v m))"
proof -
  have "sorted_wrt (<) (map fst (takeWhile (\<lambda>e. fst e < k) m))" "sorted_wrt (<) (map fst (dropWhile (\<lambda>e. fst e \<le> k) m))"
    using assms by (metis append_eq_conv_conj map_append sorted_wrt_append takeWhile_dropWhile_id)+
  moreover have "\<forall>e \<in> set (dropWhile (\<lambda>e. fst e \<le> k) m). k < fst e"
    using assms
  proof (induction m)
    case (Cons e m)
    then show ?case by (cases "fst e \<le> k") (auto simp: not_le intro: order_less_trans)
  qed simp
  ultimately show ?thesis
    by (auto simp: bt_insert_def sorted_wrt_append dest!: set_takeWhileD intro: order_less_trans)
qed

lemma sorted_bt_remove: "sorted_wrt (<) (map fst m) \<Longrightarrow> sorted_wrt (<) (map fst (bt_remove k m))"
  by (simp add: bt_remove_def sorted_wrt_map sorted_wrt_filter)

lemma sorted_distinct: "sorted_wrt (<) (xs :: 'a :: linorder list) \<Longrightarrow> distinct xs"
  by (induction xs) auto

section \<open>Attempts\<close>

definition quiet :: "attempt \<Rightarrow> bool" where
  "quiet t \<longleftrightarrow> stage_is_final (tp_stage t) \<and> \<not> tp_resume_pending t \<and> \<not> tp_verifier t"

definition milder :: "attempt \<Rightarrow> attempt \<Rightarrow> bool" where
  "milder t t' \<longleftrightarrow>
     tp_a t' = tp_a t \<and> tp_e t' = tp_e t \<and> tp_kind t' = tp_kind t \<and> tp_reclaimed t' = tp_reclaimed t
     \<and> (tp_stage t' = SgCommitted \<longleftrightarrow> tp_stage t = SgCommitted)
     \<and> (tp_stage t = SgNotHanded \<longrightarrow> tp_stage t' = SgNotHanded)
     \<and> (tp_resume_pending t' \<longrightarrow> tp_resume_pending t \<or> tp_stage t \<noteq> SgCommitted)
     \<and> (tp_reclaimed t \<longrightarrow> quiet t \<longrightarrow> quiet t')"

lemma milder_refl [simp]: "milder t t"
  by (simp add: milder_def)

lemma milder_trans: "milder t u \<Longrightarrow> milder u v \<Longrightarrow> milder t v"
  by (auto simp: milder_def)

lemma milder_list_refl [simp]: "list_all2 milder ts ts"
  by (simp add: list.rel_refl)

lemma milder_list_trans: "list_all2 milder xs ys \<Longrightarrow> list_all2 milder ys zs \<Longrightarrow> list_all2 milder xs zs"
  by (rule list_all2_trans[of milder milder milder]) (blast intro: milder_trans)+

definition attempt_ok :: "delivery_state \<Rightarrow> attempt \<Rightarrow> bool" where
  "attempt_ok st t \<longleftrightarrow>
     (tp_reclaimed t \<longrightarrow> ds_terminal st \<and> quiet t) \<and> (tp_resume_pending t \<longrightarrow> tp_stage t \<noteq> SgCommitted)"

definition unreclaimed :: "attempt list \<Rightarrow> nat" where
  "unreclaimed ts = length (filter (\<lambda>t. \<not> tp_reclaimed t) ts)"

section \<open>Messages\<close>

definition committed_now :: "delivery \<Rightarrow> bool" where
  "committed_now msg \<longleftrightarrow> list_ex (\<lambda>t. tp_stage t = SgCommitted) (current_attempts msg)"

definition core :: "attempt_limits \<Rightarrow> delivery \<Rightarrow> bool" where
  "core l msg \<longleftrightarrow>
     map tp_e (dl_attempts msg) = [1..<Suc (length (dl_attempts msg))]
     \<and> dl_issued msg = length (dl_attempts msg) \<and> dl_issued msg \<le> al_max_attempts l
     \<and> dl_auto_repeats msg = length (filter (\<lambda>t. tp_kind t = IkAutoRepeat) (dl_attempts msg))
     \<and> dl_auto_repeats msg \<le> al_max_auto_repeats l
     \<and> (\<forall>t \<in> set (dl_attempts msg). tp_a t \<le> dl_a msg \<and> attempt_ok (dl_state msg) t)
     \<and> (dl_state msg = DsAttempting \<or> ds_uncertain (dl_state msg) \<longrightarrow> current_attempts msg \<noteq> [])
     \<and> (\<forall>token. dl_token msg = Some token \<longrightarrow>
          dl_state msg = DsAttempting \<and> rt_a token = dl_a msg
          \<and> (rt_kind token = TkAuto \<longrightarrow> dl_auto_repeats msg < al_max_auto_repeats l))"

definition settled_ok :: "delivery \<Rightarrow> bool" where
  "settled_ok msg \<longleftrightarrow> (dl_state msg = DsSettled \<longrightarrow> committed_now msg)"

definition decided :: "delivery \<Rightarrow> bool" where
  "decided msg \<longleftrightarrow>
     (committed_now msg \<longrightarrow> ds_terminal (dl_state msg))
     \<and> (dl_latch msg \<longrightarrow> ds_terminal (dl_state msg) \<or> dl_state msg = DsCancelHeld)
     \<and> (dl_state msg = DsCancelHeld \<longrightarrow> dl_latch msg)
     \<and> (dl_state msg = DsQueued \<longrightarrow> list_all (\<lambda>t. tp_stage t = SgNotHanded) (current_attempts msg))"

text \<open>A message whose attempts moved on a little, with nothing else that matters changed.\<close>

definition msg_like :: "delivery \<Rightarrow> delivery \<Rightarrow> bool" where
  "msg_like msg msg' \<longleftrightarrow>
     dl_offer msg' = dl_offer msg \<and> dl_a msg' = dl_a msg \<and> dl_state msg' = dl_state msg \<and> dl_latch msg' = dl_latch msg
     \<and> dl_auto_repeats msg' = dl_auto_repeats msg \<and> dl_issued msg' = dl_issued msg
     \<and> (dl_token msg' = dl_token msg \<or> dl_token msg' = None)
     \<and> list_all2 milder (dl_attempts msg) (dl_attempts msg')"

lemma msg_like_refl [simp]: "msg_like msg msg"
  by (simp add: msg_like_def)

lemma msg_like_trans: "msg_like a b \<Longrightarrow> msg_like b c \<Longrightarrow> msg_like a c"
  by (auto simp: msg_like_def intro: milder_list_trans)

lemma list_all2_milder_maps:
  assumes "list_all2 milder ts ts'"
  shows "map tp_e ts' = map tp_e ts" "map tp_a ts' = map tp_a ts" "map tp_kind ts' = map tp_kind ts"
    "map tp_reclaimed ts' = map tp_reclaimed ts" "unreclaimed ts' = unreclaimed ts" "length ts' = length ts"
    "length (filter (\<lambda>t. tp_kind t = k) ts') = length (filter (\<lambda>t. tp_kind t = k) ts)"
    "list_all2 milder (filter (\<lambda>t. tp_a t = n) ts) (filter (\<lambda>t. tp_a t = n) ts')"
  using assms by (induction ts ts' rule: list_all2_induct) (auto simp: milder_def unreclaimed_def)

lemma list_all2_milder_current:
  assumes "msg_like msg msg'"
  shows "list_all2 milder (current_attempts msg) (current_attempts msg')"
  using assms list_all2_milder_maps(8) by (auto simp: current_attempts_def msg_like_def)

lemma milder_committed:
  assumes "list_all2 milder ts ts'"
  shows "list_ex (\<lambda>t. tp_stage t = SgCommitted) ts' = list_ex (\<lambda>t. tp_stage t = SgCommitted) ts"
    "list_all (\<lambda>t. tp_stage t = SgNotHanded) ts \<Longrightarrow> list_all (\<lambda>t. tp_stage t = SgNotHanded) ts'"
    "(ts' = []) = (ts = [])"
  using assms by (induction ts ts' rule: list_all2_induct) (auto simp: milder_def)

lemma milder_attempts_ok:
  assumes "list_all2 milder ts ts'" "\<forall>t \<in> set ts. tp_a t \<le> n \<and> attempt_ok st t"
  shows "\<forall>t \<in> set ts'. tp_a t \<le> n \<and> attempt_ok st t"
proof -
  have one: "attempt_ok st t'" if "milder t t'" "attempt_ok st t" for t t'
    using that by (simp add: milder_def attempt_ok_def) blast
  have "tp_a t' \<le> n \<and> attempt_ok st t'" if "milder t t'" "tp_a t \<le> n \<and> attempt_ok st t" for t t'
    using that(2) one[OF that(1)] that(1)[unfolded milder_def] by simp
  with assms show ?thesis by (induction ts ts' rule: list_all2_induct) simp_all
qed

lemma like_core:
  assumes "msg_like msg msg'" "core l msg"
  shows "core l msg'"
proof -
  from assms(1) have at: "list_all2 milder (dl_attempts msg) (dl_attempts msg')" by (simp add: msg_like_def)
  note maps = list_all2_milder_maps[OF at] and cur = milder_committed[OF list_all2_milder_current[OF assms(1)]]
  show ?thesis
    using assms milder_attempts_ok[OF at, of "dl_a msg" "dl_state msg"] unfolding core_def msg_like_def maps(1,6,7) cur
    by (elim conjE disjE) simp_all
qed

lemma like_decided:
  assumes "msg_like msg msg'"
  shows "decided msg \<Longrightarrow> decided msg'" "settled_ok msg' = settled_ok msg" "committed_now msg' = committed_now msg"
  using assms milder_committed[OF list_all2_milder_current[OF assms]]
  by (auto simp: decided_def settled_ok_def committed_now_def msg_like_def)

section \<open>The model\<close>

definition evidence_held :: "attempt_model \<Rightarrow> nat" where
  "evidence_held m = sum_list (map (\<lambda>e. unreclaimed (dl_attempts (snd e))) (am_messages m))"

text \<open>
  How a message that ended in state \<open>st\<close> may go on: not at all, but for one found to be delivered after its
  attempts were spent. The finalizer is the only place that makes the exception.
\<close>

definition ended_ok :: "delivery_state option \<Rightarrow> delivery \<Rightarrow> bool" where
  "ended_ok f msg \<longleftrightarrow>
     (\<forall>st. f = Some st \<longrightarrow> ds_terminal st \<longrightarrow>
        dl_state msg = st \<or> (st = DsUndeliverable UdMaxDeliver \<and> \<not> dl_offer msg \<and> dl_state msg = DsSettled))"

lemma ended_ok_same:
  assumes "ended_ok f msg" "dl_offer msg' = dl_offer msg" "ds_terminal (dl_state msg) \<Longrightarrow> dl_state msg' = dl_state msg"
  shows "ended_ok f msg'"
  unfolding ended_ok_def
proof (intro allI impI)
  fix st
  assume "f = Some st" "ds_terminal st"
  then consider "dl_state msg = st" | "st = DsUndeliverable UdMaxDeliver" "\<not> dl_offer msg" "dl_state msg = DsSettled"
    using assms(1) by (auto simp: ended_ok_def)
  then show "dl_state msg' = st \<or> st = DsUndeliverable UdMaxDeliver \<and> \<not> dl_offer msg' \<and> dl_state msg' = DsSettled"
    using assms(2,3) \<open>ds_terminal st\<close> by cases simp_all
qed

text \<open>
  Every message but \<open>i\<close> is decided, the limits are those \<open>F\<close> gives, and no message went on from the end
  \<open>F\<close> gives it.
\<close>

definition am_pre :: "attempt_limits \<times> (string \<Rightarrow> delivery_state option) \<Rightarrow> string option \<Rightarrow> attempt_model \<Rightarrow> bool" where
  "am_pre F i m \<longleftrightarrow>
     fst F = am_limits m \<and> sorted_wrt (<) (map fst (am_messages m))
     \<and> (\<forall>(j, msg) \<in> set (am_messages m).
          core (am_limits m) msg \<and> ended_ok (snd F j) msg \<and> (\<not> am_exited m \<longrightarrow> settled_ok msg \<and> (Some j \<noteq> i \<longrightarrow> decided msg)))
     \<and> am_evidence_reserved m = (if am_exited m then 0 else EVIDENCE_PER_ATTEMPT * evidence_held m)
     \<and> am_evidence_reserved m \<le> al_evidence_limit (am_limits m)"

abbreviation am_ok :: "attempt_limits \<times> (string \<Rightarrow> delivery_state option) \<Rightarrow> attempt_model \<Rightarrow> bool" where
  "am_ok F m \<equiv> am_pre F None m"

lemma am_preD:
  assumes "am_pre F i m" "am_delivery j m = Some msg"
  shows "core (am_limits m) msg" "\<not> am_exited m \<Longrightarrow> settled_ok msg" "\<not> am_exited m \<Longrightarrow> Some j \<noteq> i \<Longrightarrow> decided msg"
    "ended_ok (snd F j) msg"
  using assms map_of_SomeD by (fastforce simp: am_pre_def am_delivery_def)+

lemma am_ok_pre: "am_ok F m \<Longrightarrow> am_pre F i m"
  by (auto simp: am_pre_def)

definition am_like :: "attempt_model \<Rightarrow> attempt_model \<Rightarrow> bool" where
  "am_like m m' \<longleftrightarrow>
     list_all2 (\<lambda>(i, msg) (j, msg'). i = j \<and> msg_like msg msg') (am_messages m) (am_messages m')
     \<and> am_limits m' = am_limits m \<and> am_exited m' = am_exited m \<and> am_evidence_reserved m' = am_evidence_reserved m"

lemma like_entries_refl: "list_all2 (\<lambda>(i, msg) (j, msg'). i = j \<and> msg_like msg msg') ms ms"
  by (rule list.rel_refl) auto

lemma am_like_refl [simp]: "am_like m m"
  by (simp add: am_like_def like_entries_refl)

lemma like_entries_trans:
  assumes "list_all2 (\<lambda>(i, msg) (j, msg'). i = j \<and> msg_like msg msg') xs ys"
    "list_all2 (\<lambda>(i, msg) (j, msg'). i = j \<and> msg_like msg msg') ys zs"
  shows "list_all2 (\<lambda>(i, msg) (j, msg'). i = j \<and> msg_like msg msg') xs zs"
  by (rule list_all2_trans[OF _ assms]) (auto intro: msg_like_trans)

lemma am_like_trans: "am_like a b \<Longrightarrow> am_like b c \<Longrightarrow> am_like a c"
  unfolding am_like_def by (elim conjE, intro conjI, erule (1) like_entries_trans) simp_all

lemma like_entries:
  assumes "list_all2 (\<lambda>(i, msg) (j, msg'). i = j \<and> msg_like msg msg') ms ms'"
  shows "map fst ms' = map fst ms"
    "sum_list (map (\<lambda>e. unreclaimed (dl_attempts (snd e))) ms') = sum_list (map (\<lambda>e. unreclaimed (dl_attempts (snd e))) ms)"
    "(j, msg') \<in> set ms' \<Longrightarrow> \<exists>msg. (j, msg) \<in> set ms \<and> msg_like msg msg'"
proof -
  have u: "msg_like msg msg' \<Longrightarrow> unreclaimed (dl_attempts msg') = unreclaimed (dl_attempts msg)" for msg msg'
    by (simp add: list_all2_milder_maps(5) msg_like_def)
  show "map fst ms' = map fst ms"
    "sum_list (map (\<lambda>e. unreclaimed (dl_attempts (snd e))) ms') = sum_list (map (\<lambda>e. unreclaimed (dl_attempts (snd e))) ms)"
    "(j, msg') \<in> set ms' \<Longrightarrow> \<exists>msg. (j, msg) \<in> set ms \<and> msg_like msg msg'"
    using assms by (induction ms ms' rule: list_all2_induct) (auto simp: u)
qed

lemma am_like_ok:
  assumes "am_like m m'" "am_pre F i m"
  shows "am_pre F i m'"
proof -
  from assms(1) have l: "list_all2 (\<lambda>(i, msg) (j, msg'). i = j \<and> msg_like msg msg') (am_messages m) (am_messages m')"
    and e: "am_limits m' = am_limits m" "am_exited m' = am_exited m" "am_evidence_reserved m' = am_evidence_reserved m"
    by (simp_all add: am_like_def)
  have "core (am_limits m) msg' \<and> ended_ok (snd F j) msg' \<and> (\<not> am_exited m \<longrightarrow> settled_ok msg' \<and> (Some j \<noteq> i \<longrightarrow> decided msg'))"
    if "(j, msg') \<in> set (am_messages m')" for j msg'
  proof -
    from like_entries(3)[OF l that] obtain msg where msg: "(j, msg) \<in> set (am_messages m)" "msg_like msg msg'" by blast
    with assms(2) have "core (am_limits m) msg" "\<not> am_exited m \<longrightarrow> settled_ok msg \<and> (Some j \<noteq> i \<longrightarrow> decided msg)"
      and ended: "ended_ok (snd F j) msg"
      by (auto simp: am_pre_def)
    moreover have "ended_ok (snd F j) msg'" using ended_ok_same[OF ended] msg(2) by (simp add: msg_like_def)
    ultimately show ?thesis using like_core[OF msg(2)] like_decided(1,2)[OF msg(2)] by blast
  qed
  with assms(2) e like_entries(1,2)[OF l] show ?thesis by (auto simp: am_pre_def evidence_held_def)
qed

text \<open>The shapes of a mild change.\<close>

lemma like_change_message:
  assumes "\<And>msg. am_delivery i m = Some msg \<Longrightarrow> msg_like msg (f msg)" "distinct (map fst (am_messages m))"
  shows "am_like m (change_message i f m)"
proof -
  have "list_all2 (\<lambda>(i, msg) (j, msg'). i = j \<and> msg_like msg msg') (am_messages m) (bt_modify i f (am_messages m))"
    using assms by (auto simp: bt_modify_map list.rel_map am_delivery_def list_all2_same)
  then show ?thesis by (simp add: am_like_def change_message_def)
qed

lemma like_map_attempts:
  assumes "\<And>i msg t. (i, msg) \<in> set (am_messages m) \<Longrightarrow> t \<in> set (dl_attempts msg) \<Longrightarrow> milder t (f i t)"
  shows "am_like m (map_attempts f m)"
proof -
  have "list_all2 milder (dl_attempts msg) (map (f i) (dl_attempts msg))" if "(i, msg) \<in> set (am_messages m)" for i msg
    using assms[OF that] by (simp add: list.rel_map list_all2_same)
  then have "list_all2 (\<lambda>(i, msg) (j, msg'). i = j \<and> msg_like msg msg') (am_messages m)
      (map (\<lambda>(i, msg). (i, msg\<lparr>dl_attempts := map (f i) (dl_attempts msg)\<rparr>)) (am_messages m))"
    by (auto simp: list.rel_map list_all2_same msg_like_def)
  then show ?thesis by (simp add: am_like_def map_attempts_def)
qed

lemma change_first_milder:
  assumes "\<And>t. find p ts = Some t \<Longrightarrow> milder t (f t)"
  shows "list_all2 milder ts (change_first p f ts)"
  using assms by (induction p f ts rule: change_first.induct) auto

lemma like_change_attempt:
  assumes "\<And>msg t. am_delivery i m = Some msg \<Longrightarrow> dl_attempt a e msg = Some t \<Longrightarrow> milder t (f t)"
    "distinct (map fst (am_messages m))"
  shows "am_like m (change_message i (change_attempt a e f) m)"
proof (rule like_change_message[OF _ assms(2)])
  fix msg
  assume "am_delivery i m = Some msg"
  then have "list_all2 milder (dl_attempts msg) (change_first (is_attempt a e) f (dl_attempts msg))"
    using assms(1) by (intro change_first_milder) (simp add: dl_attempt_def)
  then show "msg_like msg (change_attempt a e f msg)" by (simp add: msg_like_def change_attempt_def)
qed

lemma like_push_effect [simp]: "am_like m (push_effect ef m)"
  by (simp add: am_like_def push_effect_def like_entries_refl)

lemma ok_foldl: "(\<And>m x. P m \<Longrightarrow> P (f m x)) \<Longrightarrow> P m \<Longrightarrow> P (foldl f m xs)"
  by (induction xs arbitrary: m) auto

lemma am_pre_distinct: "am_pre F i m \<Longrightarrow> distinct (map fst (am_messages m))"
  by (auto simp: am_pre_def intro: sorted_distinct)

section \<open>Reclaiming\<close>

definition reclaim_one :: "delivery_state \<Rightarrow> attempt \<Rightarrow> attempt" where
  "reclaim_one st t =
     (if tp_reclaimed t then t
      else let t1 = (if st = DsSettled then t\<lparr>tp_verifier := False\<rparr> else t)
           in if reclaim_due st t1 then t1\<lparr>tp_reclaimed := True\<rparr> else t1)"

lemma reclaim_attempts_step:
  "fst (reclaim_attempts i st (t # ts) n) = reclaim_one st t
     # fst (reclaim_attempts i st ts (if \<not> tp_reclaimed t \<and> tp_reclaimed (reclaim_one st t) then n - EVIDENCE_PER_ATTEMPT else n))"
  "fst (snd (reclaim_attempts i st (t # ts) n))
     = fst (snd (reclaim_attempts i st ts (if \<not> tp_reclaimed t \<and> tp_reclaimed (reclaim_one st t) then n - EVIDENCE_PER_ATTEMPT else n)))"
  by (cases "tp_reclaimed t"; cases "st = DsSettled"; simp add: Let_def reclaim_one_def split: prod.split)+

lemma reclaim_attempts_map: "fst (reclaim_attempts i st ts n) = map (reclaim_one st) ts"
proof (induction ts arbitrary: n)
  case (Cons t ts)
  then show ?case unfolding reclaim_attempts_step by simp
qed simp

lemma unreclaimed_simps [simp]:
  "unreclaimed [] = 0"
  "unreclaimed (t # ts) = (if tp_reclaimed t then 0 else 1) + unreclaimed ts"
  "unreclaimed (ts @ us) = unreclaimed ts + unreclaimed us"
  by (simp_all add: unreclaimed_def)

lemma reclaim_attempts_reserved:
  "EVIDENCE_PER_ATTEMPT * unreclaimed ts \<le> n \<Longrightarrow>
     fst (snd (reclaim_attempts i st ts n)) + EVIDENCE_PER_ATTEMPT * unreclaimed ts
     = n + EVIDENCE_PER_ATTEMPT * unreclaimed (map (reclaim_one st) ts)"
proof (induction ts arbitrary: n)
  case (Cons t ts)
  have kept: "tp_reclaimed t \<Longrightarrow> tp_reclaimed (reclaim_one st t)" by (simp add: reclaim_one_def)
  show ?case
  proof (cases "\<not> tp_reclaimed t \<and> tp_reclaimed (reclaim_one st t)")
    case True
    then have "EVIDENCE_PER_ATTEMPT * unreclaimed ts \<le> n - EVIDENCE_PER_ATTEMPT" "EVIDENCE_PER_ATTEMPT \<le> n"
      using Cons.prems by (simp_all add: EVIDENCE_PER_ATTEMPT_def)
    with Cons.IH[of "n - EVIDENCE_PER_ATTEMPT"] True show ?thesis unfolding reclaim_attempts_step by simp
  next
    case False
    then have "EVIDENCE_PER_ATTEMPT * unreclaimed ts \<le> n" using Cons.prems by (simp split: if_splits)
    with Cons.IH[of n] False kept show ?thesis unfolding reclaim_attempts_step by auto
  qed
qed simp

lemma reclaim_one_same [simp]:
  "tp_e (reclaim_one st t) = tp_e t" "tp_a (reclaim_one st t) = tp_a t" "tp_kind (reclaim_one st t) = tp_kind t"
  "tp_stage (reclaim_one st t) = tp_stage t"
  by (simp_all add: reclaim_one_def Let_def)

lemma reclaim_one_ok: "attempt_ok st t \<Longrightarrow> attempt_ok st (reclaim_one st t)"
  by (auto simp: reclaim_one_def Let_def reclaim_due_def attempt_ok_def quiet_def)

definition reclaimed_message :: "delivery \<Rightarrow> delivery" where
  "reclaimed_message msg = msg\<lparr>dl_attempts := map (reclaim_one (dl_state msg)) (dl_attempts msg)\<rparr>"

lemma filter_reclaim_one:
  "filter (\<lambda>t. tp_a t = n) (map (reclaim_one st) ts) = map (reclaim_one st) (filter (\<lambda>t. tp_a t = n) ts)"
  "filter (\<lambda>t. tp_kind t = k) (map (reclaim_one st) ts) = map (reclaim_one st) (filter (\<lambda>t. tp_kind t = k) ts)"
  by (simp_all add: filter_map o_def)

lemma current_reclaimed: "current_attempts (reclaimed_message msg) = map (reclaim_one (dl_state msg)) (current_attempts msg)"
  by (simp add: current_attempts_def reclaimed_message_def filter_reclaim_one)

lemma core_reclaimed:
  assumes "core l msg"
  shows "core l (reclaimed_message msg)"
proof -
  have "map tp_e (dl_attempts (reclaimed_message msg)) = map tp_e (dl_attempts msg)"
    "length (filter (\<lambda>t. tp_kind t = IkAutoRepeat) (dl_attempts (reclaimed_message msg)))
     = length (filter (\<lambda>t. tp_kind t = IkAutoRepeat) (dl_attempts msg))"
    by (simp_all add: reclaimed_message_def filter_reclaim_one)
  with assms show ?thesis unfolding core_def current_reclaimed by (auto simp: reclaimed_message_def reclaim_one_ok)
qed

lemma decided_reclaimed:
  "settled_ok (reclaimed_message msg) = settled_ok msg" "decided (reclaimed_message msg) = decided msg"
  unfolding settled_ok_def decided_def committed_now_def current_reclaimed
  by (simp_all add: reclaimed_message_def list_ex_iff list_all_iff)

section \<open>A changed message\<close>

lemma bt_modify_none: "map_of ms i = None \<Longrightarrow> bt_modify i f ms = ms"
  by (force simp: bt_modify_def map_of_eq_None_iff intro!: map_idI)

lemma sum_bt_modify:
  fixes g :: "'v \<Rightarrow> nat"
  assumes "distinct (map fst ms)" "map_of ms i = Some v"
  shows "sum_list (map (\<lambda>e. g (snd e)) (bt_modify i f ms)) + g v = sum_list (map (\<lambda>e. g (snd e)) ms) + g (f v)"
  using assms
proof (induction ms)
  case (Cons e ms)
  show ?case
  proof (cases "fst e = i")
    case True
    with Cons.prems have "bt_modify i f ms = ms"
      by (intro bt_modify_none) (simp add: map_of_eq_None_iff)
    with True Cons.prems show ?thesis by (auto simp: bt_modify_def)
  next
    case False
    with Cons show ?thesis by (cases e) (auto simp: bt_modify_def)
  qed
qed simp

lemma bt_modify_cong:
  assumes "distinct (map fst ms)" "map_of ms i = Some v" "f v = g v"
  shows "bt_modify i f ms = bt_modify i g ms"
  using assms by (auto simp: bt_modify_def dest: eq_key_imp_eq_value)

text \<open>A message of the model replaced by one in order; the evidence follows the attempts not reclaimed.\<close>

lemma pre_change:
  assumes "am_pre F (Some i) m" "am_delivery i m = Some msg" "core (am_limits m) msg'"
    and "ended_ok (snd F i) msg'" "\<not> am_exited m \<Longrightarrow> settled_ok msg' \<and> (Some i \<noteq> k \<longrightarrow> decided msg')"
    and "am_messages m' = bt_modify i (\<lambda>_. msg') (am_messages m)" "am_limits m' = am_limits m" "am_exited m' = am_exited m"
    and "\<not> am_exited m \<Longrightarrow> am_evidence_reserved m' + EVIDENCE_PER_ATTEMPT * unreclaimed (dl_attempts msg)
           = am_evidence_reserved m + EVIDENCE_PER_ATTEMPT * unreclaimed (dl_attempts msg')"
    and "am_exited m \<Longrightarrow> am_evidence_reserved m' = 0" "am_evidence_reserved m' \<le> al_evidence_limit (am_limits m)"
    and "k = None \<or> k = Some i"
  shows "am_pre F k m'"
proof -
  have dist: "distinct (map fst (am_messages m))" using am_pre_distinct[OF assms(1)] .
  have msgs: "core (am_limits m) x \<and> ended_ok (snd F j) x \<and> (\<not> am_exited m \<longrightarrow> settled_ok x \<and> (Some j \<noteq> k \<longrightarrow> decided x))"
    if "(j, x) \<in> set (am_messages m')" for j x
  proof (cases "j = i")
    case True
    with that have "x = msg'" using assms(6) by (auto simp: bt_modify_map split: if_splits)
    then show ?thesis using assms(3-5) True by blast
  next
    case False
    with that have "(j, x) \<in> set (am_messages m)" using assms(6) by (auto simp: bt_modify_map split: if_splits)
    with False show ?thesis using assms(1) unfolding am_pre_def by blast
  qed
  have "evidence_held m' + unreclaimed (dl_attempts msg) = evidence_held m + unreclaimed (dl_attempts msg')"
    using sum_bt_modify[OF dist, of i msg "\<lambda>x. unreclaimed (dl_attempts x)" "\<lambda>_. msg'"] assms(2,6)
    by (simp add: evidence_held_def am_delivery_def)
  then have "am_evidence_reserved m' = (if am_exited m then 0 else EVIDENCE_PER_ATTEMPT * evidence_held m')"
    using assms(1,9,10) by (auto simp: am_pre_def EVIDENCE_PER_ATTEMPT_def)
  with msgs assms show ?thesis by (auto simp: am_pre_def)
qed

end
