(* ===== verification/Attempt_Final.thy ===== *)
theory Attempt_Final
  imports Attempt_Inv
begin

text \<open>
  The finalizer: whatever a call did to a message, as long as the message's bookkeeping is in order, the
  finalizer leaves it decided. Each of its rules is shown alone; the lemmas here are what the calls'
  own proofs rest on.
\<close>

section \<open>Reclaiming\<close>

lemma unreclaimed_reclaim_one: "unreclaimed (map (reclaim_one st) ts) \<le> unreclaimed ts"
  by (induction ts) (auto simp: reclaim_one_def)

lemma unreclaimed_le_held:
  assumes "am_delivery i m = Some msg"
  shows "unreclaimed (dl_attempts msg) \<le> evidence_held m"
proof -
  from assms have "(i, msg) \<in> set (am_messages m)" by (auto simp: am_delivery_def dest: map_of_SomeD)
  then have "unreclaimed (dl_attempts msg) \<in> set (map (\<lambda>e. unreclaimed (dl_attempts (snd e))) (am_messages m))" by force
  then show ?thesis unfolding evidence_held_def by (rule member_le_sum_list) simp
qed

lemma reclaim_ok:
  assumes "am_pre F k m" "\<not> am_exited m" "k = None \<or> k = Some i"
  shows "am_pre F k (reclaim i m)"
proof (cases "am_delivery i m")
  case None
  then show ?thesis using assms(1) by (simp add: reclaim_def)
next
  case (Some msg)
  obtain ts n efs where r: "reclaim_attempts i (dl_state msg) (dl_attempts msg) (am_evidence_reserved m) = (ts, n, efs)"
    by (metis prod_cases3)
  then have ts: "ts = map (reclaim_one (dl_state msg)) (dl_attempts msg)"
    using reclaim_attempts_map[of i "dl_state msg" "dl_attempts msg" "am_evidence_reserved m"] by simp
  have dist: "distinct (map fst (am_messages m))" using am_pre_distinct[OF assms(1)] .
  note unreclaimed_le_held[OF Some]
  then have "EVIDENCE_PER_ATTEMPT * unreclaimed (dl_attempts msg) \<le> am_evidence_reserved m"
    using assms(1,2) by (simp add: am_pre_def)
  from reclaim_attempts_reserved[OF this, of i "dl_state msg"] r
  have n: "n + EVIDENCE_PER_ATTEMPT * unreclaimed (dl_attempts msg)
      = am_evidence_reserved m + EVIDENCE_PER_ATTEMPT * unreclaimed (dl_attempts (reclaimed_message msg))"
    by (simp add: reclaimed_message_def)
  with unreclaimed_reclaim_one[of "dl_state msg" "dl_attempts msg"] have "n \<le> am_evidence_reserved m"
    by (simp add: reclaimed_message_def EVIDENCE_PER_ATTEMPT_def)
  then have limit: "n \<le> al_evidence_limit (am_limits m)" using assms(1) by (simp add: am_pre_def)
  have m': "am_messages (reclaim i m) = bt_modify i (\<lambda>_. reclaimed_message msg) (am_messages m)"
    using Some r ts bt_modify_cong[OF dist, of i msg "\<lambda>msg. msg\<lparr>dl_attempts := ts\<rparr>" "\<lambda>_. reclaimed_message msg"]
    by (simp add: reclaim_def change_message_def am_delivery_def reclaimed_message_def)
  have rest: "am_limits (reclaim i m) = am_limits m" "am_exited (reclaim i m) = am_exited m" "am_evidence_reserved (reclaim i m) = n"
    using Some r by (simp_all add: reclaim_def change_message_def)
  have pre: "am_pre F (Some i) m" using assms(1,3) am_ok_pre by blast
  show ?thesis
  proof (rule pre_change[OF pre Some _ _ _ m' rest(1,2)])
    show "ended_ok (snd F i) (reclaimed_message msg)"
      using ended_ok_same[OF am_preD(4)[OF pre Some]] by (simp add: reclaimed_message_def)
    show "core (am_limits m) (reclaimed_message msg)" using core_reclaimed am_preD(1)[OF pre Some] by blast
    show "settled_ok (reclaimed_message msg) \<and> (Some i \<noteq> k \<longrightarrow> decided (reclaimed_message msg))"
      using am_preD(2,3)[OF assms(1) Some assms(2)] by (simp add: decided_reclaimed)
  qed (use n rest limit assms in auto)
qed

section \<open>The rules\<close>

lemma core_keep:
  assumes "core l msg" "list_all2 milder (dl_attempts msg) (dl_attempts msg')" "dl_issued msg' = dl_issued msg"
    "dl_auto_repeats msg' = dl_auto_repeats msg" "dl_a msg \<le> dl_a msg'"
    "ds_terminal (dl_state msg) \<Longrightarrow> ds_terminal (dl_state msg')"
    "dl_state msg' = DsAttempting \<or> ds_uncertain (dl_state msg') \<Longrightarrow> current_attempts msg' \<noteq> []"
    "\<And>token. dl_token msg' = Some token \<Longrightarrow>
       dl_state msg' = DsAttempting \<and> rt_a token = dl_a msg'
       \<and> (rt_kind token = TkAuto \<longrightarrow> dl_auto_repeats msg' < al_max_auto_repeats l)"
  shows "core l msg'"
proof -
  have "\<forall>t \<in> set (dl_attempts msg'). tp_a t \<le> dl_a msg \<and> attempt_ok (dl_state msg) t"
    using milder_attempts_ok[OF assms(2)] assms(1) unfolding core_def by blast
  then have "\<forall>t \<in> set (dl_attempts msg'). tp_a t \<le> dl_a msg' \<and> attempt_ok (dl_state msg') t"
    using assms(5,6) by (auto simp: attempt_ok_def)
  with assms list_all2_milder_maps[OF assms(2)] show ?thesis unfolding core_def by auto
qed

definition settled_by :: "attempt_limits \<Rightarrow> delivery \<Rightarrow> delivery \<Rightarrow> bool" where
  "settled_by l msg msg' \<longleftrightarrow>
     core l msg' \<and> settled_ok msg' \<and> decided msg' \<and> unreclaimed (dl_attempts msg') = unreclaimed (dl_attempts msg)
     \<and> dl_offer msg' = dl_offer msg
     \<and> (ds_terminal (dl_state msg) \<longrightarrow>
          dl_state msg' = dl_state msg
          \<or> (dl_state msg = DsUndeliverable UdMaxDeliver \<and> \<not> dl_offer msg \<and> dl_state msg' = DsSettled))"

lemma settled_by_ended:
  assumes "settled_by l msg msg'" "ended_ok f msg"
  shows "ended_ok f msg'"
  unfolding ended_ok_def
proof (intro allI impI)
  fix st
  assume "f = Some st" "ds_terminal st"
  then consider "dl_state msg = st" | "st = DsUndeliverable UdMaxDeliver" "\<not> dl_offer msg" "dl_state msg = DsSettled"
    using assms(2) by (auto simp: ended_ok_def)
  then show "dl_state msg' = st \<or> st = DsUndeliverable UdMaxDeliver \<and> \<not> dl_offer msg' \<and> dl_state msg' = DsSettled"
    using assms(1) \<open>ds_terminal st\<close> unfolding settled_by_def by cases simp_all
qed

lemma set_state_simps [simp]:
  "dl_state (set_state st msg) = st" "dl_attempts (set_state st msg) = dl_attempts msg" "dl_a (set_state st msg) = dl_a msg"
  "dl_latch (set_state st msg) = dl_latch msg" "dl_token (set_state st msg) = dl_token msg"
  "dl_issued (set_state st msg) = dl_issued msg" "dl_auto_repeats (set_state st msg) = dl_auto_repeats msg"
  "dl_offer (set_state st msg) = dl_offer msg" "dl_corrected (set_state st msg) = dl_corrected msg"
  "dl_waiting_since (set_state st msg) = dl_waiting_since msg"
  by (simp_all add: set_state_def)

lemma current_same:
  assumes "dl_attempts msg' = dl_attempts msg" "dl_a msg' = dl_a msg"
  shows "current_attempts msg' = current_attempts msg" "committed_now msg' = committed_now msg"
  using assms by (simp_all add: current_attempts_def committed_now_def)

lemma revoke_open_milder:
  "list_all2 milder (dl_attempts msg) (dl_attempts (fst (revoke_open now i sel msg)))"
  by (auto simp: revoke_open_def Let_def list.rel_map list_all2_same milder_def quiet_def)

lemma revoke_open_same [simp]:
  "dl_state (fst (revoke_open now i sel msg)) = dl_state msg" "dl_a (fst (revoke_open now i sel msg)) = dl_a msg"
  "dl_latch (fst (revoke_open now i sel msg)) = dl_latch msg" "dl_token (fst (revoke_open now i sel msg)) = dl_token msg"
  "dl_issued (fst (revoke_open now i sel msg)) = dl_issued msg" "dl_offer (fst (revoke_open now i sel msg)) = dl_offer msg"
  "dl_auto_repeats (fst (revoke_open now i sel msg)) = dl_auto_repeats msg"
  "dl_corrected (fst (revoke_open now i sel msg)) = dl_corrected msg"
  "dl_waiting_since (fst (revoke_open now i sel msg)) = dl_waiting_since msg"
  by (simp_all add: revoke_open_def Let_def)

lemma correct_sender_same [simp]:
  "dl_state (fst (correct_sender i b msg)) = dl_state msg" "dl_a (fst (correct_sender i b msg)) = dl_a msg"
  "dl_latch (fst (correct_sender i b msg)) = dl_latch msg" "dl_token (fst (correct_sender i b msg)) = dl_token msg"
  "dl_issued (fst (correct_sender i b msg)) = dl_issued msg" "dl_attempts (fst (correct_sender i b msg)) = dl_attempts msg"
  "dl_auto_repeats (fst (correct_sender i b msg)) = dl_auto_repeats msg" "dl_offer (fst (correct_sender i b msg)) = dl_offer msg"
  by (simp_all add: correct_sender_def)

lemma settle_shape:
  "dl_state (fst (rule_settle now i msg)) = DsSettled" "dl_a (fst (rule_settle now i msg)) = dl_a msg"
  "dl_latch (fst (rule_settle now i msg)) = dl_latch msg" "dl_token (fst (rule_settle now i msg)) = None"
  "dl_issued (fst (rule_settle now i msg)) = dl_issued msg" "dl_offer (fst (rule_settle now i msg)) = dl_offer msg"
  "dl_auto_repeats (fst (rule_settle now i msg)) = dl_auto_repeats msg"
  "list_all2 milder (dl_attempts msg) (dl_attempts (fst (rule_settle now i msg)))"
proof -
  define msg1 where "msg1 = (set_state DsSettled msg)\<lparr>dl_token := None, dl_possessed_since := None, dl_waiting_since := None,
    dl_held_long_sent := None\<rparr>"
  have eq: "fst (rule_settle now i msg) = (let msg2 = fst (revoke_open now i (\<lambda>_. True) msg1)
      in if dl_latch msg \<or> ds_uncertain (dl_state msg) then fst (correct_sender i (dl_latch msg2) msg2) else msg2)"
    by (simp add: rule_settle_def msg1_def Let_def case_prod_beta)
  show "dl_state (fst (rule_settle now i msg)) = DsSettled" "dl_a (fst (rule_settle now i msg)) = dl_a msg"
    "dl_latch (fst (rule_settle now i msg)) = dl_latch msg" "dl_token (fst (rule_settle now i msg)) = None"
    "dl_issued (fst (rule_settle now i msg)) = dl_issued msg" "dl_offer (fst (rule_settle now i msg)) = dl_offer msg"
    "dl_auto_repeats (fst (rule_settle now i msg)) = dl_auto_repeats msg"
    by (simp_all add: eq Let_def msg1_def)
  show "list_all2 milder (dl_attempts msg) (dl_attempts (fst (rule_settle now i msg)))"
    using revoke_open_milder[of msg1 now i "\<lambda>_. True"] by (simp add: eq Let_def msg1_def)
qed

lemma settled_byI:
  assumes "core l msg" "list_all2 milder (dl_attempts msg) (dl_attempts msg')" "dl_issued msg' = dl_issued msg"
    "dl_auto_repeats msg' = dl_auto_repeats msg" "dl_a msg \<le> dl_a msg'"
    "ds_terminal (dl_state msg) \<Longrightarrow> ds_terminal (dl_state msg')"
    "dl_state msg' = DsAttempting \<or> ds_uncertain (dl_state msg') \<Longrightarrow> current_attempts msg' \<noteq> []"
    "\<And>token. dl_token msg' = Some token \<Longrightarrow>
       dl_state msg' = DsAttempting \<and> rt_a token = dl_a msg'
       \<and> (rt_kind token = TkAuto \<longrightarrow> dl_auto_repeats msg' < al_max_auto_repeats l)"
    "settled_ok msg'" "decided msg'" "dl_offer msg' = dl_offer msg"
    "ds_terminal (dl_state msg) \<Longrightarrow> dl_state msg' = dl_state msg
       \<or> (dl_state msg = DsUndeliverable UdMaxDeliver \<and> \<not> dl_offer msg \<and> dl_state msg' = DsSettled)"
  shows "settled_by l msg msg'"
  using core_keep[OF assms(1-8)] list_all2_milder_maps(5)[OF assms(2)] assms(9-12) by (simp add: settled_by_def)

lemma token_terminal: "core l msg \<Longrightarrow> ds_terminal (dl_state msg) \<Longrightarrow> dl_token msg = None"
  by (cases "dl_token msg") (auto simp: core_def)

lemma milder_committed_now:
  assumes "list_all2 milder (dl_attempts msg) (dl_attempts msg')" "dl_a msg' = dl_a msg"
  shows "committed_now msg' = committed_now msg"
  using milder_committed(1)[OF list_all2_milder_maps(8)[OF assms(1), of "dl_a msg"]] assms(2)
  by (simp add: committed_now_def current_attempts_def)

lemma committed_decided:
  assumes "core l msg" "committed_now msg" "list_all2 milder (dl_attempts msg) (dl_attempts msg')"
    "dl_issued msg' = dl_issued msg" "dl_auto_repeats msg' = dl_auto_repeats msg" "dl_a msg' = dl_a msg"
    "dl_token msg' = None" "ds_terminal (dl_state msg')" "dl_offer msg' = dl_offer msg"
    "ds_terminal (dl_state msg) \<Longrightarrow> dl_state msg' = dl_state msg
       \<or> (dl_state msg = DsUndeliverable UdMaxDeliver \<and> \<not> dl_offer msg \<and> dl_state msg' = DsSettled)"
  shows "settled_by l msg msg'"
proof (rule settled_byI[OF assms(1,3-5)])
  have "committed_now msg'" using milder_committed_now[OF assms(3,6)] assms(2) by simp
  then show "settled_ok msg'" "decided msg'" using assms(8) by (auto simp: settled_ok_def decided_def)
qed (use assms in \<open>auto elim: ds_uncertain.elims\<close>)

lemma rule_committed_ok:
  assumes "core l msg" "committed_now msg"
  shows "settled_by l msg (fst (rule_committed now i msg))"
proof (rule committed_decided[OF assms])
  have token: "dl_token msg = None" if "ds_terminal (dl_state msg)" using token_terminal[OF assms(1) that] .
  show "list_all2 milder (dl_attempts msg) (dl_attempts (fst (rule_committed now i msg)))"
    by (simp add: rule_committed_def settle_shape)
  show "dl_token (fst (rule_committed now i msg)) = None"
    using token by (simp add: rule_committed_def settle_shape)
  show "ds_terminal (dl_state (fst (rule_committed now i msg)))"
    by (simp add: rule_committed_def settle_shape)
qed (simp_all add: rule_committed_def settle_shape)

lemma final_facts_simps [simp]:
  "ff_committed (final_facts_of m i msg now) = committed_now msg"
  "ff_none_issued (final_facts_of m i msg now) = (current_attempts msg = [])"
  "ff_all_not_handed (final_facts_of m i msg now)
     = (current_attempts msg \<noteq> [] \<and> list_all (\<lambda>t. tp_stage t = SgNotHanded) (current_attempts msg))"
  by (simp_all add: final_facts_of_def Let_def committed_now_def)

lemma rule_latch_ok:
  assumes "core l msg" "\<not> committed_now msg" "\<not> ds_terminal (dl_state msg)" "dl_latch msg"
  shows "settled_by l msg (fst (rule_latch i facts msg))"
proof (rule settled_byI[OF assms(1)])
  let ?msg' = "fst (rule_latch i facts msg)"
  have same: "dl_attempts ?msg' = dl_attempts msg" "dl_a ?msg' = dl_a msg" by (simp_all add: rule_latch_def Let_def)
  then show "list_all2 milder (dl_attempts msg) (dl_attempts ?msg')" "dl_a msg \<le> dl_a ?msg'" by simp_all
  show "settled_ok ?msg'" by (simp add: settled_ok_def rule_latch_def Let_def)
  show "decided ?msg'"
    unfolding decided_def current_same(2)[OF same] using assms by (simp add: rule_latch_def Let_def)
qed (use assms(3) in \<open>simp_all add: rule_latch_def Let_def split: if_splits\<close>)

lemma rule_not_handed_ok:
  assumes "core l msg" "\<not> committed_now msg" "\<not> ds_terminal (dl_state msg)" "\<not> dl_latch msg"
    "list_all (\<lambda>t. tp_stage t = SgNotHanded) (current_attempts msg)"
  shows "settled_by l msg (fst (rule_not_handed l i msg))"
proof (rule settled_byI[OF assms(1)])
  let ?msg' = "fst (rule_not_handed l i msg)"
  have ats: "dl_attempts ?msg' = dl_attempts msg" by (simp add: rule_not_handed_def Let_def)
  have latch: "dl_latch ?msg' = dl_latch msg" by (simp add: rule_not_handed_def Let_def)
  have a: "dl_a ?msg' = dl_a msg \<or> (dl_a ?msg' = dl_a msg + 1 \<and> dl_state ?msg' = DsQueued)"
    by (simp add: rule_not_handed_def Let_def)
  have st: "dl_state ?msg' = DsQueued \<or> dl_state ?msg' = DsUndeliverable UdMaxDeliver"
    by (simp add: rule_not_handed_def Let_def)
  have "\<forall>t \<in> set (dl_attempts msg). tp_a t \<le> dl_a msg" using assms(1) by (simp add: core_def)
  then have cur: "current_attempts ?msg' = current_attempts msg \<or> current_attempts ?msg' = []"
    using a ats by (auto simp: current_attempts_def filter_empty_conv)
  show "list_all2 milder (dl_attempts msg) (dl_attempts ?msg')" using ats by simp
  show "dl_a msg \<le> dl_a ?msg'" using a by auto
  show "settled_ok ?msg'" using st by (auto simp: settled_ok_def)
  show "decided ?msg'" using cur st latch assms by (auto simp: decided_def committed_now_def)
  show "current_attempts ?msg' \<noteq> []" if "dl_state ?msg' = DsAttempting \<or> ds_uncertain (dl_state ?msg')"
    using that st by auto
qed (use assms in \<open>simp_all add: rule_not_handed_def Let_def split: if_splits\<close>)

lemma queued_ok:
  assumes "core l msg" "\<not> ds_terminal (dl_state msg)" "\<not> dl_latch msg" "current_attempts msg = []"
  shows "settled_by l msg (set_state DsQueued msg)"
proof (rule settled_byI[OF assms(1)])
  have "dl_token msg = None" using assms(1,4) by (cases "dl_token msg") (auto simp: core_def)
  then show "dl_state (set_state DsQueued msg) = DsAttempting \<and> rt_a token = dl_a (set_state DsQueued msg)
       \<and> (rt_kind token = TkAuto \<longrightarrow> dl_auto_repeats (set_state DsQueued msg) < al_max_auto_repeats l)"
    if "dl_token (set_state DsQueued msg) = Some token" for token
    using that by simp
  show "decided (set_state DsQueued msg)"
    unfolding decided_def committed_now_def current_attempts_def using assms(3,4) by (simp add: current_attempts_def)
qed (use assms in \<open>simp_all add: settled_ok_def\<close>)

text \<open>The last two rules leave a message that is being tried, or whose outcome is not known.\<close>

lemma in_progress_ok:
  assumes "core l msg" "\<not> committed_now msg" "\<not> ds_terminal (dl_state msg)" "\<not> dl_latch msg" "current_attempts msg \<noteq> []"
    "dl_attempts msg' = dl_attempts msg" "dl_a msg' = dl_a msg" "dl_issued msg' = dl_issued msg" "dl_latch msg' = dl_latch msg"
    "dl_auto_repeats msg' = dl_auto_repeats msg" "dl_state msg' = DsAttempting \<or> ds_uncertain (dl_state msg')"
    "dl_offer msg' = dl_offer msg" "\<And>token. dl_token msg' = Some token \<Longrightarrow>
       dl_state msg' = DsAttempting \<and> rt_a token = dl_a msg'
       \<and> (rt_kind token = TkAuto \<longrightarrow> dl_auto_repeats msg' < al_max_auto_repeats l)"
  shows "settled_by l msg msg'"
proof (rule settled_byI[OF assms(1)])
  show "settled_ok msg'" using assms(11) by (auto simp: settled_ok_def)
  show "decided msg'"
    unfolding decided_def current_same(2)[OF assms(6,7)] using assms(2,4,9,11) by auto
qed (use assms current_same(1)[OF assms(6,7)] in simp_all)

lemma rule_possessed_ok:
  assumes "core l msg" "\<not> committed_now msg" "\<not> ds_terminal (dl_state msg)" "\<not> dl_latch msg" "current_attempts msg \<noteq> []"
  shows "settled_by l msg (rule_possessed now facts msg)"
proof (rule in_progress_ok[OF assms])
  fix token
  assume "dl_token (rule_possessed now facts msg) = Some token"
  then have "dl_token msg = Some token" by (auto simp: rule_possessed_def Let_def split: option.splits if_splits)
  with assms(1) show "dl_state (rule_possessed now facts msg) = DsAttempting \<and> rt_a token = dl_a (rule_possessed now facts msg)
     \<and> (rt_kind token = TkAuto \<longrightarrow> dl_auto_repeats (rule_possessed now facts msg) < al_max_auto_repeats l)"
    by (auto simp: core_def rule_possessed_def Let_def split: option.splits)
qed (simp_all add: rule_possessed_def Let_def split: option.split)

lemma rule_waiting_ok:
  assumes "core l msg" "\<not> committed_now msg" "\<not> ds_terminal (dl_state msg)" "\<not> dl_latch msg" "current_attempts msg \<noteq> []"
  shows "settled_by l msg (rule_waiting l now facts msg)"
proof (rule in_progress_ok[OF assms])
  fix token
  assume "dl_token (rule_waiting l now facts msg) = Some token"
  with assms(1) show "dl_state (rule_waiting l now facts msg) = DsAttempting \<and> rt_a token = dl_a (rule_waiting l now facts msg)
     \<and> (rt_kind token = TkAuto \<longrightarrow> dl_auto_repeats (rule_waiting l now facts msg) < al_max_auto_repeats l)"
    by (auto simp: core_def rule_waiting_def Let_def split: if_splits)
qed (simp_all add: rule_waiting_def Let_def)

lemma final_rules_ok:
  assumes "core l msg" "settled_ok msg"
  shows "settled_by l msg (fst (final_rules l now i (final_facts_of m i msg now) msg))"
proof -
  let ?facts = "final_facts_of m i msg now"
  consider "committed_now msg" | "\<not> committed_now msg" "ds_terminal (dl_state msg)"
    | "\<not> committed_now msg" "\<not> ds_terminal (dl_state msg)" by blast
  then show ?thesis
  proof cases
    case 1
    then show ?thesis using rule_committed_ok[OF assms(1)] by (simp add: final_rules_def)
  next
    case 2
    then have "decided msg" by (auto simp: decided_def)
    with 2 show ?thesis using assms by (simp add: final_rules_def settled_by_def)
  next
    case 3
    note ok = rule_latch_ok[OF assms(1) 3] queued_ok[OF assms(1) 3(2)] rule_not_handed_ok[OF assms(1) 3]
      rule_possessed_ok[OF assms(1) 3] rule_waiting_ok[OF assms(1) 3]
    show ?thesis using 3 ok by (simp add: final_rules_def)
  qed
qed

lemma anchor_same [simp]:
  "dl_attempts (anchor_not_started now facts msg) = dl_attempts msg" "dl_a (anchor_not_started now facts msg) = dl_a msg"
  "dl_state (anchor_not_started now facts msg) = dl_state msg" "dl_latch (anchor_not_started now facts msg) = dl_latch msg"
  "dl_token (anchor_not_started now facts msg) = dl_token msg" "dl_issued (anchor_not_started now facts msg) = dl_issued msg"
  "dl_auto_repeats (anchor_not_started now facts msg) = dl_auto_repeats msg" "dl_offer (anchor_not_started now facts msg) = dl_offer msg"
  "dl_waiting_since (anchor_not_started now facts msg) = dl_waiting_since msg"
  by (simp_all add: anchor_not_started_def)

lemma settled_by_anchor: "settled_by l msg msg' \<Longrightarrow> settled_by l msg (anchor_not_started now facts msg')"
proof -
  have "msg_like msg' (anchor_not_started now facts msg')" by (simp add: msg_like_def)
  then show "settled_by l msg msg' \<Longrightarrow> ?thesis" using like_core like_decided by (auto simp: settled_by_def)
qed

text \<open>The message the finalizer writes before it reclaims.\<close>

definition finalized :: "instant \<Rightarrow> string \<Rightarrow> attempt_model \<Rightarrow> delivery \<Rightarrow> delivery" where
  "finalized now i m msg =
     anchor_not_started now (final_facts_of m i msg now) (fst (final_rules (am_limits m) now i (final_facts_of m i msg now) msg))"

lemma finalize_unfold:
  assumes "\<not> am_exited m" "am_delivery i m = Some msg"
  obtains efs where "finalize now i m = reclaim i ((change_message i (\<lambda>_. finalized now i m msg) m)\<lparr>am_effects := am_effects m @ efs\<rparr>)"
  using assms that by (simp add: finalize_def finalized_def Let_def case_prod_beta)

lemma finalize_ok:
  assumes "am_pre F (Some i) m"
  shows "am_ok F (finalize now i m)"
proof (cases "am_exited m \<or> am_delivery i m = None")
  case True
  then have "am_ok F m"
  proof
    assume "am_exited m"
    with assms show ?thesis by (auto simp: am_pre_def)
  next
    assume none: "am_delivery i m = None"
    then have "j \<noteq> i" if "(j, msg) \<in> set (am_messages m)" for j msg
      using that by (force simp: am_delivery_def map_of_eq_None_iff)
    with assms show ?thesis by (fastforce simp: am_pre_def)
  qed
  with True show ?thesis by (auto simp: finalize_def)
next
  case False
  then obtain msg where msg: "am_delivery i m = Some msg" and exited: "\<not> am_exited m" by auto
  obtain efs where eq: "finalize now i m = reclaim i ((change_message i (\<lambda>_. finalized now i m msg) m)\<lparr>am_effects := am_effects m @ efs\<rparr>)"
    using finalize_unfold[OF exited msg] .
  have "settled_by (am_limits m) msg (finalized now i m msg)"
    unfolding finalized_def using settled_by_anchor final_rules_ok am_preD(1,2)[OF assms msg] exited by blast
  with settled_by_ended am_preD(4)[OF assms msg] have "am_ok F ((change_message i (\<lambda>_. finalized now i m msg) m)\<lparr>am_effects := am_effects m @ efs\<rparr>)"
    using assms exited by (intro pre_change[OF assms msg]) (auto simp: settled_by_def change_message_def am_pre_def)
  then show ?thesis unfolding eq using exited by (intro reclaim_ok) (simp_all add: change_message_def)
qed

lemma finalize_ids_ok: "am_ok F m \<Longrightarrow> am_ok F (finalize_ids now ids m)"
  unfolding finalize_ids_def by (rule ok_foldl[of "am_ok F"]) (auto intro: finalize_ok am_ok_pre)

lemma finalize_all_ok: "am_ok F m \<Longrightarrow> am_ok F (finalize_all now m)"
  by (simp add: finalize_all_def finalize_ids_ok)

lemma finalize_bound_to_ok: "am_ok F m \<Longrightarrow> am_ok F (finalize_bound_to now x m)"
  by (simp add: finalize_bound_to_def finalize_ids_ok)

end
