(* ===== verification/Attempt_Steps.thy ===== *)
theory Attempt_Steps
  imports Attempt_Final
begin

text \<open>
  Every call of the delivery model keeps its invariant. The calls that only move attempts along are mild
  changes followed by the finalizer; handing out, a stage record, the user's actions and the generation's
  end change the message itself.
\<close>

section \<open>Mild changes\<close>

lemma like_same:
  assumes "am_messages m' = am_messages m" "am_limits m' = am_limits m" "am_exited m' = am_exited m"
    "am_evidence_reserved m' = am_evidence_reserved m"
  shows "am_like m m'"
  using assms by (simp add: am_like_def like_entries_refl)

lemma milder_recheck [simp]: "milder t (recheck t)" "milder t (regained t)"
  by (simp_all add: milder_def quiet_def recheck_def regained_def)

lemma milder_fence: "\<not> stage_is_final (tp_stage t) \<Longrightarrow> milder t (fence t)"
  by (auto simp: milder_def quiet_def fence_def regained_def recheck_def stage_is_final_def)

lemma milder_fence_quiet: "\<not> stage_is_final (tp_stage t) \<Longrightarrow> milder t (fence t\<lparr>tp_quiet_at := q\<rparr>)"
  by (auto simp: milder_def quiet_def fence_def regained_def recheck_def stage_is_final_def)

lemma like_free_slot: "am_like m (free_slot s x m)"
  by (auto simp: free_slot_def intro: like_same)

lemma like_close_one_shot: "am_like m (close_one_shot now x close m)"
proof (cases "map_of (am_receivers m) x")
  case (Some r)
  let ?m1 = "free_slot (rv_slot r) x (m\<lparr>am_receivers := bt_remove x (am_receivers m)\<rparr>)"
  have 1: "am_like m ?m1"
    by (rule am_like_trans[OF _ like_free_slot]) (simp add: like_same)
  have 2: "am_like ?m1 (map_attempts (\<lambda>_ t. if tp_rx t = x \<and> \<not> stage_is_final (tp_stage t)
       then (fence t)\<lparr>tp_quiet_at := Some (now + grant_ttl (am_limits m))\<rparr> else t) ?m1)"
    by (rule like_map_attempts) (auto intro: milder_fence_quiet)
  from am_like_trans[OF 1 2] show ?thesis
    using Some by (auto simp: close_one_shot_def Let_def intro: am_like_trans)
qed (simp add: close_one_shot_def)

lemma like_retire_one: "am_like m (retire_one x m)"
proof (cases "map_of (am_receivers m) x")
  case (Some r)
  let ?m1 = "free_slot (rv_slot r) x (m\<lparr>am_receivers := bt_modify x (\<lambda>r. r\<lparr>rv_retired := True\<rparr>) (am_receivers m)\<rparr>)"
  have 1: "am_like m ?m1"
    by (rule am_like_trans[OF _ like_free_slot]) (simp add: like_same)
  have 2: "am_like ?m1 (map_attempts (\<lambda>_ t. if tp_rx t = x \<and> \<not> stage_is_final (tp_stage t) \<and> \<not> tp_resume_pending t
       then fence t else t) ?m1)"
    by (rule like_map_attempts) (auto intro: milder_fence)
  from am_like_trans[OF 1 2] show ?thesis using Some by (simp add: retire_one_def)
qed (simp add: retire_one_def)

lemma ok_retire_closed: "am_ok F m \<Longrightarrow> am_ok F (retire_closed now m)"
  unfolding retire_closed_def by (rule ok_foldl[of "am_ok F"]) (auto intro: am_like_ok like_retire_one)

lemma like_register_one_shot: "am_like m (register_one_shot now x s m)"
proof -
  have "am_like m (m\<lparr>am_slots := (am_slots m)(s := Some x)\<rparr>)" by (simp add: like_same)
  then show ?thesis
    by (auto simp: register_one_shot_def Let_def intro: am_like_trans like_close_one_shot split: option.split)
qed

lemma like_retire_for_successor: "am_like m (fst (retire_for_successor now s old m))"
proof -
  let ?m1 = "m\<lparr>am_receivers := bt_modify old (\<lambda>r. r\<lparr>rv_retired := True\<rparr>) (am_receivers m)\<rparr>"
  have "am_like ?m1 (map_attempts (\<lambda>_ t. if owes_resume ?m1 s t
      then t\<lparr>tp_resume_pending := True, tp_resume_deadline := Some (now + al_ack_wait (am_limits m))\<rparr> else t) ?m1)"
    by (rule like_map_attempts) (auto simp: milder_def quiet_def owes_resume_def stage_is_final_def)
  moreover have "am_like m ?m1" by (simp add: like_same)
  ultimately show ?thesis by (simp add: retire_for_successor_def Let_def am_like_trans)
qed

section \<open>Registering and closing\<close>

lemma ok_register: "am_ok F m \<Longrightarrow> am_ok F (fst (am_register now s queue_survived m))"
proof -
  assume ok: "am_ok F m"
  let ?m1 = "m\<lparr>am_next_rx := am_next_rx m + 1, am_seen_slots := insert s (am_seen_slots m),
    am_receivers := bt_insert (am_next_rx m) (receiver_new now s queue_survived (am_limits m)) (am_receivers m)\<rparr>"
  let ?m2 = "?m1\<lparr>am_slots := (am_slots ?m1)(s := Some (am_next_rx m))\<rparr>"
  let ?m3 = "fst (case am_slots ?m1 s of Some old \<Rightarrow> retire_for_successor now s old ?m2 | None \<Rightarrow> (?m2, []))"
  have m1: "am_like m ?m1" by (simp add: like_same)
  have m2: "am_like m ?m2" by (simp add: like_same)
  have "am_like ?m2 ?m3" by (simp add: like_retire_for_successor split: option.split)
  moreover have "am_like ?m3 (map_attempts (\<lambda>_ t. if may_correct ?m3 s t then recheck (t\<lparr>tp_correcting := Some (am_next_rx m)\<rparr>) else t) ?m3)"
    by (rule like_map_attempts) (auto simp: milder_def quiet_def recheck_def)
  ultimately have m4: "am_ok F (map_attempts (\<lambda>_ t. if may_correct ?m3 s t then recheck (t\<lparr>tp_correcting := Some (am_next_rx m)\<rparr>) else t) ?m3)"
    using m2 ok am_like_ok am_like_trans by blast
  have one: "am_ok F (register_one_shot now (am_next_rx m) s ?m1)"
    using m1 ok like_register_one_shot am_like_ok am_like_trans by blast
  show ?thesis
    unfolding am_register_def Let_def case_prod_beta
    using finalize_all_ok[OF m4] finalize_all_ok[OF one] by simp
qed

lemma ok_connection_closed: "am_ok F m \<Longrightarrow> am_ok F (connection_closed now x m)"
  unfolding connection_closed_def Let_def
  by (rule finalize_bound_to_ok) (auto intro: am_like_ok like_close_one_shot split: option.split)

lemma ok_expire_holds: "am_ok F m \<Longrightarrow> am_ok F (expire_holds now m)"
  unfolding expire_holds_def
  by (rule ok_foldl[of "am_ok F"]) (auto intro: finalize_bound_to_ok am_like_ok like_close_one_shot)

lemma ok_stream_closed: "am_ok F m \<Longrightarrow> am_ok F (stream_closed now x m)"
  unfolding stream_closed_def by (rule finalize_bound_to_ok) (auto intro: am_like_ok[OF like_same])

section \<open>Attempts moved along\<close>

lemma ok_turn_to: "am_ok F m \<Longrightarrow> am_ok F (am_turn_to now view m)"
proof -
  assume ok: "am_ok F m"
  have 1: "am_like m (m\<lparr>am_turn := view\<rparr>)" by (simp add: like_same)
  have 2: "am_like (m\<lparr>am_turn := view\<rparr>) (map_attempts (\<lambda>_ t. if once_held t then regained t else t) (m\<lparr>am_turn := view\<rparr>))"
    by (rule like_map_attempts) simp
  show ?thesis
    unfolding am_turn_to_def Let_def
    by (rule finalize_ids_ok) (simp add: am_like_ok[OF 1 ok] am_like_ok[OF 2 am_like_ok[OF 1 ok]])
qed

lemma like_change_attempt_milder:
  assumes "am_ok F m" "\<And>t. milder t (f t)"
  shows "am_like m (change_message i (change_attempt a e f) m)"
  using like_change_attempt[OF _ am_pre_distinct[OF assms(1)]] assms(2) by blast

lemma ok_withhold: "am_ok F m \<Longrightarrow> am_ok F (withhold now i a e m)"
  unfolding withhold_def
  by (rule am_like_ok[OF like_change_attempt_milder]) (auto simp: milder_def quiet_def)

lemma ok_deck_not_handed:
  assumes "am_ok F m"
  shows "am_ok F (fst (deck_not_handed now i a e x m))"
proof (cases "am_exited m \<or> attempt_of i a e m = None")
  case True
  with assms show ?thesis by (auto simp: deck_not_handed_def)
next
  case False
  then obtain t where t: "attempt_of i a e m = Some t" "\<not> am_exited m" by auto
  let ?f = "\<lambda>t. t\<lparr>tp_stage := SgNotHanded, tp_verifier := False, tp_quiet_at := None\<rparr>"
  have "am_like m (change_message i (change_attempt a e ?f) m)" if "tp_stage t = SgIssued \<or> tp_stage t = SgFenced"
    by (rule like_change_attempt[OF _ am_pre_distinct[OF assms]])
      (use t(1) that in \<open>auto simp: attempt_of_def milder_def quiet_def stage_is_final_def\<close>)
  then have "am_ok F (finalize now i (change_message i (change_attempt a e ?f) m))" if "tp_stage t = SgIssued \<or> tp_stage t = SgFenced"
    using that finalize_ok am_ok_pre am_like_ok[OF _ assms] by blast
  with t assms show ?thesis by (simp add: deck_not_handed_def)
qed

lemma ok_staging_lapsed: "am_ok F m \<Longrightarrow> am_ok F (staging_lapsed now m)"
proof -
  assume ok: "am_ok F m"
  have "am_like m (map_attempts (\<lambda>_ t. if staging_over now t then t\<lparr>tp_withheld := False, tp_staged_until := None\<rparr> else t) m)"
    by (rule like_map_attempts) (auto simp: milder_def quiet_def)
  then have "am_ok F (map_attempts (\<lambda>_ t. if staging_over now t then t\<lparr>tp_withheld := False, tp_staged_until := None\<rparr> else t) m)"
    using ok am_like_ok by blast
  then show ?thesis
    unfolding staging_lapsed_def Let_def
    by (rule ok_foldl[of "am_ok F", rotated]) (auto intro!: ok_deck_not_handed am_like_ok[OF like_push_effect])
qed

lemma ok_expire_staging: "am_ok F m \<Longrightarrow> am_ok F (expire_staging now m)"
  by (simp add: expire_staging_def ok_staging_lapsed)

lemma ok_released: "am_ok F m \<Longrightarrow> am_ok F (released now i a e handed_over m)"
proof -
  assume ok: "am_ok F m"
  have "am_ok F (change_message i (change_attempt a e (\<lambda>t. t\<lparr>tp_withheld := False, tp_staged_until := None\<rparr>)) m)"
    by (rule am_like_ok[OF like_change_attempt_milder[OF ok] ok]) (auto simp: milder_def quiet_def)
  with ok show ?thesis
    by (simp add: finalize_ok[OF am_ok_pre] ok_deck_not_handed released_def Let_def split: option.split)
qed

lemma ok_regain_held: "am_ok F m \<Longrightarrow> am_ok F (regain_held x ref m)"
  by (cases ref) (auto simp: regain_held_def intro!: am_like_ok[OF like_change_attempt_milder])

lemma ok_snapshot: "am_ok F m \<Longrightarrow> am_ok F (fst (am_snapshot now x seq seen held m))"
proof -
  assume ok: "am_ok F m"
  have "am_ok F (fst (apply_snapshot now x seq seen held m))"
  proof (cases "map_of (am_receivers m) x")
    case (Some r)
    let ?m1 = "m\<lparr>am_receivers := bt_modify x (\<lambda>r. r\<lparr>rv_last_seq := Some seq, rv_seen := max (rv_seen r) seen,
      rv_fresh_at := now, rv_held := set held\<rparr>) (am_receivers m)\<rparr>"
    have "am_ok F ?m1" by (rule am_like_ok[OF _ ok]) (simp add: like_same)
    then have "am_ok F (foldl (\<lambda>m ref. regain_held x ref m) ?m1 held)"
      by (rule ok_foldl[of "am_ok F", rotated]) (rule ok_regain_held)
    with Some ok show ?thesis by (simp add: apply_snapshot_def Let_def)
  qed (simp add: apply_snapshot_def ok)
  then show ?thesis by (simp add: am_snapshot_def case_prod_beta finalize_bound_to_ok)
qed

lemma reclaim_exited [simp]: "am_exited (reclaim i m) = am_exited m"
  by (auto simp: reclaim_def change_message_def split: option.split prod.split)

lemma ok_verify_one:
  assumes "am_ok F m" "\<not> am_exited m"
  shows "am_ok F (verify_one m check) \<and> \<not> am_exited (verify_one m check)"
proof (cases "attempt_of (lc_id check) (lc_a check) (lc_e check) m")
  case (Some t)
  have "am_like m (change_message (lc_id check) (change_attempt (lc_a check) (lc_e check) (\<lambda>t. t\<lparr>tp_verifier := False\<rparr>)) m)"
    by (rule like_change_attempt_milder[OF assms(1)]) (auto simp: milder_def quiet_def)
  from am_like_ok[OF this assms(1)] assms Some show ?thesis
    by (auto simp: verify_one_def change_message_def intro!: reclaim_ok)
qed (use assms in \<open>simp add: verify_one_def\<close>)

lemma ok_tick_verified: "am_ok F m \<Longrightarrow> am_ok F (tick_verified verified m)"
  using ok_foldl[of "\<lambda>m. am_ok F m \<and> \<not> am_exited m" verify_one m verified] ok_verify_one[of F]
  by (simp add: tick_verified_def)

section \<open>Messages that come and go\<close>

lemma sum_bt_insert:
  fixes g :: "'v \<Rightarrow> nat"
  assumes "sorted_wrt (<) (map fst ms)" "k \<notin> fst ` set ms"
  shows "sum_list (map (\<lambda>e. g (snd e)) (bt_insert k v ms)) = sum_list (map (\<lambda>e. g (snd e)) ms) + g v"
proof -
  have "takeWhile (\<lambda>e. fst e < k) ms @ dropWhile (\<lambda>e. fst e \<le> k) ms = ms"
    using assms by (induction ms) (auto simp: order_le_less)
  then have "sum_list (map (\<lambda>e. g (snd e)) (takeWhile (\<lambda>e. fst e < k) ms)) + sum_list (map (\<lambda>e. g (snd e)) (dropWhile (\<lambda>e. fst e \<le> k) ms))
      = sum_list (map (\<lambda>e. g (snd e)) ms)"
    by (metis map_append sum_list_append)
  then show ?thesis by (simp add: bt_insert_def)
qed

lemma core_new: "core l (delivery_new off a)"
  by (simp add: core_def delivery_new_def)

lemma ok_post:
  assumes "am_ok F m" "am_delivery i m = None \<Longrightarrow> snd F i = None"
  shows "am_ok F (am_post i off m)"
proof (cases "am_delivery i m")
  case None
  let ?new = "delivery_new off (am_forgotten_a m + 1)"
  have fresh: "i \<notin> fst ` set (am_messages m)" using None by (simp add: am_delivery_def map_of_eq_None_iff)
  have sorted: "sorted_wrt (<) (map fst (am_messages m))" using assms(1) by (simp add: am_pre_def)
  have "settled_ok ?new \<and> decided ?new \<and> ended_ok (snd F i) ?new"
    using assms(2)[OF None] by (simp add: ended_ok_def settled_ok_def decided_def delivery_new_def committed_now_def current_attempts_def)
  moreover have "evidence_held (am_post i off m) = evidence_held m"
    using None sum_bt_insert[OF sorted fresh, of "\<lambda>x. unreclaimed (dl_attempts x)" ?new]
    by (simp add: am_post_def evidence_held_def delivery_new_def)
  ultimately show ?thesis
    using assms(1) None core_new[of "am_limits m" off] sorted_bt_insert[OF sorted, of i ?new]
    by (auto simp: am_pre_def am_post_def set_bt_insert[OF sorted fresh])
qed (simp add: am_post_def assms(1))

lemma sum_bt_remove:
  fixes g :: "'v \<Rightarrow> nat"
  assumes "distinct (map fst ms)" "map_of ms k = Some v"
  shows "sum_list (map (\<lambda>e. g (snd e)) (bt_remove k ms)) + g v = sum_list (map (\<lambda>e. g (snd e)) ms)"
  using assms
proof (induction ms)
  case (Cons e ms)
  show ?case
  proof (cases "fst e = k")
    case True
    with Cons.prems have "fst x \<noteq> k" if "x \<in> set ms" for x using that by (auto simp: image_iff)
    then have "bt_remove k ms = ms" by (simp add: bt_remove_def filter_id_conv)
    with True Cons.prems show ?thesis by (auto simp: bt_remove_def)
  next
    case False
    with Cons show ?thesis by (cases e) (auto simp: bt_remove_def)
  qed
qed simp

lemma ok_forget:
  assumes "am_ok F m"
  shows "am_ok F (fst (am_forget i m))"
proof (cases "spent i m")
  case True
  then obtain msg where msg: "am_delivery i m = Some msg" "list_all tp_reclaimed (dl_attempts msg)"
    by (auto simp: spent_def split: option.splits)
  have "unreclaimed (dl_attempts msg) = 0" using msg(2) by (simp add: unreclaimed_def list_all_iff)
  then have "evidence_held (fst (am_forget i m)) = evidence_held m"
    using True msg(1) sum_bt_remove[OF am_pre_distinct[OF assms], of i msg "\<lambda>x. unreclaimed (dl_attempts x)"]
    by (simp add: am_forget_def evidence_held_def am_delivery_def)
  moreover have "sorted_wrt (<) (map fst (bt_remove i (am_messages m)))"
    using assms by (intro sorted_bt_remove) (simp add: am_pre_def)
  ultimately show ?thesis
    using assms True msg(1) by (auto simp: am_pre_def am_forget_def bt_remove_def)
qed (simp add: am_forget_def assms)

section \<open>A message changed and then decided\<close>

lemma pre_change_message:
  assumes "am_pre F (Some i) m"
    and "\<And>msg. am_delivery i m = Some msg \<Longrightarrow> core (am_limits m) msg \<Longrightarrow>
      core (am_limits m) (f msg) \<and> (settled_ok msg \<longrightarrow> settled_ok (f msg))
      \<and> unreclaimed (dl_attempts (f msg)) = unreclaimed (dl_attempts msg)
      \<and> dl_offer (f msg) = dl_offer msg \<and> (ds_terminal (dl_state msg) \<longrightarrow> dl_state (f msg) = dl_state msg)"
  shows "am_pre F (Some i) (change_message i f m)"
proof (cases "am_delivery i m")
  case None
  then show ?thesis using assms(1) by (simp add: change_message_def bt_modify_none am_delivery_def)
next
  case (Some msg)
  have eq: "am_messages (change_message i f m) = bt_modify i (\<lambda>_. f msg) (am_messages m)"
    using bt_modify_cong[OF am_pre_distinct[OF assms(1)], of i msg f "\<lambda>_. f msg"] Some
    by (simp add: am_delivery_def change_message_def)
  have f: "core (am_limits m) (f msg)" "settled_ok msg \<longrightarrow> settled_ok (f msg)"
    "unreclaimed (dl_attempts (f msg)) = unreclaimed (dl_attempts msg)"
    "dl_offer (f msg) = dl_offer msg" "ds_terminal (dl_state msg) \<Longrightarrow> dl_state (f msg) = dl_state msg"
    using assms(2)[OF Some am_preD(1)[OF assms(1) Some]] by simp_all
  have ended: "ended_ok (snd F i) (f msg)" using ended_ok_same[OF am_preD(4)[OF assms(1) Some] f(4,5)] .
  have m: "am_exited m \<Longrightarrow> am_evidence_reserved m = 0" "am_evidence_reserved m \<le> al_evidence_limit (am_limits m)"
    using assms(1) by (simp_all add: am_pre_def)
  show ?thesis
    by (rule pre_change[OF assms(1) Some f(1) ended _ eq])
      (use f am_preD(2)[OF assms(1) Some] m in \<open>simp_all add: change_message_def\<close>)
qed

lemma ok_change_finalize:
  assumes "am_ok F m"
    and "\<And>msg. am_delivery i m = Some msg \<Longrightarrow> core (am_limits m) msg \<Longrightarrow>
      core (am_limits m) (f msg) \<and> (settled_ok msg \<longrightarrow> settled_ok (f msg))
      \<and> unreclaimed (dl_attempts (f msg)) = unreclaimed (dl_attempts msg)
      \<and> dl_offer (f msg) = dl_offer msg \<and> (ds_terminal (dl_state msg) \<longrightarrow> dl_state (f msg) = dl_state msg)"
    and "am_like (change_message i f m) m'"
  shows "am_ok F (finalize now i m')"
  using finalize_ok am_like_ok[OF assms(3)] pre_change_message[OF am_ok_pre[OF assms(1)] assms(2)] by blast

section \<open>Handing out\<close>

lemma auto_needs_token:
  assumes "issue_kind_for m i msg now = Inr IkAutoRepeat"
  shows "\<exists>token. dl_token msg = Some token \<and> rt_kind token = TkAuto"
  using assms by (auto simp: issue_kind_for_def split: option.splits if_splits token_kind.splits)

lemma rechecked_milder: "list_all2 milder ts (map (\<lambda>t. if tp_a t = a then recheck t else t) ts)"
  by (simp add: list.rel_map list_all2_same)

lemma core_append:
  assumes "core l msg" "dl_issued msg < al_max_attempts l" "dl_token msg = None" "\<not> ds_terminal (dl_state msg)"
    "tp_a t = dl_a msg" "tp_e t = length (dl_attempts msg) + 1" "\<not> tp_reclaimed t" "tp_stage t \<noteq> SgCommitted"
    "tp_kind t = IkAutoRepeat \<Longrightarrow> dl_auto_repeats msg < al_max_auto_repeats l"
  shows "core l (msg\<lparr>dl_attempts := dl_attempts msg @ [t], dl_issued := dl_issued msg + 1,
    dl_auto_repeats := (if tp_kind t = IkAutoRepeat then dl_auto_repeats msg + 1 else dl_auto_repeats msg)\<rparr>)"
  using assms unfolding core_def by (auto simp: current_attempts_def attempt_ok_def)

lemma core_hand_out:
  assumes "core l msg" "dl_issued msg < al_max_attempts l" "\<not> ds_terminal (dl_state msg)"
    "issue_kind_for m i msg now = Inr kind"
  shows "core l (hand_out (length (dl_attempts msg) + 1) x d kind now s msg)"
proof -
  let ?msg1 = "msg\<lparr>dl_attempts := map (\<lambda>t. if tp_a t = dl_a msg then recheck t else t) (dl_attempts msg), dl_token := None\<rparr>"
  let ?new = "attempt_new (dl_a msg) (length (dl_attempts msg) + 1) x d kind now s"
  have "msg_like msg ?msg1" by (simp add: msg_like_def rechecked_milder)
  then have core1: "core l ?msg1" using assms(1) like_core by blast
  have auto: "kind = IkAutoRepeat \<Longrightarrow> dl_auto_repeats msg < al_max_auto_repeats l"
    using auto_needs_token[of m i msg now] assms(1,4) by (auto simp: core_def)
  have "core l (?msg1\<lparr>dl_attempts := dl_attempts ?msg1 @ [?new], dl_issued := dl_issued ?msg1 + 1,
    dl_auto_repeats := (if tp_kind ?new = IkAutoRepeat then dl_auto_repeats ?msg1 + 1 else dl_auto_repeats ?msg1)\<rparr>)"
    by (rule core_append[OF core1]) (use assms(2,3) auto in \<open>simp_all add: attempt_new_def\<close>)
  moreover have "?msg1\<lparr>dl_attempts := dl_attempts ?msg1 @ [?new], dl_issued := dl_issued ?msg1 + 1,
    dl_auto_repeats := (if tp_kind ?new = IkAutoRepeat then dl_auto_repeats ?msg1 + 1 else dl_auto_repeats ?msg1)\<rparr>
    = hand_out (length (dl_attempts msg) + 1) x d kind now s msg"
    by (simp add: hand_out_def attempt_new_def)
  ultimately show ?thesis by (simp only:)
qed

lemma unreclaimed_hand_out:
  "unreclaimed (dl_attempts (hand_out e x d kind now s msg)) = unreclaimed (dl_attempts msg) + 1"
  using list_all2_milder_maps(5)[OF rechecked_milder[of "dl_attempts msg" "dl_a msg"]]
  by (simp add: hand_out_def attempt_new_def)

lemma hand_out_ok:
  assumes "am_ok F m" "\<not> am_exited m" "am_delivery i m = Some msg" "\<not> ds_terminal (dl_state msg)"
    "issue_kind_for m i msg now = Inr kind" "dl_issued msg < al_max_attempts (am_limits m)"
    "am_evidence_reserved m + EVIDENCE_PER_ATTEMPT \<le> al_evidence_limit (am_limits m)"
  shows "am_ok F (finalize now i
    ((change_message i (hand_out (length (dl_attempts msg) + 1) x d kind now s) (m\<lparr>am_receivers := rs\<rparr>))
       \<lparr>am_evidence_reserved := am_evidence_reserved m + EVIDENCE_PER_ATTEMPT\<rparr>))"
proof (rule finalize_ok)
  let ?msg' = "hand_out (length (dl_attempts msg) + 1) x d kind now s msg"
  have eq: "bt_modify i (hand_out (length (dl_attempts msg) + 1) x d kind now s) (am_messages m) = bt_modify i (\<lambda>_. ?msg') (am_messages m)"
    by (rule bt_modify_cong[OF am_pre_distinct[OF assms(1)]]) (use assms(3) in \<open>simp_all add: am_delivery_def\<close>)
  have core: "core (am_limits m) ?msg'" using core_hand_out[OF am_preD(1)[OF assms(1,3)] assms(6,4,5)] .
  have ended: "ended_ok (snd F i) ?msg'" using ended_ok_same[OF am_preD(4)[OF assms(1,3)]] by (simp add: hand_out_def)
  have "settled_ok ?msg'" using assms(4) by (simp add: settled_ok_def hand_out_def) auto
  then show "am_pre F (Some i) ((change_message i (hand_out (length (dl_attempts msg) + 1) x d kind now s) (m\<lparr>am_receivers := rs\<rparr>))
       \<lparr>am_evidence_reserved := am_evidence_reserved m + EVIDENCE_PER_ATTEMPT\<rparr>)"
    using assms(2,7) eq unreclaimed_hand_out[of _ x d kind now s msg] ended
    by (intro pre_change[OF am_ok_pre[OF assms(1)] assms(3) core]) (simp_all add: change_message_def)
qed

lemma ok_issue:
  assumes "am_ok F m"
  shows "am_ok F (fst (am_issue now i x m))"
proof (cases "am_exited m \<or> \<not> am_live x m \<or> am_delivery i m = None")
  case True
  with assms show ?thesis by (auto simp: am_issue_def)
next
  case False
  then obtain msg where msg: "am_delivery i m = Some msg" "\<not> am_exited m" "am_live x m" by auto
  have stale: "am_ok F (finalize now i (change_message i (\<lambda>msg. msg\<lparr>dl_token := None\<rparr>) m))"
    by (rule finalize_ok[OF am_ok_pre[OF am_like_ok[OF like_change_message assms]]])
      (simp_all add: msg_like_def am_pre_distinct[OF assms])
  have fin: "am_ok F (finalize now i m)" using finalize_ok am_ok_pre[OF assms] by blast
  have push: "am_ok F (push_effect ef m)" for ef using am_like_ok[OF like_push_effect assms] .
  show ?thesis
  proof (cases "ds_terminal (dl_state msg) \<or> dl_latch msg")
    case True
    with msg assms show ?thesis by (auto simp: am_issue_def)
  next
    case False
    note go = msg False
    show ?thesis
    proof (cases "issue_kind_for m i msg now")
      case (Inl refusal)
      with go assms stale show ?thesis by (simp add: am_issue_def)
    next
      case (Inr kind)
      then show ?thesis
        using go assms fin push hand_out_ok[OF assms go(2,1) _ Inr]
        by (simp add: am_issue_def Let_def change_message_def not_le not_less split: option.split)
    qed
  qed
qed

section \<open>Stage records\<close>

text \<open>A change of an attempt that may decide it: what it counts for stays, and nothing committed is lost.\<close>

definition soft :: "delivery_state \<Rightarrow> attempt \<Rightarrow> attempt \<Rightarrow> bool" where
  "soft st t t' \<longleftrightarrow>
     tp_a t' = tp_a t \<and> tp_e t' = tp_e t \<and> tp_kind t' = tp_kind t \<and> tp_reclaimed t' = tp_reclaimed t
     \<and> (attempt_ok st t \<longrightarrow> attempt_ok st t' \<and> (tp_stage t = SgCommitted \<longrightarrow> tp_stage t' = SgCommitted))"

lemma soft_maps:
  assumes "list_all2 (soft st) ts ts'"
  shows "map tp_e ts' = map tp_e ts" "unreclaimed ts' = unreclaimed ts" "length ts' = length ts"
    "length (filter (\<lambda>t. tp_kind t = k) ts') = length (filter (\<lambda>t. tp_kind t = k) ts)"
    "(filter (\<lambda>t. tp_a t = a) ts' = []) = (filter (\<lambda>t. tp_a t = a) ts = [])"
  using assms by (induction ts ts' rule: list_all2_induct) (simp_all add: soft_def)

lemma soft_kept:
  assumes "list_all2 (soft st) ts ts'" "\<forall>t \<in> set ts. tp_a t \<le> n \<and> attempt_ok st t"
  shows "\<forall>t \<in> set ts'. tp_a t \<le> n \<and> attempt_ok st t"
    "list_ex (\<lambda>t. tp_stage t = SgCommitted) (filter (\<lambda>t. tp_a t = a) ts) \<Longrightarrow>
     list_ex (\<lambda>t. tp_stage t = SgCommitted) (filter (\<lambda>t. tp_a t = a) ts')"
proof -
  have one: "tp_a t' = tp_a t \<and> attempt_ok st t' \<and> (tp_stage t = SgCommitted \<longrightarrow> tp_stage t' = SgCommitted)"
    if "soft st t t'" "attempt_ok st t" for t t'
    using that unfolding soft_def by blast
  show "\<forall>t \<in> set ts'. tp_a t \<le> n \<and> attempt_ok st t"
    using assms by (induction ts ts' rule: list_all2_induct) (simp, force dest: one)
  show "list_ex (\<lambda>t. tp_stage t = SgCommitted) (filter (\<lambda>t. tp_a t = a) ts) \<Longrightarrow>
     list_ex (\<lambda>t. tp_stage t = SgCommitted) (filter (\<lambda>t. tp_a t = a) ts')"
    using assms by (induction ts ts' rule: list_all2_induct) (simp, force dest: one)
qed

lemma core_soft:
  assumes "core l msg" "list_all2 (soft (dl_state msg)) (dl_attempts msg) ts"
  shows "core l (msg\<lparr>dl_attempts := ts\<rparr>) \<and> (settled_ok msg \<longrightarrow> settled_ok (msg\<lparr>dl_attempts := ts\<rparr>))
    \<and> unreclaimed ts = unreclaimed (dl_attempts msg)"
proof -
  have "\<forall>t \<in> set (dl_attempts msg). tp_a t \<le> dl_a msg \<and> attempt_ok (dl_state msg) t"
    using assms(1) unfolding core_def by blast
  note maps = soft_maps[OF assms(2)] and kept = soft_kept[OF assms(2) this]
  have "core l (msg\<lparr>dl_attempts := ts\<rparr>)"
    using assms(1) kept(1) unfolding core_def current_attempts_def by (auto simp: maps(1,3,4,5))
  then show ?thesis using maps(2) kept(2) by (simp add: settled_ok_def committed_now_def current_attempts_def)
qed

lemma change_first_soft:
  assumes "\<And>t. find p ts = Some t \<Longrightarrow> soft st t (f t)"
  shows "list_all2 (soft st) ts (change_first p f ts)"
  using assms by (induction p f ts rule: change_first.induct) (auto simp: soft_def intro!: list_all2_refl)

lemma ok_change_attempt_finalize:
  assumes "am_ok F m"
    and "\<And>msg t. am_delivery i m = Some msg \<Longrightarrow> dl_attempt a e msg = Some t \<Longrightarrow> soft (dl_state msg) t (f t)"
    and "am_like (change_message i (change_attempt a e f) m) m'"
  shows "am_ok F (finalize now i m')"
proof (rule ok_change_finalize[OF assms(1) _ assms(3)])
  fix msg
  assume msg: "am_delivery i m = Some msg" "core (am_limits m) msg"
  have "list_all2 (soft (dl_state msg)) (dl_attempts msg) (change_first (is_attempt a e) f (dl_attempts msg))"
    by (rule change_first_soft) (use assms(2)[OF msg(1)] in \<open>simp add: dl_attempt_def\<close>)
  from core_soft[OF msg(2) this] show "core (am_limits m) (change_attempt a e f msg) \<and>
     (settled_ok msg \<longrightarrow> settled_ok (change_attempt a e f msg)) \<and>
     unreclaimed (dl_attempts (change_attempt a e f msg)) = unreclaimed (dl_attempts msg) \<and>
     dl_offer (change_attempt a e f msg) = dl_offer msg \<and>
     (ds_terminal (dl_state msg) \<longrightarrow> dl_state (change_attempt a e f msg) = dl_state msg)"
    by (simp add: change_attempt_def)
qed

lemma soft_commit: "soft st t (commit_attempt t)"
  by (auto simp: soft_def commit_attempt_def attempt_ok_def quiet_def stage_is_final_def)

lemma current_change_other:
  assumes "a \<noteq> n"
  shows "filter (\<lambda>t. tp_a t = n) (change_first (is_attempt a e) commit_attempt ts) = filter (\<lambda>t. tp_a t = n) ts"
  using assms by (induction ts) (auto simp: is_attempt_def commit_attempt_def)

lemma ok_commit_other:
  assumes "am_ok F m" "\<not> am_exited m" "am_delivery i m = Some msg" "a \<noteq> dl_a msg"
  shows "am_ok F (change_message i (change_attempt a e commit_attempt) m)"
proof -
  let ?msg' = "change_attempt a e commit_attempt msg"
  have "list_all2 (soft (dl_state msg)) (dl_attempts msg) (change_first (is_attempt a e) commit_attempt (dl_attempts msg))"
    by (rule change_first_soft) (rule soft_commit)
  note soft = core_soft[OF am_preD(1)[OF assms(1,3)] this]
  have cur: "current_attempts ?msg' = current_attempts msg"
    using current_change_other[OF assms(4)] by (simp add: current_attempts_def change_attempt_def)
  have "settled_ok msg" "decided msg" using am_preD(2,3)[OF assms(1,3,2)] by simp_all
  moreover have ended: "ended_ok (snd F i) ?msg'" using ended_ok_same[OF am_preD(4)[OF assms(1,3)]] by (simp add: change_attempt_def)
  ultimately have "settled_ok ?msg' \<and> decided ?msg'"
    unfolding settled_ok_def decided_def committed_now_def cur by (simp_all add: change_attempt_def)
  moreover have "bt_modify i (change_attempt a e commit_attempt) (am_messages m) = bt_modify i (\<lambda>_. ?msg') (am_messages m)"
    by (rule bt_modify_cong[OF am_pre_distinct[OF assms(1)]]) (use assms(3) in \<open>simp_all add: am_delivery_def\<close>)
  moreover have "am_evidence_reserved m \<le> al_evidence_limit (am_limits m)" using assms(1) by (simp add: am_pre_def)
  ultimately show ?thesis
    using soft assms(2) ended
    by (intro pre_change[OF am_ok_pre[OF assms(1)] assms(3), of ?msg']) (simp_all add: change_attempt_def change_message_def)
qed

lemma ok_stage_committed:
  assumes "am_ok F m" "\<not> am_exited m" "am_delivery i m = Some msg"
  shows "am_ok F (fst (stage_committed now i a e msg t m))"
proof -
  let ?m1 = "change_message i (change_attempt a e commit_attempt) m"
  let ?m2 = "if tp_stage t = SgNotHanded \<or> a \<noteq> dl_a msg then push_effect (EfWitnessViolation i a e) ?m1 else ?m1"
  have like: "am_like ?m1 ?m2" by simp
  have ended: "am_ok F (finalize now i ?m2)"
    by (rule ok_change_attempt_finalize[OF assms(1) _ like]) (rule soft_commit)
  have other: "am_ok F (reclaim i (push_effect (EfAlsoReachedOldWorker i a) ?m2))" if "a \<noteq> dl_a msg"
  proof (rule reclaim_ok)
    show "am_ok F (push_effect (EfAlsoReachedOldWorker i a) ?m2)"
      using am_like_ok[OF am_like_trans[OF like like_push_effect] ok_commit_other[OF assms that]] .
  qed (use assms(2) in \<open>simp_all add: push_effect_def change_message_def\<close>)
  show ?thesis
    unfolding stage_committed_def Let_def
    by (cases "tp_stage t = SgCommitted"; cases "a = dl_a msg") (use assms(1) ended other in \<open>simp_all split del: if_split\<close>)
qed

lemma milder_soft: "milder t t' \<Longrightarrow> soft st t t'"
  by (auto simp: milder_def soft_def attempt_ok_def)

lemma ok_stage:
  assumes "am_ok F m"
  shows "am_ok F (fst (am_stage now i a e s reporter m))"
proof -
  have applied: "am_ok F (finalize now i (change_message i (change_attempt a e
       (\<lambda>t. if s1 = SgHandedInert then t\<lparr>tp_stage := s1, tp_verifier := True\<rparr> else t\<lparr>tp_stage := s1\<rparr>)) m))"
    if "am_delivery i m = Some msg" "dl_attempt a e msg = Some t" "stage_rank (tp_stage t) < stage_rank s"
      "s1 = applied_stage s slot" "s \<noteq> SgCommitted" for msg t s1 slot
  proof (rule ok_change_attempt_finalize[OF assms _ am_like_refl])
    fix msg' t'
    assume "am_delivery i m = Some msg'" "dl_attempt a e msg' = Some t'"
    with that(1-3) have "stage_rank (tp_stage t') < 2" by (cases s) auto
    then have "\<not> stage_is_final (tp_stage t')" by (cases "tp_stage t'") (simp_all add: stage_is_final_def)
    with that(4,5) show "soft (dl_state msg') t' (if s1 = SgHandedInert then t'\<lparr>tp_stage := s1, tp_verifier := True\<rparr> else t'\<lparr>tp_stage := s1\<rparr>)"
      by (auto simp: soft_def attempt_ok_def quiet_def stage_is_final_def applied_stage_def)
  qed
  show ?thesis
    unfolding am_stage_def Let_def
    using assms ok_stage_committed[OF assms] applied
    by (simp add: not_le split: option.split)
qed

section \<open>Resuming\<close>

lemma milder_rebind: "tp_resume_pending t \<Longrightarrow> milder t (rebind now x d (answered t))"
  by (auto simp: milder_def quiet_def rebind_def answered_def regained_def recheck_def Let_def)

lemma soft_fence: "tp_resume_pending t \<Longrightarrow> soft st t (fence (answered t))"
  by (auto simp: soft_def attempt_ok_def quiet_def fence_def answered_def regained_def recheck_def)

lemma soft_not_handed: "tp_resume_pending t \<Longrightarrow> soft st t (answered t\<lparr>tp_stage := SgNotHanded\<rparr>)"
  by (auto simp: soft_def attempt_ok_def quiet_def answered_def)

lemma ok_resume_answer:
  assumes "am_ok F m"
  shows "am_ok F (fst (resume_answer now x i a e answer m))"
proof (cases "attempt_of i a e m")
  case None
  with assms show ?thesis by (simp add: resume_answer_def split: option.split)
next
  case (Some t)
  show ?thesis
  proof (cases "tp_resume_pending t")
    case False
    with Some assms show ?thesis by (simp add: resume_answer_def split: option.split)
  next
    case True
    note go = ok_change_attempt_finalize[OF assms]
    have t: "tp_resume_pending u" if "am_delivery i m = Some msg" "dl_attempt a e msg = Some u" for msg u
      using that Some True by (simp add: attempt_of_def)
    have retained: "am_ok F (finalize now i (if b then push_effect ef m2 else m2))"
      if "m2 = change_message i (change_attempt a e (\<lambda>t. rebind now x d (answered t))) (m\<lparr>am_receivers := rs\<rparr>)"
      for b ef m2 d rs
    proof (rule go[of i a e "\<lambda>t. rebind now x d (answered t)"])
      show "am_like (change_message i (change_attempt a e (\<lambda>t. rebind now x d (answered t))) m) (if b then push_effect ef m2 else m2)"
        unfolding that by (rule like_same) (simp_all add: change_message_def push_effect_def)
    qed (use t milder_rebind milder_soft in blast)
    have not_handed: "am_ok F (finalize now i (change_message i (change_attempt a e
        (\<lambda>t. if b then answered t\<lparr>tp_stage := SgNotHanded\<rparr> else fence (answered t))) m))" for b
      by (rule go[OF _ am_like_refl]) (use t soft_fence soft_not_handed in auto)
    have unknown: "am_ok F (finalize now i (change_message i (change_attempt a e (\<lambda>t. fence (answered t))) m))"
      by (rule go[OF _ am_like_refl]) (use t soft_fence in auto)
    show ?thesis
      using assms Some retained not_handed unknown
      by (simp add: resume_answer_def Let_def split: option.split resume_ans.split)
  qed
qed

section \<open>The clock\<close>

lemma ok_clear_one: "am_ok F m \<Longrightarrow> am_ok F (clear_one now m check)"
proof -
  assume ok: "am_ok F m"
  have "am_ok F (change_message (lc_id check) (change_attempt (lc_a check) (lc_e check) (\<lambda>t. t\<lparr>tp_cleared := True\<rparr>)) m)"
    by (rule am_like_ok[OF like_change_attempt_milder[OF ok] ok]) (auto simp: milder_def quiet_def)
  with ok show ?thesis by (simp add: clear_one_def split: option.split)
qed

lemma ok_note_held_long: "am_ok F m \<Longrightarrow> am_ok F (note_held_long now i m)"
proof -
  assume ok: "am_ok F m"
  have "am_like m (change_message i (\<lambda>msg. msg\<lparr>dl_held_long_sent := Some (dl_revision msg)\<rparr>) m)"
    by (rule like_change_message[OF _ am_pre_distinct[OF ok]]) (simp add: msg_like_def)
  from am_like_ok[OF am_like_trans[OF this like_push_effect] ok] ok show ?thesis
    by (simp add: note_held_long_def split: option.split)
qed

lemma ok_tick_message:
  assumes "am_ok F m"
  shows "am_ok F (tick_message now m i)"
  unfolding tick_message_def
proof (intro ok_note_held_long ok_change_finalize[OF assms _ am_like_refl])
  fix msg
  assume "core (am_limits m) msg"
  moreover have "list_all2 (soft (dl_state msg)) (dl_attempts msg)
      (map (\<lambda>t. if resume_over now t then fence (answered t) else t) (dl_attempts msg))"
    using soft_fence by (auto simp: list.rel_map list_all2_same resume_over_def milder_soft)
  ultimately show "core (am_limits m) (silence now msg) \<and> (settled_ok msg \<longrightarrow> settled_ok (silence now msg))
      \<and> unreclaimed (dl_attempts (silence now msg)) = unreclaimed (dl_attempts msg)
      \<and> dl_offer (silence now msg) = dl_offer msg \<and> (ds_terminal (dl_state msg) \<longrightarrow> dl_state (silence now msg) = dl_state msg)"
    using core_soft by (simp add: silence_def)
qed

lemma ok_revokes_due: "am_ok F m \<Longrightarrow> am_ok F (revokes_due now m)"
proof -
  assume ok: "am_ok F m"
  let ?m1 = "map_attempts (\<lambda>_ t. if revoke_again (am_limits m) now t then t\<lparr>tp_revoke_sent := Some now\<rparr> else t) m"
  have "am_like m ?m1" by (rule like_map_attempts) (auto simp: milder_def quiet_def)
  moreover have "am_like ?m1 (?m1\<lparr>am_effects := efs\<rparr>)" for efs by (simp add: like_same)
  ultimately have "am_ok F (?m1\<lparr>am_effects := efs\<rparr>)" for efs using am_like_ok[OF _ ok] am_like_trans by blast
  with ok show ?thesis by (simp add: revokes_due_def)
qed

lemma ok_tick_cleared: "am_ok F m \<Longrightarrow> am_ok F (tick_cleared now cleared m)"
proof -
  assume ok: "am_ok F m"
  let ?m1 = "staging_lapsed now (retire_closed now (expire_holds now (foldl (clear_one now) m cleared)))"
  have "am_ok F (foldl (clear_one now) m cleared)" by (rule ok_foldl[of "am_ok F"]) (auto intro: ok_clear_one ok)
  then have "am_ok F ?m1" by (intro ok_staging_lapsed ok_retire_closed ok_expire_holds)
  then have "am_ok F (foldl (tick_message now) ?m1 (map fst (am_messages ?m1)))"
    by (rule ok_foldl[of "am_ok F", rotated]) (rule ok_tick_message)
  with ok show ?thesis by (simp add: tick_cleared_def Let_def ok_revokes_due)
qed

lemma ok_tick: "am_ok F m \<Longrightarrow> am_ok F (am_tick now m)"
  by (simp add: am_tick_def Let_def ok_tick_cleared ok_expire_holds)

lemma ok_note_turn: "am_ok F m \<Longrightarrow> am_ok F (note_turn now turn m)"
proof -
  assume ok: "am_ok F m"
  have "am_like m (m\<lparr>am_messages := map (\<lambda>(i, msg). (i, msg\<lparr>dl_not_started := f i msg\<rparr>)) (am_messages m)\<rparr>)" for f
    by (auto simp: am_like_def list.rel_map list_all2_same msg_like_def)
  from am_like_ok[OF this ok] ok show ?thesis by (simp add: note_turn_def)
qed

lemma ok_tick_turn: "am_ok F m \<Longrightarrow> am_ok F (tick_turn now cleared turn m)"
  by (simp add: tick_turn_def ok_note_turn ok_tick_cleared ok_turn_to)

section \<open>The user's actions and the generation's end\<close>

lemma ok_remember: "am_ok F m \<Longrightarrow> am_ok F (fst (remember_action revision v i m))"
proof -
  assume ok: "am_ok F m"
  have "am_like m (change_message i (\<lambda>msg. msg\<lparr>dl_last_action := Some (revision, v, AoApplied (dl_revision msg))\<rparr>) m)"
    by (rule like_change_message[OF _ am_pre_distinct[OF ok]]) (simp add: msg_like_def)
  from am_like_ok[OF this ok] ok show ?thesis by (simp add: remember_action_def split: option.split)
qed

lemma retry_core:
  assumes "core l msg" "may_retry msg"
  shows "core l (retry_message msg) \<and> settled_ok (retry_message msg)
    \<and> unreclaimed (dl_attempts (retry_message msg)) = unreclaimed (dl_attempts msg)
    \<and> dl_offer (retry_message msg) = dl_offer msg \<and> \<not> ds_terminal (dl_state msg)"
proof -
  let ?msg' = "retry_message msg"
  have st: "dl_state ?msg' = DsAttempting" "dl_attempts ?msg' = dl_attempts msg" "dl_a ?msg' = dl_a msg"
    by (simp_all add: retry_message_def Let_def)
  have nonterm: "\<not> ds_terminal (dl_state msg)" "current_attempts msg \<noteq> []"
    using assms by (auto simp: may_retry_def core_def elim: ds_uncertain.elims)
  have "core l ?msg'"
    by (rule core_keep[OF assms(1)])
      (use st nonterm current_same(1)[OF st(2,3)] in \<open>auto simp: retry_message_def Let_def\<close>)
  with st nonterm show ?thesis by (simp add: settled_ok_def retry_message_def Let_def)
qed

lemma cancel_core:
  assumes "core l msg" "\<not> ds_terminal (dl_state msg)" "msg' = fst (cancel_message now i msg)"
  shows "core l msg' \<and> settled_ok msg' \<and> unreclaimed (dl_attempts msg') = unreclaimed (dl_attempts msg)
    \<and> dl_offer msg' = dl_offer msg"
proof -
  let ?msg1 = "msg\<lparr>dl_latch := True, dl_token := None, dl_revision := dl_revision msg + 1\<rparr>"
  have mild: "list_all2 milder (dl_attempts msg) (dl_attempts msg')"
    using revoke_open_milder[of ?msg1 now i "\<lambda>t. tp_a t = dl_a msg"] assms(3) by (simp add: cancel_message_def)
  have same: "dl_state msg' = dl_state msg" "dl_a msg' = dl_a msg" "dl_issued msg' = dl_issued msg"
    "dl_auto_repeats msg' = dl_auto_repeats msg" "dl_token msg' = None" "dl_offer msg' = dl_offer msg"
    using assms(3) by (simp_all add: cancel_message_def)
  have "(current_attempts msg' = []) = (current_attempts msg = [])"
    using milder_committed(3)[OF list_all2_milder_maps(8)[OF mild, of "dl_a msg"]] same(2) by (simp add: current_attempts_def)
  then have "core l msg'"
    using assms(1) by (intro core_keep[OF assms(1) mild]) (auto simp: same core_def)
  with assms(2) same(1,6) show ?thesis using list_all2_milder_maps(5)[OF mild] by (auto simp: settled_ok_def)
qed

lemma ok_act_now:
  assumes "am_ok F m" "am_delivery i m = Some msg"
  shows "am_ok F (fst (act_now now i revision v msg m))"
proof -
  have retry: "am_ok F (finalize now i (change_message i retry_message m))" if "may_retry msg"
    by (rule ok_change_finalize[OF assms(1) _ am_like_refl]) (use retry_core that assms(2) in auto)
  have cancel: "am_ok F (finalize now i ((change_message i (\<lambda>_. fst (cancel_message now i msg)) m)\<lparr>am_effects := efs\<rparr>))"
    if "\<not> ds_terminal (dl_state msg)" for efs
    by (rule ok_change_finalize[OF assms(1), of i "\<lambda>_. fst (cancel_message now i msg)"])
      (use cancel_core that assms(2) in \<open>auto simp: like_same\<close>)
  show ?thesis
    using assms(1) ok_remember retry cancel
    by (simp add: act_now_def case_prod_beta split: verb.split)
qed

lemma ok_action: "am_ok F m \<Longrightarrow> am_ok F (fst (am_action now i generation revision v m))"
  by (simp add: am_action_def ok_act_now split: option.split)

lemma exit_message_ok:
  assumes "core l msg" "ended_ok f msg"
  shows "core l (exit_message msg)" "ended_ok f (exit_message msg)"
proof -
  let ?msg' = "exit_message msg"
  have st: "dl_attempts ?msg' = map exit_attempt (dl_attempts msg)" "dl_a ?msg' = dl_a msg" "dl_token ?msg' = None"
    "dl_issued ?msg' = dl_issued msg" "dl_auto_repeats ?msg' = dl_auto_repeats msg" "dl_offer ?msg' = dl_offer msg"
    "ds_terminal (dl_state ?msg')" "ds_terminal (dl_state msg) \<longrightarrow> dl_state ?msg' = dl_state msg"
    by (simp_all add: exit_message_def Let_def)
  have same: "tp_e (exit_attempt t) = tp_e t" "tp_a (exit_attempt t) = tp_a t" "tp_kind (exit_attempt t) = tp_kind t"
    "attempt_ok (dl_state ?msg') (exit_attempt t)" for t
    using st(7) by (simp_all add: exit_attempt_def Let_def attempt_ok_def quiet_def stage_is_final_def)
  have "map tp_e (dl_attempts ?msg') = map tp_e (dl_attempts msg)"
    "length (filter (\<lambda>t. tp_kind t = IkAutoRepeat) (dl_attempts ?msg')) = length (filter (\<lambda>t. tp_kind t = IkAutoRepeat) (dl_attempts msg))"
    by (simp_all add: st(1) same filter_map o_def)
  moreover have "\<not> ds_uncertain (dl_state ?msg')" "dl_state ?msg' \<noteq> DsAttempting" using st(7) by (auto elim: ds_uncertain.elims)
  ultimately show "core l ?msg'" using assms(1) unfolding core_def by (auto simp: st same)
  show "ended_ok f ?msg'" using ended_ok_same[OF assms(2)] st(6,8) by blast
qed

lemma ok_exit:
  assumes "am_ok F m"
  shows "am_ok F (am_exit m)"
proof -
  have "core (am_limits m) msg \<and> ended_ok (snd F j) msg" if "(j, msg) \<in> set (am_messages (am_exit m))" for j msg
    using that assms exit_message_ok by (fastforce simp: am_exit_def am_pre_def)
  moreover have "map fst (am_messages (am_exit m)) = map fst (am_messages m)"
    by (simp add: am_exit_def case_prod_beta o_def)
  moreover have "am_exited (am_exit m)" "am_evidence_reserved (am_exit m) = 0" "am_limits (am_exit m) = am_limits m"
    by (simp_all add: am_exit_def)
  ultimately show ?thesis using assms unfolding am_pre_def by auto
qed

section \<open>Steps\<close>

text \<open>One call on the model, with the arguments a caller may give it.\<close>

inductive attempt_step :: "attempt_model \<Rightarrow> attempt_model \<Rightarrow> bool" where
  step_post: "attempt_step m (am_post i off m)"
| step_drain: "attempt_step m (fst (drain_effects m))"
| step_register: "attempt_step m (fst (am_register now s queue_survived m))"
| step_issue: "attempt_step m (fst (am_issue now i x m))"
| step_stage: "attempt_step m (fst (am_stage now i a e s reporter m))"
| step_withhold: "attempt_step m (withhold now i a e m)"
| step_deck_not_handed: "attempt_step m (fst (deck_not_handed now i a e x m))"
| step_expire_staging: "attempt_step m (expire_staging now m)"
| step_released: "attempt_step m (released now i a e handed_over m)"
| step_snapshot: "attempt_step m (fst (am_snapshot now x seq seen held m))"
| step_tick_verified: "attempt_step m (tick_verified verified m)"
| step_forget: "attempt_step m (fst (am_forget i m))"
| step_connection_closed: "attempt_step m (connection_closed now x m)"
| step_stream_closed: "attempt_step m (stream_closed now x m)"
| step_resume: "attempt_step m (fst (resume_answer now x i a e answer m))"
| step_turn_to: "attempt_step m (am_turn_to now view m)"
| step_tick: "attempt_step m (am_tick now m)"
| step_tick_cleared: "attempt_step m (tick_cleared now cleared m)"
| step_tick_turn: "attempt_step m (tick_turn now cleared turn m)"
| step_retry: "attempt_step m (fst (am_retry now i generation revision m))"
| step_cancel: "attempt_step m (fst (am_cancel now i generation revision m))"
| step_note_turn: "attempt_step m (note_turn now turn m)"
| step_revokes_due: "attempt_step m (revokes_due now m)"
| step_finalize: "attempt_step m (finalize now i m)"
| step_exit: "attempt_step m (am_exit m)"

lemma step_keeps:
  assumes "attempt_step m m'" "am_ok F m" "\<And>i. am_delivery i m = None \<Longrightarrow> snd F i = None"
  shows "am_ok F m'"
  using assms(1)
proof cases
  case step_drain
  have "am_like m (fst (drain_effects m))" by (simp add: drain_effects_def like_same)
  then show ?thesis using step_drain assms(2) am_like_ok by blast
next
  case (step_post i off)
  then show ?thesis using ok_post[OF assms(2,3)] by blast
qed (use assms(2) in \<open>auto simp: am_retry_def am_cancel_def intro: ok_register ok_issue ok_stage ok_withhold ok_deck_not_handed
  ok_expire_staging ok_released ok_snapshot ok_tick_verified ok_forget ok_connection_closed ok_stream_closed ok_resume_answer
  ok_turn_to ok_tick ok_tick_cleared ok_tick_turn ok_action ok_note_turn ok_revokes_due
  finalize_ok[OF am_ok_pre] ok_exit\<close>)

lemma ok_new: "fst F = limits \<Longrightarrow> am_ok F (attempt_model_new limits generation)"
  by (simp add: am_pre_def attempt_model_new_def evidence_held_def)

interpretation att: step_invariant "\<lambda>m. \<exists>generation. m = attempt_model_new limits generation" attempt_step "am_ok (limits, \<lambda>_. None)"
  for limits
  by unfold_locales (auto intro: ok_new step_keeps)

end
