(* ===== verification/Attempt_Props.thy ===== *)
theory Attempt_Props
  imports Attempt_Steps
begin

text \<open>
  What the delivery model promises in every state a generation can reach, from a new model by any calls in
  any order: the budgets of a message and of the generation, the shape of its records, that an end stays an
  end, what a hand-out rests on, and that the clock leaves no message waiting for nothing.
\<close>

section \<open>Every reachable model\<close>

lemma reachable_ok:
  "attempt_step\<^sup>*\<^sup>* (attempt_model_new limits generation) m \<Longrightarrow> am_ok (limits, \<lambda>_. None) m"
  using att.reachable_inv by blast

lemma reachable_limits:
  "attempt_step\<^sup>*\<^sup>* (attempt_model_new limits generation) m \<Longrightarrow> am_limits m = limits"
  using reachable_ok[of limits generation m] by (simp add: am_pre_def)

lemma ended_ok_own:
  assumes "am_ok (limits, \<lambda>_. None) m"
  shows "am_ok (limits, \<lambda>i. am_state i m) m"
proof -
  have "ended_ok (am_state j m) msg" if "(j, msg) \<in> set (am_messages m)" for j msg
    using that am_pre_distinct[OF assms] by (simp add: ended_ok_def am_state_def am_delivery_def)
  with assms show ?thesis unfolding am_pre_def by auto
qed

text \<open>A small run the witnesses share: a receiver, a message, and its first attempt.\<close>

definition run_start :: attempt_model where
  "run_start = am_post ''m1'' False (fst (am_register 0 PiSlot False (attempt_model_new default_attempt_limits 7)))"

definition run_issued :: attempt_model where
  "run_issued = fst (am_issue 10 ''m1'' 1 run_start)"

definition run_committed :: attempt_model where
  "run_committed = fst (am_stage 20 ''m1'' 1 1 SgCommitted None run_issued)"

lemma run_reachable:
  "attempt_step\<^sup>*\<^sup>* (attempt_model_new default_attempt_limits 7) run_start"
  "attempt_step\<^sup>*\<^sup>* (attempt_model_new default_attempt_limits 7) run_issued"
  "attempt_step\<^sup>*\<^sup>* (attempt_model_new default_attempt_limits 7) run_committed"
proof -
  have "attempt_step\<^sup>*\<^sup>* (attempt_model_new default_attempt_limits 7) (fst (am_register 0 PiSlot False (attempt_model_new default_attempt_limits 7)))"
    by (rule r_into_rtranclp) (rule step_register)
  then show 1: "attempt_step\<^sup>*\<^sup>* (attempt_model_new default_attempt_limits 7) run_start"
    unfolding run_start_def by (rule rtranclp.rtrancl_into_rtrancl) (rule step_post)
  show 2: "attempt_step\<^sup>*\<^sup>* (attempt_model_new default_attempt_limits 7) run_issued"
    unfolding run_issued_def by (rule rtranclp.rtrancl_into_rtrancl[OF 1]) (rule step_issue)
  show "attempt_step\<^sup>*\<^sup>* (attempt_model_new default_attempt_limits 7) run_committed"
    unfolding run_committed_def by (rule rtranclp.rtrancl_into_rtrancl[OF 2]) (rule step_stage)
qed

lemmas limit_eval = default_attempt_limits_def MAX_ATTEMPTS_def MAX_AUTO_REPEATS_def DEFAULT_EVIDENCE_LIMIT_def
  EVIDENCE_PER_ATTEMPT_def DEFAULT_KEEPALIVE_def KEEPALIVES_PER_POSSESS_TTL_def from_secs_def

lemmas step_eval = am_post_def am_register_def attempt_model_new_def Let_def one_shot_def receiver_new_def bt_insert_def
  attempts_where_def map_attempts_def finalize_all_def finalize_ids_def am_delivery_def may_correct_def turn_view_default_def
  am_issue_def am_live_def delivery_new_def issue_kind_for_def bt_modify_def change_message_def hand_out_def attempt_new_def
  finalize_def final_facts_of_def current_attempts_def held_now_def possessed_def once_held_def is_stream_def snapshot_holds_def
  final_rules_def rule_possessed_def set_state_def anchor_not_started_def reclaim_def reclaim_due_def stage_is_final_def
  needs_clearance_def am_stage_def dl_attempt_def is_attempt_def stage_committed_def change_attempt_def commit_attempt_def
  rule_committed_def rule_settle_def revoke_open_def push_effect_def

lemma run_start_eq:
  "run_start = (attempt_model_new default_attempt_limits 7)
     \<lparr>am_receivers := [(1, receiver_new 0 PiSlot False default_attempt_limits)],
      am_slots := (\<lambda>_. None)(PiSlot := Some 1), am_next_rx := 2, am_seen_slots := {PiSlot},
      am_messages := [(''m1'', delivery_new False 1)]\<rparr>"
  by (simp add: run_start_def step_eval limit_eval)

lemma run_issued_eq:
  "run_issued = (attempt_model_new default_attempt_limits 7)
     \<lparr>am_receivers := [(1, (receiver_new 0 PiSlot False default_attempt_limits)\<lparr>rv_next_d := 1\<rparr>)],
      am_slots := (\<lambda>_. None)(PiSlot := Some 1), am_next_rx := 2, am_seen_slots := {PiSlot}, am_evidence_reserved := 5,
      am_messages := [(''m1'', (delivery_new False 1)\<lparr>dl_state := DsAttempting, dl_revision := 1, dl_issued := 1,
        dl_attempts := [attempt_new 1 1 1 1 IkFirst 10 PiSlot], dl_possessed_since := Some 10\<rparr>)]\<rparr>"
  by (simp add: run_issued_def run_start_eq step_eval limit_eval)

lemma run_issued_eval:
  "am_delivery ''m1'' run_issued = Some ((delivery_new False 1)\<lparr>dl_state := DsAttempting, dl_revision := 1, dl_issued := 1,
     dl_attempts := [attempt_new 1 1 1 1 IkFirst 10 PiSlot], dl_possessed_since := Some 10\<rparr>)"
  by (simp add: run_issued_eq am_delivery_def)

lemma run_committed_eval:
  "map_option dl_state (am_delivery ''m1'' run_committed) = Some DsSettled" "am_exited run_committed = False"
  "am_delivery ''m1'' run_committed \<noteq> None"
  by (simp_all add: run_committed_def run_issued_eq step_eval limit_eval)

section \<open>Budgets and shape\<close>

text \<open>
  C18: delivery is paid for within its budgets. In every model a generation can reach, a message was handed out
  exactly as often as it has attempts, at most \<^verbatim>\<open>max_attempts\<close> times, of which at most
  \<^verbatim>\<open>max_auto_repeats\<close> were the deck's own repeats. While the generation lives the evidence reserved is five records for each
  attempt that is not reclaimed, over all messages, and it never exceeds the generation's limit; once the
  generation is over nothing is reserved.
\<close>

theorem attempt_budgets:
  assumes "attempt_step\<^sup>*\<^sup>* (attempt_model_new limits generation) m"
  shows "(\<forall>i msg. am_delivery i m = Some msg \<longrightarrow>
        dl_issued msg = length (dl_attempts msg) \<and> length (dl_attempts msg) \<le> al_max_attempts limits
        \<and> length (filter (\<lambda>t. tp_kind t = IkAutoRepeat) (dl_attempts msg)) \<le> al_max_auto_repeats limits)
    \<and> am_evidence_reserved m =
        (if am_exited m then 0
         else 5 * sum_list (map (\<lambda>e. length (filter (\<lambda>t. \<not> tp_reclaimed t) (dl_attempts (snd e)))) (am_messages m)))
    \<and> am_evidence_reserved m \<le> al_evidence_limit limits"
proof -
  note ok = reachable_ok[OF assms]
  have "dl_issued msg = length (dl_attempts msg) \<and> length (dl_attempts msg) \<le> al_max_attempts limits
      \<and> length (filter (\<lambda>t. tp_kind t = IkAutoRepeat) (dl_attempts msg)) \<le> al_max_auto_repeats limits"
    if "am_delivery i m = Some msg" for i msg
    using am_preD(1)[OF ok that] reachable_limits[OF assms] by (auto simp: core_def)
  with ok reachable_limits[OF assms] show ?thesis
    by (auto simp: am_pre_def evidence_held_def unreclaimed_def EVIDENCE_PER_ATTEMPT_def)
qed

theorem attempt_budgets_witness:
  "am_evidence_reserved run_issued = 5 \<and> am_evidence_reserved run_issued \<le> al_evidence_limit default_attempt_limits"
proof -
  have "am_messages run_issued = [(''m1'', the (am_delivery ''m1'' run_issued))]" "\<not> am_exited run_issued"
    by (simp_all add: run_issued_eq am_delivery_def attempt_model_new_def)
  then show ?thesis using attempt_budgets[OF run_reachable(2)] by (simp add: run_issued_eval attempt_new_def)
qed

text \<open>
  C20: the records of a delivery model are always in order. Messages are kept under distinct ids in ascending
  order. The attempts of a message are numbered from one without a gap, in the order they were handed out,
  and belong to its current assignment or an earlier one. A message being tried, or of unknown outcome, has
  an attempt in its current assignment; a repeat is scheduled only while it is being tried, for the current
  assignment. An attempt whose evidence was given back is finished, owes no answer and no check, and its
  message has ended.
\<close>

theorem attempt_records_ordered:
  assumes "attempt_step\<^sup>*\<^sup>* (attempt_model_new limits generation) m"
  shows "sorted_wrt (<) (map fst (am_messages m))
    \<and> (\<forall>i msg. am_delivery i m = Some msg \<longrightarrow>
         map tp_e (dl_attempts msg) = [1..<length (dl_attempts msg) + 1]
         \<and> (\<forall>t \<in> set (dl_attempts msg). tp_a t \<le> dl_a msg
              \<and> (tp_reclaimed t \<longrightarrow> ds_terminal (dl_state msg) \<and> stage_is_final (tp_stage t) \<and> \<not> tp_resume_pending t \<and> \<not> tp_verifier t))
         \<and> (dl_state msg = DsAttempting \<or> ds_uncertain (dl_state msg) \<longrightarrow> current_attempts msg \<noteq> [])
         \<and> (\<forall>token. dl_token msg = Some token \<longrightarrow> dl_state msg = DsAttempting \<and> rt_a token = dl_a msg))"
proof -
  note ok = reachable_ok[OF assms]
  have "core limits msg" if "am_delivery i m = Some msg" for i msg
    using am_preD(1)[OF ok that] reachable_limits[OF assms] by simp
  moreover have "sorted_wrt (<) (map fst (am_messages m))" using ok by (simp add: am_pre_def)
  ultimately show ?thesis by (fastforce simp: core_def attempt_ok_def quiet_def)
qed

theorem attempt_records_ordered_witness:
  "\<exists>msg. am_delivery ''m1'' run_issued = Some msg \<and> map tp_e (dl_attempts msg) = [1]"
  using attempt_records_ordered[OF run_reachable(2)] by (auto simp: run_issued_eval attempt_new_def)

section \<open>Ends\<close>

text \<open>
  C12: an end stays an end. In a generation whatever call comes next, a message that ended (delivered,
  cancelled, out of deliveries, or the agent gone) keeps its state for as long as the model knows it, with
  one exception: a message addressed to one agent that was given up as undeliverable, and that a late
  report shows committed, becomes delivered. An offer never does.
\<close>

theorem ended_stays_ended:
  assumes "attempt_step\<^sup>*\<^sup>* (attempt_model_new limits generation) m" "attempt_step m m'"
    "am_delivery i m = Some msg" "ds_terminal (dl_state msg)" "am_delivery i m' = Some msg'"
  shows "dl_state msg' = dl_state msg
    \<or> (dl_state msg = DsUndeliverable UdMaxDeliver \<and> \<not> dl_offer msg' \<and> dl_state msg' = DsSettled)"
proof -
  have "am_ok (limits, \<lambda>i. am_state i m) m'"
    by (rule step_keeps[OF assms(2) ended_ok_own[OF reachable_ok[OF assms(1)]]]) (simp add: am_state_def)
  from am_preD(4)[OF this assms(5)] assms(3,4) show ?thesis by (auto simp: ended_ok_def am_state_def)
qed

theorem ended_stays_ended_witness:
  "map_option dl_state (am_delivery ''m1'' (am_exit run_committed)) = Some DsSettled"
proof -
  obtain msg where msg: "am_delivery ''m1'' run_committed = Some msg" "dl_state msg = DsSettled"
    using run_committed_eval by auto
  then have "am_delivery ''m1'' (am_exit run_committed) = Some (exit_message msg)"
    by (simp add: am_exit_def am_delivery_def map_of_map case_prod_beta)
  with ended_stays_ended[OF run_reachable(3) step_exit msg(1)] msg(2) show ?thesis by simp
qed

text \<open>
  C19: what a message's state says of its attempts. While the generation lives, a message is called delivered
  only when an attempt of its current assignment was committed, and a committed one means that the message
  has ended. A queued message has nothing out: every attempt of its current assignment was not handed over.
  A cancelled message is over, or is held until its attempts are, and no other message is held so.
\<close>

theorem state_matches_attempts:
  assumes "attempt_step\<^sup>*\<^sup>* (attempt_model_new limits generation) m" "\<not> am_exited m" "am_delivery i m = Some msg"
  shows "(dl_state msg = DsSettled \<longrightarrow> (\<exists>t \<in> set (current_attempts msg). tp_stage t = SgCommitted))
    \<and> ((\<exists>t \<in> set (current_attempts msg). tp_stage t = SgCommitted) \<longrightarrow> ds_terminal (dl_state msg))
    \<and> (dl_state msg = DsQueued \<longrightarrow> (\<forall>t \<in> set (current_attempts msg). tp_stage t = SgNotHanded))
    \<and> (dl_latch msg \<longrightarrow> ds_terminal (dl_state msg) \<or> dl_state msg = DsCancelHeld)
    \<and> (dl_state msg = DsCancelHeld \<longrightarrow> dl_latch msg)"
  using am_preD(2,3)[OF reachable_ok[OF assms(1)] assms(3,2)]
  unfolding settled_ok_def decided_def committed_now_def list_ex_iff list_all_iff by blast

theorem state_matches_attempts_witness:
  "\<exists>msg. am_delivery ''m1'' run_committed = Some msg \<and> (\<exists>t \<in> set (current_attempts msg). tp_stage t = SgCommitted)"
  using state_matches_attempts[OF run_reachable(3)] run_committed_eval by auto

section \<open>Handing out\<close>

lemma issue_taken:
  assumes "am_issue now i x m = (m', Inr r)"
  obtains msg where "am_delivery i m = Some msg" "\<not> am_exited m" "am_live x m" "\<not> ds_terminal (dl_state msg)" "\<not> dl_latch msg"
    "issue_kind_for m i msg now = Inr (is_kind r)" "is_a r = dl_a msg" "is_e r = length (dl_attempts msg) + 1"
  using assms that by (auto simp: am_issue_def Let_def split: option.splits if_splits sum.splits)

text \<open>
  C11: a message is not handed out twice without saying so. When the model hands a message to a receiver, the
  receiver is live, the message is neither over nor cancelled, no attempt of its assignment was committed,
  and the attempt's number is new. An unmarked hand-out, a first one or a requeue, is made only when every
  earlier attempt of the assignment is known not to have been handed over. The deck's own repeat is made
  only when no earlier attempt is held by its receiver or awaits a successor's answer, and each that could
  have left something in the agent's spool was checked against the spool since it was last seen. The
  user's retry is the only other, and both are marked as repeats.
\<close>

theorem hand_out_safe:
  assumes "attempt_step\<^sup>*\<^sup>* (attempt_model_new limits generation) m" "am_issue now i x m = (m', Inr r)"
  shows "\<exists>msg. am_delivery i m = Some msg \<and> am_live x m \<and> \<not> ds_terminal (dl_state msg) \<and> \<not> dl_latch msg
    \<and> is_a r = dl_a msg \<and> is_e r \<notin> set (map tp_e (dl_attempts msg))
    \<and> (\<forall>t \<in> set (current_attempts msg).
         tp_stage t \<noteq> SgCommitted
         \<and> (\<not> ik_marked (is_kind r) \<longrightarrow> tp_stage t = SgNotHanded)
         \<and> (is_kind r = IkAutoRepeat \<longrightarrow>
              \<not> held_now m i t now \<and> \<not> tp_resume_pending t \<and> (needs_clearance t \<longrightarrow> tp_cleared t)))"
proof -
  obtain msg where msg: "am_delivery i m = Some msg" "\<not> am_exited m" "am_live x m" "\<not> ds_terminal (dl_state msg)" "\<not> dl_latch msg"
    and kind: "issue_kind_for m i msg now = Inr (is_kind r)" and nums: "is_a r = dl_a msg" "is_e r = length (dl_attempts msg) + 1"
    using issue_taken[OF assms(2)] .
  note ok = reachable_ok[OF assms(1)]
  have "map tp_e (dl_attempts msg) = [1..<Suc (length (dl_attempts msg))]" using am_preD(1)[OF ok msg(1)] by (simp add: core_def)
  then have fresh: "is_e r \<notin> set (map tp_e (dl_attempts msg))" unfolding nums(2) by (simp del: upt_Suc)
  have dec: "decided msg" using am_preD(3)[OF ok msg(1,2)] by simp
  have "tp_stage t \<noteq> SgCommitted
      \<and> (\<not> ik_marked (is_kind r) \<longrightarrow> tp_stage t = SgNotHanded)
      \<and> (is_kind r = IkAutoRepeat \<longrightarrow>
           \<not> held_now m i t now \<and> \<not> tp_resume_pending t \<and> (needs_clearance t \<longrightarrow> tp_cleared t))"
    if t: "t \<in> set (current_attempts msg)" for t
  proof (intro conjI impI)
    show "tp_stage t \<noteq> SgCommitted" using dec msg(4) t by (auto simp: decided_def committed_now_def list_ex_iff)
    show "tp_stage t = SgNotHanded" if "\<not> ik_marked (is_kind r)"
    proof -
      have "dl_state msg = DsQueued"
        using kind that by (auto simp: issue_kind_for_def ik_marked_def split: option.splits if_splits token_kind.splits)
      then show ?thesis using dec t by (simp add: decided_def list_all_iff)
    qed
    assume "is_kind r = IkAutoRepeat"
    with kind obtain token where "dl_token msg = Some token" "token_valid m i msg token now" "rt_kind token = TkAuto"
      by (auto simp: issue_kind_for_def split: option.splits if_splits token_kind.splits)
    with t show "\<not> held_now m i t now" "\<not> tp_resume_pending t" "needs_clearance t \<Longrightarrow> tp_cleared t"
      by (auto simp: token_valid_def list_ex_iff list_all_iff)
  qed
  with msg nums(1) fresh show ?thesis by blast
qed

theorem hand_out_safe_witness:
  "\<exists>msg. am_delivery ''m1'' run_start = Some msg \<and> am_live 1 run_start \<and> \<not> dl_latch msg \<and> (1 :: nat) \<notin> set (map tp_e (dl_attempts msg))"
proof -
  have "am_issue 10 ''m1'' 1 run_start = (run_issued, Inr \<lparr>is_a = 1, is_e = 1, is_d = 1, is_kind = IkFirst\<rparr>)"
    by (simp add: run_issued_def run_start_eq step_eval limit_eval)
  from hand_out_safe[OF run_reachable(1) this] show ?thesis by auto
qed

section \<open>The user's actions\<close>

text \<open>
  Asking again for an action that was applied changes nothing. Once a retry or a cancel was applied to a
  message at a revision, asking the same again, at any later time, answers what it answered then and
  leaves the model as it is, although the message has moved on to a new revision.
\<close>

theorem action_once:
  assumes "am_action now i g revision v m = (m', AoApplied n)"
    and "\<And>msg. am_delivery i m = Some msg \<Longrightarrow> answered_before revision v msg = None"
  shows "am_action later i g revision v m' = (m', AoApplied n)"
proof -
  have g: "g = am_generation m" using assms(1) by (auto simp: am_action_def split: if_splits)
  have gen: "am_generation (fst (remember_action revision v i k)) = am_generation k" for k
    by (simp add: remember_action_def change_message_def split: option.split)
  have fin: "am_generation (finalize now i k) = am_generation k" for k
    by (simp add: finalize_def reclaim_def change_message_def Let_def case_prod_beta split: option.split)
  obtain msg where msg: "am_delivery i m = Some msg" using assms(1) g by (auto simp: am_action_def split: option.splits)
  with assms g have act: "act_now now i revision v msg m = (m', AoApplied n)" by (simp add: am_action_def)
  let ?retried = "finalize now i (change_message i retry_message m)"
  let ?cancelled = "finalize now i ((change_message i (\<lambda>_. fst (cancel_message now i msg)) m)
    \<lparr>am_effects := am_effects m @ snd (cancel_message now i msg)\<rparr>)"
  have "\<exists>k \<in> {?retried, ?cancelled}. remember_action revision v i k = (m', AoApplied n)"
    using act by (cases v) (auto simp: act_now_def case_prod_beta split: if_splits)
  moreover have "am_generation k = am_generation m" if "k \<in> {?retried, ?cancelled}" for k
    using that fin by (auto simp: change_message_def)
  ultimately obtain k where k: "remember_action revision v i k = (m', AoApplied n)" "am_generation k = am_generation m"
    by blast
  then obtain msg' where msg': "am_delivery i k = Some msg'" "n = dl_revision msg'"
    by (auto simp: remember_action_def split: option.splits)
  with k(1) have "am_delivery i m' = Some (msg'\<lparr>dl_last_action := Some (revision, v, AoApplied n)\<rparr>)"
    by (auto simp: remember_action_def am_delivery_def change_message_def map_of_bt_modify)
  moreover have "am_generation m' = g" using gen[of k] k g by simp
  ultimately show ?thesis by (simp add: am_action_def answered_before_def)
qed

end
