(* ===== verification/Attempt_Tick.thy ===== *)
theory Attempt_Tick
  imports Attempt_Props
begin

text \<open>
  What a tick leaves behind, and the watermark a receiver reports. A tick finalizes every message once; what
  it decides for one is not touched by what it does for the others, so it still holds when the tick is over.
\<close>

section \<open>The watermark\<close>

text \<open>What a watermark remembers of the numbers it observed.\<close>

definition watermark_of :: "nat set \<Rightarrow> watermark \<Rightarrow> bool" where
  "watermark_of D w \<longleftrightarrow>
     {1..wk_seen w} \<subseteq> D \<and> wk_above w = {d \<in> D. wk_seen w < d} \<and> finite D"

lemma watermark_of_absorb:
  "watermark_of D w \<Longrightarrow> card (wk_above w) \<le> n \<Longrightarrow>
     watermark_of D (absorb n w) \<and> wk_seen (absorb n w) + 1 \<notin> wk_above (absorb n w)"
proof (induction n w rule: absorb.induct)
  case (1 w)
  then have "wk_above w = {}" by (simp add: watermark_of_def)
  with 1 show ?case by simp
next
  case (2 n w)
  show ?case
  proof (cases "wk_seen w + 1 \<in> wk_above w")
    case True
    let ?w = "\<lparr>wk_seen = wk_seen w + 1, wk_above = wk_above w - {wk_seen w + 1}\<rparr>"
    have "watermark_of D ?w"
      using True 2(2) by (auto simp: watermark_of_def atLeastAtMostSuc_conv)
    moreover have "card (wk_above ?w) \<le> n"
      using True 2(2,3) by (simp add: watermark_of_def card_Diff_singleton)
    ultimately show ?thesis using 2(1)[OF True] True by simp
  qed (use 2 in simp)
qed

lemma watermark_observe_ok:
  assumes "watermark_of D w" "wk_seen w + 1 \<notin> D" "0 < d"
  shows "watermark_of (insert d D) (watermark_observe d w) \<and> wk_seen (watermark_observe d w) + 1 \<notin> insert d D"
proof (cases "d \<le> wk_seen w")
  case True
  with assms have "d \<in> D" by (auto simp: watermark_of_def)
  with True assms show ?thesis by (simp add: watermark_observe_def insert_absorb)
next
  case False
  let ?w = "w\<lparr>wk_above := insert d (wk_above w)\<rparr>"
  have "watermark_of (insert d D) ?w" using assms(1) False by (auto simp: watermark_of_def)
  from watermark_of_absorb[OF this, of "card (insert d (wk_above w))"] False show ?thesis
    by (auto simp: watermark_observe_def Let_def watermark_of_def)
qed

text \<open>
  The watermark a component reports is the end of the gapless start of what it saw. After observing
  deliveries in any order, with repeats and gaps, the number it reports is the least one whose successor it
  has not seen: everything up to it was observed, and the next was not. It never goes back.
\<close>

theorem watermark_gapless:
  assumes "\<forall>d \<in> set ds. 0 < d"
  shows "wk_seen (foldl (\<lambda>w d. watermark_observe d w) watermark_default ds) = (LEAST n. Suc n \<notin> set ds)
    \<and> (\<forall>d. wk_seen (foldl (\<lambda>w d. watermark_observe d w) watermark_default ds)
         \<le> wk_seen (watermark_observe d (foldl (\<lambda>w d. watermark_observe d w) watermark_default ds)))"
proof -
  let ?w = "foldl (\<lambda>w d. watermark_observe d w) watermark_default ds"
  have w: "watermark_of (set ds) ?w \<and> wk_seen ?w + 1 \<notin> set ds"
    using assms
  proof (induction ds rule: rev_induct)
    case Nil
    show ?case by (simp add: watermark_of_def watermark_default_def)
  next
    case (snoc d ds)
    then show ?case
      using watermark_observe_ok[of "set ds" "foldl (\<lambda>w d. watermark_observe d w) watermark_default ds" d] by simp
  qed
  have "(LEAST n. Suc n \<notin> set ds) = wk_seen ?w"
  proof (rule Least_equality)
    fix n
    assume "Suc n \<notin> set ds"
    then have "Suc n \<notin> {1..wk_seen ?w}" using w unfolding watermark_of_def by blast
    then show "wk_seen ?w \<le> n" by simp
  qed (use w in simp)
  moreover have mono: "wk_seen w \<le> wk_seen (absorb n w)" for n w
    by (induction n w rule: absorb.induct) auto
  have "wk_seen ?w \<le> wk_seen (watermark_observe d ?w)" for d
    using mono[of "?w\<lparr>wk_above := insert d (wk_above ?w)\<rparr>" "card (insert d (wk_above ?w))"]
    by (simp add: watermark_observe_def Let_def)
  ultimately show ?thesis by simp
qed

section \<open>Waiting for something\<close>

text \<open>What a message that is being tried waits for.\<close>

definition waits_for :: "attempt_model \<Rightarrow> instant \<Rightarrow> string \<Rightarrow> delivery \<Rightarrow> bool" where
  "waits_for m now i msg \<longleftrightarrow>
     list_ex (\<lambda>t. held_now m i t now \<or> tp_resume_pending t \<or> tp_withheld t) (current_attempts msg)
     \<or> dl_token msg \<noteq> None
     \<or> (\<exists>since. dl_waiting_since msg = Some since \<and> now < since + uncertain_after (am_limits m))"

definition tended :: "attempt_model \<Rightarrow> instant \<Rightarrow> string \<Rightarrow> bool" where
  "tended m now i \<longleftrightarrow> (\<forall>msg. am_delivery i m = Some msg \<longrightarrow> dl_state msg = DsAttempting \<longrightarrow> waits_for m now i msg)"

text \<open>The parts of the model that possession is read from.\<close>

definition same_view :: "attempt_model \<Rightarrow> attempt_model \<Rightarrow> bool" where
  "same_view m m' \<longleftrightarrow>
     am_receivers m' = am_receivers m \<and> am_limits m' = am_limits m \<and> am_turn m' = am_turn m \<and> am_exited m' = am_exited m
     \<and> map fst (am_messages m') = map fst (am_messages m)"

lemma same_view_refl [simp]: "same_view m m"
  by (simp add: same_view_def)

lemma same_view_trans: "same_view a b \<Longrightarrow> same_view b c \<Longrightarrow> same_view a c"
  by (simp add: same_view_def)

lemma same_view_held: "same_view m m' \<Longrightarrow> held_now m' i t now = held_now m i t now"
  by (simp add: same_view_def held_now_def)

lemma same_view_waits: "same_view m m' \<Longrightarrow> waits_for m' now i msg = waits_for m now i msg"
  by (simp add: waits_for_def same_view_held) (simp add: same_view_def)

lemma same_view_steps [simp]:
  "same_view m (change_message i f m)" "same_view m (push_effect ef m)" "same_view m (reclaim i m)"
  by (simp_all add: same_view_def change_message_def push_effect_def reclaim_def case_prod_beta split: option.split)

lemma same_view_finalize [simp]: "same_view m (finalize now i m)"
proof (cases "am_exited m \<or> am_delivery i m = None")
  case True
  then show ?thesis by (auto simp: finalize_def)
next
  case False
  then obtain msg where "am_delivery i m = Some msg" "\<not> am_exited m" by auto
  from finalize_unfold[OF this(2,1)] obtain efs where eq:
    "finalize now i m = reclaim i ((change_message i (\<lambda>_. finalized now i m msg) m)\<lparr>am_effects := am_effects m @ efs\<rparr>)" .
  have "same_view m ((change_message i (\<lambda>_. finalized now i m msg) m)\<lparr>am_effects := am_effects m @ efs\<rparr>)"
    by (simp add: same_view_def change_message_def)
  then show ?thesis unfolding eq using same_view_trans same_view_steps(3) by blast
qed

text \<open>A step for one message leaves the others alone.\<close>

lemma other_message [simp]:
  assumes "j \<noteq> i"
  shows "am_delivery j (change_message i f m) = am_delivery j m" "am_delivery j (push_effect ef m) = am_delivery j m"
    "am_delivery j (reclaim i m) = am_delivery j m" "am_delivery j (finalize now i m) = am_delivery j m"
proof -
  show ch: "am_delivery j (change_message i f m) = am_delivery j m" for f m
    using assms by (simp add: am_delivery_def change_message_def map_of_bt_modify)
  show "am_delivery j (push_effect ef m) = am_delivery j m" by (simp add: am_delivery_def push_effect_def)
  show re: "am_delivery j (reclaim i m) = am_delivery j m" for m
    using ch by (simp add: am_delivery_def reclaim_def change_message_def case_prod_beta split: option.split)
  show "am_delivery j (finalize now i m) = am_delivery j m"
    using ch[of _ m] re by (simp add: finalize_def Let_def case_prod_beta am_delivery_def change_message_def split: option.split)
qed

section \<open>What the finalizer leaves\<close>

lemma attempting_waits:
  assumes "dl_state (fst (final_rules (am_limits m) now i (final_facts_of m i msg now) msg)) = DsAttempting"
  shows "waits_for m now i (fst (final_rules (am_limits m) now i (final_facts_of m i msg now) msg))
    \<and> dl_attempts (fst (final_rules (am_limits m) now i (final_facts_of m i msg now) msg)) = dl_attempts msg"
proof -
  let ?facts = "final_facts_of m i msg now"
  have held: "ff_held ?facts \<or> ff_resuming ?facts \<longleftrightarrow>
      list_ex (\<lambda>t. held_now m i t now \<or> tp_resume_pending t \<or> tp_withheld t) (current_attempts msg)"
    by (auto simp: final_facts_of_def Let_def list_ex_iff)
  have nonterm: "\<not> ds_terminal (dl_state (fst (rule_committed now i msg))) \<Longrightarrow> False"
    by (auto simp: rule_committed_def settle_shape split: if_splits)
  have waiting: "waits_for m now i (rule_waiting (am_limits m) now ?facts msg)"
    if "dl_state (rule_waiting (am_limits m) now ?facts msg) = DsAttempting"
    using that
    by (auto simp: waits_for_def rule_waiting_def Let_def set_state_def not_le split: option.splits if_splits)
  have possessed: "waits_for m now i (rule_possessed now ?facts msg)" if "ff_held ?facts \<or> ff_resuming ?facts"
  proof -
    have "current_attempts (rule_possessed now ?facts msg) = current_attempts msg"
      by (rule current_same) (simp_all add: rule_possessed_def Let_def split: option.split)
    with that held show ?thesis by (simp add: waits_for_def)
  qed
  have kept: "dl_attempts (rule_possessed now ?facts msg) = dl_attempts msg"
    "dl_attempts (rule_waiting (am_limits m) now ?facts msg) = dl_attempts msg"
    by (simp_all add: rule_possessed_def rule_waiting_def Let_def split: option.split)
  have "dl_state (fst (rule_latch i ?facts msg)) \<noteq> DsAttempting" "dl_state (fst (rule_not_handed (am_limits m) i msg)) \<noteq> DsAttempting"
    by (simp_all add: rule_latch_def rule_not_handed_def Let_def)
  with assms nonterm waiting possessed kept show ?thesis
    by (auto simp: final_rules_def split: if_splits)
qed

lemma reclaim_delivery: "am_delivery i (reclaim i m) = map_option reclaimed_message (am_delivery i m)"
proof (cases "am_delivery i m")
  case (Some msg)
  have "fst (reclaim_attempts i (dl_state msg) (dl_attempts msg) (am_evidence_reserved m)) = map (reclaim_one (dl_state msg)) (dl_attempts msg)"
    by (rule reclaim_attempts_map)
  with Some show ?thesis
    by (auto simp: reclaim_def am_delivery_def change_message_def map_of_bt_modify reclaimed_message_def split: prod.split)
qed (simp add: reclaim_def)

lemma reclaimed_attempting: "dl_state msg = DsAttempting \<Longrightarrow> reclaimed_message msg = msg"
proof -
  have "reclaim_one DsAttempting = (\<lambda>t. t)" by (rule ext) (simp add: reclaim_one_def reclaim_due_def Let_def)
  then show "dl_state msg = DsAttempting \<Longrightarrow> ?thesis" by (simp add: reclaimed_message_def)
qed

lemma finalize_tended:
  assumes "\<not> am_exited m"
  shows "tended (finalize now i m) now i"
proof (cases "am_delivery i m")
  case None
  then show ?thesis by (simp add: finalize_def tended_def)
next
  case (Some msg)
  let ?msg1 = "fst (final_rules (am_limits m) now i (final_facts_of m i msg now) msg)"
  obtain efs where eq:
    "finalize now i m = reclaim i ((change_message i (\<lambda>_. finalized now i m msg) m)\<lparr>am_effects := am_effects m @ efs\<rparr>)"
    using finalize_unfold[OF assms Some] .
  have del: "am_delivery i (finalize now i m) = Some (reclaimed_message (finalized now i m msg))"
    unfolding eq reclaim_delivery using Some by (simp add: am_delivery_def change_message_def map_of_bt_modify)
  have "waits_for (finalize now i m) now i (reclaimed_message (finalized now i m msg))"
    if "dl_state (reclaimed_message (finalized now i m msg)) = DsAttempting"
  proof -
    have st: "dl_state (finalized now i m msg) = DsAttempting" using that by (simp add: reclaimed_message_def)
    then have "dl_state ?msg1 = DsAttempting" by (simp add: finalized_def)
    from attempting_waits[OF this] have "waits_for m now i ?msg1" by blast
    then have "waits_for m now i (finalized now i m msg)"
      unfolding finalized_def waits_for_def current_attempts_def by simp
    then show ?thesis by (simp add: reclaimed_attempting[OF st] same_view_waits[OF same_view_finalize])
  qed
  with del show ?thesis by (simp add: tended_def)
qed

section \<open>The messages of a tick, one by one\<close>

lemma tended_like:
  assumes "same_view m m'" "\<And>msg'. am_delivery i m' = Some msg' \<Longrightarrow> dl_state msg' = DsAttempting \<Longrightarrow>
      \<exists>msg. am_delivery i m = Some msg \<and> dl_state msg = DsAttempting \<and> current_attempts msg' = current_attempts msg
        \<and> dl_token msg' = dl_token msg \<and> dl_waiting_since msg' = dl_waiting_since msg"
    "tended m now i"
  shows "tended m' now i"
  unfolding tended_def
proof (intro allI impI)
  fix msg'
  assume "am_delivery i m' = Some msg'" "dl_state msg' = DsAttempting"
  from assms(2)[OF this] obtain msg where msg: "am_delivery i m = Some msg" "dl_state msg = DsAttempting"
      "current_attempts msg' = current_attempts msg" "dl_token msg' = dl_token msg" "dl_waiting_since msg' = dl_waiting_since msg"
    by blast
  with assms(3) have "waits_for m now i msg" by (simp add: tended_def)
  with msg(3-5) have "waits_for m now i msg'" by (simp add: waits_for_def)
  then show "waits_for m' now i msg'" using same_view_waits[OF assms(1)] by simp
qed

lemma held_long_view: "same_view m (note_held_long now i m)"
  using same_view_trans[OF same_view_steps(1) same_view_steps(2)] by (simp add: note_held_long_def split: option.split)

lemma held_long_delivery:
  "am_delivery j (note_held_long now i m) = am_delivery j m
   \<or> (j = i \<and> am_delivery j (note_held_long now i m)
        = map_option (\<lambda>msg. msg\<lparr>dl_held_long_sent := Some (dl_revision msg)\<rparr>) (am_delivery j m))"
  by (auto simp: note_held_long_def am_delivery_def change_message_def push_effect_def map_of_bt_modify split: option.split)

lemma tick_message_view: "same_view m (tick_message now m i)"
  unfolding tick_message_def using same_view_trans same_view_steps(1) same_view_finalize held_long_view by metis

lemma tick_message_other: "j \<noteq> i \<Longrightarrow> am_delivery j (tick_message now m i) = am_delivery j m"
  using held_long_delivery[of j now i] by (auto simp: tick_message_def)

lemma tick_message_tends:
  assumes "\<not> am_exited m"
  shows "tended (tick_message now m i) now i"
proof -
  let ?m1 = "finalize now i (change_message i (silence now) m)"
  have "tended ?m1 now i" by (rule finalize_tended) (use assms in \<open>simp add: change_message_def\<close>)
  then show ?thesis
    unfolding tick_message_def
    by (rule tended_like[OF held_long_view, rotated])
      (use held_long_delivery[of i now i ?m1] in \<open>cases "am_delivery i ?m1"; auto simp: current_attempts_def\<close>)
qed

lemma tick_message_keeps: "j \<noteq> i \<Longrightarrow> tended m now j \<Longrightarrow> tended (tick_message now m i) now j"
  by (rule tended_like[OF tick_message_view, rotated]) (auto simp: tick_message_other)

lemma tick_messages_tend:
  assumes "\<not> am_exited m" "i \<in> set ids \<or> tended m now i"
  shows "tended (foldl (tick_message now) m ids) now i"
  using assms
proof (induction ids arbitrary: m)
  case (Cons j ids)
  have "\<not> am_exited (tick_message now m j)" using Cons.prems(1) tick_message_view[of m now j] by (simp add: same_view_def)
  moreover have "i \<in> set ids \<or> tended (tick_message now m j) now i"
    using Cons.prems tick_message_tends[of m now j] tick_message_keeps[of i j m now] by (cases "i = j") auto
  ultimately show ?case using Cons.IH[of "tick_message now m j"] by simp
qed simp

lemma tick_messages_view: "same_view m (foldl (tick_message now) m ids)"
  by (induction ids arbitrary: m) (simp_all, meson same_view_trans tick_message_view)

lemma revokes_due_tend:
  assumes "tended m now i"
  shows "tended (revokes_due now m) now i"
proof (cases "am_exited m")
  case True
  with assms show ?thesis by (simp add: revokes_due_def)
next
  case False
  let ?f = "\<lambda>t. if revoke_again (am_limits m) now t then t\<lparr>tp_revoke_sent := Some now\<rparr> else t"
  have messages: "am_messages (revokes_due now m) = map (\<lambda>(i, msg). (i, msg\<lparr>dl_attempts := map ?f (dl_attempts msg)\<rparr>)) (am_messages m)"
    using False by (simp add: revokes_due_def map_attempts_def)
  have view: "same_view m (revokes_due now m)"
    using False by (simp add: same_view_def revokes_due_def map_attempts_def case_prod_beta o_def)
  have del: "am_delivery i (revokes_due now m) = map_option (\<lambda>msg. msg\<lparr>dl_attempts := map ?f (dl_attempts msg)\<rparr>) (am_delivery i m)"
    by (simp add: am_delivery_def messages map_of_map)
  have "held_now m i (t\<lparr>tp_revoke_sent := s\<rparr>) now = held_now m i t now" for t s
    by (simp add: held_now_def possessed_def once_held_def once_anchor_def snapshot_holds_def cong: option.case_cong)
  then have held: "held_now m i (?f t) now = held_now m i t now" for t by simp
  have cur: "current_attempts (msg\<lparr>dl_attempts := map ?f (dl_attempts msg)\<rparr>) = map ?f (current_attempts msg)" for msg
    unfolding current_attempts_def by (simp add: filter_map o_def if_distrib cong: if_cong)
  have "waits_for m now i (msg\<lparr>dl_attempts := map ?f (dl_attempts msg)\<rparr>) = waits_for m now i msg" for msg
  proof -
    have "list_ex (\<lambda>t. held_now m i t now \<or> tp_resume_pending t \<or> tp_withheld t) (map ?f ts)
        = list_ex (\<lambda>t. held_now m i t now \<or> tp_resume_pending t \<or> tp_withheld t) ts" for ts
      by (induction ts) (simp_all add: held)
    then show ?thesis unfolding waits_for_def cur by simp
  qed
  with assms del show ?thesis unfolding tended_def same_view_waits[OF view] by auto
qed

section \<open>The tick\<close>

lemma exited_foldl:
  assumes "\<And>m x. am_exited (f m x) = am_exited m"
  shows "am_exited (foldl f m xs) = am_exited m"
  by (induction xs arbitrary: m) (simp_all add: assms)

lemma exited_finalize [simp]: "am_exited (finalize now i m) = am_exited m"
  using same_view_finalize[of m now i] by (simp add: same_view_def)

lemma exited_kept:
  "am_exited (clear_one now m check) = am_exited m" "am_exited (expire_holds now m) = am_exited m"
  "am_exited (retire_closed now m) = am_exited m" "am_exited (staging_lapsed now m) = am_exited m"
proof -
  show "am_exited (clear_one now m check) = am_exited m"
    by (simp add: clear_one_def change_message_def split: option.split)
  have bound: "am_exited (finalize_bound_to now x k) = am_exited k" for x k
    unfolding finalize_bound_to_def finalize_ids_def by (rule exited_foldl) simp
  have close: "am_exited (close_one_shot now x b k) = am_exited k" for x b k
    using like_close_one_shot[of k now x b] by (simp add: am_like_def)
  show "am_exited (expire_holds now m) = am_exited m"
    unfolding expire_holds_def by (rule exited_foldl) (simp add: bound close)
  show "am_exited (retire_closed now m) = am_exited m"
    unfolding retire_closed_def by (rule exited_foldl) (use like_retire_one in \<open>simp add: am_like_def\<close>)
  have "am_exited (fst (deck_not_handed now i a e x k)) = am_exited k" for i a e x k
    by (simp add: deck_not_handed_def change_message_def split: option.split)
  then show "am_exited (staging_lapsed now m) = am_exited m"
    unfolding staging_lapsed_def Let_def
    by (subst exited_foldl) (simp_all add: case_prod_beta push_effect_def map_attempts_def)
qed

text \<open>
  C37: the clock leaves no message waiting for nothing. After a tick of a live generation, whatever came before
  it, a message that is still being tried has a reason: an attempt of its assignment is held by its
  receiver, or a successor still owes an answer for one, or the deck withholds one; or a repeat is
  scheduled; or the bounded wait before its outcome is called uncertain has not passed. In every other
  case the tick has queued it again, ended it, or called it uncertain for the user to decide.
\<close>

theorem tick_leaves_no_limbo:
  assumes "\<not> am_exited m" "am_delivery i (tick_cleared now cleared m) = Some msg" "dl_state msg = DsAttempting"
  shows "(\<exists>t \<in> set (current_attempts msg).
            held_now (tick_cleared now cleared m) i t now \<or> tp_resume_pending t \<or> tp_withheld t)
    \<or> dl_token msg \<noteq> None
    \<or> (\<exists>since. dl_waiting_since msg = Some since
         \<and> now < since + al_possess_ttl (am_limits (tick_cleared now cleared m)) * WAIT_TTLS_BEFORE_UNCERTAIN)"
proof -
  define m1 where "m1 = staging_lapsed now (retire_closed now (expire_holds now (foldl (clear_one now) m cleared)))"
  let ?m2 = "foldl (tick_message now) m1 (map fst (am_messages m1))"
  have eq: "tick_cleared now cleared m = revokes_due now ?m2"
    using assms(1) by (simp add: tick_cleared_def Let_def m1_def)
  have "am_exited (foldl (clear_one now) m cleared) = am_exited m" by (rule exited_foldl) (rule exited_kept(1))
  then have live: "\<not> am_exited m1" using assms(1) by (simp add: m1_def exited_kept(2-4))
  have view: "same_view ?m2 (revokes_due now ?m2)"
    by (simp add: same_view_def revokes_due_def map_attempts_def case_prod_beta o_def)
  have "i \<in> fst ` set (am_messages (revokes_due now ?m2))"
    using assms(2) map_of_SomeD[of "am_messages (revokes_due now ?m2)" i msg] unfolding eq am_delivery_def by force
  then have "i \<in> set (map fst (am_messages m1))"
    using view tick_messages_view[of m1 now "map fst (am_messages m1)"] by (metis list.set_map same_view_def)
  then have "tended ?m2 now i" using tick_messages_tend[OF live] by blast
  then have "tended (tick_cleared now cleared m) now i" unfolding eq by (rule revokes_due_tend)
  with assms(2,3) show ?thesis by (simp add: tended_def waits_for_def list_ex_iff uncertain_after_def)
qed

theorem tick_leaves_no_limbo_witness:
  "\<exists>msg. am_delivery ''m1'' (tick_cleared 20 [] run_issued) = Some msg
     \<and> (\<exists>t \<in> set (current_attempts msg). held_now (tick_cleared 20 [] run_issued) ''m1'' t 20)"
proof -
  obtain msg where msg: "am_delivery ''m1'' (tick_cleared 20 [] run_issued) = Some msg" "dl_state msg = DsAttempting"
      "dl_token msg = None" "dl_waiting_since msg = None"
      "list_all (\<lambda>t. \<not> tp_resume_pending t \<and> \<not> tp_withheld t) (current_attempts msg)"
  proof -
    have "case am_delivery ''m1'' (tick_cleared 20 [] run_issued) of None \<Rightarrow> False
      | Some msg \<Rightarrow> dl_state msg = DsAttempting \<and> dl_token msg = None \<and> dl_waiting_since msg = None
          \<and> list_all (\<lambda>t. \<not> tp_resume_pending t \<and> \<not> tp_withheld t) (current_attempts msg)"
      by code_simp
    then show thesis using that by (auto split: option.splits)
  qed
  have "\<not> am_exited run_issued" by (simp add: run_issued_eq attempt_model_new_def)
  from tick_leaves_no_limbo[OF this msg(1,2)] msg show ?thesis by (auto simp: list_all_iff)
qed

end
