(* ===== verification/Report_Recovery.thy ===== *)
theory Report_Recovery
  imports Inbox_Data "HOL-Library.AList" "HOL-Library.Char_ord" "HOL-Library.List_Lexorder"
begin

text \<open>
  What the deck keeps about reports and dispatch results whose recipient may be gone, the pure data of
  \<^verbatim>\<open>src/src/report_recovery.rs\<close>: the recovery rows, the ledger of accepted reports, the table of the
  dispatched units' results, the ledger of delegated tasks and the table of claims. A hash table is an
  association list with one entry per key; where the source iterates one, the model takes the set of
  what it finds. Counters of 64 bits that only count up are natural numbers.
\<close>

section \<open>Recovery rows\<close>

datatype outcome_phase = OpDispatchStarted | OpDispatchFailed | OpDispatchFinished | OpDispatchEnded | OpWorkerReport | OpUnknown

datatype outcome_cause = CauseRecipientExited | CauseRecipientRefused | CauseDeliveryFailed | CauseCancelled | CauseUnknown

datatype outcome_delivery = NeverHanded | HandedUnconfirmed | AcknowledgedLate | DeliveryUnknown

datatype outcome_storage = StoreArtifact | StoreMemory | StoreNone | StoreUnknown

datatype outcome_op = ViewResult | Dismiss | OutcomeOpUnknown

record outcome_party =
  pt_pane_id :: string
  pt_agent_id :: string
  pt_role :: "string option"

record outcome_unit =
  ou_unit_id :: string
  ou_name :: string

record deck_outcome =
  oc_outcome_id :: string
  oc_phase :: outcome_phase
  oc_cause :: outcome_cause
  oc_delivery :: outcome_delivery
  oc_label :: string
  oc_original :: outcome_party
  oc_producer :: outcome_party
  oc_unit :: "outcome_unit option"
  oc_orchestration :: "string option"
  oc_task_id :: "string option"
  oc_report_id :: "string option"
  oc_storage :: outcome_storage
  oc_summary :: string
  oc_created_at_ms :: int
  oc_revision :: nat
  oc_operations :: "outcome_op list"

fun provenance_report_id :: "report_provenance \<Rightarrow> string option" where
  "provenance_report_id (ProvTask _ report _) = Some report"
| "provenance_report_id (ProvTerminal _ report _) = Some report"
| "provenance_report_id (ProvUncorrelated report _) = Some report"
| "provenance_report_id (ProvDispatchResult _ _ report) = report"
| "provenance_report_id ProvUnknown = None"

definition DEFAULT_OUTCOMES_MAX :: nat where
  "DEFAULT_OUTCOMES_MAX = 64"

record outcome_row =
  row_outcome :: deck_outcome
  row_message_id :: "string option"

record outcome_store =
  os_rows :: "outcome_row list"
  os_max :: nat
  os_overflow :: nat
  os_revision :: nat
  os_next_id :: nat

definition outcome_store_new :: "nat \<Rightarrow> outcome_store" where
  "outcome_store_new mx = \<lparr>os_rows = [], os_max = max mx 1, os_overflow = 0, os_revision = 0, os_next_id = 1\<rparr>"

fun evict_rows :: "nat \<Rightarrow> outcome_row list \<Rightarrow> nat \<Rightarrow> outcome_row list \<times> nat" where
  "evict_rows mx [] overflow = ([], overflow)"
| "evict_rows mx (r # rs) overflow =
     (if mx < length (r # rs) then evict_rows mx rs (overflow + 1) else (r # rs, overflow))"

definition outcome_id_of :: "nat \<Rightarrow> string" where
  "outcome_id_of n = ''o-'' @ nat_string n"

definition outcome_insert :: "deck_outcome \<Rightarrow> string option \<Rightarrow> outcome_store \<Rightarrow> outcome_store \<times> string" where
  "outcome_insert outcome message_id st =
     (let i = outcome_id_of (os_next_id st);
          revision = os_revision st + 1;
          row = \<lparr>row_outcome = outcome\<lparr>oc_outcome_id := i, oc_revision := revision\<rparr>, row_message_id = message_id\<rparr>;
          (rows, overflow) = evict_rows (os_max st) (os_rows st @ [row]) (os_overflow st)
      in (st\<lparr>os_rows := rows, os_overflow := overflow, os_revision := revision, os_next_id := os_next_id st + 1\<rparr>, i))"

definition has_report :: "string \<Rightarrow> outcome_store \<Rightarrow> bool" where
  "has_report report st \<longleftrightarrow> list_ex (\<lambda>row. oc_report_id (row_outcome row) = Some report) (os_rows st)"

definition acknowledged_late :: "string \<Rightarrow> outcome_store \<Rightarrow> outcome_store \<times> string option option" where
  "acknowledged_late message_id st =
     (case find (\<lambda>row. row_message_id row = Some message_id) (os_rows st) of
        None \<Rightarrow> (st, None)
      | Some row \<Rightarrow>
          (let revision = os_revision st + 1
           in (st\<lparr>os_revision := revision,
                  os_rows := change_first (\<lambda>row. row_message_id row = Some message_id)
                    (\<lambda>row. row\<lparr>row_outcome := (row_outcome row)\<lparr>oc_delivery := AcknowledgedLate, oc_revision := revision\<rparr>\<rparr>)
                    (os_rows st)\<rparr>,
               Some (oc_report_id (row_outcome row)))))"

definition names_report :: "string \<Rightarrow> outcome_row \<Rightarrow> bool" where
  "names_report report row \<longleftrightarrow> oc_report_id (row_outcome row) = Some report"

definition outcome_saved :: "string \<Rightarrow> outcome_store \<Rightarrow> outcome_store" where
  "outcome_saved report st =
     (let held = (\<lambda>row. names_report report row \<and> oc_storage (row_outcome row) = StoreMemory)
      in if list_ex held (os_rows st)
         then let rows = map (\<lambda>row. if held row then row\<lparr>row_outcome := (row_outcome row)\<lparr>oc_storage := StoreArtifact\<rparr>\<rparr> else row) (os_rows st);
                  revision = os_revision st + 1
              in st\<lparr>os_revision := revision,
                    os_rows := map (\<lambda>row. if names_report report row
                                          then row\<lparr>row_outcome := (row_outcome row)\<lparr>oc_revision := revision\<rparr>\<rparr> else row) rows\<rparr>
         else st)"

definition outcome_rows :: "outcome_store \<Rightarrow> deck_outcome list" where
  "outcome_rows st = map row_outcome (os_rows st)"

text \<open>\<^verbatim>\<open>cut_bytes\<close> of this module: a summary is cut at a character's start, stepping back from the limit.\<close>

definition cut_summary :: "string \<Rightarrow> nat \<Rightarrow> string" where
  "cut_summary text mx = (if length text \<le> mx then text else take (boundary_at_or_below text mx) text)"

section \<open>Accepted reports\<close>

record accepted_report =
  ar_provenance :: report_provenance
  ar_phase :: outcome_phase
  ar_report_id :: "string option"
  ar_summary :: string
  ar_storage :: outcome_storage
  ar_label :: string
  ar_original :: outcome_party
  ar_producer :: outcome_party
  ar_unit :: "outcome_unit option"
  ar_orchestration :: "string option"
  ar_task_id :: "string option"
  ar_handed :: bool

definition into_row :: "accepted_report \<Rightarrow> outcome_cause \<Rightarrow> int \<Rightarrow> deck_outcome" where
  "into_row r cause now_ms =
     \<lparr>oc_outcome_id = '''', oc_phase = ar_phase r, oc_cause = cause,
      oc_delivery = (if ar_handed r then HandedUnconfirmed else NeverHanded), oc_label = ar_label r, oc_original = ar_original r,
      oc_producer = ar_producer r, oc_unit = ar_unit r, oc_orchestration = ar_orchestration r, oc_task_id = ar_task_id r,
      oc_report_id = ar_report_id r, oc_storage = ar_storage r, oc_summary = ar_summary r, oc_created_at_ms = now_ms,
      oc_revision = 0, oc_operations = []\<rparr>"

fun cause_of :: "undeliverable_reason \<Rightarrow> outcome_cause option" where
  "cause_of AgentExited = Some CauseRecipientExited"
| "cause_of MaxDeliver = Some CauseDeliveryFailed"
| "cause_of Cancelled = Some CauseCancelled"
| "cause_of InboxShut = None"
| "cause_of Superseded = Some CauseUnknown"

section \<open>The unit table\<close>

datatype destination = DestInbox | DestRecovery | DestNone | DestUnknown

datatype unit_mark = Marked | UnitEndedFirst

datatype ended_how = HowExited | HowClosed | HowRespawnFailed

fun ended_clause :: "ended_how \<Rightarrow> string" where
  "ended_clause HowExited = ''it exited''"
| "ended_clause HowClosed = ''it was closed''"
| "ended_clause HowRespawnFailed = ''it could not be restarted''"

type_synonym digest = string

datatype unit_entry =
    UnitClaimed nat
  | UnitCompleted "string option" digest destination unit_mark
  | UnitEnded ended_how

definition DEFAULT_TOMBSTONES_MAX :: nat where
  "DEFAULT_TOMBSTONES_MAX = 256"

record unit_table =
  ut_units :: "(string \<times> unit_entry) list"
  ut_by_generation :: "((string \<times> string) \<times> string) list"
  ut_order :: "string list"
  ut_cap :: nat

definition unit_table_new :: "nat \<Rightarrow> unit_table" where
  "unit_table_new cap = \<lparr>ut_units = [], ut_by_generation = [], ut_order = [], ut_cap = max cap 1\<rparr>"

definition unit_get :: "string \<Rightarrow> unit_table \<Rightarrow> unit_entry option" where
  "unit_get u t = map_of (ut_units t) u"

definition unit_of :: "string \<Rightarrow> string \<Rightarrow> unit_table \<Rightarrow> string option" where
  "unit_of pane agent t = map_of (ut_by_generation t) (pane, agent)"

definition unit_touch :: "string \<Rightarrow> unit_table \<Rightarrow> unit_table" where
  "unit_touch u t = (if u \<in> set (ut_order t) then t else t\<lparr>ut_order := ut_order t @ [u]\<rparr>)"

definition unit_index :: "string \<Rightarrow> string \<Rightarrow> string \<Rightarrow> unit_table \<Rightarrow> unit_table" where
  "unit_index pane agent u t =
     unit_touch u (t\<lparr>ut_by_generation := AList.update (pane, agent) u (ut_by_generation t)\<rparr>)"

definition unit_set :: "string \<Rightarrow> unit_entry \<Rightarrow> unit_table \<Rightarrow> unit_table" where
  "unit_set u entry t = unit_touch u (t\<lparr>ut_units := AList.update u entry (ut_units t)\<rparr>)"

definition unit_remove :: "string \<Rightarrow> unit_table \<Rightarrow> unit_table \<times> unit_entry option" where
  "unit_remove u t = (t\<lparr>ut_units := AList.delete u (ut_units t)\<rparr>, map_of (ut_units t) u)"

definition generations_of :: "string \<Rightarrow> unit_table \<Rightarrow> (string \<times> string) set" where
  "generations_of u t = set (map fst (filter (\<lambda>e. snd e = u) (ut_by_generation t)))"

definition is_claimed :: "string \<Rightarrow> unit_table \<Rightarrow> bool" where
  "is_claimed u t = (case map_of (ut_units t) u of Some (UnitClaimed _) \<Rightarrow> True | _ \<Rightarrow> False)"

definition drop_unit :: "string \<Rightarrow> unit_table \<Rightarrow> unit_table" where
  "drop_unit u t = t\<lparr>ut_units := AList.delete u (ut_units t), ut_by_generation := filter (\<lambda>e. snd e \<noteq> u) (ut_by_generation t)\<rparr>"

text \<open>
  The loop over the queue: \<open>order\<close> is what is left of it, \<open>kept\<close> what was passed over. Removing the index
  entries a unit has, one by one, is dropping every entry that names it.
\<close>

fun evict_loop ::
  "(string \<Rightarrow> (string \<times> string) set \<Rightarrow> bool) \<Rightarrow> string list \<Rightarrow> string list \<Rightarrow> unit_table \<Rightarrow> unit_table \<times> string list" where
  "evict_loop protected [] kept t = (t\<lparr>ut_order := kept\<rparr>, [])"
| "evict_loop protected (u # order) kept t =
     (if ut_cap t < length (u # order) + length kept
      then if is_claimed u t \<or> protected u (generations_of u t) then evict_loop protected order (kept @ [u]) t
           else (case evict_loop protected order kept (drop_unit u t) of (t', evicted) \<Rightarrow> (t', u # evicted))
      else (t\<lparr>ut_order := kept @ u # order\<rparr>, []))"

definition unit_evict :: "(string \<Rightarrow> (string \<times> string) set \<Rightarrow> bool) \<Rightarrow> unit_table \<Rightarrow> unit_table \<times> string list" where
  "unit_evict protected t = evict_loop protected (ut_order t) [] t"

section \<open>Publications\<close>

datatype publish_key = KeyInstance string | KeyPane string

datatype publication = PubInitial | PubReplacement string string nat bool

fun names_unit :: "string \<Rightarrow> publication \<Rightarrow> bool" where
  "names_unit u (PubReplacement unit _ _ _) = (unit = u)"
| "names_unit u PubInitial = False"

definition unit_published :: "string \<Rightarrow> (publish_key \<times> publication) list \<Rightarrow> bool" where
  "unit_published u publications = list_ex (\<lambda>e. names_unit u (snd e)) publications"

section \<open>The task ledger\<close>

record task_binding =
  tb_worker_pane :: string
  tb_worker_agent :: string
  tb_instance :: "string option"
  tb_role :: string
  tb_orchestrator :: "recipient option"
  tb_arm_id :: "nat option"
  tb_seq :: "nat option"

datatype task_delivery = TaskLive | TaskAcknowledged | TaskEnded

datatype task_state = TaskOpen nat | TaskReporting nat

datatype task_tombstone =
    TombReported "string option" "digest option" destination
  | TombClosed
  | TombSuperseded "string option"

record deck_task =
  tk_binding :: task_binding
  tk_delivery :: task_delivery
  tk_state :: task_state
  tk_exit_walked :: bool

record settled_task =
  st_tombstone :: task_tombstone
  st_worker_pane :: string
  st_worker_agent :: string
  st_instance :: string

datatype task_lookup = LookupOpen deck_task | LookupSettled settled_task | LookupUnknown

definition NO_INSTANCE :: string where
  "NO_INSTANCE = ''''"

record task_ledger =
  tl_open :: "(string \<times> deck_task) list"
  tl_settled :: "(string \<times> settled_task) list"
  tl_by_instance :: "(string \<times> string list) list"
  tl_order :: "string list"
  tl_per_instance :: nat
  tl_global :: nat

definition task_ledger_new :: "nat \<Rightarrow> task_ledger" where
  "task_ledger_new per_instance =
     (let per = max per_instance 1
      in \<lparr>tl_open = [], tl_settled = [], tl_by_instance = [], tl_order = [], tl_per_instance = per, tl_global = min u64_max (per * 16)\<rparr>)"

definition task_bind :: "string \<Rightarrow> task_binding \<Rightarrow> task_ledger \<Rightarrow> task_ledger \<times> bool" where
  "task_bind i binding l =
     (if map_of (tl_open l) i \<noteq> None \<or> map_of (tl_settled l) i \<noteq> None then (l, False)
      else (l\<lparr>tl_open := AList.update i
               \<lparr>tk_binding = binding, tk_delivery = TaskLive, tk_state = TaskOpen 0, tk_exit_walked = False\<rparr> (tl_open l)\<rparr>, True))"

definition task_lookup_of :: "string \<Rightarrow> task_ledger \<Rightarrow> task_lookup" where
  "task_lookup_of i l =
     (case map_of (tl_open l) i of
        Some t \<Rightarrow> LookupOpen t
      | None \<Rightarrow> (case map_of (tl_settled l) i of Some s \<Rightarrow> LookupSettled s | None \<Rightarrow> LookupUnknown))"

definition open_where :: "(task_binding \<Rightarrow> bool) \<Rightarrow> task_ledger \<Rightarrow> string list" where
  "open_where keep l = sort (map fst (filter (\<lambda>e. keep (tk_binding (snd e))) (tl_open l)))"

definition open_of_generation :: "string \<Rightarrow> string \<Rightarrow> task_ledger \<Rightarrow> string list" where
  "open_of_generation pane agent = open_where (\<lambda>b. tb_worker_pane b = pane \<and> tb_worker_agent b = agent)"

definition open_of_pane :: "string \<Rightarrow> task_ledger \<Rightarrow> string list" where
  "open_of_pane pane = open_where (\<lambda>b. tb_worker_pane b = pane)"

definition instance_ids :: "string \<Rightarrow> task_ledger \<Rightarrow> string list" where
  "instance_ids inst l = (case map_of (tl_by_instance l) inst of Some ids \<Rightarrow> ids | None \<Rightarrow> [])"

definition task_forget :: "string \<Rightarrow> task_ledger \<Rightarrow> task_ledger" where
  "task_forget i l = l\<lparr>tl_settled := AList.delete i (tl_settled l), tl_order := filter (\<lambda>j. j \<noteq> i) (tl_order l)\<rparr>"

text \<open>The first loop of \<^verbatim>\<open>evict\<close> takes ids off the front of the instance's queue, the second off the front of the whole order.\<close>

fun evict_instance :: "string \<Rightarrow> string list \<Rightarrow> task_ledger \<Rightarrow> task_ledger" where
  "evict_instance inst [] l = l"
| "evict_instance inst (oldest # ids) l =
     (if tl_per_instance l < length (oldest # ids)
      then evict_instance inst ids (task_forget oldest (l\<lparr>tl_by_instance := AList.update inst ids (tl_by_instance l)\<rparr>))
      else l)"

definition drop_oldest :: "string \<Rightarrow> task_ledger \<Rightarrow> task_ledger" where
  "drop_oldest oldest l =
     (case map_of (tl_settled l) oldest of
        None \<Rightarrow> l
      | Some s \<Rightarrow>
          (let l1 = l\<lparr>tl_settled := AList.delete oldest (tl_settled l)\<rparr>
           in case map_of (tl_by_instance l) (st_instance s) of
                None \<Rightarrow> l1
              | Some ids \<Rightarrow>
                  (let ids' = filter (\<lambda>j. j \<noteq> oldest) ids
                   in l1\<lparr>tl_by_instance := (if ids' = [] then AList.delete (st_instance s) (tl_by_instance l)
                                            else AList.update (st_instance s) ids' (tl_by_instance l))\<rparr>)))"

fun evict_global :: "string list \<Rightarrow> task_ledger \<Rightarrow> task_ledger" where
  "evict_global [] l = l\<lparr>tl_order := []\<rparr>"
| "evict_global (oldest # order) l =
     (if tl_global l < length (oldest # order) then evict_global order (drop_oldest oldest l)
      else l\<lparr>tl_order := oldest # order\<rparr>)"

definition task_evict :: "string \<Rightarrow> task_ledger \<Rightarrow> task_ledger" where
  "task_evict inst l =
     (let l1 = evict_instance inst (instance_ids inst l) l
      in evict_global (tl_order l1) l1)"

definition task_settle :: "string \<Rightarrow> task_tombstone \<Rightarrow> task_ledger \<Rightarrow> task_ledger \<times> deck_task option" where
  "task_settle i tombstone l =
     (case map_of (tl_open l) i of
        None \<Rightarrow> (l, None)
      | Some t \<Rightarrow>
          (let inst = (case tb_instance (tk_binding t) of Some x \<Rightarrow> x | None \<Rightarrow> NO_INSTANCE);
               entry = \<lparr>st_tombstone = tombstone, st_worker_pane = tb_worker_pane (tk_binding t),
                        st_worker_agent = tb_worker_agent (tk_binding t), st_instance = inst\<rparr>
           in (task_evict inst
                 (l\<lparr>tl_open := AList.delete i (tl_open l),
                    tl_settled := AList.update i entry (tl_settled l),
                    tl_by_instance := AList.update inst (instance_ids inst l @ [i]) (tl_by_instance l),
                    tl_order := tl_order l @ [i]\<rparr>),
               Some t)))"

definition settled_len :: "task_ledger \<Rightarrow> nat" where
  "settled_len l = length (tl_settled l)"

section \<open>The claim table\<close>

datatype claim_mode = ModeTask string | ModeTerminal string string | ModeUncorrelated

datatype claim_phase = CpAdmitted | CpSaving | CpStaged | CpMarked | CpApplying

datatype settle_state = CsPending | CsCommitted | CsFailed

record report_claim =
  rc_claim_id :: nat
  rc_mode :: claim_mode
  rc_worker_pane :: string
  rc_worker_agent :: string
  rc_recipient :: "recipient option"
  rc_role :: "string option"
  rc_arm_id :: "nat option"
  rc_seq :: "nat option"
  rc_digest :: digest
  rc_report_id :: string
  rc_message_id :: string
  rc_room :: bool
  rc_recipient_gone :: bool
  rc_reserved_bytes :: nat
  rc_worker_gone :: "ended_how option"
  rc_unit_gone :: "ended_how option"
  rc_withheld :: "(recipient \<times> string \<times> string) list"
  rc_phase :: claim_phase
  rc_prepared :: "content option"
  rc_unit_mark :: "unit_mark option"
  rc_unit_name :: "string option"
  rc_settled :: settle_state

record claim_table =
  ct_claims :: "(nat \<times> report_claim) list"
  ct_by_generation :: "((string \<times> string) \<times> nat) list"
  ct_next :: nat

definition claim_table_default :: claim_table where
  "claim_table_default = \<lparr>ct_claims = [], ct_by_generation = [], ct_next = 0\<rparr>"

definition claim_mint :: "claim_table \<Rightarrow> claim_table \<times> nat" where
  "claim_mint t = (t\<lparr>ct_next := ct_next t + 1\<rparr>, ct_next t + 1)"

definition claim_of_generation :: "string \<Rightarrow> string \<Rightarrow> claim_table \<Rightarrow> nat option" where
  "claim_of_generation pane agent t = map_of (ct_by_generation t) (pane, agent)"

definition claim_generation :: "report_claim \<Rightarrow> string \<times> string" where
  "claim_generation c = (rc_worker_pane c, rc_worker_agent c)"

definition claim_insert :: "report_claim \<Rightarrow> claim_table \<Rightarrow> claim_table" where
  "claim_insert c t =
     t\<lparr>ct_by_generation := AList.update (claim_generation c) (rc_claim_id c) (ct_by_generation t),
       ct_claims := AList.update (rc_claim_id c) c (ct_claims t)\<rparr>"

definition claim_remove :: "nat \<Rightarrow> claim_table \<Rightarrow> claim_table \<times> report_claim option" where
  "claim_remove i t =
     (case map_of (ct_claims t) i of
        None \<Rightarrow> (t, None)
      | Some c \<Rightarrow>
          (t\<lparr>ct_claims := AList.delete i (ct_claims t),
             ct_by_generation := (if map_of (ct_by_generation t) (claim_generation c) = Some i
                                  then AList.delete (claim_generation c) (ct_by_generation t) else ct_by_generation t)\<rparr>,
           Some c))"

definition claim_of_task :: "string \<Rightarrow> claim_table \<Rightarrow> nat option" where
  "claim_of_task task t = map_option (\<lambda>e. rc_claim_id (snd e)) (find (\<lambda>e. rc_mode (snd e) = ModeTask task) (ct_claims t))"

definition party :: "recipient \<Rightarrow> string option \<Rightarrow> outcome_party" where
  "party r role = \<lparr>pt_pane_id = rcp_pane_id r, pt_agent_id = (case rcp_agent_id r of Some a \<Rightarrow> a | None \<Rightarrow> ''''), pt_role = role\<rparr>"

end
