(* ===== verification/Report_Text.thy ===== *)
theory Report_Text
  imports Untrusted_Text
begin

text \<open>
  The text a report carries: how a string another process chose is bounded and escaped before it goes on the wire
  (\<^verbatim>\<open>src/src/config_validation.rs\<close>, \<^verbatim>\<open>src/src/report_recovery.rs\<close>), how a role or unit name is put in the
  frame that marks it as untrusted (\<^verbatim>\<open>src/src/state.rs\<close>), and that neither can carry a character a
  terminal acts on, nor close the frame from inside.
\<close>

section \<open>Bounding and escaping\<close>

definition bound_chars :: "string \<Rightarrow> nat \<Rightarrow> string" where
  "bound_chars s mx =
     (let total = length (chars s)
      in if total \<le> mx then s
         else of_chars (take mx (chars s) @ [8230]) @ '' ('' @ nat_string total @ '' characters total)'')"

definition needs_escape :: "scalar \<Rightarrow> bool" where
  "needs_escape c \<longleftrightarrow> is_control c \<or> is_bidi_format_char c"

text \<open>\<^verbatim>\<open>format!("\\u{{{:02x}}}")\<close>: at least two hexadecimal digits, in braces.\<close>

definition escape_hex2 :: "scalar \<Rightarrow> scalar list" where
  "escape_hex2 c = [92, 117, 123] @ (if c < 16 then 48 # hex_digits c else hex_digits c) @ [125]"

definition escape_terminal_char :: "scalar \<Rightarrow> scalar list" where
  "escape_terminal_char c =
     (if c = 10 then [92, 110] else if c = 13 then [92, 114] else if c = 9 then [92, 116]
      else if needs_escape c then escape_hex2 c else [c])"

definition escape_for_terminal :: "string \<Rightarrow> string" where
  "escape_for_terminal s =
     (if \<not> list_ex needs_escape (chars s) then s else of_chars (concat (map escape_terminal_char (chars s))))"

definition escape_field_for_log :: "string \<Rightarrow> nat \<Rightarrow> string" where
  "escape_field_for_log value mx = escape_for_terminal (bound_chars value mx)"

definition MAX_QUOTED_VALUE_CHARS :: nat where
  "MAX_QUOTED_VALUE_CHARS = 120"

definition escape_id_for_log :: "string \<Rightarrow> string" where
  "escape_id_for_log value = escape_field_for_log value MAX_QUOTED_VALUE_CHARS"

definition MAX_LABEL_CHARS :: nat where
  "MAX_LABEL_CHARS = 120"

definition MAX_SUMMARY_BYTES :: nat where
  "MAX_SUMMARY_BYTES = 1024"

definition wire_text :: "string \<Rightarrow> nat \<Rightarrow> string" where
  "wire_text text mx = of_chars (take mx (chars (escape_field_for_log text mx)))"

section \<open>Names in their frame\<close>

text \<open>\<^verbatim>\<open>replace("..", "")\<close>: pairs of dots go, from the left.\<close>

fun drop_dotdot :: "scalar list \<Rightarrow> scalar list" where
  "drop_dotdot (a # b # cs) = (if a = 46 \<and> b = 46 then drop_dotdot cs else a # drop_dotdot (b # cs))"
| "drop_dotdot cs = cs"

definition sanitize_role_name :: "string \<Rightarrow> string" where
  "sanitize_role_name name = of_chars (drop_dotdot (filter (\<lambda>c. c \<noteq> 47 \<and> c \<noteq> 92 \<and> c \<noteq> 0) (chars name)))"

definition rewrites_how_text_reads :: "scalar \<Rightarrow> bool" where
  "rewrites_how_text_reads c \<longleftrightarrow>
     is_control c \<or> c = 1564 \<or> (8203 \<le> c \<and> c \<le> 8207) \<or> (8234 \<le> c \<and> c \<le> 8238) \<or> (8288 \<le> c \<and> c \<le> 8292)
     \<or> (8294 \<le> c \<and> c \<le> 8303) \<or> c = 65279"

definition is_frame_breaking :: "scalar \<Rightarrow> bool" where
  "is_frame_breaking c \<longleftrightarrow> c = 91 \<or> c = 93 \<or> c = 60 \<or> c = 62 \<or> rewrites_how_text_reads c"

definition frame_open :: string where
  "frame_open = ''[UNTRUSTED-ROLE-LABEL: ''"

definition frame_close :: string where
  "frame_close = '' :END-UNTRUSTED-ROLE-LABEL]''"

definition frame_label :: "string \<Rightarrow> string" where
  "frame_label role = of_chars (filter (\<lambda>c. \<not> is_frame_breaking c) (chars (sanitize_role_name role)))"

definition quote_untrusted_role :: "string \<Rightarrow> string" where
  "quote_untrusted_role role = frame_open @ frame_label role @ frame_close"

definition MAX_INLINED_UNIT_NAME_CHARS :: nat where
  "MAX_INLINED_UNIT_NAME_CHARS = 120"

definition dispatch_reason :: "string \<Rightarrow> string" where
  "dispatch_reason unit_name = ''dispatch:'' @ of_chars (take MAX_INLINED_UNIT_NAME_CHARS (chars unit_name))"

section \<open>What they guarantee\<close>

lemma drop_dotdot_subset: "set (drop_dotdot cs) \<subseteq> set cs"
  by (induction cs rule: drop_dotdot.induct) auto

lemma drop_dotdot_other: "b \<noteq> 46 \<Longrightarrow> drop_dotdot (b # cs) = b # drop_dotdot cs"
  by (cases cs) auto

lemma drop_dotdot_no_pair: "drop_dotdot cs \<noteq> xs @ 46 # 46 # ys"
proof (induction cs arbitrary: xs rule: drop_dotdot.induct)
  case (1 a b cs)
  show ?case
  proof (cases "a = 46 \<and> b = 46")
    case True
    then show ?thesis using "1.IH"(1) by simp
  next
    case False
    then show ?thesis using "1.IH"(2) by (cases xs) (auto simp: drop_dotdot_other)
  qed
qed (auto simp: Cons_eq_append_conv)

text \<open>A path separator or a parent directory cannot be part of a sanitized name.\<close>

lemma sanitize_role_name_chars:
  "chars (sanitize_role_name name) = drop_dotdot (filter (\<lambda>c. c \<noteq> 47 \<and> c \<noteq> 92 \<and> c \<noteq> 0) (chars name))"
proof -
  have "list_all is_scalar (drop_dotdot (filter (\<lambda>c. c \<noteq> 47 \<and> c \<noteq> 92 \<and> c \<noteq> 0) (chars name)))"
    using drop_dotdot_subset[of "filter (\<lambda>c. c \<noteq> 47 \<and> c \<noteq> 92 \<and> c \<noteq> 0) (chars name)"] chars_scalar[of name]
    by (auto simp: list_all_iff)
  then show ?thesis by (simp add: sanitize_role_name_def)
qed

lemma chars_frame_label: "chars (frame_label role) = filter (\<lambda>c. \<not> is_frame_breaking c) (chars (sanitize_role_name role))"
  by (simp add: frame_label_def list_all_filterI chars_scalar)

lemma hex_digits_ascii: "c \<in> set (hex_digits n) \<Longrightarrow> 48 \<le> c \<and> c < 128 \<and> \<not> needs_escape c"
proof (induction n rule: hex_digits.induct)
  case (1 n)
  have "48 \<le> byte_of (hex_digit k) \<and> byte_of (hex_digit k) < 127" if "k < 16" for k
    using that by (simp add: hex_digit_def)
  from this[of n] this[of "n mod 16"] 1 show ?case
    by (auto simp: hex_digits.simps[of n] needs_escape_def is_control_def is_bidi_format_char_def split: if_splits)
qed

lemma escape_terminal_char_clean:
  assumes "d \<in> set (escape_terminal_char c)"
  shows "\<not> needs_escape d" "is_scalar c \<Longrightarrow> is_scalar d"
proof -
  have low: "\<not> needs_escape e" "is_scalar e" if "e = 48 \<or> e \<in> set (hex_digits c) \<or> e \<in> {92, 110, 114, 116, 117, 123, 125}" for e
    using that hex_digits_ascii[of e c] by (auto simp: needs_escape_def is_control_def is_bidi_format_char_def is_scalar_def)
  have "(d = 48 \<or> d \<in> set (hex_digits c) \<or> d \<in> {92, 110, 114, 116, 117, 123, 125}) \<or> (d = c \<and> \<not> needs_escape c)"
    using assms by (auto simp: escape_terminal_char_def escape_hex2_def split: if_splits)
  with low show "\<not> needs_escape d" "is_scalar c \<Longrightarrow> is_scalar d" by auto
qed

lemma escape_for_terminal_clean: "list_all clean_scalar (chars (escape_for_terminal s))"
proof (cases "list_ex needs_escape (chars s)")
  case False
  then show ?thesis by (simp add: escape_for_terminal_def list_all_iff list_ex_iff clean_scalar_def needs_escape_def)
next
  case True
  have "list_all is_scalar (concat (map escape_terminal_char (chars s)))"
    using chars_scalar[of s] escape_terminal_char_clean(2) by (fastforce simp: list_all_iff)
  then have "chars (escape_for_terminal s) = concat (map escape_terminal_char (chars s))"
    using True by (simp add: escape_for_terminal_def)
  then show ?thesis using escape_terminal_char_clean(1) by (auto simp: list_all_iff clean_scalar_def needs_escape_def)
qed

lemma wire_text_safe:
  "length (chars (wire_text text mx)) \<le> mx" "list_all clean_scalar (chars (wire_text text mx))" "is_utf8 (wire_text text mx)"
  using escape_for_terminal_clean
  by (simp_all add: wire_text_def escape_field_for_log_def list_all_takeI chars_scalar)

text \<open>A byte below 128 of encoded text is a character of it.\<close>

lemma of_chars_ascii:
  assumes "c \<in> set (of_chars cs)" "byte_of c < 128" "list_all is_scalar cs"
  shows "byte_of c \<in> set cs"
proof -
  have "byte_of c \<in> set (utf8_enc cs)" using assms(1) str_bytes_of_chars[OF assms(3)] by (metis imageI list.set_map str_bytes_def)
  then obtain d where "d \<in> set cs" "byte_of c \<in> set (utf8_enc1 d)" by (auto simp: utf8_enc_def)
  with assms(2) show ?thesis by (auto simp: utf8_enc1_def split: if_splits)
qed

lemma frame_label_no_mark:
  assumes "c \<in> set (frame_label role)"
  shows "c \<notin> set ''[]<>''"
proof
  assume mark: "c \<in> set ''[]<>''"
  then have "byte_of c \<in> {91, 93, 60, 62}" by (auto simp: byte_of_def)
  moreover have "byte_of c \<in> set (chars (frame_label role))"
    using of_chars_ascii[OF assms[unfolded frame_label_def]] calculation by (auto simp: chars_frame_label list_all_filterI chars_scalar)
  ultimately show False by (auto simp: chars_frame_label is_frame_breaking_def)
qed

text \<open>
  C39: A role or unit name a project or an agent chose is quoted so that it cannot pass for the deck's own words: whatever the
  name, the quote is the frame's opening, a label, and the frame's closing, and the label holds no bracket,
  so the frame opens and closes exactly once; no control, bidirectional or invisible character, so it reads as
  it is; and no path separator. A field bounded for the wire keeps at most the characters allowed, none of which
  a terminal acts on.
\<close>

theorem untrusted_name_framed:
  "quote_untrusted_role role = frame_open @ frame_label role @ frame_close
   \<and> count_list (quote_untrusted_role role) (CHR ''['') = 1 \<and> count_list (quote_untrusted_role role) (CHR '']'') = 1
   \<and> list_all (\<lambda>c. \<not> rewrites_how_text_reads c \<and> c \<noteq> 47 \<and> c \<noteq> 92) (chars (frame_label role))
   \<and> length (chars (wire_text text mx)) \<le> mx \<and> list_all clean_scalar (chars (wire_text text mx))"
proof -
  have none: "count_list (frame_label role) (CHR ''['') = 0" "count_list (frame_label role) (CHR '']'') = 0"
    using frame_label_no_mark[of _ role] by (auto intro!: count_notin)
  have "\<not> rewrites_how_text_reads c \<and> c \<noteq> 47 \<and> c \<noteq> 92" if "c \<in> set (chars (frame_label role))" for c
    using that drop_dotdot_subset by (fastforce simp: chars_frame_label is_frame_breaking_def sanitize_role_name_chars)
  with none wire_text_safe(1,2) show ?thesis by (simp add: list_all_iff quote_untrusted_role_def frame_open_def frame_close_def)
qed

lemma quoted_name_example:
  "quote_untrusted_role ''a]<b/'' = ''[UNTRUSTED-ROLE-LABEL: ab :END-UNTRUSTED-ROLE-LABEL]''"
  by code_simp

end
