(* ===== verification/Dispatch_Routes.thy ===== *)
theory Dispatch_Routes
  imports Inbox_Data Step_Invariant "HOL-Library.AList"
begin

text \<open>
  Who a dispatched unit reports back to (\<^verbatim>\<open>src/src/dispatch_return.rs\<close>): the routes, keyed by the pane the unit's
  terminal agent runs in, and the latch that guards the deck's report state (\<^verbatim>\<open>src/src/guarded.rs\<close>). A
  hash table is an association list with one entry per key.
\<close>

section \<open>Routes\<close>

record dispatch_caller =
  dc_pane_id :: string
  dc_agent_id :: string
  dc_unit_name :: string

record retained_return =
  rr_unit_agent_id :: string
  rr_caller :: dispatch_caller
  rr_unit_id :: string
  rr_orphaned :: bool

record route_edge =
  re_unit_pane_id :: string
  re_unit_agent_id :: string
  re_caller_pane_id :: string
  re_caller_agent_id :: string

type_synonym routes = "(string \<times> retained_return) list"

definition edge_of :: "string \<times> retained_return \<Rightarrow> route_edge" where
  "edge_of e =
     \<lparr>re_unit_pane_id = fst e, re_unit_agent_id = rr_unit_agent_id (snd e),
      re_caller_pane_id = dc_pane_id (rr_caller (snd e)), re_caller_agent_id = dc_agent_id (rr_caller (snd e))\<rparr>"

definition route_edges :: "routes \<Rightarrow> route_edge list" where
  "route_edges rs = map edge_of (filter (\<lambda>e. \<not> rr_orphaned (snd e)) rs)"

definition route_register :: "string \<Rightarrow> string \<Rightarrow> string \<Rightarrow> dispatch_caller \<Rightarrow> routes \<Rightarrow> routes \<times> retained_return option" where
  "route_register pane agent u caller rs =
     (AList.update pane \<lparr>rr_unit_agent_id = agent, rr_caller = caller, rr_unit_id = u, rr_orphaned = False\<rparr> rs, map_of rs pane)"

definition route_take_for_unit :: "string \<Rightarrow> string \<Rightarrow> routes \<Rightarrow> routes \<times> retained_return option" where
  "route_take_for_unit pane u rs =
     (case map_of rs pane of
        Some r \<Rightarrow> (if rr_unit_id r = u then (AList.delete pane rs, Some r) else (rs, None))
      | None \<Rightarrow> (rs, None))"

definition route_of_unit :: "string \<Rightarrow> routes \<Rightarrow> (string \<times> retained_return) option" where
  "route_of_unit u rs = find (\<lambda>e. rr_unit_id (snd e) = u) rs"

definition route_take_unit :: "string \<Rightarrow> routes \<Rightarrow> routes \<times> retained_return option" where
  "route_take_unit u rs =
     (case route_of_unit u rs of
        None \<Rightarrow> (rs, None)
      | Some (pane, r) \<Rightarrow> (AList.delete pane rs, map_of rs pane))"

definition route_retarget :: "string \<Rightarrow> string \<Rightarrow> string \<Rightarrow> string \<Rightarrow> routes \<Rightarrow> routes \<times> bool" where
  "route_retarget pane u old_agent new_agent rs =
     (case map_of rs pane of
        Some r \<Rightarrow>
          (if rr_unit_id r = u \<and> rr_unit_agent_id r = old_agent
           then (AList.update pane (r\<lparr>rr_unit_agent_id := new_agent\<rparr>) rs, True) else (rs, False))
      | None \<Rightarrow> (rs, False))"

definition calls_back :: "string \<Rightarrow> string option \<Rightarrow> retained_return \<Rightarrow> bool" where
  "calls_back pane agent r \<longleftrightarrow>
     \<not> rr_orphaned r \<and> dc_pane_id (rr_caller r) = pane \<and> (case agent of Some a \<Rightarrow> dc_agent_id (rr_caller r) = a | None \<Rightarrow> True)"

definition orphan_where :: "(retained_return \<Rightarrow> bool) \<Rightarrow> routes \<Rightarrow> routes" where
  "orphan_where gone rs = map (\<lambda>(pane, r). (pane, if gone r then r\<lparr>rr_orphaned := True\<rparr> else r)) rs"

definition route_orphan_caller :: "string \<Rightarrow> string \<Rightarrow> routes \<Rightarrow> routes \<times> route_edge list" where
  "route_orphan_caller pane agent rs =
     (orphan_where (calls_back pane (Some agent)) rs, map edge_of (filter (\<lambda>e. calls_back pane (Some agent) (snd e)) rs))"

definition route_orphan_caller_pane :: "string \<Rightarrow> routes \<Rightarrow> routes \<times> nat" where
  "route_orphan_caller_pane pane rs =
     (orphan_where (calls_back pane None) rs, length (filter (\<lambda>e. calls_back pane None (snd e)) rs))"

definition route_resolve :: "string \<Rightarrow> routes \<Rightarrow> retained_return option" where
  "route_resolve pane rs = map_of rs pane"

definition route_take :: "string \<Rightarrow> routes \<Rightarrow> routes \<times> retained_return option" where
  "route_take pane rs = (AList.delete pane rs, map_of rs pane)"

definition route_evict_pane :: "string \<Rightarrow> routes \<Rightarrow> routes \<times> retained_return list" where
  "route_evict_pane pane rs = (AList.delete pane rs, case map_of rs pane of Some r \<Rightarrow> [r] | None \<Rightarrow> [])"

definition route_evict_exited :: "string \<Rightarrow> string \<Rightarrow> routes \<Rightarrow> routes \<times> retained_return list" where
  "route_evict_exited pane exited rs =
     (case map_of rs pane of
        Some r \<Rightarrow> (if rr_unit_agent_id r = exited then (AList.delete pane rs, [r]) else (rs, []))
      | None \<Rightarrow> (rs, []))"

section \<open>The torn latch\<close>

record 'a guarded =
  gd_value :: "'a option"
  gd_torn :: bool

definition guarded_new :: "'a \<Rightarrow> 'a guarded" where
  "guarded_new v = \<lparr>gd_value = Some v, gd_torn = False\<rparr>"

text \<open>
  What a section does: refused, the closure panicked, or it returned. A closure is handed the owner, whose latch is
  then set, and the value; what it left in the owner when it panicked is kept.
\<close>

datatype 'r section_end = Torn | Panicked | Returned 'r

definition guarded_section ::
  "('s \<Rightarrow> 'a guarded) \<Rightarrow> ('a guarded \<Rightarrow> 's \<Rightarrow> 's) \<Rightarrow> ('s \<Rightarrow> 'a \<Rightarrow> 's \<times> ('r \<times> 'a) option) \<Rightarrow> 's \<Rightarrow> 's \<times> 'r section_end" where
  "guarded_section get put f s =
     (if gd_torn (get s) then (s, Torn)
      else case gd_value (get s) of
        None \<Rightarrow> (s, Torn)
      | Some v \<Rightarrow>
          (case f (put \<lparr>gd_value = None, gd_torn = True\<rparr> s) v of
             (s', None) \<Rightarrow> (s', Panicked)
           | (s', Some (r, v')) \<Rightarrow> (put \<lparr>gd_value = Some v', gd_torn = False\<rparr> s', Returned r)))"

definition guarded_read :: "('a \<Rightarrow> 'r) \<Rightarrow> 'a guarded \<Rightarrow> 'r option" where
  "guarded_read f g = (case gd_value g of Some v \<Rightarrow> (if gd_torn g then None else Some (f v)) | None \<Rightarrow> None)"

section \<open>What the routes keep\<close>

lemma orphan_keys: "map fst (orphan_where gone rs) = map fst rs"
  by (simp add: orphan_where_def case_prod_unfold)

lemma orphan_map_of: "map_of (orphan_where gone rs) pane = map_option (\<lambda>r. if gone r then r\<lparr>rr_orphaned := True\<rparr> else r) (map_of rs pane)"
  by (induction rs) (auto simp: orphan_where_def)

text \<open>A guarded value: an owner's latch is reached only by the lens of its field.\<close>

locale guarded_field =
  fixes get :: "'s \<Rightarrow> 'a guarded"
    and put :: "'a guarded \<Rightarrow> 's \<Rightarrow> 's"
  assumes get_put: "get (put g s) = g"
begin

lemma torn_refuses: "gd_torn (get s) \<Longrightarrow> guarded_section get put f s = (s, Torn)"
  by (simp add: guarded_section_def)

lemma panic_tears:
  assumes "guarded_section get put f s = (s', Panicked)" "\<And>t v. get (fst (f t v)) = get t"
  shows "gd_torn (get s') \<and> gd_value (get s') = None"
  using assms(1) assms(2) get_put
  by (auto simp: guarded_section_def split: if_splits option.splits prod.splits) (metis fst_conv guarded.select_convs)+

lemma return_seals: "guarded_section get put f s = (s', Returned r) \<Longrightarrow> \<not> gd_torn (get s') \<and> gd_value (get s') \<noteq> None"
  using get_put by (auto simp: guarded_section_def split: if_splits option.splits prod.splits)

end

end
