(* ===== verification/Report_Hub.thy ===== *)
theory Report_Hub
  imports Report_Recovery Report_Text Dispatch_Routes Hook_Provenance Inbox_Ops
begin

text \<open>
  The inbox hub's part of a report: the claim an admission installs, its staging, commit and failure
  (\<^verbatim>\<open>src/src/inbox_claims.rs\<close>), the life of a dispatched unit (\<^verbatim>\<open>src/src/inbox_reports.rs\<close>), and what the inbox's
  events do to reports and tasks (\<^verbatim>\<open>src/src/inbox_hub.rs\<close>). The state is the part of the hub those sections write: the
  inbox, the report state behind its latch, the routes, the notices owed, and the calls made to the file store.

  Inputs of a call stand for what the code asks of others: the file store's answers, the time, random bytes, which
  agents are running. The words of a refusal and of a notice are left out or are inputs. Calls to the file store, and what a
  reported task leaves to its delivery watch and its saved body, are recorded as lists of calls; the other consumers of
  the inbox's events (waiters, broadcasts) are left out. A call answers \<^const>\<open>None\<close> only where the inbox needs more random bytes than it is given.
\<close>

section \<open>Bodies held in memory\<close>

text \<open>
  The clocks a call reads: the wall seconds and monotonic instant of \<^verbatim>\<open>Now\<close>, and the wall milliseconds a recovery row is
  stamped with.
\<close>

record deck_now =
  dn_wall :: int
  dn_mono :: instant
  dn_ms :: int

text \<open>Where a result is in its lifetime (\<^verbatim>\<open>src/src/retained_store.rs\<close>).\<close>

datatype lifetime = LtReferenced | LtAcknowledged deck_now | LtRecovered deck_now

definition ACK_RETENTION :: duration where
  "ACK_RETENTION = from_secs (24 * 60 * 60)"

definition RECOVERY_RETENTION :: duration where
  "RECOVERY_RETENTION = from_secs (7 * 24 * 60 * 60)"

definition lifetime_acknowledge :: "deck_now \<Rightarrow> lifetime \<Rightarrow> lifetime" where
  "lifetime_acknowledge clk _ = LtAcknowledged clk"

definition lifetime_recover :: "deck_now \<Rightarrow> lifetime \<Rightarrow> lifetime" where
  "lifetime_recover clk life = (if life = LtReferenced then LtRecovered clk else life)"

fun lifetime_ends :: "lifetime \<Rightarrow> instant option" where
  "lifetime_ends LtReferenced = None"
| "lifetime_ends (LtAcknowledged since) = Some (dn_mono since + ACK_RETENTION)"
| "lifetime_ends (LtRecovered since) = Some (dn_mono since + RECOVERY_RETENTION)"

text \<open>A dispatch result whose file could not be written; the room the store holds for it is a number.\<close>

record fallback_body =
  fb_contents :: string
  fb_held_since :: instant
  fb_held :: "nat option"
  fb_lifetime :: lifetime

section \<open>State\<close>

record report_state =
  rs_outcomes :: outcome_store
  rs_accepted :: "(string \<times> accepted_report) list"
  rs_units :: unit_table
  rs_publications :: "(publish_key \<times> publication) list"
  rs_fallback :: "(string \<times> fallback_body) list"
  rs_tasks :: task_ledger
  rs_claims :: claim_table
  rs_exit_walked :: "string list"
  rs_incarnation :: string

text \<open>\<^verbatim>\<open>from_env\<close>: the two limits the environment sets, and random bytes for this run's name.\<close>

definition report_state_new :: "nat \<Rightarrow> nat \<Rightarrow> nat list \<Rightarrow> report_state" where
  "report_state_new outcomes_max tombstones_max bytes =
     \<lparr>rs_outcomes = outcome_store_new outcomes_max, rs_accepted = [], rs_units = unit_table_new (min u64_max (tombstones_max * 16)),
      rs_publications = [], rs_fallback = [], rs_tasks = task_ledger_new tombstones_max, rs_claims = claim_table_default, rs_exit_walked = [],
      rs_incarnation = concat (map hex_byte bytes)\<rparr>"

text \<open>The calls made to the file store, and what a reported task leaves to its watch and to its saved body.\<close>

datatype store_call =
    StoreAcknowledged string
  | StoreRecovered string
  | StoreContinueLifetime string lifetime
  | StoreEndHeld nat

datatype task_call = EndWatch string | ReleaseBody string string

type_synonym owed_notice = "recipient \<times> string \<times> string"

record report_hub =
  rh_inbox :: inbox
  rh_reports :: "report_state guarded"
  rh_routes :: routes
  rh_owed :: "owed_notice list"
  rh_wakes :: "recipient list"
  rh_store :: "store_call list"
  rh_task_calls :: "task_call list"
  rh_pins :: "(string \<times> string \<times> nat option) list"

text \<open>\<^verbatim>\<open>HubState::guarded_section\<close> for a closure that returns.\<close>

definition in_section ::
  "(report_hub \<Rightarrow> report_state \<Rightarrow> report_hub \<times> report_state \<times> 'r) \<Rightarrow> report_hub \<Rightarrow> report_hub \<times> 'r section_end" where
  "in_section f =
     guarded_section rh_reports (\<lambda>g h. h\<lparr>rh_reports := g\<rparr>) (\<lambda>h v. case f h v of (h', v', r) \<Rightarrow> (h', Some (r, v')))"

interpretation hub_latch: guarded_field rh_reports "\<lambda>g h. h\<lparr>rh_reports := g\<rparr>"
  by unfold_locales simp

lemma in_section_torn: "gd_torn (rh_reports h) \<Longrightarrow> in_section f h = (h, Torn)"
  unfolding in_section_def by (rule hub_latch.torn_refuses)

section \<open>What the inbox's events do\<close>

definition store_for :: "string option \<Rightarrow> (string \<Rightarrow> store_call) \<Rightarrow> store_call list" where
  "store_for report call = (case report of Some r \<Rightarrow> [call r] | None \<Rightarrow> [])"

text \<open>The body of a report held in memory follows the events of its message.\<close>

definition age_body :: "string option \<Rightarrow> (lifetime \<Rightarrow> lifetime) \<Rightarrow> report_state \<Rightarrow> report_state" where
  "age_body report f v =
     (case report of
        None \<Rightarrow> v
      | Some r \<Rightarrow> v\<lparr>rs_fallback := AList.map_entry r (\<lambda>b. b\<lparr>fb_lifetime := f (fb_lifetime b)\<rparr>) (rs_fallback v)\<rparr>)"

definition settle_undeliverable :: "deck_now \<Rightarrow> string \<Rightarrow> undeliverable_reason option \<Rightarrow> report_state \<Rightarrow> report_state \<times> store_call list" where
  "settle_undeliverable clk i reason v =
     (case map_of (rs_accepted v) i of
        None \<Rightarrow> (v, [])
      | Some entry \<Rightarrow>
          (let v1 = v\<lparr>rs_accepted := AList.delete i (rs_accepted v)\<rparr>;
               v2 = (case cause_of (case reason of Some r \<Rightarrow> r | None \<Rightarrow> AgentExited) of
                       None \<Rightarrow> v1
                     | Some cause \<Rightarrow>
                         v1\<lparr>rs_outcomes := fst (outcome_insert (into_row entry cause (dn_ms clk)) (Some i) (rs_outcomes v1))\<rparr>)
           in (age_body (ar_report_id entry) (lifetime_recover clk) v2, store_for (ar_report_id entry) StoreRecovered)))"

definition settle_acknowledged :: "deck_now \<Rightarrow> string \<Rightarrow> report_state \<Rightarrow> report_state \<times> store_call list" where
  "settle_acknowledged clk i v =
     (case map_of (rs_accepted v) i of
        Some entry \<Rightarrow>
          (age_body (ar_report_id entry) (lifetime_acknowledge clk) (v\<lparr>rs_accepted := AList.delete i (rs_accepted v)\<rparr>),
           store_for (ar_report_id entry) StoreAcknowledged)
      | None \<Rightarrow>
          (case acknowledged_late i (rs_outcomes v) of
             (outcomes, None) \<Rightarrow> (v, [])
           | (outcomes, Some report) \<Rightarrow>
               (age_body report (lifetime_acknowledge clk) (v\<lparr>rs_outcomes := outcomes\<rparr>), store_for report StoreAcknowledged)))"

definition settle_accepted_report :: "deck_now \<Rightarrow> inbox_event \<Rightarrow> report_state \<Rightarrow> report_state \<times> store_call list" where
  "settle_accepted_report clk ev v =
     (case ev_state ev of
        NFetched \<Rightarrow> (v\<lparr>rs_accepted := AList.map_entry (ev_message_id ev) (\<lambda>e. e\<lparr>ar_handed := True\<rparr>) (rs_accepted v)\<rparr>, [])
      | NClaimed \<Rightarrow> (v\<lparr>rs_accepted := AList.map_entry (ev_message_id ev) (\<lambda>e. e\<lparr>ar_handed := True\<rparr>) (rs_accepted v)\<rparr>, [])
      | NAcknowledged \<Rightarrow> settle_acknowledged clk (ev_message_id ev) v
      | NUndeliverable \<Rightarrow> settle_undeliverable clk (ev_message_id ev) (ev_undeliverable_reason ev) v
      | NQueued \<Rightarrow> (v, []))"

definition change_task :: "string \<Rightarrow> (deck_task \<Rightarrow> deck_task) \<Rightarrow> report_state \<Rightarrow> report_state" where
  "change_task i f v = v\<lparr>rs_tasks := (rs_tasks v)\<lparr>tl_open := AList.map_entry i f (tl_open (rs_tasks v))\<rparr>\<rparr>"

definition settle_in :: "string \<Rightarrow> task_tombstone \<Rightarrow> report_state \<Rightarrow> report_state \<times> deck_task option" where
  "settle_in i tombstone v =
     (case task_settle i tombstone (rs_tasks v) of (tasks, answer) \<Rightarrow> (v\<lparr>rs_tasks := tasks\<rparr>, answer))"

definition settle_task :: "inbox_event \<Rightarrow> report_state \<Rightarrow> report_state" where
  "settle_task ev v =
     (let i = ev_message_id ev
      in case ev_state ev of
           NAcknowledged \<Rightarrow> change_task i (\<lambda>t. t\<lparr>tk_delivery := TaskAcknowledged\<rparr>) v
         | NUndeliverable \<Rightarrow>
             (case ev_undeliverable_reason ev of
                Some AgentExited \<Rightarrow>
                  (if i \<in> set (rs_exit_walked v) then v\<lparr>rs_exit_walked := removeAll i (rs_exit_walked v)\<rparr>
                   else fst (settle_in i TombClosed v))
              | Some undeliverable_reason.Superseded \<Rightarrow> v
              | None \<Rightarrow> v
              | Some _ \<Rightarrow> change_task i (\<lambda>t. t\<lparr>tk_delivery := TaskEnded\<rparr>) v)
         | _ \<Rightarrow> v)"

definition settle_event :: "deck_now \<Rightarrow> inbox_event \<Rightarrow> report_state \<times> store_call list \<Rightarrow> report_state \<times> store_call list" where
  "settle_event clk ev s =
     (case settle_accepted_report clk ev (fst s) of (v, calls) \<Rightarrow> (settle_task ev v, snd s @ calls))"

definition drain_events_in_section :: "deck_now \<Rightarrow> report_hub \<Rightarrow> report_state \<Rightarrow> report_hub \<times> report_state" where
  "drain_events_in_section clk h v =
     (case drain_events (rh_inbox h) of
        (ib, events) \<Rightarrow>
          (case fold (settle_event clk) events (v, []) of
             (v', calls) \<Rightarrow> (h\<lparr>rh_inbox := ib, rh_store := rh_store h @ calls\<rparr>, v')))"

text \<open>\<^verbatim>\<open>drain_events\<close>: the same in a section of its own; torn, the events are only forgotten here.\<close>

definition hub_drain :: "deck_now \<Rightarrow> report_hub \<Rightarrow> report_hub" where
  "hub_drain clk h =
     (let (ib, events) = drain_events (rh_inbox h); h1 = h\<lparr>rh_inbox := ib\<rparr>
      in if events = [] then h1
         else fst (in_section (\<lambda>s v. case fold (settle_event clk) events (v, []) of (v', calls) \<Rightarrow> (s\<lparr>rh_store := rh_store s @ calls\<rparr>, v', ())) h1))"

end
