(* ===== verification/Report_Claims.thy ===== *)
theory Report_Claims
  imports Report_Hub
begin

text \<open>
  A report's claim (\<^verbatim>\<open>src/src/inbox_claims.rs\<close>): how it is admitted, staged, committed and failed. The file store's
  answers to a call are an input; the reservation it hands out is a number.
\<close>

section \<open>Answers\<close>

datatype work_done_code =
    UNKNOWN_TASK | TASK_SUPERSEDED | TASK_CLOSED | INCOMPATIBLE_MODE | NOT_A_WORKER | DECK_UNAVAILABLE | UNATTESTED | REPORT_PENDING
  | REPORT_TOO_LARGE | REPORT_STORE_FULL | REPORT_SAVE_FAILED | DECK_FULL | UNSUPPORTED_MODE | REPORT_DIFFERS

datatype disposition = WdAccepted | WdAlreadyAccepted | WdUncorrelated | WdRefused | WdUnknown

record task_reply =
  tr_disposition :: disposition
  tr_task_id :: "string option"
  tr_report_id :: "string option"
  tr_destination :: "destination option"
  tr_differs :: bool
  tr_code :: "work_done_code option"

definition refused :: "work_done_code \<Rightarrow> task_reply" where
  "refused code =
     \<lparr>tr_disposition = WdRefused, tr_task_id = None, tr_report_id = None, tr_destination = None, tr_differs = False, tr_code = Some code\<rparr>"

definition answered_with :: "disposition \<Rightarrow> string option \<Rightarrow> string option \<Rightarrow> destination \<Rightarrow> bool \<Rightarrow> task_reply" where
  "answered_with disposition task report dest differs =
     \<lparr>tr_disposition = disposition, tr_task_id = task, tr_report_id = report, tr_destination = Some dest, tr_differs = differs,
      tr_code = None\<rparr>"

record claim_spec =
  sp_worker_pane :: string
  sp_worker_agent :: string
  sp_digest :: digest
  sp_report_id :: string
  sp_file_bytes :: nat

record claimed =
  cd_claim_id :: nat
  cd_message_id :: string
  cd_reservation :: nat
  cd_recipient :: "recipient option"
  cd_role :: "string option"
  cd_mode :: claim_mode
  cd_unit_name :: "string option"
  cd_instance :: "string option"

datatype claim_admission = AdmClaimed claimed | AdmAnswer task_reply | AdmWait nat

datatype store_refused = RefBytes | RefFiles | RefUnusable | RefUnavailable | RefSlots

text \<open>The file store as one call finds it: its lock, and what a reservation of some bytes is answered.\<close>

record store_view =
  sv_lock :: bool
  sv_reserve :: "nat \<Rightarrow> store_refused + nat"

fun store_refusal :: "store_refused \<Rightarrow> task_reply" where
  "store_refusal RefBytes = refused REPORT_STORE_FULL"
| "store_refusal RefFiles = refused REPORT_STORE_FULL"
| "store_refusal RefUnusable = refused REPORT_SAVE_FAILED"
| "store_refusal RefUnavailable = refused DECK_UNAVAILABLE"
| "store_refusal RefSlots = refused DECK_UNAVAILABLE"

section \<open>Admission\<close>

definition reserve_room :: "store_view \<Rightarrow> nat \<Rightarrow> inbox \<Rightarrow> inbox \<times> (task_reply + nat)" where
  "reserve_room store bytes ib =
     (case reserve_reply ib of
        (ib1, Inl _) \<Rightarrow> (ib1, Inl (refused DECK_FULL))
      | (ib1, Inr _) \<Rightarrow>
          (case sv_reserve store bytes of
             Inr reservation \<Rightarrow> (ib1, Inr reservation)
           | Inl refusal \<Rightarrow> (release_reply ib1, Inl (store_refusal refusal))))"

definition claim_of_spec ::
  "nat \<Rightarrow> claim_spec \<Rightarrow> claim_mode \<Rightarrow> recipient option \<Rightarrow> string option \<Rightarrow> nat option \<times> nat option \<Rightarrow> string option \<Rightarrow> string \<Rightarrow> report_claim" where
  "claim_of_spec i spec mode to role debt unit_name message_id =
     \<lparr>rc_claim_id = i, rc_mode = mode, rc_worker_pane = sp_worker_pane spec, rc_worker_agent = sp_worker_agent spec,
      rc_recipient = to, rc_role = role, rc_arm_id = fst debt, rc_seq = snd debt, rc_digest = sp_digest spec,
      rc_report_id = sp_report_id spec, rc_message_id = message_id, rc_room = True, rc_recipient_gone = False,
      rc_reserved_bytes = sp_file_bytes spec, rc_worker_gone = None, rc_unit_gone = None, rc_withheld = [],
      rc_phase = CpAdmitted, rc_prepared = None, rc_unit_mark = None, rc_unit_name = unit_name, rc_settled = CsPending\<rparr>"

definition install ::
  "claim_spec \<Rightarrow> claim_mode \<Rightarrow> recipient option \<Rightarrow> string option \<Rightarrow> nat option \<times> nat option \<Rightarrow> string option \<Rightarrow> string \<Rightarrow> nat
     \<Rightarrow> report_state \<Rightarrow> report_state \<times> claimed" where
  "install spec mode to role debt unit_name message_id reservation v =
     (case claim_mint (rs_claims v) of
        (claims, i) \<Rightarrow>
          (v\<lparr>rs_claims := claim_insert (claim_of_spec i spec mode to role debt unit_name message_id) claims\<rparr>,
           \<lparr>cd_claim_id = i, cd_message_id = message_id, cd_reservation = reservation, cd_recipient = to, cd_role = role, cd_mode = mode,
            cd_unit_name = unit_name, cd_instance = None\<rparr>))"

definition wait_on :: "nat \<Rightarrow> report_state \<Rightarrow> claim_admission" where
  "wait_on i v = (case map_of (ct_claims (rs_claims v)) i of Some _ \<Rightarrow> AdmWait i | None \<Rightarrow> AdmAnswer (refused REPORT_PENDING))"

definition generation_claims :: "claim_spec \<Rightarrow> report_state \<Rightarrow> bool" where
  "generation_claims spec v \<longleftrightarrow> claim_of_generation (sp_worker_pane spec) (sp_worker_agent spec) (rs_claims v) \<noteq> None"

text \<open>Room, then the claim: the common end of the three admissions.\<close>

definition claim_with_room ::
  "store_view \<Rightarrow> claim_spec \<Rightarrow> claim_mode \<Rightarrow> recipient option \<Rightarrow> string option \<Rightarrow> nat option \<times> nat option \<Rightarrow> string option \<Rightarrow> string
     \<Rightarrow> report_hub \<Rightarrow> report_state \<Rightarrow> report_hub \<times> report_state \<times> (task_reply + claimed)" where
  "claim_with_room store spec mode to role debt unit_name message_id h v =
     (case reserve_room store (sp_file_bytes spec) (rh_inbox h) of
        (ib, Inl reply) \<Rightarrow> (h\<lparr>rh_inbox := ib\<rparr>, v, Inl reply)
      | (ib, Inr reservation) \<Rightarrow>
          (case install spec mode to role debt unit_name message_id reservation v of
             (v', cl) \<Rightarrow> (h\<lparr>rh_inbox := ib\<rparr>, v', Inr cl)))"

definition settled_answer :: "claim_spec \<Rightarrow> string \<Rightarrow> settled_task \<Rightarrow> task_reply" where
  "settled_answer spec task s =
     (if \<not> (st_worker_pane s = sp_worker_pane spec \<and> st_worker_agent s = sp_worker_agent spec) then refused UNKNOWN_TASK
      else case st_tombstone s of
        TombReported report dig dest \<Rightarrow>
          answered_with WdAlreadyAccepted (Some task) report dest (case dig of Some d \<Rightarrow> d \<noteq> sp_digest spec | None \<Rightarrow> False)
      | TombSuperseded _ \<Rightarrow> refused TASK_SUPERSEDED
      | TombClosed \<Rightarrow> refused TASK_CLOSED)"

definition task_section ::
  "store_view \<Rightarrow> claim_spec \<Rightarrow> string \<Rightarrow> string option \<Rightarrow> string \<Rightarrow> report_hub \<Rightarrow> report_state \<Rightarrow> report_hub \<times> report_state \<times> claim_admission" where
  "task_section store spec task seat_instance message_id h v =
     (case task_lookup_of task (rs_tasks v) of
        LookupUnknown \<Rightarrow> (h, v, AdmAnswer (refused UNKNOWN_TASK))
      | LookupSettled s \<Rightarrow> (h, v, AdmAnswer (settled_answer spec task s))
      | LookupOpen t \<Rightarrow>
          (let b = tk_binding t
           in if \<not> (tb_worker_pane b = sp_worker_pane spec \<and> tb_worker_agent b = sp_worker_agent spec)
                 \<or> (tb_instance b \<noteq> None \<and> seat_instance \<noteq> None \<and> tb_instance b \<noteq> seat_instance)
              then (h, v, AdmAnswer (refused UNKNOWN_TASK))
              else case tk_state t of
                TaskReporting i \<Rightarrow> (h, v, wait_on i v)
              | TaskOpen _ \<Rightarrow>
                  (if generation_claims spec v then (h, v, AdmAnswer (refused REPORT_PENDING))
                   else case claim_with_room store spec (ModeTask task) (tb_orchestrator b) (Some (tb_role b)) (tb_arm_id b, tb_seq b)
                               None message_id h v of
                     (h', v', Inl reply) \<Rightarrow> (h', v', AdmAnswer reply)
                   | (h', v', Inr cl) \<Rightarrow>
                       (h', change_task task (\<lambda>t. t\<lparr>tk_state := TaskReporting (cd_claim_id cl)\<rparr>) v',
                        AdmClaimed (cl\<lparr>cd_instance := tb_instance b\<rparr>)))))"

text \<open>What every admission does around its section: without a store, or with its lock broken, nothing is admitted.\<close>

definition admit_with ::
  "store_view option \<Rightarrow> (store_view \<Rightarrow> report_hub \<Rightarrow> report_state \<Rightarrow> report_hub \<times> report_state \<times> claim_admission) \<Rightarrow> report_hub
     \<Rightarrow> report_hub \<times> claim_admission" where
  "admit_with store section h =
     (case store of
        None \<Rightarrow> (h, AdmAnswer (refused REPORT_SAVE_FAILED))
      | Some s \<Rightarrow>
          (if \<not> sv_lock s then (h, AdmAnswer (refused DECK_UNAVAILABLE))
           else case in_section (section s) h of
             (h', Returned adm) \<Rightarrow> (h', adm)
           | (h', _) \<Rightarrow> (h', AdmAnswer (refused DECK_UNAVAILABLE))))"

definition admit_task_claim :: "store_view option \<Rightarrow> nat list \<Rightarrow> claim_spec \<Rightarrow> string \<Rightarrow> string option \<Rightarrow> report_hub \<Rightarrow> report_hub \<times> claim_admission" where
  "admit_task_claim store bytes spec task seat_instance h =
     admit_with store (\<lambda>s. task_section s spec task seat_instance (message_id_generate (ib_deck (rh_inbox h)) bytes)) h"

definition uncorrelated_section ::
  "store_view \<Rightarrow> claim_spec \<Rightarrow> recipient option \<Rightarrow> string option \<Rightarrow> string \<Rightarrow> report_hub \<Rightarrow> report_state \<Rightarrow> report_hub \<times> report_state \<times> claim_admission" where
  "uncorrelated_section store spec to role message_id h v =
     (if generation_claims spec v then (h, v, AdmAnswer (refused REPORT_PENDING))
      else case claim_with_room store spec ModeUncorrelated to role (None, None) None message_id h v of
        (h', v', Inl reply) \<Rightarrow> (h', v', AdmAnswer reply)
      | (h', v', Inr cl) \<Rightarrow> (h', v', AdmClaimed cl))"

definition admit_uncorrelated_claim ::
  "store_view option \<Rightarrow> nat list \<Rightarrow> claim_spec \<Rightarrow> recipient option \<Rightarrow> string option \<Rightarrow> report_hub \<Rightarrow> report_hub \<times> claim_admission" where
  "admit_uncorrelated_claim store bytes spec to role h =
     admit_with store (\<lambda>s. uncorrelated_section s spec to role (message_id_generate (ib_deck (rh_inbox h)) bytes)) h"

section \<open>Terminal reports\<close>

definition answering_unit :: "claim_spec \<Rightarrow> attest_facts \<Rightarrow> report_state \<Rightarrow> string option" where
  "answering_unit spec facts v =
     (case unit_of (sp_worker_pane spec) (sp_worker_agent spec) (rs_units v) of
        Some u \<Rightarrow> Some u
      | None \<Rightarrow>
          (case map_of (rs_publications v) (KeyPane (sp_worker_pane spec)) of
             Some (PubReplacement u _ ticket closed) \<Rightarrow> (if closed \<and> af_replacement_of facts = Some ticket then Some u else None)
           | _ \<Rightarrow> None))"

definition unit_answer :: "claim_spec \<Rightarrow> unit_entry option \<Rightarrow> report_state \<Rightarrow> claim_admission option" where
  "unit_answer spec entry v =
     (case entry of
        Some (UnitCompleted report dig dest _) \<Rightarrow> Some (AdmAnswer (answered_with WdAlreadyAccepted None report dest (dig \<noteq> sp_digest spec)))
      | Some (UnitEnded _) \<Rightarrow> Some (AdmAnswer (refused TASK_CLOSED))
      | Some (UnitClaimed i) \<Rightarrow> Some (wait_on i v)
      | None \<Rightarrow> None)"

definition publication_covers :: "claim_spec \<Rightarrow> attest_facts \<Rightarrow> report_state \<Rightarrow> bool" where
  "publication_covers spec facts v \<longleftrightarrow>
     map_of (rs_publications v) (KeyPane (sp_worker_pane spec)) \<noteq> None
     \<or> (case af_seat facts of
          Some s \<Rightarrow> se_is_orchestrator s \<and> map_of (rs_publications v) (KeyInstance (se_instance s)) \<noteq> None
        | None \<Rightarrow> False)"

definition claim_unit ::
  "store_view \<Rightarrow> claim_spec \<Rightarrow> string \<Rightarrow> retained_return \<Rightarrow> string \<Rightarrow> report_hub \<Rightarrow> report_state \<Rightarrow> report_hub \<times> report_state \<times> claim_admission" where
  "claim_unit store spec u route message_id h v =
     (case claim_with_room store spec (ModeTerminal u (sp_worker_pane spec))
             (Some (recipient_bound (dc_pane_id (rr_caller route)) (dc_agent_id (rr_caller route)))) None (None, None)
             (Some (dc_unit_name (rr_caller route))) message_id h v of
        (h', v', Inl reply) \<Rightarrow> (h', v', AdmAnswer reply)
      | (h', v', Inr cl) \<Rightarrow>
          (let v1 = v'\<lparr>rs_units := unit_set u (UnitClaimed (cd_claim_id cl)) (rs_units v')\<rparr>;
               v2 = (if rr_orphaned route
                     then v1\<lparr>rs_claims := (rs_claims v1)\<lparr>ct_claims :=
                               AList.map_entry (cd_claim_id cl) (\<lambda>c. c\<lparr>rc_recipient_gone := True\<rparr>) (ct_claims (rs_claims v1))\<rparr>\<rparr>
                     else v1)
           in (h', v2, AdmClaimed cl)))"

definition seat_answer :: "attest_facts \<Rightarrow> task_reply" where
  "seat_answer facts =
     (if af_unit facts \<noteq> None then refused UNKNOWN_TASK
      else case af_seat facts of
        Some s \<Rightarrow>
          (if se_is_orchestrator s
           then case se_origin s of
                  Some instance_origin.Direct \<Rightarrow> answered_with WdAccepted None None DestNone False
                | Some Dispatched \<Rightarrow> refused UNKNOWN_TASK
                | Some Conflict \<Rightarrow> refused INCOMPATIBLE_MODE
                | None \<Rightarrow> refused REPORT_PENDING
           else refused INCOMPATIBLE_MODE)
      | None \<Rightarrow> refused INCOMPATIBLE_MODE)"

definition terminal_section ::
  "store_view \<Rightarrow> claim_spec \<Rightarrow> attest_facts \<Rightarrow> string \<Rightarrow> report_hub \<Rightarrow> report_state \<Rightarrow> report_hub \<times> report_state \<times> claim_admission" where
  "terminal_section store spec facts message_id h v =
     (case Option.bind (answering_unit spec facts v) (\<lambda>u. unit_answer spec (unit_get u (rs_units v)) v) of
        Some adm \<Rightarrow> (h, v, adm)
      | None \<Rightarrow>
          (if generation_claims spec v \<or> publication_covers spec facts v then (h, v, AdmAnswer (refused REPORT_PENDING))
           else case unit_of (sp_worker_pane spec) (sp_worker_agent spec) (rs_units v) of
             Some u \<Rightarrow>
               (case route_resolve (sp_worker_pane spec) (rh_routes h) of
                  Some route \<Rightarrow>
                    (if rr_unit_id route = u \<and> rr_unit_agent_id route = sp_worker_agent spec
                     then claim_unit store spec u route message_id h v
                     else (h, v, AdmAnswer (refused (if route_of_unit u (rh_routes h) \<noteq> None then TASK_CLOSED else UNKNOWN_TASK))))
                | None \<Rightarrow> (h, v, AdmAnswer (refused (if route_of_unit u (rh_routes h) \<noteq> None then TASK_CLOSED else UNKNOWN_TASK))))
           | None \<Rightarrow> (h, v, AdmAnswer (seat_answer facts))))"

definition install_terminal_claim :: "store_view option \<Rightarrow> nat list \<Rightarrow> claim_spec \<Rightarrow> attest_facts \<Rightarrow> report_hub \<Rightarrow> report_hub \<times> claim_admission" where
  "install_terminal_claim store bytes spec facts h =
     admit_with store (\<lambda>s. terminal_section s spec facts (message_id_generate (ib_deck (rh_inbox h)) bytes)) h"

section \<open>Staging\<close>

definition change_claim :: "nat \<Rightarrow> (report_claim \<Rightarrow> report_claim) \<Rightarrow> report_state \<Rightarrow> report_state" where
  "change_claim i f v = v\<lparr>rs_claims := (rs_claims v)\<lparr>ct_claims := AList.map_entry i f (ct_claims (rs_claims v))\<rparr>\<rparr>"

definition get_claim :: "nat \<Rightarrow> report_state \<Rightarrow> report_claim option" where
  "get_claim i v = map_of (ct_claims (rs_claims v)) i"

definition note_claim_phase :: "nat \<Rightarrow> claim_phase \<Rightarrow> report_hub \<Rightarrow> report_hub \<times> unit section_end" where
  "note_claim_phase i phase = in_section (\<lambda>h v. (h, change_claim i (\<lambda>c. c\<lparr>rc_phase := phase\<rparr>) v, ()))"

definition stage_claim :: "nat \<Rightarrow> content \<Rightarrow> report_hub \<Rightarrow> report_hub \<times> unit section_end" where
  "stage_claim i post = in_section (\<lambda>h v. (h, change_claim i (\<lambda>c. c\<lparr>rc_prepared := Some post, rc_phase := CpStaged\<rparr>) v, ()))"

definition note_claim_marked :: "nat \<Rightarrow> unit_mark \<Rightarrow> report_hub \<Rightarrow> report_hub \<times> unit section_end" where
  "note_claim_marked i mark = in_section (\<lambda>h v. (h, change_claim i (\<lambda>c. c\<lparr>rc_unit_mark := Some mark, rc_phase := CpMarked\<rparr>) v, ()))"

definition claim_phase_of :: "nat \<Rightarrow> report_hub \<Rightarrow> claim_phase option option" where
  "claim_phase_of i h = guarded_read (\<lambda>v. map_option rc_phase (get_claim i v)) (rh_reports h)"

fun phase_rank :: "claim_phase \<Rightarrow> nat" where
  "phase_rank CpAdmitted = 0"
| "phase_rank CpSaving = 1"
| "phase_rank CpStaged = 2"
| "phase_rank CpMarked = 3"
| "phase_rank CpApplying = 4"

definition committed_answer :: "claim_mode \<Rightarrow> string \<Rightarrow> string \<Rightarrow> string option \<Rightarrow> report_hub \<Rightarrow> task_reply option option" where
  "committed_answer mode report message_id recipient_pane h =
     (let in_inbox = (case recipient_pane of Some pane \<Rightarrow> inbox_get message_id pane (rh_inbox h) \<noteq> None | None \<Rightarrow> False)
      in guarded_read (\<lambda>v.
           case mode of
             ModeTask task \<Rightarrow>
               (case task_lookup_of task (rs_tasks v) of
                  LookupSettled s \<Rightarrow>
                    (case st_tombstone s of
                       TombReported rep _ dest \<Rightarrow> Some (answered_with WdAccepted (Some task) rep dest False)
                     | _ \<Rightarrow> None)
                | _ \<Rightarrow> None)
           | ModeTerminal u _ \<Rightarrow>
               (case unit_get u (rs_units v) of
                  Some (UnitCompleted rep _ dest _) \<Rightarrow> Some (answered_with WdAccepted None rep dest False)
                | _ \<Rightarrow> None)
           | ModeUncorrelated \<Rightarrow>
               (if in_inbox \<or> map_of (rs_accepted v) message_id \<noteq> None
                then Some (answered_with WdUncorrelated None (Some report) DestInbox False)
                else if has_report report (rs_outcomes v)
                then Some (answered_with WdUncorrelated None (Some report) DestRecovery False) else None)) (rh_reports h))"

section \<open>The commit\<close>

record delegate_ledger =
  lg_arm_id :: "nat option"
  lg_seq :: "nat option"
  lg_instance :: "string option"

datatype commit_outcome = Committed destination string "string option" "(string \<times> delegate_ledger) option" | CommitGone | CommitUnavailable

definition claim_producer :: "report_claim \<Rightarrow> producer" where
  "claim_producer c = \<lparr>prod_pane_id = rc_worker_pane c, prod_agent_id = rc_worker_agent c, prod_role = rc_role c\<rparr>"

fun claim_provenance :: "claim_mode \<Rightarrow> string \<Rightarrow> producer \<Rightarrow> report_provenance" where
  "claim_provenance (ModeTask task) report producer = ProvTask task report producer"
| "claim_provenance (ModeTerminal u _) report producer = ProvTerminal u report producer"
| "claim_provenance ModeUncorrelated report producer = ProvUncorrelated report producer"

definition claim_row_phase :: "claim_mode \<Rightarrow> outcome_phase" where
  "claim_row_phase mode = (case mode of ModeTerminal _ _ \<Rightarrow> OpDispatchFinished | _ \<Rightarrow> OpWorkerReport)"

definition claim_task :: "claim_mode \<Rightarrow> string option" where
  "claim_task mode = (case mode of ModeTask task \<Rightarrow> Some task | _ \<Rightarrow> None)"

definition claim_outcome_unit :: "report_claim \<Rightarrow> outcome_unit option" where
  "claim_outcome_unit c =
     (case rc_mode c of
        ModeTerminal u _ \<Rightarrow>
          Some \<lparr>ou_unit_id = u, ou_name = wire_text (case rc_unit_name c of Some n \<Rightarrow> n | None \<Rightarrow> '''') MAX_LABEL_CHARS\<rparr>
      | _ \<Rightarrow> None)"

definition claim_content :: "report_claim \<Rightarrow> content" where
  "claim_content c =
     (case rc_prepared c of Some post \<Rightarrow> post | None \<Rightarrow> content_from_deck ''notice'' ''work-done'' '''')
       \<lparr>c_provenance := Some (claim_provenance (rc_mode c) (rc_report_id c) (claim_producer c)), c_id := message_id_parse (rc_message_id c)\<rparr>"

definition claim_entry :: "report_claim \<Rightarrow> accepted_report" where
  "claim_entry c =
     \<lparr>ar_provenance = claim_provenance (rc_mode c) (rc_report_id c) (claim_producer c), ar_phase = claim_row_phase (rc_mode c),
      ar_report_id = Some (rc_report_id c), ar_summary = cut_summary (c_body (claim_content c)) MAX_SUMMARY_BYTES,
      ar_storage = StoreArtifact, ar_label = wire_text (c_subject (claim_content c)) MAX_LABEL_CHARS,
      ar_original = (case rc_recipient c of Some to \<Rightarrow> party to None | None \<Rightarrow> \<lparr>pt_pane_id = '''', pt_agent_id = '''', pt_role = None\<rparr>),
      ar_producer = \<lparr>pt_pane_id = rc_worker_pane c, pt_agent_id = rc_worker_agent c, pt_role = rc_role c\<rparr>,
      ar_unit = claim_outcome_unit c, ar_orchestration = None, ar_task_id = claim_task (rc_mode c), ar_handed = False\<rparr>"

definition live_recipient :: "(string \<Rightarrow> string \<Rightarrow> bool) \<Rightarrow> report_claim \<Rightarrow> recipient option" where
  "live_recipient live c =
     (case rc_recipient c of
        Some to \<Rightarrow> (if \<not> rc_recipient_gone c \<and> (case rcp_agent_id to of Some a \<Rightarrow> live (rcp_pane_id to) a | None \<Rightarrow> False) then Some to else None)
      | None \<Rightarrow> None)"

text \<open>The post into the room held: what the inbox answered, if there was anyone to post to.\<close>

definition post_claim :: "random_draws \<Rightarrow> instant \<Rightarrow> recipient option \<Rightarrow> report_claim \<Rightarrow> inbox \<Rightarrow> (inbox \<times> string option) option" where
  "post_claim draws now to c ib =
     (case to of
        None \<Rightarrow> Some (ib, None)
      | Some r \<Rightarrow>
          map_option (\<lambda>(ib', res). (ib', case res of Inr i \<Rightarrow> Some i | Inl _ \<Rightarrow> None)) (post_reserved_reply draws now r (claim_content c) ib))"

text \<open>Published to the inbox, or kept as a recovery row with the room given back.\<close>

definition publish_claim ::
  "deck_now \<Rightarrow> recipient option \<Rightarrow> report_claim \<Rightarrow> string option \<Rightarrow> report_hub \<Rightarrow> report_state \<Rightarrow> report_hub \<times> report_state \<times> destination" where
  "publish_claim clk to c posted h v =
     (case posted of
        Some i \<Rightarrow>
          (h\<lparr>rh_wakes := rh_wakes h @ (case to of Some r \<Rightarrow> [r] | None \<Rightarrow> [])\<rparr>,
           v\<lparr>rs_accepted := AList.update i (claim_entry c) (rs_accepted v)\<rparr>, DestInbox)
      | None \<Rightarrow>
          (let cause = (if rc_recipient c \<noteq> None \<and> to \<noteq> None then CauseRecipientRefused else CauseRecipientExited)
           in (h\<lparr>rh_inbox := (if rc_room c then release_reply (rh_inbox h) else rh_inbox h),
                 rh_store := rh_store h @ [StoreRecovered (rc_report_id c)]\<rparr>,
               (if has_report (rc_report_id c) (rs_outcomes v) then v
                else v\<lparr>rs_outcomes := fst (outcome_insert (into_row (claim_entry c) cause (dn_ms clk)) None (rs_outcomes v))\<rparr>), DestRecovery)))"

definition retire_reported_task :: "instant \<Rightarrow> string \<Rightarrow> string \<Rightarrow> report_hub \<Rightarrow> report_hub" where
  "retire_reported_task now task pane h =
     h\<lparr>rh_inbox := fst (retire now task pane undeliverable_reason.Superseded (rh_inbox h)),
       rh_task_calls := rh_task_calls h @ [EndWatch task, ReleaseBody pane task]\<rparr>"

text \<open>What the claim was for is settled, once it is gone.\<close>

definition settle_claim :: "instant \<Rightarrow> destination \<Rightarrow> bool \<Rightarrow> report_claim \<Rightarrow> report_hub \<Rightarrow> report_state \<Rightarrow> report_hub \<times> report_state" where
  "settle_claim now dest routes_held c h v =
     (case rc_mode c of
        ModeTask task \<Rightarrow>
          (retire_reported_task now task (rc_worker_pane c) h,
           fst (settle_in task (TombReported (Some (rc_report_id c)) (Some (rc_digest c)) dest) v))
      | ModeTerminal u pane \<Rightarrow>
          ((if routes_held then h\<lparr>rh_routes := fst (route_take_for_unit pane u (rh_routes h))\<rparr> else h),
           v\<lparr>rs_units := unit_set u (UnitCompleted (Some (rc_report_id c)) (rc_digest c) dest
                                     (case rc_unit_mark c of Some m \<Rightarrow> m | None \<Rightarrow> Marked)) (rs_units v)\<rparr>)
      | ModeUncorrelated \<Rightarrow> (h, v))"

definition claim_debt :: "report_claim \<Rightarrow> (string \<times> delegate_ledger) option" where
  "claim_debt c =
     (case rc_mode c of
        ModeTask _ \<Rightarrow> Some (rc_worker_pane c, \<lparr>lg_arm_id = rc_arm_id c, lg_seq = rc_seq c, lg_instance = None\<rparr>)
      | _ \<Rightarrow> None)"

text \<open>The inputs of a commit: the time twice, which agents run, the store's lock, whether the caller holds the routes.\<close>

record commit_view =
  cv_now :: instant
  cv_clk :: deck_now
  cv_live :: "string \<Rightarrow> string \<Rightarrow> bool"
  cv_store_lock :: bool
  cv_routes_held :: bool

definition commit_section ::
  "random_draws \<Rightarrow> commit_view \<Rightarrow> nat \<Rightarrow> report_hub \<Rightarrow> report_state \<Rightarrow> (report_hub \<times> report_state \<times> commit_outcome) option" where
  "commit_section draws cv i h v =
     (case get_claim i v of
        None \<Rightarrow> Some (h, v, CommitGone)
      | Some c \<Rightarrow>
          (if rc_prepared c = None \<or> phase_rank CpApplying \<le> phase_rank (rc_phase c) \<or> \<not> cv_store_lock cv then Some (h, v, CommitUnavailable)
           else case post_claim draws (cv_now cv) (live_recipient (cv_live cv) c) c (rh_inbox h) of
             None \<Rightarrow> None
           | Some (ib, posted) \<Rightarrow>
               (case publish_claim (cv_clk cv) (live_recipient (cv_live cv) c) c posted (h\<lparr>rh_inbox := ib\<rparr>) v of
                  (h1, v1, dest) \<Rightarrow>
                    (case settle_claim (cv_now cv) dest (cv_routes_held cv) c h1 (v1\<lparr>rs_claims := fst (claim_remove i (rs_claims v1))\<rparr>) of
                       (h2, v2) \<Rightarrow>
                         (case drain_events_in_section (cv_clk cv) h2 v2 of
                            (h3, v3) \<Rightarrow> Some (h3, v3, Committed dest (rc_report_id c) (claim_task (rc_mode c)) (claim_debt c)))))))"

text \<open>A section whose closure may ask for more random bytes than it is given.\<close>

definition in_section_opt ::
  "(report_hub \<Rightarrow> report_state \<Rightarrow> (report_hub \<times> report_state \<times> 'r) option) \<Rightarrow> report_hub \<Rightarrow> (report_hub \<times> 'r section_end) option" where
  "in_section_opt f h =
     (let g = rh_reports h
      in if gd_torn g then Some (h, Torn)
         else case gd_value g of
           None \<Rightarrow> Some (h, Torn)
         | Some v \<Rightarrow>
             map_option (\<lambda>(h', v', r). (h'\<lparr>rh_reports := \<lparr>gd_value = Some v', gd_torn = False\<rparr>\<rparr>, Returned r))
               (f (h\<lparr>rh_reports := \<lparr>gd_value = None, gd_torn = True\<rparr>\<rparr>) v))"

definition commit_claim :: "random_draws \<Rightarrow> commit_view option \<Rightarrow> nat \<Rightarrow> report_hub \<Rightarrow> (report_hub \<times> commit_outcome) option" where
  "commit_claim draws view i h =
     (case view of
        None \<Rightarrow> Some (h, CommitUnavailable)
      | Some cv \<Rightarrow>
          map_option (\<lambda>(h', res). (h', case res of Returned outcome \<Rightarrow> outcome | _ \<Rightarrow> CommitUnavailable))
            (in_section_opt (commit_section draws cv i) h))"

end
