(* ===== verification/Report_Units.thy ===== *)
theory Report_Units
  imports Report_Claims
begin

text \<open>
  How a report fails, and the life of what reports are about: a dispatched unit's registration, end and replacement
  (\<^verbatim>\<open>src/src/inbox_reports.rs\<close>), and a delegated task's binding, supersession and the exit of its worker
  (\<^verbatim>\<open>src/src/inbox_hub.rs\<close>).
\<close>

section \<open>A unit's end\<close>

text \<open>What a section asks while it runs: random bytes and the time for a post, which agents run, which still have a record.\<close>

record section_view =
  sx_draws :: random_draws
  sx_now :: instant
  sx_clk :: deck_now
  sx_live :: "string \<Rightarrow> string \<Rightarrow> bool"
  sx_registered :: "string \<Rightarrow> bool"

definition ended_text :: "string \<Rightarrow> ended_how \<Rightarrow> string" where
  "ended_text name how =
     cut_summary (''Dispatched unit '' @ quote_untrusted_role name @ '' ended ('' @ ended_clause how @ '') without reporting.'') MAX_SUMMARY_BYTES"

definition ended_entry :: "retained_return \<Rightarrow> string \<Rightarrow> ended_how \<Rightarrow> accepted_report" where
  "ended_entry route pane how =
     (let name = dc_unit_name (rr_caller route)
      in \<lparr>ar_provenance = ProvDispatchResult (Some (rr_unit_id route)) PhaseEnded None, ar_phase = OpDispatchEnded, ar_report_id = None,
          ar_summary = ended_text name how, ar_storage = StoreNone, ar_label = wire_text (''dispatch ended: '' @ name) MAX_LABEL_CHARS,
          ar_original = party (recipient_bound (dc_pane_id (rr_caller route)) (dc_agent_id (rr_caller route))) None,
          ar_producer = \<lparr>pt_pane_id = pane, pt_agent_id = rr_unit_agent_id route, pt_role = None\<rparr>,
          ar_unit = Some \<lparr>ou_unit_id = rr_unit_id route, ou_name = wire_text name MAX_LABEL_CHARS\<rparr>, ar_orchestration = None,
          ar_task_id = None, ar_handed = False\<rparr>)"

definition ended_content :: "retained_return \<Rightarrow> string \<Rightarrow> ended_how \<Rightarrow> content" where
  "ended_content route pane how =
     (content_from_deck (dispatch_reason (dc_unit_name (rr_caller route))) ''dispatch ended'' (ended_text (dc_unit_name (rr_caller route)) how))
       \<lparr>c_provenance := Some (ar_provenance (ended_entry route pane how))\<rparr>"

definition keep_row :: "section_view \<Rightarrow> accepted_report \<Rightarrow> outcome_cause \<Rightarrow> string option \<Rightarrow> report_state \<Rightarrow> report_state" where
  "keep_row sx entry cause message_id v =
     v\<lparr>rs_outcomes := fst (outcome_insert (into_row entry cause (dn_ms (sx_clk sx))) message_id (rs_outcomes v))\<rparr>"

definition dispatch_ended ::
  "section_view \<Rightarrow> retained_return \<Rightarrow> string \<Rightarrow> ended_how \<Rightarrow> report_hub \<Rightarrow> report_state \<Rightarrow> (report_hub \<times> report_state) option" where
  "dispatch_ended sx route pane how h v =
     (let caller = recipient_bound (dc_pane_id (rr_caller route)) (dc_agent_id (rr_caller route));
          entry = ended_entry route pane how
      in if rr_orphaned route \<or> \<not> sx_live sx (dc_pane_id (rr_caller route)) (dc_agent_id (rr_caller route))
         then Some (h, keep_row sx entry CauseRecipientExited None v)
         else case post_direct (sx_draws sx) (sx_now sx) caller (ended_content route pane how) (rh_inbox h) of
           None \<Rightarrow> None
         | Some (ib, Inr i) \<Rightarrow>
             Some (h\<lparr>rh_inbox := ib, rh_wakes := rh_wakes h @ [caller]\<rparr>, v\<lparr>rs_accepted := AList.update i entry (rs_accepted v)\<rparr>)
         | Some (ib, Inl _) \<Rightarrow> Some (h\<lparr>rh_inbox := ib\<rparr>, keep_row sx entry CauseRecipientRefused None v))"

text \<open>\<^verbatim>\<open>dispatch_ended_for\<close>: the route is made up from the claim.\<close>

definition route_of_claim :: "report_claim \<Rightarrow> string \<Rightarrow> recipient \<Rightarrow> retained_return" where
  "route_of_claim c u caller =
     \<lparr>rr_unit_agent_id = rc_worker_agent c,
      rr_caller = \<lparr>dc_pane_id = rcp_pane_id caller, dc_agent_id = (case rcp_agent_id caller of Some a \<Rightarrow> a | None \<Rightarrow> ''''),
                   dc_unit_name = (case rc_unit_name c of Some n \<Rightarrow> n | None \<Rightarrow> '''')\<rparr>,
      rr_unit_id = u, rr_orphaned = False\<rparr>"

section \<open>The failure\<close>

datatype fail_outcome = ClaimFailed "(string \<times> delegate_ledger) option" | FailStaged | FailGone | FailUnavailable

definition task_debt :: "deck_task \<Rightarrow> delegate_ledger" where
  "task_debt t = \<lparr>lg_arm_id = tb_arm_id (tk_binding t), lg_seq = tb_seq (tk_binding t), lg_instance = tb_instance (tk_binding t)\<rparr>"

definition reopen :: "deck_task \<Rightarrow> deck_task" where
  "reopen t = t\<lparr>tk_state := TaskOpen ((case tk_state t of TaskOpen revision \<Rightarrow> revision | TaskReporting _ \<Rightarrow> 0) + 1)\<rparr>"

definition fail_settle ::
  "section_view \<Rightarrow> report_claim \<Rightarrow> report_hub \<Rightarrow> report_state \<Rightarrow> (report_hub \<times> report_state \<times> (string \<times> delegate_ledger) option) option" where
  "fail_settle sx c h v =
     (case rc_mode c of
        ModeTask task \<Rightarrow>
          (case rc_worker_gone c of
             Some _ \<Rightarrow>
               (case settle_in task TombClosed v of
                  (v', answer) \<Rightarrow> Some (h\<lparr>rh_owed := rh_owed h @ rc_withheld c\<rparr>, v', map_option (\<lambda>t. (rc_worker_pane c, task_debt t)) answer))
           | None \<Rightarrow> Some (h, change_task task reopen v, None))
      | ModeTerminal u pane \<Rightarrow>
          (case rc_unit_gone c of
             Some how \<Rightarrow>
               (let v1 = v\<lparr>rs_units := unit_set u (UnitEnded how) (rs_units v)\<rparr>
                in case rc_recipient c of
                     Some caller \<Rightarrow> map_option (\<lambda>(h', v'). (h', v', None)) (dispatch_ended sx (route_of_claim c u caller) pane how h v1)
                   | None \<Rightarrow> Some (h, v1, None))
           | None \<Rightarrow> Some (h, v\<lparr>rs_units := fst (unit_remove u (rs_units v))\<rparr>, None))
      | ModeUncorrelated \<Rightarrow> Some (h, v, None))"

definition fail_section :: "section_view \<Rightarrow> bool \<Rightarrow> nat \<Rightarrow> report_hub \<Rightarrow> report_state \<Rightarrow> (report_hub \<times> report_state \<times> fail_outcome) option" where
  "fail_section sx store_lock i h v =
     (case get_claim i v of
        None \<Rightarrow> Some (h, v, FailGone)
      | Some c \<Rightarrow>
          (if phase_rank CpStaged \<le> phase_rank (rc_phase c) then Some (h, v, FailStaged)
           else if \<not> store_lock then Some (h, v, FailUnavailable)
           else map_option (\<lambda>(h', v', debt). (h', v', ClaimFailed debt))
                  (fail_settle sx c (if rc_room c then h\<lparr>rh_inbox := release_reply (rh_inbox h)\<rparr> else h)
                     (v\<lparr>rs_claims := fst (claim_remove i (rs_claims v))\<rparr>))))"

definition fail_claim :: "section_view \<Rightarrow> bool option \<Rightarrow> nat \<Rightarrow> report_hub \<Rightarrow> (report_hub \<times> fail_outcome) option" where
  "fail_claim sx store i h =
     (case store of
        None \<Rightarrow> Some (h, FailUnavailable)
      | Some lock \<Rightarrow>
          map_option (\<lambda>(h', res). (h', case res of Returned outcome \<Rightarrow> outcome | _ \<Rightarrow> FailUnavailable))
            (in_section_opt (fail_section sx lock i) h))"

section \<open>Units\<close>

definition evict_units :: "section_view \<Rightarrow> report_state \<Rightarrow> report_state" where
  "evict_units sx v =
     v\<lparr>rs_units := fst (unit_evict (\<lambda>u generations. unit_published u (rs_publications v) \<or> (\<exists>g \<in> generations. sx_registered sx (snd g))) (rs_units v))\<rparr>"

text \<open>How a section that wrote unit entries ends: units past the bound go, then the inbox's events are settled.\<close>

definition unit_section_end :: "section_view \<Rightarrow> report_hub \<times> report_state \<Rightarrow> report_hub \<times> report_state \<times> unit" where
  "unit_section_end sx s = (case drain_events_in_section (sx_clk sx) (fst s) (evict_units sx (snd s)) of (h, v) \<Rightarrow> (h, v, ()))"

record unit_registration =
  rg_unit_id :: string
  rg_pane_id :: string
  rg_agent_id :: string
  rg_caller :: dispatch_caller
  rg_publication :: publish_key
  rg_ended :: "ended_how option"

definition registered_section :: "section_view \<Rightarrow> unit_registration \<Rightarrow> report_hub \<Rightarrow> report_state \<Rightarrow> (report_hub \<times> report_state \<times> unit) option" where
  "registered_section sx rg h v =
     (let v1 = v\<lparr>rs_publications := AList.delete (rg_publication rg) (rs_publications v),
                 rs_units := unit_index (rg_pane_id rg) (rg_agent_id rg) (rg_unit_id rg) (rs_units v)\<rparr>;
          h1 = h\<lparr>rh_pins := rh_pins h @ [(rg_agent_id rg, rg_unit_id rg, None)]\<rparr>
      in map_option (unit_section_end sx)
           (case rg_ended rg of
              None \<Rightarrow> Some (h1\<lparr>rh_routes := fst (route_register (rg_pane_id rg) (rg_agent_id rg) (rg_unit_id rg) (rg_caller rg) (rh_routes h1))\<rparr>, v1)
            | Some how \<Rightarrow>
                dispatch_ended sx \<lparr>rr_unit_agent_id = rg_agent_id rg, rr_caller = rg_caller rg, rr_unit_id = rg_unit_id rg, rr_orphaned = False\<rparr>
                  (rg_pane_id rg) how h1 (v1\<lparr>rs_units := unit_set (rg_unit_id rg) (UnitEnded how) (rs_units v1)\<rparr>)))"

definition unit_route_registered :: "section_view \<Rightarrow> unit_registration \<Rightarrow> report_hub \<Rightarrow> report_hub option" where
  "unit_route_registered sx rg h =
     map_option (\<lambda>(h', res).
         case res of
           Returned _ \<Rightarrow> h'
         | _ \<Rightarrow> h'\<lparr>rh_routes := fst (route_register (rg_pane_id rg) (rg_agent_id rg) (rg_unit_id rg) (rg_caller rg) (rh_routes h'))\<rparr>)
       (in_section_opt (registered_section sx rg) h)"

definition settle_unit_end :: "section_view \<Rightarrow> string \<Rightarrow> ended_how \<Rightarrow> retained_return \<Rightarrow> report_hub \<times> report_state \<Rightarrow> (report_hub \<times> report_state) option" where
  "settle_unit_end sx pane how route s =
     (case s of (h, v) \<Rightarrow>
        (case unit_get (rr_unit_id route) (rs_units v) of
           Some (UnitClaimed i) \<Rightarrow>
             Some (h, change_claim i (\<lambda>c. c\<lparr>rc_unit_gone := (case rc_unit_gone c of Some x \<Rightarrow> Some x | None \<Rightarrow> Some how)\<rparr>) v)
         | Some _ \<Rightarrow> Some (h, v)
         | None \<Rightarrow> dispatch_ended sx route pane how h (v\<lparr>rs_units := unit_set (rr_unit_id route) (UnitEnded how) (rs_units v)\<rparr>)))"

fun settle_unit_ends :: "section_view \<Rightarrow> string \<Rightarrow> ended_how \<Rightarrow> retained_return list \<Rightarrow> report_hub \<times> report_state \<Rightarrow> (report_hub \<times> report_state) option" where
  "settle_unit_ends sx pane how [] s = Some s"
| "settle_unit_ends sx pane how (route # routes) s = Option.bind (settle_unit_end sx pane how route s) (settle_unit_ends sx pane how routes)"

definition close_replacement ::
  "section_view \<Rightarrow> string \<Rightarrow> ended_how \<Rightarrow> retained_return list \<Rightarrow> report_hub \<times> report_state \<Rightarrow> (report_hub \<times> report_state) option" where
  "close_replacement sx pane how removed s =
     (case s of (h, v) \<Rightarrow>
        (case map_of (rs_publications v) (KeyPane pane) of
           Some (PubReplacement u from ticket closed) \<Rightarrow>
             (if how = HowClosed \<and> \<not> closed
              then let v1 = v\<lparr>rs_publications := AList.update (KeyPane pane) (PubReplacement u from ticket True) (rs_publications v)\<rparr>
                   in if unit_get u (rs_units v1) = None
                      then let v2 = v1\<lparr>rs_units := unit_set u (UnitEnded how) (rs_units v1)\<rparr>
                           in case find (\<lambda>route. rr_unit_id route = u) removed of
                                Some route \<Rightarrow> dispatch_ended sx route pane how h v2
                              | None \<Rightarrow> Some (h, v2)
                      else Some (h, v1)
              else Some (h, v))
         | _ \<Rightarrow> Some (h, v)))"

definition unit_routes_ended :: "section_view \<Rightarrow> retained_return list \<Rightarrow> string \<Rightarrow> ended_how \<Rightarrow> report_hub \<Rightarrow> report_hub option" where
  "unit_routes_ended sx removed pane how h =
     (if removed = [] \<and> how \<noteq> HowClosed then Some h
      else map_option fst
             (in_section_opt (\<lambda>s v. map_option (unit_section_end sx)
                (Option.bind (settle_unit_ends sx pane how removed (s, v)) (close_replacement sx pane how removed))) h))"

section \<open>Replacements\<close>

definition install_publication :: "publish_key \<Rightarrow> publication \<Rightarrow> report_hub \<Rightarrow> report_hub \<times> bool section_end" where
  "install_publication key pub =
     in_section (\<lambda>h v. if map_of (rs_publications v) key \<noteq> None then (h, v, False)
                       else (h, v\<lparr>rs_publications := AList.update key pub (rs_publications v)\<rparr>, True))"

definition remove_publication :: "publish_key \<Rightarrow> report_hub \<Rightarrow> report_hub \<times> unit section_end" where
  "remove_publication key =
     in_section (\<lambda>h v. (h, if map_of (rs_publications v) key = Some PubInitial
                            then v\<lparr>rs_publications := AList.delete key (rs_publications v)\<rparr> else v, ()))"

definition replacement_begin :: "string \<Rightarrow> string \<Rightarrow> nat \<Rightarrow> report_hub \<Rightarrow> report_hub \<times> string option section_end" where
  "replacement_begin pane from ticket =
     in_section (\<lambda>h v.
       case unit_of pane from (rs_units v) of
         None \<Rightarrow> (h, v, None)
       | Some u \<Rightarrow>
           (if map_of (rs_publications v) (KeyPane pane) \<noteq> None then (h, v, None)
            else (h, v\<lparr>rs_publications := AList.update (KeyPane pane) (PubReplacement u from ticket False) (rs_publications v)\<rparr>, Some u)))"

definition replacement_publish :: "string \<Rightarrow> string \<Rightarrow> string \<Rightarrow> nat \<Rightarrow> string \<Rightarrow> report_hub \<Rightarrow> report_hub \<times> unit section_end" where
  "replacement_publish pane u from ticket successor =
     in_section (\<lambda>h v.
       case map_of (rs_publications v) (KeyPane pane) of
         Some (PubReplacement _ _ held closed) \<Rightarrow>
           (if held = ticket
            then (h\<lparr>rh_routes := (if closed then rh_routes h else fst (route_retarget pane u from successor (rh_routes h))),
                    rh_pins := rh_pins h @ [(successor, u, Some ticket)]\<rparr>,
                  v\<lparr>rs_units := unit_index pane successor u (rs_units v), rs_publications := AList.delete (KeyPane pane) (rs_publications v)\<rparr>, ())
            else (h, v, ()))
       | _ \<Rightarrow> (h, v, ()))"

definition abort_end :: "section_view \<Rightarrow> string \<Rightarrow> string \<Rightarrow> report_hub \<Rightarrow> report_state \<Rightarrow> (report_hub \<times> report_state) option" where
  "abort_end sx pane u h v =
     (case route_take_unit u (rh_routes h) of
        (routes, Some route) \<Rightarrow> settle_unit_end sx pane HowRespawnFailed route (h\<lparr>rh_routes := routes\<rparr>, v)
      | (_, None) \<Rightarrow>
          Some (h, if unit_get u (rs_units v) = None then v\<lparr>rs_units := unit_set u (UnitEnded HowRespawnFailed) (rs_units v)\<rparr> else v))"

definition abort_successor :: "string \<Rightarrow> string \<Rightarrow> nat \<Rightarrow> string option \<Rightarrow> report_hub \<times> report_state \<Rightarrow> report_hub \<times> report_state" where
  "abort_successor pane u ticket successor s =
     (case s of (h, v) \<Rightarrow>
        (let v1 = v\<lparr>rs_publications := AList.delete (KeyPane pane) (rs_publications v)\<rparr>
         in case successor of
              Some agent \<Rightarrow> (h\<lparr>rh_pins := rh_pins h @ [(agent, u, Some ticket)]\<rparr>, v1\<lparr>rs_units := unit_index pane agent u (rs_units v1)\<rparr>)
            | None \<Rightarrow> (h, v1)))"

definition replacement_abort ::
  "section_view \<Rightarrow> string \<Rightarrow> string \<Rightarrow> nat \<Rightarrow> string option \<Rightarrow> report_hub \<Rightarrow> (report_hub \<times> unit section_end) option" where
  "replacement_abort sx pane u ticket successor =
     in_section_opt (\<lambda>h v.
       case map_of (rs_publications v) (KeyPane pane) of
         Some (PubReplacement _ _ held _) \<Rightarrow>
           (if held = ticket
            then map_option (\<lambda>s. unit_section_end sx (abort_successor pane u ticket successor s)) (abort_end sx pane u h v)
            else Some (h, v, ()))
       | _ \<Rightarrow> Some (h, v, ()))"

section \<open>Tasks\<close>

definition is_reporting :: "string \<Rightarrow> report_state \<Rightarrow> bool" where
  "is_reporting i v = (case map_of (tl_open (rs_tasks v)) i of Some t \<Rightarrow> (case tk_state t of TaskReporting _ \<Rightarrow> True | _ \<Rightarrow> False) | None \<Rightarrow> False)"

definition supersede_one :: "string option \<Rightarrow> string \<Rightarrow> report_state \<times> delegate_ledger list \<Rightarrow> report_state \<times> delegate_ledger list" where
  "supersede_one by_task i s =
     (case s of (v, debt) \<Rightarrow>
        (if is_reporting i v then (v, debt)
         else case settle_in i (TombSuperseded by_task) v of
           (v', Some t) \<Rightarrow> (v', debt @ [task_debt t])
         | (v', None) \<Rightarrow> (v', debt)))"

definition supersede_tasks :: "string \<Rightarrow> string option \<Rightarrow> report_state \<Rightarrow> report_state \<times> delegate_ledger list" where
  "supersede_tasks pane by_task v = fold (supersede_one by_task) (open_of_pane pane (rs_tasks v)) (v, [])"

text \<open>The section of \<^verbatim>\<open>post_delegate\<close>: older tasks of the pane are superseded, then the posted one is bound.\<close>

definition bind_delegate :: "string \<Rightarrow> task_binding \<Rightarrow> report_hub \<Rightarrow> report_hub \<times> delegate_ledger list section_end" where
  "bind_delegate task binding =
     in_section (\<lambda>h v.
       case supersede_tasks (tb_worker_pane binding) (Some task) v of
         (v1, debt) \<Rightarrow> (h, v1\<lparr>rs_tasks := fst (task_bind task binding (rs_tasks v1))\<rparr>, debt))"

definition supersede_delegates :: "string \<Rightarrow> report_hub \<Rightarrow> report_hub \<times> unit section_end" where
  "supersede_delegates pane = in_section (\<lambda>h v. (h, fst (supersede_tasks pane None v), ()))"

datatype exit_kind = ExitNatural | ExitRemoved

text \<open>The words of the two notices are inputs.\<close>

record notice_words =
  nw_exited :: "string \<Rightarrow> string \<Rightarrow> string"
  nw_worker_exited :: "string \<Rightarrow> string list \<Rightarrow> string"

definition UNDELIVERED_SUBJECT :: string where
  "UNDELIVERED_SUBJECT = ''task not delivered''"

definition WORKER_EXITED_SUBJECT :: string where
  "WORKER_EXITED_SUBJECT = ''worker exited''"

definition withheld_notices :: "notice_words \<Rightarrow> string \<Rightarrow> exit_kind \<Rightarrow> string \<Rightarrow> deck_task \<Rightarrow> owed_notice list" where
  "withheld_notices words pane kind i t =
     (case tb_orchestrator (tk_binding t) of
        None \<Rightarrow> []
      | Some to \<Rightarrow>
          (if tk_delivery t = TaskLive then [(to, UNDELIVERED_SUBJECT, nw_exited words i (tb_role (tk_binding t)))]
           else if kind = ExitNatural then [(to, WORKER_EXITED_SUBJECT, nw_worker_exited words pane [i])] else []))"

definition mark_worker_gone :: "exit_kind \<Rightarrow> owed_notice list \<Rightarrow> report_claim \<Rightarrow> report_claim" where
  "mark_worker_gone kind notices c =
     c\<lparr>rc_worker_gone := (case rc_worker_gone c of Some x \<Rightarrow> Some x
                          | None \<Rightarrow> Some (case kind of ExitNatural \<Rightarrow> HowExited | ExitRemoved \<Rightarrow> HowClosed)),
       rc_withheld := rc_withheld c @ notices\<rparr>"

definition note_walked :: "string \<Rightarrow> deck_task \<Rightarrow> report_state \<Rightarrow> report_state" where
  "note_walked i t v = (if tk_delivery t = TaskLive then v\<lparr>rs_exit_walked := List.insert i (rs_exit_walked v)\<rparr> else v)"

text \<open>The tasks of an orchestrator named in one notice, in the order the orchestrators were first met.\<close>

fun add_exited :: "recipient \<Rightarrow> string \<Rightarrow> (recipient \<times> string list) list \<Rightarrow> (recipient \<times> string list) list" where
  "add_exited to i [] = [(to, [i])]"
| "add_exited to i ((r, ids) # rest) = (if r = to then (r, ids @ [i]) # rest else (r, ids) # add_exited to i rest)"

record walk =
  wk_hub :: report_hub
  wk_state :: report_state
  wk_debt :: "delegate_ledger list"
  wk_exited :: "(recipient \<times> string list) list"

definition walk_claimed :: "notice_words \<Rightarrow> string \<Rightarrow> exit_kind \<Rightarrow> string \<Rightarrow> nat \<Rightarrow> deck_task \<Rightarrow> walk \<Rightarrow> walk" where
  "walk_claimed words pane kind i claim_id t w =
     w\<lparr>wk_state :=
         change_claim claim_id (mark_worker_gone kind (withheld_notices words pane kind i t))
           (note_walked i t (change_task i (\<lambda>t. t\<lparr>tk_exit_walked := True\<rparr>) (wk_state w))),
       wk_debt := wk_debt w @ [task_debt t]\<rparr>"

definition walk_open :: "notice_words \<Rightarrow> string \<Rightarrow> exit_kind \<Rightarrow> string \<Rightarrow> walk \<Rightarrow> walk" where
  "walk_open words pane kind i w =
     (case settle_in i TombClosed (change_task i (\<lambda>t. t\<lparr>tk_exit_walked := True\<rparr>) (wk_state w)) of
        (v, None) \<Rightarrow> w\<lparr>wk_state := v\<rparr>
      | (v, Some t) \<Rightarrow>
          (let w1 = w\<lparr>wk_state := note_walked i t v, wk_debt := wk_debt w @ [task_debt t]\<rparr>
           in case tb_orchestrator (tk_binding t) of
                None \<Rightarrow> w1
              | Some to \<Rightarrow>
                  (if tk_delivery t = TaskLive
                   then w1\<lparr>wk_hub := (wk_hub w1)\<lparr>rh_owed := rh_owed (wk_hub w1) @
                             [(to, UNDELIVERED_SUBJECT, nw_exited words i (tb_role (tk_binding t)))]\<rparr>\<rparr>
                   else if kind = ExitNatural then w1\<lparr>wk_exited := add_exited to i (wk_exited w1)\<rparr> else w1)))"

definition walk_one :: "notice_words \<Rightarrow> string \<Rightarrow> exit_kind \<Rightarrow> string \<Rightarrow> walk \<Rightarrow> walk" where
  "walk_one words pane kind i w =
     (case map_of (tl_open (rs_tasks (wk_state w))) i of
        None \<Rightarrow> w
      | Some t \<Rightarrow>
          (case tk_state t of
             TaskReporting claim_id \<Rightarrow> walk_claimed words pane kind i claim_id t w
           | TaskOpen _ \<Rightarrow> walk_open words pane kind i w))"

definition walk_exited_tasks ::
  "notice_words \<Rightarrow> string \<Rightarrow> string \<Rightarrow> exit_kind \<Rightarrow> report_hub \<Rightarrow> report_state \<Rightarrow> report_hub \<times> report_state \<times> delegate_ledger list" where
  "walk_exited_tasks words pane agent kind h v =
     (let w = fold (walk_one words pane kind) (open_of_generation pane agent (rs_tasks v)) \<lparr>wk_hub = h, wk_state = v, wk_debt = [], wk_exited = []\<rparr>
      in ((wk_hub w)\<lparr>rh_owed := rh_owed (wk_hub w) @
             map (\<lambda>(to, ids). (to, WORKER_EXITED_SUBJECT, nw_worker_exited words pane ids)) (wk_exited w)\<rparr>, wk_state w, wk_debt w))"

text \<open>
  A worker's exit: its tasks are decided first, then its messages turn undeliverable, and the events of both are drained. What
  the hub keeps for the generation beside the inbox and the reports (its receipt spool, waiters, rings, wakes and saved
  task bodies) is dropped in between and is not part of this state.
\<close>

definition agent_exited_as :: "notice_words \<Rightarrow> instant \<Rightarrow> deck_now \<Rightarrow> string \<Rightarrow> string \<Rightarrow> exit_kind \<Rightarrow> report_hub \<Rightarrow> report_hub \<times> delegate_ledger list" where
  "agent_exited_as words now clk pane agent kind h =
     (case in_section (walk_exited_tasks words pane agent kind) h of
        (h1, res) \<Rightarrow>
          (hub_drain clk (h1\<lparr>rh_inbox := agent_exited now pane agent (rh_inbox h1)\<rparr>),
           case res of Returned debt \<Rightarrow> debt | _ \<Rightarrow> []))"

section \<open>Accepted results\<close>

text \<open>\<^verbatim>\<open>post_with\<close> of a result the deck tracks, once the inbox took it.\<close>

definition record_accepted :: "deck_now \<Rightarrow> string \<Rightarrow> accepted_report \<Rightarrow> report_hub \<Rightarrow> report_hub" where
  "record_accepted clk i entry h =
     (case in_section (\<lambda>s v. case drain_events_in_section clk s (v\<lparr>rs_accepted := AList.update i entry (rs_accepted v)\<rparr>) of
                              (s', v') \<Rightarrow> (s', v', ())) h of
        (h', Returned _) \<Rightarrow> h'
      | (h', _) \<Rightarrow> hub_drain clk h')"

definition set_aside :: "deck_now \<Rightarrow> accepted_report \<Rightarrow> outcome_cause \<Rightarrow> report_hub \<Rightarrow> report_hub" where
  "set_aside clk entry cause h =
     (let h' = fst (in_section (\<lambda>s v.
                 (s, age_body (ar_report_id entry) (lifetime_recover clk)
                       (if (case ar_report_id entry of Some report \<Rightarrow> \<not> has_report report (rs_outcomes v) | None \<Rightarrow> True)
                        then v\<lparr>rs_outcomes := fst (outcome_insert (into_row entry cause (dn_ms clk)) None (rs_outcomes v))\<rparr> else v), ())) h)
      in h'\<lparr>rh_store := rh_store h' @ store_for (ar_report_id entry) StoreRecovered\<rparr>)"

section \<open>Results held in memory\<close>

definition hold_fallback :: "string \<Rightarrow> string \<Rightarrow> nat \<Rightarrow> instant \<Rightarrow> report_hub \<Rightarrow> report_hub \<times> bool" where
  "hold_fallback report contents held now h =
     (case in_section (\<lambda>s v.
             (s, v\<lparr>rs_fallback := AList.update report
                     \<lparr>fb_contents = contents, fb_held_since = now, fb_held = Some held, fb_lifetime = LtReferenced\<rparr> (rs_fallback v)\<rparr>, ())) h of
        (h', Returned _) \<Rightarrow> (h', True)
      | (h', _) \<Rightarrow> (h'\<lparr>rh_store := rh_store h' @ [StoreEndHeld held]\<rparr>, False))"

text \<open>
  A retry pass takes the room of every body out, ending those whose lifetime is over, writes off the lock, and then
  settles what was saved and what was not. The two sections are two definitions: others run between them.
\<close>

type_synonym held_write = "string \<times> string \<times> nat"

definition held_list :: "fallback_body \<Rightarrow> nat list" where
  "held_list b = (case fb_held b of Some held \<Rightarrow> [held] | None \<Rightarrow> [])"

definition take_body ::
  "deck_now \<Rightarrow> string \<Rightarrow> (string \<times> fallback_body) list \<times> nat list \<times> held_write list
     \<Rightarrow> (string \<times> fallback_body) list \<times> nat list \<times> held_write list" where
  "take_body clk i s =
     (case s of (bodies, ended, writes) \<Rightarrow>
        (case map_of bodies i of
           None \<Rightarrow> s
         | Some b \<Rightarrow>
             (if (case lifetime_ends (fb_lifetime b) of Some over \<Rightarrow> over \<le> dn_mono clk | None \<Rightarrow> False)
              then (AList.delete i bodies, ended @ held_list b, writes)
              else (AList.map_entry i (\<lambda>b. b\<lparr>fb_held := None\<rparr>) bodies, ended, writes @ map (\<lambda>held. (i, fb_contents b, held)) (held_list b)))))"

definition retry_take :: "deck_now \<Rightarrow> report_hub \<Rightarrow> report_hub \<times> held_write list" where
  "retry_take clk h =
     (case in_section (\<lambda>s v.
             case fold (take_body clk) (map fst (rs_fallback v)) (rs_fallback v, [], []) of
               (bodies, ended, writes) \<Rightarrow> (s, v\<lparr>rs_fallback := bodies\<rparr>, (ended, writes))) h of
        (h', Returned (ended, writes)) \<Rightarrow> (h'\<lparr>rh_store := rh_store h' @ map StoreEndHeld ended\<rparr>, writes)
      | (h', _) \<Rightarrow> (h', []))"

definition body_saved :: "string \<Rightarrow> report_hub \<times> report_state \<Rightarrow> report_hub \<times> report_state" where
  "body_saved report s =
     (case s of (h, v) \<Rightarrow>
        (h\<lparr>rh_store := rh_store h @
             (case map_of (rs_fallback v) report of Some b \<Rightarrow> [StoreContinueLifetime report (fb_lifetime b)] | None \<Rightarrow> [])\<rparr>,
         v\<lparr>rs_fallback := AList.delete report (rs_fallback v), rs_outcomes := outcome_saved report (rs_outcomes v),
           rs_accepted := map (\<lambda>(i, e). (i, if ar_report_id e = Some report then e\<lparr>ar_storage := StoreArtifact\<rparr> else e)) (rs_accepted v)\<rparr>))"

definition body_unsaved :: "string \<times> nat \<Rightarrow> report_state \<times> nat list \<Rightarrow> report_state \<times> nat list" where
  "body_unsaved w s =
     (case (w, s) of ((report, held), (v, stray)) \<Rightarrow>
        (case map_of (rs_fallback v) report of
           Some _ \<Rightarrow> (v\<lparr>rs_fallback := AList.map_entry report (\<lambda>b. b\<lparr>fb_held := Some held\<rparr>) (rs_fallback v)\<rparr>, stray)
         | None \<Rightarrow> (v, stray @ [held])))"

definition retry_restore :: "string list \<Rightarrow> (string \<times> nat) list \<Rightarrow> report_hub \<Rightarrow> report_hub" where
  "retry_restore saved unsaved h =
     (case in_section (\<lambda>s v.
             case fold body_saved saved (s, v) of
               (s1, v1) \<Rightarrow> (case fold body_unsaved unsaved (v1, []) of (v2, stray) \<Rightarrow> (s1, v2, stray))) h of
        (h', Returned stray) \<Rightarrow> h'\<lparr>rh_store := rh_store h' @ map StoreEndHeld stray\<rparr>
      | (h', _) \<Rightarrow> h'\<lparr>rh_store := rh_store h' @ map (StoreEndHeld \<circ> snd) unsaved\<rparr>)"

end
