(* ===== verification/Report_Props.thy ===== *)
theory Report_Props
  imports Report_Recovery Step_Invariant
begin

text \<open>
  What the recovery data promises: the rows are the newest ones, evicting a unit takes the oldest the
  caller does not protect, the ledger of tasks keeps its three indexes of the tombstones in step and never
  loses an open task, and the claim table's index names claims that exist.
\<close>

section \<open>Recovery rows\<close>

lemma evict_rows_drop:
  "evict_rows mx rows n = (drop (length rows - mx) rows, n + (length rows - mx))"
  by (induction rows arbitrary: n) (auto simp: Suc_diff_le)

inductive outcome_step :: "outcome_store \<Rightarrow> outcome_store \<Rightarrow> bool" where
  os_insert: "outcome_step st (fst (outcome_insert outcome message_id st))"
| os_late: "outcome_step st (fst (acknowledged_late message_id st))"
| os_saved: "outcome_step st (outcome_saved report st)"

definition rows_newest :: "nat \<Rightarrow> outcome_store \<Rightarrow> bool" where
  "rows_newest mx st \<longleftrightarrow>
     os_max st = max mx 1 \<and> length (os_rows st) \<le> os_max st \<and> 0 < os_next_id st
     \<and> os_overflow st + length (os_rows st) + 1 = os_next_id st
     \<and> map (\<lambda>row. oc_outcome_id (row_outcome row)) (os_rows st) = map outcome_id_of [Suc (os_overflow st)..<os_next_id st]
     \<and> (0 < os_overflow st \<longrightarrow> length (os_rows st) = os_max st)
     \<and> (\<forall>row \<in> set (os_rows st). 0 < oc_revision (row_outcome row) \<and> oc_revision (row_outcome row) \<le> os_revision st)"

lemma insert_newest:
  assumes "rows_newest mx st"
  shows "rows_newest mx (fst (outcome_insert outcome message_id st))"
proof -
  let ?row = "\<lparr>row_outcome = outcome\<lparr>oc_outcome_id := outcome_id_of (os_next_id st), oc_revision := os_revision st + 1\<rparr>,
    row_message_id = message_id\<rparr>"
  let ?rows = "os_rows st @ [?row]" and ?k = "length (os_rows st @ [?row]) - os_max st"
  have st': "fst (outcome_insert outcome message_id st) =
      st\<lparr>os_rows := drop ?k ?rows, os_overflow := os_overflow st + ?k, os_revision := os_revision st + 1, os_next_id := os_next_id st + 1\<rparr>"
    by (simp add: outcome_insert_def Let_def evict_rows_drop)
  have k: "?k \<le> 1" using assms by (auto simp: rows_newest_def)
  have ids: "map (\<lambda>row. oc_outcome_id (row_outcome row)) ?rows = map outcome_id_of [Suc (os_overflow st)..<Suc (os_next_id st)]"
    using assms by (simp add: rows_newest_def)
  have "map (\<lambda>row. oc_outcome_id (row_outcome row)) (drop ?k ?rows) = map outcome_id_of (drop ?k [Suc (os_overflow st)..<Suc (os_next_id st)])"
    by (simp only: drop_map[symmetric] ids)
  also have "drop ?k [Suc (os_overflow st)..<Suc (os_next_id st)] = [Suc (os_overflow st + ?k)..<Suc (os_next_id st)]"
    by (simp only: drop_upt add_Suc)
  finally have ids': "map (\<lambda>row. oc_outcome_id (row_outcome row)) (drop ?k ?rows) = map outcome_id_of [Suc (os_overflow st + ?k)..<Suc (os_next_id st)]" .
  have "row \<in> set ?rows \<Longrightarrow> 0 < oc_revision (row_outcome row) \<and> oc_revision (row_outcome row) \<le> os_revision st + 1" for row
    using assms by (auto simp: rows_newest_def)
  then have "row \<in> set (drop ?k ?rows) \<Longrightarrow> 0 < oc_revision (row_outcome row) \<and> oc_revision (row_outcome row) \<le> os_revision st + 1" for row
    by (meson in_set_dropD)
  then show ?thesis
    unfolding rows_newest_def st' using assms k ids' by (auto simp: rows_newest_def)
qed

lemma rows_newest_same_ids:
  assumes "rows_newest mx st" "os_max st' = os_max st" "os_overflow st' = os_overflow st" "os_next_id st' = os_next_id st"
    "map (\<lambda>row. oc_outcome_id (row_outcome row)) (os_rows st') = map (\<lambda>row. oc_outcome_id (row_outcome row)) (os_rows st)"
    "\<And>row'. row' \<in> set (os_rows st') \<Longrightarrow> (\<exists>row \<in> set (os_rows st). oc_revision (row_outcome row') = oc_revision (row_outcome row))
       \<or> oc_revision (row_outcome row') = os_revision st'"
    "os_revision st \<le> os_revision st'" "os_revision st' = 0 \<Longrightarrow> os_revision st = 0 \<and> st' = st"
  shows "rows_newest mx st'"
proof -
  have len: "length (os_rows st') = length (os_rows st)" using assms(5) by (metis length_map)
  have "0 < oc_revision (row_outcome row') \<and> oc_revision (row_outcome row') \<le> os_revision st'" if row: "row' \<in> set (os_rows st')" for row'
    using assms(6)[OF row]
  proof
    assume "\<exists>row \<in> set (os_rows st). oc_revision (row_outcome row') = oc_revision (row_outcome row)"
    then show ?thesis using assms(1,7) by (fastforce simp: rows_newest_def)
  next
    assume "oc_revision (row_outcome row') = os_revision st'"
    then show ?thesis using assms(1,8) row by (fastforce simp: rows_newest_def)
  qed
  with assms len show ?thesis unfolding rows_newest_def by simp
qed

interpretation rows: step_invariant "\<lambda>st. st = outcome_store_new mx" outcome_step "rows_newest mx" for mx
proof unfold_locales
  fix st
  show "st = outcome_store_new mx \<Longrightarrow> rows_newest mx st"
    by (simp add: rows_newest_def outcome_store_new_def)
next
  fix st st'
  assume inv: "rows_newest mx st" and "outcome_step st st'"
  from this(2) show "rows_newest mx st'"
  proof cases
    case (os_insert outcome message_id)
    then show ?thesis using insert_newest[OF inv] by simp
  next
    case (os_late message_id)
    show ?thesis
      by (rule rows_newest_same_ids[OF inv])
        (auto simp: os_late acknowledged_late_def Let_def map_change_first split: option.splits dest!: set_change_first)
  next
    case (os_saved report)
    show ?thesis
    proof (rule rows_newest_same_ids[OF inv])
      fix row'
      assume "row' \<in> set (os_rows st')"
      then show "(\<exists>row \<in> set (os_rows st). oc_revision (row_outcome row') = oc_revision (row_outcome row))
          \<or> oc_revision (row_outcome row') = os_revision st'"
        unfolding os_saved outcome_saved_def Let_def by (fastforce split: if_splits)
    qed (auto simp: os_saved outcome_saved_def Let_def o_def)
  qed
qed

lemma outcome_id_inject: "outcome_id_of m = outcome_id_of n \<longleftrightarrow> m = n"
  by (simp add: outcome_id_of_def)

text \<open>
  The recovery rows are always the newest ones. After any sequence of new rows, late acknowledgements and
  saved bodies, the store holds at most its bound (at least one); the rows carry distinct ids and are
  exactly the last ones added, in the order they were added; nothing is dropped while there is room, and
  the overflow count is exactly the number of rows dropped.
\<close>

theorem recovery_rows_newest:
  assumes "outcome_step\<^sup>*\<^sup>* (outcome_store_new mx) st"
  shows "length (os_rows st) \<le> max mx 1
    \<and> map (\<lambda>row. oc_outcome_id (row_outcome row)) (os_rows st) = map outcome_id_of [Suc (os_overflow st)..<os_next_id st]
    \<and> distinct (map (\<lambda>row. oc_outcome_id (row_outcome row)) (os_rows st))
    \<and> os_overflow st + length (os_rows st) + 1 = os_next_id st
    \<and> (0 < os_overflow st \<longrightarrow> length (os_rows st) = max mx 1)"
proof -
  have inv: "rows_newest mx st" using rows.reachable_inv assms by blast
  have "distinct (map outcome_id_of [Suc (os_overflow st)..<os_next_id st])"
    by (simp add: distinct_map inj_on_def outcome_id_inject)
  with inv show ?thesis by (simp add: rows_newest_def)
qed

definition sample_party :: outcome_party where
  "sample_party = \<lparr>pt_pane_id = ''p'', pt_agent_id = ''7'', pt_role = None\<rparr>"

definition sample_outcome :: deck_outcome where
  "sample_outcome =
     into_row \<lparr>ar_provenance = ProvUnknown, ar_phase = OpWorkerReport, ar_report_id = Some ''r1'', ar_summary = '''',
       ar_storage = StoreMemory, ar_label = ''l'', ar_original = sample_party, ar_producer = sample_party, ar_unit = None,
       ar_orchestration = None, ar_task_id = None, ar_handed = True\<rparr> CauseRecipientExited 0"

definition two_rows :: outcome_store where
  "two_rows = fst (outcome_insert sample_outcome (Some ''m2'') (fst (outcome_insert sample_outcome (Some ''m1'') (outcome_store_new 1))))"

section \<open>Evicting units\<close>

lemma map_of_filter_value: "map_of (filter (\<lambda>e. P (fst e)) xs) k = (if P k then map_of xs k else None)"
  by (induction xs) auto

lemma drop_unit_other:
  "is_claimed u (drop_unit v t) = (u \<noteq> v \<and> is_claimed u t)"
  "u \<noteq> v \<Longrightarrow> generations_of u (drop_unit v t) = generations_of u t"
  "ut_cap (drop_unit v t) = ut_cap t"
proof -
  show "is_claimed u (drop_unit v t) = (u \<noteq> v \<and> is_claimed u t)"
    by (auto simp: is_claimed_def drop_unit_def delete_conv')
  show "u \<noteq> v \<Longrightarrow> generations_of u (drop_unit v t) = generations_of u t"
    by (auto simp: generations_of_def drop_unit_def)
qed (simp add: drop_unit_def)

abbreviation keeps_unit :: "(string \<Rightarrow> (string \<times> string) set \<Rightarrow> bool) \<Rightarrow> unit_table \<Rightarrow> string \<Rightarrow> bool" where
  "keeps_unit protected t u \<equiv> is_claimed u t \<or> protected u (generations_of u t)"

lemma evict_loop_spec:
  assumes "evict_loop protected order kept t = (t', evicted)" "distinct order"
  shows "evicted = take (length order + length kept - ut_cap t) (filter (\<lambda>u. \<not> keeps_unit protected t u) order)
    \<and> ut_order t' = kept @ filter (\<lambda>u. u \<notin> set evicted) order
    \<and> map_of (ut_units t') = (\<lambda>u. if u \<in> set evicted then None else map_of (ut_units t) u)
    \<and> ut_by_generation t' = filter (\<lambda>e. snd e \<notin> set evicted) (ut_by_generation t)
    \<and> ut_cap t' = ut_cap t"
  using assms
proof (induction protected order kept t arbitrary: t' evicted rule: evict_loop.induct)
  case step: (2 protected v order kept t)
  have v: "v \<notin> set order" "distinct order" using step.prems(2) by simp_all
  consider "ut_cap t < length (v # order) + length kept" "keeps_unit protected t v"
    | "ut_cap t < length (v # order) + length kept" "\<not> keeps_unit protected t v"
    | "\<not> ut_cap t < length (v # order) + length kept" by blast
  then show ?case
  proof cases
    case 1
    then have "evict_loop protected order (kept @ [v]) t = (t', evicted)" using step.prems(1) by simp
    from step.IH(1)[OF 1 this v(2)] v(1) 1(2) show ?thesis by (auto dest!: in_set_takeD)
  next
    case 2
    then obtain evicted' where e: "evict_loop protected order kept (drop_unit v t) = (t', evicted')" "evicted = v # evicted'"
      using step.prems(1) by (auto split: prod.splits)
    have "keeps_unit protected (drop_unit v t) u = keeps_unit protected t u" if "u \<in> set order" for u
    proof -
      have "u \<noteq> v" using that v(1) by blast
      then show ?thesis by (simp add: drop_unit_other)
    qed
    then have same: "filter (\<lambda>u. \<not> keeps_unit protected (drop_unit v t) u) order = filter (\<lambda>u. \<not> keeps_unit protected t u) order"
      by (intro filter_cong) auto
    note ih = step.IH(2)[OF 2 e(1) v(2)]
    have "evicted = take (length (v # order) + length kept - ut_cap t) (filter (\<lambda>u. \<not> keeps_unit protected t u) (v # order))"
      using ih 2 e(2) same by (simp add: drop_unit_other(3) Suc_diff_le)
    moreover have "v \<notin> set evicted'" using ih v(1) by (auto dest!: in_set_takeD)
    then have "ut_order t' = kept @ filter (\<lambda>u. u \<notin> set evicted) (v # order)"
      using ih v(1) e(2) by (auto intro!: filter_cong)
    moreover have "map_of (ut_units t') = (\<lambda>u. if u \<in> set evicted then None else map_of (ut_units t) u)"
      using ih e(2) by (auto simp: drop_unit_def delete_conv')
    moreover have "ut_by_generation t' = filter (\<lambda>e. snd e \<notin> set evicted) (ut_by_generation t)"
      using ih e(2) by (auto simp: drop_unit_def intro!: filter_cong)
    ultimately show ?thesis using ih by (simp add: drop_unit_other(3))
  next
    case 3
    then show ?thesis using step.prems(1) by auto
  qed
qed simp

inductive unit_step :: "unit_table \<Rightarrow> unit_table \<Rightarrow> bool" where
  us_index: "unit_step t (unit_index pane agent u t)"
| us_set: "unit_step t (unit_set u entry t)"
| us_remove: "unit_step t (fst (unit_remove u t))"
| us_evict: "unit_step t (fst (unit_evict protected t))"

definition unit_table_ok :: "nat \<Rightarrow> unit_table \<Rightarrow> bool" where
  "unit_table_ok cap t \<longleftrightarrow>
     ut_cap t = max cap 1 \<and> distinct (ut_order t) \<and> distinct (map fst (ut_by_generation t))
     \<and> dom (map_of (ut_units t)) \<subseteq> set (ut_order t) \<and> snd ` set (ut_by_generation t) \<subseteq> set (ut_order t)"

lemma unit_touch_simps [simp]:
  "set (ut_order (unit_touch u t)) = insert u (set (ut_order t))" "distinct (ut_order (unit_touch u t)) = distinct (ut_order t)"
  "ut_units (unit_touch u t) = ut_units t" "ut_by_generation (unit_touch u t) = ut_by_generation t" "ut_cap (unit_touch u t) = ut_cap t"
  by (auto simp: unit_touch_def)

lemma set_update_subset: "set (AList.update k v xs) \<subseteq> insert (k, v) (set xs)"
  by (induction xs) auto

interpretation units: step_invariant "\<lambda>t. t = unit_table_new cap" unit_step "unit_table_ok cap" for cap
proof unfold_locales
  fix t
  show "t = unit_table_new cap \<Longrightarrow> unit_table_ok cap t" by (simp add: unit_table_ok_def unit_table_new_def)
next
  fix t t'
  assume inv: "unit_table_ok cap t" and "unit_step t t'"
  from this(2) show "unit_table_ok cap t'"
  proof cases
    case (us_index pane agent u)
    have "snd ` set (AList.update (pane, agent) u (ut_by_generation t)) \<subseteq> insert u (snd ` set (ut_by_generation t))"
      using set_update_subset[of "(pane, agent)" u "ut_by_generation t"] by force
    then have "snd ` set (AList.update (pane, agent) u (ut_by_generation t)) \<subseteq> insert u (set (ut_order t))"
      using inv unfolding unit_table_ok_def by blast
    with inv show ?thesis unfolding us_index unit_table_ok_def unit_index_def by (simp add: distinct_update) blast
  next
    case (us_set u entry)
    with inv show ?thesis by (auto simp: unit_table_ok_def unit_set_def update_conv')
  next
    case (us_remove u)
    with inv show ?thesis by (auto simp: unit_table_ok_def unit_remove_def delete_conv')
  next
    case (us_evict protected)
    obtain evicted where e: "evict_loop protected (ut_order t) [] t = (t', evicted)"
      using us_evict by (metis prod.collapse unit_evict_def)
    from evict_loop_spec[OF e] inv have spec: "ut_order t' = filter (\<lambda>u. u \<notin> set evicted) (ut_order t)"
        "map_of (ut_units t') = (\<lambda>u. if u \<in> set evicted then None else map_of (ut_units t) u)"
        "ut_by_generation t' = filter (\<lambda>e. snd e \<notin> set evicted) (ut_by_generation t)" "ut_cap t' = ut_cap t"
      by (simp_all add: unit_table_ok_def)
    have "distinct (map fst (filter (\<lambda>e. snd e \<notin> set evicted) (ut_by_generation t)))"
      using inv by (simp add: unit_table_ok_def distinct_map_filter)
    with inv spec show ?thesis by (auto simp: unit_table_ok_def dom_def)
  qed
qed

lemma map_of_filter_snd:
  "distinct (map fst xs) \<Longrightarrow> map_of (filter (\<lambda>e. P (snd e)) xs) k = (case map_of xs k of Some v \<Rightarrow> if P v then Some v else None | None \<Rightarrow> None)"
  by (induction xs) (auto split: option.splits simp: map_of_eq_None_iff dest: map_of_SomeD)

text \<open>
  Eviction takes the oldest units nobody needs. In every unit table the deck can reach, past the bound
  the table gives up, oldest first, exactly as many units as it is over, taken among those that are not
  claimed and that the caller does not protect; each goes with its result and every generation indexed to
  it, and everything else stays. Afterwards the table is within its bound, or everything left in it is
  claimed or protected.
\<close>

theorem units_evicted_oldest_first:
  assumes "unit_step\<^sup>*\<^sup>* (unit_table_new cap) t" "unit_evict protected t = (t', evicted)"
  shows "evicted = take (length (ut_order t) - max cap 1) (filter (\<lambda>u. \<not> keeps_unit protected t u) (ut_order t))
    \<and> ut_order t' = filter (\<lambda>u. u \<notin> set evicted) (ut_order t)
    \<and> (\<forall>u. unit_get u t' = (if u \<in> set evicted then None else unit_get u t))
    \<and> (\<forall>pane agent. unit_of pane agent t' =
         (case unit_of pane agent t of Some u \<Rightarrow> if u \<in> set evicted then None else Some u | None \<Rightarrow> None))
    \<and> (length (ut_order t') \<le> max cap 1 \<or> (\<forall>u \<in> set (ut_order t'). keeps_unit protected t u))"
proof -
  have inv: "unit_table_ok cap t" using units.reachable_inv assms(1) by blast
  then have dist: "distinct (ut_order t)" and cap: "ut_cap t = max cap 1" by (simp_all add: unit_table_ok_def)
  note spec = evict_loop_spec[OF assms(2)[unfolded unit_evict_def] dist, unfolded cap]
  let ?free = "filter (\<lambda>u. \<not> keeps_unit protected t u) (ut_order t)"
  have ev: "evicted = take (length (ut_order t) - max cap 1) ?free" using spec by simp
  have "length (ut_order t') + length evicted = length (ut_order t)"
  proof -
    have "set evicted \<subseteq> set (ut_order t)" using ev by (auto dest: in_set_takeD)
    then have "set (filter (\<lambda>u. u \<in> set evicted) (ut_order t)) = set evicted" by auto
    moreover have "distinct evicted" using ev dist by simp
    ultimately have "length (filter (\<lambda>u. u \<in> set evicted) (ut_order t)) = length evicted"
      using dist by (metis distinct_card distinct_filter)
    then show ?thesis using spec sum_length_filter_compl[of "\<lambda>u. u \<in> set evicted" "ut_order t"] by simp
  qed
  then have "length (ut_order t') \<le> max cap 1 \<or> evicted = ?free" using ev by auto
  then have "length (ut_order t') \<le> max cap 1 \<or> (\<forall>u \<in> set (ut_order t'). keeps_unit protected t u)"
    using spec by auto
  moreover have "unit_of pane agent t' = (case unit_of pane agent t of Some u \<Rightarrow> if u \<in> set evicted then None else Some u | None \<Rightarrow> None)" for pane agent
    using spec inv map_of_filter_snd[of "ut_by_generation t" "\<lambda>u. u \<notin> set evicted"]
    by (auto simp: unit_of_def unit_table_ok_def split: option.split)
  ultimately show ?thesis using spec ev by (simp add: unit_get_def)
qed

definition two_units :: unit_table where
  "two_units = unit_set ''u2'' (UnitEnded HowClosed) (unit_set ''u1'' (UnitEnded HowExited) (unit_table_new 1))"

section \<open>Tombstones\<close>

definition task_instance :: "task_ledger \<Rightarrow> string \<Rightarrow> string option" where
  "task_instance l i = map_option st_instance (map_of (tl_settled l) i)"

text \<open>The three places a tombstone is listed agree; \<open>order\<close> is the deck-wide list, which a loop may hold apart.\<close>

definition indexed :: "string list \<Rightarrow> task_ledger \<Rightarrow> bool" where
  "indexed order l \<longleftrightarrow>
     distinct (map fst (tl_open l)) \<and> distinct (map fst (tl_settled l)) \<and> distinct order
     \<and> set order = fst ` set (tl_settled l) \<and> fst ` set (tl_open l) \<inter> fst ` set (tl_settled l) = {}
     \<and> (\<forall>inst. instance_ids inst l = filter (\<lambda>i. task_instance l i = Some inst) order)"

lemma keys_delete: "fst ` set (AList.delete k xs) = fst ` set xs - {k}"
  by (metis delete_keys list.set_map set_removeAll)

lemma keys_update: "fst ` set (AList.update k v xs) = insert k (fst ` set xs)"
  by (induction xs) auto

lemma instance_ids_update:
  "instance_ids inst (l\<lparr>tl_by_instance := AList.update k ids (tl_by_instance l)\<rparr>) = (if inst = k then ids else instance_ids inst l)"
  by (simp add: instance_ids_def update_conv')

lemma task_instance_delete:
  assumes "tl_settled l' = AList.delete i (tl_settled l)"
  shows "task_instance l' j = (if j = i then None else task_instance l j)"
  using assms by (simp add: task_instance_def delete_conv')

lemma indexed_without:
  assumes "indexed order l" "task_instance l oldest = Some inst"
    "tl_settled l' = AList.delete oldest (tl_settled l)" "tl_open l' = tl_open l"
    "\<And>k. instance_ids k l' = (if k = inst then filter (\<lambda>i. i \<noteq> oldest) (instance_ids inst l) else instance_ids k l)"
  shows "indexed (filter (\<lambda>i. i \<noteq> oldest) order) l'"
proof -
  have "filter (\<lambda>i. task_instance l' i = Some k) (filter (\<lambda>i. i \<noteq> oldest) order) = instance_ids k l'" for k
  proof (cases "k = inst")
    case True
    then show ?thesis
      using assms(1,5) by (auto simp: indexed_def task_instance_delete[OF assms(3)] intro!: filter_cong)
  next
    case False
    then have "task_instance l oldest \<noteq> Some k" using assms(2) by simp
    then show ?thesis
      using assms(1,5) False by (auto simp: indexed_def task_instance_delete[OF assms(3)] intro!: filter_cong)
  qed
  then show ?thesis
    using assms(1,3,4) by (auto simp: indexed_def distinct_delete keys_delete)
qed

lemma instance_front:
  assumes "indexed order l" "instance_ids inst l = oldest # ids"
  shows "task_instance l oldest = Some inst" "filter (\<lambda>i. i \<noteq> oldest) (instance_ids inst l) = ids"
proof -
  have eq: "filter (\<lambda>i. task_instance l i = Some inst) order = oldest # ids" and dist: "distinct order"
    using assms by (auto simp: indexed_def)
  then have "oldest \<in> set (filter (\<lambda>i. task_instance l i = Some inst) order)" by simp
  then show "task_instance l oldest = Some inst" by simp
  have "distinct (oldest # ids)" using dist eq by (metis distinct_filter)
  then show "filter (\<lambda>i. i \<noteq> oldest) (instance_ids inst l) = ids" unfolding assms(2) by (auto simp: filter_id_conv)
qed

lemma evict_instance_ok:
  assumes "indexed (tl_order l) l" "instance_ids inst l = ids"
  shows "indexed (tl_order (evict_instance inst ids l)) (evict_instance inst ids l)
    \<and> instance_ids inst (evict_instance inst ids l) = drop (length ids - tl_per_instance l) ids
    \<and> (\<forall>k. k \<noteq> inst \<longrightarrow> instance_ids k (evict_instance inst ids l) = instance_ids k l)
    \<and> tl_order (evict_instance inst ids l) = filter (\<lambda>i. i \<notin> set (take (length ids - tl_per_instance l) ids)) (tl_order l)
    \<and> (\<forall>i. i \<notin> set (take (length ids - tl_per_instance l) ids) \<longrightarrow> map_of (tl_settled (evict_instance inst ids l)) i = map_of (tl_settled l) i)
    \<and> tl_open (evict_instance inst ids l) = tl_open l \<and> tl_per_instance (evict_instance inst ids l) = tl_per_instance l
    \<and> tl_global (evict_instance inst ids l) = tl_global l"
  using assms
proof (induction inst ids l rule: evict_instance.induct)
  case (2 inst oldest ids l)
  let ?l = "task_forget oldest (l\<lparr>tl_by_instance := AList.update inst ids (tl_by_instance l)\<rparr>)"
  show ?case
  proof (cases "tl_per_instance l < length (oldest # ids)")
    case False
    with 2 show ?thesis by simp
  next
    case True
    note front = instance_front[OF 2(2,3)]
    have ids: "instance_ids k ?l = (if k = inst then ids else instance_ids k l)" for k
      by (simp add: task_forget_def instance_ids_def update_conv')
    have idx: "indexed (tl_order ?l) ?l"
      using indexed_without[OF 2(2) front(1), of ?l] ids front(2) by (simp add: task_forget_def)
    have "instance_ids inst ?l = ids" using ids by simp
    from 2(1)[OF True idx this] True ids show ?thesis
      by (auto simp: task_forget_def Suc_diff_le delete_conv' intro!: filter_cong)
  qed
qed (simp add: indexed_def filter_id_conv)

lemma drop_oldest_ok:
  assumes "indexed (oldest # order) l"
  shows "indexed order (drop_oldest oldest l)"
    and "i \<noteq> oldest \<Longrightarrow> map_of (tl_settled (drop_oldest oldest l)) i = map_of (tl_settled l) i"
    and "tl_open (drop_oldest oldest l) = tl_open l" "tl_per_instance (drop_oldest oldest l) = tl_per_instance l"
      "tl_global (drop_oldest oldest l) = tl_global l"
    and "length (instance_ids k (drop_oldest oldest l)) \<le> length (instance_ids k l)"
proof -
  have "oldest \<in> fst ` set (tl_settled l)" using assms by (auto simp: indexed_def)
  then obtain st where st: "map_of (tl_settled l) oldest = Some st"
    by (meson map_of_eq_None_iff not_None_eq)
  let ?inst = "st_instance st"
  have inst: "task_instance l oldest = Some ?inst" using st by (simp add: task_instance_def)
  then have "oldest \<in> set (instance_ids ?inst l)" using assms by (auto simp: indexed_def)
  then obtain ids where ids: "map_of (tl_by_instance l) ?inst = Some ids"
    by (cases "map_of (tl_by_instance l) ?inst") (simp_all add: instance_ids_def)
  have eq: "drop_oldest oldest l = l\<lparr>tl_settled := AList.delete oldest (tl_settled l),
      tl_by_instance := (if filter (\<lambda>j. j \<noteq> oldest) ids = [] then AList.delete ?inst (tl_by_instance l)
        else AList.update ?inst (filter (\<lambda>j. j \<noteq> oldest) ids) (tl_by_instance l))\<rparr>"
    using st ids by (simp add: drop_oldest_def Let_def)
  have lists: "instance_ids k (drop_oldest oldest l) = (if k = ?inst then filter (\<lambda>j. j \<noteq> oldest) (instance_ids ?inst l) else instance_ids k l)" for k
    using ids by (auto simp: eq instance_ids_def update_conv' delete_conv')
  have "filter (\<lambda>j. j \<noteq> oldest) (oldest # order) = order" using assms by (auto simp: indexed_def filter_id_conv)
  then show "indexed order (drop_oldest oldest l)"
    using indexed_without[OF assms inst, of "drop_oldest oldest l"] lists by (simp add: eq)
  show "length (instance_ids k (drop_oldest oldest l)) \<le> length (instance_ids k l)" by (simp add: lists)
  show "i \<noteq> oldest \<Longrightarrow> map_of (tl_settled (drop_oldest oldest l)) i = map_of (tl_settled l) i"
    by (simp add: eq delete_conv')
qed (simp_all add: drop_oldest_def Let_def split: option.split)

lemma evict_global_ok:
  assumes "indexed order l"
  shows "indexed (tl_order (evict_global order l)) (evict_global order l)
    \<and> tl_order (evict_global order l) = drop (length order - tl_global l) order
    \<and> (\<forall>i. i \<notin> set (take (length order - tl_global l) order) \<longrightarrow> map_of (tl_settled (evict_global order l)) i = map_of (tl_settled l) i)
    \<and> tl_open (evict_global order l) = tl_open l \<and> tl_per_instance (evict_global order l) = tl_per_instance l
    \<and> tl_global (evict_global order l) = tl_global l
    \<and> (\<forall>k. length (instance_ids k (evict_global order l)) \<le> length (instance_ids k l))"
  using assms
proof (induction order l rule: evict_global.induct)
  case (1 l)
  then show ?case by (simp add: indexed_def instance_ids_def task_instance_def)
next
  case (2 oldest order l)
  show ?case
  proof (cases "tl_global l < length (oldest # order)")
    case False
    with 2 show ?thesis by (simp add: indexed_def instance_ids_def task_instance_def)
  next
    case True
    note drop = drop_oldest_ok[OF 2(2)]
    from 2(1)[OF True drop(1)] have ih: "indexed (tl_order (evict_global order (drop_oldest oldest l))) (evict_global order (drop_oldest oldest l))"
      "tl_order (evict_global order (drop_oldest oldest l)) = drop (length order - tl_global l) order"
      "\<And>i. i \<notin> set (take (length order - tl_global l) order) \<Longrightarrow>
        map_of (tl_settled (evict_global order (drop_oldest oldest l))) i = map_of (tl_settled (drop_oldest oldest l)) i"
      "tl_open (evict_global order (drop_oldest oldest l)) = tl_open l"
      "tl_per_instance (evict_global order (drop_oldest oldest l)) = tl_per_instance l"
      "tl_global (evict_global order (drop_oldest oldest l)) = tl_global l"
      "\<And>k. length (instance_ids k (evict_global order (drop_oldest oldest l))) \<le> length (instance_ids k (drop_oldest oldest l))"
      unfolding drop(3-5) by blast+
    have "length (instance_ids k (evict_global order (drop_oldest oldest l))) \<le> length (instance_ids k l)" for k
      using ih(7)[of k] drop(6)[of k] by linarith
    with ih True drop(2) show ?thesis by (simp add: Suc_diff_le)
  qed
qed

section \<open>The ledger\<close>

inductive task_step :: "task_ledger \<Rightarrow> task_ledger \<Rightarrow> bool" where
  ts_bind: "task_step l (fst (task_bind i binding l))"
| ts_change: "task_step l (l\<lparr>tl_open := AList.map_entry i f (tl_open l)\<rparr>)" if "\<And>t. tk_binding (f t) = tk_binding t"
| ts_settle: "task_step l (fst (task_settle i tombstone l))"

definition ledger_ok :: "nat \<Rightarrow> task_ledger \<Rightarrow> bool" where
  "ledger_ok per l \<longleftrightarrow>
     indexed (tl_order l) l \<and> tl_per_instance l = max per 1 \<and> tl_global l = min u64_max (max per 1 * 16)
     \<and> (\<forall>inst. length (instance_ids inst l) \<le> tl_per_instance l) \<and> length (tl_order l) \<le> tl_global l"

text \<open>What settling adds before anything is evicted.\<close>

definition settled_raw :: "string \<Rightarrow> string \<Rightarrow> settled_task \<Rightarrow> task_ledger \<Rightarrow> task_ledger" where
  "settled_raw i inst entry l =
     l\<lparr>tl_open := AList.delete i (tl_open l), tl_settled := AList.update i entry (tl_settled l),
       tl_by_instance := AList.update inst (instance_ids inst l @ [i]) (tl_by_instance l), tl_order := tl_order l @ [i]\<rparr>"

lemma settled_raw_ok:
  assumes "indexed (tl_order l) l" "map_of (tl_open l) i = Some t" "st_instance entry = inst"
  shows "indexed (tl_order l @ [i]) (settled_raw i inst entry l)"
    "instance_ids k (settled_raw i inst entry l) = (if k = inst then instance_ids inst l @ [i] else instance_ids k l)"
proof -
  have fresh: "i \<in> fst ` set (tl_open l)" using assms(2) by (force dest: map_of_SomeD)
  then have new: "i \<notin> fst ` set (tl_settled l)" "i \<notin> set (tl_order l)" using assms(1) by (auto simp: indexed_def)
  have ti: "task_instance (settled_raw i inst entry l) j = (if j = i then Some inst else task_instance l j)" for j
    using assms(3) by (simp add: task_instance_def settled_raw_def update_conv')
  show ids: "instance_ids k (settled_raw i inst entry l) = (if k = inst then instance_ids inst l @ [i] else instance_ids k l)" for k
    by (simp add: settled_raw_def instance_ids_def update_conv')
  have "filter (\<lambda>j. task_instance (settled_raw i inst entry l) j = Some k) (tl_order l) = filter (\<lambda>j. task_instance l j = Some k) (tl_order l)" for k
    using new(2) by (intro filter_cong) (auto simp: ti)
  then have "instance_ids k (settled_raw i inst entry l) = filter (\<lambda>j. task_instance (settled_raw i inst entry l) j = Some k) (tl_order l @ [i])" for k
    using assms(1) by (simp add: ids ti indexed_def)
  then show "indexed (tl_order l @ [i]) (settled_raw i inst entry l)"
    using assms(1) new by (auto simp: indexed_def settled_raw_def distinct_delete distinct_update keys_delete keys_update)
qed

lemma last_not_dropped:
  assumes "distinct (xs @ [x])" "0 < n"
  shows "x \<notin> set (take (length (xs @ [x]) - n) (xs @ [x]))"
proof -
  have "take (length (xs @ [x]) - n) (xs @ [x]) = take (length (xs @ [x]) - n) xs" using assms(2) by simp
  then show ?thesis using assms(1) by (auto dest: in_set_takeD)
qed

lemma task_settle_ok:
  assumes "ledger_ok per l" "map_of (tl_open l) i = Some t"
  shows "ledger_ok per (fst (task_settle i tombstone l))"
    "snd (task_settle i tombstone l) = Some t"
    "tl_open (fst (task_settle i tombstone l)) = AList.delete i (tl_open l)"
    "\<exists>inst. map_of (tl_settled (fst (task_settle i tombstone l))) i = Some
       \<lparr>st_tombstone = tombstone, st_worker_pane = tb_worker_pane (tk_binding t), st_worker_agent = tb_worker_agent (tk_binding t), st_instance = inst\<rparr>"
proof -
  define inst where "inst = (case tb_instance (tk_binding t) of Some x \<Rightarrow> x | None \<Rightarrow> NO_INSTANCE)"
  define entry where "entry = \<lparr>st_tombstone = tombstone, st_worker_pane = tb_worker_pane (tk_binding t),
    st_worker_agent = tb_worker_agent (tk_binding t), st_instance = inst\<rparr>"
  define l0 where "l0 = settled_raw i inst entry l"
  define l1 where "l1 = evict_instance inst (instance_ids inst l0) l0"
  have settle: "fst (task_settle i tombstone l) = evict_global (tl_order l1) l1" "snd (task_settle i tombstone l) = Some t"
    using assms(2) by (simp_all add: task_settle_def task_evict_def Let_def inst_def entry_def l0_def l1_def settled_raw_def)
  have ok: "indexed (tl_order l) l" "tl_per_instance l = max per 1" "tl_global l = min u64_max (max per 1 * 16)"
    "length (instance_ids k l) \<le> tl_per_instance l" "length (tl_order l) \<le> tl_global l" for k
    using assms(1) unfolding ledger_ok_def by blast+
  have "st_instance entry = inst" by (simp add: entry_def)
  note raw = settled_raw_ok[OF ok(1) assms(2) this]
  have l0: "tl_order l0 = tl_order l @ [i]" "tl_per_instance l0 = tl_per_instance l" "tl_global l0 = tl_global l"
    "tl_open l0 = AList.delete i (tl_open l)" "map_of (tl_settled l0) i = Some entry"
    by (simp_all add: l0_def settled_raw_def update_conv')
  have idx0: "indexed (tl_order l0) l0" unfolding l0(1) unfolding l0_def by (rule raw(1))
  have ids0: "instance_ids k l0 = (if k = inst then instance_ids inst l @ [i] else instance_ids k l)" for k
    using raw(2) by (simp add: l0_def)
  let ?gone = "take (length (instance_ids inst l0) - tl_per_instance l0) (instance_ids inst l0)"
  have e1: "indexed (tl_order l1) l1" "instance_ids inst l1 = drop (length (instance_ids inst l0) - tl_per_instance l0) (instance_ids inst l0)"
    "\<And>k. k \<noteq> inst \<Longrightarrow> instance_ids k l1 = instance_ids k l0" "tl_order l1 = filter (\<lambda>j. j \<notin> set ?gone) (tl_order l0)"
    "\<And>j. j \<notin> set ?gone \<Longrightarrow> map_of (tl_settled l1) j = map_of (tl_settled l0) j"
    "tl_open l1 = tl_open l0" "tl_per_instance l1 = tl_per_instance l0" "tl_global l1 = tl_global l0"
    using evict_instance_ok[OF idx0 refl, of inst] unfolding l1_def by blast+
  have e2: "indexed (tl_order (evict_global (tl_order l1) l1)) (evict_global (tl_order l1) l1)"
    "tl_order (evict_global (tl_order l1) l1) = drop (length (tl_order l1) - tl_global l1) (tl_order l1)"
    "\<And>j. j \<notin> set (take (length (tl_order l1) - tl_global l1) (tl_order l1)) \<Longrightarrow>
       map_of (tl_settled (evict_global (tl_order l1) l1)) j = map_of (tl_settled l1) j"
    "tl_open (evict_global (tl_order l1) l1) = tl_open l1" "tl_per_instance (evict_global (tl_order l1) l1) = tl_per_instance l1"
    "tl_global (evict_global (tl_order l1) l1) = tl_global l1"
    "\<And>k. length (instance_ids k (evict_global (tl_order l1) l1)) \<le> length (instance_ids k l1)"
    using evict_global_ok[OF e1(1)] by blast+
  have "length (instance_ids k l1) \<le> tl_per_instance l" for k
    using e1(2) e1(3)[of k] ids0[of k] ok(4)[of k] by (cases "k = inst") (auto simp: l0(2))
  then have short: "length (instance_ids k (evict_global (tl_order l1) l1)) \<le> tl_per_instance l" for k
    using e2(7)[of k] le_trans by blast
  have len: "length (tl_order (evict_global (tl_order l1) l1)) \<le> tl_global l"
    unfolding e2(2) e1(8) l0(3) by simp
  show "ledger_ok per (fst (task_settle i tombstone l))"
    unfolding ledger_ok_def settle e2(5,6) e1(7,8) l0(2,3)
    using e2(1) short ok(2,3) len by blast
  show "snd (task_settle i tombstone l) = Some t" by (rule settle)
  show "tl_open (fst (task_settle i tombstone l)) = AList.delete i (tl_open l)" unfolding settle by (simp add: e2(4) e1(6) l0(4))
  have "distinct (instance_ids inst l @ [i])"
    using idx0 ids0[of inst] by (metis distinct_filter indexed_def)
  then have kept: "i \<notin> set ?gone"
    using last_not_dropped[of "instance_ids inst l" i "tl_per_instance l0"] ids0[of inst] ok(2) l0(2) by simp
  have order1: "tl_order l1 = filter (\<lambda>j. j \<notin> set ?gone) (tl_order l) @ [i]" using e1(4) kept l0(1) by simp
  have "0 < tl_global l1" using e1(8) l0(3) ok(3) by (simp add: u64_max_def)
  then have "i \<notin> set (take (length (tl_order l1) - tl_global l1) (tl_order l1))"
    using last_not_dropped[of "filter (\<lambda>j. j \<notin> set ?gone) (tl_order l)" i "tl_global l1"] e1(1) unfolding order1 indexed_def by blast
  with e2(3) e1(5)[OF kept] l0(5) show "\<exists>inst. map_of (tl_settled (fst (task_settle i tombstone l))) i = Some
       \<lparr>st_tombstone = tombstone, st_worker_pane = tb_worker_pane (tk_binding t), st_worker_agent = tb_worker_agent (tk_binding t), st_instance = inst\<rparr>"
    unfolding settle entry_def by auto
qed

interpretation tasks: step_invariant "\<lambda>l. l = task_ledger_new per" task_step "ledger_ok per" for per
proof unfold_locales
  fix l
  show "l = task_ledger_new per \<Longrightarrow> ledger_ok per l"
    by (simp add: ledger_ok_def task_ledger_new_def indexed_def instance_ids_def Let_def)
next
  fix l l'
  assume inv: "ledger_ok per l" and "task_step l l'"
  from this(2) show "ledger_ok per l'"
  proof cases
    case (ts_bind i binding)
    with inv show ?thesis
      by (auto simp: task_bind_def ledger_ok_def indexed_def instance_ids_def task_instance_def distinct_update keys_update map_of_eq_None_iff)
  next
    case (ts_change f i)
    with inv show ?thesis
      by (auto simp: ledger_ok_def indexed_def instance_ids_def task_instance_def dom_map_entry distinct_map_entry)
  next
    case (ts_settle i tombstone)
    show ?thesis
    proof (cases "map_of (tl_open l) i")
      case None
      with inv ts_settle show ?thesis by (simp add: task_settle_def)
    next
      case (Some t)
      then show ?thesis using task_settle_ok(1)[OF inv Some] ts_settle by simp
    qed
  qed
qed

text \<open>
  However the ledger of delegated tasks came about from an empty one by binding, changing and settling
  tasks, its indexes of the settled ones agree: the queue of all of them and each instance's queue hold
  exactly the ids with a tombstone, in the order they were settled and without repetition; no id is both
  open and settled; an instance keeps at most its limit of tombstones and the ledger at most the total.
\<close>

theorem tasks_indexed:
  assumes "task_step\<^sup>*\<^sup>* (task_ledger_new per) l"
  shows "distinct (tl_order l) \<and> (\<forall>i. i \<in> set (tl_order l) \<longleftrightarrow> (\<exists>s. map_of (tl_settled l) i = Some s))
    \<and> (\<forall>inst. instance_ids inst l = filter (\<lambda>i. task_instance l i = Some inst) (tl_order l)
          \<and> length (instance_ids inst l) \<le> max per 1)
    \<and> (\<forall>i. map_of (tl_open l) i = None \<or> map_of (tl_settled l) i = None)
    \<and> settled_len l = length (tl_order l) \<and> settled_len l \<le> max per 1 * 16"
proof -
  have ok: "ledger_ok per l" using tasks.reachable_inv[OF refl assms] .
  then have idx: "indexed (tl_order l) l" by (simp add: ledger_ok_def)
  then have len: "settled_len l = length (tl_order l)"
    by (metis (no_types, lifting) distinct_card indexed_def length_map list.set_map settled_len_def)
  have "\<forall>i. i \<in> set (tl_order l) \<longleftrightarrow> (\<exists>s. map_of (tl_settled l) i = Some s)"
    using idx by (metis indexed_def map_of_eq_None_iff not_None_eq)
  moreover have "\<forall>i. map_of (tl_open l) i = None \<or> map_of (tl_settled l) i = None"
    using idx by (auto simp: indexed_def map_of_eq_None_iff)
  moreover have "settled_len l \<le> max per 1 * 16" using ok len by (auto simp: ledger_ok_def)
  moreover have "\<forall>inst. length (instance_ids inst l) \<le> max per 1" using ok unfolding ledger_ok_def by metis
  ultimately show ?thesis using idx len by (auto simp: indexed_def)
qed

definition sample_binding :: task_binding where
  "sample_binding =
     \<lparr>tb_worker_pane = ''p1'', tb_worker_agent = ''a1'', tb_instance = None, tb_role = ''coder'', tb_orchestrator = None,
      tb_arm_id = None, tb_seq = None\<rparr>"

definition two_bound :: task_ledger where
  "two_bound = fst (task_bind ''t2'' sample_binding (fst (task_bind ''t1'' sample_binding (task_ledger_new 1))))"

definition both_settled :: task_ledger where
  "both_settled = fst (task_settle ''t2'' TombClosed (fst (task_settle ''t1'' TombClosed two_bound)))"

lemma two_bound_steps: "task_step\<^sup>*\<^sup>* (task_ledger_new 1) two_bound"
  unfolding two_bound_def by (meson converse_rtranclp_into_rtranclp rtranclp.rtrancl_refl ts_bind)

lemma both_settled_steps: "task_step\<^sup>*\<^sup>* (task_ledger_new 1) both_settled"
  using two_bound_steps unfolding both_settled_def by (meson rtranclp.rtrancl_into_rtrancl ts_settle)

text \<open>
  How long a tombstone lasts: \<open>recent k n i s l\<close> says that \<open>i\<close> has tombstone \<open>s\<close> and that at most \<open>n\<close> tasks, at most \<open>k\<close> of
  them of its own instance, are listed after it.
\<close>

definition recent :: "nat \<Rightarrow> nat \<Rightarrow> string \<Rightarrow> settled_task \<Rightarrow> task_ledger \<Rightarrow> bool" where
  "recent k n i s l \<longleftrightarrow>
     map_of (tl_settled l) i = Some s
     \<and> (\<exists>before after. tl_order l = before @ i # after \<and> length after \<le> n
          \<and> length (filter (\<lambda>j. task_instance l j = Some (st_instance s)) after) \<le> k)"

lemma drop_before:
  assumes "distinct (xs @ x # ys)" "length ys < m"
  shows "x \<notin> set (take (length (xs @ x # ys) - m) (xs @ x # ys))"
    "drop (length (xs @ x # ys) - m) (xs @ x # ys) = drop (length (xs @ x # ys) - m) xs @ x # ys"
    "y \<in> set ys \<Longrightarrow> y \<notin> set (take (length (xs @ x # ys) - m) (xs @ x # ys))"
proof -
  have le: "length (xs @ x # ys) - m \<le> length xs" using assms(2) by simp
  then show "drop (length (xs @ x # ys) - m) (xs @ x # ys) = drop (length (xs @ x # ys) - m) xs @ x # ys" by simp
  have "set (take (length (xs @ x # ys) - m) (xs @ x # ys)) \<subseteq> set xs" using le by (auto dest: in_set_takeD)
  then show "x \<notin> set (take (length (xs @ x # ys) - m) (xs @ x # ys))"
    "y \<in> set ys \<Longrightarrow> y \<notin> set (take (length (xs @ x # ys) - m) (xs @ x # ys))" using assms(1) by auto
qed

lemma evict_keeps_recent:
  assumes idx: "indexed (tl_order l) l" and rec: "recent k n i s l" and room: "k < tl_per_instance l" "n < tl_global l"
  shows "recent k n i s (task_evict inst l)"
proof -
  let ?mine = "\<lambda>j. task_instance l j = Some (st_instance s)"
  obtain before after where order: "tl_order l = before @ i # after" and n: "length after \<le> n" and k: "length (filter ?mine after) \<le> k"
    and s: "map_of (tl_settled l) i = Some s"
    using rec by (auto simp: recent_def)
  have own: "?mine i" using s by (simp add: task_instance_def)
  define gone where "gone = take (length (instance_ids inst l) - tl_per_instance l) (instance_ids inst l)"
  define l1 where "l1 = evict_instance inst (instance_ids inst l) l"
  have e1: "indexed (tl_order l1) l1" "tl_order l1 = filter (\<lambda>j. j \<notin> set gone) (tl_order l)"
    "\<And>j. j \<notin> set gone \<Longrightarrow> map_of (tl_settled l1) j = map_of (tl_settled l) j" "tl_global l1 = tl_global l"
    using evict_instance_ok[OF idx refl, of inst] unfolding l1_def gone_def by blast+
  have kept: "i \<notin> set gone"
  proof (cases "st_instance s = inst")
    case True
    have ids: "instance_ids inst l = filter ?mine before @ i # filter ?mine after"
      using idx order own True by (simp add: indexed_def)
    then have "distinct (filter ?mine before @ i # filter ?mine after)" using idx by (metis distinct_filter indexed_def)
    then show ?thesis using drop_before(1)[of "filter ?mine before" i "filter ?mine after"] k room(1) unfolding gone_def ids by simp
  next
    case False
    then show ?thesis using idx own by (auto simp: gone_def indexed_def dest: in_set_takeD)
  qed
  let ?pre = "filter (\<lambda>j. j \<notin> set gone) before" and ?post = "filter (\<lambda>j. j \<notin> set gone) after"
  have order1: "tl_order l1 = ?pre @ i # ?post" using e1(2) order kept by simp
  then have dist: "distinct (?pre @ i # ?post)" using e1(1) by (simp add: indexed_def)
  have short: "length ?post \<le> n" using n length_filter_le[of _ after] le_trans by blast
  then have less: "length ?post < tl_global l" using room(2) by simp
  note cut = drop_before[OF dist less]
  have e2: "tl_order (task_evict inst l) = drop (length (?pre @ i # ?post) - tl_global l) ?pre @ i # ?post"
    "\<And>j. j \<in> set (i # ?post) \<Longrightarrow> map_of (tl_settled (task_evict inst l)) j = map_of (tl_settled l1) j"
    using evict_global_ok[OF e1(1)] cut unfolding task_evict_def Let_def l1_def[symmetric] e1(4) order1 by auto
  have "task_instance (task_evict inst l) j = task_instance l j" if "j \<in> set ?post" for j
    using e2(2)[of j] e1(3)[of j] that by (simp add: task_instance_def)
  then have "filter (\<lambda>j. task_instance (task_evict inst l) j = Some (st_instance s)) ?post = filter ?mine ?post"
    by (intro filter_cong) simp_all
  also have "\<dots> = filter (\<lambda>j. j \<notin> set gone) (filter ?mine after)" by (simp add: conj_commute)
  finally have "length (filter (\<lambda>j. task_instance (task_evict inst l) j = Some (st_instance s)) ?post) \<le> k"
    using k length_filter_le le_trans by metis
  moreover have "map_of (tl_settled (task_evict inst l)) i = Some s" using e2(2)[of i] e1(3)[OF kept] s by simp
  ultimately show ?thesis using e2(1) short unfolding recent_def by blast
qed

definition bound_instance :: "deck_task \<Rightarrow> string" where
  "bound_instance t = (case tb_instance (tk_binding t) of Some x \<Rightarrow> x | None \<Rightarrow> NO_INSTANCE)"

lemma settle_recent:
  assumes ok: "ledger_ok per l" and j: "map_of (tl_open l) j = Some t"
  shows "recent 0 0 j \<lparr>st_tombstone = tombstone, st_worker_pane = tb_worker_pane (tk_binding t),
      st_worker_agent = tb_worker_agent (tk_binding t), st_instance = bound_instance t\<rparr> (fst (task_settle j tombstone l))"
    and "recent k n i s l \<Longrightarrow> k' = (if bound_instance t = st_instance s then Suc k else k) \<Longrightarrow> k' < max per 1 \<Longrightarrow> Suc n < min u64_max (max per 1 * 16)
      \<Longrightarrow> recent k' (Suc n) i s (fst (task_settle j tombstone l))"
proof -
  let ?entry = "\<lparr>st_tombstone = tombstone, st_worker_pane = tb_worker_pane (tk_binding t),
    st_worker_agent = tb_worker_agent (tk_binding t), st_instance = bound_instance t\<rparr>"
  define l0 where "l0 = settled_raw j (bound_instance t) ?entry l"
  have settle: "fst (task_settle j tombstone l) = task_evict (bound_instance t) l0"
    using j by (simp add: task_settle_def Let_def bound_instance_def l0_def settled_raw_def)
  have l: "indexed (tl_order l) l" "tl_per_instance l = max per 1" "tl_global l = min u64_max (max per 1 * 16)"
    using ok unfolding ledger_ok_def by blast+
  have l0: "tl_order l0 = tl_order l @ [j]" "tl_settled l0 = AList.update j ?entry (tl_settled l)"
    "tl_per_instance l0 = max per 1" "tl_global l0 = min u64_max (max per 1 * 16)"
    using l(2,3) by (simp_all add: l0_def settled_raw_def)
  have idx: "indexed (tl_order l0) l0" using settled_raw_ok(1)[OF l(1) j, of ?entry] by (simp add: l0_def l0(1)[unfolded l0_def])
  have "0 < min u64_max (max per 1 * 16)" by (simp add: u64_max_def)
  moreover have "recent 0 0 j ?entry l0" by (simp add: recent_def l0 update_conv')
  ultimately show "recent 0 0 j ?entry (fst (task_settle j tombstone l))"
    unfolding settle using l0(3,4) by (intro evict_keeps_recent[OF idx]) simp_all
  assume rec: "recent k n i s l" and k': "k' = (if bound_instance t = st_instance s then Suc k else k)"
    and room: "k' < max per 1" "Suc n < min u64_max (max per 1 * 16)"
  then obtain before after where order: "tl_order l = before @ i # after" and n: "length after \<le> n"
    and k: "length (filter (\<lambda>j. task_instance l j = Some (st_instance s)) after) \<le> k" and s: "map_of (tl_settled l) i = Some s"
    by (auto simp: recent_def)
  have new: "j \<notin> set (tl_order l)" using j l(1) by (auto simp: indexed_def dest!: map_of_SomeD) (metis disjoint_iff fst_conv image_eqI)
  have same: "task_instance l0 x = task_instance l x" if "x \<noteq> j" for x using that by (simp add: task_instance_def l0(2) update_conv')
  have "task_instance l0 j = Some (bound_instance t)" by (simp add: task_instance_def l0(2) update_conv')
  moreover have "filter (\<lambda>x. task_instance l0 x = Some (st_instance s)) after = filter (\<lambda>x. task_instance l x = Some (st_instance s)) after"
    using same new order by (intro filter_cong) (auto, metis+)
  ultimately have "length (filter (\<lambda>x. task_instance l0 x = Some (st_instance s)) (after @ [j])) \<le> k'" using k k' by simp
  moreover have "tl_order l0 = before @ i # (after @ [j])" "length (after @ [j]) \<le> Suc n" using l0(1) order n by simp_all
  moreover have "map_of (tl_settled l0) i = Some s" using s new order by (auto simp: l0(2) update_conv')
  ultimately have "recent k' (Suc n) i s l0" unfolding recent_def by blast
  then show "recent k' (Suc n) i s (fst (task_settle j tombstone l))"
    unfolding settle using l0(3,4) room by (intro evict_keeps_recent[OF idx]) simp_all
qed

text \<open>
  What follows a settling: \<open>task_run inst k n l l'\<close> when \<open>l'\<close> came about from \<open>l\<close> by binding, changing and settling tasks, \<open>n\<close> of
  them settled, \<open>k\<close> of these bound to the instance.
\<close>

inductive task_run :: "string \<Rightarrow> nat \<Rightarrow> nat \<Rightarrow> task_ledger \<Rightarrow> task_ledger \<Rightarrow> bool" for inst :: string where
  tr_none: "task_run inst 0 0 l l"
| tr_bind: "task_run inst k n l (fst (task_bind i binding l'))" if "task_run inst k n l l'"
| tr_change: "task_run inst k n l (l'\<lparr>tl_open := AList.map_entry i f (tl_open l')\<rparr>)"
    if "task_run inst k n l l'" "\<And>t. tk_binding (f t) = tk_binding t"
| tr_settle: "task_run inst (if bound_instance t = inst then Suc k else k) (Suc n) l (fst (task_settle i tombstone l'))"
    if "task_run inst k n l l'" "map_of (tl_open l') i = Some t"

lemma run_steps: "task_run inst k n l l' \<Longrightarrow> task_step\<^sup>*\<^sup>* l l'"
proof (induction rule: task_run.induct)
  case (tr_change k n l l' f i)
  then show ?case using ts_change rtranclp.rtrancl_into_rtrancl by metis
qed (auto intro: rtranclp.rtrancl_into_rtrancl ts_bind ts_settle)

lemma run_recent:
  assumes "task_run inst k n l l'" "ledger_ok per l" "recent 0 0 i s l" "st_instance s = inst" "k < max per 1" "n < min u64_max (max per 1 * 16)"
  shows "recent k n i s l'"
  using assms
proof (induction rule: task_run.induct)
  case (tr_bind k n l l' j binding)
  then show ?case by (auto simp: recent_def task_bind_def task_instance_def)
next
  case (tr_change k n l l' f j)
  then show ?case by (auto simp: recent_def task_instance_def)
next
  case (tr_settle k n l l' j t tombstone)
  have "k < max per 1" "n < min u64_max (max per 1 * 16)" using tr_settle.prems(4,5) by (auto split: if_splits)
  then have rec: "recent k n i s l'" using tr_settle.IH tr_settle.prems(1-3) by blast
  have "ledger_ok per l'" using tasks.steps_inv[OF run_steps[OF tr_settle.hyps(1)] tr_settle.prems(1)] .
  from settle_recent(2)[OF this tr_settle.hyps(2) rec] tr_settle.prems(3-5) show ?case by auto
qed simp

text \<open>
  C38: Settling an open task answers the task and touches no other open one. While fewer further tasks of its instance are
  settled than an instance keeps tombstones (at least one), and fewer in all than the ledger keeps, whatever else is bound
  and changed, the ledger answers its id with the tombstone and the worker it was bound to, so that a report for it is told
  how it ended, and refuses to bind the id again; this holds in a full ledger too. Settling an id that is not open changes
  nothing.
\<close>

theorem settled_task_found:
  assumes "task_step\<^sup>*\<^sup>* (task_ledger_new per) l" and "task_settle i tombstone l = (l', answer)"
  shows "answer = map_of (tl_open l) i \<and> (answer = None \<longrightarrow> l' = l)
    \<and> (\<forall>t. answer = Some t \<longrightarrow>
         (\<forall>j. j \<noteq> i \<longrightarrow> map_of (tl_open l') j = map_of (tl_open l) j)
         \<and> (\<forall>k n l''. task_run (bound_instance t) k n l' l'' \<and> k < max per 1 \<and> n < min u64_max (max per 1 * 16) \<longrightarrow>
              (\<exists>s. task_lookup_of i l'' = LookupSettled s \<and> st_tombstone s = tombstone
                 \<and> st_worker_pane s = tb_worker_pane (tk_binding t) \<and> st_worker_agent s = tb_worker_agent (tk_binding t))
              \<and> (\<forall>binding. task_bind i binding l'' = (l'', False))))"
proof (cases "map_of (tl_open l) i")
  case None
  with assms(2) show ?thesis by (auto simp: task_settle_def)
next
  case (Some t)
  have ok: "ledger_ok per l" using tasks.reachable_inv[OF refl assms(1)] .
  note settle = task_settle_ok(1-3)[OF ok Some, of tombstone, unfolded assms(2) fst_conv snd_conv]
  let ?s = "\<lparr>st_tombstone = tombstone, st_worker_pane = tb_worker_pane (tk_binding t),
      st_worker_agent = tb_worker_agent (tk_binding t), st_instance = bound_instance t\<rparr>"
  have now: "recent 0 0 i ?s l'" using settle_recent(1)[OF ok Some, of tombstone] assms(2) by simp
  have "task_lookup_of i l'' = LookupSettled ?s \<and> task_bind i binding l'' = (l'', False)"
    if "task_run (bound_instance t) k n l' l''" "k < max per 1" "n < min u64_max (max per 1 * 16)" for k n l'' binding
  proof -
    have "recent k n i ?s l''" by (rule run_recent[OF that(1) settle(1) now _ that(2,3)]) simp
    then have s: "map_of (tl_settled l'') i = Some ?s" by (simp add: recent_def)
    have "ledger_ok per l''" using tasks.steps_inv[OF run_steps[OF that(1)] settle(1)] .
    then have "map_of (tl_open l'') i = None"
      using s by (auto simp: ledger_ok_def indexed_def map_of_eq_None_iff dest!: map_of_SomeD) (metis disjoint_iff fst_conv image_eqI)
    with s show ?thesis by (simp add: task_lookup_of_def task_bind_def)
  qed
  with settle(2,3) Some show ?thesis by (fastforce simp: delete_conv')
qed

theorem settled_task_found_witness:
  "\<exists>s. task_lookup_of ''t1'' (fst (task_bind ''t3'' sample_binding (fst (task_settle ''t1'' TombClosed two_bound)))) = LookupSettled s
     \<and> st_worker_pane s = ''p1''"
proof -
  have "\<exists>t. map_of (tl_open two_bound) ''t1'' = Some t \<and> tb_worker_pane (tk_binding t) = ''p1''"
    by (simp add: two_bound_def task_bind_def task_ledger_new_def Let_def sample_binding_def update_conv')
  then obtain t where t: "map_of (tl_open two_bound) ''t1'' = Some t" "tb_worker_pane (tk_binding t) = ''p1''" by blast
  let ?l = "fst (task_settle ''t1'' TombClosed two_bound)"
  have run: "task_run (bound_instance t) 0 0 ?l (fst (task_bind ''t3'' sample_binding ?l))" by (intro tr_bind tr_none)
  have room: "0 < max (1::nat) 1" "0 < min u64_max (max 1 1 * 16)" by (simp_all add: u64_max_def)
  from settled_task_found[OF two_bound_steps surjective_pairing, of "''t1''" TombClosed] t run room show ?thesis by metis
qed

section \<open>Claims\<close>

text \<open>A claim goes in under an id the table handed out and does not hold.\<close>

inductive claim_step :: "claim_table \<Rightarrow> claim_table \<Rightarrow> bool" where
  cl_mint: "claim_step t (fst (claim_mint t))"
| cl_insert: "claim_step t (claim_insert c t)" if "rc_claim_id c \<le> ct_next t" "map_of (ct_claims t) (rc_claim_id c) = None"
| cl_change: "claim_step t (t\<lparr>ct_claims := AList.map_entry i f (ct_claims t)\<rparr>)"
    if "\<And>c. claim_generation (f c) = claim_generation c \<and> rc_claim_id (f c) = rc_claim_id c"
| cl_remove: "claim_step t (fst (claim_remove i t))"

definition claims_ok :: "claim_table \<Rightarrow> bool" where
  "claims_ok t \<longleftrightarrow>
     (\<forall>i c. map_of (ct_claims t) i = Some c \<longrightarrow> rc_claim_id c = i \<and> i \<le> ct_next t)
     \<and> (\<forall>g i. map_of (ct_by_generation t) g = Some i \<longrightarrow> (\<exists>c. map_of (ct_claims t) i = Some c \<and> claim_generation c = g))"

lemma claims_ok_generation:
  assumes "claims_ok t" "map_of (ct_by_generation t) g = Some i"
  obtains c where "map_of (ct_claims t) i = Some c" "claim_generation c = g"
  using assms unfolding claims_ok_def by blast

lemma claim_remove_ok:
  assumes "claims_ok t"
  shows "claims_ok (fst (claim_remove i t))"
proof (cases "map_of (ct_claims t) i")
  case None
  with assms show ?thesis by (simp add: claim_remove_def)
next
  case (Some c)
  let ?t = "fst (claim_remove i t)"
  have "\<exists>d. map_of (ct_claims ?t) j = Some d \<and> claim_generation d = g" if "map_of (ct_by_generation ?t) g = Some j" for g j
  proof -
    from that Some have old: "map_of (ct_by_generation t) g = Some j" and "j = i \<longrightarrow> g \<noteq> claim_generation c"
      by (auto simp: claim_remove_def delete_conv' split: if_splits)
    from claims_ok_generation[OF assms old] obtain d where "map_of (ct_claims t) j = Some d" "claim_generation d = g" .
    with \<open>j = i \<longrightarrow> g \<noteq> claim_generation c\<close> Some show ?thesis
      by (cases "j = i") (auto simp: claim_remove_def delete_conv')
  qed
  with assms Some show ?thesis unfolding claims_ok_def by (simp add: claim_remove_def delete_conv')
qed

interpretation claims: step_invariant "\<lambda>t. t = claim_table_default" claim_step claims_ok
proof unfold_locales
  fix t
  show "t = claim_table_default \<Longrightarrow> claims_ok t" by (simp add: claims_ok_def claim_table_default_def)
next
  fix t t'
  assume inv: "claims_ok t" and "claim_step t t'"
  from this(2) show "claims_ok t'"
  proof cases
    case cl_mint
    with inv show ?thesis by (fastforce simp: claims_ok_def claim_mint_def)
  next
    case (cl_insert c)
    with inv show ?thesis by (fastforce simp: claims_ok_def claim_insert_def update_conv')
  next
    case (cl_change f i)
    with inv show ?thesis by (fastforce simp: claims_ok_def map_of_map_entry split: option.splits)
  next
    case (cl_remove i)
    then show ?thesis using claim_remove_ok[OF inv] by simp
  qed
qed

text \<open>
  While the deck saves reports, the claim the table names for a worker's generation is one that exists and
  that this generation made; an id the table hands out next belongs to no claim; and removing a claim takes
  it and its name away without touching another claim, so a generation that has reported may report again.
\<close>

theorem claims_indexed:
  assumes "claim_step\<^sup>*\<^sup>* claim_table_default t"
  shows "(\<forall>pane agent i. claim_of_generation pane agent t = Some i \<longrightarrow>
      (\<exists>c. map_of (ct_claims t) i = Some c \<and> rc_claim_id c = i \<and> rc_worker_pane c = pane \<and> rc_worker_agent c = agent))
    \<and> map_of (ct_claims (fst (claim_mint t))) (snd (claim_mint t)) = None
    \<and> (\<forall>i pane agent t' c. claim_remove i t = (t', Some c) \<longrightarrow>
         claim_of_generation pane agent t' \<noteq> Some i
         \<and> (\<forall>j. j \<noteq> i \<longrightarrow> map_of (ct_claims t') j = map_of (ct_claims t) j)
         \<and> (\<forall>j. j \<noteq> i \<longrightarrow> claim_of_generation pane agent t = Some j \<longrightarrow> claim_of_generation pane agent t' = Some j))"
proof -
  have ok: "claims_ok t" using claims.reachable_inv[OF refl assms] .
  then have "\<forall>pane agent i. claim_of_generation pane agent t = Some i \<longrightarrow>
      (\<exists>c. map_of (ct_claims t) i = Some c \<and> rc_claim_id c = i \<and> rc_worker_pane c = pane \<and> rc_worker_agent c = agent)"
    by (fastforce simp: claims_ok_def claim_of_generation_def claim_generation_def)
  moreover have "map_of (ct_claims (fst (claim_mint t))) (snd (claim_mint t)) = None"
    using ok by (cases "map_of (ct_claims t) (ct_next t + 1)") (fastforce simp: claims_ok_def claim_mint_def)+
  moreover have "claim_of_generation pane agent t' \<noteq> Some i
         \<and> (\<forall>j. j \<noteq> i \<longrightarrow> map_of (ct_claims t') j = map_of (ct_claims t) j)
         \<and> (\<forall>j. j \<noteq> i \<longrightarrow> claim_of_generation pane agent t = Some j \<longrightarrow> claim_of_generation pane agent t' = Some j)"
    if "claim_remove i t = (t', Some c)" for i pane agent t' c
  proof -
    from that have c: "map_of (ct_claims t) i = Some c"
      and t': "t' = fst (claim_remove i t)" by (auto simp: claim_remove_def split: option.splits)
    have own: "map_of (ct_by_generation t) g = Some i \<Longrightarrow> g = claim_generation c" for g
      using claims_ok_generation[OF ok] c by (metis option.inject)
    have "map_of (ct_by_generation t') g = (if map_of (ct_by_generation t) g = Some i then None else map_of (ct_by_generation t) g)" for g
      using c own[of g] unfolding t' by (cases "g = claim_generation c") (auto simp: claim_remove_def delete_conv')
    moreover have "map_of (ct_claims t') j = map_of (ct_claims t) j" if "j \<noteq> i" for j
      using c that unfolding t' by (simp add: claim_remove_def delete_conv')
    ultimately show ?thesis by (simp add: claim_of_generation_def)
  qed
  ultimately show ?thesis by blast
qed

definition sample_claim :: "nat \<Rightarrow> report_claim" where
  "sample_claim i =
     \<lparr>rc_claim_id = i, rc_mode = ModeTask ''t1'', rc_worker_pane = ''p1'', rc_worker_agent = ''a1'', rc_recipient = None, rc_role = None,
      rc_arm_id = None, rc_seq = None, rc_digest = '''', rc_report_id = ''r1'', rc_message_id = ''m1'', rc_room = True,
      rc_recipient_gone = False, rc_reserved_bytes = 0, rc_worker_gone = None, rc_unit_gone = None, rc_withheld = [],
      rc_phase = CpAdmitted, rc_prepared = None, rc_unit_mark = None, rc_unit_name = None, rc_settled = CsPending\<rparr>"

definition one_claim :: claim_table where
  "one_claim = claim_insert (sample_claim 1) (fst (claim_mint claim_table_default))"

lemma one_claim_steps: "claim_step\<^sup>*\<^sup>* claim_table_default one_claim"
proof -
  have "claim_step claim_table_default (fst (claim_mint claim_table_default))" by (rule cl_mint)
  moreover have "claim_step (fst (claim_mint claim_table_default)) one_claim"
    unfolding one_claim_def by (rule cl_insert) (simp_all add: claim_mint_def claim_table_default_def sample_claim_def)
  ultimately show ?thesis by (meson converse_rtranclp_into_rtranclp rtranclp.rtrancl_refl)
qed

end
