(* ===== verification/Report_Inv.thy ===== *)
theory Report_Inv
  imports Report_Units Report_Props Inbox_Bounds
begin

text \<open>
  The invariant of the deck's reports: the claim table, the task ledger, the unit table and the room reserved in
  the inbox agree. What each section does to it is shown here, section by section.
\<close>

section \<open>Association lists\<close>

lemma update_new_length: "map_of xs k = None \<Longrightarrow> length (AList.update k v xs) = Suc (length xs)"
  by (induction xs) (auto split: if_splits)

lemma delete_absent: "k \<notin> fst ` set xs \<Longrightarrow> AList.delete k xs = xs"
  by (induction xs) (auto simp: AList.delete_eq)

lemma delete_length: "distinct (map fst xs) \<Longrightarrow> map_of xs k \<noteq> None \<Longrightarrow> length xs = Suc (length (AList.delete k xs))"
proof (induction xs)
  case (Cons x xs)
  show ?case
  proof (cases "fst x = k")
    case True
    then have "k \<notin> fst ` set xs" using Cons.prems(1) by auto
    then show ?thesis using True delete_absent[of k xs] by (cases x) simp
  next
    case False
    then show ?thesis using Cons by (cases x) auto
  qed
qed simp

section \<open>The claim table\<close>

definition table_ok :: "claim_table \<Rightarrow> bool" where
  "table_ok t \<longleftrightarrow>
     claims_ok t \<and> distinct (map fst (ct_claims t))
     \<and> (\<forall>i c. map_of (ct_claims t) i = Some c \<longrightarrow> rc_room c \<and> map_of (ct_by_generation t) (claim_generation c) = Some i)"

lemma table_okD:
  assumes "table_ok t" "map_of (ct_claims t) i = Some c"
  shows "rc_room c" "map_of (ct_by_generation t) (claim_generation c) = Some i" "rc_claim_id c = i" "i \<le> ct_next t"
  using assms by (auto simp: table_ok_def claims_ok_def)

lemma table_ok_default: "table_ok claim_table_default"
  by (simp add: table_ok_def claims_ok_def claim_table_default_def)

text \<open>A claim inserted under the next id.\<close>

definition added :: "report_claim \<Rightarrow> claim_table \<Rightarrow> claim_table" where
  "added c t = claim_insert c (fst (claim_mint t))"

lemma added_claims:
  assumes "table_ok t" "rc_claim_id c = ct_next t + 1"
  shows "map_of (ct_claims t) (ct_next t + 1) = None"
    "map_of (ct_claims (added c t)) j = (if j = ct_next t + 1 then Some c else map_of (ct_claims t) j)"
    "length (ct_claims (added c t)) = Suc (length (ct_claims t))"
proof -
  show new: "map_of (ct_claims t) (ct_next t + 1) = None"
    using table_okD(4)[OF assms(1), of "ct_next t + 1"] by (cases "map_of (ct_claims t) (ct_next t + 1)") auto
  show "map_of (ct_claims (added c t)) j = (if j = ct_next t + 1 then Some c else map_of (ct_claims t) j)"
    using assms(2) by (simp add: added_def claim_insert_def claim_mint_def update_conv')
  show "length (ct_claims (added c t)) = Suc (length (ct_claims t))"
    using update_new_length[OF new] assms(2) by (simp add: added_def claim_insert_def claim_mint_def)
qed

lemma added_ok:
  assumes "table_ok t" "rc_claim_id c = ct_next t + 1" "rc_room c" "map_of (ct_by_generation t) (claim_generation c) = None"
  shows "table_ok (added c t)"
proof -
  have index: "map_of (ct_by_generation (added c t)) g = (if g = claim_generation c then Some (ct_next t + 1) else map_of (ct_by_generation t) g)" for g
    using assms(2) by (simp add: added_def claim_insert_def claim_mint_def update_conv')
  have next_id: "ct_next (added c t) = ct_next t + 1" by (simp add: added_def claim_insert_def claim_mint_def)
  have "distinct (map fst (ct_claims (added c t)))"
    using assms(1) by (simp add: table_ok_def added_def claim_insert_def claim_mint_def distinct_update)
  moreover have "rc_claim_id d = j \<and> j \<le> ct_next (added c t) \<and> rc_room d
      \<and> map_of (ct_by_generation (added c t)) (claim_generation d) = Some j"
    if "map_of (ct_claims (added c t)) j = Some d" for j d
  proof (cases "j = ct_next t + 1")
    case True
    then have "d = c" using that by (simp add: added_claims[OF assms(1,2)])
    with True assms(2,3) index next_id show ?thesis by simp
  next
    case False
    then have "map_of (ct_claims t) j = Some d" using that by (simp add: added_claims[OF assms(1,2)])
    note d = table_okD[OF assms(1) this]
    then have "claim_generation d \<noteq> claim_generation c" using assms(4) by auto
    with d show ?thesis by (simp add: index next_id)
  qed
  moreover have "\<exists>d. map_of (ct_claims (added c t)) j = Some d \<and> claim_generation d = g"
    if "map_of (ct_by_generation (added c t)) g = Some j" for g j
  proof (cases "g = claim_generation c")
    case True
    then show ?thesis using that by (simp add: added_claims[OF assms(1,2)] index)
  next
    case False
    then have "map_of (ct_by_generation t) g = Some j" using that by (simp add: index)
    then obtain d where "map_of (ct_claims t) j = Some d" "claim_generation d = g"
      using assms(1) claims_ok_generation unfolding table_ok_def by metis
    then show ?thesis using added_claims(1)[OF assms(1,2)] by (auto simp: added_claims[OF assms(1,2)])
  qed
  ultimately show ?thesis unfolding table_ok_def claims_ok_def by blast
qed

lemma changed_ok:
  assumes "table_ok t" "\<And>c. claim_generation (f c) = claim_generation c \<and> rc_claim_id (f c) = rc_claim_id c \<and> rc_room (f c) = rc_room c"
  shows "table_ok (t\<lparr>ct_claims := AList.map_entry i f (ct_claims t)\<rparr>)"
proof -
  have old: "\<exists>c. map_of (ct_claims t) j = Some c \<and> claim_generation d = claim_generation c \<and> rc_claim_id d = rc_claim_id c \<and> rc_room d = rc_room c"
    if "map_of (AList.map_entry i f (ct_claims t)) j = Some d" for j d
    using that assms(2) by (auto simp: map_of_map_entry split: if_splits option.splits)
  have new: "\<exists>d. map_of (AList.map_entry i f (ct_claims t)) j = Some d \<and> claim_generation d = claim_generation c"
    if "map_of (ct_claims t) j = Some c" for j c
    using that assms(2) by (auto simp: map_of_map_entry)
  have "\<exists>d. map_of (AList.map_entry i f (ct_claims t)) j = Some d \<and> claim_generation d = g" if "map_of (ct_by_generation t) g = Some j" for g j
    using that assms(1) claims_ok_generation new unfolding table_ok_def by metis
  moreover have "rc_claim_id d = j \<and> j \<le> ct_next t \<and> rc_room d \<and> map_of (ct_by_generation t) (claim_generation d) = Some j"
    if "map_of (AList.map_entry i f (ct_claims t)) j = Some d" for j d
    using old[OF that] table_okD[OF assms(1)] by metis
  moreover have "distinct (map fst (AList.map_entry i f (ct_claims t)))" using assms(1) by (simp add: table_ok_def distinct_map_entry)
  ultimately show ?thesis unfolding table_ok_def claims_ok_def by simp
qed

lemma removed_claims:
  "map_of (ct_claims (fst (claim_remove i t))) j = (if j = i then None else map_of (ct_claims t) j)"
  by (cases "map_of (ct_claims t) i") (auto simp: claim_remove_def delete_conv')

lemma removed_length:
  assumes "table_ok t" "map_of (ct_claims t) i = Some c"
  shows "length (ct_claims t) = Suc (length (ct_claims (fst (claim_remove i t))))"
proof -
  show ?thesis using delete_length[of "ct_claims t" i] assms by (simp add: table_ok_def claim_remove_def)
qed

lemma removed_ok:
  assumes "table_ok t"
  shows "table_ok (fst (claim_remove i t))"
proof (cases "map_of (ct_claims t) i")
  case None
  with assms show ?thesis by (simp add: claim_remove_def)
next
  case (Some c)
  have ok: "claims_ok (fst (claim_remove i t))" using assms claim_remove_ok by (simp add: table_ok_def)
  have "rc_room d \<and> map_of (ct_by_generation (fst (claim_remove i t))) (claim_generation d) = Some j"
    if "map_of (ct_claims (fst (claim_remove i t))) j = Some d" for j d
  proof -
    from that have j: "j \<noteq> i" "map_of (ct_claims t) j = Some d" by (auto simp: removed_claims split: if_splits)
    note d = table_okD[OF assms j(2)] and c = table_okD[OF assms Some]
    have "claim_generation d \<noteq> claim_generation c" using d(2) c(2) j(1) by auto
    with d(1,2) Some show ?thesis by (simp add: claim_remove_def delete_conv')
  qed
  moreover have "distinct (map fst (ct_claims (fst (claim_remove i t))))"
    using assms Some by (simp add: table_ok_def claim_remove_def distinct_delete)
  ultimately show ?thesis using ok unfolding table_ok_def by blast
qed

section \<open>Reports\<close>

text \<open>An open task that is being reported has its claim; a unit is claimed exactly by the terminal claim on it.\<close>

definition tasks_backed :: "report_state \<Rightarrow> bool" where
  "tasks_backed v \<longleftrightarrow>
     (\<forall>task t i. map_of (tl_open (rs_tasks v)) task = Some t \<longrightarrow> tk_state t = TaskReporting i \<longrightarrow>
        (\<exists>c. get_claim i v = Some c \<and> rc_mode c = ModeTask task
           \<and> rc_worker_pane c = tb_worker_pane (tk_binding t) \<and> rc_worker_agent c = tb_worker_agent (tk_binding t)))"

lemma tasks_backedE:
  assumes "tasks_backed v" "map_of (tl_open (rs_tasks v)) task = Some t" "tk_state t = TaskReporting i"
  obtains c where "get_claim i v = Some c" "rc_mode c = ModeTask task" "rc_worker_pane c = tb_worker_pane (tk_binding t)"
    "rc_worker_agent c = tb_worker_agent (tk_binding t)"
  using assms unfolding tasks_backed_def by blast

definition units_backed :: "report_state \<Rightarrow> bool" where
  "units_backed v \<longleftrightarrow>
     (\<forall>u i. unit_get u (rs_units v) = Some (UnitClaimed i) \<longleftrightarrow> (\<exists>c pane. get_claim i v = Some c \<and> rc_mode c = ModeTerminal u pane))"

definition reports_ok :: "nat \<Rightarrow> nat \<Rightarrow> report_state \<Rightarrow> bool" where
  "reports_ok per cap v \<longleftrightarrow>
     table_ok (rs_claims v) \<and> ledger_ok per (rs_tasks v) \<and> unit_table_ok cap (rs_units v) \<and> tasks_backed v \<and> units_backed v
     \<and> 0 < os_max (rs_outcomes v)"

lemma outcome_max [simp]:
  "os_max (fst (outcome_insert outcome message_id st)) = os_max st" "os_max (fst (acknowledged_late i st)) = os_max st"
  "os_max (outcome_saved report st) = os_max st"
  by (simp_all add: outcome_insert_def acknowledged_late_def outcome_saved_def Let_def split: prod.split option.split)

lemma reports_okD:
  assumes "reports_ok per cap v"
  shows "table_ok (rs_claims v)" "ledger_ok per (rs_tasks v)" "unit_table_ok cap (rs_units v)" "tasks_backed v" "units_backed v"
    "0 < os_max (rs_outcomes v)"
  using assms by (simp_all add: reports_ok_def)

text \<open>A change that leaves claims and units alone, and open tasks with the state and binding they had.\<close>

definition quiet :: "nat \<Rightarrow> report_state \<Rightarrow> report_state \<Rightarrow> bool" where
  "quiet per v v' \<longleftrightarrow>
     rs_claims v' = rs_claims v \<and> rs_units v' = rs_units v \<and> os_max (rs_outcomes v') = os_max (rs_outcomes v)
     \<and> (ledger_ok per (rs_tasks v) \<longrightarrow>
          ledger_ok per (rs_tasks v')
          \<and> (\<forall>i t'. map_of (tl_open (rs_tasks v')) i = Some t' \<longrightarrow>
               (\<exists>t. map_of (tl_open (rs_tasks v)) i = Some t \<and> tk_state t = tk_state t' \<and> tk_binding t = tk_binding t')))"

lemma quiet_refl: "quiet per v v"
  by (simp add: quiet_def)

lemma quiet_trans: "quiet per v w \<Longrightarrow> quiet per w x \<Longrightarrow> quiet per v x"
  unfolding quiet_def by (metis (no_types, lifting))

lemma quiet_ok:
  assumes "quiet per v v'" "reports_ok per cap v"
  shows "reports_ok per cap v'"
proof -
  note v = reports_okD[OF assms(2)]
  have same: "rs_claims v' = rs_claims v" "rs_units v' = rs_units v" "os_max (rs_outcomes v') = os_max (rs_outcomes v)" using assms(1) by (simp_all add: quiet_def)
  have old: "\<exists>t. map_of (tl_open (rs_tasks v)) i = Some t \<and> tk_state t = tk_state t' \<and> tk_binding t = tk_binding t'"
    if "map_of (tl_open (rs_tasks v')) i = Some t'" for i t'
    using assms(1) v(2) that by (simp add: quiet_def)
  have "tasks_backed v'"
    unfolding tasks_backed_def
  proof (intro allI impI)
    fix task t i
    assume t: "map_of (tl_open (rs_tasks v')) task = Some t" "tk_state t = TaskReporting i"
    from old[OF t(1)] obtain t0 where t0: "map_of (tl_open (rs_tasks v)) task = Some t0" "tk_state t0 = tk_state t" "tk_binding t0 = tk_binding t" by blast
    from v(4) t0(1) have "\<exists>c. get_claim i v = Some c \<and> rc_mode c = ModeTask task
        \<and> rc_worker_pane c = tb_worker_pane (tk_binding t0) \<and> rc_worker_agent c = tb_worker_agent (tk_binding t0)"
      using t(2) t0(2) unfolding tasks_backed_def by metis
    then show "\<exists>c. get_claim i v' = Some c \<and> rc_mode c = ModeTask task
        \<and> rc_worker_pane c = tb_worker_pane (tk_binding t) \<and> rc_worker_agent c = tb_worker_agent (tk_binding t)"
      using same(1) t0(3) by (simp add: get_claim_def)
  qed
  moreover have "units_backed v'" using v(5) same by (simp add: units_backed_def get_claim_def)
  moreover have "ledger_ok per (rs_tasks v')" using assms(1) v(2) by (simp add: quiet_def)
  ultimately show ?thesis using v same by (simp add: reports_ok_def)
qed

lemma quiet_same:
  "rs_claims v' = rs_claims v \<Longrightarrow> rs_units v' = rs_units v \<Longrightarrow> rs_tasks v' = rs_tasks v \<Longrightarrow> os_max (rs_outcomes v') = os_max (rs_outcomes v)
   \<Longrightarrow> quiet per v v'"
  by (simp add: quiet_def)

lemma change_task_ledger:
  assumes "ledger_ok per (rs_tasks v)" "\<And>t. tk_binding (f t) = tk_binding t"
  shows "ledger_ok per (rs_tasks (change_task i f v))"
  using tasks.step_inv[OF assms(1) ts_change, of f i] assms(2) by (simp add: change_task_def)

lemma quiet_change_task: "(\<And>t. tk_binding (f t) = tk_binding t \<and> tk_state (f t) = tk_state t) \<Longrightarrow> quiet per v (change_task i f v)"
  using change_task_ledger[of per v f i]
  by (auto simp: quiet_def change_task_def map_of_map_entry split: if_splits option.splits)

lemma settle_in_open:
  assumes "ledger_ok per (rs_tasks v)"
  shows "tl_open (rs_tasks (fst (settle_in i tombstone v))) = AList.delete i (tl_open (rs_tasks v))"
proof (cases "map_of (tl_open (rs_tasks v)) i")
  case None
  then have "AList.delete i (tl_open (rs_tasks v)) = tl_open (rs_tasks v)" by (intro delete_absent) (simp add: map_of_eq_None_iff)
  with None show ?thesis by (simp add: settle_in_def task_settle_def)
next
  case (Some t)
  from task_settle_ok(3)[OF assms Some, of tombstone] show ?thesis by (simp add: settle_in_def case_prod_unfold)
qed

lemma quiet_settle_in: "quiet per v (fst (settle_in i tombstone v))"
proof -
  have "ledger_ok per (rs_tasks v) \<Longrightarrow> ledger_ok per (rs_tasks (fst (settle_in i tombstone v)))"
    using tasks.step_inv[OF _ ts_settle] by (simp add: settle_in_def case_prod_unfold)
  moreover have "rs_claims (fst (settle_in i tombstone v)) = rs_claims v" "rs_units (fst (settle_in i tombstone v)) = rs_units v"
    "rs_outcomes (fst (settle_in i tombstone v)) = rs_outcomes v"
    by (simp_all add: settle_in_def case_prod_unfold)
  ultimately show ?thesis by (auto simp: quiet_def settle_in_open delete_conv' split: if_splits)
qed

lemma age_body_rest [simp]:
  "rs_claims (age_body report f v) = rs_claims v" "rs_units (age_body report f v) = rs_units v" "rs_tasks (age_body report f v) = rs_tasks v"
  "rs_exit_walked (age_body report f v) = rs_exit_walked v" "rs_accepted (age_body report f v) = rs_accepted v"
  "rs_outcomes (age_body report f v) = rs_outcomes v" "rs_publications (age_body report f v) = rs_publications v"
  by (simp_all add: age_body_def split: option.split)

lemma settle_accepted_max: "os_max (rs_outcomes (fst (settle_accepted_report clk ev v))) = os_max (rs_outcomes v)"
proof -
  have "os_max outcomes = os_max (rs_outcomes v)" if "acknowledged_late i (rs_outcomes v) = (outcomes, r)" for i outcomes r
    using outcome_max(2)[of i "rs_outcomes v"] that by simp
  then show ?thesis
    by (auto simp: settle_accepted_report_def settle_acknowledged_def settle_undeliverable_def Let_def split: state_name.split option.split prod.split)
qed

lemma settle_accepted_rest:
  "rs_claims (fst (settle_accepted_report clk ev v)) = rs_claims v" "rs_units (fst (settle_accepted_report clk ev v)) = rs_units v"
  "rs_tasks (fst (settle_accepted_report clk ev v)) = rs_tasks v" "rs_exit_walked (fst (settle_accepted_report clk ev v)) = rs_exit_walked v"
  by (auto simp: settle_accepted_report_def settle_acknowledged_def settle_undeliverable_def Let_def split: state_name.splits option.splits prod.splits)

lemma quiet_settle_task: "quiet per v (settle_task ev v)"
  by (auto simp: settle_task_def Let_def quiet_refl intro: quiet_same quiet_settle_in quiet_change_task
      split: state_name.splits option.splits undeliverable_reason.splits)

lemma quiet_settle_event: "quiet per (fst s) (fst (settle_event clk ev s))"
proof -
  have "fst (settle_event clk ev s) = settle_task ev (fst (settle_accepted_report clk ev (fst s)))"
    by (simp add: settle_event_def case_prod_unfold)
  moreover have "quiet per (fst s) (fst (settle_accepted_report clk ev (fst s)))"
    by (rule quiet_same) (simp_all add: settle_accepted_rest settle_accepted_max)
  ultimately show ?thesis using quiet_trans quiet_settle_task by metis
qed

lemma quiet_events: "quiet per (fst s) (fst (fold (settle_event clk) evs s))"
proof (induction evs arbitrary: s)
  case (Cons ev evs)
  show ?case using quiet_trans[OF quiet_settle_event Cons] by simp
qed (simp add: quiet_refl)

lemma drain_quiet:
  assumes "drain_events_in_section clk h v = (h', v')"
  shows "quiet per v v'" "ib_reserved_replies (rh_inbox h') = ib_reserved_replies (rh_inbox h)" "rh_routes h' = rh_routes h" "rh_reports h' = rh_reports h"
  using assms quiet_events[of per "(v, [])" clk "ib_events (rh_inbox h)"]
  by (auto simp: drain_events_in_section_def drain_events_def split: prod.splits)

section \<open>Adding, changing and removing a claim\<close>

lemma get_claim_change: "get_claim j (change_claim i f v) = (if j = i then map_option f (get_claim i v) else get_claim j v)"
  by (auto simp: get_claim_def change_claim_def map_of_map_entry split: option.splits)

lemma change_claim_rest [simp]:
  "rs_tasks (change_claim i f v) = rs_tasks v" "rs_units (change_claim i f v) = rs_units v" "rs_outcomes (change_claim i f v) = rs_outcomes v"
  by (simp_all add: change_claim_def)

lemma change_claim_length [simp]: "length (ct_claims (rs_claims (change_claim i f v))) = length (ct_claims (rs_claims v))"
proof -
  have "length (AList.map_entry i f xs) = length xs" for xs :: "(nat \<times> report_claim) list"
    by (induction xs) auto
  then show ?thesis by (simp add: change_claim_def)
qed

lemma change_claim_ok:
  assumes "reports_ok per cap v"
    "\<And>c. claim_generation (f c) = claim_generation c \<and> rc_claim_id (f c) = rc_claim_id c \<and> rc_room (f c) = rc_room c \<and> rc_mode (f c) = rc_mode c"
  shows "reports_ok per cap (change_claim i f v)"
proof -
  note v = reports_okD[OF assms(1)]
  have "table_ok (rs_claims (change_claim i f v))"
    using changed_ok[OF v(1), of f i] assms(2) by (simp add: change_claim_def)
  moreover have "tasks_backed (change_claim i f v)"
    unfolding tasks_backed_def
  proof (intro allI impI)
    fix task t j
    assume "map_of (tl_open (rs_tasks (change_claim i f v))) task = Some t" "tk_state t = TaskReporting j"
    then obtain c where "get_claim j v = Some c" "rc_mode c = ModeTask task"
        "rc_worker_pane c = tb_worker_pane (tk_binding t)" "rc_worker_agent c = tb_worker_agent (tk_binding t)"
      using tasks_backedE[OF v(4)] by (metis change_claim_rest(1))
    with assms(2)[of c] show "\<exists>c. get_claim j (change_claim i f v) = Some c \<and> rc_mode c = ModeTask task
        \<and> rc_worker_pane c = tb_worker_pane (tk_binding t) \<and> rc_worker_agent c = tb_worker_agent (tk_binding t)"
      by (auto simp: get_claim_change claim_generation_def)
  qed
  moreover have "(\<exists>c pane. get_claim j (change_claim i f v) = Some c \<and> rc_mode c = ModeTerminal u pane)
      = (\<exists>c pane. get_claim j v = Some c \<and> rc_mode c = ModeTerminal u pane)" for j u
    using assms(2) by (auto simp: get_claim_change)
  then have "units_backed (change_claim i f v)" using v(5) by (simp add: units_backed_def)
  ultimately show ?thesis using v by (simp add: reports_ok_def)
qed

text \<open>The state after a claim went, when what it was for is no longer in its name.\<close>

lemma without_claim:
  assumes ok: "reports_ok per cap v" and c: "get_claim i v = Some c"
    and claims: "rs_claims w = fst (claim_remove i (rs_claims v))"
    and "ledger_ok per (rs_tasks w)" "unit_table_ok cap (rs_units w)" "os_max (rs_outcomes w) = os_max (rs_outcomes v)"
    and tasks: "\<And>task t j. map_of (tl_open (rs_tasks w)) task = Some t \<Longrightarrow> tk_state t = TaskReporting j \<Longrightarrow>
        j \<noteq> i \<and> (\<exists>t0. map_of (tl_open (rs_tasks v)) task = Some t0 \<and> tk_state t0 = TaskReporting j \<and> tk_binding t0 = tk_binding t)"
    and units: "\<And>u j. unit_get u (rs_units w) = Some (UnitClaimed j) \<longleftrightarrow> unit_get u (rs_units v) = Some (UnitClaimed j) \<and> j \<noteq> i"
  shows "reports_ok per cap w"
proof -
  note v = reports_okD[OF ok]
  have get: "get_claim j w = (if j = i then None else get_claim j v)" for j
    by (simp add: get_claim_def claims removed_claims)
  have "tasks_backed w"
    unfolding tasks_backed_def
  proof (intro allI impI)
    fix task t j
    assume t: "map_of (tl_open (rs_tasks w)) task = Some t" "tk_state t = TaskReporting j"
    from tasks[OF t] obtain t0 where j: "j \<noteq> i" and t0: "map_of (tl_open (rs_tasks v)) task = Some t0"
        "tk_state t0 = TaskReporting j" "tk_binding t0 = tk_binding t" by blast
    from v(4) t0(1,2) have "\<exists>c. get_claim j v = Some c \<and> rc_mode c = ModeTask task
        \<and> rc_worker_pane c = tb_worker_pane (tk_binding t0) \<and> rc_worker_agent c = tb_worker_agent (tk_binding t0)"
      unfolding tasks_backed_def by blast
    with j t0(3) get[of j] show "\<exists>c. get_claim j w = Some c \<and> rc_mode c = ModeTask task
        \<and> rc_worker_pane c = tb_worker_pane (tk_binding t) \<and> rc_worker_agent c = tb_worker_agent (tk_binding t)" by simp
  qed
  moreover have "units_backed w"
    using v(5) units get unfolding units_backed_def by simp
  moreover have "table_ok (rs_claims w)" using removed_ok[OF v(1)] claims by simp
  ultimately show ?thesis using assms(4-6) v(6) by (simp add: reports_ok_def)
qed

lemma reporting_task:
  assumes "reports_ok per cap v" "get_claim i v = Some c" "map_of (tl_open (rs_tasks v)) task = Some t" "tk_state t = TaskReporting i"
  shows "rc_mode c = ModeTask task"
  using reports_okD(4)[OF assms(1)] assms(2-4) unfolding tasks_backed_def by fastforce

lemma claimed_unit:
  assumes "reports_ok per cap v" "get_claim i v = Some c" "unit_get u (rs_units v) = Some (UnitClaimed i)"
  shows "\<exists>pane. rc_mode c = ModeTerminal u pane"
  using reports_okD(5)[OF assms(1)] assms(2,3) unfolding units_backed_def by fastforce

lemma unit_get_set [simp]: "unit_get u' (unit_set u entry t) = (if u' = u then Some entry else unit_get u' t)"
  by (simp add: unit_get_def unit_set_def update_conv')

lemma unit_get_index [simp]: "unit_get u' (unit_index pane agent u t) = unit_get u' t"
  by (simp add: unit_get_def unit_index_def)

lemma unit_get_remove [simp]: "unit_get u' (fst (unit_remove u t)) = (if u' = u then None else unit_get u' t)"
  by (simp add: unit_get_def unit_remove_def delete_conv')

lemma unit_ok_steps:
  assumes "unit_table_ok cap t"
  shows "unit_table_ok cap (unit_set u entry t)" "unit_table_ok cap (unit_index pane agent u t)" "unit_table_ok cap (fst (unit_remove u t))"
    "unit_table_ok cap (fst (unit_evict protected t))"
  using units.step_inv[OF assms] us_set us_index us_remove us_evict by blast+

text \<open>The claim went and its unit's entry is one no claim is behind.\<close>

lemma unit_settled:
  assumes ok: "reports_ok per cap v" and c: "get_claim i v = Some c" "rc_mode c = ModeTerminal u pane"
    and w: "rs_claims w = fst (claim_remove i (rs_claims v))" "rs_tasks w = rs_tasks v" "os_max (rs_outcomes w) = os_max (rs_outcomes v)"
    and units: "unit_table_ok cap (rs_units w)" "\<And>u'. unit_get u' (rs_units w) = (if u' = u then entry else unit_get u' (rs_units v))"
    and free: "\<And>j. entry \<noteq> Some (UnitClaimed j)"
  shows "reports_ok per cap w"
proof (rule without_claim[OF ok c(1) w(1)])
  note v = reports_okD[OF ok]
  have own: "unit_get u (rs_units v) = Some (UnitClaimed j) \<longleftrightarrow> j = i" for j
    using v(5) c table_okD(3)[OF v(1)] unfolding units_backed_def get_claim_def by (metis option.inject unit_entry.inject(1))
  show "ledger_ok per (rs_tasks w)" using v(2) w(2) by simp
  show "unit_table_ok cap (rs_units w)" by (rule units(1))
  show "os_max (rs_outcomes w) = os_max (rs_outcomes v)" by (rule w(3))
  show "unit_get u' (rs_units w) = Some (UnitClaimed j) \<longleftrightarrow> unit_get u' (rs_units v) = Some (UnitClaimed j) \<and> j \<noteq> i" for u' j
  proof (cases "u' = u")
    case True
    then show ?thesis using units(2) free own by simp
  next
    case False
    moreover have "j \<noteq> i" if "unit_get u' (rs_units v) = Some (UnitClaimed j)"
      using claimed_unit[OF ok] c that False by fastforce
    ultimately show ?thesis using units(2) by auto
  qed
  show "j \<noteq> i \<and> (\<exists>t0. map_of (tl_open (rs_tasks v)) task = Some t0 \<and> tk_state t0 = TaskReporting j \<and> tk_binding t0 = tk_binding t)"
    if "map_of (tl_open (rs_tasks w)) task = Some t" "tk_state t = TaskReporting j" for task t j
    using reporting_task[OF ok c(1)] that c(2) w(2) by fastforce
qed

text \<open>The claim went and no task is left reporting under it.\<close>

lemma task_settled:
  assumes ok: "reports_ok per cap v" and c: "get_claim i v = Some c" "\<And>u pane. rc_mode c \<noteq> ModeTerminal u pane"
    and w: "rs_claims w = fst (claim_remove i (rs_claims v))" "rs_units w = rs_units v" "ledger_ok per (rs_tasks w)"
      "os_max (rs_outcomes w) = os_max (rs_outcomes v)"
    and tasks: "\<And>task t. map_of (tl_open (rs_tasks w)) task = Some t \<Longrightarrow>
        (\<exists>n. tk_state t = TaskOpen n)
        \<or> (rc_mode c \<noteq> ModeTask task \<and> map_of (tl_open (rs_tasks v)) task = Some t)"
  shows "reports_ok per cap w"
proof (rule without_claim[OF ok c(1) w(1) w(3) _ w(4)])
  show "unit_table_ok cap (rs_units w)" using reports_okD(3)[OF ok] w(2) by simp
  show "unit_get u (rs_units w) = Some (UnitClaimed j) \<longleftrightarrow> unit_get u (rs_units v) = Some (UnitClaimed j) \<and> j \<noteq> i" for u j
    using claimed_unit[OF ok c(1)] c(2) w(2) by auto
  show "j \<noteq> i \<and> (\<exists>t0. map_of (tl_open (rs_tasks v)) task = Some t0 \<and> tk_state t0 = TaskReporting j \<and> tk_binding t0 = tk_binding t)"
    if "map_of (tl_open (rs_tasks w)) task = Some t" "tk_state t = TaskReporting j" for task t j
    using tasks[OF that(1)] that(2) reporting_task[OF ok c(1)] by auto
qed

end
