(* ===== verification/Report_Steps.thy ===== *)
theory Report_Steps
  imports Report_Inv
begin

text \<open>
  Every section of the deck's report handling keeps the invariant, and with it the count of the room reserved in
  the inbox: one for each claim, and one for each reply others reserved.
\<close>

section \<open>Reserved room\<close>

lemma reserved_reserve:
  "reserve_reply ib = (ib', Inl e) \<Longrightarrow> ib' = ib"
  "reserve_reply ib = (ib', Inr x) \<Longrightarrow> ib_reserved_replies ib' = Suc (ib_reserved_replies ib)"
  by (auto simp: reserve_reply_def split: sum.splits)

lemma reserved_release [simp]: "ib_reserved_replies (release_reply ib) = ib_reserved_replies ib - 1"
  by (simp add: release_reply_def)

lemma reserved_retire [simp]: "ib_reserved_replies (fst (retire now i pane reason ib)) = ib_reserved_replies ib"
  by (auto simp: retire_def transition_def trim_history_def Let_def split: option.splits)

lemma reserved_post_direct:
  assumes "post_direct draws now r c ib = Some (ib', res)"
  shows "ib_reserved_replies ib' = ib_reserved_replies ib"
  using assms unfolding post_direct_def
proof (cases rule: when_admitted_cases)
  case (refused e)
  then show ?thesis by (auto dest!: admitD(1))
next
  case (went a ib1 i)
  from insert_direct_counts(2)[OF went(2)] admitD(1)[OF went(1)] show ?thesis by simp
qed

lemma reserved_post_reserved:
  assumes "post_reserved_reply draws now r c ib = Some (ib', res)"
  shows "ib_reserved_replies ib' = (case res of Inr _ \<Rightarrow> ib_reserved_replies ib - 1 | Inl _ \<Rightarrow> ib_reserved_replies ib)"
  using assms unfolding post_reserved_reply_def
proof (cases rule: when_admitted_cases)
  case (refused e)
  then show ?thesis by (auto dest!: admitD(2))
next
  case (went a ib1 i)
  from insert_direct_counts(2)[OF went(2)] admitD(2)[OF went(1)] went(3) show ?thesis by simp
qed

section \<open>Sections\<close>

definition hub_ok :: "nat \<Rightarrow> nat \<Rightarrow> nat \<Rightarrow> report_hub \<Rightarrow> report_state \<Rightarrow> bool" where
  "hub_ok per cap others h v \<longleftrightarrow>
     reports_ok per cap v \<and> ib_reserved_replies (rh_inbox h) = others + length (ct_claims (rs_claims v))"

lemma hub_okI_quiet:
  assumes "hub_ok per cap others h v" "quiet per v v'" "ib_reserved_replies (rh_inbox h') = ib_reserved_replies (rh_inbox h)"
  shows "hub_ok per cap others h' v'"
  using assms quiet_ok[of per v v' cap] by (auto simp: hub_ok_def quiet_def)

lemma drain_hub_ok:
  assumes "hub_ok per cap others h v" "drain_events_in_section clk h v = (h', v')"
  shows "hub_ok per cap others h' v'"
  using hub_okI_quiet[OF assms(1) drain_quiet(1)[OF assms(2)] drain_quiet(2)[OF assms(2)]] .

lemma reserve_room_count:
  assumes "reserve_room store bytes ib = (ib', res)"
  shows "ib_reserved_replies ib' = (case res of Inr _ \<Rightarrow> Suc (ib_reserved_replies ib) | Inl _ \<Rightarrow> ib_reserved_replies ib)"
  using assms by (auto simp: reserve_room_def reserved_reserve dest: reserved_reserve split: prod.splits sum.splits)

text \<open>The state right after a claim is installed; the unit a terminal claim is on is set next.\<close>

lemma claim_with_room_cases:
  assumes "claim_with_room store spec mode to role debt unit_name message_id h v = (h', v', res)"
  obtains (refused) reply where "res = Inl reply" "v' = v" "ib_reserved_replies (rh_inbox h') = ib_reserved_replies (rh_inbox h)" "rh_routes h' = rh_routes h"
  | (claimed) cl where "res = Inr cl" "cd_claim_id cl = ct_next (rs_claims v) + 1" "cd_message_id cl = message_id" "cd_mode cl = mode"
      "v' = v\<lparr>rs_claims := added (claim_of_spec (ct_next (rs_claims v) + 1) spec mode to role debt unit_name message_id) (rs_claims v)\<rparr>"
      "ib_reserved_replies (rh_inbox h') = Suc (ib_reserved_replies (rh_inbox h))" "rh_routes h' = rh_routes h"
proof -
  obtain ib x where x: "reserve_room store (sp_file_bytes spec) (rh_inbox h) = (ib, x)" by fastforce
  show ?thesis
  proof (cases x)
    case (Inl reply)
    then show ?thesis using assms x reserve_room_count[OF x] by (intro refused) (auto simp: claim_with_room_def)
  next
    case (Inr reservation)
    then show ?thesis using assms x reserve_room_count[OF x]
      by (auto simp: claim_with_room_def install_def claim_mint_def added_def intro!: claimed)
  qed
qed

lemma generation_free:
  assumes "\<not> generation_claims spec v"
  shows "map_of (ct_by_generation (rs_claims v)) (claim_generation (claim_of_spec i spec mode to role debt unit_name message_id)) = None"
  using assms by (simp add: generation_claims_def claim_of_generation_def claim_generation_def claim_of_spec_def)

text \<open>A claim on a task or on nothing, with the task it is on marked.\<close>

lemma claimed_ok:
  assumes ok: "reports_ok per cap v" and free: "\<not> generation_claims spec v"
    and mode: "\<And>u pane. mode \<noteq> ModeTerminal u pane"
    and v': "v' = v\<lparr>rs_claims := added (claim_of_spec (ct_next (rs_claims v) + 1) spec mode to role debt unit_name message_id) (rs_claims v)\<rparr>"
  shows "reports_ok per cap v'" "length (ct_claims (rs_claims v')) = Suc (length (ct_claims (rs_claims v)))"
    "get_claim (ct_next (rs_claims v) + 1) v' = Some (claim_of_spec (ct_next (rs_claims v) + 1) spec mode to role debt unit_name message_id)"
proof -
  let ?c = "claim_of_spec (ct_next (rs_claims v) + 1) spec mode to role debt unit_name message_id"
  note v = reports_okD[OF ok]
  have i: "rc_claim_id ?c = ct_next (rs_claims v) + 1" "rc_room ?c" "rc_mode ?c = mode" by (simp_all add: claim_of_spec_def)
  note add = added_claims[OF v(1) i(1)]
  have get: "get_claim j v' = (if j = ct_next (rs_claims v) + 1 then Some ?c else get_claim j v)" for j
    using add(2) by (simp add: get_claim_def v')
  then show "get_claim (ct_next (rs_claims v) + 1) v' = Some ?c" by simp
  show "length (ct_claims (rs_claims v')) = Suc (length (ct_claims (rs_claims v)))" using add(3) by (simp add: v')
  have "tasks_backed v'"
    unfolding tasks_backed_def
  proof (intro allI impI)
    fix task t j
    assume t: "map_of (tl_open (rs_tasks v')) task = Some t" "tk_state t = TaskReporting j"
    then have "map_of (tl_open (rs_tasks v)) task = Some t" by (simp add: v')
    from tasks_backedE[OF v(4) this t(2)]
    obtain c where c: "get_claim j v = Some c" "rc_mode c = ModeTask task"
        "rc_worker_pane c = tb_worker_pane (tk_binding t)" "rc_worker_agent c = tb_worker_agent (tk_binding t)" .
    moreover have "j \<noteq> ct_next (rs_claims v) + 1" using c(1) add(1) by (auto simp: get_claim_def)
    ultimately show "\<exists>c. get_claim j v' = Some c \<and> rc_mode c = ModeTask task
        \<and> rc_worker_pane c = tb_worker_pane (tk_binding t) \<and> rc_worker_agent c = tb_worker_agent (tk_binding t)"
      by (simp add: get)
  qed
  moreover have "units_backed v'"
  proof -
    have none: "get_claim (ct_next (rs_claims v) + 1) v = None" using add(1) by (simp add: get_claim_def)
    have "(\<exists>c pane. get_claim j v' = Some c \<and> rc_mode c = ModeTerminal u pane) = (\<exists>c pane. get_claim j v = Some c \<and> rc_mode c = ModeTerminal u pane)" for j u
      using mode i(3) none by (auto simp: get)
    then show ?thesis using v(5) by (simp add: units_backed_def v')
  qed
  moreover have "table_ok (rs_claims v')" using added_ok[OF v(1) i(1,2) generation_free[OF free]] by (simp add: v')
  ultimately show "reports_ok per cap v'" using v by (simp add: reports_ok_def v')
qed

lemma change_task_rest [simp]:
  "rs_claims (change_task i f v) = rs_claims v" "rs_units (change_task i f v) = rs_units v" "get_claim j (change_task i f v) = get_claim j v"
  "rs_outcomes (change_task i f v) = rs_outcomes v"
  by (simp_all add: change_task_def get_claim_def)

lemma open_change_task:
  "map_of (tl_open (rs_tasks (change_task i f v))) j = (if j = i then map_option f (map_of (tl_open (rs_tasks v)) i) else map_of (tl_open (rs_tasks v)) j)"
  by (auto simp: change_task_def map_of_map_entry split: option.splits)

lemma mark_reporting:
  assumes ok: "reports_ok per cap v" and c: "get_claim i v = Some c" "rc_mode c = ModeTask task"
    and t: "map_of (tl_open (rs_tasks v)) task = Some t" "rc_worker_pane c = tb_worker_pane (tk_binding t)" "rc_worker_agent c = tb_worker_agent (tk_binding t)"
  shows "reports_ok per cap (change_task task (\<lambda>t. t\<lparr>tk_state := TaskReporting i\<rparr>) v)"
proof -
  note v = reports_okD[OF ok]
  let ?w = "change_task task (\<lambda>t. t\<lparr>tk_state := TaskReporting i\<rparr>) v"
  have "\<exists>c. get_claim j ?w = Some c \<and> rc_mode c = ModeTask task'
        \<and> rc_worker_pane c = tb_worker_pane (tk_binding t') \<and> rc_worker_agent c = tb_worker_agent (tk_binding t')"
    if "map_of (tl_open (rs_tasks ?w)) task' = Some t'" "tk_state t' = TaskReporting j" for task' t' j
  proof (cases "task' = task")
    case True
    then show ?thesis using that c t by (auto simp: open_change_task)
  next
    case False
    then show ?thesis using that tasks_backedE[OF v(4), of task' t' j] by (simp add: open_change_task) blast
  qed
  then have "tasks_backed ?w" unfolding tasks_backed_def by blast
  moreover have "ledger_ok per (rs_tasks ?w)" by (rule change_task_ledger[OF v(2)]) simp
  moreover have "units_backed ?w" using v(5) by (simp add: units_backed_def)
  ultimately show ?thesis using v by (simp add: reports_ok_def)
qed

lemma task_section_ok:
  assumes "hub_ok per cap others h v" "task_section store spec task seat message_id h v = (h', v', adm)"
  shows "hub_ok per cap others h' v'"
proof -
  note ok = assms(1)[unfolded hub_ok_def]
  consider "h' = h" "v' = v"
    | (claim) t res h1 v1 where "map_of (tl_open (rs_tasks v)) task = Some t" "\<not> generation_claims spec v"
        "tb_worker_pane (tk_binding t) = sp_worker_pane spec" "tb_worker_agent (tk_binding t) = sp_worker_agent spec"
        "claim_with_room store spec (ModeTask task) (tb_orchestrator (tk_binding t)) (Some (tb_role (tk_binding t)))
           (tb_arm_id (tk_binding t), tb_seq (tk_binding t)) None message_id h v = (h1, v1, res)"
        "(h', v') = (case res of Inl _ \<Rightarrow> (h1, v1) | Inr cl \<Rightarrow> (h1, change_task task (\<lambda>t. t\<lparr>tk_state := TaskReporting (cd_claim_id cl)\<rparr>) v1))"
    using assms(2) unfolding task_section_def task_lookup_of_def Let_def
    by (auto split: option.splits if_splits task_state.splits prod.splits sum.splits)
  then show ?thesis
  proof cases
    case 1
    then show ?thesis using assms(1) by simp
  next
    case claim
    from claim(5) show ?thesis
    proof (cases rule: claim_with_room_cases)
      case (refused reply)
      then show ?thesis using claim(6) ok by (simp add: hub_ok_def)
    next
      case (claimed cl)
      have mode: "ModeTask task \<noteq> ModeTerminal u pane" for u pane by simp
      note new = claimed_ok[OF conjunct1[OF ok] claim(2) mode claimed(5)]
      have "reports_ok per cap (change_task task (\<lambda>t. t\<lparr>tk_state := TaskReporting (cd_claim_id cl)\<rparr>) v1)"
        using new(3) claim(1,3,4) claimed(2,5) by (intro mark_reporting[OF new(1)]) (auto simp: claim_of_spec_def)
      then show ?thesis using claim(6) claimed ok new(2) by (simp add: hub_ok_def)
    qed
  qed
qed

lemma uncorrelated_section_ok:
  assumes "hub_ok per cap others h v" "uncorrelated_section store spec to role message_id h v = (h', v', adm)"
  shows "hub_ok per cap others h' v'"
proof (cases "generation_claims spec v")
  case True
  then show ?thesis using assms by (simp add: uncorrelated_section_def)
next
  case False
  obtain res where r: "claim_with_room store spec ModeUncorrelated to role (None, None) None message_id h v = (h', v', res)"
    using assms(2) False by (auto simp: uncorrelated_section_def split: prod.splits sum.splits)
  from r show ?thesis
  proof (cases rule: claim_with_room_cases)
    case (refused reply)
    then show ?thesis using assms(1) by (simp add: hub_ok_def)
  next
    case (claimed cl)
    have mode: "ModeUncorrelated \<noteq> ModeTerminal u pane" for u pane by simp
    note new = claimed_ok[OF conjunct1[OF assms(1)[unfolded hub_ok_def]] False mode claimed(5)]
    then show ?thesis using assms(1) claimed by (simp add: hub_ok_def)
  qed
qed

text \<open>A claim on a unit that had no entry.\<close>

lemma unit_claimed_ok:
  assumes ok: "reports_ok per cap v" and free: "\<not> generation_claims spec v" and none: "unit_get u (rs_units v) = None"
    and v': "v' = v\<lparr>rs_claims := added (claim_of_spec (ct_next (rs_claims v) + 1) spec (ModeTerminal u pane) to role debt unit_name message_id) (rs_claims v)\<rparr>"
  shows "reports_ok per cap (v'\<lparr>rs_units := unit_set u (UnitClaimed (ct_next (rs_claims v) + 1)) (rs_units v')\<rparr>)"
    "length (ct_claims (rs_claims v')) = Suc (length (ct_claims (rs_claims v)))"
proof -
  let ?c = "claim_of_spec (ct_next (rs_claims v) + 1) spec (ModeTerminal u pane) to role debt unit_name message_id"
  let ?w = "v'\<lparr>rs_units := unit_set u (UnitClaimed (ct_next (rs_claims v) + 1)) (rs_units v')\<rparr>"
  note v = reports_okD[OF ok]
  have i: "rc_claim_id ?c = ct_next (rs_claims v) + 1" "rc_room ?c" "rc_mode ?c = ModeTerminal u pane" by (simp_all add: claim_of_spec_def)
  note add = added_claims[OF v(1) i(1)]
  have get: "get_claim j ?w = (if j = ct_next (rs_claims v) + 1 then Some ?c else get_claim j v)" for j
    using add(2) by (simp add: get_claim_def v')
  have fresh: "get_claim (ct_next (rs_claims v) + 1) v = None" using add(1) by (simp add: get_claim_def)
  show "length (ct_claims (rs_claims v')) = Suc (length (ct_claims (rs_claims v)))" using add(3) by (simp add: v')
  have "\<exists>c. get_claim j ?w = Some c \<and> rc_mode c = ModeTask task
        \<and> rc_worker_pane c = tb_worker_pane (tk_binding t) \<and> rc_worker_agent c = tb_worker_agent (tk_binding t)"
    if t: "map_of (tl_open (rs_tasks v)) task = Some t" "tk_state t = TaskReporting j" for task t j
  proof -
    from tasks_backedE[OF v(4) t] obtain c where c: "get_claim j v = Some c" "rc_mode c = ModeTask task"
        "rc_worker_pane c = tb_worker_pane (tk_binding t)" "rc_worker_agent c = tb_worker_agent (tk_binding t)" .
    with fresh have "j \<noteq> ct_next (rs_claims v) + 1" by auto
    with c show ?thesis unfolding get by simp
  qed
  then have "tasks_backed ?w" unfolding tasks_backed_def v' by simp
  moreover have "unit_get u' (rs_units ?w) = Some (UnitClaimed j) \<longleftrightarrow> (\<exists>c pane'. get_claim j ?w = Some c \<and> rc_mode c = ModeTerminal u' pane')" for u' j
  proof -
    have old: "unit_get u' (rs_units v) = Some (UnitClaimed j) \<longleftrightarrow> (\<exists>c pane'. get_claim j v = Some c \<and> rc_mode c = ModeTerminal u' pane')"
      using v(5) by (simp add: units_backed_def)
    have units: "unit_get u' (rs_units ?w) = (if u' = u then Some (UnitClaimed (ct_next (rs_claims v) + 1)) else unit_get u' (rs_units v))"
      by (simp add: v')
    show ?thesis
      unfolding units get using old fresh none i(3) by (cases "u' = u"; cases "j = ct_next (rs_claims v) + 1") auto
  qed
  then have "units_backed ?w" unfolding units_backed_def by blast
  moreover have "table_ok (rs_claims ?w)" using added_ok[OF v(1) i(1,2) generation_free[OF free]] by (simp add: v')
  ultimately show "reports_ok per cap ?w" using v unit_ok_steps(1)[OF v(3)] by (simp add: reports_ok_def v')
qed

lemma claim_unit_ok:
  assumes "hub_ok per cap others h v" "\<not> generation_claims spec v" "unit_get u (rs_units v) = None"
    and "claim_unit store spec u route message_id h v = (h', v', adm)"
  shows "hub_ok per cap others h' v'"
proof -
  obtain h1 v1 res where r: "claim_with_room store spec (ModeTerminal u (sp_worker_pane spec))
      (Some (recipient_bound (dc_pane_id (rr_caller route)) (dc_agent_id (rr_caller route)))) None (None, None)
      (Some (dc_unit_name (rr_caller route))) message_id h v = (h1, v1, res)" by (metis prod_cases3)
  from r show ?thesis
  proof (cases rule: claim_with_room_cases)
    case (refused reply)
    then show ?thesis using assms(1,4) r by (auto simp: claim_unit_def hub_ok_def)
  next
    case (claimed cl)
    note new = unit_claimed_ok[OF conjunct1[OF assms(1)[unfolded hub_ok_def]] assms(2,3) claimed(5)]
    let ?w = "v1\<lparr>rs_units := unit_set u (UnitClaimed (cd_claim_id cl)) (rs_units v1)\<rparr>"
    have w: "reports_ok per cap ?w" using new(1) claimed(2) by simp
    have v': "v' = ?w \<or> v' = change_claim (cd_claim_id cl) (\<lambda>c. c\<lparr>rc_recipient_gone := True\<rparr>) ?w" "h' = h1"
      using assms(4) r claimed(1) by (auto simp: claim_unit_def change_claim_def Let_def)
    have gone: "reports_ok per cap (change_claim (cd_claim_id cl) (\<lambda>c. c\<lparr>rc_recipient_gone := True\<rparr>) ?w)"
      by (rule change_claim_ok[OF w]) (simp add: claim_generation_def)
    have "ib_reserved_replies (rh_inbox h) = others + length (ct_claims (rs_claims v))" using assms(1) by (simp add: hub_ok_def)
    then show ?thesis using v' w gone claimed(6) new(2) by (auto simp: hub_ok_def)
  qed
qed

lemma terminal_section_ok:
  assumes "hub_ok per cap others h v" "terminal_section store spec facts message_id h v = (h', v', adm)"
  shows "hub_ok per cap others h' v'"
proof -
  consider "h' = h" "v' = v"
    | (claim) u route where "\<not> generation_claims spec v" "unit_get u (rs_units v) = None"
        "claim_unit store spec u route message_id h v = (h', v', adm)"
  proof -
    have none: "unit_get u (rs_units v) = None"
      if "Option.bind (answering_unit spec facts v) (\<lambda>u. unit_answer spec (unit_get u (rs_units v)) v) = None"
        "unit_of (sp_worker_pane spec) (sp_worker_agent spec) (rs_units v) = Some u" for u
      using that by (auto simp: answering_unit_def unit_answer_def split: option.splits unit_entry.splits)
    show thesis
      using assms(2) none that unfolding terminal_section_def
      by (auto split: option.splits if_splits)
  qed
  then show ?thesis using assms(1) claim_unit_ok by cases simp_all
qed

section \<open>The commit and the failure\<close>

lemma publish_claim_rest:
  assumes "publish_claim clk to c posted h v = (h', v', dest)"
  shows "rs_claims v' = rs_claims v" "rs_units v' = rs_units v" "rs_tasks v' = rs_tasks v" "rh_routes h' = rh_routes h"
    "ib_reserved_replies (rh_inbox h') =
       (case posted of Some _ \<Rightarrow> ib_reserved_replies (rh_inbox h)
        | None \<Rightarrow> if rc_room c then ib_reserved_replies (rh_inbox h) - 1 else ib_reserved_replies (rh_inbox h))"
    "dest = (case posted of Some _ \<Rightarrow> DestInbox | None \<Rightarrow> DestRecovery)"
    "os_max (rs_outcomes v') = os_max (rs_outcomes v)"
  using assms by (auto simp: publish_claim_def Let_def split: option.splits if_splits)

lemma post_claim_count:
  assumes "post_claim draws now to c ib = Some (ib', posted)"
  shows "ib_reserved_replies ib' = (case posted of Some _ \<Rightarrow> ib_reserved_replies ib - 1 | None \<Rightarrow> ib_reserved_replies ib)"
proof (cases to)
  case None
  then show ?thesis using assms by (simp add: post_claim_def)
next
  case (Some r)
  then obtain res where r: "post_reserved_reply draws now r (claim_content c) ib = Some (ib', res)"
      "posted = (case res of Inr i \<Rightarrow> Some i | Inl _ \<Rightarrow> None)"
    using assms by (auto simp: post_claim_def)
  then show ?thesis using reserved_post_reserved[OF r(1)] by (cases res) simp_all
qed

lemma settle_claim_ok:
  assumes ok: "reports_ok per cap v" and c: "get_claim i v = Some c"
    and s: "settle_claim now dest routes_held c h (v\<lparr>rs_claims := fst (claim_remove i (rs_claims v))\<rparr>) = (h', w)"
  shows "reports_ok per cap w" "rs_claims w = fst (claim_remove i (rs_claims v))"
    "ib_reserved_replies (rh_inbox h') = ib_reserved_replies (rh_inbox h)"
proof -
  note v = reports_okD[OF ok]
  let ?v = "v\<lparr>rs_claims := fst (claim_remove i (rs_claims v))\<rparr>"
  have "reports_ok per cap w \<and> rs_claims w = fst (claim_remove i (rs_claims v)) \<and> ib_reserved_replies (rh_inbox h') = ib_reserved_replies (rh_inbox h)"
  proof (cases "rc_mode c")
    case (ModeTask task)
    let ?tomb = "TombReported (Some (rc_report_id c)) (Some (rc_digest c)) dest"
    have w: "w = fst (settle_in task ?tomb ?v)" and h': "h' = retire_reported_task now task (rc_worker_pane c) h"
      using s ModeTask by (auto simp: settle_claim_def)
    have lv: "ledger_ok per (rs_tasks ?v)" using v(2) by simp
    have q: "quiet per ?v w" unfolding w by (rule quiet_settle_in)
    have "reports_ok per cap w"
    proof (rule task_settled[OF ok c])
      show "rs_claims w = fst (claim_remove i (rs_claims v))" "rs_units w = rs_units v" "ledger_ok per (rs_tasks w)"
        "os_max (rs_outcomes w) = os_max (rs_outcomes v)"
        using q lv by (simp_all add: quiet_def)
      show "(\<exists>n. tk_state t = TaskOpen n) \<or> rc_mode c \<noteq> ModeTask task' \<and> map_of (tl_open (rs_tasks v)) task' = Some t"
        if "map_of (tl_open (rs_tasks w)) task' = Some t" for task' t
        using that settle_in_open[OF lv] ModeTask by (auto simp: w delete_conv' split: if_splits)
    qed (use ModeTask in simp)
    then show ?thesis using q by (simp add: quiet_def h' retire_reported_task_def)
  next
    case (ModeTerminal u pane)
    then have w: "w = ?v\<lparr>rs_units := unit_set u (UnitCompleted (Some (rc_report_id c)) (rc_digest c) dest
          (case rc_unit_mark c of Some m \<Rightarrow> m | None \<Rightarrow> Marked)) (rs_units v)\<rparr>" and "rh_inbox h' = rh_inbox h"
      using s by (auto simp: settle_claim_def split: if_splits)
    moreover have "reports_ok per cap w"
      by (rule unit_settled[OF ok c ModeTerminal, where entry = "Some (UnitCompleted (Some (rc_report_id c)) (rc_digest c) dest
          (case rc_unit_mark c of Some m \<Rightarrow> m | None \<Rightarrow> Marked))"]) (simp_all add: w unit_ok_steps(1)[OF v(3)])
    ultimately show ?thesis by simp
  next
    case ModeUncorrelated
    then have w: "w = ?v" "h' = h" using s by (simp_all add: settle_claim_def)
    have "reports_ok per cap ?v"
      by (rule task_settled[OF ok c]) (use ModeUncorrelated v(2) in simp_all)
    then show ?thesis using w by simp
  qed
  then show "reports_ok per cap w" "rs_claims w = fst (claim_remove i (rs_claims v))"
    "ib_reserved_replies (rh_inbox h') = ib_reserved_replies (rh_inbox h)" by simp_all
qed

lemma commit_section_ok:
  assumes ok: "hub_ok per cap others h v" and s: "commit_section draws cv i h v = Some (h', v', outcome)"
  shows "hub_ok per cap others h' v'"
proof -
  note v = ok[unfolded hub_ok_def]
  consider "h' = h" "v' = v"
    | (committed) c ib posted h1 v1 dest h2 v2 where "get_claim i v = Some c"
        "post_claim draws (cv_now cv) (live_recipient (cv_live cv) c) c (rh_inbox h) = Some (ib, posted)"
        "publish_claim (cv_clk cv) (live_recipient (cv_live cv) c) c posted (h\<lparr>rh_inbox := ib\<rparr>) v = (h1, v1, dest)"
        "settle_claim (cv_now cv) dest (cv_routes_held cv) c h1 (v1\<lparr>rs_claims := fst (claim_remove i (rs_claims v1))\<rparr>) = (h2, v2)"
        "drain_events_in_section (cv_clk cv) h2 v2 = (h', v')"
    using s by (auto simp: commit_section_def split: option.splits if_splits prod.splits)
  then show ?thesis
  proof cases
    case 1
    then show ?thesis using ok by simp
  next
    case committed
    note pub = publish_claim_rest[OF committed(3)]
    have q: "quiet per v v1" using pub by (intro quiet_same) auto
    have ok1: "reports_ok per cap v1" and c1: "get_claim i v1 = Some c"
      using quiet_ok[OF q] v committed(1) pub(1) by (auto simp: get_claim_def)
    have "rc_room c" using table_okD(1)[OF reports_okD(1)[OF ok1]] c1 by (simp add: get_claim_def)
    moreover have len: "length (ct_claims (rs_claims v1)) = Suc (length (ct_claims (fst (claim_remove i (rs_claims v1)))))"
      using removed_length[OF reports_okD(1)[OF ok1]] c1 by (simp add: get_claim_def)
    moreover have "ib_reserved_replies (rh_inbox h) = others + length (ct_claims (rs_claims v1))" using v pub(1) by simp
    ultimately have "ib_reserved_replies (rh_inbox h1) = others + length (ct_claims (fst (claim_remove i (rs_claims v1))))"
      using pub(5) post_claim_count[OF committed(2)] by (auto split: option.splits)
    then have "hub_ok per cap others h2 v2" using settle_claim_ok[OF ok1 c1 committed(4)] by (simp add: hub_ok_def)
    then show ?thesis by (rule drain_hub_ok[OF _ committed(5)])
  qed
qed

lemma dispatch_ended_quiet:
  assumes "dispatch_ended sx route pane how h v = Some (h', v')"
  shows "rs_claims v' = rs_claims v" "rs_units v' = rs_units v" "rs_tasks v' = rs_tasks v" "rh_routes h' = rh_routes h"
    "ib_reserved_replies (rh_inbox h') = ib_reserved_replies (rh_inbox h)" "os_max (rs_outcomes v') = os_max (rs_outcomes v)"
  using assms by (auto simp: dispatch_ended_def keep_row_def Let_def dest: reserved_post_direct split: if_splits option.splits prod.splits sum.splits)

lemma dispatch_ended_ok:
  assumes "hub_ok per cap others h v" "dispatch_ended sx route pane how h v = Some (h', v')"
  shows "hub_ok per cap others h' v'"
  using assms(1) dispatch_ended_quiet[OF assms(2)] by (intro hub_okI_quiet[OF assms(1)] quiet_same) auto

lemma fail_settle_ok:
  assumes ok: "reports_ok per cap v" and c: "get_claim i v = Some c"
    and s: "fail_settle sx c h (v\<lparr>rs_claims := fst (claim_remove i (rs_claims v))\<rparr>) = Some (h', w, debt)"
  shows "reports_ok per cap w \<and> rs_claims w = fst (claim_remove i (rs_claims v))
    \<and> ib_reserved_replies (rh_inbox h') = ib_reserved_replies (rh_inbox h)"
proof -
  note v = reports_okD[OF ok]
  let ?v = "v\<lparr>rs_claims := fst (claim_remove i (rs_claims v))\<rparr>"
  have lv: "ledger_ok per (rs_tasks ?v)" using v(2) by simp
  show ?thesis
  proof (cases "rc_mode c")
    case (ModeTask task)
    have "(w = fst (settle_in task TombClosed ?v) \<or> w = change_task task reopen ?v) \<and> rh_inbox h' = rh_inbox h"
      using s ModeTask by (auto simp: fail_settle_def split: option.splits prod.splits)
    then have w: "w = fst (settle_in task TombClosed ?v) \<or> w = change_task task reopen ?v" and h': "rh_inbox h' = rh_inbox h" by simp_all
    have rest: "rs_claims w = rs_claims ?v \<and> rs_units w = rs_units ?v \<and> ledger_ok per (rs_tasks w)
        \<and> os_max (rs_outcomes w) = os_max (rs_outcomes ?v)"
      using w quiet_settle_in[of per ?v task TombClosed] lv change_task_ledger[OF lv, of reopen task]
      by (auto simp: quiet_def reopen_def)
    have "reports_ok per cap w"
    proof (rule task_settled[OF ok c])
      show "(\<exists>n. tk_state t = TaskOpen n) \<or> rc_mode c \<noteq> ModeTask task' \<and> map_of (tl_open (rs_tasks v)) task' = Some t"
        if "map_of (tl_open (rs_tasks w)) task' = Some t" for task' t
        using that w settle_in_open[OF lv] ModeTask
        by (auto simp: delete_conv' open_change_task reopen_def split: if_splits)
    qed (use ModeTask rest in simp_all)
    then show ?thesis using rest h' by simp
  next
    case (ModeTerminal u pane)
    let ?over = "\<lambda>how. ?v\<lparr>rs_units := unit_set u (UnitEnded how) (rs_units ?v)\<rparr>"
    have ended: "reports_ok per cap (?over how)" for how
      by (rule unit_settled[OF ok c ModeTerminal, where entry = "Some (UnitEnded how)"]) (simp_all add: unit_ok_steps(1)[OF v(3)])
    have gone: "reports_ok per cap (?v\<lparr>rs_units := fst (unit_remove u (rs_units ?v))\<rparr>)"
      by (rule unit_settled[OF ok c ModeTerminal, where entry = None]) (simp_all add: unit_ok_steps(3)[OF v(3)])
    consider (gone) "w = ?v\<lparr>rs_units := fst (unit_remove u (rs_units ?v))\<rparr>" "h' = h"
      | (ended) how where "w = ?over how" "h' = h"
      | (told) how caller where "dispatch_ended sx (route_of_claim c u caller) pane how h (?over how) = Some (h', w)"
      using s ModeTerminal by (auto simp: fail_settle_def Let_def split: option.splits prod.splits)
    then show ?thesis
    proof cases
      case told
      note d = dispatch_ended_quiet[OF told]
      have "quiet per (?over how) w" using d by (intro quiet_same) simp_all
      from quiet_ok[OF this ended] d show ?thesis by simp
    qed (use ended gone in simp_all)
  next
    case ModeUncorrelated
    then have w: "w = ?v" "h' = h" using s by (simp_all add: fail_settle_def)
    have "reports_ok per cap ?v" by (rule task_settled[OF ok c]) (use ModeUncorrelated v(2) in simp_all)
    then show ?thesis using w by simp
  qed
qed

lemma fail_section_ok:
  assumes ok: "hub_ok per cap others h v" and s: "fail_section sx lock i h v = Some (h', v', outcome)"
  shows "hub_ok per cap others h' v'"
proof -
  note v = ok[unfolded hub_ok_def]
  consider "h' = h" "v' = v"
    | (failed) c debt where "get_claim i v = Some c"
        "fail_settle sx c (if rc_room c then h\<lparr>rh_inbox := release_reply (rh_inbox h)\<rparr> else h)
           (v\<lparr>rs_claims := fst (claim_remove i (rs_claims v))\<rparr>) = Some (h', v', debt)"
    using s by (auto simp: fail_section_def split: option.splits if_splits)
  then show ?thesis
  proof cases
    case 1
    then show ?thesis using ok by simp
  next
    case failed
    have "rc_room c" using table_okD(1)[OF reports_okD(1)] v failed(1) by (auto simp: get_claim_def)
    moreover have "length (ct_claims (rs_claims v)) = Suc (length (ct_claims (fst (claim_remove i (rs_claims v)))))"
      using removed_length[OF reports_okD(1)] v failed(1) by (auto simp: get_claim_def)
    ultimately show ?thesis using fail_settle_ok[OF conjunct1[OF v] failed] v by (simp add: hub_ok_def)
  qed
qed

end
