(* ===== verification/Report_Reach.thy ===== *)
theory Report_Reach
  imports Report_Steps
begin

text \<open>
  The sections on units and tasks keep the invariant too; then the steps of the whole, and that the invariant holds
  in every state they reach.
\<close>

section \<open>Units\<close>

text \<open>A unit without an entry may get one no claim is behind; indexing and publications change no entry.\<close>

lemma unit_entry_ok:
  assumes ok: "hub_ok per cap others h v" and none: "unit_get u (rs_units v) = None" and free: "\<And>i. entry \<noteq> UnitClaimed i"
  shows "hub_ok per cap others h (v\<lparr>rs_units := unit_set u entry (rs_units v)\<rparr>)"
proof -
  note v = reports_okD[OF conjunct1[OF ok[unfolded hub_ok_def]]]
  have "unit_get u' (unit_set u entry (rs_units v)) = Some (UnitClaimed i) \<longleftrightarrow> unit_get u' (rs_units v) = Some (UnitClaimed i)" for u' i
    using none free by auto
  then have "units_backed (v\<lparr>rs_units := unit_set u entry (rs_units v)\<rparr>)" using v(5) by (simp add: units_backed_def get_claim_def)
  moreover have "tasks_backed (v\<lparr>rs_units := unit_set u entry (rs_units v)\<rparr>)" using v(4) by (simp add: tasks_backed_def get_claim_def)
  ultimately show ?thesis using ok v unit_ok_steps(1)[OF v(3)] by (simp add: hub_ok_def reports_ok_def)
qed

lemma unit_table_change_ok:
  assumes ok: "hub_ok per cap others h v" and t: "unit_table_ok cap t"
    and same: "\<And>u i. unit_get u t = Some (UnitClaimed i) \<longleftrightarrow> unit_get u (rs_units v) = Some (UnitClaimed i)"
    and w: "rs_units w = t" "rs_claims w = rs_claims v" "rs_tasks w = rs_tasks v" "os_max (rs_outcomes w) = os_max (rs_outcomes v)"
    and h: "ib_reserved_replies (rh_inbox h') = ib_reserved_replies (rh_inbox h)"
  shows "hub_ok per cap others h' w"
proof -
  note v = reports_okD[OF conjunct1[OF ok[unfolded hub_ok_def]]]
  have "units_backed w" using v(5) same w by (simp add: units_backed_def get_claim_def)
  moreover have "tasks_backed w" using v(4) w by (simp add: tasks_backed_def get_claim_def)
  ultimately show ?thesis using ok v t w h by (simp add: hub_ok_def reports_ok_def)
qed

lemma evict_claimed:
  assumes "unit_table_ok cap t"
  shows "unit_get u (fst (unit_evict protected t)) = Some (UnitClaimed i) \<longleftrightarrow> unit_get u t = Some (UnitClaimed i)"
proof -
  obtain t' evicted where e: "unit_evict protected t = (t', evicted)" by fastforce
  have "distinct (ut_order t)" using assms by (simp add: unit_table_ok_def)
  note spec = evict_loop_spec[OF e[unfolded unit_evict_def] this]
  have "\<not> is_claimed u t" if "u \<in> set evicted" using that spec by (auto dest!: in_set_takeD)
  then show ?thesis using e spec by (auto simp: unit_get_def is_claimed_def)
qed

lemma unit_section_end_ok:
  assumes "hub_ok per cap others h v" "unit_section_end sx (h, v) = (h', v', r)"
  shows "hub_ok per cap others h' v'"
proof -
  have t: "unit_table_ok cap (rs_units v)" using assms(1) by (simp add: hub_ok_def reports_ok_def)
  have "hub_ok per cap others h (evict_units sx v)"
    by (rule unit_table_change_ok[OF assms(1), where t = "rs_units (evict_units sx v)"])
      (simp_all add: evict_units_def unit_ok_steps(4)[OF t] evict_claimed[OF t])
  then show ?thesis
    using assms(2) drain_hub_ok by (auto simp: unit_section_end_def split: prod.splits)
qed

lemma index_ok:
  assumes "hub_ok per cap others h v" "ib_reserved_replies (rh_inbox h') = ib_reserved_replies (rh_inbox h)"
    "rs_claims w = rs_claims v" "rs_tasks w = rs_tasks v" "rs_units w = unit_index pane agent u (rs_units v)"
    "os_max (rs_outcomes w) = os_max (rs_outcomes v)"
  shows "hub_ok per cap others h' w"
proof -
  have "unit_table_ok cap (rs_units v)" using assms(1) by (simp add: hub_ok_def reports_ok_def)
  then show ?thesis
    by (intro unit_table_change_ok[OF assms(1), where t = "rs_units w"]) (simp_all add: assms unit_ok_steps(2))
qed

lemma registered_section_ok:
  assumes ok: "hub_ok per cap others h v" and new: "unit_get (rg_unit_id rg) (rs_units v) = None"
    and s: "registered_section sx rg h v = Some (h', v', r)"
  shows "hub_ok per cap others h' v'"
proof -
  let ?v = "v\<lparr>rs_publications := AList.delete (rg_publication rg) (rs_publications v),
              rs_units := unit_index (rg_pane_id rg) (rg_agent_id rg) (rg_unit_id rg) (rs_units v)\<rparr>"
  let ?h = "h\<lparr>rh_pins := rh_pins h @ [(rg_agent_id rg, rg_unit_id rg, None)]\<rparr>"
  have ok1: "hub_ok per cap others h1 ?v" if "rh_inbox h1 = rh_inbox h" for h1
    by (rule index_ok[OF ok]) (simp_all add: that)
  show ?thesis
  proof (cases "rg_ended rg")
    case None
    then have "unit_section_end sx (?h\<lparr>rh_routes := fst (route_register (rg_pane_id rg) (rg_agent_id rg) (rg_unit_id rg) (rg_caller rg) (rh_routes ?h))\<rparr>, ?v)
        = (h', v', r)"
      using s by (simp add: registered_section_def Let_def)
    then show ?thesis by (rule unit_section_end_ok[rotated]) (rule ok1, simp)
  next
    case (Some how)
    then obtain h2 v2 where d: "dispatch_ended sx \<lparr>rr_unit_agent_id = rg_agent_id rg, rr_caller = rg_caller rg, rr_unit_id = rg_unit_id rg, rr_orphaned = False\<rparr>
        (rg_pane_id rg) how ?h (?v\<lparr>rs_units := unit_set (rg_unit_id rg) (UnitEnded how) (rs_units ?v)\<rparr>) = Some (h2, v2)"
        and e: "unit_section_end sx (h2, v2) = (h', v', r)"
      using s by (auto simp: registered_section_def Let_def)
    have "hub_ok per cap others ?h (?v\<lparr>rs_units := unit_set (rg_unit_id rg) (UnitEnded how) (rs_units ?v)\<rparr>)"
      using new by (intro unit_entry_ok ok1) simp_all
    then show ?thesis using dispatch_ended_ok[OF _ d] unit_section_end_ok[OF _ e] by blast
  qed
qed

lemma settle_unit_end_ok:
  assumes ok: "hub_ok per cap others h v" and s: "settle_unit_end sx pane how route (h, v) = Some (h', v')"
  shows "hub_ok per cap others h' v'"
proof (cases "unit_get (rr_unit_id route) (rs_units v)")
  case None
  then have "dispatch_ended sx route pane how h (v\<lparr>rs_units := unit_set (rr_unit_id route) (UnitEnded how) (rs_units v)\<rparr>) = Some (h', v')"
    using s by (simp add: settle_unit_end_def)
  then show ?thesis using dispatch_ended_ok unit_entry_ok[OF ok None] by blast
next
  case (Some entry)
  let ?gone = "\<lambda>c. c\<lparr>rc_unit_gone := (case rc_unit_gone c of Some x \<Rightarrow> Some x | None \<Rightarrow> Some how)\<rparr>"
  have changed: "reports_ok per cap (change_claim i ?gone v)" for i
    using ok by (intro change_claim_ok) (simp_all add: hub_ok_def claim_generation_def)
  from Some have "h' = h" "v' = v \<or> (\<exists>i. v' = change_claim i ?gone v)"
    using s by (auto simp: settle_unit_end_def split: unit_entry.splits)
  then show ?thesis using ok changed by (auto simp: hub_ok_def)
qed

lemma settle_unit_ends_ok:
  assumes "hub_ok per cap others (fst s) (snd s)" "settle_unit_ends sx pane how routes s = Some s'"
  shows "hub_ok per cap others (fst s') (snd s')"
  using assms
proof (induction routes arbitrary: s)
  case (Cons route routes)
  then obtain s1 where s1: "settle_unit_end sx pane how route s = Some s1" "settle_unit_ends sx pane how routes s1 = Some s'"
    by (auto split: bind_splits)
  have "hub_ok per cap others (fst s1) (snd s1)"
    using settle_unit_end_ok[of per cap others "fst s" "snd s" sx pane how route "fst s1" "snd s1"] Cons.prems(1) s1(1) by simp
  then show ?case using Cons.IH s1(2) by blast
qed simp

lemma close_replacement_ok:
  assumes ok: "hub_ok per cap others h v" and s: "close_replacement sx pane how removed (h, v) = Some (h', v')"
  shows "hub_ok per cap others h' v'"
proof -
  have pub: "hub_ok per cap others h (v\<lparr>rs_publications := p\<rparr>)" for p
    by (rule hub_okI_quiet[OF ok]) (simp_all add: quiet_same)
  have ended: "hub_ok per cap others h (v\<lparr>rs_publications := p, rs_units := unit_set u (UnitEnded how) (rs_units v)\<rparr>)"
    if "unit_get u (rs_units v) = None" for p u
    using unit_entry_ok[OF pub, of u p "UnitEnded how"] that by simp
  show ?thesis
    using s ok pub ended
    by (auto simp: close_replacement_def Let_def dest: dispatch_ended_ok[rotated] split: option.splits publication.splits if_splits)
qed

lemma routes_ended_ok:
  assumes ok: "hub_ok per cap others h v"
    and s: "Option.bind (settle_unit_ends sx pane how removed (h, v)) (close_replacement sx pane how removed) = Some s'"
  shows "hub_ok per cap others (fst s') (snd s')"
proof -
  obtain s1 where s1: "settle_unit_ends sx pane how removed (h, v) = Some s1" "close_replacement sx pane how removed s1 = Some s'"
    using s by (auto split: bind_splits)
  have "hub_ok per cap others (fst s1) (snd s1)" using settle_unit_ends_ok[OF _ s1(1)] ok by simp
  then show ?thesis using close_replacement_ok[of per cap others "fst s1" "snd s1" sx pane how removed "fst s'" "snd s'"] s1(2) by simp
qed

lemma abort_ok:
  assumes ok: "hub_ok per cap others h v" and s: "abort_end sx pane u h v = Some s"
  shows "hub_ok per cap others (fst (abort_successor pane u ticket successor s)) (snd (abort_successor pane u ticket successor s))"
proof -
  obtain h1 v1 where hv: "s = (h1, v1)" by fastforce
  have "hub_ok per cap others h1 v1"
  proof (cases "snd (route_take_unit u (rh_routes h))")
    case None
    then have "h1 = h" "v1 = v \<or> unit_get u (rs_units v) = None \<and> v1 = v\<lparr>rs_units := unit_set u (UnitEnded HowRespawnFailed) (rs_units v)\<rparr>"
      using s hv by (auto simp: abort_end_def split: prod.splits if_splits)
    then show ?thesis using ok unit_entry_ok[OF ok, of u "UnitEnded HowRespawnFailed"] by auto
  next
    case (Some route)
    then have "settle_unit_end sx pane HowRespawnFailed route (h\<lparr>rh_routes := fst (route_take_unit u (rh_routes h))\<rparr>, v) = Some (h1, v1)"
      using s hv by (auto simp: abort_end_def split: prod.splits)
    moreover have "hub_ok per cap others (h\<lparr>rh_routes := fst (route_take_unit u (rh_routes h))\<rparr>) v" using ok by (simp add: hub_ok_def)
    ultimately show ?thesis using settle_unit_end_ok by blast
  qed
  then have pub: "hub_ok per cap others h2 (v1\<lparr>rs_publications := p\<rparr>)" if "rh_inbox h2 = rh_inbox h1" for p h2
    by (rule hub_okI_quiet) (simp_all add: quiet_same that)
  show ?thesis
  proof (cases successor)
    case None
    then show ?thesis using pub by (simp add: abort_successor_def hv)
  next
    case (Some agent)
    then show ?thesis using index_ok[OF pub[OF refl]] by (simp add: abort_successor_def hv)
  qed
qed

section \<open>Tasks\<close>

lemma quiet_supersede: "quiet per (fst s) (fst (supersede_one by_task i s))"
proof -
  have "fst (supersede_one by_task i s) = fst s \<or> fst (supersede_one by_task i s) = fst (settle_in i (TombSuperseded by_task) (fst s))"
    by (auto simp: supersede_one_def split: prod.splits option.splits)
  then show ?thesis using quiet_refl quiet_settle_in by metis
qed

lemma quiet_supersede_tasks: "quiet per v (fst (supersede_tasks pane by_task v))"
proof -
  have "quiet per (fst s) (fst (fold (supersede_one by_task) ids s))" for ids s
  proof (induction ids arbitrary: s)
    case (Cons i ids)
    show ?case using quiet_trans[OF quiet_supersede Cons] by simp
  qed (simp add: quiet_refl)
  from this[of "(v, [])"] show ?thesis by (simp add: supersede_tasks_def)
qed

lemma bind_ok:
  assumes "hub_ok per cap others h v"
  shows "hub_ok per cap others h (v\<lparr>rs_tasks := fst (task_bind task binding (rs_tasks v))\<rparr>)"
proof -
  note v = reports_okD[OF conjunct1[OF assms[unfolded hub_ok_def]]]
  let ?w = "v\<lparr>rs_tasks := fst (task_bind task binding (rs_tasks v))\<rparr>"
  have l: "ledger_ok per (rs_tasks ?w)" using tasks.step_inv[OF v(2) ts_bind] by simp
  have "map_of (tl_open (rs_tasks v)) task' = Some t" if "map_of (tl_open (rs_tasks ?w)) task' = Some t" "tk_state t = TaskReporting j" for task' t j
    using that by (auto simp: task_bind_def update_conv' split: if_splits)
  then have "tasks_backed ?w" using v(4) unfolding tasks_backed_def get_claim_def by simp
  moreover have "units_backed ?w" using v(5) by (simp add: units_backed_def get_claim_def)
  ultimately show ?thesis using assms v l by (simp add: hub_ok_def reports_ok_def)
qed

lemma quiet_note_walked: "quiet per v (note_walked i t v)"
  by (simp add: note_walked_def quiet_same)

lemma walk_one_ok:
  assumes ok: "hub_ok per cap others (wk_hub w) (wk_state w)"
  shows "hub_ok per cap others (wk_hub (walk_one words pane kind i w)) (wk_state (walk_one words pane kind i w))"
proof -
  let ?walked = "change_task i (\<lambda>t. t\<lparr>tk_exit_walked := True\<rparr>) (wk_state w)"
  have q: "quiet per (wk_state w) ?walked" by (rule quiet_change_task) simp
  have claimed: "hub_ok per cap others (wk_hub w) (change_claim j (mark_worker_gone kind notices) (note_walked i t ?walked))" for j notices t
  proof -
    have "reports_ok per cap (note_walked i t ?walked)"
      using quiet_ok[OF quiet_trans[OF q quiet_note_walked]] ok by (simp add: hub_ok_def)
    then have "reports_ok per cap (change_claim j (mark_worker_gone kind notices) (note_walked i t ?walked))"
      by (rule change_claim_ok) (simp add: mark_worker_gone_def claim_generation_def)
    then show ?thesis using ok by (simp add: hub_ok_def note_walked_def)
  qed
  have settled: "hub_ok per cap others h' (fst (settle_in i TombClosed ?walked))" if "rh_inbox h' = rh_inbox (wk_hub w)" for h'
    by (rule hub_okI_quiet[OF ok quiet_trans[OF q quiet_settle_in]]) (simp add: that)
  have noted: "hub_ok per cap others h' (note_walked i t (fst (settle_in i TombClosed ?walked)))" if "rh_inbox h' = rh_inbox (wk_hub w)" for h' t
    by (rule hub_okI_quiet[OF settled[OF that] quiet_note_walked]) simp
  have "hub_ok per cap others (wk_hub (walk_open words pane kind i w)) (wk_state (walk_open words pane kind i w))"
  proof (cases "settle_in i TombClosed ?walked")
    case (Pair v answer)
    then show ?thesis using settled noted by (cases answer) (auto simp: walk_open_def Let_def split: option.split)
  qed
  then show ?thesis using ok claimed by (auto simp: walk_one_def walk_claimed_def split: option.splits task_state.splits)
qed

lemma walk_exited_ok:
  assumes "hub_ok per cap others h v" "walk_exited_tasks words pane agent kind h v = (h', v', debt)"
  shows "hub_ok per cap others h' v'"
proof -
  have "hub_ok per cap others (wk_hub (fold (walk_one words pane kind) ids w)) (wk_state (fold (walk_one words pane kind) ids w))"
    if "hub_ok per cap others (wk_hub w) (wk_state w)" for ids w
    using that by (induction ids arbitrary: w) (simp_all add: walk_one_ok)
  from this[of "\<lparr>wk_hub = h, wk_state = v, wk_debt = [], wk_exited = []\<rparr>"] assms show ?thesis
    by (auto simp: walk_exited_tasks_def Let_def hub_ok_def)
qed

lemma reserved_down_from:
  assumes "\<And>i ib. ib_reserved_replies (f i ib) = ib_reserved_replies ib"
  shows "ib_reserved_replies (down_from f n ib) = ib_reserved_replies ib"
  using assms by (induction n arbitrary: ib) simp_all

lemma reserved_agent_exited [simp]: "ib_reserved_replies (agent_exited now pane agent ib) = ib_reserved_replies ib"
proof -
  have "ib_reserved_replies (agent_exited_body now pane agent i ib) = ib_reserved_replies ib" for i ib
    by (simp add: agent_exited_body_def return_offer_def transition_def Let_def)
  from reserved_down_from[OF this] show ?thesis by (simp add: agent_exited_def trim_history_def Let_def)
qed

section \<open>The steps\<close>

definition current :: "report_hub \<Rightarrow> report_state option" where
  "current h = gd_value (rh_reports h)"

text \<open>
  A state is the hub with the number of replies others hold room for. Others reserve, release and use their own
  room, and make any other call of the inbox; the registry changes the routes; owed notices are posted. A panic in a
  section leaves the report state torn. A unit is registered under an id that no unit had.
\<close>

inductive report_step :: "nat \<times> report_hub \<Rightarrow> nat \<times> report_hub \<Rightarrow> bool" where
  rp_task: "report_step (n, h) (n, fst (admit_task_claim store bytes spec task seat h))"
| rp_uncorrelated: "report_step (n, h) (n, fst (admit_uncorrelated_claim store bytes spec to role h))"
| rp_terminal: "report_step (n, h) (n, fst (install_terminal_claim store bytes spec facts h))"
| rp_phase: "report_step (n, h) (n, fst (note_claim_phase i phase h))"
| rp_stage: "report_step (n, h) (n, fst (stage_claim i post h))"
| rp_marked: "report_step (n, h) (n, fst (note_claim_marked i mark h))"
| rp_commit: "report_step (n, h) (n, h')" if "commit_claim draws cv i h = Some (h', outcome)"
| rp_fail: "report_step (n, h) (n, h')" if "fail_claim sx lock i h = Some (h', failed)"
| rp_registered: "report_step (n, h) (n, h')"
    if "unit_route_registered sx rg h = Some h'" "\<And>v. current h = Some v \<Longrightarrow> unit_get (rg_unit_id rg) (rs_units v) = None"
| rp_ended: "report_step (n, h) (n, h')" if "unit_routes_ended sx removed pane how h = Some h'"
| rp_publication: "report_step (n, h) (n, fst (install_publication key pub h))"
| rp_unpublished: "report_step (n, h) (n, fst (remove_publication key h))"
| rp_begin: "report_step (n, h) (n, fst (replacement_begin pane from ticket h))"
| rp_publish: "report_step (n, h) (n, fst (replacement_publish pane u from ticket successor h))"
| rp_abort: "report_step (n, h) (n, h')" if "replacement_abort sx pane u ticket successor_opt h = Some (h', res)"
| rp_bind: "report_step (n, h) (n, fst (bind_delegate task binding h))"
| rp_supersede: "report_step (n, h) (n, fst (supersede_delegates pane h))"
| rp_exit: "report_step (n, h) (n, fst (agent_exited_as words now clk pane agent kind h))"
| rp_accepted: "report_step (n, h) (n, record_accepted clk i_msg entry h)"
| rp_aside: "report_step (n, h) (n, set_aside clk entry cause h)"
| rp_hold: "report_step (n, h) (n, fst (hold_fallback report contents held now h))"
| rp_take: "report_step (n, h) (n, fst (retry_take clk h))"
| rp_restore: "report_step (n, h) (n, retry_restore saved unsaved h)"
| rp_routes: "report_step (n, h) (n, h\<lparr>rh_routes := routes, rh_owed := owed, rh_wakes := wakes\<rparr>)"
| rp_reserve: "report_step (n, h) (Suc n, h\<lparr>rh_inbox := ib\<rparr>)" if "reserve_reply (rh_inbox h) = (ib, Inr ())"
| rp_reserve_delegate: "report_step (n, h) (Suc n, h\<lparr>rh_inbox := ib\<rparr>)" if "reserve_delegate now pane c k (rh_inbox h) = (ib, Inr ())"
| rp_release: "report_step (Suc n, h) (n, h\<lparr>rh_inbox := release_reply (rh_inbox h)\<rparr>)"
| rp_reply: "report_step (Suc n, h) (n, hub_drain clk (h\<lparr>rh_inbox := ib\<rparr>))"
    if "post_reserved_reply draws now to_r c (rh_inbox h) = Some (ib, Inr i_msg)"
| rp_inbox: "report_step (n, h) (n, hub_drain clk (h\<lparr>rh_inbox := ib\<rparr>))"
    if "run_op op (rh_inbox h) = Some ib" "ib_reserved_replies ib = ib_reserved_replies (rh_inbox h)"
| rp_panic: "report_step (n, h) (n, h'\<lparr>rh_reports := \<lparr>gd_value = None, gd_torn = True\<rparr>\<rparr>)"

definition report_inv :: "nat \<Rightarrow> nat \<Rightarrow> nat \<times> report_hub \<Rightarrow> bool" where
  "report_inv per cap s \<longleftrightarrow> (\<forall>v. current (snd s) = Some v \<longrightarrow> hub_ok per cap (fst s) (snd s) v)"

lemma hub_ok_cong [simp]:
  "hub_ok per cap n (h\<lparr>rh_reports := g\<rparr>) v = hub_ok per cap n h v" "hub_ok per cap n (h\<lparr>rh_store := st\<rparr>) v = hub_ok per cap n h v"
  by (simp_all add: hub_ok_def)

lemma in_section_inv:
  assumes "report_inv per cap (n, h)"
    "\<And>h0 v h1 v1 r. current h = Some v \<Longrightarrow> hub_ok per cap n h0 v \<Longrightarrow> f h0 v = (h1, v1, r) \<Longrightarrow> hub_ok per cap n h1 v1"
  shows "report_inv per cap (n, fst (in_section f h))"
proof (cases "gd_torn (rh_reports h) \<or> current h = None")
  case True
  then have "fst (in_section f h) = h" by (auto simp: in_section_def guarded_section_def current_def)
  then show ?thesis using assms(1) by simp
next
  case False
  then obtain v where v: "current h = Some v" by blast
  obtain h1 v1 r where r: "f (h\<lparr>rh_reports := \<lparr>gd_value = None, gd_torn = True\<rparr>\<rparr>) v = (h1, v1, r)" by (metis prod_cases3)
  have "hub_ok per cap n h1 v1" using assms(1) v by (intro assms(2)[OF v _ r]) (simp add: report_inv_def)
  moreover have "fst (in_section f h) = h1\<lparr>rh_reports := \<lparr>gd_value = Some v1, gd_torn = False\<rparr>\<rparr>"
    using False v r by (simp add: in_section_def guarded_section_def current_def)
  ultimately show ?thesis by (simp add: report_inv_def current_def)
qed

lemma in_section_opt_inv:
  assumes "report_inv per cap (n, h)" "in_section_opt f h = Some (h', res)"
    "\<And>h0 v h1 v1 r. current h = Some v \<Longrightarrow> hub_ok per cap n h0 v \<Longrightarrow> f h0 v = Some (h1, v1, r) \<Longrightarrow> hub_ok per cap n h1 v1"
  shows "report_inv per cap (n, h')"
proof (cases "gd_torn (rh_reports h) \<or> current h = None")
  case True
  then have "h' = h" using assms(2) by (auto simp: in_section_opt_def current_def Let_def split: if_splits)
  then show ?thesis using assms(1) by simp
next
  case False
  then obtain v where v: "current h = Some v" by blast
  with False assms(2) obtain h1 v1 r where r: "f (h\<lparr>rh_reports := \<lparr>gd_value = None, gd_torn = True\<rparr>\<rparr>) v = Some (h1, v1, r)"
      "h' = h1\<lparr>rh_reports := \<lparr>gd_value = Some v1, gd_torn = False\<rparr>\<rparr>"
    by (auto simp: in_section_opt_def current_def Let_def)
  have "hub_ok per cap n h1 v1" using assms(1) v by (intro assms(3)[OF v _ r(1)]) (simp add: report_inv_def)
  then show ?thesis using r(2) by (simp add: report_inv_def current_def)
qed

lemma hub_drain_inv:
  assumes "report_inv per cap (n, h\<lparr>rh_inbox := (rh_inbox h)\<lparr>ib_events := []\<rparr>\<rparr>)"
  shows "report_inv per cap (n, hub_drain clk h)"
proof -
  let ?h = "h\<lparr>rh_inbox := (rh_inbox h)\<lparr>ib_events := []\<rparr>\<rparr>"
  have "report_inv per cap (n, fst (in_section (\<lambda>s v. case fold (settle_event clk) evs (v, []) of (v', calls) \<Rightarrow> (s\<lparr>rh_store := rh_store s @ calls\<rparr>, v', ())) ?h))" for evs
  proof (rule in_section_inv[OF assms])
    fix h0 v h1 v1 r
    assume ok: "hub_ok per cap n h0 v"
      and f: "(case fold (settle_event clk) evs (v, []) of (v', calls) \<Rightarrow> (h0\<lparr>rh_store := rh_store h0 @ calls\<rparr>, v', ())) = (h1, v1, r)"
    have "quiet per v (fst (fold (settle_event clk) evs (v, [])))" using quiet_events[of per "(v, [])"] by simp
    then show "hub_ok per cap n h1 v1" using f by (intro hub_okI_quiet[OF ok]) (auto split: prod.splits)
  qed
  then show ?thesis using assms by (simp add: hub_drain_def drain_events_def Let_def)
qed

lemma admit_with_inv:
  assumes "report_inv per cap (n, h)"
    "\<And>s h0 v h1 v1 adm. hub_ok per cap n h0 v \<Longrightarrow> sec s h0 v = (h1, v1, adm) \<Longrightarrow> hub_ok per cap n h1 v1"
  shows "report_inv per cap (n, fst (admit_with store sec h))"
proof -
  have "report_inv per cap (n, fst (in_section (sec s) h))" for s
    by (rule in_section_inv[OF assms(1)]) (rule assms(2))
  moreover have "fst (admit_with store sec h) = h \<or> (\<exists>s. fst (admit_with store sec h) = fst (in_section (sec s) h))"
  proof (cases store)
    case (Some s)
    obtain h1 r where r: "in_section (sec s) h = (h1, r)" by fastforce
    then have "fst (admit_with store sec h) = h \<or> fst (admit_with store sec h) = h1"
      using Some by (cases r) (simp_all add: admit_with_def)
    then show ?thesis using r by (metis fst_conv)
  qed (simp add: admit_with_def)
  ultimately show ?thesis using assms(1) by auto
qed

lemma claim_section_inv:
  assumes "report_inv per cap (n, h)"
    "\<And>c. claim_generation (f c) = claim_generation c \<and> rc_claim_id (f c) = rc_claim_id c \<and> rc_room (f c) = rc_room c \<and> rc_mode (f c) = rc_mode c"
  shows "report_inv per cap (n, fst (in_section (\<lambda>h v. (h, change_claim i f v, ())) h))"
  using change_claim_ok[OF _ assms(2)] by (intro in_section_inv[OF assms(1)]) (auto simp: hub_ok_def)

lemma quiet_section_inv:
  assumes "report_inv per cap (n, h)" "\<And>h0 v. quiet per v (g v)"
  shows "report_inv per cap (n, fst (in_section (\<lambda>h v. (h, g v, r v)) h))"
  using assms(2) by (intro in_section_inv[OF assms(1)]) (auto intro: hub_okI_quiet)

lemma commit_claim_inv:
  assumes "report_inv per cap (n, h)" "commit_claim draws view i h = Some (h', outcome)"
  shows "report_inv per cap (n, h')"
proof (cases view)
  case None
  then show ?thesis using assms by (simp add: commit_claim_def)
next
  case (Some cv)
  then obtain res where "in_section_opt (commit_section draws cv i) h = Some (h', res)"
    using assms(2) by (auto simp: commit_claim_def)
  then show ?thesis by (rule in_section_opt_inv[OF assms(1)]) (rule commit_section_ok)
qed

lemma fail_claim_inv:
  assumes "report_inv per cap (n, h)" "fail_claim sx store i h = Some (h', outcome)"
  shows "report_inv per cap (n, h')"
proof (cases store)
  case None
  then show ?thesis using assms by (simp add: fail_claim_def)
next
  case (Some lock)
  then obtain res where "in_section_opt (fail_section sx lock i) h = Some (h', res)"
    using assms(2) by (auto simp: fail_claim_def)
  then show ?thesis by (rule in_section_opt_inv[OF assms(1)]) (rule fail_section_ok)
qed

lemma registered_inv:
  assumes "report_inv per cap (n, h)" "unit_route_registered sx rg h = Some h'"
    "\<And>v. current h = Some v \<Longrightarrow> unit_get (rg_unit_id rg) (rs_units v) = None"
  shows "report_inv per cap (n, h')"
proof -
  obtain h1 res where r: "in_section_opt (registered_section sx rg) h = Some (h1, res)"
      "h' = h1 \<or> (\<exists>routes. h' = h1\<lparr>rh_routes := routes\<rparr>)"
  proof -
    obtain h1 res where r: "in_section_opt (registered_section sx rg) h = Some (h1, res)"
      using assms(2) by (auto simp: unit_route_registered_def)
    then show thesis using assms(2) by (intro that[of h1 res]) (cases res; auto simp: unit_route_registered_def)+
  qed
  from r(1) have "report_inv per cap (n, h1)"
    by (rule in_section_opt_inv[OF assms(1)]) (rule registered_section_ok[OF _ assms(3)])
  then show ?thesis using r(2) by (auto simp: report_inv_def current_def hub_ok_def)
qed

lemma unit_section_inv:
  assumes "report_inv per cap (n, h)" "in_section_opt (\<lambda>s v. map_option (unit_section_end sx) (f s v)) h = Some (h', res)"
    "\<And>h0 v s'. hub_ok per cap n h0 v \<Longrightarrow> f h0 v = Some s' \<Longrightarrow> hub_ok per cap n (fst s') (snd s')"
  shows "report_inv per cap (n, h')"
  using assms(2)
proof (rule in_section_opt_inv[OF assms(1)])
  fix h0 v h1 v1 r
  assume ok: "hub_ok per cap n h0 v" and f: "map_option (unit_section_end sx) (f h0 v) = Some (h1, v1, r)"
  then obtain s where s: "f h0 v = Some s" "unit_section_end sx (fst s, snd s) = (h1, v1, r)" by auto
  then show "hub_ok per cap n h1 v1" using unit_section_end_ok[OF assms(3)[OF ok s(1)]] by blast
qed

lemma ended_inv:
  assumes "report_inv per cap (n, h)" "unit_routes_ended sx removed pane how h = Some h'"
  shows "report_inv per cap (n, h')"
proof (cases "removed = [] \<and> how \<noteq> HowClosed")
  case True
  then show ?thesis using assms by (simp add: unit_routes_ended_def)
next
  case False
  then obtain res where "in_section_opt (\<lambda>s v. map_option (unit_section_end sx)
      (Option.bind (settle_unit_ends sx pane how removed (s, v)) (close_replacement sx pane how removed))) h = Some (h', res)"
    using assms(2) by (auto simp: unit_routes_ended_def)
  then show ?thesis by (rule unit_section_inv[OF assms(1)]) (rule routes_ended_ok)
qed

lemma abort_inv:
  assumes "report_inv per cap (n, h)" "replacement_abort sx pane u ticket successor h = Some (h', res)"
  shows "report_inv per cap (n, h')"
  using assms(2) unfolding replacement_abort_def
proof (rule in_section_opt_inv[OF assms(1)])
  fix h0 v h1 v1 r
  assume ok: "hub_ok per cap n h0 v"
    and f: "(case map_of (rs_publications v) (KeyPane pane) of
         Some (PubReplacement _ _ held _) \<Rightarrow>
           (if held = ticket
            then map_option (\<lambda>s. unit_section_end sx (abort_successor pane u ticket successor s)) (abort_end sx pane u h0 v)
            else Some (h0, v, ()))
       | _ \<Rightarrow> Some (h0, v, ())) = Some (h1, v1, r)"
  from f consider "h1 = h0" "v1 = v"
    | s where "abort_end sx pane u h0 v = Some s" "unit_section_end sx (abort_successor pane u ticket successor s) = (h1, v1, r)"
    by (auto split: option.splits publication.splits if_splits)
  then show "hub_ok per cap n h1 v1"
  proof cases
    case 1
    then show ?thesis using ok by simp
  next
    case 2
    then show ?thesis using unit_section_end_ok[OF abort_ok[OF ok 2(1)]] by simp
  qed
qed

lemma drain_section_inv:
  assumes "report_inv per cap (n, h)" "\<And>v. quiet per v (g v)"
  shows "report_inv per cap (n, fst (in_section (\<lambda>s v. case drain_events_in_section clk s (g v) of (s', v') \<Rightarrow> (s', v', ())) h))"
proof (rule in_section_inv[OF assms(1)])
  fix h0 v h1 v1 r
  assume "hub_ok per cap n h0 v"
    and f: "(case drain_events_in_section clk h0 (g v) of (s', v') \<Rightarrow> (s', v', ())) = (h1, v1, r)"
  then have "hub_ok per cap n h0 (g v)" using hub_okI_quiet[OF _ assms(2) refl] by blast
  then show "hub_ok per cap n h1 v1" using f drain_hub_ok by (auto split: prod.splits)
qed

lemma report_inv_inbox:
  assumes "report_inv per cap (n, h)" "ib_reserved_replies ib + n = ib_reserved_replies (rh_inbox h) + m" "rh_reports h' = rh_reports h" "rh_inbox h' = ib"
  shows "report_inv per cap (m, h')"
  using assms by (auto simp: report_inv_def current_def hub_ok_def)

lemma drained_inv:
  assumes "report_inv per cap (n, h)" "ib_reserved_replies ib + n = ib_reserved_replies (rh_inbox h) + m"
  shows "report_inv per cap (m, hub_drain clk (h\<lparr>rh_inbox := ib\<rparr>))"
  by (rule hub_drain_inv, rule report_inv_inbox[OF assms(1), where ib = "ib\<lparr>ib_events := []\<rparr>"]) (use assms(2) in simp_all)

lemma publication_sections_inv:
  assumes "report_inv per cap (n, h)"
  shows "report_inv per cap (n, fst (install_publication key pub h))" "report_inv per cap (n, fst (remove_publication key h))"
    "report_inv per cap (n, fst (replacement_begin pane from ticket h))"
    "report_inv per cap (n, fst (replacement_publish pane u from ticket successor h))"
proof -
  have pub: "hub_ok per cap n h0 (v\<lparr>rs_publications := p\<rparr>) = hub_ok per cap n h0 v" for h0 v p
    using hub_okI_quiet[OF _ quiet_same, of per cap n h0 v "v\<lparr>rs_publications := p\<rparr>" h0]
      hub_okI_quiet[OF _ quiet_same, of per cap n h0 "v\<lparr>rs_publications := p\<rparr>" v h0] by auto
  show "report_inv per cap (n, fst (install_publication key pub h))"
    unfolding install_publication_def by (rule in_section_inv[OF assms]) (auto simp: pub split: if_splits)
  show "report_inv per cap (n, fst (remove_publication key h))"
    unfolding remove_publication_def by (rule in_section_inv[OF assms]) (auto simp: pub split: if_splits)
  show "report_inv per cap (n, fst (replacement_begin pane from ticket h))"
    unfolding replacement_begin_def by (rule in_section_inv[OF assms]) (auto simp: pub split: if_splits option.splits)
  show "report_inv per cap (n, fst (replacement_publish pane u from ticket successor h))"
    unfolding replacement_publish_def
  proof (rule in_section_inv[OF assms])
    fix h0 v h1 v1 r
    assume ok: "hub_ok per cap n h0 v"
      and f: "(case map_of (rs_publications v) (KeyPane pane) of
         Some (PubReplacement _ _ held closed) \<Rightarrow>
           (if held = ticket
            then (h0\<lparr>rh_routes := (if closed then rh_routes h0 else fst (route_retarget pane u from successor (rh_routes h0))),
                    rh_pins := rh_pins h0 @ [(successor, u, Some ticket)]\<rparr>,
                  v\<lparr>rs_units := unit_index pane successor u (rs_units v), rs_publications := AList.delete (KeyPane pane) (rs_publications v)\<rparr>, ())
            else (h0, v, ()))
       | _ \<Rightarrow> (h0, v, ())) = (h1, v1, r)"
    from f have "(h1 = h0 \<and> v1 = v) \<or> (rh_inbox h1 = rh_inbox h0 \<and> rs_claims v1 = rs_claims v \<and> rs_tasks v1 = rs_tasks v
        \<and> rs_units v1 = unit_index pane successor u (rs_units v) \<and> rs_outcomes v1 = rs_outcomes v)"
      by (auto split: option.splits publication.splits if_splits)
    then show "hub_ok per cap n h1 v1" using ok index_ok[OF ok] by metis
  qed
qed

lemma task_sections_inv:
  assumes "report_inv per cap (n, h)"
  shows "report_inv per cap (n, fst (bind_delegate task binding h))" "report_inv per cap (n, fst (supersede_delegates pane h))"
    "report_inv per cap (n, fst (agent_exited_as words now clk pane agent kind h))"
proof -
  show "report_inv per cap (n, fst (bind_delegate task binding h))"
    unfolding bind_delegate_def
  proof (rule in_section_inv[OF assms])
    fix h0 v h1 v1 r
    assume ok: "hub_ok per cap n h0 v"
      and f: "(case supersede_tasks (tb_worker_pane binding) (Some task) v of
         (v1, debt) \<Rightarrow> (h0, v1\<lparr>rs_tasks := fst (task_bind task binding (rs_tasks v1))\<rparr>, debt)) = (h1, v1, r)"
    have "hub_ok per cap n h0 (fst (supersede_tasks (tb_worker_pane binding) (Some task) v))"
      using hub_okI_quiet[OF ok quiet_supersede_tasks refl] .
    from bind_ok[OF this] f show "hub_ok per cap n h1 v1" by (auto split: prod.splits)
  qed
  show "report_inv per cap (n, fst (supersede_delegates pane h))"
    unfolding supersede_delegates_def by (rule quiet_section_inv[OF assms]) (rule quiet_supersede_tasks)
  have "report_inv per cap (n, fst (in_section (walk_exited_tasks words pane agent kind) h))"
    by (rule in_section_inv[OF assms]) (rule walk_exited_ok)
  then show "report_inv per cap (n, fst (agent_exited_as words now clk pane agent kind h))"
    by (simp add: agent_exited_as_def case_prod_unfold drained_inv)
qed

lemma accepted_sections_inv:
  assumes "report_inv per cap (n, h)"
  shows "report_inv per cap (n, record_accepted clk i entry h)" "report_inv per cap (n, set_aside clk entry cause h)"
proof -
  let ?f = "\<lambda>s v. case drain_events_in_section clk s (v\<lparr>rs_accepted := AList.update i entry (rs_accepted v)\<rparr>) of (s', v') \<Rightarrow> (s', v', ())"
  have q: "quiet per v (v\<lparr>rs_accepted := AList.update i entry (rs_accepted v)\<rparr>)" for v by (rule quiet_same) simp_all
  have inv: "report_inv per cap (n, fst (in_section ?f h))" by (rule drain_section_inv[OF assms]) (rule q)
  obtain h1 r where r: "in_section ?f h = (h1, r)" by fastforce
  then have "report_inv per cap (n, h1)" using inv by simp
  moreover from this have "report_inv per cap (n, hub_drain clk h1)"
    using drained_inv[of per cap n h1 "rh_inbox h1" n clk] by simp
  ultimately show "report_inv per cap (n, record_accepted clk i entry h)"
    unfolding record_accepted_def r by (cases r) simp_all
  have "quiet per v (age_body (ar_report_id entry) (lifetime_recover clk)
      (if (case ar_report_id entry of Some report \<Rightarrow> \<not> has_report report (rs_outcomes v) | None \<Rightarrow> True)
       then v\<lparr>rs_outcomes := fst (outcome_insert (into_row entry cause (dn_ms clk)) None (rs_outcomes v))\<rparr> else v))" for v
    by (rule quiet_same) simp_all
  from quiet_section_inv[OF assms this] show "report_inv per cap (n, set_aside clk entry cause h)"
    by (simp add: set_aside_def Let_def report_inv_def current_def)
qed

text \<open>Results held in memory: their sections change neither a claim, a task, a unit nor the inbox.\<close>

lemma bodies_saved: "quiet per v (snd (fold body_saved saved (h, v))) \<and> rh_inbox (fst (fold body_saved saved (h, v))) = rh_inbox h"
proof (induction saved arbitrary: h v)
  case (Cons report saved)
  obtain h1 v1 where b: "body_saved report (h, v) = (h1, v1)" by fastforce
  then have "quiet per v v1" "rh_inbox h1 = rh_inbox h" by (auto simp: body_saved_def intro: quiet_same)
  with Cons[of v1 h1] b show ?case by (auto intro: quiet_trans)
qed (simp add: quiet_refl)

lemma bodies_unsaved: "quiet per (fst s) (fst (fold body_unsaved unsaved s))"
proof (induction unsaved arbitrary: s)
  case (Cons w unsaved)
  have "quiet per (fst s) (fst (body_unsaved w s))"
    by (auto simp: body_unsaved_def quiet_refl intro: quiet_same split: prod.splits option.splits)
  from quiet_trans[OF this Cons] show ?case by simp
qed (simp add: quiet_refl)

lemma fallback_sections_inv:
  assumes "report_inv per cap (n, h)"
  shows "report_inv per cap (n, fst (hold_fallback report contents held now h))" "report_inv per cap (n, fst (retry_take clk h))"
    "report_inv per cap (n, retry_restore saved unsaved h)"
proof -
  have stored: "report_inv per cap (n, h1\<lparr>rh_store := calls\<rparr>)" if "report_inv per cap (n, h1)" for h1 calls
    using that by (simp add: report_inv_def current_def)
  let ?hold = "\<lambda>s v. (s, v\<lparr>rs_fallback := AList.update report
      \<lparr>fb_contents = contents, fb_held_since = now, fb_held = Some held, fb_lifetime = LtReferenced\<rparr> (rs_fallback v)\<rparr>, ())"
  have "report_inv per cap (n, fst (in_section ?hold h))"
    by (rule quiet_section_inv[OF assms]) (rule quiet_same, simp_all)
  then show "report_inv per cap (n, fst (hold_fallback report contents held now h))"
    using stored by (cases "in_section ?hold h" rule: prod.exhaust) (simp add: hold_fallback_def split: section_end.split)
  let ?take = "\<lambda>s v. case fold (take_body clk) (map fst (rs_fallback v)) (rs_fallback v, [], []) of
      (bodies, ended, writes) \<Rightarrow> (s, v\<lparr>rs_fallback := bodies\<rparr>, (ended, writes))"
  have "report_inv per cap (n, fst (in_section ?take h))"
  proof (rule in_section_inv[OF assms])
    fix h0 v h1 v1 r
    assume ok: "hub_ok per cap n h0 v" and f: "?take h0 v = (h1, v1, r)"
    then have "h1 = h0" "quiet per v v1" by (auto intro: quiet_same split: prod.splits)
    then show "hub_ok per cap n h1 v1" using hub_okI_quiet[OF ok] by simp
  qed
  then show "report_inv per cap (n, fst (retry_take clk h))"
    using stored by (cases "in_section ?take h" rule: prod.exhaust) (simp add: retry_take_def split: section_end.split prod.split)
  let ?restore = "\<lambda>s v. case fold body_saved saved (s, v) of
      (s1, v1) \<Rightarrow> (case fold body_unsaved unsaved (v1, []) of (v2, stray) \<Rightarrow> (s1, v2, stray))"
  have "report_inv per cap (n, fst (in_section ?restore h))"
  proof (rule in_section_inv[OF assms])
    fix h0 v h1 v1 r
    assume ok: "hub_ok per cap n h0 v" and f: "?restore h0 v = (h1, v1, r)"
    obtain h2 v2 where s: "fold body_saved saved (h0, v) = (h2, v2)" by fastforce
    with f have "h1 = h2" "v1 = fst (fold body_unsaved unsaved (v2, []))" by (auto split: prod.splits)
    moreover have "quiet per v v2" "rh_inbox h2 = rh_inbox h0" using bodies_saved[of per v saved h0] s by auto
    moreover have "quiet per v2 (fst (fold body_unsaved unsaved (v2, [])))" using bodies_unsaved[of per "(v2, [])"] by simp
    ultimately show "hub_ok per cap n h1 v1" using hub_okI_quiet[OF ok] quiet_trans by metis
  qed
  then show "report_inv per cap (n, retry_restore saved unsaved h)"
    using stored by (cases "in_section ?restore h" rule: prod.exhaust) (simp add: retry_restore_def split: section_end.split)
qed

definition hub_new :: "inbox \<Rightarrow> nat \<Rightarrow> nat \<Rightarrow> nat list \<Rightarrow> report_hub" where
  "hub_new ib outcomes_max tombstones_max run =
     \<lparr>rh_inbox = ib, rh_reports = guarded_new (report_state_new outcomes_max tombstones_max run), rh_routes = [], rh_owed = [], rh_wakes = [],
      rh_store = [], rh_task_calls = [], rh_pins = []\<rparr>"

interpretation reports: step_invariant
  "\<lambda>s. \<exists>deck limits rows run. s = (0, hub_new (inbox_new deck limits) rows tombstones run)" report_step
  "report_inv tombstones (min u64_max (tombstones * 16))" for tombstones
proof unfold_locales
  fix s :: "nat \<times> report_hub"
  assume "\<exists>deck limits rows run. s = (0, hub_new (inbox_new deck limits) rows tombstones run)"
  moreover have "ledger_ok tombstones (task_ledger_new tombstones)" by (rule tasks.starts_inv) simp
  moreover have "unit_table_ok (min u64_max (tombstones * 16)) (unit_table_new (min u64_max (tombstones * 16)))" by (rule units.starts_inv) simp
  ultimately show "report_inv tombstones (min u64_max (tombstones * 16)) s"
    by (auto simp: report_inv_def current_def hub_new_def guarded_new_def hub_ok_def reports_ok_def report_state_new_def outcome_store_new_def table_ok_default[unfolded claim_table_default_def]
        tasks_backed_def units_backed_def get_claim_def claim_table_default_def inbox_new_def task_ledger_new_def unit_get_def
        unit_table_new_def Let_def)
next
  fix s s' :: "nat \<times> report_hub"
  assume inv: "report_inv tombstones (min u64_max (tombstones * 16)) s" and "report_step s s'"
  from this(2,1) show "report_inv tombstones (min u64_max (tombstones * 16)) s'"
  proof (induction rule: report_step.induct)
    case rp_task
    then show ?case unfolding admit_task_claim_def by (rule admit_with_inv) (rule task_section_ok)
  next
    case rp_uncorrelated
    then show ?case unfolding admit_uncorrelated_claim_def by (rule admit_with_inv) (rule uncorrelated_section_ok)
  next
    case rp_terminal
    then show ?case unfolding install_terminal_claim_def by (rule admit_with_inv) (rule terminal_section_ok)
  next
    case rp_phase
    then show ?case unfolding note_claim_phase_def by (rule claim_section_inv) (simp add: claim_generation_def)
  next
    case rp_stage
    then show ?case unfolding stage_claim_def by (rule claim_section_inv) (simp add: claim_generation_def)
  next
    case rp_marked
    then show ?case unfolding note_claim_marked_def by (rule claim_section_inv) (simp add: claim_generation_def)
  next
    case rp_commit
    then show ?case using commit_claim_inv by blast
  next
    case rp_fail
    then show ?case using fail_claim_inv by blast
  next
    case rp_registered
    then show ?case using registered_inv by blast
  next
    case rp_ended
    then show ?case using ended_inv by blast
  next
    case rp_abort
    then show ?case using abort_inv by blast
  next
    case (rp_routes n h routes owed wakes)
    then show ?case by (auto simp: report_inv_def current_def hub_ok_def)
  next
    case (rp_reserve h ib n)
    then show ?case using reserved_reserve(2)[OF rp_reserve(1)] by (intro report_inv_inbox[OF rp_reserve(2), of ib]) simp_all
  next
    case (rp_reserve_delegate now pane c k h ib n)
    then have "ib_reserved_replies ib = Suc (ib_reserved_replies (rh_inbox h))"
      by (auto simp: reserve_delegate_def dest!: admitD(2) split: prod.splits sum.splits if_splits)
    then show ?case by (intro report_inv_inbox[OF rp_reserve_delegate(2), of ib]) simp_all
  next
    case (rp_release n h)
    then show ?case by (auto simp: report_inv_def current_def hub_ok_def)
  next
    case (rp_reply draws now to_r c h ib i_msg n clk)
    show ?case
    proof (cases "current h")
      case None
      then have "hub_drain clk (h\<lparr>rh_inbox := ib\<rparr>) = h\<lparr>rh_inbox := ib\<lparr>ib_events := []\<rparr>\<rparr>"
        by (auto simp: hub_drain_def drain_events_def in_section_def guarded_section_def current_def Let_def)
      with None show ?thesis by (simp add: report_inv_def current_def)
    next
      case (Some v)
      then have "0 < ib_reserved_replies (rh_inbox h)" using rp_reply(2) by (simp add: report_inv_def hub_ok_def)
      then show ?thesis using rp_reply reserved_post_reserved[OF rp_reply(1)] by (intro drained_inv) auto
    qed
  next
    case (rp_inbox op h ib n clk)
    then show ?case by (intro drained_inv) auto
  next
    case (rp_panic n h h')
    then show ?case by (simp add: report_inv_def current_def)
  qed (rule publication_sections_inv task_sections_inv accepted_sections_inv fallback_sections_inv; assumption)+
qed

end
