(* ===== verification/Report_Theorems.thy ===== *)
theory Report_Theorems
  imports Report_Reach
begin

text \<open>
  What the deck promises about reports: claims, tasks, units and reserved room agree in every state it can reach; an
  admission that answers consumes nothing; a staged report is published and a repeat of it is told so; an unstaged
  one that fails leaves its task as it was.
\<close>

section \<open>Agreement\<close>

text \<open>
  C7: Whatever tasks are delegated, units dispatched, replaced and ended, agents exit and reports are claimed, staged,
  committed and failed, and even after a panic tore the report state, what is left of it agrees: a task being
  reported has its claim, made by the very worker generation the task is bound to; a unit is marked claimed
  exactly while a terminal report on it is being saved; one worker generation has at most one claim; and the
  inbox holds reserved room for every claim on top of what others reserved, so that no report loses its room.
\<close>

theorem reports_agree:
  assumes "report_step\<^sup>*\<^sup>* (0, hub_new (inbox_new deck limits) rows tombstones run) (others, h)" and "current h = Some v"
  shows "(\<forall>task t i. map_of (tl_open (rs_tasks v)) task = Some t \<and> tk_state t = TaskReporting i \<longrightarrow>
        (\<exists>c. get_claim i v = Some c \<and> rc_mode c = ModeTask task
           \<and> rc_worker_pane c = tb_worker_pane (tk_binding t) \<and> rc_worker_agent c = tb_worker_agent (tk_binding t)))
    \<and> (\<forall>u i. unit_get u (rs_units v) = Some (UnitClaimed i) \<longleftrightarrow> (\<exists>c pane. get_claim i v = Some c \<and> rc_mode c = ModeTerminal u pane))
    \<and> (\<forall>i j c d. get_claim i v = Some c \<and> get_claim j v = Some d \<and> claim_generation c = claim_generation d \<longrightarrow> i = j)
    \<and> ib_reserved_replies (rh_inbox h) = others + length (ct_claims (rs_claims v))"
proof -
  have "report_inv tombstones (min u64_max (tombstones * 16)) (others, h)"
    using reports.reachable_inv[OF _ assms(1)] by blast
  then have ok: "hub_ok tombstones (min u64_max (tombstones * 16)) others h v" using assms(2) by (simp add: report_inv_def)
  note v = reports_okD[OF conjunct1[OF ok[unfolded hub_ok_def]]]
  have "i = j" if "get_claim i v = Some c" "get_claim j v = Some d" "claim_generation c = claim_generation d" for i j c d
    using table_okD(2)[OF v(1)] that unfolding get_claim_def by (metis option.inject)
  with v(4,5) ok show ?thesis unfolding tasks_backed_def units_backed_def hub_ok_def by blast
qed

section \<open>Admission\<close>

lemma in_section_keeps:
  assumes "\<not> gd_torn (rh_reports h)" "current h = Some v" "f (h\<lparr>rh_reports := \<lparr>gd_value = None, gd_torn = True\<rparr>\<rparr>) v = (h\<lparr>rh_reports := \<lparr>gd_value = None, gd_torn = True\<rparr>\<rparr>, v, r)"
  shows "in_section f h = (h, Returned r)"
proof -
  have "rh_reports h = \<lparr>gd_value = Some v, gd_torn = False\<rparr>" using assms(1,2) by (cases "rh_reports h") (simp add: current_def)
  then have "h\<lparr>rh_reports := \<lparr>gd_value = Some v, gd_torn = False\<rparr>\<rparr> = h" by (cases h) simp
  with assms show ?thesis by (simp add: in_section_def guarded_section_def current_def)
qed

lemma reserve_room_refused: "reserve_room store bytes ib = (ib', Inl reply) \<Longrightarrow> ib' = ib"
  by (auto simp: reserve_room_def reserve_reply_def release_reply_def split: prod.splits sum.splits)

lemma claim_with_room_refused:
  "claim_with_room store spec mode to role debt unit_name message_id h v = (h', v', Inl reply) \<Longrightarrow> h' = h \<and> v' = v"
  by (auto simp: claim_with_room_def dest!: reserve_room_refused split: prod.splits sum.splits)

definition answers :: "(report_hub \<Rightarrow> report_state \<Rightarrow> report_hub \<times> report_state \<times> claim_admission) \<Rightarrow> bool" where
  "answers sec \<longleftrightarrow> (\<forall>h v h' v' adm. sec h v = (h', v', adm) \<longrightarrow> (\<exists>cl. adm = AdmClaimed cl) \<or> (h' = h \<and> v' = v))"

lemma sections_answer:
  "answers (task_section store spec task seat message_id)" "answers (uncorrelated_section store spec to role message_id)"
  "answers (terminal_section store spec facts message_id)"
proof -
  show "answers (task_section store spec task seat message_id)"
    by (auto simp: answers_def task_section_def Let_def dest: claim_with_room_refused
        split: task_lookup.splits task_state.splits if_splits prod.splits sum.splits)
  show "answers (uncorrelated_section store spec to role message_id)"
    by (auto simp: answers_def uncorrelated_section_def dest: claim_with_room_refused split: if_splits prod.splits sum.splits)
  show "answers (terminal_section store spec facts message_id)"
    by (auto simp: answers_def terminal_section_def claim_unit_def Let_def dest: claim_with_room_refused
        split: option.splits if_splits prod.splits sum.splits)
qed

lemma admit_with_answers:
  assumes "\<And>s. answers (sec s)" "admit_with store sec h = (h', adm)" "\<And>cl. adm \<noteq> AdmClaimed cl"
  shows "h' = h"
proof (cases store)
  case None
  then show ?thesis using assms(2) by (simp add: admit_with_def)
next
  case (Some s)
  show ?thesis
  proof (cases "sv_lock s \<and> \<not> gd_torn (rh_reports h) \<and> current h \<noteq> None")
    case False
    then show ?thesis using assms(2) Some by (auto simp: admit_with_def in_section_def guarded_section_def current_def split: if_splits)
  next
    case True
    then obtain v where v: "current h = Some v" by blast
    let ?h = "h\<lparr>rh_reports := \<lparr>gd_value = None, gd_torn = True\<rparr>\<rparr>"
    obtain h1 v1 a where f: "sec s ?h v = (h1, v1, a)" by (metis prod_cases3)
    have "adm = a" using assms(2) Some True v f by (simp add: admit_with_def in_section_def guarded_section_def current_def)
    then have "h1 = ?h" "v1 = v" using assms(1,3) f unfolding answers_def by blast+
    then have "in_section (sec s) h = (h, Returned a)" using in_section_keeps[of h v "sec s" a] f v True by simp
    then show ?thesis using assms(2) Some True by (simp add: admit_with_def)
  qed
qed

text \<open>
  C13: A report that is not claimed costs nothing. Whenever the deck answers a report of a task, of a dispatched unit or
  of neither, refuses it, or tells it to wait for another being saved, the hub is left exactly as it was: no
  room stays reserved, no claim, task, unit or route changes. This includes the file store refusing its room after the
  inbox gave its own.
\<close>

theorem answer_costs_nothing:
  assumes "admit_task_claim store bytes spec task seat h = (h', adm) \<or> admit_uncorrelated_claim store bytes spec to role h = (h', adm)
    \<or> install_terminal_claim store bytes spec facts h = (h', adm)" and "\<And>cl. adm \<noteq> AdmClaimed cl"
  shows "h' = h"
  using assms(1) admit_with_answers[OF _ _ assms(2)] sections_answer
  unfolding admit_task_claim_def admit_uncorrelated_claim_def install_terminal_claim_def by metis

section \<open>The commit\<close>

text \<open>The events a commit makes: its message queued, its task's message superseded. Neither changes what is kept about reports.\<close>

definition harmless :: "string \<Rightarrow> inbox_event \<Rightarrow> bool" where
  "harmless task ev \<longleftrightarrow> ev_state ev = NQueued
     \<or> (ev_state ev = NUndeliverable \<and> ev_undeliverable_reason ev = Some undeliverable_reason.Superseded \<and> ev_message_id ev = task)"

lemma harmless_events:
  assumes "list_all (harmless task) evs" "map_of (rs_accepted (fst s)) task = None"
  shows "fold (settle_event clk) evs s = s"
  using assms(1)
proof (induction evs)
  case (Cons ev evs)
  then have "settle_event clk ev s = s"
    using assms(2) by (cases s) (auto simp: settle_event_def harmless_def settle_task_def settle_accepted_report_def settle_undeliverable_def)
  with Cons show ?case by simp
qed simp

lemma trim_keeps_live: "m \<in> set (ib_messages ib) \<Longrightarrow> is_live m \<Longrightarrow> m \<in> set (ib_messages (trim_history now ib))"
  using arg_cong[OF trim_history_live[of now ib], of set] unfolding set_filter by blast

lemma events_insert_direct:
  assumes "insert_direct draws now r c ib = Some (ib', i)"
  shows "\<exists>evs. ib_events ib' = ib_events ib @ evs \<and> list_all (harmless task) evs"
    and "\<exists>m \<in> set (ib_messages ib'). m_id m = i \<and> m_recipient m = Some r \<and> m_body m = c_body c \<and> m_state m = Queued \<and> m_provenance m = c_provenance c"
    and "c_id c = Some j \<Longrightarrow> i = j"
proof -
  obtain ib1 where reg: "register_id draws now (c_id c) ib = Some (ib1, i)"
    and ib': "ib' = trim_history now (inbox_insert now i message_kind.Direct (AddrDirect (ib_deck ib1) (rcp_pane_id r)) (Some r) c (c_body c) ib1)"
    using assms by (auto simp: insert_direct_def split: option.splits)
  show "\<exists>evs. ib_events ib' = ib_events ib @ evs \<and> list_all (harmless task) evs"
    unfolding ib' by (auto simp: register_id_fields(5)[OF reg] trim_history_def inbox_insert_def Let_def transition_events harmless_def
        transition_event_def message_transition_def)
  let ?m = "message_transition now Queued (new_message now i message_kind.Direct (AddrDirect (ib_deck ib1) (rcp_pane_id r)) (Some r) c (c_body c))"
  have "?m \<in> set (ib_messages ib')"
    unfolding ib' by (rule trim_keeps_live) (simp_all add: is_live_def message_transition_def)
  moreover have "m_id ?m = i \<and> m_recipient ?m = Some r \<and> m_body ?m = c_body c \<and> m_state ?m = Queued \<and> m_provenance ?m = c_provenance c"
    by (simp add: message_transition_def new_message_def)
  ultimately show "\<exists>m \<in> set (ib_messages ib'). m_id m = i \<and> m_recipient m = Some r \<and> m_body m = c_body c \<and> m_state m = Queued \<and> m_provenance m = c_provenance c"
    by blast
  show "i = j" if "c_id c = Some j" using reg that by (auto simp: register_id_def Let_def split: prod.splits)
qed

lemma events_post_reserved:
  assumes "post_reserved_reply draws now r c ib = Some (ib', res)"
  shows "\<exists>evs. ib_events ib' = ib_events ib @ evs \<and> list_all (harmless task) evs"
  using assms unfolding post_reserved_reply_def
proof (cases rule: when_admitted_cases)
  case (refused e)
  then show ?thesis by (auto dest!: admitD(2))
next
  case (went a ib1 i)
  from events_insert_direct(1)[OF went(2)] admitD(2)[OF went(1)] show ?thesis by auto
qed

lemma events_retire: "\<exists>evs. ib_events (fst (retire now i pane undeliverable_reason.Superseded ib)) = ib_events ib @ evs \<and> list_all (harmless i) evs"
  by (auto simp: retire_def trim_history_def Let_def transition_events harmless_def transition_event_def message_transition_def
      undeliverable_reason_of_def dest!: position_SomeD split: option.splits)

lemma retire_keeps_others:
  assumes "m \<in> set (ib_messages ib)" "is_live m" "m_id m \<noteq> i"
  shows "m \<in> set (ib_messages (fst (retire now i pane reason ib)))"
proof (cases "position (\<lambda>m. m_id m = i \<and> \<not> is_terminal (m_state m) \<and> held_for_pane pane m) (ib_messages ib)")
  case None
  with assms(1) show ?thesis by (simp add: retire_def)
next
  case (Some k)
  note k = position_SomeD[OF Some]
  obtain j where j: "j < length (ib_messages ib)" "ib_messages ib ! j = m" using assms(1) by (auto simp: in_set_conv_nth)
  with k assms(3) have "j \<noteq> k" by auto
  with j have "m \<in> set (ib_messages (transition k now (Undeliverable now reason) ib))" by (auto simp: in_set_conv_nth intro!: exI[of _ j])
  with Some show ?thesis using trim_keeps_live[OF _ assms(2)] by (simp add: retire_def)
qed

lemma post_claim_answers:
  assumes "message_id_parse (rc_message_id c) \<noteq> None"
  shows "post_claim draws now to c ib \<noteq> None"
proof -
  have "c_id (claim_content c) \<noteq> None" using assms by (simp add: claim_content_def)
  then have "insert_direct draws now r (claim_content c) ib1 \<noteq> None" for r ib1
    by (auto simp: insert_direct_def register_id_def Let_def split: option.splits prod.splits)
  then have "post_reserved_reply draws now r (claim_content c) ib \<noteq> None" for r
    by (auto simp: post_reserved_reply_def when_admitted_def split: prod.splits sum.splits)
  then show ?thesis by (auto simp: post_claim_def split: option.splits)
qed

lemma events_post_claim:
  assumes "post_claim draws now to c ib = Some (ib', posted)"
  shows "\<exists>evs. ib_events ib' = ib_events ib @ evs \<and> list_all (harmless task) evs"
  using assms events_post_reserved by (cases to) (auto simp: post_claim_def split: option.splits)

text \<open>Whom a report can reach: its recipient, neither marked gone nor without a running agent.\<close>

definition reachable_recipient :: "(string \<Rightarrow> string \<Rightarrow> bool) \<Rightarrow> report_claim \<Rightarrow> recipient \<Rightarrow> bool" where
  "reachable_recipient live c r \<longleftrightarrow>
     rc_recipient c = Some r \<and> \<not> rc_recipient_gone c \<and> (\<exists>a. rcp_agent_id r = Some a \<and> live (rcp_pane_id r) a)"

lemma live_recipient_iff: "live_recipient live c = Some r \<longleftrightarrow> reachable_recipient live c r"
  by (auto simp: live_recipient_def reachable_recipient_def split: option.splits)

text \<open>The report lies unread in its recipient's inbox, and the deck remembers whose it is.\<close>

definition report_delivered :: "report_claim \<Rightarrow> string \<Rightarrow> content \<Rightarrow> report_hub \<Rightarrow> report_state \<Rightarrow> bool" where
  "report_delivered c task post h v \<longleftrightarrow>
     (\<exists>m \<in> set (ib_messages (rh_inbox h)). m_id m = rc_message_id c \<and> m_recipient m = rc_recipient c \<and> m_body m = c_body post
        \<and> m_state m = Queued \<and> m_provenance m = Some (ProvTask task (rc_report_id c) (claim_producer c)))
     \<and> (\<exists>e. map_of (rs_accepted v) (rc_message_id c) = Some e \<and> ar_report_id e = Some (rc_report_id c) \<and> ar_task_id e = Some task
        \<and> ar_producer e = \<lparr>pt_pane_id = rc_worker_pane c, pt_agent_id = rc_worker_agent c, pt_role = rc_role c\<rparr> \<and> \<not> ar_handed e)"

text \<open>A recovery row shows the report, with why it was not delivered unless an older row shows it already; its file is kept.\<close>

definition report_recovered :: "report_claim \<Rightarrow> string \<Rightarrow> outcome_cause \<Rightarrow> report_state \<Rightarrow> report_hub \<Rightarrow> report_state \<Rightarrow> bool" where
  "report_recovered c task cause v h' v' \<longleftrightarrow>
     StoreRecovered (rc_report_id c) \<in> set (rh_store h')
     \<and> (\<exists>row \<in> set (os_rows (rs_outcomes v')). oc_report_id (row_outcome row) = Some (rc_report_id c)
        \<and> (\<not> has_report (rc_report_id c) (rs_outcomes v) \<longrightarrow>
             oc_task_id (row_outcome row) = Some task \<and> oc_cause (row_outcome row) = cause \<and> oc_delivery (row_outcome row) = NeverHanded
             \<and> oc_phase (row_outcome row) = OpWorkerReport))"

lemma posted_some:
  "(case res of Inr i \<Rightarrow> Some i | Inl e \<Rightarrow> None) = Some j \<longleftrightarrow> res = Inr j" "(case res of Inr i \<Rightarrow> Some i | Inl e \<Rightarrow> None) = None \<longleftrightarrow> (\<exists>e. res = Inl e)"
  by (cases res; simp)+

lemma post_claim_posted:
  assumes "post_claim draws now (live_recipient live c) c ib = Some (ib', Some i)" "message_id_parse (rc_message_id c) \<noteq> None"
    "rc_prepared c = Some post" "rc_mode c = ModeTask task"
  shows "i = rc_message_id c" "\<exists>r. reachable_recipient live c r \<and> snd (admit_reserved_reply now (claim_content c) ib) = Inr ()"
    "\<exists>m \<in> set (ib_messages ib'). m_id m = rc_message_id c \<and> m_recipient m = rc_recipient c \<and> m_body m = c_body post
       \<and> m_state m = Queued \<and> m_provenance m = Some (ProvTask task (rc_report_id c) (claim_producer c))"
proof -
  obtain r where r: "live_recipient live c = Some r" "post_reserved_reply draws now r (claim_content c) ib = Some (ib', Inr i)"
    using assms(1) by (auto simp: post_claim_def posted_some split: option.splits)
  have id: "c_id (claim_content c) = Some (rc_message_id c)"
    using assms(2) by (auto simp: claim_content_def message_id_parse_def split: if_splits)
  from r(2) obtain ib1 where adm: "admit_reserved_reply now (claim_content c) ib = (ib1, Inr ())"
      and ins: "insert_direct draws now r (claim_content c) (release_reply ib1) = Some (ib', i)"
    unfolding post_reserved_reply_def by (cases rule: when_admitted_cases) auto
  show i: "i = rc_message_id c" by (rule events_insert_direct(3)[OF ins id])
  show "\<exists>r. reachable_recipient live c r \<and> snd (admit_reserved_reply now (claim_content c) ib) = Inr ()"
    using r(1) adm by (auto simp: live_recipient_iff)
  have "rc_recipient c = Some r" using r(1) by (simp add: live_recipient_iff reachable_recipient_def)
  then show "\<exists>m \<in> set (ib_messages ib'). m_id m = rc_message_id c \<and> m_recipient m = rc_recipient c \<and> m_body m = c_body post
       \<and> m_state m = Queued \<and> m_provenance m = Some (ProvTask task (rc_report_id c) (claim_producer c))"
    using events_insert_direct(2)[OF ins] assms(3,4) i by (auto simp: claim_content_def)
qed

lemma post_claim_refused:
  assumes "post_claim draws now (live_recipient live c) c ib = Some (ib', None)"
  shows "\<not> (reachable_recipient live c r \<and> snd (admit_reserved_reply now (claim_content c) ib) = Inr ())"
  using assms
  by (auto simp: live_recipient_iff[symmetric] post_claim_def posted_some post_reserved_reply_def elim!: when_admitted_cases split: option.splits)

lemma newest_row_kept:
  "0 < os_max st \<Longrightarrow> \<exists>row \<in> set (os_rows (fst (outcome_insert o1 i st))). \<exists>k n. row_outcome row = o1\<lparr>oc_outcome_id := k, oc_revision := n\<rparr>"
  by (auto simp: outcome_insert_def Let_def evict_rows_drop)

lemma publish_pinned:
  assumes post: "post_claim draws now (live_recipient live c) c (rh_inbox h) = Some (ib, posted)"
    and pub: "publish_claim clk (live_recipient live c) c posted (h\<lparr>rh_inbox := ib\<rparr>) v = (h1, v1, dest)"
    and c: "message_id_parse (rc_message_id c) \<noteq> None" "rc_prepared c = Some post" "rc_mode c = ModeTask task" "0 < os_max (rs_outcomes v)"
  shows "dest = DestInbox \<longleftrightarrow> (\<exists>r. reachable_recipient live c r \<and> snd (admit_reserved_reply now (claim_content c) (rh_inbox h)) = Inr ())"
    "dest = DestInbox \<Longrightarrow> report_delivered c task post h1 v1"
    "dest = DestRecovery \<Longrightarrow> report_recovered c task (if \<exists>r. reachable_recipient live c r then CauseRecipientRefused else CauseRecipientExited) v h1 v1"
    "dest = DestInbox \<or> dest = DestRecovery" "ib_events (rh_inbox h1) = ib_events ib"
    "map_of (rs_accepted v) i = None \<Longrightarrow> i \<noteq> rc_message_id c \<Longrightarrow> map_of (rs_accepted v1) i = None"
proof -
  show "ib_events (rh_inbox h1) = ib_events ib" "dest = DestInbox \<or> dest = DestRecovery"
    using pub by (auto simp: publish_claim_def Let_def split: option.splits)
  show "dest = DestInbox \<longleftrightarrow> (\<exists>r. reachable_recipient live c r \<and> snd (admit_reserved_reply now (claim_content c) (rh_inbox h)) = Inr ())"
    using pub post_claim_posted(2)[OF _ c(1-3)] post_claim_refused post by (cases posted) (fastforce simp: publish_claim_def Let_def)+
  show "map_of (rs_accepted v1) i = None" if "map_of (rs_accepted v) i = None" "i \<noteq> rc_message_id c"
  proof (cases posted)
    case (Some j)
    then show ?thesis using that pub post_claim_posted(1)[OF _ c(1-3)] post by (auto simp: publish_claim_def update_conv')
  next
    case None
    then show ?thesis using that pub by (auto simp: publish_claim_def Let_def split: if_splits)
  qed
  show "report_delivered c task post h1 v1" if inbox: "dest = DestInbox"
  proof -
    obtain i where i: "posted = Some i" using pub inbox by (auto simp: publish_claim_def Let_def split: option.splits)
    note posted = post_claim_posted[OF post[unfolded i] c(1-3)]
    have "rh_inbox h1 = ib" "rs_accepted v1 = AList.update (rc_message_id c) (claim_entry c) (rs_accepted v)"
      using pub i posted(1) by (auto simp: publish_claim_def)
    with posted(3) c(3) show ?thesis by (simp add: report_delivered_def update_conv' claim_entry_def claim_task_def)
  qed
  show "report_recovered c task (if \<exists>r. reachable_recipient live c r then CauseRecipientRefused else CauseRecipientExited) v h1 v1"
    if "dest = DestRecovery"
  proof -
    have none: "posted = None" using pub that by (cases posted) (auto simp: publish_claim_def)
    have cond: "(rc_recipient c \<noteq> None \<and> live_recipient live c \<noteq> None) = (\<exists>r. reachable_recipient live c r)"
      by (auto simp: reachable_recipient_def live_recipient_def split: option.splits)
    have h1: "rh_store h1 = rh_store h @ [StoreRecovered (rc_report_id c)]"
      and v1: "v1 = (if has_report (rc_report_id c) (rs_outcomes v) then v
          else v\<lparr>rs_outcomes := fst (outcome_insert (into_row (claim_entry c)
            (if \<exists>r. reachable_recipient live c r then CauseRecipientRefused else CauseRecipientExited) (dn_ms clk)) None (rs_outcomes v))\<rparr>)"
      using pub unfolding none publish_claim_def Let_def cond by auto
    show ?thesis
    proof (cases "has_report (rc_report_id c) (rs_outcomes v)")
      case True
      with h1 v1 show ?thesis by (auto simp: report_recovered_def has_report_def list_ex_iff)
    next
      case False
      let ?row = "into_row (claim_entry c) (if \<exists>r. reachable_recipient live c r then CauseRecipientRefused else CauseRecipientExited) (dn_ms clk)"
      obtain row k n where "row \<in> set (os_rows (rs_outcomes v1))" "row_outcome row = ?row\<lparr>oc_outcome_id := k, oc_revision := n\<rparr>"
        using newest_row_kept[OF c(4), of ?row None] v1 False by auto
      with h1 c(3) show ?thesis
        by (auto simp: report_recovered_def into_row_def claim_entry_def claim_task_def claim_row_phase_def intro!: bexI[of _ row])
    qed
  qed
qed

text \<open>A staged claim on a task, committed with no events of others pending.\<close>

lemma commit_section_task:
  assumes ok: "hub_ok per cap others h v" and c: "get_claim i v = Some c" "rc_mode c = ModeTask task"
    and t: "map_of (tl_open (rs_tasks v)) task = Some t"
    and staged: "rc_prepared c = Some post" "rc_phase c \<noteq> CpApplying" "cv_store_lock cv"
    and msg: "message_id_parse (rc_message_id c) \<noteq> None" and quiet_now: "ib_events (rh_inbox h) = []"
    and own: "task \<noteq> rc_message_id c" "map_of (rs_accepted v) task = None"
  obtains h' v' dest s where "commit_section draws cv i h v = Some (h', v', Committed dest (rc_report_id c) (Some task)
        (Some (rc_worker_pane c, \<lparr>lg_arm_id = rc_arm_id c, lg_seq = rc_seq c, lg_instance = None\<rparr>)))"
    "dest = DestInbox \<or> dest = DestRecovery" "get_claim i v' = None" "length (ct_claims (rs_claims v')) + 1 = length (ct_claims (rs_claims v))"
    "task_lookup_of task (rs_tasks v') = LookupSettled s" "st_tombstone s = TombReported (Some (rc_report_id c)) (Some (rc_digest c)) dest"
    "st_worker_pane s = tb_worker_pane (tk_binding t)" "st_worker_agent s = tb_worker_agent (tk_binding t)"
    "dest = DestInbox \<longleftrightarrow> (\<exists>r. reachable_recipient (cv_live cv) c r \<and> snd (admit_reserved_reply (cv_now cv) (claim_content c) (rh_inbox h)) = Inr ())"
    "dest = DestInbox \<Longrightarrow> report_delivered c task post h' v'"
    "dest = DestRecovery \<Longrightarrow> report_recovered c task (if \<exists>r. reachable_recipient (cv_live cv) c r then CauseRecipientRefused else CauseRecipientExited) v h' v'"
proof -
  note v = reports_okD[OF conjunct1[OF ok[unfolded hub_ok_def]]]
  let ?to = "live_recipient (cv_live cv) c"
  obtain ib posted where post: "post_claim draws (cv_now cv) ?to c (rh_inbox h) = Some (ib, posted)"
    using post_claim_answers[OF msg] by fastforce
  obtain h1 v1 dest where pub: "publish_claim (cv_clk cv) ?to c posted (h\<lparr>rh_inbox := ib\<rparr>) v = (h1, v1, dest)" by (metis prod_cases3)
  note rest = publish_claim_rest[OF pub] and pinned = publish_pinned[OF post pub msg staged(1) c(2) v(6)]
  let ?v1 = "v1\<lparr>rs_claims := fst (claim_remove i (rs_claims v1))\<rparr>"
  let ?tomb = "TombReported (Some (rc_report_id c)) (Some (rc_digest c)) dest"
  define h2 where "h2 = retire_reported_task (cv_now cv) task (rc_worker_pane c) h1"
  define v2 where "v2 = fst (settle_in task ?tomb ?v1)"
  have settle: "settle_claim (cv_now cv) dest (cv_routes_held cv) c h1 ?v1 = (h2, v2)"
    using c(2) by (simp add: settle_claim_def h2_def v2_def)
  have same2: "rs_accepted v2 = rs_accepted v1" "rs_outcomes v2 = rs_outcomes v1" "rs_claims v2 = fst (claim_remove i (rs_claims v))"
    "rs_tasks v2 = fst (task_settle task ?tomb (rs_tasks v1))"
    using rest(1) by (simp_all add: v2_def settle_in_def case_prod_unfold)
  have "list_all (harmless task) (ib_events (rh_inbox h2))"
    using events_post_claim[OF post, of task] events_retire[of "cv_now cv" task "rc_worker_pane c" "rh_inbox h1"] quiet_now pinned(5)
    by (auto simp: h2_def retire_reported_task_def)
  then have "fold (settle_event (cv_clk cv)) (ib_events (rh_inbox h2)) (v2, []) = (v2, [])"
    using pinned(6)[OF own(2,1)] same2(1) by (intro harmless_events) simp_all
  then have drain: "drain_events_in_section (cv_clk cv) h2 v2 = (h2\<lparr>rh_inbox := (rh_inbox h2)\<lparr>ib_events := []\<rparr>\<rparr>, v2)"
    by (simp add: drain_events_in_section_def drain_events_def)
  let ?h3 = "h2\<lparr>rh_inbox := (rh_inbox h2)\<lparr>ib_events := []\<rparr>\<rparr>"
  have result: "commit_section draws cv i h v = Some (?h3, v2, Committed dest (rc_report_id c) (Some task)
        (Some (rc_worker_pane c, \<lparr>lg_arm_id = rc_arm_id c, lg_seq = rc_seq c, lg_instance = None\<rparr>)))"
    using c staged post pub settle drain by (cases "rc_phase c") (auto simp: commit_section_def claim_task_def claim_debt_def)
  note tomb = task_settle_ok(3,4)[OF v(2) t, of ?tomb]
  show thesis
  proof (rule that[OF result pinned(4)])
    show "get_claim i v2 = None" by (simp add: get_claim_def same2 removed_claims)
    show "length (ct_claims (rs_claims v2)) + 1 = length (ct_claims (rs_claims v))"
      using removed_length[OF v(1)] c(1) by (simp add: get_claim_def same2)
    show "task_lookup_of task (rs_tasks v2) = LookupSettled (the (map_of (tl_settled (rs_tasks v2)) task))"
      "st_tombstone (the (map_of (tl_settled (rs_tasks v2)) task)) = ?tomb"
      "st_worker_pane (the (map_of (tl_settled (rs_tasks v2)) task)) = tb_worker_pane (tk_binding t)"
      "st_worker_agent (the (map_of (tl_settled (rs_tasks v2)) task)) = tb_worker_agent (tk_binding t)"
      using tomb same2(4) rest(3) by (auto simp: task_lookup_of_def delete_conv')
    show "dest = DestInbox \<longleftrightarrow> (\<exists>r. reachable_recipient (cv_live cv) c r \<and> snd (admit_reserved_reply (cv_now cv) (claim_content c) (rh_inbox h)) = Inr ())"
      by (rule pinned(1))
    show "report_delivered c task post ?h3 v2" if "dest = DestInbox"
    proof -
      have "m \<in> set (ib_messages (rh_inbox h2))" if "m \<in> set (ib_messages (rh_inbox h1))" "m_id m = rc_message_id c" "m_state m = Queued" for m
        using retire_keeps_others[OF that(1)] that(2,3) own(1) by (simp add: h2_def retire_reported_task_def is_live_def)
      with pinned(2)[OF that] show ?thesis unfolding report_delivered_def by (auto simp: same2)
    qed
    show "report_recovered c task (if \<exists>r. reachable_recipient (cv_live cv) c r then CauseRecipientRefused else CauseRecipientExited) v ?h3 v2"
      if "dest = DestRecovery"
      using pinned(3)[OF that] by (simp add: report_recovered_def same2 h2_def retire_reported_task_def)
  qed
qed

lemma in_section_opt_returned:
  assumes "\<not> gd_torn (rh_reports h)" "current h = Some v" "f (h\<lparr>rh_reports := \<lparr>gd_value = None, gd_torn = True\<rparr>\<rparr>) v = Some (h', v', r)"
  shows "in_section_opt f h = Some (h'\<lparr>rh_reports := \<lparr>gd_value = Some v', gd_torn = False\<rparr>\<rparr>, Returned r)"
  using assms by (simp add: in_section_opt_def current_def Let_def)

lemma task_repeat_answered:
  assumes "\<not> gd_torn (rh_reports h)" "current h = Some v" "sv_lock sv" "task_lookup_of task (rs_tasks v) = LookupSettled s"
  shows "admit_task_claim (Some sv) bytes spec task seat h = (h, AdmAnswer (settled_answer spec task s))"
proof -
  let ?sec = "task_section sv spec task seat (message_id_generate (ib_deck (rh_inbox h)) bytes)"
  have "in_section ?sec h = (h, Returned (AdmAnswer (settled_answer spec task s)))"
    by (rule in_section_keeps[OF assms(1,2)]) (simp add: task_section_def assms(4))
  with assms(3) show ?thesis by (simp add: admit_task_claim_def admit_with_def)
qed

text \<open>
  C8: A staged report of a task is accepted once, in one place. In every state the deck can reach, when a claim on an open
  task is staged, the file store can be locked, no event is pending and the task's message is no report's own, its commit
  answers. The report goes to the inbox exactly when its recipient is not marked gone, its agent runs and the inbox admits
  the post: it then lies there queued, under the claim's message id, with the staged body and the task's provenance, and is
  remembered as accepted from that worker. Otherwise it goes to recovery: its file is kept, and a recovery row names it, a new one
  also its task and whether the recipient refused or was gone. The claim and its reserved room are gone, and the same
  worker reporting the task again right after is told it was already accepted, with that report's id and place and whether
  the repeat differs, and nothing changes.
\<close>

theorem staged_report_accepted_once:
  assumes "report_step\<^sup>*\<^sup>* (0, hub_new (inbox_new deck limits) rows tombstones run) (others, h)"
    and "\<not> gd_torn (rh_reports h)" "current h = Some v"
    and "get_claim i v = Some c" "rc_mode c = ModeTask task" "map_of (tl_open (rs_tasks v)) task = Some t" "tk_state t = TaskReporting i"
    and "rc_prepared c = Some post" "rc_phase c \<noteq> CpApplying" "cv_store_lock cv"
    and "message_id_parse (rc_message_id c) \<noteq> None" "ib_events (rh_inbox h) = []"
    and "task \<noteq> rc_message_id c" "map_of (rs_accepted v) task = None"
  shows "\<exists>h' v' dest.
      commit_claim draws (Some cv) i h = Some (h', Committed dest (rc_report_id c) (Some task)
        (Some (rc_worker_pane c, \<lparr>lg_arm_id = rc_arm_id c, lg_seq = rc_seq c, lg_instance = None\<rparr>)))
      \<and> (dest = DestInbox \<or> dest = DestRecovery) \<and> current h' = Some v' \<and> get_claim i v' = None
      \<and> (dest = DestInbox \<longleftrightarrow>
           (\<exists>r. reachable_recipient (cv_live cv) c r \<and> snd (admit_reserved_reply (cv_now cv) (claim_content c) (rh_inbox h)) = Inr ()))
      \<and> (dest = DestInbox \<longrightarrow> report_delivered c task post h' v')
      \<and> (dest = DestRecovery \<longrightarrow>
           report_recovered c task (if \<exists>r. reachable_recipient (cv_live cv) c r then CauseRecipientRefused else CauseRecipientExited) v h' v')
      \<and> ib_reserved_replies (rh_inbox h') + 1 = ib_reserved_replies (rh_inbox h)
      \<and> (\<forall>sv bytes spec seat. sv_lock sv \<and> sp_worker_pane spec = rc_worker_pane c \<and> sp_worker_agent spec = rc_worker_agent c \<longrightarrow>
           admit_task_claim (Some sv) bytes spec task seat h' =
             (h', AdmAnswer (answered_with WdAlreadyAccepted (Some task) (Some (rc_report_id c)) dest (rc_digest c \<noteq> sp_digest spec))))"
proof -
  let ?per = tombstones and ?cap = "min u64_max (tombstones * 16)"
  let ?cause = "if \<exists>r. reachable_recipient (cv_live cv) c r then CauseRecipientRefused else CauseRecipientExited"
  have "report_inv ?per ?cap (others, h)" using reports.reachable_inv[OF _ assms(1)] by blast
  then have ok: "hub_ok ?per ?cap others h v" using assms(3) by (simp add: report_inv_def)
  note v = reports_okD[OF conjunct1[OF ok[unfolded hub_ok_def]]]
  from tasks_backedE[OF v(4) assms(6,7)] assms(4)
  have worker: "rc_worker_pane c = tb_worker_pane (tk_binding t)" "rc_worker_agent c = tb_worker_agent (tk_binding t)" by auto
  let ?h = "h\<lparr>rh_reports := \<lparr>gd_value = None, gd_torn = True\<rparr>\<rparr>"
  have ok0: "hub_ok ?per ?cap others ?h v" using ok by simp
  have ev0: "ib_events (rh_inbox ?h) = []" using assms(12) by simp
  obtain h1 v1 dest s where commit: "commit_section draws cv i ?h v = Some (h1, v1, Committed dest (rc_report_id c) (Some task)
        (Some (rc_worker_pane c, \<lparr>lg_arm_id = rc_arm_id c, lg_seq = rc_seq c, lg_instance = None\<rparr>)))"
    and dest: "dest = DestInbox \<or> dest = DestRecovery" and gone: "get_claim i v1 = None"
    and len: "length (ct_claims (rs_claims v1)) + 1 = length (ct_claims (rs_claims v))"
    and s: "task_lookup_of task (rs_tasks v1) = LookupSettled s" "st_tombstone s = TombReported (Some (rc_report_id c)) (Some (rc_digest c)) dest"
      "st_worker_pane s = tb_worker_pane (tk_binding t)" "st_worker_agent s = tb_worker_agent (tk_binding t)"
    and place: "dest = DestInbox \<longleftrightarrow> (\<exists>r. reachable_recipient (cv_live cv) c r
        \<and> snd (admit_reserved_reply (cv_now cv) (claim_content c) (rh_inbox ?h)) = Inr ())"
      "dest = DestInbox \<Longrightarrow> report_delivered c task post h1 v1" "dest = DestRecovery \<Longrightarrow> report_recovered c task ?cause v h1 v1"
    by (rule commit_section_task[OF ok0 assms(4,5,6,8,9,10,11) ev0 assms(13,14), of draws]) blast
  define h' where "h' = h1\<lparr>rh_reports := \<lparr>gd_value = Some v1, gd_torn = False\<rparr>\<rparr>"
  have cur: "current h' = Some v1" "\<not> gd_torn (rh_reports h')" by (simp_all add: h'_def current_def)
  have place': "dest = DestInbox \<longrightarrow> report_delivered c task post h' v1" "dest = DestRecovery \<longrightarrow> report_recovered c task ?cause v h' v1"
    using place(2,3) by (simp_all add: report_delivered_def report_recovered_def h'_def)
  have done_: "commit_claim draws (Some cv) i h = Some (h', Committed dest (rc_report_id c) (Some task)
        (Some (rc_worker_pane c, \<lparr>lg_arm_id = rc_arm_id c, lg_seq = rc_seq c, lg_instance = None\<rparr>)))"
    using in_section_opt_returned[of h v "commit_section draws cv i", OF assms(2,3) commit] by (simp add: h'_def commit_claim_def)
  have "hub_ok ?per ?cap others h1 v1" by (rule commit_section_ok[OF ok0 commit])
  then have room: "ib_reserved_replies (rh_inbox h') + 1 = ib_reserved_replies (rh_inbox h)"
    using ok len by (simp add: hub_ok_def h'_def)
  have repeat: "admit_task_claim (Some sv) bytes spec task seat h' =
      (h', AdmAnswer (answered_with WdAlreadyAccepted (Some task) (Some (rc_report_id c)) dest (rc_digest c \<noteq> sp_digest spec)))"
    if "sv_lock sv" "sp_worker_pane spec = rc_worker_pane c" "sp_worker_agent spec = rc_worker_agent c" for sv bytes spec seat
    using task_repeat_answered[OF cur(2,1) that(1) s(1)] s(2-4) that worker by (simp add: settled_answer_def)
  show ?thesis
    using done_ dest cur(1) gone place(1) place' room repeat by (intro exI[of _ h'] exI[of _ v1] exI[of _ dest]) simp
qed

section \<open>The failure\<close>

lemma in_section_opt_keeps:
  assumes "\<not> gd_torn (rh_reports h)" "current h = Some v"
    "f (h\<lparr>rh_reports := \<lparr>gd_value = None, gd_torn = True\<rparr>\<rparr>) v = Some (h\<lparr>rh_reports := \<lparr>gd_value = None, gd_torn = True\<rparr>\<rparr>, v, r)"
  shows "in_section_opt f h = Some (h, Returned r)"
proof -
  have "rh_reports h = \<lparr>gd_value = Some v, gd_torn = False\<rparr>" using assms(1,2) by (cases "rh_reports h") (simp add: current_def)
  then have "h\<lparr>rh_reports := \<lparr>gd_value = Some v, gd_torn = False\<rparr>\<rparr> = h" by (cases h) simp
  with in_section_opt_returned[of h v f, OF assms] show ?thesis by simp
qed

lemma readmitted:
  assumes ok: "table_ok (rs_claims v)" and c: "get_claim i v = Some c" "rc_worker_pane c = sp_worker_pane spec" "rc_worker_agent c = sp_worker_agent spec"
    and w: "rs_claims w = fst (claim_remove i (rs_claims v))" "map_of (tl_open (rs_tasks w)) task = Some t" "tk_state t = TaskOpen k"
      "tb_worker_pane (tk_binding t) = sp_worker_pane spec" "tb_worker_agent (tk_binding t) = sp_worker_agent spec"
    and seat: "tb_instance (tk_binding t) = None \<or> seat = None \<or> tb_instance (tk_binding t) = seat"
    and h: "\<not> gd_torn (rh_reports h)" "current h = Some w"
    and room: "sv_lock sv" "snd (reserve_reply (rh_inbox h)) = Inr ()" "sv_reserve sv (sp_file_bytes spec) = Inr r"
  shows "\<exists>h' cl. admit_task_claim (Some sv) bytes spec task seat h = (h', AdmClaimed cl) \<and> i < cd_claim_id cl"
proof -
  let ?h = "h\<lparr>rh_reports := \<lparr>gd_value = None, gd_torn = True\<rparr>\<rparr>"
  let ?mid = "message_id_generate (ib_deck (rh_inbox h)) bytes"
  have index: "map_of (ct_by_generation (rs_claims v)) (claim_generation c) = Some i" "i \<le> ct_next (rs_claims v)"
    using table_okD(2,4)[OF ok] c(1) by (auto simp: get_claim_def)
  then have "\<not> generation_claims spec w" "ct_next (rs_claims w) = ct_next (rs_claims v)"
    using c by (auto simp: generation_claims_def claim_of_generation_def w(1) claim_remove_def get_claim_def claim_generation_def delete_conv')
  moreover obtain ib where "reserve_reply (rh_inbox h) = (ib, Inr ())" using room(2) by (metis prod.collapse)
  moreover have "task_lookup_of task (rs_tasks w) = LookupOpen t" using w(2) by (simp add: task_lookup_of_def)
  ultimately have "\<exists>h1 w1 cl. task_section sv spec task seat ?mid ?h w = (h1, w1, AdmClaimed cl) \<and> i < cd_claim_id cl"
    using w(3-5) seat room(3) index(2)
    by (simp add: task_section_def Let_def claim_with_room_def reserve_room_def install_def claim_mint_def)
  then obtain h1 w1 cl where "task_section sv spec task seat ?mid ?h w = (h1, w1, AdmClaimed cl)" "i < cd_claim_id cl" by blast
  then show ?thesis using h room(1) by (simp add: admit_task_claim_def admit_with_def in_section_def guarded_section_def current_def)
qed

lemma fail_claim_cases:
  assumes "report_step\<^sup>*\<^sup>* (0, hub_new (inbox_new deck limits) rows tombstones run) (others, h)"
    and "\<not> gd_torn (rh_reports h)" "current h = Some v" "get_claim i v = Some c"
  shows "phase_rank CpStaged \<le> phase_rank (rc_phase c) \<Longrightarrow> fail_claim sx (Some lock) i h = Some (h, FailStaged)"
    and "phase_rank (rc_phase c) < phase_rank CpStaged \<Longrightarrow> fail_claim sx (Some False) i h = Some (h, FailUnavailable)"
    and "phase_rank (rc_phase c) < phase_rank CpStaged \<Longrightarrow> rc_mode c = ModeTask task \<Longrightarrow> rc_worker_gone c = None \<Longrightarrow>
      map_of (tl_open (rs_tasks v)) task = Some t \<Longrightarrow> tk_state t = TaskReporting i \<Longrightarrow>
      \<exists>h' v'. fail_claim sx (Some True) i h = Some (h', ClaimFailed None) \<and> current h' = Some v' \<and> get_claim i v' = None
        \<and> ib_reserved_replies (rh_inbox h') + 1 = ib_reserved_replies (rh_inbox h)
        \<and> (\<forall>sv r bytes spec seat. sv_lock sv \<and> snd (reserve_reply (rh_inbox h')) = Inr () \<and> sv_reserve sv (sp_file_bytes spec) = Inr r
             \<and> sp_worker_pane spec = rc_worker_pane c \<and> sp_worker_agent spec = rc_worker_agent c
             \<and> (tb_instance (tk_binding t) = None \<or> seat = None \<or> seat = tb_instance (tk_binding t)) \<longrightarrow>
             (\<exists>h'' cl. admit_task_claim (Some sv) bytes spec task seat h' = (h'', AdmClaimed cl) \<and> i < cd_claim_id cl))"
proof -
  let ?h = "h\<lparr>rh_reports := \<lparr>gd_value = None, gd_torn = True\<rparr>\<rparr>"
  show "fail_claim sx (Some lock) i h = Some (h, FailStaged)" if "phase_rank CpStaged \<le> phase_rank (rc_phase c)"
  proof -
    have "fail_section sx lock i ?h v = Some (?h, v, FailStaged)" using that assms(4) by (simp add: fail_section_def)
    then show ?thesis using in_section_opt_keeps[of h v "fail_section sx lock i", OF assms(2,3)] by (simp add: fail_claim_def)
  qed
  show "fail_claim sx (Some False) i h = Some (h, FailUnavailable)" if "phase_rank (rc_phase c) < phase_rank CpStaged"
  proof -
    have "fail_section sx False i ?h v = Some (?h, v, FailUnavailable)" using that assms(4) by (simp add: fail_section_def)
    then show ?thesis using in_section_opt_keeps[of h v "fail_section sx False i", OF assms(2,3)] by (simp add: fail_claim_def)
  qed
  assume p: "phase_rank (rc_phase c) < phase_rank CpStaged" "rc_mode c = ModeTask task" "rc_worker_gone c = None"
    and t: "map_of (tl_open (rs_tasks v)) task = Some t" "tk_state t = TaskReporting i"
  let ?per = tombstones and ?cap = "min u64_max (tombstones * 16)"
  have "report_inv ?per ?cap (others, h)" using reports.reachable_inv[OF _ assms(1)] by blast
  then have ok: "hub_ok ?per ?cap others ?h v" using assms(3) by (simp add: report_inv_def)
  note v = reports_okD[OF conjunct1[OF ok[unfolded hub_ok_def]]]
  from tasks_backedE[OF v(4) t] assms(4)
  have worker: "rc_worker_pane c = tb_worker_pane (tk_binding t)" "rc_worker_agent c = tb_worker_agent (tk_binding t)" by auto
  have "rc_room c" using table_okD(1)[OF v(1)] assms(4) by (simp add: get_claim_def)
  define h1 where "h1 = ?h\<lparr>rh_inbox := release_reply (rh_inbox h)\<rparr>"
  define w where "w = change_task task reopen (v\<lparr>rs_claims := fst (claim_remove i (rs_claims v))\<rparr>)"
  define h' where "h' = h1\<lparr>rh_reports := \<lparr>gd_value = Some w, gd_torn = False\<rparr>\<rparr>"
  have sec: "fail_section sx True i ?h v = Some (h1, w, ClaimFailed None)"
    using assms(4) p \<open>rc_room c\<close> by (simp add: fail_section_def fail_settle_def h1_def w_def)
  have fail: "fail_claim sx (Some True) i h = Some (h', ClaimFailed None)"
    using in_section_opt_returned[of h v "fail_section sx True i", OF assms(2,3) sec] by (simp add: fail_claim_def h'_def)
  have cur: "current h' = Some w" "\<not> gd_torn (rh_reports h')" by (simp_all add: h'_def current_def)
  have claims: "rs_claims w = fst (claim_remove i (rs_claims v))" by (simp add: w_def)
  have gone: "get_claim i w = None" by (simp add: get_claim_def claims removed_claims)
  have "length (ct_claims (rs_claims v)) \<noteq> 0" using assms(4) by (auto simp: get_claim_def)
  then have "ib_reserved_replies (rh_inbox h) \<noteq> 0" using ok by (simp add: hub_ok_def)
  then have room: "ib_reserved_replies (rh_inbox h') + 1 = ib_reserved_replies (rh_inbox h)" by (simp add: h'_def h1_def)
  have open_again: "map_of (tl_open (rs_tasks w)) task = Some (reopen t)" using t(1) by (simp add: w_def open_change_task)
  have "\<exists>h'' cl. admit_task_claim (Some sv) bytes spec task seat h' = (h'', AdmClaimed cl) \<and> i < cd_claim_id cl"
    if "sv_lock sv" "snd (reserve_reply (rh_inbox h')) = Inr ()" "sv_reserve sv (sp_file_bytes spec) = Inr r"
      "sp_worker_pane spec = rc_worker_pane c" "sp_worker_agent spec = rc_worker_agent c"
      "tb_instance (tk_binding t) = None \<or> seat = None \<or> seat = tb_instance (tk_binding t)" for sv r bytes spec seat
    using worker that by (intro readmitted[OF v(1) assms(4) _ _ claims open_again _ _ _ _ cur(2,1)]) (auto simp: reopen_def)
  with fail cur(1) gone room show "\<exists>h' v'. fail_claim sx (Some True) i h = Some (h', ClaimFailed None) \<and> current h' = Some v' \<and> get_claim i v' = None
        \<and> ib_reserved_replies (rh_inbox h') + 1 = ib_reserved_replies (rh_inbox h)
        \<and> (\<forall>sv r bytes spec seat. sv_lock sv \<and> snd (reserve_reply (rh_inbox h')) = Inr () \<and> sv_reserve sv (sp_file_bytes spec) = Inr r
             \<and> sp_worker_pane spec = rc_worker_pane c \<and> sp_worker_agent spec = rc_worker_agent c
             \<and> (tb_instance (tk_binding t) = None \<or> seat = None \<or> seat = tb_instance (tk_binding t)) \<longrightarrow>
             (\<exists>h'' cl. admit_task_claim (Some sv) bytes spec task seat h' = (h'', AdmClaimed cl) \<and> i < cd_claim_id cl))" by blast
qed

text \<open>
  C14: A report that could not be saved is undone, and only while it may be. Without a file store, or before staging when the
  store's lock is broken, failing a claim answers that the deck is unavailable and changes nothing. Failing a claim that
  is staged or further is refused and changes nothing. With the lock to be had, failing a claim on a task before that,
  while its worker is still there, removes the claim, gives its reserved room back and opens the task again, so that the
  same worker reporting it anew, with room to be had and with no attested seat or one in the task's own instance (any
  seat, for a task bound to none), gets a new claim.
\<close>

theorem failed_report_undone:
  assumes "report_step\<^sup>*\<^sup>* (0, hub_new (inbox_new deck limits) rows tombstones run) (others, h)"
    and "\<not> gd_torn (rh_reports h)" "current h = Some v" "get_claim i v = Some c"
  shows "fail_claim sx None i h = Some (h, FailUnavailable)
    \<and> (phase_rank (rc_phase c) < phase_rank CpStaged \<longrightarrow> fail_claim sx (Some False) i h = Some (h, FailUnavailable))
    \<and> (phase_rank CpStaged \<le> phase_rank (rc_phase c) \<longrightarrow> fail_claim sx (Some lock) i h = Some (h, FailStaged))
    \<and> (phase_rank (rc_phase c) < phase_rank CpStaged \<and> rc_mode c = ModeTask task \<and> rc_worker_gone c = None
        \<and> map_of (tl_open (rs_tasks v)) task = Some t \<and> tk_state t = TaskReporting i \<longrightarrow>
      (\<exists>h' v'. fail_claim sx (Some True) i h = Some (h', ClaimFailed None) \<and> current h' = Some v' \<and> get_claim i v' = None
        \<and> ib_reserved_replies (rh_inbox h') + 1 = ib_reserved_replies (rh_inbox h)
        \<and> (\<forall>sv r bytes spec seat. sv_lock sv \<and> snd (reserve_reply (rh_inbox h')) = Inr () \<and> sv_reserve sv (sp_file_bytes spec) = Inr r
             \<and> sp_worker_pane spec = rc_worker_pane c \<and> sp_worker_agent spec = rc_worker_agent c
             \<and> (tb_instance (tk_binding t) = None \<or> seat = None \<or> seat = tb_instance (tk_binding t)) \<longrightarrow>
             (\<exists>h'' cl. admit_task_claim (Some sv) bytes spec task seat h' = (h'', AdmClaimed cl) \<and> i < cd_claim_id cl))))"
proof -
  have "fail_claim sx None i h = Some (h, FailUnavailable)" by (simp add: fail_claim_def)
  with fail_claim_cases[OF assms] show ?thesis by blast
qed

section \<open>One report\<close>

text \<open>A small run: a task is delegated, its worker's report is claimed, then staged.\<close>

definition sample_hub :: report_hub where
  "sample_hub = hub_new (inbox_new ''deckabcd'' sample_limits) 4 4 [7]"

definition sample_delegation :: task_binding where
  "sample_delegation =
     \<lparr>tb_worker_pane = ''p1'', tb_worker_agent = ''a1'', tb_instance = None, tb_role = ''coder'',
      tb_orchestrator = Some (recipient_bound ''p0'' ''a0''), tb_arm_id = Some 7, tb_seq = Some 1\<rparr>"

definition sample_spec :: claim_spec where
  "sample_spec = \<lparr>sp_worker_pane = ''p1'', sp_worker_agent = ''a1'', sp_digest = ''d1'', sp_report_id = ''r1'', sp_file_bytes = 10\<rparr>"

definition sample_store :: store_view where
  "sample_store = \<lparr>sv_lock = True, sv_reserve = (\<lambda>_. Inr 0)\<rparr>"

definition sample_bytes :: "nat list" where
  "sample_bytes = [0, 1, 2, 3, 4, 5, 6, 7]"

definition sample_bound :: report_hub where
  "sample_bound = fst (bind_delegate ''t1'' sample_delegation sample_hub)"

definition sample_reporting :: report_hub where
  "sample_reporting = fst (admit_task_claim (Some sample_store) sample_bytes sample_spec ''t1'' None sample_bound)"

definition sample_post :: content where
  "sample_post = content_from_deck ''notice'' ''work-done'' ''done''"

definition sample_staged :: report_hub where
  "sample_staged = fst (stage_claim 1 sample_post sample_reporting)"

definition sample_view :: commit_view where
  "sample_view = \<lparr>cv_now = 5, cv_clk = \<lparr>dn_wall = 0, dn_mono = 5, dn_ms = 5\<rparr>, cv_live = (\<lambda>pane agent. pane = ''p0'' \<and> agent = ''a0''), cv_store_lock = True, cv_routes_held = False\<rparr>"

definition sample_section :: section_view where
  "sample_section = \<lparr>sx_draws = [], sx_now = 5, sx_clk = \<lparr>dn_wall = 0, dn_mono = 5, dn_ms = 5\<rparr>, sx_live = (\<lambda>_ _. True), sx_registered = (\<lambda>_. True)\<rparr>"

definition sample_claim_of :: "report_hub \<Rightarrow> report_claim option" where
  "sample_claim_of h = Option.bind (current h) (get_claim 1)"

definition sample_task_of :: "report_hub \<Rightarrow> deck_task option" where
  "sample_task_of h = Option.bind (current h) (\<lambda>v. map_of (tl_open (rs_tasks v)) ''t1'')"

lemma sample_reporting_reached: "report_step\<^sup>*\<^sup>* (0, hub_new (inbox_new ''deckabcd'' sample_limits) 4 4 [7]) (0, sample_reporting)"
proof -
  have "report_step (0, hub_new (inbox_new ''deckabcd'' sample_limits) 4 4 [7]) (0, sample_bound)"
    using rp_bind[of 0 sample_hub "''t1''" sample_delegation] by (simp add: sample_bound_def sample_hub_def)
  moreover have "report_step (0, sample_bound) (0, sample_reporting)" unfolding sample_reporting_def by (rule rp_task)
  ultimately show ?thesis by simp
qed

lemma sample_staged_reached: "report_step\<^sup>*\<^sup>* (0, hub_new (inbox_new ''deckabcd'' sample_limits) 4 4 [7]) (0, sample_staged)"
  using sample_reporting_reached by (rule rtranclp.rtrancl_into_rtrancl) (unfold sample_staged_def, rule rp_stage)

lemma sample_facts:
  "\<not> gd_torn (rh_reports sample_reporting)" "\<not> gd_torn (rh_reports sample_staged)"
  "current sample_reporting \<noteq> None" "current sample_staged \<noteq> None"
  "map_option tk_state (sample_task_of sample_reporting) = Some (TaskReporting 1)"
  "map_option tk_state (sample_task_of sample_staged) = Some (TaskReporting 1)"
  by code_simp+

lemma sample_claim_facts:
  "map_option (\<lambda>c. (rc_mode c, rc_phase c, rc_worker_gone c, rc_worker_pane c, rc_worker_agent c)) (sample_claim_of sample_reporting)
     = Some (ModeTask ''t1'', CpAdmitted, None, ''p1'', ''a1'')"
  "map_option (\<lambda>c. (rc_mode c, rc_phase c, rc_prepared c = Some sample_post, message_id_parse (rc_message_id c) \<noteq> None, rc_report_id c, rc_digest c))
       (sample_claim_of sample_staged)
     = Some (ModeTask ''t1'', CpStaged, True, True, ''r1'', ''d1'')"
  "map_option (\<lambda>c. (rc_worker_pane c, rc_worker_agent c, rc_arm_id c, rc_seq c)) (sample_claim_of sample_staged) = Some (''p1'', ''a1'', Some 7, Some 1)"
  "ib_events (rh_inbox sample_staged) = []"
  "map_option (\<lambda>c. (rc_message_id c = ''t1'', rc_recipient_gone c, rc_recipient c,
       snd (admit_reserved_reply 5 (claim_content c) (rh_inbox sample_staged)) = Inr ())) (sample_claim_of sample_staged)
     = Some (False, False, Some (recipient_bound ''p0'' ''a0''), True)"
  "map_option (\<lambda>v. map_of (rs_accepted v) ''t1'') (current sample_staged) = Some None"
  by code_simp+

theorem reports_agree_witness:
  "\<exists>v c. current sample_reporting = Some v \<and> get_claim 1 v = Some c \<and> rc_mode c = ModeTask ''t1'' \<and> rc_worker_pane c = ''p1''
     \<and> ib_reserved_replies (rh_inbox sample_reporting) = length (ct_claims (rs_claims v))"
proof -
  obtain v where v: "current sample_reporting = Some v" using sample_facts(3) by blast
  note agree = reports_agree[OF sample_reporting_reached v]
  obtain t where t: "map_of (tl_open (rs_tasks v)) ''t1'' = Some t" "tk_state t = TaskReporting 1"
    using sample_facts(5) by (auto simp: sample_task_of_def v)
  with agree obtain c where c: "get_claim 1 v = Some c" "rc_mode c = ModeTask ''t1''" by blast
  then have "rc_worker_pane c = ''p1''" using sample_claim_facts(1) by (simp add: sample_claim_of_def v)
  with v c agree show ?thesis by auto
qed

theorem answer_costs_nothing_witness:
  "\<exists>adm. admit_task_claim (Some sample_store) sample_bytes sample_spec ''t1'' None sample_reporting = (sample_reporting, adm) \<and> adm = AdmWait 1"
proof -
  have wait: "snd (admit_task_claim (Some sample_store) sample_bytes sample_spec ''t1'' None sample_reporting) = AdmWait 1" by code_simp
  then obtain h' where h': "admit_task_claim (Some sample_store) sample_bytes sample_spec ''t1'' None sample_reporting = (h', AdmWait 1)"
    by (metis prod.collapse)
  have "h' = sample_reporting" by (rule answer_costs_nothing[OF disjI1[OF h']]) simp
  with h' show ?thesis by blast
qed

theorem staged_report_accepted_once_witness:
  "\<exists>h' v' c. commit_claim [] (Some sample_view) 1 sample_staged =
       Some (h', Committed DestInbox ''r1'' (Some ''t1'') (Some (''p1'', \<lparr>lg_arm_id = Some 7, lg_seq = Some 1, lg_instance = None\<rparr>)))
     \<and> current h' = Some v' \<and> sample_claim_of sample_staged = Some c \<and> report_delivered c ''t1'' sample_post h' v'
     \<and> admit_task_claim (Some sample_store) sample_bytes sample_spec ''t1'' None h' =
         (h', AdmAnswer (answered_with WdAlreadyAccepted (Some ''t1'') (Some ''r1'') DestInbox False))"
proof -
  obtain v where v: "current sample_staged = Some v" using sample_facts(4) by blast
  obtain t where t: "map_of (tl_open (rs_tasks v)) ''t1'' = Some t" "tk_state t = TaskReporting 1"
    using sample_facts(6) by (auto simp: sample_task_of_def v)
  obtain c where c: "get_claim 1 v = Some c" "rc_mode c = ModeTask ''t1''" "rc_prepared c = Some sample_post" "rc_phase c \<noteq> CpApplying"
      "message_id_parse (rc_message_id c) \<noteq> None"
    and vals: "rc_report_id c = ''r1''" "rc_digest c = ''d1''" "rc_worker_pane c = ''p1''" "rc_worker_agent c = ''a1''"
      "rc_arm_id c = Some 7" "rc_seq c = Some 1"
    and reach: "''t1'' \<noteq> rc_message_id c" "\<not> rc_recipient_gone c" "rc_recipient c = Some (recipient_bound ''p0'' ''a0'')"
      "snd (admit_reserved_reply 5 (claim_content c) (rh_inbox sample_staged)) = Inr ()"
    using sample_claim_facts(2,3,5) by (auto simp: sample_claim_of_def v)
  have free: "map_of (rs_accepted v) ''t1'' = None" using sample_claim_facts(6) by (simp add: v)
  have view: "cv_store_lock sample_view" "cv_now sample_view = 5" by (simp_all add: sample_view_def)
  have "\<exists>r. reachable_recipient (cv_live sample_view) c r"
    using reach(2,3) by (simp add: reachable_recipient_def sample_view_def recipient_bound_def)
  with reach(4) view(2) staged_report_accepted_once[OF sample_staged_reached sample_facts(2) v c(1,2) t c(3,4) view(1) c(5) sample_claim_facts(4) reach(1) free, of "[]"]
  obtain h' v' where h': "commit_claim [] (Some sample_view) 1 sample_staged =
       Some (h', Committed DestInbox ''r1'' (Some ''t1'') (Some (''p1'', \<lparr>lg_arm_id = Some 7, lg_seq = Some 1, lg_instance = None\<rparr>)))"
    and v': "current h' = Some v'" "report_delivered c ''t1'' sample_post h' v'"
    and again: "\<And>sv bytes spec seat. sv_lock sv \<and> sp_worker_pane spec = ''p1'' \<and> sp_worker_agent spec = ''a1'' \<longrightarrow>
           admit_task_claim (Some sv) bytes spec ''t1'' seat h' =
             (h', AdmAnswer (answered_with WdAlreadyAccepted (Some ''t1'') (Some ''r1'') DestInbox (''d1'' \<noteq> sp_digest spec)))"
    unfolding vals by auto
  from h' v' v c(1) again[of sample_store sample_spec sample_bytes None] show ?thesis
    by (auto simp: sample_store_def sample_spec_def sample_claim_of_def)
qed

theorem failed_report_undone_witness:
  "fail_claim sample_section (Some True) 1 sample_staged = Some (sample_staged, FailStaged)
   \<and> fail_claim sample_section (Some False) 1 sample_reporting = Some (sample_reporting, FailUnavailable)
   \<and> (\<exists>h' v'. fail_claim sample_section (Some True) 1 sample_reporting = Some (h', ClaimFailed None) \<and> current h' = Some v' \<and> get_claim 1 v' = None
        \<and> ib_reserved_replies (rh_inbox h') + 1 = ib_reserved_replies (rh_inbox sample_reporting))"
proof (intro conjI)
  obtain v c where v: "current sample_staged = Some v" "get_claim 1 v = Some c" "rc_phase c = CpStaged"
    using sample_facts(4) sample_claim_facts(2) by (auto simp: sample_claim_of_def)
  show "fail_claim sample_section (Some True) 1 sample_staged = Some (sample_staged, FailStaged)"
    using failed_report_undone[OF sample_staged_reached sample_facts(2) v(1,2), of sample_section True] v(3) by simp
  obtain w d where w: "current sample_reporting = Some w" "get_claim 1 w = Some d"
      "rc_mode d = ModeTask ''t1''" "rc_phase d = CpAdmitted" "rc_worker_gone d = None"
    using sample_facts(3) sample_claim_facts(1) by (auto simp: sample_claim_of_def)
  obtain t where t: "map_of (tl_open (rs_tasks w)) ''t1'' = Some t" "tk_state t = TaskReporting 1"
    using sample_facts(5) by (auto simp: sample_task_of_def w)
  have early: "phase_rank (rc_phase d) < phase_rank CpStaged" by (simp add: w)
  note undone = failed_report_undone[OF sample_reporting_reached sample_facts(1) w(1,2), of sample_section True "''t1''" t]
  show "fail_claim sample_section (Some False) 1 sample_reporting = Some (sample_reporting, FailUnavailable)" using undone early by blast
  show "\<exists>h' v'. fail_claim sample_section (Some True) 1 sample_reporting = Some (h', ClaimFailed None) \<and> current h' = Some v' \<and> get_claim 1 v' = None
        \<and> ib_reserved_replies (rh_inbox h') + 1 = ib_reserved_replies (rh_inbox sample_reporting)"
    using undone early w(3,5) t by blast
qed

end
