(* ===== verification/Spec2Isabelle.thy ===== *)
theory Spec2Isabelle
  imports
    Inbox_Theorems Inbox_Bounds Inbox_Memory Inbox_Delivery Inbox_Time Inbox_Scope Txn_Props Ledger_Props Bell_Props
    Registry_Props Order_Props Prep_Token Evidence_Props Attempt_Tick Report_Theorems
begin

text \<open>
  A verification development for \<^verbatim>\<open>dot-agent-deck\<close>, a daemon that runs coding agents in terminal panes
  and carries messages between them. The Rust sources are under \<^verbatim>\<open>src/src/\<close>; this theory imports the
  whole development and holds no definitions of its own.

  \<^bold>\<open>The program.\<close> A client asks the daemon to start an agent in a pane. The registry
  (\<^verbatim>\<open>agent_pty.rs\<close>) reserves the pane and mints a capability token for the child before it is forked.
  The child reports what it does over the hook socket; each report is checked against the token
  (\<^verbatim>\<open>hook_provenance.rs\<close>) and applied in the order the connections were accepted
  (\<^verbatim>\<open>hook_event_order.rs\<close>). Agents send each other messages, publish on topics and offer work through
  the deck's inbox (\<^verbatim>\<open>inbox.rs\<close>). When messages wait for an idle agent the doorbell
  (\<^verbatim>\<open>doorbell.rs\<close>) decides to ring: a transaction (\<^verbatim>\<open>doorbell_txn.rs\<close>) types one line into the agent's
  composer, and must never touch what the user typed there; the ledger (\<^verbatim>\<open>ingress_ledger.rs\<close>) tells it
  whether anyone else has written to the pane.

  \<^bold>\<open>Shared theories.\<close>
  \<^item> \<^verbatim>\<open>Deck_Prelude\<close>: time as natural numbers, the iterator vocabulary of the sources on lists, loops over
    the indices of a list.
  \<^item> \<^verbatim>\<open>Rust_Str\<close>: strings as bytes, UTF-8 boundaries, trimming and searching.
  \<^item> \<^verbatim>\<open>Step_Invariant\<close>: the locales every state machine below is an instance of. \<open>step_invariant\<close> is a step
    relation with an invariant its steps keep; \<open>counted_steps\<close> adds a measure.
  \<^item> \<^verbatim>\<open>Deck_Ids\<close>, \<^verbatim>\<open>Untrusted_Text\<close>: ids, tokens and addresses (\<^verbatim>\<open>deck_identity.rs\<close>, \<^verbatim>\<open>inbox.rs\<close>), and what
    is done to text before a terminal shows it (\<^verbatim>\<open>untrusted_text.rs\<close>).

  \<^bold>\<open>The inbox\<close> (\<^verbatim>\<open>inbox.rs\<close>). \<^verbatim>\<open>Inbox_Data\<close> and \<^verbatim>\<open>Inbox_Ops\<close> hold the record of the inbox and one
  definition per method: posting, publishing, offers, assignment, acknowledgement, claims, agent exits,
  the ticker, trimming and reads. \<^verbatim>\<open>Inbox_Scope\<close> has the resolution of scopes and subscriptions.
  \<^verbatim>\<open>Inbox_Steps\<close> states the life of a message as a step relation, the specification the methods refine;
  \<^verbatim>\<open>Inbox_Inv\<close>, \<^verbatim>\<open>Inbox_History\<close>, \<^verbatim>\<open>Inbox_Dedup\<close>, \<^verbatim>\<open>Inbox_Calls\<close> and \<^verbatim>\<open>Inbox_Safety\<close> carry the invariant
  through every method. The properties are in \<^verbatim>\<open>Inbox_Theorems\<close> (well-formedness, refinement, no live
  message is lost, duplicates), \<^verbatim>\<open>Inbox_Bounds\<close> and \<^verbatim>\<open>Inbox_Memory\<close> (room, backlog, history, rate),
  \<^verbatim>\<open>Inbox_Delivery\<close> (offers, claims, receipts), \<^verbatim>\<open>Inbox_Time\<close> (deadlines, exits) and \<^verbatim>\<open>Inbox_Scope\<close>.

  \<^bold>\<open>The doorbell's transaction\<close> (\<^verbatim>\<open>doorbell_txn.rs\<close>). \<^verbatim>\<open>Doorbell_Latch\<close> has the ring token, the attempt
  counter and the latch cell as machine words; an atomic operation takes the list of values other threads
  left at each failed exchange, so every interleaving is an argument. \<^verbatim>\<open>Latch_Props\<close> shows that each
  operation refines one move of the decoded cell. \<^verbatim>\<open>Doorbell_Txn\<close> is the transaction: frames, jobs and
  claims, every phase, its event handler, the publisher and the seam. \<^verbatim>\<open>Txn_Inv\<close>, \<^verbatim>\<open>Txn_Steps\<close> and
  \<^verbatim>\<open>Txn_Events\<close> carry its invariant, and \<^verbatim>\<open>Txn_Props\<close> shows that a job is queued only on evidence that
  the composer holds what the deck expects, that a ring moves on and that it is over at its deadline.

  \<^bold>\<open>The ledger\<close> (\<^verbatim>\<open>ingress_ledger.rs\<close>). \<^verbatim>\<open>Ingress_Ledger\<close> and \<^verbatim>\<open>Ledger_Props\<close>: tickets, guards, jobs and
  their flag, under every interleaving of guards, writers and drops; each operation is reported once, and
  an unchanged watermark means silence.

  \<^bold>\<open>The doorbell\<close> (\<^verbatim>\<open>doorbell.rs\<close>). \<^verbatim>\<open>Doorbell_Bell\<close> has its timings, the bell of one generation, the
  decision to ring, the stall and hold clocks, and the tick over all generations. \<^verbatim>\<open>Bell_Clocks\<close> compares
  the clocks with references that see the whole history; \<^verbatim>\<open>Bell_Props\<close> shows when it rings, that rings
  keep to the schedule and that one ring is under way at a time.

  \<^bold>\<open>Panes, tokens and hook events.\<close> \<^verbatim>\<open>Hook_Provenance\<close> is the gate; the directory of tokens it asks is
  the locale \<open>token_directory\<close>, with the promises the trait documents as laws. \<^verbatim>\<open>Spawn_Registry\<close> is the part of
  \<^verbatim>\<open>agent_pty.rs\<close> that provides it, \<^verbatim>\<open>Registry_Inv\<close> its invariant over every order of spawns, exits and
  removals, and \<^verbatim>\<open>Registry_Props\<close> interprets the locale and shows that one generation speaks for a pane,
  that a handover is final, and what the gate lets through. \<^verbatim>\<open>Hook_Order\<close> and \<^verbatim>\<open>Order_Props\<close>: the order events
  are applied in and how long one waits. \<^verbatim>\<open>Prep_Token\<close>: the tokens of prepared starts.

  \<^bold>\<open>What the screen shows\<close> (\<^verbatim>\<open>evidence_state.rs\<close>, \<^verbatim>\<open>vt_work.rs\<close>). \<^verbatim>\<open>Evidence_State\<close> has the evidence of one agent:
  the bytes fed, the metered parser and its prices, the marker search and the widths in use. The terminal crates
  vt100 and vte are parameters. \<^verbatim>\<open>Evidence_Props\<close> shows that a frame is called clean exactly when the
  screen was redrawn after its marker, that a frame mark stands until something changes, and what the work costs.

  \<^bold>\<open>Delivery attempts\<close> (\<^verbatim>\<open>inbox_attempts.rs\<close>). \<^verbatim>\<open>Attempt_Data\<close> and \<^verbatim>\<open>Attempt_Ops\<close> hold the model of who was
  handed which message: receivers, attempts and their stages, repeat tokens, the finalizer with its
  rules, the clock, retry, cancel and exit. \<^verbatim>\<open>Attempt_Inv\<close>, \<^verbatim>\<open>Attempt_Final\<close> and \<^verbatim>\<open>Attempt_Steps\<close> carry its invariant;
  \<^verbatim>\<open>Attempt_Props\<close> and \<^verbatim>\<open>Attempt_Tick\<close> show when a message may be handed out again, that an ended one stays ended,
  the budgets kept, and that a tick leaves no message undecided.

  \<^bold>\<open>Reports.\<close> A worker reports a task, or a dispatched unit reports to its caller, and the report must reach its
  recipient's inbox or a recovery row once. \<^verbatim>\<open>Report_Recovery\<close> has the tables of \<^verbatim>\<open>report_recovery.rs\<close> (recovery
  rows, units, tasks, claims) and \<^verbatim>\<open>Report_Props\<close> their invariants and bounds; \<^verbatim>\<open>Report_Text\<close> the escaping and framing of
  names (\<^verbatim>\<open>config_validation.rs\<close>, \<^verbatim>\<open>state.rs\<close>); \<^verbatim>\<open>Dispatch_Routes\<close> the return routes (\<^verbatim>\<open>dispatch_return.rs\<close>) and the
  latch that a panic tears (\<^verbatim>\<open>guarded.rs\<close>, the locale \<open>guarded_field\<close>). Over them stand the sections of the hub:
  \<^verbatim>\<open>Report_Hub\<close> (events, \<^verbatim>\<open>inbox_hub.rs\<close>), \<^verbatim>\<open>Report_Claims\<close> (admission, staging, commit, \<^verbatim>\<open>inbox_claims.rs\<close>) and
  \<^verbatim>\<open>Report_Units\<close> (failure, units and replacements, tasks and exits, \<^verbatim>\<open>inbox_reports.rs\<close>). \<^verbatim>\<open>Report_Inv\<close>,
  \<^verbatim>\<open>Report_Steps\<close> and \<^verbatim>\<open>Report_Reach\<close> carry the invariant through every section, a panic included, and
  \<^verbatim>\<open>Report_Theorems\<close> shows that claims, tasks, units and reserved room agree, where a staged report goes and that it is
  accepted once, that an answer costs nothing, and that a failed report is undone. The bodies of dispatch results held in
  memory for a file that could not be written, with their lifetimes (\<^verbatim>\<open>retained_store.rs\<close>) and the two sections of a retry
  pass, are part of the state; the file store itself answers as an input, and the calls made to it are a list.

  \<^bold>\<open>Modelling choices.\<close> Instants and durations are natural numbers of nanoseconds; a lock held is one
  step. Random draws, operating system bytes and clock readings are arguments. The loops that search for a
  fresh id or token run over the draws given, with the number of tries of the source, and the properties
  say what happens when they run out. The retry loops of the atomics end because the list of interferences
  is finite. The waiting loops (a turn, a seam) run over the list of looks they take, and answer None when
  none of them lets them go on; the liveness properties say when a look does. Counters are unbounded
  except in the latch and token words, whose width is the source's.

  \<^bold>\<open>Not modelled.\<close> Processes, terminals and their byte streams, sockets and JSON (the parsed fields of a
  line are an input), the user interface, git and GitHub access, ssh tunnels, the installation of hooks
  into other programs' configuration files, the desktop application. They are calls of the operating
  system or of other programs, with little state of their own that a definition could be compared with.
  Log lines and the fixtures of end to end tests are left out everywhere. Of the code with state of its
  own, the rest of the daemon side of the inbox (\<^verbatim>\<open>inbox_engine.rs\<close>, \<^verbatim>\<open>inbox_receipt.rs\<close>, the waiters and
  watches of \<^verbatim>\<open>inbox_hub.rs\<close>), the composer readers (\<^verbatim>\<open>doorbell_screen.rs\<close>) and the app state (\<^verbatim>\<open>state.rs\<close>) are
  still open.
\<close>

end
